(* ===== verification/EventQL_Query.thy ===== *)
theory EventQL_Query
  imports EventQL_Lexer
begin

text \<open>
  Compiled event queries and the parser that builds them: \<open>src/internal/core/eventql/query.go\<close> and
  \<open>parser.go\<close>.  Regular expressions are those of Go's \<open>regexp\<close> package: \<open>rc\<close> stands for
  \<open>regexp.Compile\<close> (\<open>None\<close> for its error) and \<open>rm\<close> for \<open>Regexp.MatchString\<close>, so every statement
  holds for any such engine.  The slot \<open>re\<close> of a matcher is an option, as the Go pointer is;
  evaluating a matcher whose pointer is nil is a panic, the value \<open>None\<close>.

  The parser reads the token slice through \<open>cur\<close> and \<open>next\<close>; an index past the end of the slice is
  the error \<open>PanicIndex\<close>.  The state of the parser is the remaining tokens and the query being
  filled.
\<close>

section \<open>Queries\<close>

datatype ql_op = OpEq | OpNeq | OpRe | OpNre

datatype line_op = LineContains | LineNotContains | LineRe | LineNre

definition knownLabels :: "string list" where
  "knownLabels = [''type'', ''source'', ''severity'', ''org'', ''user'']"

record 're label_matcher =
  lm_name :: string
  lm_op :: ql_op
  lm_value :: string
  lm_re :: "'re option"

record 're attr_matcher =
  am_key :: string
  am_op :: ql_op
  am_value :: string
  am_re :: "'re option"

record 're line_matcher =
  ln_op :: line_op
  ln_value :: string
  ln_re :: "'re option"

record 're query =
  q_labels :: "'re label_matcher list"
  q_attrs :: "'re attr_matcher list"
  q_lines :: "'re line_matcher list"

record fields =
  f_type :: string
  f_source :: string
  f_severity :: string
  f_org :: string
  f_user :: string
  f_message :: string
  f_attributes :: "string \<rightharpoonup> string"

definition matchOp :: "('re \<Rightarrow> string \<Rightarrow> bool) \<Rightarrow> ql_op \<Rightarrow> 're option \<Rightarrow> string \<Rightarrow> string \<Rightarrow> bool option" where
  "matchOp rm op re pattern v =
     (case op of
        OpEq \<Rightarrow> Some (v = pattern)
      | OpNeq \<Rightarrow> Some (v \<noteq> pattern)
      | OpRe \<Rightarrow> map_option (\<lambda>r. rm r v) re
      | OpNre \<Rightarrow> map_option (\<lambda>r. \<not> rm r v) re)"

definition label_match :: "('re \<Rightarrow> string \<Rightarrow> bool) \<Rightarrow> 're label_matcher \<Rightarrow> string \<Rightarrow> bool option" where
  "label_match rm m v = matchOp rm (lm_op m) (lm_re m) (lm_value m) v"

definition attr_match :: "('re \<Rightarrow> string \<Rightarrow> bool) \<Rightarrow> 're attr_matcher \<Rightarrow> string \<Rightarrow> bool option" where
  "attr_match rm m v = matchOp rm (am_op m) (am_re m) (am_value m) v"

definition line_match :: "('re \<Rightarrow> string \<Rightarrow> bool) \<Rightarrow> 're line_matcher \<Rightarrow> string \<Rightarrow> bool option" where
  "line_match rm m msg =
     (case ln_op m of
        LineContains \<Rightarrow> Some (str_contains msg (ln_value m))
      | LineNotContains \<Rightarrow> Some (\<not> str_contains msg (ln_value m))
      | LineRe \<Rightarrow> map_option (\<lambda>r. rm r msg) (ln_re m)
      | LineNre \<Rightarrow> map_option (\<lambda>r. \<not> rm r msg) (ln_re m))"

definition labelValue :: "fields \<Rightarrow> string \<Rightarrow> string" where
  "labelValue f name =
     (if name = ''type'' then f_type f
      else if name = ''source'' then f_source f
      else if name = ''severity'' then f_severity f
      else if name = ''org'' then f_org f
      else if name = ''user'' then f_user f
      else [])"

text \<open>A missing attribute reads as the empty string, the zero value of a Go map lookup.\<close>

definition attr_value :: "fields \<Rightarrow> string \<Rightarrow> string" where
  "attr_value f k = (case f_attributes f k of Some v \<Rightarrow> v | None \<Rightarrow> [])"

text \<open>One loop of \<open>Query.Match\<close>: stop at the first matcher that fails (or panics).\<close>

fun all_match :: "('m \<Rightarrow> bool option) \<Rightarrow> 'm list \<Rightarrow> bool option" where
  "all_match f [] = Some True"
| "all_match f (m # ms) =
     (case f m of None \<Rightarrow> None | Some False \<Rightarrow> Some False | Some True \<Rightarrow> all_match f ms)"

definition Match :: "('re \<Rightarrow> string \<Rightarrow> bool) \<Rightarrow> 're query \<Rightarrow> fields \<Rightarrow> bool option" where
  "Match rm q f =
     (case all_match (\<lambda>m. label_match rm m (labelValue f (lm_name m))) (q_labels q) of
        Some True \<Rightarrow>
          (case all_match (\<lambda>m. attr_match rm m (attr_value f (am_key m))) (q_attrs q) of
             Some True \<Rightarrow> all_match (\<lambda>m. line_match rm m (f_message f)) (q_lines q)
           | r \<Rightarrow> r)
      | r \<Rightarrow> r)"

definition HasRegex :: "'re query \<Rightarrow> bool" where
  "HasRegex q =
     (list_ex (\<lambda>m. lm_op m = OpRe \<or> lm_op m = OpNre) (q_labels q) \<or>
      list_ex (\<lambda>m. am_op m = OpRe \<or> am_op m = OpNre) (q_attrs q) \<or>
      list_ex (\<lambda>m. ln_op m = LineRe \<or> ln_op m = LineNre) (q_lines q))"

definition IsEmpty :: "'re query \<Rightarrow> bool" where
  "IsEmpty q = (q_labels q = [] \<and> q_attrs q = [] \<and> q_lines q = [])"

section \<open>The parser\<close>

datatype ql_error =
    LexError lex_error
  | ExpectedLBrace nat
  | ExpectedLabelName nat
  | UnknownLabel string
  | ExpectedOperator nat
  | ExpectedQuotedValue nat
  | ExpectedQuotedLineValue nat
  | ExpectedAttributeName nat
  | ExpectedCommaOrRBrace nat
  | InvalidRegexp string
  | UnexpectedToken string nat
  | PanicIndex

definition cur :: "token list \<Rightarrow> (ql_error, token) result" where
  "cur ts = (case ts of [] \<Rightarrow> Inl PanicIndex | t # _ \<Rightarrow> Inr t)"

definition next_tok :: "token list \<Rightarrow> (ql_error, token \<times> token list) result" where
  "next_tok ts = (case ts of [] \<Rightarrow> Inl PanicIndex | t # r \<Rightarrow> Inr (t, r))"

text \<open>Consume a token of the given kind, or fail with an error built from its position.\<close>

definition expect :: "tok_kind \<Rightarrow> (nat \<Rightarrow> ql_error) \<Rightarrow> token list \<Rightarrow> (ql_error, string \<times> token list) result" where
  "expect k err ts =
     rbind (cur ts) (\<lambda>t. if tkind t \<noteq> k then Inl (err (tpos t))
       else rbind (next_tok ts) (\<lambda>(u, r). Inr (tval u, r)))"

definition parseOp :: "token list \<Rightarrow> (ql_error, ql_op \<times> token list) result" where
  "parseOp ts =
     rbind (cur ts) (\<lambda>t.
       (case tkind t of
          tEq \<Rightarrow> rbind (next_tok ts) (\<lambda>(_, r). Inr (OpEq, r))
        | tNeq \<Rightarrow> rbind (next_tok ts) (\<lambda>(_, r). Inr (OpNeq, r))
        | tRe \<Rightarrow> rbind (next_tok ts) (\<lambda>(_, r). Inr (OpRe, r))
        | tNre \<Rightarrow> rbind (next_tok ts) (\<lambda>(_, r). Inr (OpNre, r))
        | _ \<Rightarrow> Inl (ExpectedOperator (tpos t))))"

definition compile_re :: "(string \<Rightarrow> 're option) \<Rightarrow> bool \<Rightarrow> string \<Rightarrow> (ql_error, 're option) result" where
  "compile_re rc is_re value =
     (if is_re then (case rc value of None \<Rightarrow> Inl (InvalidRegexp value) | Some r \<Rightarrow> Inr (Some r))
      else Inr None)"

text \<open>One matcher of the selector: label name, operator, quoted value, regular expression.\<close>

definition parse_label :: "(string \<Rightarrow> 're option) \<Rightarrow> token list
    \<Rightarrow> (ql_error, 're label_matcher \<times> token list) result" where
  "parse_label rc ts =
     rbind (expect tIdent ExpectedLabelName ts) (\<lambda>(name, ts1).
       if name \<notin> set knownLabels then Inl (UnknownLabel name)
       else rbind (parseOp ts1) (\<lambda>(op, ts2).
         rbind (expect tString ExpectedQuotedValue ts2) (\<lambda>(value, ts3).
           rbind (compile_re rc (op = OpRe \<or> op = OpNre) value) (\<lambda>re.
             Inr (\<lparr>lm_name = name, lm_op = op, lm_value = value, lm_re = re\<rparr>, ts3)))))"

lemma next_tok_shorter: "next_tok ts = Inr (t, r) \<Longrightarrow> length r < length ts"
  by (auto simp: next_tok_def split: list.splits)

lemma expect_shorter: "expect k err ts = Inr (v, r) \<Longrightarrow> length r < length ts"
  by (auto simp: expect_def result_simps dest: next_tok_shorter split: if_splits)

lemma parseOp_shorter: "parseOp ts = Inr (op, r) \<Longrightarrow> length r < length ts"
  by (cases ts; cases "tkind (hd ts)") (auto simp: parseOp_def cur_def next_tok_def)

lemma parse_label_shorter: "parse_label rc ts = Inr (m, r) \<Longrightarrow> length r < length ts"
  by (fastforce simp: parse_label_def result_simps dest: expect_shorter parseOp_shorter
      split: if_splits)

text \<open>The loop of \<open>parseSelector\<close>: matchers separated by commas up to the closing brace.\<close>

function parse_selector_loop :: "(string \<Rightarrow> 're option) \<Rightarrow> token list \<Rightarrow> 're query
    \<Rightarrow> (ql_error, 're query \<times> token list) result" where
  "parse_selector_loop rc ts q =
     rbind (parse_label rc ts) (\<lambda>(m, r).
       rbind (cur r) (\<lambda>t.
         (case tkind t of
            tComma \<Rightarrow> parse_selector_loop rc (tl r) (q\<lparr>q_labels := q_labels q @ [m]\<rparr>)
          | tRBrace \<Rightarrow> Inr (q\<lparr>q_labels := q_labels q @ [m]\<rparr>, tl r)
          | _ \<Rightarrow> Inl (ExpectedCommaOrRBrace (tpos t)))))"
  by pat_completeness auto
termination
  by (relation "measure (\<lambda>(rc, ts, q). length ts)")
     (auto dest!: parse_label_shorter simp: less_diff_conv)

declare parse_selector_loop.simps [simp del]

definition parseSelector :: "(string \<Rightarrow> 're option) \<Rightarrow> token list \<Rightarrow> 're query
    \<Rightarrow> (ql_error, 're query \<times> token list) result" where
  "parseSelector rc ts q =
     rbind (expect tLBrace ExpectedLBrace ts) (\<lambda>(_, ts1).
       rbind (cur ts1) (\<lambda>t.
         if tkind t = tRBrace then rbind (next_tok ts1) (\<lambda>(_, r). Inr (q, r))
         else parse_selector_loop rc ts1 q))"

definition appendLine :: "(string \<Rightarrow> 're option) \<Rightarrow> line_op \<Rightarrow> token list \<Rightarrow> 're query
    \<Rightarrow> (ql_error, 're query \<times> token list) result" where
  "appendLine rc op ts q =
     rbind (expect tString ExpectedQuotedLineValue ts) (\<lambda>(value, r).
       rbind (compile_re rc (op = LineRe \<or> op = LineNre) value) (\<lambda>re.
         Inr (q\<lparr>q_lines := q_lines q @ [\<lparr>ln_op = op, ln_value = value, ln_re = re\<rparr>]\<rparr>, r)))"

definition parseLabelFilter :: "(string \<Rightarrow> 're option) \<Rightarrow> token list \<Rightarrow> 're query
    \<Rightarrow> (ql_error, 're query \<times> token list) result" where
  "parseLabelFilter rc ts q =
     rbind (expect tIdent ExpectedAttributeName ts) (\<lambda>(key, ts1).
       rbind (parseOp ts1) (\<lambda>(op, ts2).
         rbind (expect tString ExpectedQuotedValue ts2) (\<lambda>(value, ts3).
           rbind (compile_re rc (op = OpRe \<or> op = OpNre) value) (\<lambda>re.
             Inr (q\<lparr>q_attrs := q_attrs q @ [\<lparr>am_key = key, am_op = op, am_value = value, am_re = re\<rparr>]\<rparr>,
                  ts3)))))"

text \<open>One stage of the pipeline; \<open>None\<close> when the current token starts no stage.\<close>

definition parse_stage :: "(string \<Rightarrow> 're option) \<Rightarrow> token list \<Rightarrow> 're query
    \<Rightarrow> (ql_error, ('re query \<times> token list) option) result" where
  "parse_stage rc ts q =
     rbind (cur ts) (\<lambda>t.
       (case tkind t of
          tPipeEq \<Rightarrow> rmap Some (appendLine rc LineContains (tl ts) q)
        | tPipeRe \<Rightarrow> rmap Some (appendLine rc LineRe (tl ts) q)
        | tNeq \<Rightarrow> rmap Some (appendLine rc LineNotContains (tl ts) q)
        | tNre \<Rightarrow> rmap Some (appendLine rc LineNre (tl ts) q)
        | tPipe \<Rightarrow> rmap Some (parseLabelFilter rc (tl ts) q)
        | _ \<Rightarrow> Inr None))"

lemma appendLine_shorter: "appendLine rc op ts q = Inr (q', r) \<Longrightarrow> length r < length ts"
  by (auto simp: appendLine_def result_simps dest: expect_shorter)

lemma parseLabelFilter_shorter: "parseLabelFilter rc ts q = Inr (q', r) \<Longrightarrow> length r < length ts"
  by (fastforce simp: parseLabelFilter_def result_simps dest: expect_shorter parseOp_shorter)

lemma parse_stage_shorter: "parse_stage rc ts q = Inr (Some (q', r)) \<Longrightarrow> length r < length ts"
  by (cases ts; cases "tkind (hd ts)")
     (auto simp: parse_stage_def cur_def result_simps
      dest!: appendLine_shorter parseLabelFilter_shorter)

function parsePipeline :: "(string \<Rightarrow> 're option) \<Rightarrow> token list \<Rightarrow> 're query
    \<Rightarrow> (ql_error, 're query \<times> token list) result" where
  "parsePipeline rc ts q =
     (case parse_stage rc ts q of
        Inl e \<Rightarrow> Inl e
      | Inr None \<Rightarrow> Inr (q, ts)
      | Inr (Some (q', r)) \<Rightarrow> parsePipeline rc r q')"
  by pat_completeness auto
termination
  by (relation "measure (\<lambda>(rc, ts, q). length ts)") (auto simp: parse_stage_shorter)

declare parsePipeline.simps [simp del]

definition empty_query :: "'re query" where
  "empty_query = \<lparr>q_labels = [], q_attrs = [], q_lines = []\<rparr>"

definition Compile :: "(string \<Rightarrow> 're option) \<Rightarrow> string \<Rightarrow> (ql_error, 're query) result" where
  "Compile rc input =
     (case lex input of
        Inl e \<Rightarrow> Inl (LexError e)
      | Inr ts \<Rightarrow>
          rbind (cur ts) (\<lambda>t.
            if tkind t = tEOF then Inr empty_query
            else rbind (parseSelector rc ts empty_query) (\<lambda>(q, ts1).
              rbind (parsePipeline rc ts1 q) (\<lambda>(q', ts2).
                rbind (cur ts2) (\<lambda>u.
                  if tkind u \<noteq> tEOF then Inl (UnexpectedToken (tval u) (tpos u))
                  else Inr q')))))"

end
