(* ===== verification/EventQL_Parser_Safety.thy ===== *)
theory EventQL_Parser_Safety
  imports EventQL_Query
begin

text \<open>
  What the parser of event queries guarantees.  The locale \<open>ql_parser\<close> is the contract every parsing
  function keeps: on tokens that end with the end-of-input token it never reads past the slice, and
  it leaves tokens that still end with it.  Each function of \<open>parser.go\<close> is an interpretation.  The
  invariant \<open>query_wf\<close> says what a compiled query holds: known labels only, and a compiled regular
  expression exactly on the matchers that need one.  Both together give the safety of \<open>Compile\<close> and
  the meaning of \<open>Match\<close>.
\<close>

section \<open>The contract of a parsing function\<close>

locale ql_parser =
  fixes p :: "token list \<Rightarrow> (ql_error, 'a \<times> token list) result"
  assumes keeps_eof: "eof_terminated ts \<Longrightarrow> p ts = Inr (v, r) \<Longrightarrow> eof_terminated r"
    and no_panic: "eof_terminated ts \<Longrightarrow> p ts \<noteq> Inl PanicIndex"

lemma ql_parser_bind:
  assumes p: "ql_parser p" and f: "\<And>v. ql_parser (f v)"
  shows "ql_parser (\<lambda>ts. rbind (p ts) (\<lambda>(v, r). f v r))"
proof
  fix ts w r
  assume ts: "eof_terminated ts" and "rbind (p ts) (\<lambda>(v, r). f v r) = Inr (w, r)"
  then obtain v s where "p ts = Inr (v, s)" and "f v s = Inr (w, r)"
    by (auto simp: rbind_eq_Inr)
  with ts show "eof_terminated r"
    by (blast intro: ql_parser.keeps_eof [OF p] ql_parser.keeps_eof [OF f])
next
  fix ts
  assume ts: "eof_terminated ts"
  show "rbind (p ts) (\<lambda>(v, r). f v r) \<noteq> Inl PanicIndex"
  proof (cases "p ts")
    case (Inl e)
    then show ?thesis using ql_parser.no_panic [OF p ts] by simp
  next
    case (Inr vr)
    then obtain v r where "p ts = Inr (v, r)" by (cases vr) auto
    then show ?thesis
      using ql_parser.no_panic [OF f] ql_parser.keeps_eof [OF p ts] by simp
  qed
qed

lemma ql_parser_return: "ql_parser (\<lambda>ts. Inr (v, ts))"
  by unfold_locales auto

lemma ql_parser_fail: "e \<noteq> PanicIndex \<Longrightarrow> ql_parser (\<lambda>ts. Inl e)"
  by unfold_locales auto

lemma ql_parser_if: "ql_parser p \<Longrightarrow> ql_parser p' \<Longrightarrow> ql_parser (\<lambda>ts. if b then p ts else p' ts)"
  by (cases b) simp_all

text \<open>Looking at a value that does not come from the tokens keeps the contract.\<close>

lemma ql_parser_value:
  assumes "r \<noteq> Inl PanicIndex" and "\<And>v. ql_parser (f v)"
  shows "ql_parser (\<lambda>ts. rbind r (\<lambda>v. f v ts))"
proof (cases r)
  case (Inl e)
  with assms(1) show ?thesis by (auto intro: ql_parser_fail)
next
  case (Inr v)
  with assms(2) show ?thesis by simp
qed

lemma eof_terminated_ConsD: "eof_terminated (t # ts) \<Longrightarrow> tkind t \<noteq> tEOF \<Longrightarrow> eof_terminated ts"
  by (cases ts) auto

lemma compile_re_no_panic: "compile_re rc b v \<noteq> Inl PanicIndex"
  by (auto simp: compile_re_def split: option.splits)

lemma ql_parser_expect:
  assumes "k \<noteq> tEOF" and "\<And>n. err n \<noteq> PanicIndex"
  shows "ql_parser (expect k err)"
proof
  fix ts v r
  assume "eof_terminated ts" and "expect k err ts = Inr (v, r)"
  with assms show "eof_terminated r"
    by (cases ts) (auto simp: expect_def cur_def next_tok_def dest: eof_terminated_ConsD split: if_splits)
next
  fix ts
  assume "eof_terminated ts"
  with assms show "expect k err ts \<noteq> Inl PanicIndex"
    by (cases ts) (auto simp: expect_def cur_def next_tok_def split: if_splits)
qed

interpretation parseOp_contract: ql_parser parseOp
proof
  fix ts v r
  assume "eof_terminated ts" and "parseOp ts = Inr (v, r)"
  then show "eof_terminated r"
    by (cases ts; cases "tkind (hd ts)")
       (auto simp: parseOp_def cur_def next_tok_def dest: eof_terminated_ConsD)
next
  fix ts
  assume "eof_terminated ts"
  then show "parseOp ts \<noteq> Inl PanicIndex"
    by (cases ts; cases "tkind (hd ts)") (auto simp: parseOp_def cur_def next_tok_def)
qed

lemmas ql_parser_intros =
  ql_parser_bind ql_parser_return ql_parser_fail ql_parser_if ql_parser_value ql_parser_expect
  parseOp_contract.ql_parser_axioms compile_re_no_panic

interpretation parse_label_contract: ql_parser "parse_label rc"
  unfolding parse_label_def by (intro ql_parser_intros) simp_all

interpretation appendLine_contract: ql_parser "\<lambda>ts. appendLine rc op ts q"
  unfolding appendLine_def by (intro ql_parser_intros) simp_all

interpretation parseLabelFilter_contract: ql_parser "\<lambda>ts. parseLabelFilter rc ts q"
  unfolding parseLabelFilter_def by (intro ql_parser_intros) simp_all

lemma parse_selector_loop_safe:
  assumes "eof_terminated ts"
  shows "parse_selector_loop rc ts q \<noteq> Inl PanicIndex \<and>
    (\<forall>q' r. parse_selector_loop rc ts q = Inr (q', r) \<longrightarrow> eof_terminated r)"
  using assms
proof (induction rc ts q rule: parse_selector_loop.induct)
  case (1 rc ts q)
  show ?case
  proof (cases "parse_label rc ts")
    case (Inl e)
    then show ?thesis
      using parse_label_contract.no_panic [OF "1.prems", of rc] by (simp add: parse_selector_loop.simps)
  next
    case (Inr mr)
    then obtain m t r where mr: "parse_label rc ts = Inr (m, t # r)" and eof: "eof_terminated (t # r)"
      using parse_label_contract.keeps_eof [OF "1.prems"]
      by (metis eof_terminated.simps(1) list.exhaust surj_pair)
    show ?thesis
    proof (cases "tkind t = tComma")
      case True
      with eof have "eof_terminated r" by (auto dest: eof_terminated_ConsD)
      then show ?thesis
        using "1.IH" [OF mr refl] True by (simp add: parse_selector_loop.simps [of rc ts] mr cur_def)
    next
      case False
      with eof show ?thesis
        by (cases "tkind t")
           (auto simp: parse_selector_loop.simps [of rc ts] mr cur_def dest: eof_terminated_ConsD)
    qed
  qed
qed

interpretation parse_selector_loop_contract: ql_parser "\<lambda>ts. parse_selector_loop rc ts q"
  by unfold_locales (use parse_selector_loop_safe in blast)+

text \<open>The part of \<open>parseSelector\<close> after the opening brace.\<close>

lemma ql_parser_selector_tail:
  "ql_parser (\<lambda>ts. rbind (cur ts) (\<lambda>t.
     if tkind t = tRBrace then rbind (next_tok ts) (\<lambda>(_, r). Inr (q, r))
     else parse_selector_loop rc ts q))"
proof
  fix ts v r
  assume "eof_terminated ts" and "rbind (cur ts) (\<lambda>t.
     if tkind t = tRBrace then rbind (next_tok ts) (\<lambda>(_, r). Inr (q, r))
     else parse_selector_loop rc ts q) = Inr (v, r)"
  then show "eof_terminated r"
    using parse_selector_loop_contract.keeps_eof
    by (cases ts) (auto simp: cur_def next_tok_def dest: eof_terminated_ConsD split: if_splits)
next
  fix ts
  assume "eof_terminated ts"
  then show "rbind (cur ts) (\<lambda>t.
     if tkind t = tRBrace then rbind (next_tok ts) (\<lambda>(_, r). Inr (q, r))
     else parse_selector_loop rc ts q) \<noteq> Inl PanicIndex"
    using parse_selector_loop_contract.no_panic by (cases ts) (auto simp: cur_def next_tok_def)
qed

interpretation parseSelector_contract: ql_parser "\<lambda>ts. parseSelector rc ts q"
  unfolding parseSelector_def
  by (intro ql_parser_bind ql_parser_expect ql_parser_selector_tail) simp_all

lemma parse_stage_safe:
  assumes "eof_terminated ts"
  shows "parse_stage rc ts q \<noteq> Inl PanicIndex \<and>
    (\<forall>q' r. parse_stage rc ts q = Inr (Some (q', r)) \<longrightarrow> eof_terminated r)"
proof (cases ts)
  case Nil
  with assms show ?thesis by simp
next
  case (Cons t r)
  with assms show ?thesis
    by (cases "tkind t")
       (auto simp: parse_stage_def cur_def result_simps
        dest: eof_terminated_ConsD appendLine_contract.no_panic parseLabelFilter_contract.no_panic
          appendLine_contract.keeps_eof parseLabelFilter_contract.keeps_eof)
qed

interpretation parsePipeline_contract: ql_parser "\<lambda>ts. parsePipeline rc ts q"
proof -
  have "eof_terminated ts \<Longrightarrow> parsePipeline rc ts q \<noteq> Inl PanicIndex \<and>
      (\<forall>q' r. parsePipeline rc ts q = Inr (q', r) \<longrightarrow> eof_terminated r)" for ts q
  proof (induction rc ts q rule: parsePipeline.induct)
    case (1 rc ts q)
    note safe = parse_stage_safe [OF "1.prems", of rc q]
    show ?case
    proof (cases "parse_stage rc ts q")
      case (Inl e)
      with safe show ?thesis by (simp add: parsePipeline.simps)
    next
      case (Inr o')
      with "1" safe show ?thesis
        by (cases o') (auto simp: parsePipeline.simps [of rc ts q])
    qed
  qed
  then show "ql_parser (\<lambda>ts. parsePipeline rc ts q)" by unfold_locales blast+
qed

lemma cur_no_panic: "eof_terminated ts \<Longrightarrow> cur ts \<noteq> Inl PanicIndex"
  by (cases ts) (simp_all add: cur_def)

text \<open>
  C32.  Compiling a query never reads past the end of the token slice: whatever the input,
  \<open>Compile\<close> returns a query or one of its error messages, and never panics with an index out of
  range.
\<close>

theorem Compile_no_panic: "Compile rc input \<noteq> Inl PanicIndex"
proof (cases "lex input")
  case (Inl e)
  then show ?thesis by (simp add: Compile_def)
next
  case (Inr ts)
  then have eof: "eof_terminated ts" by (rule lex_eof)
  then obtain t where t: "cur ts = Inr t" by (cases ts) (auto simp: cur_def)
  show ?thesis
    using eof
    by (auto simp: Compile_def Inr t result_simps split: if_splits)
       (meson parseSelector_contract.no_panic parsePipeline_contract.no_panic cur_no_panic
          parseSelector_contract.keeps_eof parsePipeline_contract.keeps_eof)+
qed

section \<open>What a compiled query holds\<close>

definition re_ok :: "(string \<Rightarrow> 're option) \<Rightarrow> bool \<Rightarrow> string \<Rightarrow> 're option \<Rightarrow> bool" where
  "re_ok rc is_re value re \<longleftrightarrow> (if is_re then (case rc value of None \<Rightarrow> False | Some r \<Rightarrow> re = Some r) else re = None)"

definition label_wf :: "(string \<Rightarrow> 're option) \<Rightarrow> 're label_matcher \<Rightarrow> bool" where
  "label_wf rc m \<longleftrightarrow> lm_name m \<in> set knownLabels \<and>
     re_ok rc (lm_op m = OpRe \<or> lm_op m = OpNre) (lm_value m) (lm_re m)"

definition attr_wf :: "(string \<Rightarrow> 're option) \<Rightarrow> 're attr_matcher \<Rightarrow> bool" where
  "attr_wf rc m \<longleftrightarrow> re_ok rc (am_op m = OpRe \<or> am_op m = OpNre) (am_value m) (am_re m)"

definition line_wf :: "(string \<Rightarrow> 're option) \<Rightarrow> 're line_matcher \<Rightarrow> bool" where
  "line_wf rc m \<longleftrightarrow> re_ok rc (ln_op m = LineRe \<or> ln_op m = LineNre) (ln_value m) (ln_re m)"

definition query_wf :: "(string \<Rightarrow> 're option) \<Rightarrow> 're query \<Rightarrow> bool" where
  "query_wf rc q \<longleftrightarrow> list_all (label_wf rc) (q_labels q) \<and> list_all (attr_wf rc) (q_attrs q) \<and>
     list_all (line_wf rc) (q_lines q)"

lemma compile_re_ok: "compile_re rc b v = Inr re \<Longrightarrow> re_ok rc b v re"
  by (cases "rc v") (auto simp: compile_re_def re_ok_def split: if_splits)

lemma parse_label_wf: "parse_label rc ts = Inr (m, r) \<Longrightarrow> label_wf rc m"
  by (auto simp: parse_label_def result_simps label_wf_def dest: compile_re_ok split: if_splits)

lemma parse_selector_loop_wf:
  "query_wf rc q \<Longrightarrow> parse_selector_loop rc ts q = Inr (q', r) \<Longrightarrow> query_wf rc q'"
proof (induction rc ts q rule: parse_selector_loop.induct)
  case (1 rc ts q)
  from "1.prems"(2) obtain m s t where m: "parse_label rc ts = Inr (m, s)" and t: "cur s = Inr t"
    by (auto simp: parse_selector_loop.simps [of rc ts q] rbind_eq_Inr)
  have "query_wf rc (q\<lparr>q_labels := q_labels q @ [m]\<rparr>)"
    using "1.prems"(1) parse_label_wf [OF m] by (simp add: query_wf_def)
  with "1" m t show ?case
    by (cases "tkind t") (auto simp: parse_selector_loop.simps [of rc ts q])
qed

lemma parseSelector_wf: "query_wf rc q \<Longrightarrow> parseSelector rc ts q = Inr (q', r) \<Longrightarrow> query_wf rc q'"
  by (auto simp: parseSelector_def result_simps dest: parse_selector_loop_wf split: if_splits)

lemma appendLine_wf: "query_wf rc q \<Longrightarrow> appendLine rc op ts q = Inr (q', r) \<Longrightarrow> query_wf rc q'"
  by (auto simp: appendLine_def result_simps query_wf_def line_wf_def dest: compile_re_ok)

lemma parseLabelFilter_wf: "query_wf rc q \<Longrightarrow> parseLabelFilter rc ts q = Inr (q', r) \<Longrightarrow> query_wf rc q'"
  by (auto simp: parseLabelFilter_def result_simps query_wf_def attr_wf_def dest: compile_re_ok)

lemma parse_stage_wf: "query_wf rc q \<Longrightarrow> parse_stage rc ts q = Inr (Some (q', r)) \<Longrightarrow> query_wf rc q'"
  by (cases ts; cases "tkind (hd ts)")
     (auto simp: parse_stage_def cur_def result_simps dest: appendLine_wf parseLabelFilter_wf)

lemma parsePipeline_wf: "query_wf rc q \<Longrightarrow> parsePipeline rc ts q = Inr (q', r) \<Longrightarrow> query_wf rc q'"
proof (induction rc ts q rule: parsePipeline.induct)
  case (1 rc ts q)
  then show ?case
    by (auto simp: parsePipeline.simps [of rc ts q] dest: parse_stage_wf
        split: sum.splits option.splits prod.splits)
qed

lemma Compile_wf: "Compile rc input = Inr q \<Longrightarrow> query_wf rc q"
proof -
  assume q: "Compile rc input = Inr q"
  have "query_wf rc empty_query" by (simp add: query_wf_def empty_query_def)
  with q show ?thesis
    by (auto simp: Compile_def result_simps dest: parseSelector_wf parsePipeline_wf
        split: sum.splits if_splits)
qed

section \<open>What a compiled query matches\<close>

text \<open>The meaning of the operators, with the regular expression given by its source.\<close>

definition op_holds :: "(string \<Rightarrow> 're option) \<Rightarrow> ('re \<Rightarrow> string \<Rightarrow> bool) \<Rightarrow> ql_op \<Rightarrow> string \<Rightarrow> string \<Rightarrow> bool" where
  "op_holds rc rm op pattern v =
     (case op of
        OpEq \<Rightarrow> v = pattern
      | OpNeq \<Rightarrow> v \<noteq> pattern
      | OpRe \<Rightarrow> rm (the (rc pattern)) v
      | OpNre \<Rightarrow> \<not> rm (the (rc pattern)) v)"

definition line_holds :: "(string \<Rightarrow> 're option) \<Rightarrow> ('re \<Rightarrow> string \<Rightarrow> bool) \<Rightarrow> line_op \<Rightarrow> string \<Rightarrow> string \<Rightarrow> bool" where
  "line_holds rc rm op pattern msg =
     (case op of
        LineContains \<Rightarrow> (\<exists>u v. msg = u @ pattern @ v)
      | LineNotContains \<Rightarrow> \<not> (\<exists>u v. msg = u @ pattern @ v)
      | LineRe \<Rightarrow> rm (the (rc pattern)) msg
      | LineNre \<Rightarrow> \<not> rm (the (rc pattern)) msg)"

definition query_holds :: "(string \<Rightarrow> 're option) \<Rightarrow> ('re \<Rightarrow> string \<Rightarrow> bool) \<Rightarrow> 're query \<Rightarrow> fields \<Rightarrow> bool" where
  "query_holds rc rm q f \<longleftrightarrow>
     (\<forall>m \<in> set (q_labels q). op_holds rc rm (lm_op m) (lm_value m) (labelValue f (lm_name m))) \<and>
     (\<forall>m \<in> set (q_attrs q). op_holds rc rm (am_op m) (am_value m) (attr_value f (am_key m))) \<and>
     (\<forall>m \<in> set (q_lines q). line_holds rc rm (ln_op m) (ln_value m) (f_message f))"

lemma all_match_Some:
  "(\<And>m. m \<in> set ms \<Longrightarrow> g m = Some (P m)) \<Longrightarrow> all_match g ms = Some (\<forall>m \<in> set ms. P m)"
  by (induction ms) (auto split: bool.splits)

lemma matchOp_wf:
  "re_ok rc (op = OpRe \<or> op = OpNre) value re \<Longrightarrow> matchOp rm op re value v = Some (op_holds rc rm op value v)"
  by (cases op) (auto simp: matchOp_def op_holds_def re_ok_def split: option.splits)

lemma line_match_wf: "line_wf rc m \<Longrightarrow> line_match rm m msg = Some (line_holds rc rm (ln_op m) (ln_value m) msg)"
  by (cases "ln_op m") (auto simp: line_match_def line_wf_def line_holds_def re_ok_def str_contains_iff
      split: option.splits)

lemma Match_wf:
  assumes "query_wf rc q"
  shows "Match rm q f = Some (query_holds rc rm q f)"
proof -
  have "all_match (\<lambda>m. label_match rm m (labelValue f (lm_name m))) (q_labels q) =
      Some (\<forall>m \<in> set (q_labels q). op_holds rc rm (lm_op m) (lm_value m) (labelValue f (lm_name m)))"
    using assms by (intro all_match_Some)
      (auto simp: query_wf_def label_wf_def label_match_def list_all_iff intro: matchOp_wf)
  moreover have "all_match (\<lambda>m. attr_match rm m (attr_value f (am_key m))) (q_attrs q) =
      Some (\<forall>m \<in> set (q_attrs q). op_holds rc rm (am_op m) (am_value m) (attr_value f (am_key m)))"
    using assms by (intro all_match_Some)
      (auto simp: query_wf_def attr_wf_def attr_match_def list_all_iff intro: matchOp_wf)
  moreover have "all_match (\<lambda>m. line_match rm m (f_message f)) (q_lines q) =
      Some (\<forall>m \<in> set (q_lines q). line_holds rc rm (ln_op m) (ln_value m) (f_message f))"
    using assms by (intro all_match_Some) (auto simp: query_wf_def list_all_iff intro: line_match_wf)
  ultimately show ?thesis
    by (auto simp: Match_def query_holds_def split: bool.splits)
qed

text \<open>
  C33.  A compiled query is well formed and can be evaluated on every event: its labels are known ones, a
  regular expression is compiled exactly where its operator needs one, from the text of the matcher, so that
  no matcher dereferences a missing one, and \<open>Match\<close> answers exactly the conjunction of all its label, attribute and line
  matchers, whatever the order they were written in.
\<close>

theorem Compile_Match:
  assumes "Compile rc input = Inr q"
  shows "query_wf rc q \<and> (\<forall>m \<in> set (q_labels q). lm_name m \<in> set knownLabels) \<and> Match rm q f = Some (query_holds rc rm q f)"
  using Compile_wf [OF assms] Match_wf [OF Compile_wf [OF assms]] by (auto simp: query_wf_def label_wf_def list_all_iff)

theorem Compile_Match_witness:
  "Compile Some (''{org='' @ [quote_char] @ ''x'' @ [quote_char] @ ''}'') =
     Inr \<lparr>q_labels = [\<lparr>lm_name = ''org'', lm_op = OpEq, lm_value = ''x'', lm_re = None\<rparr>],
          q_attrs = [], q_lines = []\<rparr> \<and>
   Match (=) \<lparr>q_labels = [\<lparr>lm_name = ''org'', lm_op = OpEq, lm_value = ''x'', lm_re = None :: string option\<rparr>],
      q_attrs = [], q_lines = []\<rparr>
     \<lparr>f_type = '''', f_source = '''', f_severity = '''', f_org = ''x'', f_user = '''',
      f_message = '''', f_attributes = Map.empty\<rparr> = Some True"
proof -
  have c: "Compile Some (''{org='' @ [quote_char] @ ''x'' @ [quote_char] @ ''}'') =
     Inr \<lparr>q_labels = [\<lparr>lm_name = ''org'', lm_op = OpEq, lm_value = ''x'', lm_re = None\<rparr>],
          q_attrs = [], q_lines = []\<rparr>"
    by code_simp
  show ?thesis using c Compile_Match [OF c, THEN conjunct2, THEN conjunct2] by (simp add: query_holds_def op_holds_def labelValue_def)
qed

end
