(* ===== verification/EventQL_Roundtrip.thy ===== *)
theory EventQL_Roundtrip
  imports EventQL_Parser_Safety
begin

text \<open>
  The grammar in the doc comment of \<open>Compile\<close> (\<open>src/internal/core/eventql/parser.go\<close>), written as a
  printer: \<open>render_query\<close> prints the selector and then the attribute and line stages.  The round
  trip says that \<open>Compile\<close> accepts every sentence so printed and reads the same query back.
\<close>

section \<open>Printing\<close>

definition escape_char :: "char \<Rightarrow> string" where
  "escape_char c = (if c = quote_char \<or> c = backslash then [backslash, c] else [c])"

definition quote_string :: "string \<Rightarrow> string" where
  "quote_string s = quote_char # concat (map escape_char s) @ [quote_char]"

fun render_op :: "ql_op \<Rightarrow> string" where
  "render_op OpEq = ''=''" | "render_op OpNeq = ''!=''"
| "render_op OpRe = ''=~''" | "render_op OpNre = ''!~''"

fun render_line_op :: "line_op \<Rightarrow> string" where
  "render_line_op LineContains = ''|=''" | "render_line_op LineNotContains = ''!=''"
| "render_line_op LineRe = ''|~''" | "render_line_op LineNre = ''!~''"

definition render_label :: "'re label_matcher \<Rightarrow> string" where
  "render_label m = lm_name m @ render_op (lm_op m) @ quote_string (lm_value m)"

fun render_labels :: "'re label_matcher list \<Rightarrow> string" where
  "render_labels [] = ''}''"
| "render_labels [m] = render_label m @ ''}''"
| "render_labels (m # ms) = render_label m @ '','' @ render_labels ms"

definition render_attr :: "'re attr_matcher \<Rightarrow> string" where
  "render_attr m = '' | '' @ am_key m @ render_op (am_op m) @ quote_string (am_value m)"

definition render_line :: "'re line_matcher \<Rightarrow> string" where
  "render_line m = '' '' @ render_line_op (ln_op m) @ quote_string (ln_value m)"

definition render_query :: "'re query \<Rightarrow> string" where
  "render_query q = ''{'' @ render_labels (q_labels q) @ concat (map render_attr (q_attrs q)) @
     concat (map render_line (q_lines q))"

text \<open>An attribute key the tokenizer reads as one identifier.\<close>

definition valid_ident :: "string \<Rightarrow> bool" where
  "valid_ident s \<longleftrightarrow> s \<noteq> [] \<and> isIdentStart (hd s) \<and> list_all isIdentChar s"

section \<open>Tokens of a printed text\<close>

type_synonym event = "tok_kind \<times> string"

definition ev :: "token \<Rightarrow> event" where
  "ev t = (tkind t, tval t)"

text \<open>
  \<open>emits s evs ok\<close>: wherever the text \<open>s\<close> stands in the input, followed by a rest that passes \<open>ok\<close>,
  the tokenizer reads exactly the tokens \<open>evs\<close> from it and goes on after it.
\<close>

definition emits :: "string \<Rightarrow> event list \<Rightarrow> (string \<Rightarrow> bool) \<Rightarrow> bool" where
  "emits s evs ok \<longleftrightarrow>
     (\<forall>runes i rest. drop i runes = s @ rest \<longrightarrow> i \<le> length runes \<longrightarrow> ok rest \<longrightarrow>
        (\<exists>ts. map ev ts = evs \<and>
           lex_from runes i = rmap ((@) ts) (lex_from runes (i + length s))))"

lemma emitsI:
  assumes "\<And>runes i rest. drop i runes = s @ rest \<Longrightarrow> i \<le> length runes \<Longrightarrow> ok rest \<Longrightarrow>
    \<exists>ts. map ev ts = evs \<and> lex_from runes i = rmap ((@) ts) (lex_from runes (i + length s))"
  shows "emits s evs ok"
  using assms by (auto simp: emits_def)

lemma emitsD:
  "emits s evs ok \<Longrightarrow> drop i runes = s @ rest \<Longrightarrow> i \<le> length runes \<Longrightarrow> ok rest \<Longrightarrow>
   \<exists>ts. map ev ts = evs \<and> lex_from runes i = rmap ((@) ts) (lex_from runes (i + length s))"
  unfolding emits_def by blast

lemma emits_append:
  assumes 1: "emits s1 e1 ok1" and 2: "emits s2 e2 ok2" and ok: "\<And>rest. ok2 rest \<Longrightarrow> ok1 (s2 @ rest)"
  shows "emits (s1 @ s2) (e1 @ e2) ok2"
proof (rule emitsI)
  fix runes :: string and i rest
  assume d: "drop i runes = (s1 @ s2) @ rest" and i: "i \<le> length runes" and r: "ok2 rest"
  have "length s1 \<le> length (drop i runes)" using d by simp
  then have i2: "i + length s1 \<le> length runes" using i by simp
  have d2: "drop (i + length s1) runes = s2 @ rest"
    using d by (metis add.commute append_assoc append_eq_conv_conj drop_drop)
  obtain ts1 where "map ev ts1 = e1" "lex_from runes i = rmap ((@) ts1) (lex_from runes (i + length s1))"
    using emitsD [OF 1, of i runes "s2 @ rest"] d i ok [OF r] by auto
  moreover obtain ts2 where "map ev ts2 = e2"
      "lex_from runes (i + length s1) = rmap ((@) ts2) (lex_from runes (i + length s1 + length s2))"
    using emitsD [OF 2 d2 i2 r] by auto
  ultimately show "\<exists>ts. map ev ts = e1 @ e2 \<and>
      lex_from runes i = rmap ((@) ts) (lex_from runes (i + length (s1 @ s2)))"
    by (intro exI [of _ "ts1 @ ts2"])
       (cases "lex_from runes (i + length s1 + length s2)"; simp add: add.assoc)
qed

text \<open>A text read as one token by one iteration of the loop.\<close>

lemma emits_token:
  assumes "s \<noteq> []"
    and "\<And>runes i rest. drop i runes = s @ rest \<Longrightarrow> ok rest \<Longrightarrow> i < length runes \<Longrightarrow>
      \<exists>t. lex_step runes i = Inr (Some t, i + length s) \<and> ev t = e"
  shows "emits s [e] ok"
proof (rule emitsI)
  fix runes :: string and i rest
  assume d: "drop i runes = s @ rest" and r: "ok rest"
  have i: "i < length runes" using d assms(1) by (metis append_is_Nil_conv drop_all linorder_not_le)
  with assms(2) [OF d r] obtain t where "lex_step runes i = Inr (Some t, i + length s)" "ev t = e"
    by blast
  moreover have "(@) [t] = (#) t" by auto
  ultimately show "\<exists>ts. map ev ts = [e] \<and> lex_from runes i = rmap ((@) ts) (lex_from runes (i + length s))"
    using i by (intro exI [of _ "[t]"]) (simp add: lex_from_token)
qed

lemma nth_of_drop: "drop i runes = c # rest \<Longrightarrow> runes ! i = c"
  by (metis drop_all hd_drop_conv_nth linorder_not_le list.distinct(1) list.sel(1))

lemma peek_of_drop: "drop i runes = c # d # rest \<Longrightarrow> peek runes (Suc i) = d"
  unfolding peek_def by (metis Cons_nth_drop_Suc drop_all linorder_not_le list.distinct(1) list.inject nth_of_drop)

lemma peek_of_drop_end: "drop i runes = [c] \<Longrightarrow> peek runes (Suc i) = CHR 0x00"
  unfolding peek_def by (metis Cons_nth_drop_Suc Suc_lessD list.discI list.inject)

lemmas drop_facts = nth_of_drop peek_of_drop peek_of_drop_end

lemma punct_not_space [simp]:
  "\<not> is_space (CHR ''{'')" "\<not> is_space (CHR ''}'')" "\<not> is_space (CHR '','')" "\<not> is_space (CHR ''|'')"
  "\<not> is_space (CHR ''='')" "\<not> is_space (CHR ''!'')" "\<not> is_space quote_char" "is_space (CHR '' '')"
  by (simp_all add: is_space_def Let_def)

lemma emits_punct:
  "emits ''{'' [(tLBrace, ''{'')] (\<lambda>_. True)"
  "emits ''}'' [(tRBrace, ''}'')] (\<lambda>_. True)"
  "emits '','' [(tComma, '','')] (\<lambda>_. True)"
  "emits ''!='' [(tNeq, ''!='')] (\<lambda>_. True)"
  "emits ''!~'' [(tNre, ''!~'')] (\<lambda>_. True)"
  "emits ''=~'' [(tRe, ''=~'')] (\<lambda>_. True)"
  "emits ''|='' [(tPipeEq, ''|='')] (\<lambda>_. True)"
  "emits ''|~'' [(tPipeRe, ''|~'')] (\<lambda>_. True)"
  by (rule emits_token; simp add: lex_step_def Let_def drop_facts ev_def)+

lemma emits_eq: "emits ''='' [(tEq, ''='')] (\<lambda>rest. \<exists>c cs. rest = c # cs \<and> c \<noteq> CHR ''~'')"
  by (rule emits_token) (auto simp: lex_step_def Let_def drop_facts ev_def)

lemma emits_pipe: "emits ''|'' [(tPipe, ''|'')] (\<lambda>rest. \<exists>cs. rest = CHR '' '' # cs)"
  by (rule emits_token) (auto simp: lex_step_def Let_def drop_facts ev_def)

lemma emits_space: "emits '' '' [] (\<lambda>_. True)"
proof (rule emitsI)
  fix runes :: string and i rest
  assume d: "drop i runes = '' '' @ rest"
  then have "i < length runes" by (metis append_is_Nil_conv drop_all linorder_not_le list.distinct(1))
  moreover have "lex_step runes i = Inr (None, i + 1)"
    using d by (simp add: lex_step_def Let_def nth_of_drop)
  ultimately show "\<exists>ts. map ev ts = [] \<and> lex_from runes i = rmap ((@) ts) (lex_from runes (i + length '' ''))"
    by (intro exI [of _ "[]"]) (cases "lex_from runes (Suc i)"; simp add: lex_from_skip)
qed

subsection \<open>Quoted strings and identifiers\<close>

lemma lexStringLoop_close [simp]: "lexStringLoop (quote_char # cs) i sb = Some (sb, i + 1)"
  by (cases cs) simp_all

lemma lexStringLoop_plain:
  "c \<noteq> backslash \<Longrightarrow> c \<noteq> quote_char \<Longrightarrow> cs \<noteq> [] \<Longrightarrow>
   lexStringLoop (c # cs) i sb = lexStringLoop cs (i + 1) (sb @ [c])"
  by (cases cs) simp_all

lemma lexStringLoop_escaped:
  "lexStringLoop (concat (map escape_char s) @ quote_char # rest) i sb =
   Some (sb @ s, i + length (concat (map escape_char s)) + 1)"
proof (induction s arbitrary: i sb)
  case Nil
  then show ?case by simp
next
  case (Cons c s)
  show ?case
  proof (cases "c = quote_char \<or> c = backslash")
    case True
    with Cons [of "i + 2" "sb @ [c]"] show ?thesis by (auto simp: escape_char_def)
  next
    case False
    with Cons [of "i + 1" "sb @ [c]"] show ?thesis by (simp add: escape_char_def lexStringLoop_plain)
  qed
qed

lemma emits_quoted: "emits (quote_string s) [(tString, s)] (\<lambda>_. True)"
proof (rule emits_token)
  fix runes :: string and i rest
  assume d: "drop i runes = quote_string s @ rest"
  have "drop (i + 1) runes = concat (map escape_char s) @ quote_char # rest"
    using d by (simp add: quote_string_def) (metis drop_Suc list.sel(3) tl_drop)
  then have "lexString runes i = Inr (s, i + length (quote_string s))"
    using lexStringLoop_escaped [of s rest "i + 1" "[]"] by (simp add: lexString_def quote_string_def)
  moreover have "runes ! i = quote_char"
    using d by (simp add: quote_string_def nth_of_drop)
  ultimately show "\<exists>t. lex_step runes i = Inr (Some t, i + length (quote_string s)) \<and> ev t = (tString, s)"
    by (simp add: lex_step_def Let_def ev_def)
qed (simp add: quote_string_def)

lemma isIdentStart_plain:
  assumes "isIdentStart c"
  shows "\<not> is_space c" "c \<noteq> CHR ''{''" "c \<noteq> CHR ''}''" "c \<noteq> CHR '',''" "c \<noteq> CHR ''|''" "c \<noteq> CHR ''=''"
    "c \<noteq> CHR ''!''" "c \<noteq> quote_char"
  using assms by (auto simp: isIdentStart_def is_letter_def is_space_def Let_def)

lemma emits_ident:
  assumes "valid_ident s"
  shows "emits s [(tIdent, s)] (\<lambda>rest. \<exists>c cs. rest = c # cs \<and> \<not> isIdentChar c)"
proof (rule emits_token)
  fix runes :: string and i rest
  assume d: "drop i runes = s @ rest" and r: "\<exists>c cs. rest = c # cs \<and> \<not> isIdentChar c"
  from assms obtain a s' where s: "s = a # s'" "isIdentStart a" "list_all isIdentChar s"
    by (cases s) (auto simp: valid_ident_def)
  from r s(3) have "takeWhile isIdentChar (drop i runes) = s"
    by (auto simp: d list_all_iff takeWhile_append)
  moreover have "runes ! i = a" using d s(1) by (simp add: nth_of_drop)
  ultimately show "\<exists>t. lex_step runes i = Inr (Some t, i + length s) \<and> ev t = (tIdent, s)"
    using isIdentStart_plain [OF s(2)] s(2) by (simp add: lex_step_def Let_def ev_def)
qed (use assms in \<open>simp add: valid_ident_def\<close>)

subsection \<open>Matchers, stages and queries\<close>

fun op_ev :: "ql_op \<Rightarrow> event" where
  "op_ev OpEq = (tEq, ''='')" | "op_ev OpNeq = (tNeq, ''!='')"
| "op_ev OpRe = (tRe, ''=~'')" | "op_ev OpNre = (tNre, ''!~'')"

fun line_op_ev :: "line_op \<Rightarrow> event" where
  "line_op_ev LineContains = (tPipeEq, ''|='')" | "line_op_ev LineNotContains = (tNeq, ''!='')"
| "line_op_ev LineRe = (tPipeRe, ''|~'')" | "line_op_ev LineNre = (tNre, ''!~'')"

definition triple_ev :: "string \<Rightarrow> ql_op \<Rightarrow> string \<Rightarrow> event list" where
  "triple_ev k op v = [(tIdent, k), op_ev op, (tString, v)]"

fun labels_ev :: "'re label_matcher list \<Rightarrow> event list" where
  "labels_ev [] = [(tRBrace, ''}'')]"
| "labels_ev [m] = triple_ev (lm_name m) (lm_op m) (lm_value m) @ [(tRBrace, ''}'')]"
| "labels_ev (m # ms) = triple_ev (lm_name m) (lm_op m) (lm_value m) @ [(tComma, '','')] @ labels_ev ms"

definition attr_ev :: "'re attr_matcher \<Rightarrow> event list" where
  "attr_ev m = (tPipe, ''|'') # triple_ev (am_key m) (am_op m) (am_value m)"

definition line_ev :: "'re line_matcher \<Rightarrow> event list" where
  "line_ev m = [line_op_ev (ln_op m), (tString, ln_value m)]"

lemma emits_then:
  "emits s1 e1 (\<lambda>_. True) \<Longrightarrow> emits s2 e2 ok2 \<Longrightarrow> emits (s1 @ s2) (e1 @ e2) ok2"
  by (rule emits_append) auto

lemma emits_op_string: "emits (render_op op @ quote_string v) [op_ev op, (tString, v)] (\<lambda>_. True)"
proof (cases op)
  case OpEq
  have "emits (''='' @ quote_string v) ([(tEq, ''='')] @ [(tString, v)]) (\<lambda>_. True)"
    by (rule emits_append [OF emits_eq emits_quoted]) (simp add: quote_string_def)
  with OpEq show ?thesis by simp
qed (use emits_then [OF emits_punct(4) emits_quoted] emits_then [OF emits_punct(5) emits_quoted]
       emits_then [OF emits_punct(6) emits_quoted] in simp_all)

lemma emits_line_op_string:
  "emits (render_line_op op @ quote_string v) [line_op_ev op, (tString, v)] (\<lambda>_. True)"
  by (cases op)
     (use emits_then [OF emits_punct(4) emits_quoted] emits_then [OF emits_punct(5) emits_quoted]
       emits_then [OF emits_punct(7) emits_quoted] emits_then [OF emits_punct(8) emits_quoted] in simp_all)

lemma not_ident_chars [simp]: "\<not> isIdentChar (CHR ''='')" "\<not> isIdentChar (CHR ''!'')"
  by (simp_all add: isIdentChar_def is_letter_def is_digit_def Let_def)

lemma emits_triple:
  assumes "valid_ident k"
  shows "emits (k @ render_op op @ quote_string v) (triple_ev k op v) (\<lambda>_. True)"
proof -
  have "emits (k @ (render_op op @ quote_string v)) ([(tIdent, k)] @ [op_ev op, (tString, v)]) (\<lambda>_. True)"
    by (rule emits_append [OF emits_ident [OF assms] emits_op_string]) (cases op; simp)
  then show ?thesis by (simp add: triple_ev_def)
qed

lemma knownLabels_ident: "k \<in> set knownLabels \<Longrightarrow> valid_ident k"
  by (auto simp: knownLabels_def valid_ident_def isIdentStart_def isIdentChar_def is_letter_def Let_def)

lemma emits_labels:
  "list_all (label_wf rc) ms \<Longrightarrow> emits (render_labels ms) (labels_ev ms) (\<lambda>_. True)"
proof (induction ms rule: render_labels.induct)
  case 1
  then show ?case using emits_punct(2) by simp
next
  case (2 m)
  then show ?case
    using emits_then [OF emits_triple emits_punct(2), of "lm_name m"] knownLabels_ident
    by (simp add: render_label_def label_wf_def)
next
  case (3 m m' ms)
  then have "emits (render_labels (m' # ms)) (labels_ev (m' # ms)) (\<lambda>_. True)" by simp
  then show ?case
    using "3.prems" emits_then [OF emits_triple emits_then [OF emits_punct(3)], of "lm_name m"]
      knownLabels_ident
    by (simp add: render_label_def label_wf_def)
qed

lemma emits_attr:
  assumes "valid_ident (am_key m)"
  shows "emits (render_attr m) (attr_ev m) (\<lambda>_. True)"
proof -
  have "emits (''|'' @ '' '' @ am_key m @ render_op (am_op m) @ quote_string (am_value m))
      ([(tPipe, ''|'')] @ [] @ triple_ev (am_key m) (am_op m) (am_value m)) (\<lambda>_. True)"
    by (rule emits_append [OF emits_pipe emits_then [OF emits_space emits_triple [OF assms]]]) simp
  from emits_then [OF emits_space this] show ?thesis by (simp add: render_attr_def attr_ev_def)
qed

lemma emits_line: "emits (render_line m) (line_ev m) (\<lambda>_. True)"
  using emits_then [OF emits_space emits_line_op_string] by (simp add: render_line_def line_ev_def)

lemma emits_nil: "emits [] [] (\<lambda>_. True)"
proof (rule emitsI)
  fix runes :: string and i
  show "\<exists>ts. map ev ts = [] \<and> lex_from runes i = rmap ((@) ts) (lex_from runes (i + length ([] :: string)))"
    by (intro exI [of _ "[]"]) (cases "lex_from runes i"; simp)
qed

lemma emits_concat:
  "(\<And>x. x \<in> set xs \<Longrightarrow> emits (f x) (g x) (\<lambda>_. True)) \<Longrightarrow>
   emits (concat (map f xs)) (concat (map g xs)) (\<lambda>_. True)"
  by (induction xs) (simp_all add: emits_nil emits_then)

definition query_ev :: "'re query \<Rightarrow> event list" where
  "query_ev q = [(tLBrace, ''{'')] @ labels_ev (q_labels q) @ concat (map attr_ev (q_attrs q)) @
     concat (map line_ev (q_lines q))"

lemma emits_query:
  assumes "query_wf rc q" and "list_all (valid_ident \<circ> am_key) (q_attrs q)"
  shows "emits (render_query q) (query_ev q) (\<lambda>_. True)"
  unfolding render_query_def query_ev_def
  using assms
  by (intro emits_then emits_punct(1) emits_concat emits_line emits_labels [of rc] emits_attr)
     (auto simp: query_wf_def list_all_iff)

lemma lex_of_emits:
  assumes "emits s evs (\<lambda>_. True)"
  shows "\<exists>ts e. lex s = Inr (ts @ [e]) \<and> map ev ts = evs \<and> tkind e = tEOF"
proof -
  obtain ts where "map ev ts = evs" "lex_from s 0 = rmap ((@) ts) (lex_from s (length s))"
    using emitsD [OF assms, of 0 s "[]"] by auto
  then show ?thesis by (simp add: lex_def lex_from_end)
qed

section \<open>Parsing the tokens back\<close>

lemma ev_eq:
  "ev t = (k, v) \<longleftrightarrow> tkind t = k \<and> tval t = v"
  "(k, v) = ev t \<longleftrightarrow> tkind t = k \<and> tval t = v"
  by (auto simp: ev_def)

lemma expect_ok: "tkind t = k \<Longrightarrow> expect k err (t # ts) = Inr (tval t, ts)"
  by (simp add: expect_def cur_def next_tok_def)

lemma parseOp_ok: "ev t = op_ev op \<Longrightarrow> parseOp (t # ts) = Inr (op, ts)"
  by (cases op) (simp_all add: ev_eq parseOp_def cur_def next_tok_def)

lemma compile_re_back: "re_ok rc b v re \<Longrightarrow> compile_re rc b v = Inr re"
  by (auto simp: compile_re_def re_ok_def split: if_splits option.splits)

lemma parse_label_back:
  assumes "label_wf rc m" and "map ev ts = triple_ev (lm_name m) (lm_op m) (lm_value m)"
  shows "parse_label rc (ts @ r) = Inr (m, r)"
  using assms
  by (auto simp: triple_ev_def ev_eq parse_label_def expect_ok parseOp_ok label_wf_def compile_re_back)

lemma parse_selector_loop_back:
  assumes "ms \<noteq> []" "list_all (label_wf rc) ms" "map ev ts = labels_ev ms"
  shows "parse_selector_loop rc (ts @ r) q = Inr (q\<lparr>q_labels := q_labels q @ ms\<rparr>, r)"
  using assms
proof (induction ms arbitrary: ts q rule: labels_ev.induct)
  case 1
  then show ?case by simp
next
  case (2 m)
  then obtain us t where ts: "ts = us @ [t]" "map ev us = triple_ev (lm_name m) (lm_op m) (lm_value m)"
      "tkind t = tRBrace"
    by (auto simp: map_eq_append_conv ev_eq)
  then show ?case using 2 parse_label_back [of rc m us "t # r"]
    by (simp add: parse_selector_loop.simps [of rc _ q] cur_def)
next
  case (3 m m' ms)
  then obtain us t vs where ts: "ts = us @ t # vs" "map ev us = triple_ev (lm_name m) (lm_op m) (lm_value m)"
      "tkind t = tComma" "map ev vs = labels_ev (m' # ms)"
    by (auto simp: map_eq_append_conv ev_eq Cons_eq_map_conv)
  have "parse_selector_loop rc (vs @ r) (q\<lparr>q_labels := q_labels q @ [m]\<rparr>) =
      Inr (q\<lparr>q_labels := q_labels q @ m # m' # ms\<rparr>, r)"
    using "3.IH" [OF _ _ ts(4), of "q\<lparr>q_labels := q_labels q @ [m]\<rparr>"] "3.prems"(2) by simp
  then show ?case using "3.prems" ts parse_label_back [of rc m us "t # vs @ r"]
    by (simp add: parse_selector_loop.simps [of rc _ q] cur_def)
qed

lemma parse_attr_back:
  assumes "attr_wf rc m" "map ev ts = attr_ev m"
  shows "parse_stage rc (ts @ r) q = Inr (Some (q\<lparr>q_attrs := q_attrs q @ [m]\<rparr>, r))"
  using assms
  by (auto simp: attr_ev_def triple_ev_def ev_eq parse_stage_def cur_def parseLabelFilter_def
      expect_ok parseOp_ok attr_wf_def compile_re_back)

lemma parse_line_back:
  assumes "line_wf rc m" "map ev ts = line_ev m"
  shows "parse_stage rc (ts @ r) q = Inr (Some (q\<lparr>q_lines := q_lines q @ [m]\<rparr>, r))"
  using assms
  by (cases "ln_op m")
     (auto simp: line_ev_def ev_eq parse_stage_def cur_def appendLine_def expect_ok line_wf_def
      dest!: compile_re_back)

lemma parsePipeline_step:
  "parse_stage rc ts q = Inr (Some (q', r)) \<Longrightarrow> parsePipeline rc ts q = parsePipeline rc r q'"
  by (simp add: parsePipeline.simps [of rc ts q])

lemma parsePipeline_attrs_back:
  "list_all (attr_wf rc) ms \<Longrightarrow> map ev ts = concat (map attr_ev ms) \<Longrightarrow>
   parsePipeline rc (ts @ r) q = parsePipeline rc r (q\<lparr>q_attrs := q_attrs q @ ms\<rparr>)"
proof (induction ms arbitrary: ts q)
  case Nil
  then show ?case by simp
next
  case (Cons m ms)
  then obtain us vs where "ts = us @ vs" "map ev us = attr_ev m" "map ev vs = concat (map attr_ev ms)"
    by (auto simp: map_eq_append_conv)
  with Cons show ?case
    using parsePipeline_step [OF parse_attr_back [of rc m us "vs @ r" q]] by simp
qed

lemma parsePipeline_lines_back:
  "list_all (line_wf rc) ms \<Longrightarrow> map ev ts = concat (map line_ev ms) \<Longrightarrow>
   parsePipeline rc (ts @ r) q = parsePipeline rc r (q\<lparr>q_lines := q_lines q @ ms\<rparr>)"
proof (induction ms arbitrary: ts q)
  case Nil
  then show ?case by simp
next
  case (Cons m ms)
  then obtain us vs where "ts = us @ vs" "map ev us = line_ev m" "map ev vs = concat (map line_ev ms)"
    by (auto simp: map_eq_append_conv)
  with Cons show ?case
    using parsePipeline_step [OF parse_line_back [of rc m us "vs @ r" q]] by simp
qed

lemma parsePipeline_eof: "tkind e = tEOF \<Longrightarrow> parsePipeline rc [e] q = Inr (q, [e])"
  by (simp add: parsePipeline.simps parse_stage_def cur_def)

lemma parseSelector_back:
  assumes "list_all (label_wf rc) ms" "map ev ts = (tLBrace, ''{'') # labels_ev ms" "q_labels q = []"
  shows "parseSelector rc (ts @ r) q = Inr (q\<lparr>q_labels := ms\<rparr>, r)"
proof -
  from assms(2) obtain t us where ts: "ts = t # us" "tkind t = tLBrace" "map ev us = labels_ev ms"
    by (auto simp: ev_eq)
  show ?thesis
  proof (cases ms)
    case Nil
    with ts assms(3) show ?thesis
      by (auto simp: parseSelector_def expect_ok cur_def next_tok_def ev_eq)
  next
    case (Cons m ms')
    have first: "us \<noteq> []" "tkind (hd us) = tIdent"
      using ts(3) Cons by (cases ms'; cases us; auto simp: triple_ev_def ev_eq)+
    then show ?thesis
      using ts assms parse_selector_loop_back [of ms rc us r q] Cons
      by (cases us) (simp_all add: parseSelector_def expect_ok cur_def)
  qed
qed

text \<open>
  C24.  Round trip of the query language: for every query over known labels whose attribute keys are
  identifiers, compiling its printed form gives the query back.  Quotes and backslashes in values
  are escaped and read back, and each of the eight operators is told apart.
\<close>

theorem Compile_render:
  assumes wf: "query_wf rc q" and keys: "list_all (valid_ident \<circ> am_key) (q_attrs q)"
  shows "Compile rc (render_query q) = Inr q"
proof -
  obtain ts e where lex: "lex (render_query q) = Inr (ts @ [e])" and ts: "map ev ts = query_ev q"
      and e: "tkind e = tEOF"
    using lex_of_emits [OF emits_query [OF wf keys]] by blast
  from ts have "map ev ts = ((tLBrace, ''{'') # labels_ev (q_labels q)) @
      (concat (map attr_ev (q_attrs q)) @ concat (map line_ev (q_lines q)))"
    by (simp add: query_ev_def)
  then obtain us xs where xs: "ts = us @ xs"
      and us: "map ev us = (tLBrace, ''{'') # labels_ev (q_labels q)"
      and "map ev xs = concat (map attr_ev (q_attrs q)) @ concat (map line_ev (q_lines q))"
    by (rule map_eq_appendE)
  from this(3) obtain vs ws where "xs = vs @ ws"
      and vs: "map ev vs = concat (map attr_ev (q_attrs q))"
      and ws: "map ev ws = concat (map line_ev (q_lines q))"
    by (rule map_eq_appendE)
  with xs have split: "ts = us @ vs @ ws" by simp
  have first: "\<exists>t us'. us = t # us' \<and> tkind t = tLBrace" using us by (auto simp: ev_eq)
  have "parseSelector rc (ts @ [e]) empty_query = Inr (empty_query\<lparr>q_labels := q_labels q\<rparr>, vs @ ws @ [e])"
    using parseSelector_back [OF _ us] wf by (simp add: split query_wf_def empty_query_def)
  moreover have "parsePipeline rc (vs @ ws @ [e]) (empty_query\<lparr>q_labels := q_labels q\<rparr>) = Inr (q, [e])"
    using wf e by (simp add: parsePipeline_attrs_back [OF _ vs] parsePipeline_lines_back [OF _ ws]
        parsePipeline_eof query_wf_def empty_query_def)
  ultimately show ?thesis
    using first e by (auto simp: Compile_def lex cur_def split)
qed

definition sample_query :: "string query" where
  "sample_query =
     \<lparr>q_labels = [\<lparr>lm_name = ''type'', lm_op = OpNeq, lm_value = [quote_char, backslash], lm_re = None\<rparr>,
        \<lparr>lm_name = ''severity'', lm_op = OpRe, lm_value = ''warning'', lm_re = Some ''warning''\<rparr>],
      q_attrs = [\<lparr>am_key = ''a.b'', am_op = OpEq, am_value = ''op'', am_re = None\<rparr>],
      q_lines = [\<lparr>ln_op = LineNre, ln_value = ''timeout'', ln_re = Some ''timeout''\<rparr>]\<rparr>"

theorem Compile_render_witness:
  "query_wf Some sample_query \<and> list_all (valid_ident \<circ> am_key) (q_attrs sample_query) \<and>
   Compile Some (render_query sample_query) = Inr sample_query"
proof -
  have wf: "query_wf Some sample_query"
    by (simp add: query_wf_def sample_query_def label_wf_def attr_wf_def line_wf_def re_ok_def knownLabels_def)
  have keys: "list_all (valid_ident \<circ> am_key) (q_attrs sample_query)"
    by (simp add: sample_query_def valid_ident_def isIdentStart_def isIdentChar_def is_letter_def Let_def)
  show ?thesis using wf keys Compile_render [OF wf keys] by simp
qed

end
