(* ===== verification/Pipeline_Graph.thy ===== *)
theory Pipeline_Graph
  imports Xolo_Prelude
begin

text \<open>
  Pipeline graphs: the data of \<open>src/internal/core/model/pipeline_graph.go\<close>, the checks every saved
  graph passes (\<open>src/internal/core/service/pipeline_graph.go\<close>), and the structural part of the engine
  (\<open>src/internal/pipeline/engine.go\<close>: \<open>validateGraph\<close>, \<open>topoSort\<close>, \<open>nodeByID\<close>, \<open>pendingBlockNode\<close>).

  A node's data is its raw JSON text, \<open>None\<close> when the slice is nil.  Decoding it is the work of Go's
  \<open>encoding/json\<close>; what the checks ask of it are the two functions of the record \<open>json_checks\<close>.  The
  canvas position of a node is not kept: no code modelled here reads it.
\<close>

section \<open>Graphs\<close>

datatype node_type =
    NodeTypeGenerator | NodeTypeSink | NodeTypeModel | NodeTypeValue | NodeTypeModelRef
  | NodeTypeCompare | NodeTypeSelect | NodeTypeMath | NodeTypeSample | NodeTypeContext
  | NodeTypeTrace | NodeTypeNote | NodeTypeModelFallback | NodeTypeBlock | NodeTypePlugin
  | NodeTypeOther string

record pipeline_node =
  node_id :: string
  node_type :: node_type
  node_data :: "string option"

record pipeline_edge =
  edge_id :: string
  edge_source :: string
  edge_sourcePort :: string
  edge_target :: string
  edge_targetPort :: string

record pipeline_graph =
  g_nodes :: "pipeline_node list"
  g_edges :: "pipeline_edge list"

definition Known :: "node_type \<Rightarrow> bool" where
  "Known t = (case t of NodeTypeOther _ \<Rightarrow> False | _ \<Rightarrow> True)"

definition NodeIDs :: "pipeline_graph \<Rightarrow> string list" where
  "NodeIDs g = map node_id (g_nodes g)"

section \<open>Checks on a saved graph\<close>

datatype graph_error =
    TooManyNodesOrEdges
  | InvalidNodeID string
  | DuplicateNodeID string
  | UnknownNodeType string
  | DataNotObject string
  | PluginUnnamed string
  | InvalidEdgeID string
  | DuplicateEdgeID string
  | DanglingEdge string string

text \<open>
  \<open>jc_object d\<close>: the text decodes to a non-null JSON object.  \<open>jc_plugin d\<close>: the plugin name the text
  decodes to as a \<open>PluginNodeData\<close>, \<open>None\<close> when decoding fails.
\<close>

record json_checks =
  jc_object :: "string \<Rightarrow> bool"
  jc_plugin :: "string \<Rightarrow> string option"

abbreviation maxPipelineNodes :: nat where "maxPipelineNodes \<equiv> 500"
abbreviation maxPipelineEdges :: nat where "maxPipelineEdges \<equiv> 2000"
abbreviation maxPipelineIDLength :: nat where "maxPipelineIDLength \<equiv> 200"

definition validPipelineID :: "string \<Rightarrow> bool" where
  "validPipelineID ident = (ident \<noteq> [] \<and> trim_space ident = ident \<and> length ident \<le> maxPipelineIDLength)"

definition ValidatePipelineNode :: "json_checks \<Rightarrow> pipeline_node \<Rightarrow> (graph_error, unit) result" where
  "ValidatePipelineNode jc node =
     (if \<not> Known (node_type node) then Inl (UnknownNodeType (node_id node))
      else
        (let data = trim_space (case node_data node of None \<Rightarrow> [] | Some d \<Rightarrow> d) in
         if data \<noteq> [] \<and> data \<noteq> ''null'' \<and> \<not> jc_object jc data then Inl (DataNotObject (node_id node))
         else if node_type node = NodeTypePlugin then
           (case jc_plugin jc (case node_data node of None \<Rightarrow> [] | Some d \<Rightarrow> d) of
              None \<Rightarrow> Inl (PluginUnnamed (node_id node))
            | Some name \<Rightarrow> if trim_space name = [] then Inl (PluginUnnamed (node_id node)) else Inr ())
         else Inr ()))"

fun validate_nodes :: "json_checks \<Rightarrow> string set \<Rightarrow> pipeline_node list \<Rightarrow> (graph_error, string set) result" where
  "validate_nodes jc seen [] = Inr seen"
| "validate_nodes jc seen (n # ns) =
     (if \<not> validPipelineID (node_id n) then Inl (InvalidNodeID (node_id n))
      else if node_id n \<in> seen then Inl (DuplicateNodeID (node_id n))
      else rbind (ValidatePipelineNode jc n) (\<lambda>_. validate_nodes jc (insert (node_id n) seen) ns))"

fun validate_edges :: "string set \<Rightarrow> string set \<Rightarrow> pipeline_edge list \<Rightarrow> (graph_error, unit) result" where
  "validate_edges nodes seen [] = Inr ()"
| "validate_edges nodes seen (e # es) =
     (if \<not> validPipelineID (edge_id e) then Inl (InvalidEdgeID (edge_id e))
      else if edge_id e \<in> seen then Inl (DuplicateEdgeID (edge_id e))
      else if edge_source e \<notin> nodes then Inl (DanglingEdge (edge_id e) (edge_source e))
      else if edge_target e \<notin> nodes then Inl (DanglingEdge (edge_id e) (edge_target e))
      else validate_edges nodes (insert (edge_id e) seen) es)"

text \<open>The graph pointer may be nil.\<close>

definition ValidatePipelineGraph :: "json_checks \<Rightarrow> pipeline_graph option \<Rightarrow> (graph_error, unit) result" where
  "ValidatePipelineGraph jc graph =
     (case graph of
        None \<Rightarrow> Inr ()
      | Some g \<Rightarrow>
          if length (g_nodes g) > maxPipelineNodes \<or> length (g_edges g) > maxPipelineEdges
          then Inl TooManyNodesOrEdges
          else rbind (validate_nodes jc {} (g_nodes g)) (\<lambda>nodes. validate_edges nodes {} (g_edges g)))"

text \<open>What a graph that passed holds: unique node ids, and edges between existing nodes.\<close>

definition graph_wf :: "pipeline_graph \<Rightarrow> bool" where
  "graph_wf g \<longleftrightarrow> distinct (NodeIDs g) \<and>
     (\<forall>e \<in> set (g_edges g). edge_source e \<in> set (NodeIDs g) \<and> edge_target e \<in> set (NodeIDs g))"

lemma validate_nodes_ok:
  "validate_nodes jc seen ns = Inr seen' \<Longrightarrow>
   seen' = seen \<union> node_id ` set ns \<and> distinct (map node_id ns) \<and> seen \<inter> node_id ` set ns = {}"
  by (induction ns arbitrary: seen) (auto simp: result_simps split: if_splits)

lemma validate_edges_ok:
  "validate_edges nodes seen es = Inr () \<Longrightarrow> e \<in> set es \<Longrightarrow> edge_source e \<in> nodes \<and> edge_target e \<in> nodes"
  by (induction es arbitrary: seen) (auto split: if_splits)

lemma ValidatePipelineGraph_wf: "ValidatePipelineGraph jc (Some g) = Inr () \<Longrightarrow> graph_wf g"
  by (auto simp: ValidatePipelineGraph_def graph_wf_def NodeIDs_def result_simps
      dest!: validate_nodes_ok dest: validate_edges_ok split: if_splits)

section \<open>The engine's view of a graph\<close>

definition nodeByID :: "pipeline_graph \<Rightarrow> string \<Rightarrow> pipeline_node option" where
  "nodeByID g ident = find (\<lambda>n. node_id n = ident) (g_nodes g)"

definition isTerminalNodeType :: "node_type \<Rightarrow> bool" where
  "isTerminalNodeType t = (t = NodeTypeModel \<or> t = NodeTypeModelFallback)"

datatype structure_error = NoGenerator | NoSink | SinkUnconnected

definition validateGraph :: "pipeline_graph \<Rightarrow> (structure_error, unit) result" where
  "validateGraph g =
     (let sinkIDs = map node_id (filter (\<lambda>n. node_type n = NodeTypeSink) (g_nodes g)) in
      if \<not> list_ex (\<lambda>n. node_type n = NodeTypeGenerator) (g_nodes g) then Inl NoGenerator
      else if sinkIDs = [] then Inl NoSink
      else if list_all (\<lambda>s. list_ex (\<lambda>e. edge_target e = s) (g_edges g)) sinkIDs then Inr ()
      else Inl SinkUnconnected)"

fun pendingBlockNode :: "pipeline_graph \<Rightarrow> string list \<Rightarrow> string" where
  "pendingBlockNode g [] = []"
| "pendingBlockNode g (ident # rest) =
     (case nodeByID g ident of
        Some n \<Rightarrow> if node_type n = NodeTypeBlock then ident else pendingBlockNode g rest
      | None \<Rightarrow> pendingBlockNode g rest)"

subsection \<open>Kahn's algorithm\<close>

text \<open>
  The two maps \<open>inDegree\<close> and \<open>adj\<close>, filled edge by edge.  A missing key of a Go map reads as the zero
  value, so the maps are total functions; the entries set to zero for every node first are that
  default.
\<close>

fun count_edges :: "pipeline_edge list \<Rightarrow> (string \<Rightarrow> int) \<times> (string \<Rightarrow> string list)
    \<Rightarrow> (string \<Rightarrow> int) \<times> (string \<Rightarrow> string list)" where
  "count_edges [] (inDegree, adj) = (inDegree, adj)"
| "count_edges (e # es) (inDegree, adj) =
     count_edges es (inDegree(edge_target e := inDegree (edge_target e) + 1),
                     adj(edge_source e := adj (edge_source e) @ [edge_target e]))"

definition in_degrees :: "pipeline_edge list \<Rightarrow> string \<Rightarrow> int" where
  "in_degrees es = fst (count_edges es (\<lambda>_. 0, \<lambda>_. []))"

definition adjacency :: "pipeline_edge list \<Rightarrow> string \<Rightarrow> string list" where
  "adjacency es = snd (count_edges es (\<lambda>_. 0, \<lambda>_. []))"

fun terminal_map :: "pipeline_node list \<Rightarrow> string \<Rightarrow> bool" where
  "terminal_map [] = (\<lambda>_. False)"
| "terminal_map (n # ns) =
     (\<lambda>x. if x \<in> node_id ` set ns then terminal_map ns x
          else x = node_id n \<and> isTerminalNodeType (node_type n))"

text \<open>The index of the first ready node that is not terminal, 0 when all of them are.\<close>

fun first_nonterminal :: "(string \<Rightarrow> bool) \<Rightarrow> string list \<Rightarrow> nat option" where
  "first_nonterminal terminal [] = None"
| "first_nonterminal terminal (ident # queue) =
     (if \<not> terminal ident then Some 0 else map_option Suc (first_nonterminal terminal queue))"

definition pick_ready :: "(string \<Rightarrow> bool) \<Rightarrow> string list \<Rightarrow> nat" where
  "pick_ready terminal queue = (case first_nonterminal terminal queue of None \<Rightarrow> 0 | Some i \<Rightarrow> i)"

text \<open>The inner loop: each successor loses an incoming edge and is ready once it has none.\<close>

fun release :: "string list \<Rightarrow> (string \<Rightarrow> int) \<Rightarrow> string list \<Rightarrow> (string \<Rightarrow> int) \<times> string list" where
  "release [] inDegree queue = (inDegree, queue)"
| "release (x # xs) inDegree queue =
     (let d = inDegree(x := inDegree x - 1)
      in release xs d (if d x = 0 then queue @ [x] else queue))"

end
