(* ===== verification/Topo_Sort.thy ===== *)
theory Topo_Sort
  imports Pipeline_Graph
begin

text \<open>
  \<open>topoSort\<close> of \<open>src/internal/pipeline/engine.go\<close> and its correctness.  The main loop \<open>kahn\<close> takes, among
  the ready nodes, the first one that is not terminal; its termination measure counts the queue and
  the nodes still waiting for an edge.  On graphs with unique ids and no dangling edge the result is
  a topological order of all nodes, it exists exactly when the graph has no cycle, and every node
  that does not depend on a terminal node comes before all of them.
\<close>

section \<open>Closed forms of the edge maps\<close>

abbreviation edges_between :: "pipeline_edge list \<Rightarrow> string \<Rightarrow> string \<Rightarrow> pipeline_edge list" where
  "edges_between es x y \<equiv> filter (\<lambda>e. edge_source e = x \<and> edge_target e = y) es"

lemma count_edges_eq:
  "count_edges es (d, a) =
     ((\<lambda>x. d x + int (length (filter (\<lambda>e. edge_target e = x) es))),
      (\<lambda>x. a x @ map edge_target (filter (\<lambda>e. edge_source e = x) es)))"
  by (induction es arbitrary: d a) (auto simp: fun_eq_iff)

lemma in_degrees_eq: "in_degrees es x = int (length (filter (\<lambda>e. edge_target e = x) es))"
  by (simp add: in_degrees_def count_edges_eq)

lemma adjacency_eq: "adjacency es x = map edge_target (filter (\<lambda>e. edge_source e = x) es)"
  by (simp add: adjacency_def count_edges_eq)

lemma adjacency_targets: "set (adjacency es x) \<subseteq> edge_target ` set es"
  by (auto simp: adjacency_eq)

section \<open>The loop\<close>

lemma release_bound:
  "finite S \<Longrightarrow> set xs \<subseteq> S \<Longrightarrow> release xs d q = (d', q') \<Longrightarrow>
   length q' + card {x \<in> S. 0 < d' x} \<le> length q + card {x \<in> S. 0 < d x}"
proof (induction xs arbitrary: d q)
  case Nil
  then show ?case by simp
next
  case (Cons x xs)
  define e where "e = d(x := d x - 1)"
  have "release xs e (if e x = 0 then q @ [x] else q) = (d', q')"
    using Cons.prems(3) by (simp add: e_def Let_def)
  then have IH: "length q' + card {y \<in> S. 0 < d' y} \<le>
      length (if e x = 0 then q @ [x] else q) + card {y \<in> S. 0 < e y}"
    using Cons.IH Cons.prems(1,2) by simp
  have sub: "{y \<in> S. 0 < e y} \<subseteq> {y \<in> S. 0 < d y}" by (auto simp: e_def split: if_splits)
  show ?case
  proof (cases "e x = 0")
    case True
    then have "{y \<in> S. 0 < e y} \<subset> {y \<in> S. 0 < d y}"
      using Cons.prems(2) sub by (auto simp: e_def)
    then have "card {y \<in> S. 0 < e y} < card {y \<in> S. 0 < d y}"
      using Cons.prems(1) by (simp add: psubset_card_mono)
    with IH True show ?thesis by simp
  next
    case False
    have "card {y \<in> S. 0 < e y} \<le> card {y \<in> S. 0 < d y}"
      using sub Cons.prems(1) by (simp add: card_mono)
    with IH False show ?thesis by simp
  qed
qed

lemma first_nonterminal_Some:
  "first_nonterminal terminal q = Some i \<Longrightarrow> i < length q \<and> \<not> terminal (q ! i)"
  by (induction q arbitrary: i) (auto split: if_splits)

lemma first_nonterminal_None: "first_nonterminal terminal q = None \<longleftrightarrow> (\<forall>x \<in> set q. terminal x)"
  by (induction q) auto

lemma pick_ready_less: "q \<noteq> [] \<Longrightarrow> pick_ready terminal q < length q"
  by (auto simp: pick_ready_def dest: first_nonterminal_Some split: option.splits)

function kahn :: "pipeline_edge list \<Rightarrow> (string \<Rightarrow> bool) \<Rightarrow> (string \<Rightarrow> int) \<Rightarrow> string list \<Rightarrow> string list
    \<Rightarrow> string list" where
  "kahn es terminal inDegree queue order =
     (if queue = [] then order
      else
        let pick = pick_ready terminal queue;
            cur = queue ! pick;
            (d, queue') = release (adjacency es cur) inDegree (take pick queue @ drop (pick + 1) queue)
        in kahn es terminal d queue' (order @ [cur]))"
  by pat_completeness auto
termination
proof (relation "measure (\<lambda>(es, terminal, d, q, order).
    length q + card {x \<in> edge_target ` set es. 0 < d x})")
  fix es terminal inDegree and queue order :: "string list" and pick cur p d queue'
  assume q: "queue \<noteq> []" and pick: "pick = pick_ready terminal queue"
    and p: "p = release (adjacency es cur) inDegree (take pick queue @ drop (pick + 1) queue)"
    and dq: "(d, queue') = p"
  have "length queue' + card {x \<in> edge_target ` set es. 0 < d x} \<le>
      length (take pick queue @ drop (pick + 1) queue) + card {x \<in> edge_target ` set es. 0 < inDegree x}"
    using p dq adjacency_targets by (intro release_bound) (auto simp: adjacency_targets)
  moreover have "length (take pick queue @ drop (pick + 1) queue) < length queue"
    using pick_ready_less [OF q, of terminal] pick by simp
  ultimately show "((es, terminal, d, queue', order @ [cur]), (es, terminal, inDegree, queue, order))
      \<in> measure (\<lambda>(es, terminal, d, q, order). length q + card {x \<in> edge_target ` set es. 0 < d x})"
    by simp
qed simp

declare kahn.simps [simp del]

definition topoSort :: "pipeline_graph \<Rightarrow> string list option" where
  "topoSort g =
     (let inDegree = in_degrees (g_edges g);
          queue = map node_id (filter (\<lambda>n. inDegree (node_id n) = 0) (g_nodes g));
          order = kahn (g_edges g) (terminal_map (g_nodes g)) inDegree queue []
      in if length order \<noteq> length (g_nodes g) then None else Some order)"

section \<open>The loop invariant\<close>

lemma release_spec:
  assumes "\<And>x. int (count_list xs x) \<le> d x" and "release xs d q = (d', q')"
  shows "d' = (\<lambda>x. d x - int (count_list xs x)) \<and>
    (\<exists>new. q' = q @ new \<and> distinct new \<and> set new = {x \<in> set xs. d' x = 0})"
  using assms
proof (induction xs arbitrary: d q)
  case Nil
  then show ?case by simp
next
  case (Cons x xs)
  define e where "e = d(x := d x - 1)"
  have le: "int (count_list xs y) \<le> e y" for y
    using Cons.prems(1) [of y] by (auto simp: e_def split: if_splits)
  have r: "release xs e (if e x = 0 then q @ [x] else q) = (d', q')"
    using Cons.prems(2) by (simp add: e_def Let_def)
  obtain new where d': "d' = (\<lambda>y. e y - int (count_list xs y))"
      and q': "q' = (if e x = 0 then q @ [x] else q) @ new"
      and new: "distinct new" "set new = {y \<in> set xs. d' y = 0}"
    using Cons.IH [OF le r] by blast
  have d'_eq: "d' = (\<lambda>y. d y - int (count_list (x # xs) y))"
    using d' by (auto simp: e_def fun_eq_iff)
  show ?case
  proof (cases "e x = 0")
    case True
    then have "x \<notin> set xs" using le [of x] by (simp add: count_list_0_iff)
    moreover from this True have "d' x = 0" by (simp add: d' count_list_0_iff)
    ultimately have "q' = q @ (x # new)" "distinct (x # new)" "set (x # new) = {y \<in> set (x # xs). d' y = 0}"
      using True q' new by auto
    with d'_eq show ?thesis by blast
  next
    case False
    have "x \<in> set xs" if "d' x = 0"
      using that False fun_cong [OF d', of x] by (cases "x \<in> set xs") (simp_all add: count_list_0_iff)
    then have "set new = {y \<in> set (x # xs). d' y = 0}" using new(2) by auto
    moreover have "q' = q @ new" using False q' by simp
    ultimately show ?thesis using d'_eq new(1) by blast
  qed
qed

abbreviation open_in_edges :: "pipeline_edge list \<Rightarrow> string list \<Rightarrow> string \<Rightarrow> nat" where
  "open_in_edges es order x \<equiv> length (filter (\<lambda>e. edge_target e = x \<and> edge_source e \<notin> set order) es)"

definition kahn_inv :: "pipeline_edge list \<Rightarrow> string set \<Rightarrow> (string \<Rightarrow> int) \<Rightarrow> string list \<Rightarrow> string list \<Rightarrow> bool" where
  "kahn_inv es ids d q order \<longleftrightarrow>
     distinct (order @ q) \<and> set (order @ q) \<subseteq> ids \<and>
     (\<forall>x. d x = int (open_in_edges es order x)) \<and>
     (\<forall>x \<in> ids. x \<in> set (order @ q) \<longleftrightarrow> d x = 0) \<and>
     (\<forall>k < length order. \<forall>e \<in> set es. edge_target e = order ! k \<longrightarrow> edge_source e \<in> set (take k order))"

lemma count_adjacency: "count_list (adjacency es x) y = length (edges_between es x y)"
  unfolding adjacency_eq by (induction es) auto

lemma open_in_edges_snoc:
  "cur \<notin> set order \<Longrightarrow>
   open_in_edges es order x = length (edges_between es cur x) + open_in_edges es (order @ [cur]) x"
  by (induction es) auto

lemma set_take_drop_nth: "i < length q \<Longrightarrow> set q = insert (q ! i) (set (take i q @ drop (Suc i) q))"
  by (metis Un_insert_right id_take_nth_drop list.set(2) set_append)

lemma distinct_take_drop_nth:
  "distinct q \<Longrightarrow> i < length q \<Longrightarrow> distinct (take i q @ drop (Suc i) q) \<and> q ! i \<notin> set (take i q @ drop (Suc i) q)"
  by (metis distinct_append distinct.simps(2) id_take_nth_drop not_distinct_conv_prefix
      distinct_append set_append Un_iff disjoint_insert(1) list.simps(15))

lemma kahn_inv_step:
  assumes inv: "kahn_inv es ids d q order" and closed: "edge_target ` set es \<subseteq> ids"
    and i: "i < length q" and cur: "cur = q ! i"
    and r: "release (adjacency es cur) d (take i q @ drop (i + 1) q) = (d', q')"
  shows "kahn_inv es ids d' q' (order @ [cur])"
proof -
  define q1 where "q1 = take i q @ drop (Suc i) q"
  have dist: "distinct (order @ q)" and sub: "set (order @ q) \<subseteq> ids"
    and d: "d x = int (open_in_edges es order x)" and ready: "x \<in> ids \<Longrightarrow> x \<in> set (order @ q) \<longleftrightarrow> d x = 0"
    and topo: "\<forall>k < length order. \<forall>e \<in> set es. edge_target e = order ! k \<longrightarrow> edge_source e \<in> set (take k order)"
    for x
    using inv by (simp_all add: kahn_inv_def)
  have q: "set q = insert cur (set q1)" and q1: "distinct q1" "cur \<notin> set q1"
    using set_take_drop_nth [OF i] distinct_take_drop_nth [OF _ i] dist by (simp_all add: q1_def cur)
  have cur_new: "cur \<notin> set order" "cur \<in> ids" using dist q sub by auto
  note split = open_in_edges_snoc [OF cur_new(1), where es = es]
  have le: "int (count_list (adjacency es cur) x) \<le> d x" for x
    by (simp add: d count_adjacency split [of x])
  obtain new where d': "d' = (\<lambda>x. d x - int (count_list (adjacency es cur) x))"
      and q': "q' = q1 @ new" and new: "distinct new" "set new = {x \<in> set (adjacency es cur). d' x = 0}"
    using release_spec [OF le r] by (auto simp: q1_def)
  have d'_eq: "d' x = int (open_in_edges es (order @ [cur]) x)" for x
    by (simp add: d' d count_adjacency split [of x])
  have new_ids: "set new \<subseteq> ids" using new(2) adjacency_targets closed by blast
  have new_fresh: "x \<notin> set (order @ q)" if "x \<in> set new" for x
  proof -
    have "0 < count_list (adjacency es cur) x" using that new(2) count_list_0_iff by fastforce
    then have "0 < d x" using le [of x] by linarith
    then show ?thesis using that new_ids ready [of x] by auto
  qed
  have "distinct (order @ [cur] @ q')"
    using dist q q1 new(1) new_fresh cur_new by (auto simp: q')
  moreover have "set (order @ [cur] @ q') \<subseteq> ids" using sub q new_ids by (auto simp: q')
  moreover have "x \<in> set (order @ [cur] @ q') \<longleftrightarrow> d' x = 0" if x: "x \<in> ids" for x
  proof -
    have "x \<in> set (order @ [cur] @ q') \<longleftrightarrow> x \<in> set (order @ q) \<or> x \<in> set new" using q by (auto simp: q')
    also have "\<dots> \<longleftrightarrow> d x = 0 \<or> (x \<in> set (adjacency es cur) \<and> d' x = 0)"
      using ready [OF x] new(2) by auto
    also have "\<dots> \<longleftrightarrow> d' x = 0"
    proof (cases "x \<in> set (adjacency es cur)")
      case True
      then show ?thesis using le [of x] d'_eq [of x] by (auto simp: d')
    next
      case False
      then show ?thesis by (auto simp: d' count_list_0_iff)
    qed
    finally show ?thesis .
  qed
  moreover have "edge_source e \<in> set (take k (order @ [cur]))"
    if "k < length (order @ [cur])" "e \<in> set es" "edge_target e = (order @ [cur]) ! k" for k e
  proof (cases "k < length order")
    case True
    with that topo show ?thesis by (simp add: nth_append)
  next
    case False
    with that(1) have "k = length order" by simp
    with that(3) have k: "k = length order" "edge_target e = cur" by simp_all
    have "d cur = 0" using ready [OF cur_new(2)] q by simp
    then have "open_in_edges es order cur = 0" using d by simp
    with that(2) k show ?thesis by (auto simp: filter_empty_conv)
  qed
  ultimately show ?thesis using d'_eq by (simp add: kahn_inv_def)
qed

text \<open>The loop rule: what every iteration keeps holds of the result.\<close>

lemma kahn_rule:
  assumes start: "P d q order"
    and step: "\<And>d q order d' q'. P d q order \<Longrightarrow> q \<noteq> [] \<Longrightarrow>
      release (adjacency es (q ! pick_ready terminal q)) d
        (take (pick_ready terminal q) q @ drop (pick_ready terminal q + 1) q) = (d', q') \<Longrightarrow>
      P d' q' (order @ [q ! pick_ready terminal q])"
  shows "\<exists>d'. P d' [] (kahn es terminal d q order)"
proof -
  have "es' = es \<Longrightarrow> t' = terminal \<Longrightarrow> P d q order \<Longrightarrow> \<exists>d'. P d' [] (kahn es' t' d q order)" for es' t'
  proof (induction es' t' d q order rule: kahn.induct)
    case (1 es' t' d q order)
    show ?case
    proof (cases "q = []")
      case True
      then show ?thesis using "1.prems"(3) by (auto simp: kahn.simps [of _ _ _ "[]"])
    next
      case False
      obtain d1 q1 where r: "release (adjacency es (q ! pick_ready terminal q)) d
          (take (pick_ready terminal q) q @ drop (pick_ready terminal q + 1) q) = (d1, q1)"
        by (cases "release (adjacency es (q ! pick_ready terminal q)) d
          (take (pick_ready terminal q) q @ drop (pick_ready terminal q + 1) q)")
      have "P d1 q1 (order @ [q ! pick_ready terminal q])"
        using step [OF "1.prems"(3) False r] .
      then show ?thesis
        using "1.IH" [OF False refl refl refl, of d1 q1] r "1.prems"(1,2) False
        by (simp add: kahn.simps [of es terminal d q order] Let_def)
    qed
  qed
  then show ?thesis using start by blast
qed

section \<open>Topological orders\<close>

definition depends :: "pipeline_graph \<Rightarrow> (string \<times> string) set" where
  "depends g = (\<lambda>e. (edge_source e, edge_target e)) ` set (g_edges g)"

definition topo_order :: "pipeline_graph \<Rightarrow> string list \<Rightarrow> bool" where
  "topo_order g order \<longleftrightarrow>
     distinct order \<and> set order = set (NodeIDs g) \<and>
     (\<forall>us x vs y. order = us @ x # vs \<longrightarrow> (y, x) \<in> depends g \<longrightarrow> y \<in> set us)"

lemma topo_order_acyclic:
  assumes "topo_order g order" and "graph_wf g"
  shows "acyclic (depends g)"
proof -
  let ?idx = "\<lambda>x. length (takeWhile (\<lambda>y. y \<noteq> x) order)"
  have "?idx y < ?idx x" if yx: "(y, x) \<in> depends g" for x y
  proof -
    have "x \<in> set order" using yx assms by (auto simp: depends_def graph_wf_def topo_order_def)
    then obtain us vs where o: "order = us @ x # vs" "x \<notin> set us" by (metis split_list_first)
    have "y \<in> set us" using o(1) yx assms(1) by (auto simp: topo_order_def)
    then obtain us1 us2 where us: "us = us1 @ y # us2" "y \<notin> set us1" by (metis split_list_first)
    have "takeWhile (\<lambda>y. y \<noteq> x) (us @ x # vs) = us" using o(2) by (induction us) auto
    moreover have "takeWhile (\<lambda>z. z \<noteq> y) (us1 @ y # us2 @ x # vs) = us1"
      using us(2) by (induction us1) auto
    ultimately show ?thesis using o us by simp
  qed
  then have "depends g \<subseteq> measure ?idx" by auto
  then show ?thesis by (meson wf_measure wf_subset wf_acyclic)
qed

lemma initial_inv:
  assumes "graph_wf g"
  shows "kahn_inv (g_edges g) (set (NodeIDs g)) (in_degrees (g_edges g))
    (map node_id (filter (\<lambda>n. in_degrees (g_edges g) (node_id n) = 0) (g_nodes g))) []"
  using assms unfolding kahn_inv_def graph_wf_def NodeIDs_def
  by (auto simp: in_degrees_eq distinct_map inj_on_def)

abbreviation kahn_order :: "pipeline_graph \<Rightarrow> string list" where
  "kahn_order g \<equiv> kahn (g_edges g) (terminal_map (g_nodes g)) (in_degrees (g_edges g))
     (map node_id (filter (\<lambda>n. in_degrees (g_edges g) (node_id n) = 0) (g_nodes g))) []"

lemma topoSort_eq: "topoSort g = (if length (kahn_order g) \<noteq> length (g_nodes g) then None else Some (kahn_order g))"
  by (simp add: topoSort_def Let_def)

lemma graph_wf_targets: "graph_wf g \<Longrightarrow> edge_target ` set (g_edges g) \<subseteq> set (NodeIDs g)"
  by (auto simp: graph_wf_def)

lemma kahn_order_inv:
  assumes "graph_wf g"
  shows "\<exists>d. kahn_inv (g_edges g) (set (NodeIDs g)) d [] (kahn_order g)"
  using initial_inv [OF assms]
  by (rule kahn_rule) (rule kahn_inv_step [OF _ graph_wf_targets [OF assms] pick_ready_less refl], simp_all)

lemma inv_topo_order:
  assumes "kahn_inv (g_edges g) (set (NodeIDs g)) d [] order" and "set order = set (NodeIDs g)"
  shows "topo_order g order"
proof -
  have "y \<in> set us" if o: "order = us @ x # vs" and "(y, x) \<in> depends g" for us x vs y
  proof -
    from that(2) obtain e where e: "e \<in> set (g_edges g)" "y = edge_source e" "x = edge_target e"
      by (auto simp: depends_def)
    have "length us < length order" "edge_target e = order ! length us" using o e(3) by simp_all
    then have "edge_source e \<in> set (take (length us) order)"
      using assms(1) e(1) by (simp add: kahn_inv_def)
    then show ?thesis using o e(2) by simp
  qed
  then show ?thesis using assms by (simp add: topo_order_def kahn_inv_def)
qed

lemma full_order:
  assumes "graph_wf g" and "kahn_inv (g_edges g) (set (NodeIDs g)) d [] order"
  shows "length order = length (g_nodes g) \<longleftrightarrow> set order = set (NodeIDs g)"
proof -
  have "distinct order" "set order \<subseteq> set (NodeIDs g)" using assms(2) by (auto simp: kahn_inv_def)
  moreover have "card (set (NodeIDs g)) = length (g_nodes g)"
    using assms(1) distinct_card [of "NodeIDs g"] unfolding graph_wf_def by (simp add: NodeIDs_def)
  ultimately show ?thesis by (metis List.finite_set card_subset_eq distinct_card)
qed

text \<open>A node the loop never takes waits for another such node.\<close>

lemma left_node_waits:
  assumes "graph_wf g" and "kahn_inv (g_edges g) (set (NodeIDs g)) d q order"
    and "x \<in> set (NodeIDs g)" "x \<notin> set (order @ q)"
  shows "\<exists>y \<in> set (NodeIDs g). y \<notin> set order \<and> (y, x) \<in> depends g"
proof -
  have "d x \<noteq> 0" using assms(2-4) by (auto simp: kahn_inv_def)
  then have "open_in_edges (g_edges g) order x \<noteq> 0" using assms(2) by (simp add: kahn_inv_def)
  then obtain e where "e \<in> set (g_edges g)" "edge_target e = x" "edge_source e \<notin> set order"
    by (auto simp: filter_empty_conv)
  then show ?thesis using assms(1) by (auto simp: graph_wf_def depends_def)
qed

lemma finite_depends: "finite (depends g)"
  by (simp add: depends_def)

lemma topoSort_None_iff:
  assumes "graph_wf g"
  shows "topoSort g = None \<longleftrightarrow> \<not> acyclic (depends g)"
proof -
  obtain d where inv: "kahn_inv (g_edges g) (set (NodeIDs g)) d [] (kahn_order g)"
    using kahn_order_inv [OF assms] by blast
  show ?thesis
  proof (cases "set (kahn_order g) = set (NodeIDs g)")
    case True
    then have "acyclic (depends g)"
      using inv_topo_order [OF inv] topo_order_acyclic assms by blast
    moreover have "topoSort g \<noteq> None" using True full_order [OF assms inv] by (simp add: topoSort_eq)
    ultimately show ?thesis by simp
  next
    case False
    define X where "X = set (NodeIDs g) - set (kahn_order g)"
    have "X \<noteq> {}" using False inv by (auto simp: X_def kahn_inv_def)
    moreover have "\<exists>y \<in> X. (y, x) \<in> depends g" if "x \<in> X" for x
      using left_node_waits [OF assms inv, of x] that by (auto simp: X_def)
    ultimately have "\<not> wf (depends g)" by (metis ex_in_conv wfE_min)
    then have "\<not> acyclic (depends g)" using finite_depends finite_acyclic_wf by blast
    moreover have "topoSort g = None" using False full_order [OF assms inv] by (simp add: topoSort_eq)
    ultimately show ?thesis by simp
  qed
qed

lemma topoSort_topo_order:
  assumes "graph_wf g" and "topoSort g = Some order"
  shows "topo_order g order"
proof -
  obtain d where inv: "kahn_inv (g_edges g) (set (NodeIDs g)) d [] (kahn_order g)"
    using kahn_order_inv [OF assms(1)] by blast
  from assms(2) have o: "order = kahn_order g" "length (kahn_order g) = length (g_nodes g)"
    by (auto simp: topoSort_eq split: if_splits)
  with full_order [OF assms(1) inv] inv_topo_order [OF inv] show ?thesis by simp
qed

section \<open>A sample graph\<close>

text \<open>
  A request generator feeding a model, a block node fed by the clock of a context node, and a sink for
  the model's answer.
\<close>

definition sample_checks :: json_checks where
  "sample_checks = \<lparr>jc_object = (\<lambda>_. True), jc_plugin = (\<lambda>_. None)\<rparr>"

definition sample_edge :: "string \<Rightarrow> string \<Rightarrow> string \<Rightarrow> string \<Rightarrow> string \<Rightarrow> pipeline_edge" where
  "sample_edge i s sp t tp =
     \<lparr>edge_id = i, edge_source = s, edge_sourcePort = sp, edge_target = t, edge_targetPort = tp\<rparr>"

definition sample_graph :: pipeline_graph where
  "sample_graph =
     \<lparr>g_nodes =
        [\<lparr>node_id = ''in'', node_type = NodeTypeGenerator, node_data = None\<rparr>,
         \<lparr>node_id = ''llm'', node_type = NodeTypeModel, node_data = None\<rparr>,
         \<lparr>node_id = ''ctx'', node_type = NodeTypeContext, node_data = None\<rparr>,
         \<lparr>node_id = ''guard'', node_type = NodeTypeBlock, node_data = None\<rparr>,
         \<lparr>node_id = ''out'', node_type = NodeTypeSink, node_data = None\<rparr>],
      g_edges =
        [sample_edge ''e1'' ''in'' ''request'' ''llm'' ''request'',
         sample_edge ''e2'' ''ctx'' ''is_weekend'' ''guard'' ''condition'',
         sample_edge ''e3'' ''llm'' ''response'' ''out'' ''response'']\<rparr>"

lemma sample_graph_valid: "ValidatePipelineGraph sample_checks (Some sample_graph) = Inr ()"
  by code_simp

lemma sample_graph_order: "topoSort sample_graph = Some [''in'', ''ctx'', ''guard'', ''llm'', ''out'']"
  by code_simp

text \<open>
  C12.  On every graph that passes the checks made when a graph is saved, \<open>topoSort\<close> decides cycles:
  without a cycle it returns an order in which every node appears once and after all the nodes it
  takes an input from; with a cycle it returns the error.
\<close>

theorem topoSort_correct:
  assumes "ValidatePipelineGraph jc (Some g) = Inr ()"
  shows "if acyclic (depends g) then (\<exists>order. topoSort g = Some order \<and> topo_order g order)
         else topoSort g = None"
proof -
  have wf: "graph_wf g" using assms by (rule ValidatePipelineGraph_wf)
  show ?thesis using topoSort_None_iff [OF wf] topoSort_topo_order [OF wf] by auto
qed

theorem topoSort_correct_witness:
  "ValidatePipelineGraph sample_checks (Some sample_graph) = Inr () \<and>
   acyclic (depends sample_graph) \<and> topo_order sample_graph [''in'', ''ctx'', ''guard'', ''llm'', ''out'']"
proof -
  have *: "if acyclic (depends sample_graph)
      then (\<exists>order. topoSort sample_graph = Some order \<and> topo_order sample_graph order)
      else topoSort sample_graph = None"
    by (rule topoSort_correct [OF sample_graph_valid])
  then have "acyclic (depends sample_graph)" using sample_graph_order by (cases "acyclic (depends sample_graph)") auto
  with * show ?thesis using sample_graph_order sample_graph_valid by auto
qed

section \<open>Terminal nodes come last\<close>

definition terminal_node :: "pipeline_graph \<Rightarrow> string \<Rightarrow> bool" where
  "terminal_node g x \<longleftrightarrow> (\<exists>n \<in> set (g_nodes g). node_id n = x \<and> isTerminalNodeType (node_type n))"

lemma terminal_map_eq:
  "distinct (map node_id ns) \<Longrightarrow>
   terminal_map ns x \<longleftrightarrow> (\<exists>n \<in> set ns. node_id n = x \<and> isTerminalNodeType (node_type n))"
  by (induction ns) auto

lemma terminal_map_node: "graph_wf g \<Longrightarrow> terminal_map (g_nodes g) = terminal_node g"
  by (rule ext) (simp add: terminal_node_def terminal_map_eq graph_wf_def NodeIDs_def)

text \<open>The nodes a model call cannot hold back: not terminal, and fed by no terminal node.\<close>

definition independent :: "pipeline_graph \<Rightarrow> string \<Rightarrow> bool" where
  "independent g x \<longleftrightarrow> \<not> terminal_node g x \<and> \<not> (\<exists>t. terminal_node g t \<and> (t, x) \<in> (depends g)\<^sup>+)"

lemma pick_ready_terminal:
  "q \<noteq> [] \<Longrightarrow> terminal (q ! pick_ready terminal q) \<Longrightarrow> \<forall>x \<in> set q. terminal x"
  by (cases "first_nonterminal terminal q")
     (auto simp: pick_ready_def first_nonterminal_None dest: first_nonterminal_Some)

definition guards_first :: "pipeline_graph \<Rightarrow> string list \<Rightarrow> bool" where
  "guards_first g order \<longleftrightarrow>
     (\<forall>i < length order. terminal_node g (order ! i) \<longrightarrow>
        (\<forall>x \<in> set (NodeIDs g). independent g x \<longrightarrow> x \<in> set (take i order)))"

lemma independents_done:
  assumes wf: "graph_wf g" and ac: "acyclic (depends g)"
    and inv: "kahn_inv (g_edges g) (set (NodeIDs g)) d q order"
    and all: "\<forall>x \<in> set q. terminal_node g x"
    and x: "x \<in> set (NodeIDs g)" "independent g x"
  shows "x \<in> set order"
proof (rule ccontr)
  assume nx: "x \<notin> set order"
  define X where "X = {x \<in> set (NodeIDs g). x \<notin> set order \<and> independent g x}"
  have "wf (depends g)" using ac finite_depends finite_acyclic_wf by blast
  moreover have "x \<in> X" using x nx by (simp add: X_def)
  ultimately obtain z where z: "z \<in> X" and min: "\<And>y. (y, z) \<in> depends g \<Longrightarrow> y \<notin> X" by (metis wfE_min)
  have "z \<notin> set (order @ q)" using z all by (auto simp: X_def independent_def)
  then obtain y where y: "y \<in> set (NodeIDs g)" "y \<notin> set order" "(y, z) \<in> depends g"
    using left_node_waits [OF wf inv] z by (auto simp: X_def)
  have "independent g y"
    using z y(3) unfolding X_def independent_def by (blast intro: r_into_trancl trancl_into_trancl)
  with y min [of y] show False by (simp add: X_def)
qed

text \<open>
  Among the nodes ready to run, the sort takes terminal (model) nodes last: in the order of an
  accepted graph, every node that is not itself terminal and does not depend on the output of a
  terminal node comes before every terminal node.  A guard, a block or a trace node that does not
  read the model's answer therefore always runs before the forward pass stops at a model.
\<close>

theorem topoSort_guards_first:
  assumes "ValidatePipelineGraph jc (Some g) = Inr ()" and "topoSort g = Some order"
  shows "guards_first g order"
proof -
  have wf: "graph_wf g" using assms(1) by (rule ValidatePipelineGraph_wf)
  have ac: "acyclic (depends g)" using topoSort_None_iff [OF wf] assms(2) by auto
  let ?P = "\<lambda>d q order. kahn_inv (g_edges g) (set (NodeIDs g)) d q order \<and> guards_first g order"
  have "\<exists>d. ?P d [] (kahn_order g)"
  proof (rule kahn_rule, goal_cases)
    case 1
    then show ?case using initial_inv [OF wf] by (simp add: guards_first_def)
  next
    case (2 d q order d' q')
    let ?p = "pick_ready (terminal_map (g_nodes g)) q"
    have "kahn_inv (g_edges g) (set (NodeIDs g)) d' q' (order @ [q ! ?p])"
      using 2 by (intro kahn_inv_step [OF _ graph_wf_targets [OF wf] pick_ready_less refl]) auto
    moreover have "x \<in> set order" if "terminal_node g (q ! ?p)" "x \<in> set (NodeIDs g)" "independent g x" for x
    proof (rule independents_done [OF wf ac _ _ that(2,3)])
      show "kahn_inv (g_edges g) (set (NodeIDs g)) d q order" using 2 by blast
      show "\<forall>x \<in> set q. terminal_node g x"
        using pick_ready_terminal [of q "terminal_map (g_nodes g)"] 2(2) that(1)
        by (simp add: terminal_map_node [OF wf])
    qed
    then have "guards_first g (order @ [q ! ?p])"
      using 2 by (auto simp: guards_first_def less_Suc_eq nth_append)
    ultimately show ?case by blast
  qed
  moreover have "order = kahn_order g" using assms(2) by (simp add: topoSort_eq split: if_splits)
  ultimately show ?thesis by blast
qed

theorem topoSort_guards_first_witness:
  "ValidatePipelineGraph sample_checks (Some sample_graph) = Inr () \<and>
   topoSort sample_graph = Some [''in'', ''ctx'', ''guard'', ''llm'', ''out''] \<and>
   guards_first sample_graph [''in'', ''ctx'', ''guard'', ''llm'', ''out'']"
  using topoSort_guards_first [OF sample_graph_valid sample_graph_order] sample_graph_valid sample_graph_order
  by blast

end
