(* ===== verification/Float64.thy ===== *)
theory Float64
  imports Complex_Main "HOL-Library.Log_Nat"
begin

text \<open>
  Go's \<open>float64\<close>: IEEE 754 binary64 with round to nearest, ties to even.  A finite value is a rational
  number; \<open>rnd\<close> is the rounding of an exact result to the nearest representable one, with a
  53 bit significand, the subnormal range below \<open>2 ^ -1022\<close> and overflow at \<open>2 ^ 1024\<close>.  The sign of
  zero is not kept: the code modelled here never divides by zero, the only place where it shows.

  The laws that the clients use (monotone, exact on small integers and on values already rounded)
  form the locale \<open>rounding\<close>, interpreted on \<open>rnd\<close>.
\<close>

section \<open>Rounding\<close>

definition binexp :: "rat \<Rightarrow> int" where
  "binexp x =
     (let (p, q) = quotient_of x; k = bitlen p - bitlen q
      in if x < 2 powi k then k - 1 else k)"

definition round_even :: "rat \<Rightarrow> int" where
  "round_even x =
     (let f = \<lfloor>x\<rfloor>; r = x - of_int f
      in if r < 1 / 2 then f else if r > 1 / 2 then f + 1 else if even f then f else f + 1)"

definition ulp_exp :: "rat \<Rightarrow> int" where
  "ulp_exp x = max (binexp \<bar>x\<bar>) (-1022) - 52"

definition rnd :: "rat \<Rightarrow> rat" where
  "rnd x = (if x = 0 then 0 else of_int (round_even (x / 2 powi ulp_exp x)) * 2 powi ulp_exp x)"

lemma binexp_bounds:
  assumes "0 < x"
  shows "2 powi binexp x \<le> x \<and> x < 2 powi (binexp x + 1)"
proof -
  obtain p q where pq: "quotient_of x = (p, q)" by (cases "quotient_of x")
  have q: "0 < q" using quotient_of_denom_pos [OF pq] .
  have x: "x = of_int p / of_int q" using quotient_of_div [OF pq] .
  have p: "0 < p" using assms q by (simp add: x zero_less_divide_iff)
  have bp: "1 \<le> bitlen p" and bq: "1 \<le> bitlen q"
    using bitlen_eq_zero_iff [of p] bitlen_eq_zero_iff [of q] bitlen_nonneg [of p] bitlen_nonneg [of q] p q
    by linarith+
  have lo: "2 powi (bitlen n - 1) \<le> (of_int n :: rat)" and hi: "(of_int n :: rat) < 2 powi bitlen n"
    if "0 < n" "1 \<le> bitlen n" for n
  proof -
    have "(of_int (2 ^ nat (bitlen n - 1)) :: rat) \<le> of_int n" "(of_int n :: rat) < of_int (2 ^ nat (bitlen n))"
      using bitlen_bounds [OF that(1)] by (simp_all only: of_int_le_iff of_int_less_iff)
    then show "2 powi (bitlen n - 1) \<le> (of_int n :: rat)" "(of_int n :: rat) < 2 powi bitlen n"
      using that(2) by (simp_all add: power_int_def)
  qed
  define k where "k = bitlen p - bitlen q"
  have "2 powi (k - 1) * (of_int q :: rat) < 2 powi (k - 1) * 2 powi bitlen q"
    using hi [OF q bq] by simp
  also have "\<dots> = 2 powi (bitlen p - 1)" by (simp add: k_def power_int_add [symmetric])
  also have "\<dots> \<le> of_int p" using lo [OF p bp] .
  finally have low: "2 powi (k - 1) \<le> x" using q by (simp add: x field_simps)
  have "(of_int p :: rat) < 2 powi bitlen p" using hi [OF p bp] .
  also have "\<dots> = 2 powi (k + 1) * 2 powi (bitlen q - 1)" by (simp add: k_def power_int_add [symmetric])
  also have "\<dots> \<le> 2 powi (k + 1) * of_int q" using lo [OF q bq] by simp
  finally have high: "x < 2 powi (k + 1)" using q by (simp add: x field_simps)
  show ?thesis using low high by (auto simp: binexp_def pq Let_def k_def [symmetric])
qed

lemma round_even_bounds: "of_int (round_even x) - 1 / 2 \<le> x \<and> x \<le> of_int (round_even x) + 1 / 2"
  by (auto simp: round_even_def Let_def field_simps) linarith+

lemma round_even_of_int [simp]: "round_even (of_int n) = n"
  by (simp add: round_even_def)

lemma round_even_floor: "round_even x = \<lfloor>x\<rfloor> \<or> round_even x = \<lfloor>x\<rfloor> + 1"
  by (auto simp: round_even_def Let_def)

lemma round_even_mono: "x \<le> y \<Longrightarrow> round_even x \<le> round_even y"
proof (cases "\<lfloor>x\<rfloor> = \<lfloor>y\<rfloor>")
  case True
  assume "x \<le> y"
  with True show ?thesis by (auto simp: round_even_def Let_def)
next
  case False
  assume "x \<le> y"
  with False have "\<lfloor>x\<rfloor> + 1 \<le> \<lfloor>y\<rfloor>" using floor_mono [of x y] by linarith
  with round_even_floor [of x] round_even_floor [of y] show ?thesis by linarith
qed

lemma round_even_minus: "round_even (- x) = - round_even x"
proof (cases "x = of_int \<lfloor>x\<rfloor>")
  case True
  then show ?thesis by (metis of_int_minus round_even_of_int)
next
  case False
  then have neg: "\<lfloor>- x\<rfloor> = - \<lfloor>x\<rfloor> - 1" by linarith
  have r: "- x - of_int (- \<lfloor>x\<rfloor> - 1) = 1 - (x - of_int \<lfloor>x\<rfloor>)" by simp
  show ?thesis unfolding round_even_def Let_def neg r by (auto simp: algebra_simps)
qed

lemma binexp_mono:
  assumes "0 < x" "x \<le> y"
  shows "binexp x \<le> binexp y"
proof -
  have "(2 :: rat) powi binexp x < 2 powi (binexp y + 1)"
    using binexp_bounds [of x] binexp_bounds [of y] assms by linarith
  moreover have "(2 :: rat) powi (binexp y + 1) \<le> 2 powi binexp x" if "binexp y + 1 \<le> binexp x"
    using that by (intro power_int_increasing) simp_all
  ultimately show ?thesis by force
qed

lemma rnd_zero [simp]: "rnd 0 = 0"
  by (simp add: rnd_def)

lemma rnd_minus: "rnd (- x) = - rnd x"
  by (simp add: rnd_def ulp_exp_def round_even_minus)

lemma powi_split: "(2 :: rat) powi (a + int n) = 2 ^ n * 2 powi a"
  by (simp add: power_int_add)

lemma le_powi_ulp:
  assumes "0 < x"
  shows "x / 2 powi ulp_exp x \<le> 2 ^ 53"
proof -
  have "x < 2 powi (binexp x + 1)" using binexp_bounds [OF assms] by simp
  also have "\<dots> \<le> 2 powi (ulp_exp x + int 53)"
    using assms by (intro power_int_increasing) (auto simp: ulp_exp_def)
  finally show ?thesis by (simp only: powi_split) (simp add: field_simps)
qed

lemma rnd_upper:
  assumes "0 < x"
  shows "rnd x \<le> 2 powi (ulp_exp x + 53)"
proof -
  have "round_even (x / 2 powi ulp_exp x) \<le> round_even (of_int (2 ^ 53))"
    using le_powi_ulp [OF assms] by (intro round_even_mono) simp
  then have "round_even (x / 2 powi ulp_exp x) \<le> 2 ^ 53" by (simp only: round_even_of_int)
  then have "(of_int (round_even (x / 2 powi ulp_exp x)) :: rat) \<le> of_int (2 ^ 53)"
    by (simp only: of_int_le_iff)
  then have "of_int (round_even (x / 2 powi ulp_exp x)) * 2 powi ulp_exp x \<le> 2 ^ 53 * (2 :: rat) powi ulp_exp x"
    by (intro mult_right_mono) simp_all
  then show ?thesis using assms powi_split [of "ulp_exp x" 53] by (simp add: rnd_def)
qed

lemma rnd_lower:
  assumes "0 < x" and "-1022 \<le> binexp x"
  shows "2 powi (ulp_exp x + 52) \<le> rnd x"
proof -
  have e: "ulp_exp x + 52 = binexp x" using assms by (simp add: ulp_exp_def)
  have "(2 :: rat) powi (ulp_exp x + int 52) \<le> x" using binexp_bounds [OF assms(1)] e by simp
  then have "(2 :: rat) ^ 52 \<le> x / 2 powi ulp_exp x"
    by (simp only: powi_split) (simp add: field_simps)
  then have "round_even (of_int (2 ^ 52)) \<le> round_even (x / 2 powi ulp_exp x)"
    by (intro round_even_mono) simp
  then have "(2 ^ 52 :: int) \<le> round_even (x / 2 powi ulp_exp x)" by (simp only: round_even_of_int)
  then have "(of_int (2 ^ 52) :: rat) \<le> of_int (round_even (x / 2 powi ulp_exp x))"
    by (simp only: of_int_le_iff)
  then have "2 ^ 52 * (2 :: rat) powi ulp_exp x \<le> of_int (round_even (x / 2 powi ulp_exp x)) * 2 powi ulp_exp x"
    by (intro mult_right_mono) simp_all
  then show ?thesis using assms(1) powi_split [of "ulp_exp x" 52] by (simp add: rnd_def)
qed

lemma rnd_nonneg: "0 \<le> x \<Longrightarrow> 0 \<le> rnd x"
proof (cases "x = 0")
  case False
  assume "0 \<le> x"
  then have "round_even (of_int 0) \<le> round_even (x / 2 powi ulp_exp x)"
    by (intro round_even_mono) simp
  then have "0 \<le> round_even (x / 2 powi ulp_exp x)" by (simp only: round_even_of_int)
  with False show ?thesis by (simp add: rnd_def)
qed simp

lemma rnd_mono_pos:
  assumes "0 < x" "x \<le> y"
  shows "rnd x \<le> rnd y"
proof (cases "ulp_exp x = ulp_exp y")
  case True
  have "round_even (x / 2 powi ulp_exp x) \<le> round_even (y / 2 powi ulp_exp x)"
    using assms by (intro round_even_mono divide_right_mono) simp_all
  with True assms show ?thesis by (simp add: rnd_def)
next
  case False
  have y: "0 < y" using assms by simp
  have "ulp_exp x \<le> ulp_exp y" using binexp_mono [OF assms] assms by (simp add: ulp_exp_def)
  with False have lt: "ulp_exp x < ulp_exp y" by simp
  then have by1: "-1022 \<le> binexp y" using y by (auto simp: ulp_exp_def)
  have "rnd x \<le> 2 powi (ulp_exp x + 53)" using rnd_upper [OF assms(1)] .
  also have "\<dots> \<le> 2 powi (ulp_exp y + 52)" using lt by (intro power_int_increasing) simp_all
  also have "\<dots> \<le> rnd y" using rnd_lower [OF y by1] .
  finally show ?thesis .
qed

lemma rnd_mono: "x \<le> y \<Longrightarrow> rnd x \<le> rnd y"
proof -
  assume xy: "x \<le> y"
  consider "0 < x" | "x \<le> 0" "0 \<le> y" | "y < 0" by linarith
  then show ?thesis
  proof cases
    case 1
    then show ?thesis using xy by (rule rnd_mono_pos)
  next
    case 2
    have "0 \<le> rnd (- x)" "0 \<le> rnd y" using 2 by (auto intro: rnd_nonneg)
    then show ?thesis by (simp add: rnd_minus)
  next
    case 3
    then have "rnd (- y) \<le> rnd (- x)" using xy by (intro rnd_mono_pos) simp_all
    then show ?thesis by (simp add: rnd_minus)
  qed
qed

subsection \<open>Representable values\<close>

lemma powi_le_imp_le: "(2 :: rat) powi a < 2 powi b \<Longrightarrow> a < b"
proof (rule ccontr)
  assume "(2 :: rat) powi a < 2 powi b" "\<not> a < b"
  then have "(2 :: rat) powi b \<le> 2 powi a" by (intro power_int_increasing) simp_all
  with \<open>(2 :: rat) powi a < 2 powi b\<close> show False by simp
qed

lemma rnd_exact_small:
  assumes "0 < m" "m < 2 ^ 53" "-1074 \<le> e"
  shows "rnd (of_int m * 2 powi e) = of_int m * 2 powi e"
proof -
  define x :: rat where "x = of_int m * 2 powi e"
  have x: "0 < x" using assms(1) by (simp add: x_def)
  have "(of_int m :: rat) < of_int (2 ^ 53)" using assms(2) by (simp only: of_int_less_iff)
  then have "(of_int m :: rat) * 2 powi e < 2 ^ 53 * 2 powi e" by simp
  then have "x < 2 powi (e + int 53)" by (simp only: powi_split x_def)
  moreover have "2 powi binexp x \<le> x" using binexp_bounds [OF x] by simp
  ultimately have "(2 :: rat) powi binexp x < 2 powi (e + int 53)" by linarith
  then have "binexp x < e + 53" by (auto dest: powi_le_imp_le)
  then have le: "ulp_exp x \<le> e" using assms(3) x by (simp add: ulp_exp_def)
  have "x / 2 powi ulp_exp x = of_int m * 2 powi (e - ulp_exp x)"
    by (simp add: x_def power_int_diff)
  also have "\<dots> = of_int (m * 2 ^ nat (e - ulp_exp x))" using le by (simp add: power_int_def)
  finally have "x / 2 powi ulp_exp x = of_int (m * 2 ^ nat (e - ulp_exp x))" .
  then have "of_int (round_even (x / 2 powi ulp_exp x)) * 2 powi ulp_exp x = x"
    by (metis nonzero_eq_divide_eq power_int_eq_0_iff round_even_of_int zero_neq_numeral)
  then show ?thesis using x by (simp add: rnd_def x_def)
qed

lemma rnd_exact:
  assumes "\<bar>m\<bar> \<le> 2 ^ 53" "-1074 \<le> e"
  shows "rnd (of_int m * 2 powi e) = of_int m * 2 powi e"
proof -
  have pos: "rnd (of_int n * 2 powi e) = of_int n * 2 powi e" if "0 < n" "n \<le> 2 ^ 53" for n
  proof (cases "n = 2 ^ 53")
    case True
    have eq: "(of_int n :: rat) * 2 powi e = of_int (2 ^ 52) * 2 powi (e + 1)"
      by (simp add: True power_int_add)
    show ?thesis unfolding eq using assms(2) by (intro rnd_exact_small) simp_all
  next
    case False
    then show ?thesis using that assms(2) by (intro rnd_exact_small) simp_all
  qed
  consider "0 < m" | "m = 0" | "m < 0" by linarith
  then show ?thesis
  proof cases
    case 1
    then show ?thesis using pos assms(1) by simp
  next
    case 2
    then show ?thesis by simp
  next
    case 3
    then have "rnd (of_int (- m) * 2 powi e) = of_int (- m) * 2 powi e" using assms(1) by (intro pos) simp_all
    then show ?thesis by (simp add: rnd_minus)
  qed
qed

lemma rnd_of_int: "\<bar>n\<bar> \<le> 2 ^ 53 \<Longrightarrow> rnd (of_int n) = of_int n"
  using rnd_exact [of n 0] by simp

lemma rnd_idem: "rnd (rnd x) = rnd x"
proof -
  have pos: "rnd (rnd y) = rnd y" if y: "0 < y" for y
  proof -
    let ?m = "round_even (y / 2 powi ulp_exp y)"
    have "0 \<le> ?m" using round_even_mono [of "of_int 0" "y / 2 powi ulp_exp y"] y
      by (simp only: round_even_of_int) simp
    moreover have "?m \<le> round_even (of_int (2 ^ 53))"
      using le_powi_ulp [OF y] by (intro round_even_mono) simp
    ultimately have "\<bar>?m\<bar> \<le> 2 ^ 53" by (simp only: round_even_of_int)
    moreover have "-1074 \<le> ulp_exp y" by (simp add: ulp_exp_def)
    ultimately have "rnd (of_int ?m * 2 powi ulp_exp y) = of_int ?m * 2 powi ulp_exp y" by (rule rnd_exact)
    then show ?thesis using y by (simp add: rnd_def [of y])
  qed
  consider "0 < x" | "x = 0" | "0 < - x" by linarith
  then show ?thesis
  proof cases
    case 3
    from pos [OF this] show ?thesis by (simp add: rnd_minus)
  qed (use pos in simp_all)
qed

subsection \<open>Rounding errors\<close>

lemma rnd_half_ulp: "\<bar>rnd x - x\<bar> \<le> 2 powi ulp_exp x / 2"
proof (cases "x = 0")
  case False
  let ?u = "(2 :: rat) powi ulp_exp x"
  have "\<bar>of_int (round_even (x / ?u)) - x / ?u\<bar> \<le> 1 / 2"
    using round_even_bounds [of "x / ?u"] by linarith
  then have "\<bar>of_int (round_even (x / ?u)) - x / ?u\<bar> * \<bar>?u\<bar> \<le> 1 / 2 * \<bar>?u\<bar>" by (intro mult_right_mono) simp_all
  moreover have "rnd x - x = (of_int (round_even (x / ?u)) - x / ?u) * ?u"
    using False by (simp add: rnd_def left_diff_distrib)
  ultimately show ?thesis by (simp only: abs_mult) simp
qed simp

lemma rnd_err:
  assumes "\<bar>x\<bar> \<le> 2 powi k" "-1022 \<le> k"
  shows "\<bar>rnd x - x\<bar> \<le> 2 powi (k - 53)"
proof (cases "x = 0")
  case False
  have "(2 :: rat) powi binexp \<bar>x\<bar> \<le> \<bar>x\<bar>" using binexp_bounds [of "\<bar>x\<bar>"] False by simp
  also note assms(1)
  also have "(2 :: rat) powi k < 2 powi (k + 1)" by (simp add: power_int_add)
  finally have "(2 :: rat) powi binexp \<bar>x\<bar> < 2 powi (k + 1)" .
  then have "binexp \<bar>x\<bar> < k + 1" by (rule powi_le_imp_le)
  then have "(2 :: rat) powi ulp_exp x \<le> 2 powi ((k - 53) + 1)"
    using assms(2) by (intro power_int_increasing) (simp_all add: ulp_exp_def)
  also have "\<dots> = 2 * (2 :: rat) powi (k - 53)" using powi_split [of "k - 53" 1] by simp
  finally have "(2 :: rat) powi ulp_exp x / 2 \<le> 2 powi (k - 53)" by simp
  then show ?thesis using rnd_half_ulp [of x] by linarith
qed simp

lemma rnd_err_half:
  assumes "\<bar>x\<bar> \<le> 2 ^ 53"
  shows "\<bar>rnd x - x\<bar> \<le> 1 / 2"
proof (cases "\<bar>x\<bar> = 2 ^ 53 \<or> x = 0")
  case True
  then have "x = of_int (2 ^ 53) \<or> x = of_int (- (2 ^ 53)) \<or> x = of_int 0" by (auto simp: abs_if split: if_splits)
  then obtain n where "x = of_int n" "\<bar>n\<bar> \<le> 2 ^ 53" by (elim disjE) (auto intro: that [of "2 ^ 53"] that [of "- (2 ^ 53)"] that [of 0])
  then have "rnd x = x" by (simp only: rnd_of_int)
  then show ?thesis by simp
next
  case False
  have "(2 :: rat) powi binexp \<bar>x\<bar> \<le> \<bar>x\<bar>" using binexp_bounds [of "\<bar>x\<bar>"] False by simp
  also have "\<dots> < 2 powi 53" using assms False by (simp add: power_int_def)
  finally have "binexp \<bar>x\<bar> < 53" by (rule powi_le_imp_le)
  then have "(2 :: rat) powi ulp_exp x \<le> 2 powi 0" by (intro power_int_increasing) (simp_all add: ulp_exp_def)
  then show ?thesis using rnd_half_ulp [of x] by simp
qed

lemma rnd_le_half: "\<bar>x\<bar> \<le> 2 ^ 53 \<Longrightarrow> rnd x \<le> x + 1 / 2"
  using rnd_err_half [of x] by linarith

section \<open>The rounding laws\<close>

text \<open>What the clients of floating point arithmetic rely on.\<close>

locale rounding =
  fixes r :: "rat \<Rightarrow> rat"
  assumes mono: "x \<le> y \<Longrightarrow> r x \<le> r y"
    and exact_int: "\<bar>n\<bar> \<le> 2 ^ 53 \<Longrightarrow> r (of_int n) = of_int n"
    and idem: "r (r x) = r x"
begin

lemma exact_0 [simp]: "r 0 = 0" and exact_1 [simp]: "r 1 = 1"
  using exact_int [of 0] exact_int [of 1] by simp_all

lemma nonneg: "0 \<le> x \<Longrightarrow> 0 \<le> r x"
  using mono [of 0 x] by simp

lemma nonpos: "x \<le> 0 \<Longrightarrow> r x \<le> 0"
  using mono [of x 0] by simp

lemma le_one: "x \<le> 1 \<Longrightarrow> r x \<le> 1"
  using mono [of x 1] by simp

lemma ge_one: "1 \<le> x \<Longrightarrow> 1 \<le> r x"
  using mono [of 1 x] by simp

text \<open>A value already rounded bounds every rounded value below it.\<close>

lemma le_rounded: "x \<le> y \<Longrightarrow> r y = y \<Longrightarrow> r x \<le> y"
  using mono [of x y] by simp

lemma ge_rounded: "y \<le> x \<Longrightarrow> r y = y \<Longrightarrow> y \<le> r x"
  using mono [of y x] by simp

end

interpretation f64: rounding rnd
  by unfold_locales (auto intro: rnd_mono rnd_of_int rnd_idem)

section \<open>Values and operations\<close>

datatype float64 = Fin rat | PInf | NInf | NaN

text \<open>An exact finite result becomes the nearest value, or an infinity past the largest finite one.\<close>

definition f64_overflow :: rat where
  "f64_overflow = 2 ^ 1024"

definition f64_of_rat :: "rat \<Rightarrow> float64" where
  "f64_of_rat x =
     (let v = rnd x
      in if f64_overflow \<le> v then PInf else if v \<le> - f64_overflow then NInf else Fin v)"

definition f64_of_int :: "int \<Rightarrow> float64" where
  "f64_of_int n = f64_of_rat (of_int n)"

fun f64_add :: "float64 \<Rightarrow> float64 \<Rightarrow> float64" where
  "f64_add NaN y = NaN" | "f64_add x NaN = NaN"
| "f64_add PInf NInf = NaN" | "f64_add NInf PInf = NaN"
| "f64_add PInf y = PInf" | "f64_add x PInf = PInf"
| "f64_add NInf y = NInf" | "f64_add x NInf = NInf"
| "f64_add (Fin a) (Fin b) = f64_of_rat (a + b)"

fun f64_neg :: "float64 \<Rightarrow> float64" where
  "f64_neg NaN = NaN" | "f64_neg PInf = NInf" | "f64_neg NInf = PInf" | "f64_neg (Fin a) = Fin (- a)"

definition f64_signed_inf :: "rat \<Rightarrow> float64" where
  "f64_signed_inf s = (if 0 < s then PInf else if s < 0 then NInf else NaN)"

fun f64_mul :: "float64 \<Rightarrow> float64 \<Rightarrow> float64" where
  "f64_mul NaN y = NaN" | "f64_mul x NaN = NaN"
| "f64_mul PInf PInf = PInf" | "f64_mul PInf NInf = NInf"
| "f64_mul NInf PInf = NInf" | "f64_mul NInf NInf = PInf"
| "f64_mul PInf (Fin b) = f64_signed_inf b" | "f64_mul (Fin a) PInf = f64_signed_inf a"
| "f64_mul NInf (Fin b) = f64_signed_inf (- b)" | "f64_mul (Fin a) NInf = f64_signed_inf (- a)"
| "f64_mul (Fin a) (Fin b) = f64_of_rat (a * b)"

text \<open>Division by a zero of unknown sign takes the positive zero.\<close>

fun f64_div :: "float64 \<Rightarrow> float64 \<Rightarrow> float64" where
  "f64_div NaN y = NaN" | "f64_div x NaN = NaN"
| "f64_div (Fin a) (Fin b) = (if b = 0 then f64_signed_inf a else f64_of_rat (a / b))"
| "f64_div (Fin a) PInf = Fin 0" | "f64_div (Fin a) NInf = Fin 0"
| "f64_div PInf (Fin b) = (if b < 0 then NInf else PInf)"
| "f64_div NInf (Fin b) = (if b < 0 then PInf else NInf)"
| "f64_div x y = NaN"

fun f64_lt :: "float64 \<Rightarrow> float64 \<Rightarrow> bool" where
  "f64_lt NaN y = False" | "f64_lt x NaN = False"
| "f64_lt (Fin a) (Fin b) = (a < b)"
| "f64_lt NInf NInf = False" | "f64_lt NInf y = True"
| "f64_lt x NInf = False" | "f64_lt PInf y = False" | "f64_lt x PInf = True"

fun f64_eq :: "float64 \<Rightarrow> float64 \<Rightarrow> bool" where
  "f64_eq NaN y = False"
| "f64_eq x y = (x = y)"

definition f64_le :: "float64 \<Rightarrow> float64 \<Rightarrow> bool" where
  "f64_le x y = (f64_lt x y \<or> f64_eq x y)"

text \<open>\<open>math.Min\<close> and \<open>math.Max\<close>: an infinity of the winning sign wins over a NaN.\<close>

fun f64_min :: "float64 \<Rightarrow> float64 \<Rightarrow> float64" where
  "f64_min NInf y = NInf" | "f64_min x NInf = NInf"
| "f64_min NaN y = NaN" | "f64_min x NaN = NaN"
| "f64_min PInf y = y" | "f64_min x PInf = x"
| "f64_min (Fin a) (Fin b) = Fin (min a b)"

fun f64_max :: "float64 \<Rightarrow> float64 \<Rightarrow> float64" where
  "f64_max PInf y = PInf" | "f64_max x PInf = PInf"
| "f64_max NaN y = NaN" | "f64_max x NaN = NaN"
| "f64_max NInf y = y" | "f64_max x NInf = x"
| "f64_max (Fin a) (Fin b) = Fin (max a b)"

lemma f64_lt_not_le: "f64_lt x y \<Longrightarrow> \<not> f64_le y x"
  by (cases x; cases y) (auto simp: f64_le_def)

lemma f64_of_int_small: "\<bar>n\<bar> \<le> 2 ^ 53 \<Longrightarrow> f64_of_int n = Fin (of_int n)"
proof -
  assume n: "\<bar>n\<bar> \<le> 2 ^ 53"
  then have "(of_int \<bar>n\<bar> :: rat) \<le> of_int (2 ^ 53)" by (simp only: of_int_le_iff)
  also have "\<dots> < f64_overflow" by (simp add: f64_overflow_def)
  finally have "\<bar>of_int n :: rat\<bar> < f64_overflow" by simp
  then show ?thesis using rnd_of_int [OF n] by (simp add: f64_of_int_def f64_of_rat_def Let_def abs_less_iff)
qed

end
