(* ===== verification/Pipeline_Engine.thy ===== *)
theory Pipeline_Engine
  imports Topo_Sort Float64
begin

text \<open>
  The pipeline engine: values on ports (\<open>src/internal/pipeline/value_context.go\<close>), the registry of
  executors (\<open>registry.go\<close>), the data exchanged with a node (\<open>executor.go\<close>) and the forward and backward
  passes (\<open>engine.go\<close>).

  The plugin context of a node (a protobuf message) is an opaque string.  An executor is a record of functions, as the Go interface \<open>NodeExecutor\<close> is: \<open>ex_forward\<close>,
  \<open>ex_backward\<close> and, when it implements \<open>ResponseModifier\<close>, \<open>ex_modifies\<close>.  The type \<open>'c\<close> is the LLM
  client of the genai library, \<open>'t\<close> its tools and \<open>'e\<close> the errors of executors.  The context of a
  request carries a deadline only for the backward pass: there \<open>expired i\<close> says whether the context has
  ended when the pass reaches the node of index \<open>i\<close>.
\<close>

section \<open>Values\<close>

text \<open>
  The dynamic values on ports: the types \<open>numberInput\<close> tells apart, strings, and any other type by its
  name.  A \<open>float32\<close> is the float64 it converts to.
\<close>

datatype go_value =
    VString string | VBool bool | VFloat64 float64 | VFloat32 float64
  | VInt int | VInt64 int | VJsonNumber string | VOther string

type_synonym inputs = "string \<rightharpoonup> go_value"

type_synonym value_context = "string \<rightharpoonup> (string \<rightharpoonup> go_value)"

definition newValueContext :: value_context where
  "newValueContext = Map.empty"

definition vc_set :: "value_context \<Rightarrow> string \<Rightarrow> string \<Rightarrow> go_value \<Rightarrow> value_context" where
  "vc_set vc nodeID portName v =
     (let m = (case vc nodeID of None \<Rightarrow> Map.empty | Some m \<Rightarrow> m) in vc(nodeID \<mapsto> m(portName \<mapsto> v)))"

definition vc_get :: "value_context \<Rightarrow> string \<Rightarrow> string \<Rightarrow> go_value option" where
  "vc_get vc nodeID portName = (case vc nodeID of None \<Rightarrow> None | Some m \<Rightarrow> m portName)"

fun resolve_edges :: "value_context \<Rightarrow> string \<Rightarrow> pipeline_edge list \<Rightarrow> inputs \<Rightarrow> inputs" where
  "resolve_edges vc target [] inputs = inputs"
| "resolve_edges vc target (e # es) inputs =
     resolve_edges vc target es
       (if edge_target e \<noteq> target then inputs
        else (case vc_get vc (edge_source e) (edge_sourcePort e) of
                None \<Rightarrow> inputs
              | Some v \<Rightarrow> inputs(edge_targetPort e \<mapsto> v)))"

definition ResolveInputs :: "value_context \<Rightarrow> pipeline_graph \<Rightarrow> string \<Rightarrow> inputs" where
  "ResolveInputs vc graph target = resolve_edges vc target (g_edges graph) Map.empty"

lemma vc_get_set: "vc_get (vc_set vc n p v) n' p' = (if n' = n \<and> p' = p then Some v else vc_get vc n' p')"
  by (auto simp: vc_get_def vc_set_def Let_def split: option.splits)

section \<open>What nodes exchange with the engine\<close>

text \<open>
  The fields of \<open>ExecutionContext\<close> that the engine, the built-in nodes and the model nodes read; a nil map
  of visited or delegated names is the empty set.  Of a middleware the engine reads the name, the
  organization and the graph.  The stores and hooks the context also carries (\<open>Access\<close>,
  \<open>PersonalVMStore\<close>, ...) are arguments of the functions that use them.
\<close>

record middleware =
  mw_name :: string
  mw_orgID :: string
  mw_graph :: "pipeline_graph option"

record exec_context =
  ec_orgID :: string
  ec_orgSlug :: string
  ec_userID :: string
  ec_tokenID :: string
  ec_displayName :: string
  ec_teamID :: string
  ec_teamSlug :: string
  ec_requestedModel :: string
  ec_targetModelName :: string
  ec_delegated :: "string set"
  ec_bodyJSON :: string
  ec_messagesJSON :: string
  ec_bodyMessagesJSON :: string
  ec_secretScope :: string
  ec_visitedVMs :: "string set"
  ec_forcePassthrough :: bool
  ec_pending :: "middleware list"

record executed_node =
  en_pluginContext :: string
  en_node :: pipeline_node
  en_state :: string
  en_noResponseRewrite :: bool

text \<open>
  \<open>OutputValues\<close> is a map from ports to values; \<open>ModelOutcome\<close> is the answer \<open>UsedModel\<close> gives after the
  call, when the node reports one.
\<close>

record ('c, 't) forward_result =
  fr_pluginContext :: string
  fr_outputs :: inputs
  fr_state :: string
  fr_client :: "'c option"
  fr_model :: string
  fr_modelID :: string
  fr_outcome :: "(string \<times> string) option option"
  fr_rejected :: bool
  fr_reason :: string
  fr_tools :: "'t list"
  fr_decorator :: "('c \<Rightarrow> 'c) option"
  fr_noResponseRewrite :: bool
  fr_nested :: "executed_node list"

definition plain_result :: "inputs \<Rightarrow> ('c, 't) forward_result" where
  "plain_result outs =
     \<lparr>fr_pluginContext = [], fr_outputs = outs, fr_state = [], fr_client = None, fr_model = [], fr_modelID = [],
      fr_outcome = None, fr_rejected = False, fr_reason = [], fr_tools = [], fr_decorator = None,
      fr_noResponseRewrite = False, fr_nested = []\<rparr>"

record backward_input =
  bi_pluginContext :: string
  bi_node :: pipeline_node
  bi_state :: string
  bi_model :: string
  bi_content :: string
  bi_toolCalls :: string
  bi_tokens :: "(int \<times> int) option"
  bi_hadError :: bool

record backward_result =
  br_content :: string
  br_toolCalls :: string

definition noopBackward :: "backward_input \<Rightarrow> ('e, backward_result) result" where
  "noopBackward i = Inr \<lparr>br_content = [], br_toolCalls = []\<rparr>"

record ('c, 't, 'e) executor =
  ex_forward :: "pipeline_node \<Rightarrow> inputs \<Rightarrow> exec_context \<Rightarrow> ('e, ('c, 't) forward_result) result"
  ex_backward :: "backward_input \<Rightarrow> ('e, backward_result) result"
  ex_modifies :: "(pipeline_node \<Rightarrow> bool) option"

type_synonym ('c, 't, 'e) registry = "node_type \<rightharpoonup> ('c, 't, 'e) executor"

section \<open>The forward pass\<close>

datatype 'e forward_error =
    InvalidGraph structure_error
  | GraphHasCycle
  | NoExecutor node_type string
  | NodeFailed string 'e
  | Rejection string
  | PendingBlock string
  | NoTerminalModel

record ('c, 't) forward_execution =
  fe_client :: 'c
  fe_model :: string
  fe_modelID :: string
  fe_executed :: "executed_node list"
  fe_messages :: string
  fe_tools :: "'t list"
  fe_outcome :: "(string \<times> string) option option"

text \<open>The variables of the loop of \<open>RunForward\<close>.\<close>

record ('c, 't) forward_state =
  fs_vc :: value_context
  fs_executed :: "executed_node list"
  fs_tools :: "'t list"
  fs_decorators :: "('c \<Rightarrow> 'c) list"
  fs_messages :: string

definition seed_generators :: "pipeline_graph \<Rightarrow> string \<Rightarrow> value_context" where
  "seed_generators g body =
     fold (\<lambda>n vc. if node_type n = NodeTypeGenerator then vc_set vc (node_id n) ''request'' (VString body) else vc)
       (g_nodes g) newValueContext"

text \<open>Setting every port of the result, in any order, overrides the node's entry of the context.\<close>

definition store_outputs :: "string \<Rightarrow> inputs \<Rightarrow> value_context \<Rightarrow> value_context" where
  "store_outputs nid outs vc =
     vc(nid \<mapsto> (case vc nid of None \<Rightarrow> Map.empty | Some m \<Rightarrow> m) ++ outs)"

definition new_messages :: "inputs \<Rightarrow> string \<Rightarrow> string" where
  "new_messages outs msgs =
     (case outs ''messages_json'' of
        Some (VString m) \<Rightarrow> if m \<noteq> [] then m else msgs
      | _ \<Rightarrow> msgs)"

definition after_node :: "pipeline_node \<Rightarrow> ('c, 't) forward_result \<Rightarrow> ('c, 't) forward_state
    \<Rightarrow> ('c, 't) forward_state" where
  "after_node node res st =
     \<lparr>fs_vc = store_outputs (node_id node) (fr_outputs res) (fs_vc st),
      fs_executed = fs_executed st @ fr_nested res @
        [\<lparr>en_pluginContext = fr_pluginContext res, en_node = node, en_state = fr_state res,
          en_noResponseRewrite = fr_noResponseRewrite res\<rparr>],
      fs_tools = fs_tools st @ fr_tools res,
      fs_decorators = fs_decorators st @ (case fr_decorator res of None \<Rightarrow> [] | Some f \<Rightarrow> [f]),
      fs_messages = new_messages (fr_outputs res) (fs_messages st)\<rparr>"

fun run_nodes :: "('c, 't, 'e) registry \<Rightarrow> pipeline_graph \<Rightarrow> exec_context \<Rightarrow> ('c, 't) forward_state
    \<Rightarrow> string list \<Rightarrow> ('e forward_error, ('c, 't) forward_execution) result" where
  "run_nodes reg g ec st [] = Inl NoTerminalModel"
| "run_nodes reg g ec st (nid # rest) =
     (case nodeByID g nid of
        None \<Rightarrow> run_nodes reg g ec st rest
      | Some node \<Rightarrow>
          (case reg (node_type node) of
             None \<Rightarrow> Inl (NoExecutor (node_type node) (node_id node))
           | Some ex \<Rightarrow>
               (case ex_forward ex node (ResolveInputs (fs_vc st) g (node_id node))
                       (ec\<lparr>ec_messagesJSON := fs_messages st\<rparr>) of
                  Inl e \<Rightarrow> Inl (NodeFailed (node_id node) e)
                | Inr res \<Rightarrow>
                    if fr_rejected res then Inl (Rejection (fr_reason res))
                    else
                      (let st' = after_node node res st in
                       case fr_client res of
                         None \<Rightarrow> run_nodes reg g ec st' rest
                       | Some client \<Rightarrow>
                           if pendingBlockNode g rest \<noteq> [] then Inl (PendingBlock (pendingBlockNode g rest))
                           else Inr \<lparr>fe_client = fold (\<lambda>f c. f c) (fs_decorators st') client,
                                     fe_model = fr_model res, fe_modelID = fr_modelID res,
                                     fe_executed = fs_executed st', fe_messages = fs_messages st',
                                     fe_tools = fs_tools st', fe_outcome = fr_outcome res\<rparr>))))"

definition forward_start :: "pipeline_graph \<Rightarrow> exec_context \<Rightarrow> ('c, 't) forward_state" where
  "forward_start g ec =
     \<lparr>fs_vc = seed_generators g (ec_bodyJSON ec), fs_executed = [], fs_tools = [],
      fs_decorators = [], fs_messages = ec_messagesJSON ec\<rparr>"

definition RunForward :: "('c, 't, 'e) registry \<Rightarrow> pipeline_graph \<Rightarrow> exec_context
    \<Rightarrow> ('e forward_error, ('c, 't) forward_execution) result" where
  "RunForward reg g ec =
     (case validateGraph g of
        Inl e \<Rightarrow> Inl (InvalidGraph e)
      | Inr _ \<Rightarrow>
          (case topoSort g of
             None \<Rightarrow> Inl GraphHasCycle
           | Some order \<Rightarrow> run_nodes reg g ec (forward_start g ec) order))"

section \<open>The backward pass\<close>

record backward_outcome =
  bo_content :: string
  bo_toolCalls :: string

definition model_for_backward :: "('c, 't) forward_execution \<Rightarrow> string" where
  "model_for_backward fe =
     (case fe_outcome fe of
        Some (Some (realModel, _)) \<Rightarrow> if realModel \<noteq> [] then realModel else fe_model fe
      | _ \<Rightarrow> fe_model fe)"

definition backward_input_of :: "string \<Rightarrow> (int \<times> int) option \<Rightarrow> bool \<Rightarrow> executed_node \<Rightarrow> string \<Rightarrow> string
    \<Rightarrow> backward_input" where
  "backward_input_of m tokens hadError en current currentCalls =
     \<lparr>bi_pluginContext = en_pluginContext en, bi_node = en_node en, bi_state = en_state en,
      bi_model = m, bi_content = current, bi_toolCalls = currentCalls, bi_tokens = tokens,
      bi_hadError = hadError\<rparr>"

text \<open>The loop of \<open>RunBackwardWithToolCalls\<close> over the executed nodes still to visit, last one first.\<close>

fun backward_loop :: "('c, 't, 'e) registry \<Rightarrow> (nat \<Rightarrow> bool) \<Rightarrow> string \<Rightarrow> (int \<times> int) option \<Rightarrow> bool
    \<Rightarrow> executed_node list \<Rightarrow> string \<times> string \<times> string \<Rightarrow> string \<times> string \<times> string" where
  "backward_loop reg expired m tokens hadError [] st = st"
| "backward_loop reg expired m tokens hadError (en # ens) (current, currentCalls, rewrittenCalls) =
     (if expired (length ens) then (current, currentCalls, rewrittenCalls)
      else
        (case reg (node_type (en_node en)) of
           None \<Rightarrow> backward_loop reg expired m tokens hadError ens (current, currentCalls, rewrittenCalls)
         | Some ex \<Rightarrow>
             (case ex_backward ex (backward_input_of m tokens hadError en current currentCalls) of
                Inl e \<Rightarrow> backward_loop reg expired m tokens hadError ens (current, currentCalls, rewrittenCalls)
              | Inr res \<Rightarrow>
                  backward_loop reg expired m tokens hadError ens
                    (if br_content res \<noteq> [] then br_content res else current,
                     if br_toolCalls res \<noteq> [] then br_toolCalls res else currentCalls,
                     if br_toolCalls res \<noteq> [] then br_toolCalls res else rewrittenCalls))))"

definition RunBackwardWithToolCalls :: "('c, 't, 'e) registry \<Rightarrow> (nat \<Rightarrow> bool) \<Rightarrow> ('c, 't) forward_execution
    \<Rightarrow> string \<Rightarrow> string \<Rightarrow> (int \<times> int) option \<Rightarrow> bool \<Rightarrow> backward_outcome" where
  "RunBackwardWithToolCalls reg expired fe content toolCalls tokens hadError =
     (case backward_loop reg expired (model_for_backward fe) tokens hadError (rev (fe_executed fe))
             (content, toolCalls, []) of
        (current, _, rewritten) \<Rightarrow> \<lparr>bo_content = current, bo_toolCalls = rewritten\<rparr>)"

definition RunBackward :: "('c, 't, 'e) registry \<Rightarrow> (nat \<Rightarrow> bool) \<Rightarrow> ('c, 't) forward_execution
    \<Rightarrow> string \<Rightarrow> (int \<times> int) option \<Rightarrow> bool \<Rightarrow> string" where
  "RunBackward reg expired fe content tokens hadError =
     bo_content (RunBackwardWithToolCalls reg expired fe content [] tokens hadError)"

text \<open>The execution may be nil.\<close>

definition MayModifyResponse :: "('c, 't, 'e) registry \<Rightarrow> ('c, 't) forward_execution option \<Rightarrow> bool" where
  "MayModifyResponse reg exec =
     (case exec of
        None \<Rightarrow> False
      | Some fe \<Rightarrow>
          list_ex (\<lambda>en. \<not> en_noResponseRewrite en \<and>
              (case reg (node_type (en_node en)) of
                 None \<Rightarrow> False
               | Some ex \<Rightarrow> (case ex_modifies ex of None \<Rightarrow> True | Some f \<Rightarrow> f (en_node en))))
            (fe_executed fe))"

end
