(* ===== verification/Pipeline_Engine_Safety.thy ===== *)
theory Pipeline_Engine_Safety
  imports Pipeline_Engine
begin

text \<open>
  What the two passes of the engine guarantee.  Forward: a request only reaches a model once every
  block node of the graph ran and let it through.  Backward: the pass applies the rewrites of the
  executed nodes from the last to the first, an error or a missing executor keeping the response as it
  stands, and a response that \<open>MayModifyResponse\<close> declared untouched really is.
\<close>

section \<open>Forward: no block node is skipped\<close>

lemma nodeByID_id: "nodeByID g x = Some n \<Longrightarrow> n \<in> set (g_nodes g) \<and> node_id n = x"
  by (auto simp: nodeByID_def dest: find_Some_mem)

lemma nodeByID_unique:
  assumes "distinct (NodeIDs g)" and "n \<in> set (g_nodes g)"
  shows "nodeByID g (node_id n) = Some n"
proof -
  obtain m where m: "nodeByID g (node_id n) = Some m"
    using assms(2) by (cases "nodeByID g (node_id n)") (auto simp: nodeByID_def find_None_all)
  then have "m \<in> set (g_nodes g)" "node_id m = node_id n" using nodeByID_id by blast+
  then show ?thesis using assms m by (auto simp: NodeIDs_def distinct_map inj_on_def)
qed

lemma pendingBlockNode_none:
  "pendingBlockNode g rest = [] \<Longrightarrow> x \<in> set rest \<Longrightarrow> [] \<notin> set rest \<Longrightarrow> nodeByID g x = Some n \<Longrightarrow>
   node_type n \<noteq> NodeTypeBlock"
  by (induction g rest rule: pendingBlockNode.induct) (auto split: option.splits if_splits)

text \<open>
  \<open>visits reg g ec st order node st'\<close>: started in \<open>st\<close> on \<open>order\<close>, the forward pass comes to \<open>node\<close> in the
  state \<open>st'\<close>.
\<close>

inductive visits :: "('c, 't, 'e) registry \<Rightarrow> pipeline_graph \<Rightarrow> exec_context \<Rightarrow> ('c, 't) forward_state
    \<Rightarrow> string list \<Rightarrow> pipeline_node \<Rightarrow> ('c, 't) forward_state \<Rightarrow> bool"
  for reg :: "('c, 't, 'e) registry" and g :: pipeline_graph and ec :: exec_context
where
  visits_now: "nodeByID g nid = Some node \<Longrightarrow> visits reg g ec st (nid # rest) node st"
| visits_unknown: "nodeByID g nid = None \<Longrightarrow> visits reg g ec st rest node st' \<Longrightarrow>
    visits reg g ec st (nid # rest) node st'"
| visits_later: "nodeByID g nid = Some m \<Longrightarrow> reg (node_type m) = Some ex \<Longrightarrow>
    ex_forward ex m (ResolveInputs (fs_vc st) g (node_id m)) (ec\<lparr>ec_messagesJSON := fs_messages st\<rparr>) = Inr res \<Longrightarrow>
    \<not> fr_rejected res \<Longrightarrow> fr_client res = None \<Longrightarrow> visits reg g ec (after_node m res st) rest node st' \<Longrightarrow>
    visits reg g ec st (nid # rest) node st'"

text \<open>
  A node passed: the pass came to it, its executor ran on the inputs the engine resolved for it there,
  did not fail and did not reject, and the node is recorded for the backward pass.
\<close>

definition passed :: "('c, 't, 'e) registry \<Rightarrow> pipeline_graph \<Rightarrow> exec_context \<Rightarrow> ('c, 't) forward_state
    \<Rightarrow> string list \<Rightarrow> ('c, 't) forward_execution \<Rightarrow> pipeline_node \<Rightarrow> bool" where
  "passed reg g ec st order fe node \<longleftrightarrow>
     (\<exists>st' ex res. visits reg g ec st order node st' \<and> reg (node_type node) = Some ex \<and>
        ex_forward ex node (ResolveInputs (fs_vc st') g (node_id node)) (ec\<lparr>ec_messagesJSON := fs_messages st'\<rparr>) = Inr res \<and>
        \<not> fr_rejected res) \<and>
     (\<exists>en \<in> set (fe_executed fe). en_node en = node)"

lemma passed_unknown:
  "nodeByID g nid = None \<Longrightarrow> passed reg g ec st rest fe node \<Longrightarrow> passed reg g ec st (nid # rest) fe node"
  unfolding passed_def by (blast intro: visits_unknown)

lemma passed_later:
  "nodeByID g nid = Some m \<Longrightarrow> reg (node_type m) = Some ex \<Longrightarrow>
   ex_forward ex m (ResolveInputs (fs_vc st) g (node_id m)) (ec\<lparr>ec_messagesJSON := fs_messages st\<rparr>) = Inr res \<Longrightarrow>
   \<not> fr_rejected res \<Longrightarrow> fr_client res = None \<Longrightarrow> passed reg g ec (after_node m res st) rest fe node \<Longrightarrow>
   passed reg g ec st (nid # rest) fe node"
  unfolding passed_def by (blast intro: visits_later)

lemma run_nodes_executed_mono:
  "run_nodes reg g ec st order = Inr fe \<Longrightarrow> set (fs_executed st) \<subseteq> set (fe_executed fe)"
proof (induction reg g ec st order rule: run_nodes.induct)
  case (2 reg g ec st nid rest)
  then show ?case
    by (fastforce simp: Let_def after_node_def split: option.splits sum.splits if_splits)
qed simp

lemma run_nodes_passed:
  "run_nodes reg g ec st order = Inr fe \<Longrightarrow>
   \<exists>before rest. order = before @ rest \<and> pendingBlockNode g rest = [] \<and>
     (\<forall>x \<in> set before. \<forall>n. nodeByID g x = Some n \<longrightarrow> passed reg g ec st order fe n)"
proof (induction reg g ec st order rule: run_nodes.induct)
  case (1 reg g ec st)
  then show ?case by simp
next
  case (2 reg g ec st nid rest)
  show ?case
  proof (cases "nodeByID g nid")
    case None
    with 2 obtain before rest' where "rest = before @ rest'" "pendingBlockNode g rest' = []"
        "\<forall>x \<in> set before. \<forall>n. nodeByID g x = Some n \<longrightarrow> passed reg g ec st rest fe n"
      by auto
    with None show ?thesis by (intro exI [of _ "nid # before"] exI [of _ rest']) (auto intro: passed_unknown)
  next
    case (Some node)
    let ?ins = "ResolveInputs (fs_vc st) g (node_id node)" and ?ec = "ec\<lparr>ec_messagesJSON := fs_messages st\<rparr>"
    obtain ex res where ex: "reg (node_type node) = Some ex" and res: "ex_forward ex node ?ins ?ec = Inr res"
        and ok: "\<not> fr_rejected res"
      using "2.prems" Some by (auto split: option.splits sum.splits if_splits)
    have self: "passed reg g ec st (nid # rest) fe node" if sub: "set (fs_executed (after_node node res st)) \<subseteq> set (fe_executed fe)"
    proof -
      have "\<exists>en \<in> set (fs_executed (after_node node res st)). en_node en = node"
        by (simp add: after_node_def)
      with sub have "\<exists>en \<in> set (fe_executed fe). en_node en = node" by blast
      with ex res ok Some show ?thesis unfolding passed_def by (blast intro: visits_now)
    qed
    show ?thesis
    proof (cases "fr_client res")
      case None
      then have run: "run_nodes reg g ec (after_node node res st) rest = Inr fe"
        using "2.prems" Some ex res ok by (simp add: Let_def)
      then obtain before rest' where split: "rest = before @ rest'" "pendingBlockNode g rest' = []"
          "\<forall>x \<in> set before. \<forall>n. nodeByID g x = Some n \<longrightarrow> passed reg g ec (after_node node res st) rest fe n"
        using "2.IH"(2) [OF Some ex res ok refl None] by blast
      have "passed reg g ec st (nid # rest) fe node" using self run_nodes_executed_mono [OF run] .
      moreover have "passed reg g ec st (nid # rest) fe n"
        if "passed reg g ec (after_node node res st) rest fe n" for n
        using passed_later [where reg = reg, OF Some ex] res ok None that by blast
      ultimately show ?thesis using split Some
        by (intro exI [of _ "nid # before"] exI [of _ rest']) auto
    next
      case (Some c)
      then have "pendingBlockNode g rest = []" "fe_executed fe = fs_executed (after_node node res st)"
        using "2.prems" \<open>nodeByID g nid = Some node\<close> ex res ok by (auto simp: Let_def split: if_splits)
      moreover from this have "passed reg g ec st (nid # rest) fe node" using self by simp
      ultimately show ?thesis using \<open>nodeByID g nid = Some node\<close> by (intro exI [of _ "[nid]"] exI [of _ rest]) auto
    qed
  qed
qed

lemma ValidatePipelineGraph_ids:
  assumes "ValidatePipelineGraph jc (Some g) = Inr ()" and "n \<in> set (g_nodes g)"
  shows "node_id n \<noteq> []"
proof -
  have "validate_nodes jc seen ns = Inr s \<Longrightarrow> n \<in> set ns \<Longrightarrow> validPipelineID (node_id n)" for seen ns s
    by (induction ns arbitrary: seen) (auto simp: result_simps split: if_splits)
  then show ?thesis
    using assms by (auto simp: ValidatePipelineGraph_def validPipelineID_def result_simps split: if_splits)
qed

lemma RunForward_blocks_passed:
  assumes valid: "ValidatePipelineGraph jc (Some g) = Inr ()" and run: "RunForward reg g ec = Inr fe"
    and b: "b \<in> set (g_nodes g)" "node_type b = NodeTypeBlock"
  shows "\<exists>order. topoSort g = Some order \<and> passed reg g ec (forward_start g ec) order fe b"
proof -
  have wf: "graph_wf g" using valid by (rule ValidatePipelineGraph_wf)
  then have unique: "nodeByID g (node_id b) = Some b" using b(1) by (simp add: nodeByID_unique graph_wf_def)
  obtain order where order: "topoSort g = Some order" and r: "run_nodes reg g ec (forward_start g ec) order = Inr fe"
    using run by (auto simp: RunForward_def split: sum.splits option.splits)
  obtain before rest where split: "order = before @ rest" "pendingBlockNode g rest = []"
      and ran: "\<forall>x \<in> set before. \<forall>n. nodeByID g x = Some n \<longrightarrow> passed reg g ec (forward_start g ec) order fe n"
    using run_nodes_passed [OF r] by blast
  have "node_id b \<in> set order"
    using topoSort_topo_order [OF wf order] b(1) by (simp add: topo_order_def NodeIDs_def)
  moreover have "set order = node_id ` set (g_nodes g)"
    using topoSort_topo_order [OF wf order] by (simp add: topo_order_def NodeIDs_def)
  then have "[] \<notin> set order" using ValidatePipelineGraph_ids [OF valid] by (metis imageE)
  then have "[] \<notin> set rest" using split(1) by simp
  then have "node_id b \<notin> set rest"
    using pendingBlockNode_none [OF split(2) _ _ unique] b(2) by blast
  ultimately show ?thesis using split(1) ran unique order by auto
qed

section \<open>Backward: the response\<close>

text \<open>What one node does to the text and the tool calls of the response.\<close>

definition node_rewrite :: "('c, 't, 'e) registry \<Rightarrow> string \<Rightarrow> (int \<times> int) option \<Rightarrow> bool \<Rightarrow> executed_node
    \<Rightarrow> string \<times> string \<times> string \<Rightarrow> string \<times> string \<times> string" where
  "node_rewrite reg m tokens hadError en st =
     (case st of (current, calls, rewritten) \<Rightarrow>
       (case reg (node_type (en_node en)) of
          None \<Rightarrow> st
        | Some ex \<Rightarrow>
            (case ex_backward ex (backward_input_of m tokens hadError en current calls) of
               Inl e \<Rightarrow> st
             | Inr res \<Rightarrow>
                 (if br_content res \<noteq> [] then br_content res else current,
                  if br_toolCalls res \<noteq> [] then br_toolCalls res else calls,
                  if br_toolCalls res \<noteq> [] then br_toolCalls res else rewritten))))"

lemma backward_loop_fold:
  "backward_loop reg (\<lambda>_. False) m tokens hadError ens st = fold (node_rewrite reg m tokens hadError) ens st"
proof (induction ens arbitrary: st)
  case Nil
  then show ?case by simp
next
  case (Cons en ens)
  then show ?case
    by (cases st) (auto simp: node_rewrite_def split: option.splits sum.splits)
qed

lemma backward_loop_keeps:
  assumes "\<And>en st. en \<in> set ens \<Longrightarrow> node_rewrite reg m tokens hadError en st = st"
  shows "backward_loop reg expired m tokens hadError ens st = st"
  using assms
proof (induction ens arbitrary: st)
  case Nil
  then show ?case by simp
next
  case (Cons en ens)
  obtain c k r where st: "st = (c, k, r)" by (cases st)
  have step: "backward_loop reg expired m tokens hadError (en # ens) st =
      (if expired (length ens) then st
       else backward_loop reg expired m tokens hadError ens (node_rewrite reg m tokens hadError en st))"
    by (auto simp: st node_rewrite_def split: option.splits sum.splits)
  have "backward_loop reg expired m tokens hadError ens (node_rewrite reg m tokens hadError en st) = st"
    using Cons by simp
  then show ?case unfolding step by simp
qed

text \<open>
  When the pass is not cut by its deadline, the backward pass is the composition of the rewrites of
  the executed nodes, the last executed one applied first; a node whose executor is missing or fails
  leaves the response as it stands instead of failing the request.
\<close>

theorem RunBackward_reverse_composition:
  "RunBackwardWithToolCalls reg (\<lambda>_. False) fe content calls tokens hadError =
     (case foldr (node_rewrite reg (model_for_backward fe) tokens hadError) (fe_executed fe) (content, calls, []) of
        (current, _, rewritten) \<Rightarrow> \<lparr>bo_content = current, bo_toolCalls = rewritten\<rparr>)"
  by (simp add: RunBackwardWithToolCalls_def backward_loop_fold foldr_conv_fold)

section \<open>Streaming\<close>

text \<open>
  The contract of \<open>ResponseModifier\<close> and of \<open>NoResponseRewrite\<close>: an executor that says a node does not
  modify the response returns no content and no tool calls for it, and a node that said so during its
  forward pass keeps its word in its backward pass.
\<close>

locale quiet_executor =
  fixes ex :: "('c, 't, 'e) executor"
  assumes quiet: "ex_modifies ex = Some f \<Longrightarrow> \<not> f (bi_node i) \<Longrightarrow> ex_backward ex i = Inr res \<Longrightarrow>
    br_content res = [] \<and> br_toolCalls res = []"
begin

lemma node_rewrite_quiet:
  assumes "reg (node_type (en_node en)) = Some ex" and "ex_modifies ex = Some f" "\<not> f (en_node en)"
  shows "node_rewrite reg m tokens hadError en st = st"
  using assms quiet [of f "backward_input_of m tokens hadError en (fst st) (fst (snd st))"]
  by (auto simp: node_rewrite_def backward_input_of_def split: prod.splits sum.splits)

end

definition keeps_promise :: "('c, 't, 'e) registry \<Rightarrow> executed_node \<Rightarrow> bool" where
  "keeps_promise reg en \<longleftrightarrow>
     (en_noResponseRewrite en \<longrightarrow>
        (\<forall>ex i res. reg (node_type (en_node en)) = Some ex \<longrightarrow> bi_node i = en_node en \<longrightarrow>
           bi_state i = en_state en \<longrightarrow> ex_backward ex i = Inr res \<longrightarrow> br_content res = [] \<and> br_toolCalls res = []))"

lemma keeps_promiseD:
  "keeps_promise reg en \<Longrightarrow> en_noResponseRewrite en \<Longrightarrow> reg (node_type (en_node en)) = Some ex \<Longrightarrow>
   bi_node i = en_node en \<Longrightarrow> bi_state i = en_state en \<Longrightarrow> ex_backward ex i = Inr res \<Longrightarrow> br_content res = [] \<and> br_toolCalls res = []"
  by (simp add: keeps_promise_def)

lemma unmodified_node:
  assumes "\<And>t ex. reg t = Some ex \<Longrightarrow> quiet_executor ex" and "keeps_promise reg en"
    and "\<not> MayModifyResponse reg (Some fe)" and "en \<in> set (fe_executed fe)"
  shows "node_rewrite reg m tokens hadError en st = st"
proof (cases "reg (node_type (en_node en))")
  case None
  then show ?thesis by (cases st) (simp add: node_rewrite_def)
next
  case (Some ex)
  show ?thesis
  proof (cases "en_noResponseRewrite en")
    case True
    have q: "ex_backward ex (backward_input_of m tokens hadError en (fst st) (fst (snd st))) = Inr res \<Longrightarrow>
        br_content res = [] \<and> br_toolCalls res = []" for res
      by (rule keeps_promiseD [OF assms(2) True Some]) (simp_all add: backward_input_of_def)
    show ?thesis using q Some
      by (cases st) (auto simp: node_rewrite_def split: sum.splits)
  next
    case False
    have ne: "case ex_modifies ex of None \<Rightarrow> False | Some f \<Rightarrow> \<not> f (en_node en)"
      using assms(3,4) False Some by (auto simp: MayModifyResponse_def list_ex_iff split: option.splits)
    then obtain f where "ex_modifies ex = Some f" "\<not> f (en_node en)" by (auto split: option.splits)
    then show ?thesis
      using quiet_executor.node_rewrite_quiet [of ex reg en] assms(1) [OF Some] Some by blast
  qed
qed

text \<open>
  Streaming is sound: with executors that honour the \<open>ResponseModifier\<close> contract, an execution for
  which \<open>MayModifyResponse\<close> answers no has a backward pass that returns the response content exactly
  as the model produced it and rewrites no tool call, whether or not the pass runs out of time.
\<close>

theorem streaming_sound:
  assumes "\<And>t ex. reg t = Some ex \<Longrightarrow> quiet_executor ex"
    and "\<And>en. en \<in> set (fe_executed fe) \<Longrightarrow> keeps_promise reg en"
    and "\<not> MayModifyResponse reg (Some fe)"
  shows "RunBackwardWithToolCalls reg expired fe content calls tokens hadError = \<lparr>bo_content = content, bo_toolCalls = []\<rparr>"
proof -
  let ?r = "backward_loop reg expired (model_for_backward fe) tokens hadError (rev (fe_executed fe)) (content, calls, [])"
  have "?r = (content, calls, [])"
    using unmodified_node [OF assms(1) assms(2) assms(3)] by (intro backward_loop_keeps) simp
  then show ?thesis by (simp add: RunBackwardWithToolCalls_def)
qed

end
