(* ===== verification/Pipeline_Nodes.thy ===== *)
theory Pipeline_Nodes
  imports Pipeline_Engine_Safety "HOL-Library.Word"
begin

unbundle bit_operations_syntax

text \<open>
  The built-in nodes of the pipeline: \<open>src/internal/pipeline/logic_executors.go\<close> (compare, select, math,
  sample, context, note), \<open>block_executor.go\<close>, \<open>value_executor.go\<close>, \<open>model_ref_executor.go\<close>,
  \<open>generator_executor.go\<close> and \<open>sink_executor.go\<close>, and the payloads of their data in
  \<open>src/internal/core/model/pipeline_graph.go\<close>.

  \<open>node_env\<close> gathers what these nodes take from outside: how \<open>encoding/json\<close> fills a payload from the raw
  data of a node (starting from the payload's initial value, \<open>None\<close> for its error), how \<open>strconv\<close> reads
  numbers and booleans, the random bucket of a sample node, and the wall clock of a time zone.
\<close>

section \<open>Payloads\<close>

record compare_data =
  cd_op :: string
  cd_threshold :: float64
  cd_expected :: string

record math_data =
  md_op :: string
  md_weights :: "float64 list"

record sample_data =
  sd_percent :: float64
  sd_key :: string
  sd_salt :: string

record block_data =
  bd_label :: string
  bd_message :: string

record value_data =
  vd_portType :: string
  vd_value :: string

text \<open>Hour, minute and day of the week (0 for Sunday) of a moment in some location.\<close>

record wall_clock =
  wc_hour :: nat
  wc_minute :: nat
  wc_weekday :: nat

record node_env =
  env_compare :: "compare_data \<Rightarrow> string \<Rightarrow> compare_data option"
  env_math :: "math_data \<Rightarrow> string \<Rightarrow> math_data option"
  env_sample :: "sample_data \<Rightarrow> string \<Rightarrow> sample_data option"
  env_block :: "block_data \<Rightarrow> string \<Rightarrow> block_data option"
  env_value :: "value_data \<Rightarrow> string \<Rightarrow> value_data option"
  env_modelRef :: "string \<Rightarrow> string \<Rightarrow> string option"
  env_context :: "string \<Rightarrow> string \<Rightarrow> string option"
  env_parseFloat :: "string \<Rightarrow> float64 option"
  env_parseBool :: "string \<Rightarrow> bool option"
  env_random :: float64
  env_now :: "string option \<Rightarrow> wall_clock option"

datatype node_error =
    InvalidData
  | BothPortsConnected string
  | TextPortNotString string
  | NoExpectedString string
  | OpNotForText string string
  | ValuePortNotNumber string
  | NeitherPortConnected string
  | UnknownOp string string
  | ConditionNotBoolean string
  | PortNotConnected string string
  | NoNumberInput string
  | CannotParseNumber string
  | CannotParseBoolean string
  | NoModelSelected string
  | UnknownTimezone string string

definition decodeNodeData :: "('d \<Rightarrow> string \<Rightarrow> 'd option) \<Rightarrow> 'd \<Rightarrow> pipeline_node \<Rightarrow> (node_error, 'd) result" where
  "decodeNodeData dec into node =
     (case node_data node of
        None \<Rightarrow> Inr into
      | Some raw \<Rightarrow> (case dec into raw of None \<Rightarrow> Inl InvalidData | Some d \<Rightarrow> Inr d))"

definition numberInput :: "(string \<Rightarrow> float64 option) \<Rightarrow> inputs \<Rightarrow> string \<Rightarrow> float64 option" where
  "numberInput parse inputs name =
     (case inputs name of
        None \<Rightarrow> None
      | Some v \<Rightarrow>
          (case v of
             VFloat64 n \<Rightarrow> Some n
           | VFloat32 n \<Rightarrow> Some n
           | VInt n \<Rightarrow> Some (f64_of_int n)
           | VInt64 n \<Rightarrow> Some (f64_of_int n)
           | VJsonNumber s \<Rightarrow> parse s
           | VBool b \<Rightarrow> Some (if b then Fin 1 else Fin 0)
           | _ \<Rightarrow> None))"

section \<open>Compare\<close>

text \<open>\<open>strings.EqualFold\<close> on U+0000 to U+00FF: simple case folding.\<close>

definition fold_char :: "char \<Rightarrow> nat" where
  "fold_char c =
     (let n = of_char c
      in if (65 \<le> n \<and> n \<le> 90) \<or> (192 \<le> n \<and> n \<le> 222 \<and> n \<noteq> 215) then n + 32 else n)"

definition equal_fold :: "string \<Rightarrow> string \<Rightarrow> bool" where
  "equal_fold s t = (map fold_char s = map fold_char t)"

definition compareText :: "pipeline_node \<Rightarrow> compare_data \<Rightarrow> string
    \<Rightarrow> (node_error, ('c, 't) forward_result) result" where
  "compareText node data text =
     (let expected = trim_space (cd_expected data) in
      if expected = [] then Inl (NoExpectedString (node_id node))
      else
        let equal = equal_fold (trim_space text) expected in
        if cd_op data = ''eq'' \<or> cd_op data = [] then Inr (plain_result [''result'' \<mapsto> VBool equal])
        else if cd_op data = ''ne'' then Inr (plain_result [''result'' \<mapsto> VBool (\<not> equal)])
        else Inl (OpNotForText (node_id node) (cd_op data)))"

definition compare_numbers :: "string \<Rightarrow> float64 \<Rightarrow> float64 \<Rightarrow> bool option" where
  "compare_numbers op value threshold =
     (if op = ''gt'' \<or> op = [] then Some (f64_lt threshold value)
      else if op = ''gte'' then Some (f64_le threshold value)
      else if op = ''lt'' then Some (f64_lt value threshold)
      else if op = ''lte'' then Some (f64_le value threshold)
      else if op = ''eq'' then Some (f64_eq value threshold)
      else if op = ''ne'' then Some (\<not> f64_eq value threshold)
      else None)"

definition CompareForward :: "node_env \<Rightarrow> pipeline_node \<Rightarrow> inputs \<Rightarrow> exec_context
    \<Rightarrow> (node_error, ('c, 't) forward_result) result" where
  "CompareForward env node inputs ec =
     rbind (decodeNodeData (env_compare env) \<lparr>cd_op = [], cd_threshold = Fin 0, cd_expected = []\<rparr> node) (\<lambda>data.
       if inputs ''text'' \<noteq> None \<and> inputs ''value'' \<noteq> None then Inl (BothPortsConnected (node_id node))
       else
         (case inputs ''text'' of
            Some rawText \<Rightarrow>
              (case rawText of
                 VString text \<Rightarrow> compareText node data text
               | _ \<Rightarrow> Inl (TextPortNotString (node_id node)))
          | None \<Rightarrow>
              (let op = (if cd_op data = [] then ''gt'' else cd_op data) in
               case numberInput (env_parseFloat env) inputs ''value'' of
                 None \<Rightarrow>
                   if inputs ''value'' \<noteq> None then Inl (ValuePortNotNumber (node_id node))
                   else Inl (NeitherPortConnected (node_id node))
               | Some value \<Rightarrow>
                   (let threshold = (case numberInput (env_parseFloat env) inputs ''threshold'' of
                                       None \<Rightarrow> cd_threshold data | Some t \<Rightarrow> t) in
                    case compare_numbers op value threshold of
                      None \<Rightarrow> Inl (UnknownOp (node_id node) op)
                    | Some b \<Rightarrow> Inr (plain_result [''result'' \<mapsto> VBool b])))))"

section \<open>Select and block\<close>

text \<open>A condition: a boolean, or a number that is not zero.\<close>

definition condition_input :: "node_env \<Rightarrow> inputs \<Rightarrow> bool option" where
  "condition_input env inputs =
     (case inputs ''condition'' of
        Some (VBool b) \<Rightarrow> Some b
      | _ \<Rightarrow> map_option (\<lambda>n. \<not> f64_eq n (Fin 0)) (numberInput (env_parseFloat env) inputs ''condition''))"

definition SelectForward :: "node_env \<Rightarrow> pipeline_node \<Rightarrow> inputs \<Rightarrow> exec_context
    \<Rightarrow> (node_error, ('c, 't) forward_result) result" where
  "SelectForward env node inputs ec =
     (case condition_input env inputs of
        None \<Rightarrow> Inl (ConditionNotBoolean (node_id node))
      | Some cond \<Rightarrow>
          (let port = (if cond then ''when_true'' else ''when_false'') in
           case inputs port of
             None \<Rightarrow> Inl (PortNotConnected (node_id node) port)
           | Some v \<Rightarrow> Inr (plain_result [''value'' \<mapsto> v])))"

definition DefaultBlockMessage :: string where
  "DefaultBlockMessage = ''Requ'' @ [CHR 0xEA] @ ''te refus'' @ [CHR 0xE9] @ ''e par la politique du pipeline.''"

definition BlockForward :: "node_env \<Rightarrow> pipeline_node \<Rightarrow> inputs \<Rightarrow> exec_context
    \<Rightarrow> (node_error, ('c, 't) forward_result) result" where
  "BlockForward env node inputs ec =
     rbind (decodeNodeData (env_block env) \<lparr>bd_label = [], bd_message = []\<rparr> node) (\<lambda>data.
       (case condition_input env inputs of
          None \<Rightarrow> Inl (ConditionNotBoolean (node_id node))
        | Some cond \<Rightarrow>
            if \<not> cond then Inr (plain_result Map.empty)
            else Inr ((plain_result Map.empty)\<lparr>fr_rejected := True,
                   fr_reason := (if bd_message data = [] then DefaultBlockMessage else bd_message data)\<rparr>)))"

text \<open>
  The event a rejection records: severity warning, with the message and attributes the code builds.
\<close>

record block_event =
  be_org :: string
  be_user :: string
  be_message :: string
  be_attrs :: "(string \<times> string) list"

definition BlockEvent :: "pipeline_node \<Rightarrow> block_data \<Rightarrow> exec_context \<Rightarrow> block_event" where
  "BlockEvent node data ec =
     (let message = (if bd_message data = [] then DefaultBlockMessage else bd_message data)
      in \<lparr>be_org = ec_orgID ec, be_user = ec_userID ec,
          be_message = ''Requ'' @ [CHR 0xEA] @ ''te bloqu'' @ [CHR 0xE9] @ ''e : '' @ message,
          be_attrs = [(''node_id'', node_id node), (''reason'', message)] @
            (if bd_label data \<noteq> [] then [(''label'', bd_label data)] else [])\<rparr>)"

section \<open>Math\<close>

definition mathInputPorts :: "string list" where
  "mathInputPorts = [''a'', ''b'', ''c'', ''d'']"

text \<open>The connected numbers with their weights, a port past the configured weights weighing 1.\<close>

definition math_terms :: "node_env \<Rightarrow> inputs \<Rightarrow> float64 list \<Rightarrow> (float64 \<times> float64) list" where
  "math_terms env inputs weights =
     List.map_filter
       (\<lambda>(i, port). map_option (\<lambda>v. (v, if i < length weights then weights ! i else Fin 1))
          (numberInput (env_parseFloat env) inputs port))
       (enumerate 0 mathInputPorts)"

definition f64_sum :: "float64 list \<Rightarrow> float64" where
  "f64_sum vs = foldl f64_add (Fin 0) vs"

definition math_result :: "string \<Rightarrow> (float64 \<times> float64) list \<Rightarrow> float64 option" where
  "math_result op terms =
     (let values = map fst terms in
      if op = ''sum'' \<or> op = [] then Some (f64_sum values)
      else if op = ''avg'' then Some (f64_div (f64_sum values) (f64_of_int (int (length values))))
      else if op = ''min'' then Some (foldl f64_min PInf values)
      else if op = ''max'' then Some (foldl f64_max NInf values)
      else if op = ''product'' then Some (foldl f64_mul (Fin 1) values)
      else if op = ''weighted'' then
        (let result = foldl (\<lambda>r (v, w). f64_add r (f64_mul v w)) (Fin 0) terms;
             total = f64_sum (map snd terms)
         in Some (if \<not> f64_eq total (Fin 0) then f64_div result total else result))
      else None)"

definition MathForward :: "node_env \<Rightarrow> pipeline_node \<Rightarrow> inputs \<Rightarrow> exec_context
    \<Rightarrow> (node_error, ('c, 't) forward_result) result" where
  "MathForward env node inputs ec =
     rbind (decodeNodeData (env_math env) \<lparr>md_op = ''sum'', md_weights = []\<rparr> node) (\<lambda>data.
       (let terms = math_terms env inputs (md_weights data) in
        if terms = [] then Inl (NoNumberInput (node_id node))
        else (case math_result (md_op data) terms of
                None \<Rightarrow> Inl (UnknownOp (node_id node) (md_op data))
              | Some r \<Rightarrow> Inr (plain_result [''result'' \<mapsto> VFloat64 r]))))"

section \<open>Sample\<close>

text \<open>The UTF-8 bytes of a string, and the 64-bit FNV-1a hash of \<open>hash/fnv\<close>.\<close>

definition utf8_char :: "char \<Rightarrow> 64 word list" where
  "utf8_char c =
     (let n = (of_char c :: nat)
      in if n < 128 then [of_nat n] else [of_nat (192 + n div 64), of_nat (128 + n mod 64)])"

definition utf8_bytes :: "string \<Rightarrow> 64 word list" where
  "utf8_bytes s = concat (map utf8_char s)"

definition fnv64a :: "64 word list \<Rightarrow> 64 word" where
  "fnv64a bytes = foldl (\<lambda>h b. (h XOR b) * 1099511628211) 14695981039346656037 bytes"

definition hashBucket :: "string \<Rightarrow> float64" where
  "hashBucket key = f64_div (f64_of_int (uint (fnv64a (utf8_bytes key) mod 10000))) (Fin 100)"

definition sample_bucket :: "node_env \<Rightarrow> exec_context \<Rightarrow> sample_data \<Rightarrow> float64" where
  "sample_bucket env ec data =
     (if sd_key data = ''random'' then env_random env
      else if sd_key data = ''token'' then hashBucket (ec_tokenID ec @ ''|'' @ sd_salt data)
      else hashBucket (ec_userID ec @ ''|'' @ sd_salt data))"

definition SampleForward :: "node_env \<Rightarrow> pipeline_node \<Rightarrow> inputs \<Rightarrow> exec_context
    \<Rightarrow> (node_error, ('c, 't) forward_result) result" where
  "SampleForward env node inputs ec =
     rbind (decodeNodeData (env_sample env) \<lparr>sd_percent = Fin 10, sd_key = ''user'', sd_salt = []\<rparr> node) (\<lambda>data.
       (let bucket = sample_bucket env ec data
        in Inr (plain_result [''selected'' \<mapsto> VBool (f64_lt bucket (sd_percent data)),
                              ''bucket'' \<mapsto> VFloat64 bucket])))"

section \<open>Context, note, value, model reference, generator, sink\<close>

definition weekdays :: "string list" where
  "weekdays = [''sunday'', ''monday'', ''tuesday'', ''wednesday'', ''thursday'', ''friday'', ''saturday'']"

definition requestedModel :: "exec_context \<Rightarrow> string" where
  "requestedModel ec =
     (if ec_targetModelName ec = [] then []
      else if ec_requestedModel ec \<noteq> [] then ec_requestedModel ec
      else ec_targetModelName ec)"

definition ContextForward :: "node_env \<Rightarrow> pipeline_node \<Rightarrow> inputs \<Rightarrow> exec_context
    \<Rightarrow> (node_error, ('c, 't) forward_result) result" where
  "ContextForward env node inputs ec =
     rbind (decodeNodeData (env_context env) [] node) (\<lambda>timezone.
       (case env_now env (if timezone = [] then None else Some timezone) of
          None \<Rightarrow> Inl (UnknownTimezone (node_id node) timezone)
        | Some now \<Rightarrow>
            Inr (plain_result
              [''user_id'' \<mapsto> VString (ec_userID ec),
               ''org_id'' \<mapsto> VString (ec_orgID ec),
               ''token_id'' \<mapsto> VString (ec_tokenID ec),
               ''display_name'' \<mapsto> VString (ec_displayName ec),
               ''requested_model'' \<mapsto> VString (requestedModel ec),
               ''team_id'' \<mapsto> VString (ec_teamID ec),
               ''team_slug'' \<mapsto> VString (ec_teamSlug ec),
               ''hour'' \<mapsto> VFloat64 (f64_add (f64_of_int (int (wc_hour now)))
                                  (f64_div (f64_of_int (int (wc_minute now))) (Fin 60))),
               ''weekday'' \<mapsto> VString (weekdays ! wc_weekday now),
               ''is_weekend'' \<mapsto> VBool (wc_weekday now = 6 \<or> wc_weekday now = 0)])))"

definition NoteForward :: "pipeline_node \<Rightarrow> inputs \<Rightarrow> exec_context \<Rightarrow> (node_error, ('c, 't) forward_result) result" where
  "NoteForward node inputs ec = Inr (plain_result Map.empty)"

definition parseValueNodeData :: "node_env \<Rightarrow> pipeline_node \<Rightarrow> (node_error, value_data) result" where
  "parseValueNodeData env node =
     (case node_data node of
        None \<Rightarrow> Inr \<lparr>vd_portType = ''string'', vd_value = []\<rparr>
      | Some raw \<Rightarrow>
          (case env_value env \<lparr>vd_portType = [], vd_value = []\<rparr> raw of
             None \<Rightarrow> Inl InvalidData
           | Some d \<Rightarrow> Inr (if vd_portType d = [] then d\<lparr>vd_portType := ''string''\<rparr> else d)))"

definition ValueForward :: "node_env \<Rightarrow> pipeline_node \<Rightarrow> inputs \<Rightarrow> exec_context
    \<Rightarrow> (node_error, ('c, 't) forward_result) result" where
  "ValueForward env node inputs ec =
     rbind (parseValueNodeData env node) (\<lambda>data.
       if vd_portType data = ''number'' then
         (case env_parseFloat env (vd_value data) of
            None \<Rightarrow> Inl (CannotParseNumber (vd_value data))
          | Some f \<Rightarrow> Inr (plain_result [''value'' \<mapsto> VFloat64 f]))
       else if vd_portType data = ''boolean'' then
         (case env_parseBool env (vd_value data) of
            None \<Rightarrow> Inl (CannotParseBoolean (vd_value data))
          | Some b \<Rightarrow> Inr (plain_result [''value'' \<mapsto> VBool b]))
       else Inr (plain_result [''value'' \<mapsto> VString (vd_value data)]))"

definition ModelRefForward :: "node_env \<Rightarrow> pipeline_node \<Rightarrow> inputs \<Rightarrow> exec_context
    \<Rightarrow> (node_error, ('c, 't) forward_result) result" where
  "ModelRefForward env node inputs ec =
     rbind (decodeNodeData (env_modelRef env) [] node) (\<lambda>proxyName.
       if proxyName = [] then Inl (NoModelSelected (node_id node))
       else Inr (plain_result [''model_name'' \<mapsto> VString proxyName]))"

definition GeneratorForward :: "pipeline_node \<Rightarrow> inputs \<Rightarrow> exec_context \<Rightarrow> (node_error, ('c, 't) forward_result) result" where
  "GeneratorForward node inputs ec = Inr (plain_result [''request'' \<mapsto> VString (ec_bodyJSON ec)])"

definition SinkForward :: "pipeline_node \<Rightarrow> inputs \<Rightarrow> exec_context \<Rightarrow> (node_error, ('c, 't) forward_result) result" where
  "SinkForward node inputs ec = Inr (plain_result inputs)"

section \<open>The built-in executors\<close>

text \<open>They all share the backward pass that does nothing and declare that they leave the response alone.\<close>

definition builtin :: "(pipeline_node \<Rightarrow> inputs \<Rightarrow> exec_context \<Rightarrow> (node_error, ('c, 't) forward_result) result)
    \<Rightarrow> ('c, 't, node_error) executor" where
  "builtin fwd = \<lparr>ex_forward = fwd, ex_backward = noopBackward, ex_modifies = Some (\<lambda>_. False)\<rparr>"

interpretation builtin_quiet: quiet_executor "builtin fwd"
  by unfold_locales (auto simp: builtin_def noopBackward_def)

fun builtin_registry :: "node_env \<Rightarrow> ('c, 't, node_error) registry" where
  "builtin_registry env NodeTypeGenerator = Some (builtin GeneratorForward)"
| "builtin_registry env NodeTypeSink = Some (builtin SinkForward)"
| "builtin_registry env NodeTypeValue = Some (builtin (ValueForward env))"
| "builtin_registry env NodeTypeModelRef = Some (builtin (ModelRefForward env))"
| "builtin_registry env NodeTypeCompare = Some (builtin (CompareForward env))"
| "builtin_registry env NodeTypeSelect = Some (builtin (SelectForward env))"
| "builtin_registry env NodeTypeMath = Some (builtin (MathForward env))"
| "builtin_registry env NodeTypeSample = Some (builtin (SampleForward env))"
| "builtin_registry env NodeTypeContext = Some (builtin (ContextForward env))"
| "builtin_registry env NodeTypeNote = Some (builtin NoteForward)"
| "builtin_registry env NodeTypeBlock = Some (builtin (BlockForward env))"
| "builtin_registry env _ = None"

lemma builtin_registry_quiet: "builtin_registry env t = Some ex \<Longrightarrow> quiet_executor ex"
  by (cases t) (auto intro: builtin_quiet.quiet_executor_axioms)

end
