(* ===== verification/Pipeline_Nodes_Safety.thy ===== *)
theory Pipeline_Nodes_Safety
  imports Pipeline_Nodes
begin

text \<open>
  What the built-in nodes guarantee inside the engine: a request that reaches a model went through every
  block node with a condition that is present and false; a pipeline made of built-in nodes keeps the
  response for streaming; percentage rollouts are stable and grow with the percentage; and the extrema
  of a math node are the least and the greatest connected number.
\<close>

section \<open>Block nodes\<close>

lemma BlockForward_lets_through:
  "BlockForward env node ins ec = Inr res \<Longrightarrow> \<not> fr_rejected res \<Longrightarrow> condition_input env ins = Some False"
  by (cases "decodeNodeData (env_block env) \<lparr>bd_label = [], bd_message = []\<rparr> node"; cases "condition_input env ins")
     (auto simp: BlockForward_def result_simps split: if_splits)

text \<open>
  C1.  Block nodes fail closed.  When the forward pass of an accepted graph yields a model client, every
  block node of the graph was visited by the pass, the condition on its inputs there was connected,
  readable and false, and the node is recorded as executed.  A block node whose condition is true,
  missing or not a boolean or number never lets the request reach a model.
\<close>

theorem RunForward_blocks_enforced:
  assumes "ValidatePipelineGraph jc (Some g) = Inr ()"
    and "reg NodeTypeBlock = Some (builtin (BlockForward env))"
    and "RunForward reg g ec = Inr fe"
    and "b \<in> set (g_nodes g)" and "node_type b = NodeTypeBlock"
  shows "(\<exists>order st. topoSort g = Some order \<and> visits reg g ec (forward_start g ec) order b st \<and>
            condition_input env (ResolveInputs (fs_vc st) g (node_id b)) = Some False) \<and>
         (\<exists>en \<in> set (fe_executed fe). en_node en = b)"
proof -
  obtain order where o: "topoSort g = Some order" "passed reg g ec (forward_start g ec) order fe b"
    using RunForward_blocks_passed [OF assms(1,3,4,5)] by blast
  then obtain st ex res where v: "visits reg g ec (forward_start g ec) order b st" "reg (node_type b) = Some ex"
      "ex_forward ex b (ResolveInputs (fs_vc st) g (node_id b)) (ec\<lparr>ec_messagesJSON := fs_messages st\<rparr>) = Inr res"
      "\<not> fr_rejected res"
    and en: "\<exists>en \<in> set (fe_executed fe). en_node en = b"
    unfolding passed_def by blast
  have "ex = builtin (BlockForward env)" using v(2) assms(2,5) by simp
  then have "condition_input env (ResolveInputs (fs_vc st) g (node_id b)) = Some False"
    using BlockForward_lets_through [OF _ v(4)] v(3) by (simp add: builtin_def)
  with o v en show ?thesis by blast
qed

section \<open>A sample run\<close>

text \<open>
  The sample graph on a Wednesday at half past nine, with a model node that hands out the client
  \<open>''client''\<close> and asks for no rewriting of the response.
\<close>

definition sample_env :: node_env where
  "sample_env =
     \<lparr>env_compare = (\<lambda>d _. Some d), env_math = (\<lambda>d _. Some d), env_sample = (\<lambda>d _. Some d),
      env_block = (\<lambda>d _. Some d), env_value = (\<lambda>d _. Some d), env_modelRef = (\<lambda>d _. Some d),
      env_context = (\<lambda>d _. Some d), env_parseFloat = (\<lambda>_. None), env_parseBool = (\<lambda>_. None),
      env_random = Fin 0, env_now = (\<lambda>_. Some \<lparr>wc_hour = 9, wc_minute = 30, wc_weekday = 3\<rparr>)\<rparr>"

definition sample_model :: "(string, string, node_error) executor" where
  "sample_model = builtin (\<lambda>_ _ _. Inr ((plain_result Map.empty)\<lparr>fr_client := Some ''client'', fr_model := ''gpt''\<rparr>))"

definition sample_registry :: "(string, string, node_error) registry" where
  "sample_registry = (builtin_registry sample_env)(NodeTypeModel \<mapsto> sample_model)"

definition sample_context :: exec_context where
  "sample_context =
     \<lparr>ec_orgID = ''o'', ec_orgSlug = ''acme'', ec_userID = ''u'', ec_tokenID = ''t'', ec_displayName = [],
      ec_teamID = [], ec_teamSlug = [], ec_requestedModel = [], ec_targetModelName = [], ec_delegated = {},
      ec_bodyJSON = ''{}'', ec_messagesJSON = [], ec_bodyMessagesJSON = [], ec_secretScope = [], ec_visitedVMs = {},
      ec_forcePassthrough = False, ec_pending = []\<rparr>"

definition sample_execution :: "(string, string) forward_execution" where
  "sample_execution =
     \<lparr>fe_client = ''client'', fe_model = ''gpt'', fe_modelID = [],
      fe_executed = map (\<lambda>n. \<lparr>en_pluginContext = [], en_node = n, en_state = [], en_noResponseRewrite = False\<rparr>)
        [\<lparr>node_id = ''in'', node_type = NodeTypeGenerator, node_data = None\<rparr>,
         \<lparr>node_id = ''ctx'', node_type = NodeTypeContext, node_data = None\<rparr>,
         \<lparr>node_id = ''guard'', node_type = NodeTypeBlock, node_data = None\<rparr>,
         \<lparr>node_id = ''llm'', node_type = NodeTypeModel, node_data = None\<rparr>],
      fe_messages = [], fe_tools = [], fe_outcome = None\<rparr>"

lemma sample_registry_quiet: "sample_registry t = Some ex \<Longrightarrow> quiet_executor ex"
  by (auto simp: sample_registry_def sample_model_def builtin_quiet.quiet_executor_axioms
      dest: builtin_registry_quiet split: if_splits)

lemma sample_registry_simps:
  "sample_registry NodeTypeGenerator = Some (builtin GeneratorForward)"
  "sample_registry NodeTypeContext = Some (builtin (ContextForward sample_env))"
  "sample_registry NodeTypeBlock = Some (builtin (BlockForward sample_env))"
  "sample_registry NodeTypeModel = Some sample_model"
  by (simp_all add: sample_registry_def)

lemma sample_run: "RunForward sample_registry sample_graph sample_context = Inr sample_execution"
proof -
  have v: "validateGraph sample_graph = Inr ()" by code_simp
  have n: "nodeByID sample_graph ''in'' = Some \<lparr>node_id = ''in'', node_type = NodeTypeGenerator, node_data = None\<rparr>"
    "nodeByID sample_graph ''ctx'' = Some \<lparr>node_id = ''ctx'', node_type = NodeTypeContext, node_data = None\<rparr>"
    "nodeByID sample_graph ''guard'' = Some \<lparr>node_id = ''guard'', node_type = NodeTypeBlock, node_data = None\<rparr>"
    "nodeByID sample_graph ''llm'' = Some \<lparr>node_id = ''llm'', node_type = NodeTypeModel, node_data = None\<rparr>"
    "nodeByID sample_graph ''out'' = Some \<lparr>node_id = ''out'', node_type = NodeTypeSink, node_data = None\<rparr>"
    by (simp_all add: nodeByID_def sample_graph_def)
  have c: "condition_input sample_env (ResolveInputs vc sample_graph ''guard'') = Some False"
    if "vc_get vc ''ctx'' ''is_weekend'' = Some (VBool False)" for vc
    using that by (simp add: ResolveInputs_def sample_graph_def sample_edge_def condition_input_def)
  have now: "env_now sample_env tz = Some \<lparr>wc_hour = 9, wc_minute = 30, wc_weekday = 3\<rparr>" for tz
    by (simp add: sample_env_def)
  show ?thesis
    by (simp add: RunForward_def v now sample_graph_order n sample_registry_simps builtin_def sample_model_def
        GeneratorForward_def ContextForward_def BlockForward_def c result_simps after_node_def
        decodeNodeData_def plain_result_def forward_start_def sample_context_def Let_def
        store_outputs_def vc_get_def new_messages_def sample_execution_def)
qed

theorem RunForward_blocks_enforced_witness:
  "RunForward sample_registry sample_graph sample_context = Inr sample_execution \<and>
   (\<exists>en \<in> set (fe_executed sample_execution).
      en_node en = \<lparr>node_id = ''guard'', node_type = NodeTypeBlock, node_data = None\<rparr>)"
  using RunForward_blocks_enforced [OF sample_graph_valid sample_registry_simps(3) sample_run,
      of "\<lparr>node_id = ''guard'', node_type = NodeTypeBlock, node_data = None\<rparr>"] sample_run
  by (simp add: sample_graph_def)

lemma sample_execution_quiet: "\<not> MayModifyResponse sample_registry (Some sample_execution)"
  by (simp add: MayModifyResponse_def sample_execution_def sample_registry_simps builtin_def sample_model_def)

theorem streaming_sound_witness:
  "\<not> MayModifyResponse sample_registry (Some sample_execution) \<and>
   RunBackwardWithToolCalls sample_registry (\<lambda>i. i = 1) sample_execution ''hello'' [] (Some (3, 5)) False = \<lparr>bo_content = ''hello'', bo_toolCalls = []\<rparr>"
proof -
  have "keeps_promise sample_registry en" if "en \<in> set (fe_executed sample_execution)" for en
    using that by (auto simp: sample_execution_def keeps_promise_def)
  then show ?thesis
    using streaming_sound [of sample_registry sample_execution] sample_registry_quiet sample_execution_quiet by blast
qed

section \<open>Sampling\<close>

text \<open>The largest bucket is 99.99, and 12799 / 128 is a float64 between it and 100.\<close>

lemma rnd_bucket:
  assumes "0 \<le> n" "n < (10000 :: int)"
  shows "0 \<le> rnd (of_int n / 100) \<and> rnd (of_int n / 100) < 100"
proof -
  have "n \<le> 9999" using assms(2) by simp
  then have "of_int n \<le> (of_int 9999 :: rat)" by (simp only: of_int_le_iff)
  then have "(of_int n / 100 :: rat) \<le> of_int 12799 * 2 powi (-7)" by (simp add: power_int_def field_simps)
  moreover have "rnd (of_int 12799 * 2 powi (-7)) = of_int 12799 * 2 powi (-7)" by (rule rnd_exact) simp_all
  ultimately have "rnd (of_int n / 100) \<le> of_int 12799 * 2 powi (-7)" by (rule f64.le_rounded)
  then show ?thesis using assms(1) f64.nonneg [of "of_int n / 100"] by (simp add: power_int_def field_simps)
qed

text \<open>
  The bucket of a user or token is a number in [0, 100), whatever the identifier: a percentage of 0
  selects nobody and a percentage of 100 selects everybody, in spite of the rounding of the division.
\<close>

theorem hashBucket_range: "\<exists>b. hashBucket key = Fin b \<and> 0 \<le> b \<and> b < 100"
proof -
  define n where "n = uint (fnv64a (utf8_bytes key) mod 10000)"
  have n: "0 \<le> n" "n < 10000" by (simp_all add: n_def uint_mod_distrib)
  then have "f64_of_int n = Fin (of_int n)" by (intro f64_of_int_small) simp
  then have "hashBucket key = f64_of_rat (of_int n / 100)" by (simp add: hashBucket_def n_def)
  moreover have "rnd (of_int n / 100) < f64_overflow" "- f64_overflow < rnd (of_int n / 100)"
    using rnd_bucket [OF n] by (auto simp: f64_overflow_def)
  ultimately show ?thesis using rnd_bucket [OF n] by (auto simp: f64_of_rat_def Let_def)
qed

lemma f64_lt_le_trans: "f64_lt x y \<Longrightarrow> f64_le y z \<Longrightarrow> f64_lt x z"
  by (cases x; cases y; cases z) (auto simp: f64_le_def)

abbreviation sample_default :: sample_data where
  "sample_default \<equiv> \<lparr>sd_percent = Fin 10, sd_key = ''user'', sd_salt = []\<rparr>"

text \<open>
  Rollouts only grow: raising the percentage of a sample node, with the same key and salt, keeps
  every user and token that was selected before.
\<close>

theorem SampleForward_monotone:
  assumes "decodeNodeData (env_sample env) sample_default node = Inr d"
    and "decodeNodeData (env_sample env) sample_default node' = Inr (d\<lparr>sd_percent := p\<rparr>)"
    and "f64_le (sd_percent d) p"
    and "SampleForward env node ins ec = Inr res"
    and "fr_outputs res ''selected'' = Some (VBool True)"
  shows "\<exists>res'. SampleForward env node' ins ec = Inr res' \<and>
           fr_outputs res' ''selected'' = Some (VBool True) \<and>
           fr_outputs res' ''bucket'' = fr_outputs res ''bucket''"
  using assms f64_lt_le_trans [of "sample_bucket env ec d" "sd_percent d" p]
  by (auto simp: SampleForward_def result_simps plain_result_def Let_def sample_bucket_def)

theorem SampleForward_monotone_witness:
  "\<exists>res'. SampleForward (sample_env\<lparr>env_sample := (\<lambda>d raw. Some (d\<lparr>sd_key := ''random'', sd_percent := (if raw = ''5'' then Fin 5 else Fin 20)\<rparr>))\<rparr>)
      \<lparr>node_id = ''s'', node_type = NodeTypeSample, node_data = Some ''20''\<rparr> Map.empty sample_context = Inr (res' :: (string, string) forward_result) \<and>
     fr_outputs res' ''selected'' = Some (VBool True) \<and> fr_outputs res' ''bucket'' = Some (VFloat64 (Fin 0))"
proof -
  let ?env = "sample_env\<lparr>env_sample := (\<lambda>d raw. Some (d\<lparr>sd_key := ''random'', sd_percent := (if raw = ''5'' then Fin 5 else Fin 20)\<rparr>))\<rparr>"
  let ?node = "\<lambda>raw. \<lparr>node_id = ''s'', node_type = NodeTypeSample, node_data = Some raw\<rparr>"
  let ?d = "\<lparr>sd_percent = Fin 5, sd_key = ''random'', sd_salt = []\<rparr>"
  let ?res = "plain_result [''selected'' \<mapsto> VBool True, ''bucket'' \<mapsto> VFloat64 (Fin 0)] :: (string, string) forward_result"
  have d: "decodeNodeData (env_sample ?env) sample_default (?node ''5'') = Inr ?d"
      "decodeNodeData (env_sample ?env) sample_default (?node ''20'') = Inr (?d\<lparr>sd_percent := Fin 20\<rparr>)"
    by (simp_all add: decodeNodeData_def)
  have r: "SampleForward ?env (?node ''5'') Map.empty sample_context = Inr ?res"
    using d(1) by (simp add: SampleForward_def result_simps sample_bucket_def sample_env_def)
  show ?thesis
    using SampleForward_monotone [OF d _ r] by (simp add: plain_result_def f64_le_def)
qed

section \<open>Extrema\<close>

lemma foldl_f64_min: "xs \<noteq> [] \<Longrightarrow> foldl f64_min PInf (map Fin xs) = Fin (Min (set xs))"
proof -
  have "foldl f64_min (Fin a) (map Fin ys) = Fin (fold min ys a)" for a ys
    by (induction ys arbitrary: a) (simp_all add: min.commute)
  then show "xs \<noteq> [] \<Longrightarrow> ?thesis" by (cases xs) (auto simp: Min.set_eq_fold simp del: Min_insert list.set)
qed

lemma foldl_f64_max: "xs \<noteq> [] \<Longrightarrow> foldl f64_max NInf (map Fin xs) = Fin (Max (set xs))"
proof -
  have "foldl f64_max (Fin a) (map Fin ys) = Fin (fold max ys a)" for a ys
    by (induction ys arbitrary: a) (simp_all add: max.commute)
  then show "xs \<noteq> [] \<Longrightarrow> ?thesis" by (cases xs) (auto simp: Max.set_eq_fold simp del: Max_insert list.set)
qed

text \<open>
  On finite inputs, at least one of them connected, \<open>min\<close> and \<open>max\<close> output exactly the least and the
  greatest of the connected numbers, whatever the weights.
\<close>

lemma MathForward_extrema:
  assumes "decodeNodeData (env_math env) \<lparr>md_op = ''sum'', md_weights = []\<rparr> node = Inr d"
    and "map fst (math_terms env ins (md_weights d)) = map Fin xs" and "xs \<noteq> []"
    and "md_op d = ''min'' \<or> md_op d = ''max''"
  shows "MathForward env node ins ec =
     Inr (plain_result [''result'' \<mapsto> VFloat64 (Fin ((if md_op d = ''min'' then Min else Max) (set xs)))])"
proof -
  have "math_terms env ins (md_weights d) \<noteq> []" using assms(2,3) by auto
  then show ?thesis
    using assms(1,2,4) foldl_f64_min [OF assms(3)] foldl_f64_max [OF assms(3)]
    by (auto simp: MathForward_def result_simps math_result_def Let_def)
qed

end
