(* ===== verification/Model_Access.thy ===== *)
theory Model_Access
  imports Pipeline_Engine
begin

text \<open>
  Model names and the access a pipeline has to models: \<open>src/internal/core/model/model_name.go\<close>,
  \<open>StaticModelRefs\<close> of \<open>src/internal/core/model/pipeline_graph.go\<close> and \<open>src/internal/pipeline/access.go\<close>.

  The predicate \<open>isTeam\<close> of \<open>ParseModelName\<close> may be nil; \<open>access\<close> is the \<open>ModelAccess\<close> hook, \<open>None\<close> when it is
  nil, and its \<open>CanUse\<close> may fail with an error of its own.
\<close>

section \<open>Model names\<close>

record model_name =
  mn_org :: string
  mn_team :: string
  mn_local :: string

abbreviation slash :: char where "slash \<equiv> CHR ''/''"

definition PersonalModelOrg :: string where
  "PersonalModelOrg = ''~''"

definition Personal :: "model_name \<Rightarrow> bool" where
  "Personal n = (mn_org n = PersonalModelOrg)"

definition Qualified :: "model_name \<Rightarrow> bool" where
  "Qualified n = (mn_org n \<noteq> [])"

text \<open>\<open>strings.Join\<close> with a slash.\<close>

fun join_slash :: "string list \<Rightarrow> string" where
  "join_slash [] = []"
| "join_slash [s] = s"
| "join_slash (s # ss) = s @ slash # join_slash ss"

definition mn_string :: "model_name \<Rightarrow> string" where
  "mn_string n =
     join_slash ((if mn_org n \<noteq> [] then [mn_org n] else []) @ (if mn_team n \<noteq> [] then [mn_team n] else []) @ [mn_local n])"

definition OrgLevel :: "model_name \<Rightarrow> model_name" where
  "OrgLevel n = n\<lparr>mn_team := []\<rparr>"

definition ParseModelName :: "string \<Rightarrow> (string \<Rightarrow> string \<Rightarrow> bool) option \<Rightarrow> model_name option" where
  "ParseModelName name isTeam =
     (if name = [] then None
      else
        (case str_cut slash name of
           None \<Rightarrow> Some \<lparr>mn_org = [], mn_team = [], mn_local = name\<rparr>
         | Some (org, rest) \<Rightarrow>
             if org = [] \<or> rest = [] then None
             else if org = PersonalModelOrg then Some \<lparr>mn_org = org, mn_team = [], mn_local = rest\<rparr>
             else
               (case (str_cut slash rest, isTeam) of
                  (Some (segment, loc), Some f) \<Rightarrow>
                    if segment \<noteq> [] \<and> loc \<noteq> [] \<and> f org segment
                    then Some \<lparr>mn_org = org, mn_team = segment, mn_local = loc\<rparr>
                    else Some \<lparr>mn_org = org, mn_team = [], mn_local = rest\<rparr>
                | _ \<Rightarrow> Some \<lparr>mn_org = org, mn_team = [], mn_local = rest\<rparr>)))"

definition ModelNameConflicts :: "string \<Rightarrow> string \<Rightarrow> bool" where
  "ModelNameConflicts teamSlug localName = has_prefix localName (teamSlug @ [slash])"

section \<open>Static references\<close>

record model_data =
  mo_proxyName :: string
  mo_passthrough :: bool

text \<open>How \<open>encoding/json\<close> reads the data of model and fallback nodes into empty payloads, \<open>None\<close> on error.\<close>

record model_codec =
  mc_model :: "string \<Rightarrow> model_data option"
  mc_fallback :: "string \<Rightarrow> string list option"

definition node_refs :: "model_codec \<Rightarrow> pipeline_node \<Rightarrow> string list" where
  "node_refs mc node =
     (case node_data node of
        None \<Rightarrow> []
      | Some raw \<Rightarrow>
          if node_type node = NodeTypeModel \<or> node_type node = NodeTypeModelRef then
            (case mc_model mc raw of
               Some d \<Rightarrow> if mo_proxyName d \<noteq> [] \<and> \<not> mo_passthrough d then [mo_proxyName d] else []
             | None \<Rightarrow> [])
          else if node_type node = NodeTypeModelFallback then
            (case mc_fallback mc raw of Some ms \<Rightarrow> filter (\<lambda>m. m \<noteq> []) ms | None \<Rightarrow> [])
          else [])"

text \<open>The graph may be nil.\<close>

definition StaticModelRefs :: "model_codec \<Rightarrow> pipeline_graph option \<Rightarrow> string list" where
  "StaticModelRefs mc graph = (case graph of None \<Rightarrow> [] | Some g \<Rightarrow> concat (map (node_refs mc) (g_nodes g)))"

section \<open>Access of a running pipeline\<close>

definition ec_parseModelName :: "exec_context \<Rightarrow> string \<Rightarrow> model_name option" where
  "ec_parseModelName ec name =
     ParseModelName name (Some (\<lambda>org segment. org = ec_orgSlug ec \<and> ec_teamSlug ec \<noteq> [] \<and> segment = ec_teamSlug ec))"

definition refKey :: "exec_context \<Rightarrow> string \<Rightarrow> string" where
  "refKey ec name =
     (case ec_parseModelName ec name of
        None \<Rightarrow> name
      | Some n \<Rightarrow>
          if mn_org n = [] \<or> mn_org n = ec_orgSlug ec then mn_local n else mn_string (OrgLevel n))"

definition withoutTeam :: "exec_context \<Rightarrow> string \<Rightarrow> string" where
  "withoutTeam ec name =
     (case ec_parseModelName ec name of None \<Rightarrow> name | Some n \<Rightarrow> mn_string (OrgLevel n))"

datatype 'a access_error = AccessFailed 'a | ModelAccessError string

definition checkModelAccess :: "(string \<Rightarrow> ('a, bool) result) option \<Rightarrow> exec_context \<Rightarrow> string
    \<Rightarrow> ('a access_error, unit) result" where
  "checkModelAccess access ec name =
     (case access of
        None \<Rightarrow> Inr ()
      | Some canUse \<Rightarrow>
          if refKey ec name \<in> ec_delegated ec then Inr ()
          else
            (case canUse name of
               Inl e \<Rightarrow> Inl (AccessFailed e)
             | Inr ok \<Rightarrow> if ok then Inr () else Inl (ModelAccessError name)))"

definition Delegates :: "exec_context \<Rightarrow> string \<Rightarrow> bool" where
  "Delegates ec name = (refKey ec name \<in> ec_delegated ec)"

definition delegating :: "model_codec \<Rightarrow> exec_context \<Rightarrow> pipeline_graph option \<Rightarrow> exec_context" where
  "delegating mc ec graph = ec\<lparr>ec_delegated := refKey ec ` set (StaticModelRefs mc graph)\<rparr>"

definition checking_ec :: "exec_context \<Rightarrow> exec_context" where
  "checking_ec ec = ec\<lparr>ec_delegated := {}\<rparr>"

section \<open>Names print and parse\<close>

lemmas parse_simps = ParseModelName_def mn_string_def PersonalModelOrg_def

text \<open>
  A name that parses is rebuilt exactly by \<open>String\<close>, whatever teams exist: parsing loses nothing.
\<close>

theorem ParseModelName_String:
  assumes "ParseModelName name isTeam = Some n"
  shows "mn_string n = name"
  using assms
  by (auto simp: parse_simps str_cut_Some str_cut_None split: if_splits option.splits prod.splits)

text \<open>
  The names an organization can hold: a bare local name, a personal name, a name of an organization with
  or without one of its teams, where no team of the organization conflicts with the local name in the
  sense of \<open>ModelNameConflicts\<close>.
\<close>

definition mn_wf :: "(string \<Rightarrow> string \<Rightarrow> bool) \<Rightarrow> model_name \<Rightarrow> bool" where
  "mn_wf isTeam n \<longleftrightarrow>
     mn_local n \<noteq> [] \<and> slash \<notin> set (mn_org n) \<and> slash \<notin> set (mn_team n) \<and>
     (mn_org n = [] \<longrightarrow> mn_team n = [] \<and> slash \<notin> set (mn_local n)) \<and>
     (mn_org n = PersonalModelOrg \<longrightarrow> mn_team n = []) \<and>
     (mn_team n \<noteq> [] \<longrightarrow> isTeam (mn_org n) (mn_team n)) \<and>
     (mn_team n = [] \<longrightarrow> (\<forall>slug. isTeam (mn_org n) slug \<longrightarrow> \<not> ModelNameConflicts slug (mn_local n)))"

lemma str_cut_append: "sep \<notin> set a \<Longrightarrow> str_cut sep (a @ sep # b) = Some (a, b)"
  by (simp add: str_cut_Some)

text \<open>
  Model names are unambiguous: as long as team slugs and model names do not conflict in the sense of
  \<open>ModelNameConflicts\<close>, printing a well-formed name and parsing it again gives the same segments, so
  two different names never print the same.
\<close>

theorem ParseModelName_unambiguous:
  assumes "mn_wf isTeam n"
  shows "ParseModelName (mn_string n) (Some isTeam) = Some n"
proof -
  obtain org team loc where n: "n = \<lparr>mn_org = org, mn_team = team, mn_local = loc\<rparr>" by (cases n)
  have wf: "loc \<noteq> []" "slash \<notin> set org" "slash \<notin> set team" "org = [] \<Longrightarrow> team = [] \<and> slash \<notin> set loc"
      "org = PersonalModelOrg \<Longrightarrow> team = []" "team \<noteq> [] \<Longrightarrow> isTeam org team"
    and free: "\<And>slug b. team = [] \<Longrightarrow> isTeam org slug \<Longrightarrow> loc \<noteq> slug @ slash # b"
    using assms by (auto simp: mn_wf_def n ModelNameConflicts_def has_prefix_iff)
  show ?thesis
  proof (cases "org = []")
    case True
    then show ?thesis using wf by (simp add: n parse_simps str_cut_None [THEN iffD2])
  next
    case org: False
    show ?thesis
    proof (cases "team = []")
      case True
      then show ?thesis using wf org free
        by (auto simp: n parse_simps str_cut_append str_cut_Some split: option.splits)
    next
      case False
      then show ?thesis using wf org by (auto simp: n parse_simps str_cut_append)
    qed
  qed
qed

theorem ParseModelName_unambiguous_witness:
  "ParseModelName ''acme/core/gpt'' (Some (\<lambda>_ t. t = ''core'')) =
     Some \<lparr>mn_org = ''acme'', mn_team = ''core'', mn_local = ''gpt''\<rparr>"
  using ParseModelName_unambiguous [of "\<lambda>_ t. t = ''core''" "\<lparr>mn_org = ''acme'', mn_team = ''core'', mn_local = ''gpt''\<rparr>"]
  by (simp add: mn_wf_def mn_string_def PersonalModelOrg_def)

theorem ParseModelName_String_witness:
  "ParseModelName ''acme/meta/llama'' None = Some \<lparr>mn_org = ''acme'', mn_team = [], mn_local = ''meta/llama''\<rparr> \<and>
   mn_string \<lparr>mn_org = ''acme'', mn_team = [], mn_local = ''meta/llama''\<rparr> = ''acme/meta/llama''"
  using ParseModelName_String [of "''acme/meta/llama''" None "\<lparr>mn_org = ''acme'', mn_team = [], mn_local = ''meta/llama''\<rparr>"]
  by (simp add: ParseModelName_def PersonalModelOrg_def)

section \<open>Delegation reaches the configured models only\<close>

text \<open>The organization and local name a node's model name designates for a request.\<close>

definition designates :: "exec_context \<Rightarrow> model_name \<Rightarrow> string \<times> string" where
  "designates ec n = (if mn_org n = [] then ec_orgSlug ec else mn_org n, mn_local n)"

lemma parsed_org: "ParseModelName name f = Some n \<Longrightarrow> slash \<notin> set (mn_org n)"
  by (auto simp: parse_simps str_cut_Some split: if_splits option.splits prod.splits)

lemma refKey_cong: "ec_orgSlug ec = ec_orgSlug ec' \<Longrightarrow> ec_teamSlug ec = ec_teamSlug ec' \<Longrightarrow> refKey ec name = refKey ec' name"
  by (simp add: refKey_def ec_parseModelName_def split: option.split)

lemma refKey_designates:
  assumes "ec_parseModelName ec a = Some m" "ec_parseModelName ec b = Some n" "refKey ec a = refKey ec b"
    and "fst (designates ec m) = ec_orgSlug ec \<Longrightarrow> slash \<notin> set (mn_local m)"
    and "fst (designates ec n) = ec_orgSlug ec \<Longrightarrow> slash \<notin> set (mn_local n)"
  shows "designates ec m = designates ec n"
proof -
  have slashless: "slash \<notin> set (mn_org m)" "slash \<notin> set (mn_org n)"
    using assms(1,2) parsed_org unfolding ec_parseModelName_def by blast+
  have key: "refKey ec c = (if fst (designates ec k) = ec_orgSlug ec then mn_local k else mn_org k @ slash # mn_local k)"
    if "ec_parseModelName ec c = Some k" for c k
    using that by (auto simp: refKey_def designates_def mn_string_def OrgLevel_def)
  have both: "mn_org m = mn_org n \<and> mn_local m = mn_local n"
    if "mn_org m @ slash # mn_local m = mn_org n @ slash # mn_local n"
    using str_cut_append [OF slashless(1), of "mn_local m"] str_cut_append [OF slashless(2), of "mn_local n"] that
    by (metis Pair_inject option.inject)
  note eq = assms(3) [unfolded key [OF assms(1)] key [OF assms(2)]]
  show ?thesis
  proof (cases "fst (designates ec m) = ec_orgSlug ec")
    case True
    with eq assms(4) have "fst (designates ec n) = ec_orgSlug ec" by (metis in_set_conv_decomp)
    with True eq show ?thesis by (simp add: designates_def)
  next
    case False
    with eq assms(5) have "fst (designates ec n) \<noteq> ec_orgSlug ec" by (metis in_set_conv_decomp)
    with False eq both show ?thesis by (simp add: designates_def)
  qed
qed

text \<open>
  Delegation is confined: when a pipeline that delegates its static references is let through to a
  model the request may not use itself, the model is one the author configured in the graph, designated
  by the same organization and local name (local names of the request's organization holding no slash).
\<close>

theorem delegation_confined:
  assumes "checkModelAccess (Some canUse) (delegating mc ec graph) name = Inr ()"
    and "canUse name \<noteq> Inr True"
    and "ec_parseModelName ec name = Some n"
    and "\<And>r. r \<in> set (name # StaticModelRefs mc graph) \<Longrightarrow>
           \<exists>m. ec_parseModelName ec r = Some m \<and>
             (fst (designates ec m) = ec_orgSlug ec \<longrightarrow> slash \<notin> set (mn_local m))"
  shows "\<exists>ref \<in> set (StaticModelRefs mc graph). \<exists>m. ec_parseModelName ec ref = Some m \<and> designates ec m = designates ec n"
proof -
  have "refKey (delegating mc ec graph) name = refKey ec name"
    by (rule refKey_cong) (simp_all add: delegating_def)
  then obtain ref where ref: "ref \<in> set (StaticModelRefs mc graph)" "refKey ec ref = refKey ec name"
    using assms(1,2) by (auto simp: checkModelAccess_def delegating_def split: sum.splits if_splits)
  then obtain m where m: "ec_parseModelName ec ref = Some m"
      "fst (designates ec m) = ec_orgSlug ec \<Longrightarrow> slash \<notin> set (mn_local m)"
    using assms(4) [of ref] by auto
  have "fst (designates ec n) = ec_orgSlug ec \<Longrightarrow> slash \<notin> set (mn_local n)"
    using assms(3) assms(4) [of name] by auto
  then have "designates ec m = designates ec n"
    using refKey_designates [OF m(1) assms(3) ref(2)] m(2) by blast
  with ref m show ?thesis by blast
qed

text \<open>A graph of the organization acme whose model node is configured with one of its models.\<close>

definition delegation_codec :: model_codec where
  "delegation_codec = \<lparr>mc_model = (\<lambda>raw. Some \<lparr>mo_proxyName = raw, mo_passthrough = False\<rparr>), mc_fallback = (\<lambda>_. None)\<rparr>"

definition delegation_graph :: pipeline_graph where
  "delegation_graph = \<lparr>g_nodes = [\<lparr>node_id = ''m'', node_type = NodeTypeModel, node_data = Some ''acme/gpt''\<rparr>], g_edges = []\<rparr>"

definition delegation_context :: exec_context where
  "delegation_context =
     \<lparr>ec_orgID = ''o'', ec_orgSlug = ''acme'', ec_userID = ''u'', ec_tokenID = ''t'', ec_displayName = [],
      ec_teamID = [], ec_teamSlug = ''core'', ec_requestedModel = [], ec_targetModelName = [], ec_delegated = {},
      ec_bodyJSON = ''{}'', ec_messagesJSON = [], ec_bodyMessagesJSON = [], ec_secretScope = [], ec_visitedVMs = {},
      ec_forcePassthrough = False, ec_pending = []\<rparr>"

theorem delegation_confined_witness:
  "\<exists>ref \<in> set (StaticModelRefs delegation_codec (Some delegation_graph)).
     \<exists>m. ec_parseModelName delegation_context ref = Some m \<and> designates delegation_context m = (''acme'', ''gpt'')"
proof -
  have p: "ec_parseModelName delegation_context ''gpt'' = Some \<lparr>mn_org = [], mn_team = [], mn_local = ''gpt''\<rparr>"
      "ec_parseModelName delegation_context ''acme/gpt'' = Some \<lparr>mn_org = ''acme'', mn_team = [], mn_local = ''gpt''\<rparr>"
    by (simp_all add: ec_parseModelName_def ParseModelName_def PersonalModelOrg_def)
  have refs: "StaticModelRefs delegation_codec (Some delegation_graph) = [''acme/gpt'']"
    by (simp add: StaticModelRefs_def node_refs_def delegation_graph_def delegation_codec_def)
  have ok: "checkModelAccess (Some (\<lambda>_. Inr False :: (unit, bool) result))
      (delegating delegation_codec delegation_context (Some delegation_graph)) ''gpt'' = Inr ()"
    by (simp add: checkModelAccess_def delegating_def refs refKey_def ec_parseModelName_def ParseModelName_def
        delegation_context_def PersonalModelOrg_def)
  show ?thesis
    using delegation_confined [OF ok _ p(1)] refs p by (auto simp: designates_def delegation_context_def)
qed

text \<open>
  The condition on slashes is needed: the key of a model of the organization whose local name holds a
  slash is also the key of a model of the organization its first segment names.
\<close>

lemma refKey_collision:
  "refKey delegation_context ''acme/meta/llama'' = refKey delegation_context ''meta/llama'' \<and>
   withoutTeam delegation_context ''acme/meta/llama'' \<noteq> withoutTeam delegation_context ''meta/llama''"
  by (simp add: refKey_def withoutTeam_def ec_parseModelName_def ParseModelName_def PersonalModelOrg_def
      delegation_context_def mn_string_def OrgLevel_def)

end
