(* ===== verification/Model_Fallback.thy ===== *)
theory Model_Fallback
  imports Model_Access Pipeline_Nodes
begin

text \<open>
  The fallback node: \<open>src/internal/pipeline/model_fallback_executor.go\<close>.  The client of the node keeps the
  candidates resolved so far and the one that answered; the mutex that makes each access atomic is left
  out.  \<open>res\<close> resolves a candidate by name (access check included), \<open>call i c\<close> is the answer of the client
  \<open>c\<close> to the \<open>i\<close>-th attempt, and \<open>gone i\<close> tells whether the context of the caller has ended after it.
\<close>

section \<open>The client\<close>

record 'c resolved_candidate =
  rc_client :: 'c
  rc_realModel :: string
  rc_modelID :: string

record 'c fallback_client =
  fb_candidates :: "string list"
  fb_resolved :: "'c resolved_candidate list"
  fb_used :: "'c resolved_candidate option"

datatype 'a candidate_error = ResolveFailed string 'a | IndexPanic

datatype ('a, 'e) fallback_error = CandidateFailed "'a candidate_error" | CallFailed 'e

type_synonym ('c, 'a) resolver = "string \<Rightarrow> ('a, 'c resolved_candidate) result"

definition UsedModel :: "'c fallback_client \<Rightarrow> (string \<times> string) option" where
  "UsedModel fb = map_option (\<lambda>rc. (rc_realModel rc, rc_modelID rc)) (fb_used fb)"

function candidate :: "('c, 'a) resolver \<Rightarrow> 'c fallback_client \<Rightarrow> nat
    \<Rightarrow> 'c fallback_client \<times> ('a candidate_error, 'c resolved_candidate) result" where
  "candidate res fb i =
     (if length (fb_resolved fb) \<le> i then
        (if length (fb_resolved fb) < length (fb_candidates fb) then
           (let name = fb_candidates fb ! length (fb_resolved fb) in
            case res name of
              Inl e \<Rightarrow> (fb, Inl (ResolveFailed name e))
            | Inr rc \<Rightarrow> candidate res (fb\<lparr>fb_resolved := fb_resolved fb @ [rc]\<rparr>) i)
         else (fb, Inl IndexPanic))
      else (fb, Inr (fb_resolved fb ! i)))"
  by pat_completeness auto
termination
  by (relation "measure (\<lambda>(res, fb, i). Suc i - length (fb_resolved fb))") auto

declare candidate.simps [simp del]

definition markUsed :: "'c resolved_candidate \<Rightarrow> 'c fallback_client \<Rightarrow> 'c fallback_client" where
  "markUsed rc fb = fb\<lparr>fb_used := Some rc\<rparr>"

text \<open>
  The loop over the candidates.  \<open>errors.Wrap\<close> of a nil error is nil: with no candidate at all the caller
  would get neither an answer nor an error, the value \<open>Inr None\<close>.
\<close>

fun fallback_loop :: "('c, 'a) resolver \<Rightarrow> (nat \<Rightarrow> 'c \<Rightarrow> ('e, 'r) result) \<Rightarrow> (nat \<Rightarrow> bool)
    \<Rightarrow> 'c fallback_client \<Rightarrow> ('a, 'e) fallback_error option \<Rightarrow> nat list
    \<Rightarrow> 'c fallback_client \<times> (('a, 'e) fallback_error, 'r option) result" where
  "fallback_loop res call gone fb lastErr [] = (fb, case lastErr of None \<Rightarrow> Inr None | Some e \<Rightarrow> Inl e)"
| "fallback_loop res call gone fb lastErr (i # is) =
     (case candidate res fb i of
        (fb', Inl e) \<Rightarrow> fallback_loop res call gone fb' (Some (CandidateFailed e)) is
      | (fb', Inr rc) \<Rightarrow>
          (case call i (rc_client rc) of
             Inr r \<Rightarrow> (markUsed rc fb', Inr (Some r))
           | Inl e \<Rightarrow>
               if gone i then (fb', Inl (CallFailed e))
               else fallback_loop res call gone fb' (Some (CallFailed e)) is))"

text \<open>\<open>ChatCompletion\<close> and \<open>ChatCompletionStream\<close> differ in the method they call on a candidate.\<close>

definition FallbackChatCompletion :: "('c, 'a) resolver \<Rightarrow> (nat \<Rightarrow> 'c \<Rightarrow> ('e, 'r) result) \<Rightarrow> (nat \<Rightarrow> bool)
    \<Rightarrow> 'c fallback_client \<Rightarrow> 'c fallback_client \<times> (('a, 'e) fallback_error, 'r option) result" where
  "FallbackChatCompletion res call gone fb = fallback_loop res call gone fb None [0..<length (fb_candidates fb)]"

text \<open>\<open>Embeddings\<close> and \<open>Transcription\<close> use the primary model only and mark it used before calling it.\<close>

definition FallbackEmbeddings :: "('c, 'a) resolver \<Rightarrow> ('c \<Rightarrow> ('e, 'r) result) \<Rightarrow> 'c fallback_client
    \<Rightarrow> 'c fallback_client \<times> (('a, 'e) fallback_error, 'r) result" where
  "FallbackEmbeddings res call fb =
     (case candidate res fb 0 of
        (fb', Inl e) \<Rightarrow> (fb', Inl (CandidateFailed e))
      | (fb', Inr rc) \<Rightarrow>
          (markUsed rc fb', case call (rc_client rc) of Inl e \<Rightarrow> Inl (CallFailed e) | Inr r \<Rightarrow> Inr r))"

section \<open>The executor\<close>

datatype 'a fallback_node_error =
    FallbackData node_error
  | NoModelConfigured string
  | PrimaryUnresolved string 'a

definition fallback_candidates :: "inputs \<Rightarrow> string list \<Rightarrow> string list" where
  "fallback_candidates ins models =
     (case ins ''model_name'' of Some (VString name) \<Rightarrow> if name \<noteq> [] then [name] else [] | _ \<Rightarrow> []) @
     filter (\<lambda>m. m \<noteq> []) models"

datatype ('x, 'r) resolve_error = AccessRefused "'x access_error" | ResolverFailed 'r

definition fallback_resolve :: "(string \<Rightarrow> ('x, bool) result) option \<Rightarrow> (string \<Rightarrow> string \<Rightarrow> ('r, 'c resolved_candidate) result)
    \<Rightarrow> exec_context \<Rightarrow> ('c, ('x, 'r) resolve_error) resolver" where
  "fallback_resolve access resolver ec name =
     (case checkModelAccess access ec name of
        Inl e \<Rightarrow> Inl (AccessRefused e)
      | Inr _ \<Rightarrow>
          (case resolver (ec_orgID ec) (withoutTeam ec name) of
             Inl e \<Rightarrow> Inl (ResolverFailed e)
           | Inr rc \<Rightarrow> Inr rc))"

text \<open>
  \<open>wrap\<close> makes an LLM client of the fallback client, \<open>outcome\<close> is the answer its \<open>UsedModel\<close> gives when the
  engine reads it after the call.
\<close>

definition ModelFallbackForward :: "(string list \<Rightarrow> string \<Rightarrow> string list option) \<Rightarrow> (exec_context \<Rightarrow> ('c, 'a) resolver)
    \<Rightarrow> ('c fallback_client \<Rightarrow> 'k) \<Rightarrow> ('c fallback_client \<Rightarrow> (string \<times> string) option) \<Rightarrow> pipeline_node \<Rightarrow> inputs
    \<Rightarrow> exec_context \<Rightarrow> ('a fallback_node_error, ('k, 't) forward_result) result" where
  "ModelFallbackForward dec res wrap outcome node ins ec =
     (case decodeNodeData dec [] node of
        Inl e \<Rightarrow> Inl (FallbackData e)
      | Inr models \<Rightarrow>
          (let candidates = fallback_candidates ins models in
           if candidates = [] then Inl (NoModelConfigured (node_id node))
           else
             (case res ec (hd candidates) of
                Inl e \<Rightarrow> Inl (PrimaryUnresolved (hd candidates) e)
              | Inr primary \<Rightarrow>
                  (let fb = \<lparr>fb_candidates = candidates, fb_resolved = [primary], fb_used = None\<rparr>
                   in Inr ((plain_result [''response'' \<mapsto> VString []])
                        \<lparr>fr_client := Some (wrap fb), fr_model := rc_realModel primary,
                         fr_modelID := rc_modelID primary, fr_outcome := Some (outcome fb)\<rparr>)))))"

section \<open>What the client holds\<close>

text \<open>The resolved candidates are the resolutions of the first candidates, the primary one included.\<close>

definition fallback_wf :: "('c, 'a) resolver \<Rightarrow> 'c fallback_client \<Rightarrow> bool" where
  "fallback_wf res fb \<longleftrightarrow>
     fb_resolved fb \<noteq> [] \<and> length (fb_resolved fb) \<le> length (fb_candidates fb) \<and>
     (\<forall>k < length (fb_resolved fb). res (fb_candidates fb ! k) = Inr (fb_resolved fb ! k))"

lemma fallback_wfI:
  "fallback_wf res fb \<Longrightarrow> length (fb_resolved fb) < length (fb_candidates fb) \<Longrightarrow>
   res (fb_candidates fb ! length (fb_resolved fb)) = Inr rc \<Longrightarrow> fallback_wf res (fb\<lparr>fb_resolved := fb_resolved fb @ [rc]\<rparr>)"
  by (auto simp: fallback_wf_def nth_append less_Suc_eq)

text \<open>
  A candidate whose predecessors all resolve is looked up in the list; past one that does not resolve, the
  lookup fails with the error of that one.
\<close>

lemma candidate_spec:
  assumes "fallback_wf res fb" "i < length (fb_candidates fb)" "candidate res fb i = (fb', r)"
  shows "fallback_wf res fb' \<and> fb_candidates fb' = fb_candidates fb \<and> fb_used fb' = fb_used fb \<and>
    (case find (\<lambda>k. isl (res (fb_candidates fb ! k))) [0..<Suc i] of
       None \<Rightarrow> \<exists>rc. r = Inr rc \<and> res (fb_candidates fb ! i) = Inr rc
     | Some k \<Rightarrow> \<exists>e. res (fb_candidates fb ! k) = Inl e \<and> r = Inl (ResolveFailed (fb_candidates fb ! k) e))"
  using assms
proof (induction res fb i arbitrary: fb' r rule: candidate.induct)
  case (1 res fb i)
  let ?n = "length (fb_resolved fb)" and ?cs = "fb_candidates fb"
  have ok: "\<not> isl (res (?cs ! k))" if "k < ?n" for k using that "1.prems"(1) by (auto simp: fallback_wf_def)
  show ?case
  proof (cases "?n \<le> i")
    case False
    then have "find (\<lambda>k. isl (res (?cs ! k))) [0..<Suc i] = None"
      using ok by (auto simp: find_None_iff)
    moreover have "res (?cs ! i) = Inr (fb_resolved fb ! i)"
      using False "1.prems"(1) by (simp add: fallback_wf_def)
    moreover have "fb' = fb" "r = Inr (fb_resolved fb ! i)"
      using "1.prems"(3) False by (auto simp: candidate.simps [of res fb i])
    ultimately show ?thesis using "1.prems"(1) by simp
  next
    case True
    then have lt: "?n < length ?cs" using "1.prems"(2) by simp
    show ?thesis
    proof (cases "res (?cs ! ?n)")
      case (Inl e)
      then have "find (\<lambda>k. isl (res (?cs ! k))) [0..<Suc i] = Some ?n"
        using True ok by (auto simp: find_Some_iff nth_append intro!: exI [of _ ?n])
      moreover have "fb' = fb" "r = Inl (ResolveFailed (?cs ! ?n) e)"
        using "1.prems"(3) True lt Inl by (auto simp: candidate.simps [of res fb i])
      ultimately show ?thesis using "1.prems"(1) Inl by simp
    next
      case (Inr rc)
      have "candidate res (fb\<lparr>fb_resolved := fb_resolved fb @ [rc]\<rparr>) i = (fb', r)"
        using "1.prems"(3) True lt Inr by (simp add: candidate.simps [of res fb i])
      then show ?thesis
        using "1.IH" [OF True lt refl Inr fallback_wfI [OF "1.prems"(1) lt Inr]] "1.prems"(2)
        by (simp split: option.splits)
    qed
  qed
qed

lemma ModelFallbackForward_wf:
  assumes "ModelFallbackForward dec res wrap outcome node ins ec = Inr r"
  shows "\<exists>fb. fr_client r = Some (wrap fb) \<and> fallback_wf (res ec) fb \<and> fr_model r = rc_realModel (hd (fb_resolved fb))"
proof -
  obtain models primary where m: "decodeNodeData dec [] node = Inr models" "fallback_candidates ins models \<noteq> []"
      "res ec (hd (fallback_candidates ins models)) = Inr primary"
    using assms by (auto simp: ModelFallbackForward_def Let_def split: sum.splits if_splits)
  let ?fb = "\<lparr>fb_candidates = fallback_candidates ins models, fb_resolved = [primary], fb_used = None\<rparr>"
  have "fr_client r = Some (wrap ?fb)" "fr_model r = rc_realModel primary"
    using assms m by (auto simp: ModelFallbackForward_def Let_def)
  moreover have "fallback_wf (res ec) ?fb"
    using m by (cases "fallback_candidates ins models") (auto simp: fallback_wf_def)
  ultimately show ?thesis by (intro exI [of _ ?fb]) simp
qed

section \<open>Which candidate answers\<close>

text \<open>
  The answer of a fallback chain, said without the client's state: the candidates are tried in order; the
  first one that does not resolve ends the search, as does a call that fails once the caller has gone.
\<close>

fun fallback_answer :: "('c, 'a) resolver \<Rightarrow> (nat \<Rightarrow> 'c \<Rightarrow> ('e, 'r) result) \<Rightarrow> (nat \<Rightarrow> bool) \<Rightarrow> nat
    \<Rightarrow> ('a, 'e) fallback_error option \<Rightarrow> string list
    \<Rightarrow> (('a, 'e) fallback_error, ('c resolved_candidate \<times> 'r) option) result" where
  "fallback_answer res call gone i lastErr [] = (case lastErr of None \<Rightarrow> Inr None | Some e \<Rightarrow> Inl e)"
| "fallback_answer res call gone i lastErr (name # names) =
     (case res name of
        Inl e \<Rightarrow> Inl (CandidateFailed (ResolveFailed name e))
      | Inr rc \<Rightarrow>
          (case call i (rc_client rc) of
             Inr r \<Rightarrow> Inr (Some (rc, r))
           | Inl e \<Rightarrow>
               if gone i then Inl (CallFailed e)
               else fallback_answer res call gone (Suc i) (Some (CallFailed e)) names))"

definition answered :: "'c fallback_client \<Rightarrow> 'c fallback_client \<times> (('a, 'e) fallback_error, 'r option) result
    \<Rightarrow> (('a, 'e) fallback_error, ('c resolved_candidate \<times> 'r) option) result \<Rightarrow> bool" where
  "answered fb out spec \<longleftrightarrow>
     (case spec of
        Inl e \<Rightarrow> snd out = Inl e \<and> fb_used (fst out) = fb_used fb
      | Inr None \<Rightarrow> snd out = Inr None \<and> fb_used (fst out) = fb_used fb
      | Inr (Some (rc, r)) \<Rightarrow> snd out = Inr (Some r) \<and> fb_used (fst out) = Some rc)"

lemma answered_cong: "fb_used fb' = fb_used fb \<Longrightarrow> answered fb' = answered fb"
  by (intro ext) (simp add: answered_def split: sum.split option.split)

lemma fallback_loop_stuck:
  assumes "fallback_wf res fb" "k < i" "res (fb_candidates fb ! k) = Inl e" "\<forall>j < k. \<not> isl (res (fb_candidates fb ! j))"
    "n = length (fb_candidates fb)" "i \<le> n"
  shows "fallback_wf res (fst (fallback_loop res call gone fb (Some (CandidateFailed (ResolveFailed (fb_candidates fb ! k) e))) [i..<n])) \<and>
    answered fb (fallback_loop res call gone fb (Some (CandidateFailed (ResolveFailed (fb_candidates fb ! k) e))) [i..<n])
      (Inl (CandidateFailed (ResolveFailed (fb_candidates fb ! k) e)))"
  using assms
proof (induction "n - i" arbitrary: i fb)
  case 0
  then show ?case by (simp add: answered_def)
next
  case (Suc d)
  then have lt: "i < n" by simp
  obtain fb' r where c: "candidate res fb i = (fb', r)" by (cases "candidate res fb i")
  have "find (\<lambda>k. isl (res (fb_candidates fb ! k))) [0..<Suc i] = Some k"
    using Suc.prems by (auto simp: find_Some_iff nth_append intro!: exI [of _ k])
  then have c': "fallback_wf res fb'" "fb_candidates fb' = fb_candidates fb" "fb_used fb' = fb_used fb"
      "r = Inl (ResolveFailed (fb_candidates fb ! k) e)"
    using candidate_spec [OF Suc.prems(1) _ c] lt Suc.prems(3,5) by auto
  have ih: "fallback_wf res (fst (fallback_loop res call gone fb' (Some (CandidateFailed (ResolveFailed (fb_candidates fb' ! k) e))) [Suc i..<n])) \<and>
    answered fb' (fallback_loop res call gone fb' (Some (CandidateFailed (ResolveFailed (fb_candidates fb' ! k) e))) [Suc i..<n])
      (Inl (CandidateFailed (ResolveFailed (fb_candidates fb' ! k) e)))"
    using Suc lt c' by (intro Suc.hyps(1)) auto
  have "fallback_loop res call gone fb (Some (CandidateFailed (ResolveFailed (fb_candidates fb ! k) e))) [i..<n] =
      fallback_loop res call gone fb' (Some (CandidateFailed (ResolveFailed (fb_candidates fb ! k) e))) [Suc i..<n]"
    using lt c c' by (simp add: upt_conv_Cons)
  with ih c' show ?case by (simp add: answered_def)
qed

lemma fallback_loop_answer:
  assumes "fallback_wf res fb" "\<forall>j < i. \<not> isl (res (fb_candidates fb ! j))" "n = length (fb_candidates fb)" "i \<le> n"
  shows "fallback_wf res (fst (fallback_loop res call gone fb lastErr [i..<n])) \<and>
    answered fb (fallback_loop res call gone fb lastErr [i..<n])
      (fallback_answer res call gone i lastErr (drop i (fb_candidates fb)))"
  using assms
proof (induction "n - i" arbitrary: i fb lastErr)
  case 0
  then show ?case by (auto simp: answered_def split: option.splits)
next
  case (Suc d)
  then have lt: "i < n" by simp
  let ?cs = "fb_candidates fb"
  obtain fb' r where c: "candidate res fb i = (fb', r)" by (cases "candidate res fb i")
  have drop: "drop i ?cs = ?cs ! i # drop (Suc i) ?cs" using lt Suc.prems(3) by (simp add: Cons_nth_drop_Suc)
  have spec: "fallback_wf res fb'" "fb_candidates fb' = ?cs" "fb_used fb' = fb_used fb"
    using candidate_spec [OF Suc.prems(1) _ c] lt Suc.prems(3) by auto
  have unfold: "[i..<n] = i # [Suc i..<n]" using lt by (simp add: upt_conv_Cons)
  show ?case
  proof (cases "res (?cs ! i)")
    case (Inl e)
    then have "find (\<lambda>k. isl (res (?cs ! k))) [0..<Suc i] = Some i"
      using Suc.prems(2) by (auto simp: find_Some_iff nth_append intro!: exI [of _ i])
    then have r: "r = Inl (ResolveFailed (?cs ! i) e)"
      using candidate_spec [OF Suc.prems(1) _ c] lt Suc.prems(3) Inl by auto
    show ?thesis
      using fallback_loop_stuck [OF spec(1), of i "Suc i" e n call gone] Inl Suc.prems(2,3) lt spec(2,3) c r
      by (simp add: upt_conv_Cons drop answered_def)
  next
    case (Inr rc)
    then have "find (\<lambda>k. isl (res (?cs ! k))) [0..<Suc i] = None"
      using Suc.prems(2) by (auto simp: find_None_iff less_Suc_eq)
    then have r: "r = Inr rc"
      using candidate_spec [OF Suc.prems(1) _ c] lt Suc.prems(3) Inr by auto
    have ih: "fallback_wf res (fst (fallback_loop res call gone fb' last [Suc i..<n])) \<and>
        answered fb' (fallback_loop res call gone fb' last [Suc i..<n])
          (fallback_answer res call gone (Suc i) last (drop (Suc i) (fb_candidates fb')))" for last
      using Suc spec Inr lt by (intro Suc.hyps(1)) (auto simp: less_Suc_eq)
    show ?thesis
    proof (cases "call i (rc_client rc)")
      case (Inl e)
      show ?thesis
        using ih [of "Some (CallFailed e)", unfolded answered_cong [OF spec(3)]] spec c r Inr Inl
        by (auto simp: unfold drop answered_def [of fb _ "Inl _"])
    next
      case r': (Inr x)
      show ?thesis
        using spec c r Inr r' by (simp add: unfold drop answered_def markUsed_def fallback_wf_def)
    qed
  qed
qed

lemma FallbackChatCompletion_answer:
  assumes "fallback_wf res fb"
  shows "fallback_wf res (fst (FallbackChatCompletion res call gone fb)) \<and>
    answered fb (FallbackChatCompletion res call gone fb) (fallback_answer res call gone 0 None (fb_candidates fb))"
  unfolding FallbackChatCompletion_def using fallback_loop_answer [OF assms _ refl, of 0] by simp

lemma fallback_answer_skip:
  "length ds = length names \<Longrightarrow> (\<And>k. k < length names \<Longrightarrow> res (names ! k) = Inr (ds ! k)) \<Longrightarrow>
   (\<And>k. k < length names \<Longrightarrow> isl (call (i + k) (rc_client (ds ! k))) \<and> \<not> gone (i + k)) \<Longrightarrow>
   \<exists>lastErr'. fallback_answer res call gone i lastErr (names @ rest) =
     fallback_answer res call gone (i + length names) lastErr' rest"
proof (induction names arbitrary: i ds lastErr)
  case Nil
  then show ?case by auto
next
  case (Cons name names)
  obtain d ds' where ds: "ds = d # ds'" using Cons.prems(1) by (cases ds) auto
  obtain e where e: "call i (rc_client d) = Inl e" and g: "\<not> gone i"
    using Cons.prems(3) [of 0] by (auto simp: ds isl_def)
  have "\<exists>lastErr'. fallback_answer res call gone (Suc i) (Some (CallFailed e)) (names @ rest) =
      fallback_answer res call gone (Suc i + length names) lastErr' rest"
    using Cons.prems(1) Cons.prems(2) [of "Suc k" for k] Cons.prems(3) [of "Suc k" for k]
    by (intro Cons.IH [of ds']) (auto simp: ds)
  then show ?case using Cons.prems(2) [of 0] e g by (simp add: ds)
qed

text \<open>
  Falling back works as long as candidates resolve: when the candidates up to the \<open>k\<close>-th resolve, the
  calls to those before it fail while the caller is still there and the call to the \<open>k\<close>-th succeeds, the
  client returns its answer and \<open>UsedModel\<close> reports that candidate, whatever was resolved or used by
  earlier calls.
\<close>

theorem fallback_first_success:
  assumes "fallback_wf res fb" and "k < length (fb_candidates fb)" and "length ds = Suc k"
    and "\<And>j. j \<le> k \<Longrightarrow> res (fb_candidates fb ! j) = Inr (ds ! j)"
    and "\<And>j. j < k \<Longrightarrow> isl (call j (rc_client (ds ! j))) \<and> \<not> gone j"
    and "call k (rc_client (ds ! k)) = Inr r"
  shows "snd (FallbackChatCompletion res call gone fb) = Inr (Some r) \<and>
    UsedModel (fst (FallbackChatCompletion res call gone fb)) = Some (rc_realModel (ds ! k), rc_modelID (ds ! k))"
proof -
  let ?cs = "fb_candidates fb"
  have split: "?cs = take k ?cs @ ?cs ! k # drop (Suc k) ?cs" using assms(2) by (rule id_take_nth_drop)
  obtain lastErr where "fallback_answer res call gone 0 None (take k ?cs @ ?cs ! k # drop (Suc k) ?cs) =
      fallback_answer res call gone k lastErr (?cs ! k # drop (Suc k) ?cs)"
    using fallback_answer_skip [of "take k ds" "take k ?cs" res call 0 gone None "?cs ! k # drop (Suc k) ?cs"] assms by auto
  then have "fallback_answer res call gone 0 None ?cs = Inr (Some (ds ! k, r))"
    using split assms(4) [of k] assms(6) by simp
  then show ?thesis
    using FallbackChatCompletion_answer [OF assms(1), of call gone] by (simp add: answered_def UsedModel_def)
qed

text \<open>
  A candidate that cannot be resolved hides all the candidates after it: when the \<open>k\<close>-th one does not
  resolve and the calls to those before it fail, the client reports the resolution failure and tries
  no later candidate, even one that would resolve and answer.
\<close>

theorem fallback_unresolvable_hides_rest:
  assumes "fallback_wf res fb" and "k < length (fb_candidates fb)" and "length ds = k"
    and "\<And>j. j < k \<Longrightarrow> res (fb_candidates fb ! j) = Inr (ds ! j)"
    and "\<And>j. j < k \<Longrightarrow> isl (call j (rc_client (ds ! j))) \<and> \<not> gone j"
    and "res (fb_candidates fb ! k) = Inl e"
  shows "snd (FallbackChatCompletion res call gone fb) = Inl (CandidateFailed (ResolveFailed (fb_candidates fb ! k) e)) \<and>
    UsedModel (fst (FallbackChatCompletion res call gone fb)) = UsedModel fb"
proof -
  let ?cs = "fb_candidates fb"
  have split: "?cs = take k ?cs @ ?cs ! k # drop (Suc k) ?cs" using assms(2) by (rule id_take_nth_drop)
  obtain lastErr where "fallback_answer res call gone 0 None (take k ?cs @ ?cs ! k # drop (Suc k) ?cs) =
      fallback_answer res call gone k lastErr (?cs ! k # drop (Suc k) ?cs)"
    using fallback_answer_skip [of ds "take k ?cs" res call 0 gone None "?cs ! k # drop (Suc k) ?cs"] assms by auto
  then have "fallback_answer res call gone 0 None ?cs = Inl (CandidateFailed (ResolveFailed (?cs ! k) e))"
    using split assms(6) by simp
  then show ?thesis
    using FallbackChatCompletion_answer [OF assms(1), of call gone] by (simp add: answered_def UsedModel_def)
qed

section \<open>Witnesses\<close>

text \<open>Three candidates: \<open>''a''\<close> fails, \<open>''b''\<close> does not resolve when \<open>bad\<close> holds, \<open>''c''\<close> answers.\<close>

definition demo_resolve :: "bool \<Rightarrow> (string, string) resolver" where
  "demo_resolve bad name =
     (if bad \<and> name = ''b'' then Inl ''unknown'' else Inr \<lparr>rc_client = name, rc_realModel = name, rc_modelID = name\<rparr>)"

definition demo_call :: "nat \<Rightarrow> string \<Rightarrow> (string, string) result" where
  "demo_call i c = (if c = ''c'' then Inr ''hello'' else Inl ''down'')"

definition demo_client :: "string fallback_client" where
  "demo_client =
     \<lparr>fb_candidates = [''a'', ''b'', ''c''],
      fb_resolved = [\<lparr>rc_client = ''a'', rc_realModel = ''a'', rc_modelID = ''a''\<rparr>], fb_used = None\<rparr>"

lemma demo_wf: "fallback_wf (demo_resolve bad) demo_client"
  by (simp add: fallback_wf_def demo_client_def demo_resolve_def)

theorem fallback_first_success_witness:
  "snd (FallbackChatCompletion (demo_resolve False) demo_call (\<lambda>_. False) demo_client) = Inr (Some ''hello'') \<and>
   UsedModel (fst (FallbackChatCompletion (demo_resolve False) demo_call (\<lambda>_. False) demo_client)) = Some (''c'', ''c'')"
proof -
  let ?ds = "map (\<lambda>n. \<lparr>rc_client = n, rc_realModel = n, rc_modelID = n\<rparr>) [''a'', ''b'', ''c'']"
  have "demo_resolve False (fb_candidates demo_client ! j) = Inr (?ds ! j)" if "j \<le> 2" for j
  proof -
    from that have "j = 0 \<or> j = 1 \<or> j = 2" by auto
    then show ?thesis by (auto simp: demo_client_def demo_resolve_def)
  qed
  moreover have "isl (demo_call j (rc_client (?ds ! j))) \<and> \<not> False" if "j < 2" for j
  proof -
    from that have "j = 0 \<or> j = 1" by auto
    then show ?thesis by (auto simp: demo_call_def)
  qed
  ultimately show ?thesis
    using fallback_first_success [OF demo_wf [of False], of 2 ?ds demo_call "\<lambda>_. False" "''hello''"]
    by (simp add: demo_client_def demo_call_def)
qed

theorem fallback_unresolvable_hides_rest_witness:
  "snd (FallbackChatCompletion (demo_resolve True) demo_call (\<lambda>_. False) demo_client) =
     Inl (CandidateFailed (ResolveFailed ''b'' ''unknown''))"
  using fallback_unresolvable_hides_rest [OF demo_wf [of True], of 1
      "[\<lparr>rc_client = ''a'', rc_realModel = ''a'', rc_modelID = ''a''\<rparr>]" demo_call "\<lambda>_. False" "''unknown''"]
  by (auto simp: demo_client_def demo_resolve_def demo_call_def)

end
