(* ===== verification/Model_Executor.thy ===== *)
theory Model_Executor
  imports Model_Access
begin

text \<open>
  The model node: \<open>src/internal/pipeline/model_executor.go\<close> and \<open>nodeBody\<close> of \<open>executor.go\<close>.  A model node
  resolves a real model, or recurses through the engine into the pipeline of a virtual model, of a
  personal virtual model or of the next middleware.  The recursion of the code is bounded by fuel;
  \<open>ModelForward_terminates\<close> shows that one more than the pending middlewares and the virtual models not
  visited yet is always enough.

  \<open>model_env\<close> gathers the collaborators: the access hook, the stores of personal and organization virtual
  models (\<open>None\<close> when nil; a lookup that fails or finds nothing answers \<open>None\<close>), the \<open>ModelResolver\<close>, the JSON
  payloads and \<open>pluginsdk.BodyMessages\<close>.
\<close>

section \<open>Collaborators\<close>

record virtual_model =
  vm_id :: string
  vm_orgID :: string
  vm_graph :: "pipeline_graph option"

record personal_vm =
  pvm_id :: string
  pvm_userID :: string
  pvm_graph :: "pipeline_graph option"

record ('c, 'e) model_env =
  me_access :: "(string \<Rightarrow> ('e, bool) result) option"
  me_personal :: "(string \<Rightarrow> string \<Rightarrow> personal_vm option) option"
  me_virtual :: "(string \<Rightarrow> string \<Rightarrow> virtual_model option) option"
  me_resolver :: "string \<Rightarrow> string \<Rightarrow> ('e, 'c \<times> string \<times> string) result"
  me_codec :: model_codec
  me_bodyMessages :: "string \<Rightarrow> string"

datatype 'e model_error =
    ExecutorError 'e
  | NoPipelineConfigured string
  | NestedFailed string "'e model_error forward_error"
  | NoTargetModel
  | NoModelName
  | ModelRefused "'e access_error"
  | InvalidModelName string
  | VirtualModelCycle string
  | ModelUnresolved string 'e
  | NoClientResolved string
  | OutOfFuel

section \<open>Operations\<close>

definition nodeBody :: "(string \<Rightarrow> string) \<Rightarrow> exec_context \<Rightarrow> inputs \<Rightarrow> string \<times> string" where
  "nodeBody bodyMessages ec ins =
     (case ins ''request'' of
        Some (VString b) \<Rightarrow>
          if b \<noteq> [] \<and> b \<noteq> ec_bodyJSON ec then (b, bodyMessages b) else (ec_bodyJSON ec, ec_bodyMessagesJSON ec)
      | _ \<Rightarrow> (ec_bodyJSON ec, ec_bodyMessagesJSON ec))"

definition nestedForwardResult :: "('c, 't) forward_execution \<Rightarrow> ('c, 't) forward_result" where
  "nestedForwardResult sub =
     (plain_result ((Map.empty(''response'' \<mapsto> VString [])) ++
        (if fe_messages sub \<noteq> [] then [''messages_json'' \<mapsto> VString (fe_messages sub)] else Map.empty)))
     \<lparr>fr_client := Some (fe_client sub), fr_model := fe_model sub, fr_modelID := fe_modelID sub,
      fr_nested := fe_executed sub\<rparr>"

definition isPassthroughNode :: "model_codec \<Rightarrow> pipeline_node \<Rightarrow> bool" where
  "isPassthroughNode mc node =
     (case node_data node of
        None \<Rightarrow> False
      | Some raw \<Rightarrow> (case mc_model mc raw of None \<Rightarrow> False | Some d \<Rightarrow> mo_passthrough d))"

definition resolveModelName :: "model_codec \<Rightarrow> pipeline_node \<Rightarrow> inputs \<Rightarrow> string option" where
  "resolveModelName mc node ins =
     (let static = (case node_data node of
                      None \<Rightarrow> None
                    | Some raw \<Rightarrow>
                        (case mc_model mc raw of
                           None \<Rightarrow> None
                         | Some d \<Rightarrow> if mo_proxyName d \<noteq> [] then Some (mo_proxyName d) else None))
      in case ins ''model_name'' of
           Some (VString s) \<Rightarrow> if s \<noteq> [] then Some s else static
         | _ \<Rightarrow> static)"

text \<open>\<open>run\<close> is the forward pass of the engine.\<close>

definition nested_run :: "(pipeline_graph \<Rightarrow> exec_context \<Rightarrow> ('e model_error forward_error, ('c, 't) forward_execution) result)
    \<Rightarrow> string \<Rightarrow> pipeline_graph \<Rightarrow> exec_context \<Rightarrow> ('e model_error, ('c, 't) forward_result) result" where
  "nested_run run name g ec =
     (case run g ec of Inl e \<Rightarrow> Inl (NestedFailed name e) | Inr sub \<Rightarrow> Inr (nestedForwardResult sub))"

text \<open>The last step of \<open>resolveByName\<close>: a real model, without the team segment of its name.\<close>

definition resolve_real :: "('c, 'e) model_env \<Rightarrow> exec_context \<Rightarrow> string \<Rightarrow> model_name
    \<Rightarrow> ('e model_error, ('c, 't) forward_result) result" where
  "resolve_real env ec proxyName name =
     (case me_resolver env (ec_orgID ec) (mn_string (OrgLevel name)) of
        Inl e \<Rightarrow> Inl (ModelUnresolved proxyName e)
      | Inr (client, realModel, modelID) \<Rightarrow>
          Inr ((plain_result [''response'' \<mapsto> VString []])
            \<lparr>fr_client := Some client, fr_model := realModel, fr_modelID := modelID\<rparr>))"

text \<open>The key of a personal virtual model in the set of visited models.\<close>

definition pvm_key :: "personal_vm \<Rightarrow> string" where
  "pvm_key pvm = ''~:'' @ pvm_id pvm"

definition find_personal :: "('c, 'e) model_env \<Rightarrow> exec_context \<Rightarrow> model_name \<Rightarrow> personal_vm option" where
  "find_personal env ec name =
     (case me_personal env of
        Some lookup \<Rightarrow> if Personal name \<and> ec_userID ec \<noteq> [] then lookup (ec_userID ec) (mn_local name) else None
      | None \<Rightarrow> None)"

definition find_virtual :: "('c, 'e) model_env \<Rightarrow> exec_context \<Rightarrow> model_name \<Rightarrow> virtual_model option" where
  "find_virtual env ec name =
     (case me_virtual env of
        Some lookup \<Rightarrow>
          if \<not> Personal name \<and> (mn_org name = [] \<or> mn_org name = ec_orgSlug ec \<or> ec_orgSlug ec = [])
          then lookup (ec_orgID ec) (mn_local name) else None
      | None \<Rightarrow> None)"

definition resolveByName :: "(pipeline_graph \<Rightarrow> exec_context \<Rightarrow> ('e model_error forward_error, ('c, 't) forward_execution) result)
    \<Rightarrow> ('c, 'e) model_env \<Rightarrow> string \<Rightarrow> exec_context \<Rightarrow> ('e model_error, ('c, 't) forward_result) result" where
  "resolveByName run env proxyName ec =
     (case checkModelAccess (me_access env) ec proxyName of
        Inl e \<Rightarrow> Inl (ModelRefused e)
      | Inr _ \<Rightarrow>
          (case ec_parseModelName ec proxyName of
             None \<Rightarrow> Inl (InvalidModelName proxyName)
           | Some name \<Rightarrow>
               (case find_personal env ec name of
                  Some pvm \<Rightarrow>
                    if pvm_key pvm \<in> ec_visitedVMs ec then Inl (VirtualModelCycle proxyName)
                    else (case pvm_graph pvm of
                            None \<Rightarrow> Inl (NoPipelineConfigured proxyName)
                          | Some g \<Rightarrow>
                              nested_run run proxyName g
                                ((checking_ec ec)\<lparr>ec_visitedVMs := insert (pvm_key pvm) (ec_visitedVMs ec),
                                    ec_secretScope := ''~:'' @ pvm_userID pvm, ec_forcePassthrough := False\<rparr>))
                | None \<Rightarrow>
                    (case find_virtual env ec name of
                       Some vm \<Rightarrow>
                         if vm_id vm \<in> ec_visitedVMs ec then Inl (VirtualModelCycle proxyName)
                         else (case vm_graph vm of
                                 None \<Rightarrow> Inl (NoPipelineConfigured proxyName)
                               | Some g \<Rightarrow>
                                   nested_run run proxyName g
                                     ((delegating (me_codec env) ec (Some g))
                                       \<lparr>ec_visitedVMs := insert (vm_id vm) (ec_visitedVMs ec),
                                        ec_secretScope := vm_orgID vm, ec_forcePassthrough := False\<rparr>))
                     | None \<Rightarrow> resolve_real env ec proxyName name))))"

definition model_executor :: "(pipeline_node \<Rightarrow> inputs \<Rightarrow> exec_context \<Rightarrow> ('e, ('c, 't) forward_result) result)
    \<Rightarrow> ('c, 't, 'e) executor" where
  "model_executor fwd = \<lparr>ex_forward = fwd, ex_backward = noopBackward, ex_modifies = Some (\<lambda>_. False)\<rparr>"

definition with_body :: "('c, 'e) model_env \<Rightarrow> exec_context \<Rightarrow> inputs \<Rightarrow> exec_context" where
  "with_body env ec ins =
     (case nodeBody (me_bodyMessages env) ec ins of
        (body, bodyMessages) \<Rightarrow> ec\<lparr>ec_bodyJSON := body, ec_bodyMessagesJSON := bodyMessages\<rparr>)"

definition model_node :: "(pipeline_graph \<Rightarrow> exec_context \<Rightarrow> ('e model_error forward_error, ('c, 't) forward_execution) result)
    \<Rightarrow> ('c, 'e) model_env \<Rightarrow> pipeline_node \<Rightarrow> inputs \<Rightarrow> exec_context
    \<Rightarrow> ('e model_error, ('c, 't) forward_result) result" where
  "model_node run env node ins ec0 =
     (let ec = with_body env ec0 ins in
      if isPassthroughNode (me_codec env) node \<or> ec_forcePassthrough ec then
        (case ec_pending ec of
           next # pending \<Rightarrow>
             (case mw_graph next of
                None \<Rightarrow> Inl (NoPipelineConfigured (mw_name next))
              | Some g \<Rightarrow>
                  nested_run run (mw_name next) g
                    ((delegating (me_codec env) ec (Some g))
                      \<lparr>ec_secretScope := mw_orgID next, ec_pending := pending\<rparr>))
         | [] \<Rightarrow>
             if ec_targetModelName ec = [] then Inl NoTargetModel
             else resolveByName run env (ec_targetModelName ec) ec)
      else
        (case resolveModelName (me_codec env) node ins of
           None \<Rightarrow> Inl NoModelName
         | Some proxyName \<Rightarrow> resolveByName run env proxyName ec))"

text \<open>The registry of the engine is \<open>reg\<close> with the model executor added.\<close>

fun ModelForward :: "nat \<Rightarrow> ('c, 'e) model_env \<Rightarrow> ('c, 't, 'e model_error) registry \<Rightarrow> pipeline_node \<Rightarrow> inputs
    \<Rightarrow> exec_context \<Rightarrow> ('e model_error, ('c, 't) forward_result) result" where
  "ModelForward 0 env reg node ins ec = Inl OutOfFuel"
| "ModelForward (Suc fuel) env reg node ins ec =
     model_node (RunForward (reg(NodeTypeModel \<mapsto> model_executor (ModelForward fuel env reg)))) env node ins ec"

definition ResolveClient :: "nat \<Rightarrow> ('c, 'e) model_env \<Rightarrow> ('c, 't, 'e model_error) registry \<Rightarrow> string \<Rightarrow> exec_context
    \<Rightarrow> ('e model_error, 'c \<times> string) result" where
  "ResolveClient fuel env reg proxyName ec =
     (case resolveByName (RunForward (reg(NodeTypeModel \<mapsto> model_executor (ModelForward fuel env reg)))) env proxyName ec of
        Inl e \<Rightarrow> Inl e
      | Inr res \<Rightarrow>
          (case fr_client res of None \<Rightarrow> Inl (NoClientResolved proxyName) | Some c \<Rightarrow> Inr (c, fr_model res)))"

end
