(* ===== verification/Model_Executor_Safety.thy ===== *)
theory Model_Executor_Safety
  imports Model_Executor Pipeline_Nodes_Safety
begin

text \<open>
  What the recursion of model nodes guarantees: it ends, every real model it reaches passed the access
  check of the context it was named in, and the messages and executed nodes of a nested pipeline are kept
  while the report of the model that answered is not.
\<close>

section \<open>The engine around a node\<close>

lemma run_nodes_error_node:
  "run_nodes reg g ec st order = Inl (NodeFailed x e) \<Longrightarrow>
   \<exists>node ex ins m. reg (node_type node) = Some ex \<and> ex_forward ex node ins (ec\<lparr>ec_messagesJSON := m\<rparr>) = Inl e"
proof (induction reg g ec st order rule: run_nodes.induct)
  case (2 reg g ec st nid rest)
  show ?case
  proof (cases "nodeByID g nid")
    case None
    with 2 show ?thesis by simp
  next
    case (Some node)
    let ?r = "\<lambda>ex. ex_forward ex node (ResolveInputs (fs_vc st) g (node_id node)) (ec\<lparr>ec_messagesJSON := fs_messages st\<rparr>)"
    obtain ex where ex: "reg (node_type node) = Some ex" using "2.prems" Some by (auto split: option.splits)
    show ?thesis
    proof (cases "?r ex")
      case (Inl e')
      then have "e' = e" using "2.prems" Some ex by simp
      with Inl ex show ?thesis by blast
    next
      case (Inr res)
      then have ok: "\<not> fr_rejected res" and none: "fr_client res = None"
        and run: "run_nodes reg g ec (after_node node res st) rest = Inl (NodeFailed x e)"
        using "2.prems" Some ex by (auto simp: Let_def split: if_splits option.splits)
      show ?thesis using "2.IH"(2) [OF Some ex Inr ok refl none run] .
    qed
  qed
qed simp

lemma run_nodes_client:
  "run_nodes reg g ec st order = Inr fe \<Longrightarrow>
   \<exists>node ex ins m res. reg (node_type node) = Some ex \<and> ex_forward ex node ins (ec\<lparr>ec_messagesJSON := m\<rparr>) = Inr res \<and>
     fr_client res \<noteq> None \<and> fe_model fe = fr_model res \<and> fe_modelID fe = fr_modelID res \<and> fe_outcome fe = fr_outcome res"
proof (induction reg g ec st order rule: run_nodes.induct)
  case (2 reg g ec st nid rest)
  show ?case
  proof (cases "nodeByID g nid")
    case None
    with 2 show ?thesis by simp
  next
    case (Some node)
    let ?r = "\<lambda>ex. ex_forward ex node (ResolveInputs (fs_vc st) g (node_id node)) (ec\<lparr>ec_messagesJSON := fs_messages st\<rparr>)"
    obtain ex res where ex: "reg (node_type node) = Some ex" and res: "?r ex = Inr res" and ok: "\<not> fr_rejected res"
      using "2.prems" Some by (auto split: option.splits sum.splits if_splits)
    show ?thesis
    proof (cases "fr_client res")
      case None
      then have "run_nodes reg g ec (after_node node res st) rest = Inr fe"
        using "2.prems" Some ex res ok by (simp add: Let_def)
      then show ?thesis using "2.IH"(2) [OF Some ex res ok refl None] by blast
    next
      case (Some c)
      then have "fe_model fe = fr_model res" "fe_modelID fe = fr_modelID res" "fe_outcome fe = fr_outcome res"
        using "2.prems" \<open>nodeByID g nid = Some node\<close> ex res ok by (auto simp: Let_def split: if_splits)
      with Some ex res show ?thesis by blast
    qed
  qed
qed simp

lemma RunForward_error_node:
  assumes "RunForward reg g ec = Inl (NodeFailed x e)"
  shows "\<exists>node ex ins m. reg (node_type node) = Some ex \<and> ex_forward ex node ins (ec\<lparr>ec_messagesJSON := m\<rparr>) = Inl e"
  using assms by (auto simp: RunForward_def dest!: run_nodes_error_node split: sum.splits option.splits)

lemma RunForward_client:
  assumes "RunForward reg g ec = Inr fe"
  shows "\<exists>node ex ins m res. reg (node_type node) = Some ex \<and> ex_forward ex node ins (ec\<lparr>ec_messagesJSON := m\<rparr>) = Inr res \<and>
     fr_client res \<noteq> None \<and> fe_model fe = fr_model res \<and> fe_modelID fe = fr_modelID res \<and> fe_outcome fe = fr_outcome res"
proof -
  obtain order st where "run_nodes reg g ec st order = Inr fe"
    using assms by (auto simp: RunForward_def split: sum.splits option.splits)
  then show ?thesis by (rule run_nodes_client)
qed

section \<open>Termination\<close>

fun fuel_out :: "'e model_error \<Rightarrow> bool" where
  "fuel_out OutOfFuel = True"
| "fuel_out (NestedFailed name (NodeFailed x e)) = fuel_out e"
| "fuel_out _ = False"

definition fuel_ok :: "('e model_error, 'r) result \<Rightarrow> bool" where
  "fuel_ok r \<longleftrightarrow> (\<forall>e. r = Inl e \<longrightarrow> \<not> fuel_out e)"

lemma fuel_ok_Inr [simp]: "fuel_ok (Inr r)"
  and fuel_ok_Inl [simp]: "fuel_ok (Inl e) \<longleftrightarrow> \<not> fuel_out e"
  by (auto simp: fuel_ok_def)

text \<open>What is left to recurse into: middlewares still to apply and virtual models not visited yet.\<close>

definition recursion_budget :: "string set \<Rightarrow> exec_context \<Rightarrow> nat" where
  "recursion_budget ids ec = length (ec_pending ec) + card (ids - ec_visitedVMs ec)"

definition known_ids :: "('c, 'e) model_env \<Rightarrow> string set \<Rightarrow> bool" where
  "known_ids env ids \<longleftrightarrow> finite ids \<and>
     (\<forall>lookup u n pvm. me_personal env = Some lookup \<longrightarrow> lookup u n = Some pvm \<longrightarrow> pvm_key pvm \<in> ids) \<and>
     (\<forall>lookup org n vm. me_virtual env = Some lookup \<longrightarrow> lookup org n = Some vm \<longrightarrow> vm_id vm \<in> ids)"

lemma nested_run_fuel:
  assumes "\<And>node ex ins m. reg (node_type node) = Some ex \<Longrightarrow> fuel_ok (ex_forward ex node ins (ec\<lparr>ec_messagesJSON := m\<rparr>))"
  shows "fuel_ok (nested_run (RunForward reg) name g ec)"
proof (cases "RunForward reg g ec")
  case (Inl err)
  then show ?thesis
  proof (cases err)
    case (NodeFailed x e)
    then show ?thesis
      using RunForward_error_node [of reg g ec x e] Inl assms by (auto simp: nested_run_def fuel_ok_def)
  qed (auto simp: nested_run_def)
qed (simp add: nested_run_def)

lemma budget_visit:
  assumes "finite ids" "k \<in> ids" "k \<notin> ec_visitedVMs ec"
  shows "card (ids - insert k (ec_visitedVMs ec)) < card (ids - ec_visitedVMs ec)"
  using assms by (intro psubset_card_mono) auto

lemma resolveByName_fuel:
  assumes "known_ids env ids"
    and "\<And>name g ec'. recursion_budget ids ec' < recursion_budget ids ec \<Longrightarrow> fuel_ok (nested_run run name g ec')"
  shows "fuel_ok (resolveByName run env p ec)"
proof -
  have fin: "finite ids" using assms(1) by (simp add: known_ids_def)
  have pvm: "pvm_key pvm \<in> ids" if "find_personal env ec n = Some pvm" for n pvm
    using assms(1) that by (auto simp: known_ids_def find_personal_def split: option.splits if_splits)
  have vm: "vm_id vm \<in> ids" if "find_virtual env ec n = Some vm" for n vm
    using assms(1) that by (auto simp: known_ids_def find_virtual_def split: option.splits if_splits)
  show ?thesis
    using budget_visit [OF fin pvm] budget_visit [OF fin vm]
    by (auto simp: resolveByName_def recursion_budget_def checking_ec_def delegating_def resolve_real_def
        intro!: assms(2) split: sum.splits option.splits prod.splits)
qed

lemma ModelForward_fuel:
  assumes "known_ids env ids"
    and others: "\<And>t ex node ins ec. t \<noteq> NodeTypeModel \<Longrightarrow> reg t = Some ex \<Longrightarrow> fuel_ok (ex_forward ex node ins ec)"
  shows "recursion_budget ids ec < fuel \<Longrightarrow> fuel_ok (ModelForward fuel env reg node ins ec)"
proof (induction fuel arbitrary: node ins ec)
  case (Suc fuel)
  let ?reg = "reg(NodeTypeModel \<mapsto> model_executor (ModelForward fuel env reg))"
  have nested: "fuel_ok (nested_run (RunForward ?reg) name g ec')" if "recursion_budget ids ec' < recursion_budget ids ec" for name g ec'
  proof (rule nested_run_fuel)
    fix node :: pipeline_node and ex ins m
    assume ex: "?reg (node_type node) = Some ex"
    have "recursion_budget ids (ec'\<lparr>ec_messagesJSON := m\<rparr>) < fuel"
      using that Suc.prems by (simp add: recursion_budget_def)
    then show "fuel_ok (ex_forward ex node ins (ec'\<lparr>ec_messagesJSON := m\<rparr>))"
      using ex Suc.IH others by (auto simp: model_executor_def split: if_splits)
  qed
  have body: "recursion_budget ids (with_body env ec ins) = recursion_budget ids ec"
      "ec_pending (with_body env ec ins) = ec_pending ec" "ec_visitedVMs (with_body env ec ins) = ec_visitedVMs ec"
    by (simp_all add: with_body_def recursion_budget_def split: prod.split)
  have by_name: "fuel_ok (resolveByName (RunForward ?reg) env p (with_body env ec ins))" for p
    by (rule resolveByName_fuel [OF assms(1)]) (simp add: body nested)
  have "fuel_ok (nested_run (RunForward ?reg) name g (with_body env ec ins\<lparr>ec_delegated := d, ec_secretScope := c, ec_pending := ps\<rparr>))"
    if "ec_pending ec = mw # ps" for name g d c ps mw
    using that by (intro nested) (simp add: recursion_budget_def body)
  with by_name show ?case
    by (auto simp: model_node_def Let_def delegating_def body split: list.splits option.splits)
qed simp

text \<open>
  C31.  Model nodes never recurse forever: with finitely many virtual models, one level of recursion per
  pending middleware and per virtual model not visited yet, plus one, is enough for the model node to
  end with a result or an error of its own, whatever the graphs and the other nodes are.
\<close>

theorem ModelForward_terminates:
  assumes "known_ids env ids"
    and "\<And>t ex node ins ec e. t \<noteq> NodeTypeModel \<Longrightarrow> reg t = Some ex \<Longrightarrow> ex_forward ex node ins ec = Inl e \<Longrightarrow> \<not> fuel_out e"
    and "length (ec_pending ec) + card (ids - ec_visitedVMs ec) < fuel"
  shows "(\<exists>res. ModelForward fuel env reg node ins ec = Inr res) \<or>
         (\<exists>e. ModelForward fuel env reg node ins ec = Inl e \<and> \<not> fuel_out e)"
proof -
  have "fuel_ok (ModelForward fuel env reg node ins ec)"
    using assms by (intro ModelForward_fuel [of env ids]) (auto simp: fuel_ok_def recursion_budget_def)
  then show ?thesis by (cases "ModelForward fuel env reg node ins ec") auto
qed

section \<open>Access\<close>

text \<open>The graphs that delegate their references: pending middlewares and virtual models of the organization.\<close>

definition delegating_graphs :: "('c, 'e) model_env \<Rightarrow> exec_context \<Rightarrow> pipeline_graph set" where
  "delegating_graphs env ec =
     {g. \<exists>mw \<in> set (ec_pending ec). mw_graph mw = Some g} \<union>
     {g. \<exists>lookup name vm. me_virtual env = Some lookup \<and> lookup (ec_orgID ec) name = Some vm \<and> vm_graph vm = Some g}"

text \<open>
  A context \<open>ec'\<close> met below \<open>ec\<close>: the same organization, team and user, no new middleware, and a delegation
  that is the one of \<open>ec\<close>, empty, or that of a delegating graph.
\<close>

definition descends :: "('c, 'e) model_env \<Rightarrow> exec_context \<Rightarrow> exec_context \<Rightarrow> bool" where
  "descends env ec ec' \<longleftrightarrow>
     ec_orgID ec' = ec_orgID ec \<and> ec_orgSlug ec' = ec_orgSlug ec \<and> ec_teamSlug ec' = ec_teamSlug ec \<and>
     set (ec_pending ec') \<subseteq> set (ec_pending ec) \<and>
     (ec_delegated ec' = ec_delegated ec \<or> ec_delegated ec' = {} \<or>
      (\<exists>g \<in> delegating_graphs env ec. ec_delegated ec' = refKey ec ` set (StaticModelRefs (me_codec env) (Some g))))"

lemma descends_refl: "descends env ec ec"
  by (simp add: descends_def)

lemma descends_trans:
  assumes "descends env a b" "descends env b c"
  shows "descends env a c"
proof -
  have "refKey b = refKey a" using assms(1) by (intro ext refKey_cong) (simp_all add: descends_def)
  moreover have "delegating_graphs env b \<subseteq> delegating_graphs env a"
    using assms(1) by (auto simp: descends_def delegating_graphs_def)
  ultimately show ?thesis using assms unfolding descends_def by (metis (no_types, lifting) order_trans subsetD)
qed

definition reaches :: "('c, 'e) model_env \<Rightarrow> exec_context \<Rightarrow> string \<Rightarrow> string \<Rightarrow> bool" where
  "reaches env ec realModel modelID \<longleftrightarrow>
     (\<exists>ec' name n c. descends env ec ec' \<and> checkModelAccess (me_access env) ec' name = Inr () \<and>
        ec_parseModelName ec' name = Some n \<and>
        me_resolver env (ec_orgID ec) (mn_string (OrgLevel n)) = Inr (c, realModel, modelID))"

lemma reaches_below: "descends env ec ec' \<Longrightarrow> reaches env ec' m i \<Longrightarrow> reaches env ec m i"
  unfolding reaches_def by (metis descends_def descends_trans)

lemma descends_messages [simp]: "descends env ec (ec\<lparr>ec_messagesJSON := m\<rparr>)"
  by (simp add: descends_def)

lemma descends_body: "descends env ec (with_body env ec ins)"
  by (simp add: descends_def with_body_def split: prod.split)

lemma nested_run_reaches:
  assumes run: "nested_run (RunForward reg) name g ec' = Inr res" and below: "descends env ec ec'"
    and nodes: "\<And>node ex ins m r. reg (node_type node) = Some ex \<Longrightarrow>
       ex_forward ex node ins (ec'\<lparr>ec_messagesJSON := m\<rparr>) = Inr r \<Longrightarrow> fr_client r \<noteq> None \<Longrightarrow>
       reaches env (ec'\<lparr>ec_messagesJSON := m\<rparr>) (fr_model r) (fr_modelID r)"
  shows "reaches env ec (fr_model res) (fr_modelID res)"
proof -
  obtain sub where sub: "RunForward reg g ec' = Inr sub" "res = nestedForwardResult sub"
    using run by (auto simp: nested_run_def split: sum.splits)
  obtain node ex ins m r where r: "reg (node_type node) = Some ex"
      "ex_forward ex node ins (ec'\<lparr>ec_messagesJSON := m\<rparr>) = Inr r" "fr_client r \<noteq> None"
      "fe_model sub = fr_model r" "fe_modelID sub = fr_modelID r"
    using RunForward_client [OF sub(1)] by blast
  have "reaches env (ec'\<lparr>ec_messagesJSON := m\<rparr>) (fr_model r) (fr_modelID r)" using nodes r by blast
  then have "reaches env ec' (fr_model r) (fr_modelID r)" by (rule reaches_below [OF descends_messages])
  then show ?thesis using reaches_below [OF below] r sub(2) by (simp add: nestedForwardResult_def)
qed

lemma descends_vm:
  assumes "me_virtual env = Some lookup" "lookup (ec_orgID ec) x = Some vm" "vm_graph vm = Some g"
  shows "descends env ec (delegating (me_codec env) ec (Some g)
     \<lparr>ec_visitedVMs := v, ec_secretScope := c, ec_forcePassthrough := False\<rparr>)"
  using assms by (auto simp: descends_def delegating_def delegating_graphs_def)

lemma descends_pvm: "descends env ec (checking_ec ec\<lparr>ec_visitedVMs := v, ec_secretScope := c, ec_forcePassthrough := False\<rparr>)"
  by (simp add: descends_def checking_ec_def)

lemma resolveByName_reaches:
  assumes res: "resolveByName run env p ec = Inr res"
    and nested: "\<And>name g ec'. descends env ec ec' \<Longrightarrow> nested_run run name g ec' = Inr res \<Longrightarrow> reaches env ec (fr_model res) (fr_modelID res)"
  shows "reaches env ec (fr_model res) (fr_modelID res)"
proof -
  obtain n where ok: "checkModelAccess (me_access env) ec p = Inr ()" "ec_parseModelName ec p = Some n"
    using res by (auto simp: resolveByName_def split: sum.splits option.splits)
  show ?thesis
  proof (cases "find_personal env ec n")
    case (Some pvm)
    then show ?thesis
      using res ok
      by (auto simp: resolveByName_def simp del: append.simps intro!: nested [OF descends_pvm] split: option.splits if_splits)
  next
    case no_pvm: None
    show ?thesis
    proof (cases "find_virtual env ec n")
      case (Some vm)
      then obtain lookup where "me_virtual env = Some lookup" "lookup (ec_orgID ec) (mn_local n) = Some vm"
        by (auto simp: find_virtual_def split: option.splits if_splits)
      then show ?thesis
        using res ok no_pvm Some
        by (auto simp: resolveByName_def intro: nested descends_vm split: option.splits if_splits)
    next
      case None
      then obtain c m i where "me_resolver env (ec_orgID ec) (mn_string (OrgLevel n)) = Inr (c, m, i)"
          "fr_model res = m" "fr_modelID res = i"
        using res ok no_pvm by (auto simp: resolveByName_def resolve_real_def split: sum.splits)
      with ok show ?thesis unfolding reaches_def using descends_refl by blast
    qed
  qed
qed

lemma ModelForward_reaches:
  assumes others: "\<And>t ex node ins ec r. t \<noteq> NodeTypeModel \<Longrightarrow> reg t = Some ex \<Longrightarrow> ex_forward ex node ins ec = Inr r \<Longrightarrow> fr_client r = None"
  shows "ModelForward fuel env reg node ins ec = Inr res \<Longrightarrow> reaches env ec (fr_model res) (fr_modelID res)"
proof (induction fuel arbitrary: node ins ec res)
  case (Suc fuel)
  let ?reg = "reg(NodeTypeModel \<mapsto> model_executor (ModelForward fuel env reg))" and ?ec = "with_body env ec ins"
  have nested: "reaches env a (fr_model res) (fr_modelID res)"
    if "nested_run (RunForward ?reg) name g ec' = Inr res" "descends env a ec'" for name g ec' a
  proof (rule nested_run_reaches [OF that])
    fix node :: pipeline_node and ex ins m r
    assume "?reg (node_type node) = Some ex" "ex_forward ex node ins (ec'\<lparr>ec_messagesJSON := m\<rparr>) = Inr r" "fr_client r \<noteq> None"
    then show "reaches env (ec'\<lparr>ec_messagesJSON := m\<rparr>) (fr_model r) (fr_modelID r)"
      using Suc.IH others by (auto simp: model_executor_def split: if_splits)
  qed
  have by_name: "reaches env ?ec (fr_model res) (fr_modelID res)" if "resolveByName (RunForward ?reg) env p ?ec = Inr res" for p
    using resolveByName_reaches [OF that] nested by blast
  have mw: "descends env ?ec (delegating (me_codec env) ?ec (Some g)\<lparr>ec_secretScope := c, ec_pending := ps\<rparr>)"
    if "ec_pending ?ec = mw # ps" "mw_graph mw = Some g" for mw ps g c
    using that by (auto simp: descends_def delegating_def delegating_graphs_def)
  have "reaches env ?ec (fr_model res) (fr_modelID res)"
    using Suc.prems by_name nested mw by (auto simp: model_node_def Let_def split: if_splits list.splits option.splits)
  then show ?case by (rule reaches_below [OF descends_body])
qed simp

text \<open>The name a model was reached by is one the request may use itself, or a delegated one.\<close>

lemma reaches_access:
  assumes "reaches env ec m i" "me_access env = Some canUse"
  shows "\<exists>name n c. ec_parseModelName ec name = Some n \<and> me_resolver env (ec_orgID ec) (mn_string (OrgLevel n)) = Inr (c, m, i) \<and>
    (canUse name = Inr True \<or> refKey ec name \<in> ec_delegated ec \<or>
     (\<exists>g \<in> delegating_graphs env ec. refKey ec name \<in> refKey ec ` set (StaticModelRefs (me_codec env) (Some g))))"
proof -
  obtain ec' name n c where d: "descends env ec ec'" and ok: "checkModelAccess (me_access env) ec' name = Inr ()"
      and n: "ec_parseModelName ec' name = Some n"
      and r: "me_resolver env (ec_orgID ec) (mn_string (OrgLevel n)) = Inr (c, m, i)"
    using assms(1) unfolding reaches_def by blast
  have key: "refKey ec' name = refKey ec name" using d by (intro refKey_cong) (simp_all add: descends_def)
  have "ec_parseModelName ec name = Some n" using n d by (simp add: ec_parseModelName_def descends_def)
  moreover have "canUse name = Inr True \<or> refKey ec name \<in> ec_delegated ec'"
    using ok key assms(2) by (auto simp: checkModelAccess_def split: if_splits sum.splits)
  ultimately show ?thesis using d r unfolding descends_def by blast
qed

text \<open>
  Every real model a model node reaches was checked: when the access hook is set and no other node of
  the registry hands out clients, the model that will serve the request was named, somewhere in the
  recursion, by a name the request may use itself, or by a name delegated already, or by a static
  reference of a pending middleware or of a virtual model of the request's organization.  Personal
  virtual models add nothing to what the request may reach.
\<close>

theorem ModelForward_access:
  assumes "ModelForward fuel env reg node ins ec = Inr res" and "me_access env = Some canUse"
    and "\<And>t ex node ins ec r. t \<noteq> NodeTypeModel \<Longrightarrow> reg t = Some ex \<Longrightarrow> ex_forward ex node ins ec = Inr r \<Longrightarrow> fr_client r = None"
  shows "\<exists>name n c. ec_parseModelName ec name = Some n \<and>
    me_resolver env (ec_orgID ec) (mn_string (OrgLevel n)) = Inr (c, fr_model res, fr_modelID res) \<and>
    (canUse name = Inr True \<or> refKey ec name \<in> ec_delegated ec \<or>
     (\<exists>g \<in> delegating_graphs env ec. refKey ec name \<in> refKey ec ` set (StaticModelRefs (me_codec env) (Some g))))"
  using ModelForward_reaches [of reg fuel env node ins ec res] assms by (intro reaches_access) blast+

section \<open>What a nested pipeline hands up\<close>

text \<open>
  Only the engine's own result carries the report of the model that answered: the result of a model node
  never does, even when the nested pipeline it ran ends in a fallback node that reports one.
\<close>

lemma nestedForwardResult_outcome: "fr_outcome (nestedForwardResult sub) = None"
  by (simp add: nestedForwardResult_def plain_result_def)

lemma resolveByName_outcome: "resolveByName run env p ec = Inr res \<Longrightarrow> fr_outcome res = None"
  by (auto simp: resolveByName_def nested_run_def nestedForwardResult_outcome resolve_real_def plain_result_def
      split: sum.splits option.splits if_splits)

text \<open>
  The report of the model that answered is lost at a virtual model: whatever a model node ran, its
  result carries no \<open>ModelOutcome\<close>, so a pipeline that ends at it runs its backward pass with the model
  resolved up front, even when a fallback inside the virtual model answered with another one.
\<close>

theorem ModelForward_outcome_lost:
  assumes "ModelForward fuel env reg node ins ec = Inr res"
  shows "fr_outcome res = None"
proof (cases fuel)
  case 0
  with assms show ?thesis by simp
next
  case (Suc n)
  then show ?thesis
    using assms resolveByName_outcome
    by (auto simp: model_node_def nested_run_def nestedForwardResult_outcome Let_def
        split: if_splits list.splits option.splits sum.splits)
qed

section \<open>A sample resolution\<close>

text \<open>Executors whose errors are their own, in the registry a model node recurses with.\<close>

definition lift_executor :: "('c, 't, 'e) executor \<Rightarrow> ('c, 't, 'e model_error) executor" where
  "lift_executor ex =
     \<lparr>ex_forward = (\<lambda>node ins ec. map_sum ExecutorError id (ex_forward ex node ins ec)),
      ex_backward = (\<lambda>i. map_sum ExecutorError id (ex_backward ex i)), ex_modifies = ex_modifies ex\<rparr>"

lemma lift_executor_fuel: "ex_forward (lift_executor ex) node ins ec = Inl e \<Longrightarrow> \<not> fuel_out e"
  by (cases "ex_forward ex node ins ec") (auto simp: lift_executor_def)

text \<open>
  The organization has the model \<open>''gpt''\<close>, which the request may not use itself, and the virtual model
  \<open>''smart''\<close> whose pipeline ends in it.
\<close>

definition smart_graph :: pipeline_graph where
  "smart_graph =
     \<lparr>g_nodes = [\<lparr>node_id = ''in'', node_type = NodeTypeGenerator, node_data = None\<rparr>,
                 \<lparr>node_id = ''llm'', node_type = NodeTypeModel, node_data = Some ''gpt''\<rparr>,
                 \<lparr>node_id = ''out'', node_type = NodeTypeSink, node_data = None\<rparr>],
      g_edges = [sample_edge ''e1'' ''in'' ''request'' ''llm'' ''request'',
                 sample_edge ''e2'' ''llm'' ''response'' ''out'' ''response'']\<rparr>"

definition smart_env :: "(string, node_error) model_env" where
  "smart_env =
     \<lparr>me_access = Some (\<lambda>name. Inr (name = ''smart'')), me_personal = None,
      me_virtual = Some (\<lambda>org name. if name = ''smart'' then Some \<lparr>vm_id = ''v1'', vm_orgID = ''o'', vm_graph = Some smart_graph\<rparr> else None),
      me_resolver = (\<lambda>org name. if name = ''gpt'' then Inr (''client'', ''gpt-real'', ''m1'') else Inl InvalidData),
      me_codec = delegation_codec, me_bodyMessages = (\<lambda>b. b)\<rparr>"

definition smart_registry :: "(string, string, node_error model_error) registry" where
  "smart_registry = map_option lift_executor \<circ> builtin_registry sample_env"

abbreviation smart_node :: pipeline_node where
  "smart_node \<equiv> \<lparr>node_id = ''m'', node_type = NodeTypeModel, node_data = Some ''smart''\<rparr>"

lemma smart_order: "topoSort smart_graph = Some [''in'', ''llm'', ''out''] \<and> validateGraph smart_graph = Inr ()"
  by code_simp

lemma smart_registry_fuel:
  "t \<noteq> NodeTypeModel \<Longrightarrow> smart_registry t = Some ex \<Longrightarrow> ex_forward ex node ins ec = Inl e \<Longrightarrow> \<not> fuel_out e"
  by (auto simp: smart_registry_def dest: lift_executor_fuel)

lemma builtin_no_client: "builtin_registry env t = Some ex \<Longrightarrow> ex_forward ex node ins ec = Inr r \<Longrightarrow> fr_client r = None"
  by (cases t)
     (auto simp: builtin_def GeneratorForward_def SinkForward_def NoteForward_def plain_result_def result_simps
       ValueForward_def ModelRefForward_def CompareForward_def compareText_def SelectForward_def MathForward_def
       SampleForward_def ContextForward_def BlockForward_def Let_def
       split: if_splits option.splits go_value.splits)

lemma smart_registry_no_client:
  "smart_registry t = Some ex \<Longrightarrow> ex_forward ex node ins ec = Inr r \<Longrightarrow> fr_client r = None"
  by (auto simp: smart_registry_def lift_executor_def map_sum_def split: sum.splits dest: builtin_no_client)

lemma smart_run:
  "(case ModelForward 2 smart_env smart_registry smart_node Map.empty delegation_context of
      Inl _ \<Rightarrow> None | Inr r \<Rightarrow> Some (fr_model r, fr_modelID r)) = Some (''gpt-real'', ''m1'')"
  by code_simp

lemma smart_known: "known_ids smart_env {''v1''}"
  by (auto simp: known_ids_def smart_env_def split: if_splits)

theorem ModelForward_terminates_witness:
  "(\<exists>res. ModelForward 2 smart_env smart_registry smart_node Map.empty delegation_context = Inr res) \<or>
   (\<exists>e. ModelForward 2 smart_env smart_registry smart_node Map.empty delegation_context = Inl e \<and> \<not> fuel_out e)"
proof (rule ModelForward_terminates [OF smart_known])
  show "t \<noteq> NodeTypeModel \<Longrightarrow> smart_registry t = Some ex \<Longrightarrow> ex_forward ex node ins ec = Inl e \<Longrightarrow> \<not> fuel_out e"
    for t ex node ins ec e by (rule smart_registry_fuel)
qed (simp add: delegation_context_def)

theorem ModelForward_access_witness:
  "\<exists>name n. ec_parseModelName delegation_context name = Some n \<and> mn_string (OrgLevel n) = ''gpt'' \<and>
     (name = ''smart'' \<or> (\<exists>g \<in> delegating_graphs smart_env delegation_context.
        refKey delegation_context name \<in> refKey delegation_context ` set (StaticModelRefs delegation_codec (Some g))))"
proof -
  obtain r where r: "ModelForward 2 smart_env smart_registry smart_node Map.empty delegation_context = Inr r"
      "fr_model r = ''gpt-real''" "fr_modelID r = ''m1''"
    using smart_run by (auto split: sum.splits)
  have a: "me_access smart_env = Some (\<lambda>name. Inr (name = ''smart''))" by (simp add: smart_env_def)
  have "\<exists>name n c. ec_parseModelName delegation_context name = Some n \<and>
    me_resolver smart_env (ec_orgID delegation_context) (mn_string (OrgLevel n)) = Inr (c, fr_model r, fr_modelID r) \<and>
    ((Inr (name = ''smart'') :: (node_error, bool) result) = Inr True \<or> refKey delegation_context name \<in> ec_delegated delegation_context \<or>
     (\<exists>g \<in> delegating_graphs smart_env delegation_context.
        refKey delegation_context name \<in> refKey delegation_context ` set (StaticModelRefs (me_codec smart_env) (Some g))))"
    by (rule ModelForward_access [OF r(1) a]) (rule smart_registry_no_client)
  then obtain name n c where n: "ec_parseModelName delegation_context name = Some n"
      and c: "me_resolver smart_env (ec_orgID delegation_context) (mn_string (OrgLevel n)) = Inr (c, fr_model r, fr_modelID r)"
      and g: "(Inr (name = ''smart'') :: (node_error, bool) result) = Inr True \<or> refKey delegation_context name \<in> ec_delegated delegation_context \<or>
        (\<exists>g \<in> delegating_graphs smart_env delegation_context.
          refKey delegation_context name \<in> refKey delegation_context ` set (StaticModelRefs (me_codec smart_env) (Some g)))"
    by blast
  have "mn_string (OrgLevel n) = ''gpt''" using c by (simp add: smart_env_def split: if_splits)
  moreover have "ec_delegated delegation_context = {}" "me_codec smart_env = delegation_codec"
    by (simp_all add: delegation_context_def smart_env_def)
  ultimately show ?thesis using n g by (intro exI [of _ name] exI [of _ n]) auto
qed

theorem ModelForward_outcome_lost_witness:
  "\<exists>r. ModelForward 2 smart_env smart_registry smart_node Map.empty delegation_context = Inr r \<and> fr_outcome r = None"
proof -
  obtain r where r: "ModelForward 2 smart_env smart_registry smart_node Map.empty delegation_context = Inr r"
    using smart_run by (auto split: sum.splits)
  with ModelForward_outcome_lost [OF r] show ?thesis by blast
qed

end
