(* ===== verification/Quota.thy ===== *)
theory Quota
  imports Xolo_Prelude "HOL-Library.Signed_Division" "HOL-Library.Multiset"
begin

text \<open>
  Budgets: the data of \<open>src/internal/core/model/quota.go\<close> and \<open>team.go\<close>, the resolution of the budgets that
  apply to a request (\<open>src/internal/core/service/quota.go\<close>), the cascade checks between levels
  (\<open>src/internal/core/service/team.go\<close>), and the table that stores quotas
  (\<open>src/internal/adapter/gorm/quota_store.go\<close>).

  Budgets are \<open>int64\<close> values kept as integers, with \<open>None\<close> for a nil pointer; sums wrap around as \<open>int64\<close>
  additions do, and \<open>/\<close> truncates towards zero.
\<close>

section \<open>64-bit arithmetic\<close>

definition wrap64 :: "int \<Rightarrow> int" where
  "wrap64 x = (x + 2 ^ 63) mod 2 ^ 64 - 2 ^ 63"

lemma wrap64_add: "wrap64 (wrap64 a + b) = wrap64 (a + b)"
  by (simp add: wrap64_def) (metis (no_types, opaque_lifting) add.assoc add.commute mod_add_left_eq)

lemma wrap64_id: "- (2 ^ 63) \<le> x \<Longrightarrow> x < 2 ^ 63 \<Longrightarrow> wrap64 x = x"
  by (simp add: wrap64_def)

lemma sdiv_pos: "0 \<le> a \<Longrightarrow> 0 < b \<Longrightarrow> (a :: int) sdiv b = a div b"
  by (simp add: signed_divide_int_def sgn_if)

section \<open>Quotas\<close>

datatype quota_scope = QuotaScopeOrg | QuotaScopeUser | QuotaScopeApplication | QuotaScopeTeam | QuotaScopeTeamMember

datatype quota_cascade = CascadeEmpty | CascadeFree | CascadeCapped | CascadeSplit | CascadeOther string

definition cascade_Valid :: "quota_cascade \<Rightarrow> bool" where
  "cascade_Valid c = (c \<in> {CascadeEmpty, CascadeFree, CascadeCapped, CascadeSplit})"

definition cascade_Normalize :: "quota_cascade \<Rightarrow> quota_cascade" where
  "cascade_Normalize c = (if c = CascadeEmpty then CascadeFree else c)"

definition HasChildren :: "quota_scope \<Rightarrow> bool" where
  "HasChildren s = (s = QuotaScopeOrg \<or> s = QuotaScopeTeam)"

record quota =
  q_id :: string
  q_scope :: quota_scope
  q_scopeID :: string
  q_currency :: string
  q_daily :: "int option"
  q_monthly :: "int option"
  q_yearly :: "int option"
  q_cascade :: quota_cascade

text \<open>The accessor \<open>Cascade\<close> normalizes the stored value.\<close>

definition Cascade :: "quota \<Rightarrow> quota_cascade" where
  "Cascade q = cascade_Normalize (q_cascade q)"

definition TeamMemberScopeID :: "string \<Rightarrow> string \<Rightarrow> string" where
  "TeamMemberScopeID teamID userID = teamID @ '':'' @ userID"

definition ParseTeamMemberScopeID :: "string \<Rightarrow> (string \<times> string) option" where
  "ParseTeamMemberScopeID scopeID =
     (case str_cut (CHR '':'') scopeID of
        None \<Rightarrow> None
      | Some (team, user) \<Rightarrow> if team = [] \<or> user = [] then None else Some (team, user))"

lemma ParseTeamMemberScopeID_roundtrip:
  "team \<noteq> [] \<Longrightarrow> user \<noteq> [] \<Longrightarrow> CHR '':'' \<notin> set team \<Longrightarrow>
   ParseTeamMemberScopeID (TeamMemberScopeID team user) = Some (team, user)"
  using str_cut_Some [of "CHR '':''" "team @ '':'' @ user" team user]
  by (simp add: ParseTeamMemberScopeID_def TeamMemberScopeID_def)

section \<open>Stores\<close>

record team =
  t_id :: string
  t_orgID :: string
  t_shareQuotaEqually :: bool

record team_member =
  tm_userID :: string
  tm_active :: bool

text \<open>\<open>NotFound\<close> is \<open>port.ErrNotFound\<close>, which callers tell apart from other failures.\<close>

datatype 'e store_error = NotFound | StoreFailed 'e

record 'e quota_reader =
  qr_getQuota :: "quota_scope \<Rightarrow> string \<Rightarrow> ('e store_error, quota) result"
  qr_listQuotas :: "quota_scope \<Rightarrow> string list \<Rightarrow> ('e store_error, quota list) result"
  qr_getTeam :: "string \<Rightarrow> ('e store_error, team) result"
  qr_orgTeams :: "string \<Rightarrow> ('e store_error, team list) result"
  qr_teamMembers :: "string \<Rightarrow> ('e store_error, team_member list) result"

definition getOptionalQuota :: "'e quota_reader \<Rightarrow> quota_scope \<Rightarrow> string \<Rightarrow> ('e store_error, quota option) result" where
  "getOptionalQuota r scope scopeID =
     (case qr_getQuota r scope scopeID of
        Inl NotFound \<Rightarrow> Inr None
      | Inl e \<Rightarrow> Inl e
      | Inr q \<Rightarrow> Inr (Some q))"

section \<open>Cascades\<close>

datatype period = Daily | Monthly | Yearly

fun period_budget :: "period \<Rightarrow> quota \<Rightarrow> int option" where
  "period_budget Daily q = q_daily q"
| "period_budget Monthly q = q_monthly q"
| "period_budget Yearly q = q_yearly q"

definition cascadePeriods :: "period list" where
  "cascadePeriods = [Daily, Monthly, Yearly]"

record cascade_violation =
  cv_mode :: quota_cascade
  cv_period :: period
  cv_parent :: quota_scope
  cv_child :: "(quota_scope \<times> string) option"
  cv_limit :: int
  cv_got :: int

text \<open>The inner loop of \<open>checkCascade\<close>: the total of the children, or the child above a capped parent.\<close>

fun cascade_total :: "period \<Rightarrow> quota \<Rightarrow> int \<Rightarrow> int \<Rightarrow> (quota_scope \<times> string \<times> quota) list \<Rightarrow> (cascade_violation, int) result" where
  "cascade_total per parent limit tot [] = Inr tot"
| "cascade_total per parent limit tot ((scope, scopeID, q) # children) =
     (case period_budget per q of
        None \<Rightarrow> cascade_total per parent limit tot children
      | Some budget \<Rightarrow>
          if Cascade parent = CascadeCapped \<and> budget > limit
          then Inl \<lparr>cv_mode = CascadeCapped, cv_period = per, cv_parent = q_scope parent,
                    cv_child = Some (scope, scopeID), cv_limit = limit, cv_got = budget\<rparr>
          else cascade_total per parent limit (wrap64 (tot + budget)) children)"

fun check_periods :: "quota \<Rightarrow> (quota_scope \<times> string \<times> quota) list \<Rightarrow> period list \<Rightarrow> (cascade_violation, unit) result" where
  "check_periods parent children [] = Inr ()"
| "check_periods parent children (per # periods) =
     (case period_budget per parent of
        None \<Rightarrow> check_periods parent children periods
      | Some limit \<Rightarrow>
          rbind (cascade_total per parent limit 0 children) (\<lambda>tot.
            if Cascade parent = CascadeSplit \<and> tot > limit
            then Inl \<lparr>cv_mode = CascadeSplit, cv_period = per, cv_parent = q_scope parent,
                      cv_child = None, cv_limit = limit, cv_got = tot\<rparr>
            else check_periods parent children periods))"

definition checkCascade :: "quota \<Rightarrow> (quota_scope \<times> string \<times> quota) list \<Rightarrow> (cascade_violation, unit) result" where
  "checkCascade parent children = check_periods parent children cascadePeriods"

datatype 'e cascade_error = CascadeStore "'e store_error" | InvalidMemberScope string | Violation cascade_violation

fun lift_store :: "('e store_error, 'a) result \<Rightarrow> ('e cascade_error, 'a) result" where
  "lift_store (Inl e) = Inl (CascadeStore e)"
| "lift_store (Inr a) = Inr a"

fun lift_violation :: "(cascade_violation, unit) result \<Rightarrow> ('e cascade_error, unit) result" where
  "lift_violation (Inl v) = Inl (Violation v)"
| "lift_violation (Inr u) = Inr u"

definition cascadeChildren :: "'e quota_reader \<Rightarrow> quota_scope \<Rightarrow> string
    \<Rightarrow> ('e cascade_error, (quota_scope \<times> string \<times> quota) list) result" where
  "cascadeChildren r scope scopeID =
     (let finish = (\<lambda>childScope ids.
            rbind (lift_store (qr_listQuotas r childScope ids)) (\<lambda>quotas.
              Inr (map (\<lambda>q. (childScope, q_scopeID q, q)) quotas)))
      in case scope of
           QuotaScopeOrg \<Rightarrow>
             rbind (lift_store (qr_orgTeams r scopeID)) (\<lambda>teams. finish QuotaScopeTeam (map t_id teams))
         | QuotaScopeTeam \<Rightarrow>
             rbind (lift_store (qr_teamMembers r scopeID)) (\<lambda>members.
               finish QuotaScopeTeamMember (map (\<lambda>m. TeamMemberScopeID scopeID (tm_userID m)) members))
         | _ \<Rightarrow> Inr [])"

definition cascade_parent_key :: "'e quota_reader \<Rightarrow> quota \<Rightarrow> ('e cascade_error, (quota_scope \<times> string) option) result" where
  "cascade_parent_key r quota =
     (case q_scope quota of
        QuotaScopeTeam \<Rightarrow>
          rbind (lift_store (qr_getTeam r (q_scopeID quota))) (\<lambda>team. Inr (Some (QuotaScopeOrg, t_orgID team)))
      | QuotaScopeTeamMember \<Rightarrow>
          (case ParseTeamMemberScopeID (q_scopeID quota) of
             None \<Rightarrow> Inl (InvalidMemberScope (q_scopeID quota))
           | Some (teamID, _) \<Rightarrow> Inr (Some (QuotaScopeTeam, teamID)))
      | _ \<Rightarrow> Inr None)"

definition cascadeParent :: "'e quota_reader \<Rightarrow> quota
    \<Rightarrow> ('e cascade_error, (quota \<times> (quota_scope \<times> string \<times> quota) list) option) result" where
  "cascadeParent r quota =
     rbind (cascade_parent_key r quota) (\<lambda>key.
       (case key of
          None \<Rightarrow> Inr None
        | Some (scope, scopeID) \<Rightarrow>
            rbind (lift_store (getOptionalQuota r scope scopeID)) (\<lambda>parent.
              (case parent of
                 None \<Rightarrow> Inr None
               | Some p \<Rightarrow> rbind (cascadeChildren r scope scopeID) (\<lambda>siblings. Inr (Some (p, siblings)))))))"

definition CheckQuotaCascade :: "'e quota_reader \<Rightarrow> quota \<Rightarrow> ('e cascade_error, unit) result" where
  "CheckQuotaCascade r quota =
     rbind (cascadeParent r quota) (\<lambda>parent.
       rbind (case parent of
                None \<Rightarrow> Inr ()
              | Some (p, siblings) \<Rightarrow>
                  if Cascade p \<noteq> CascadeFree
                  then lift_violation (checkCascade p
                         (filter (\<lambda>(_, scopeID, _). scopeID \<noteq> q_scopeID quota) siblings @
                          [(q_scope quota, q_scopeID quota, quota)]))
                  else Inr ()) (\<lambda>_.
         if \<not> HasChildren (q_scope quota) \<or> Cascade quota = CascadeFree then Inr ()
         else rbind (cascadeChildren r (q_scope quota) (q_scopeID quota)) (\<lambda>children.
                lift_violation (checkCascade quota children))))"

end
