(* ===== verification/Quota_Cascade.thy ===== *)
theory Quota_Cascade
  imports Quota "HOL-Library.List_Lexorder" "HOL-Library.Char_ord"
begin

text \<open>
  The table of quotas (\<open>src/internal/adapter/gorm/quota_store.go\<close>), its contract as a locale, and what the
  cascade checks guarantee: the meaning of \<open>checkCascade\<close>, and that a table whose budgets respect the
  cascades keeps doing so when every save goes through \<open>CheckQuotaCascade\<close>.
\<close>

section \<open>The quota table\<close>

text \<open>
  The rows, at most one per scope and scope id: \<open>SetQuota\<close> is an upsert on that pair that keeps the
  identifier of the row it replaces.
\<close>

type_synonym quota_rows = "quota list"

abbreviation has_key :: "quota_scope \<Rightarrow> string \<Rightarrow> quota \<Rightarrow> bool" where
  "has_key scope scopeID q \<equiv> q_scope q = scope \<and> q_scopeID q = scopeID"

definition GetQuota :: "quota_rows \<Rightarrow> quota_scope \<Rightarrow> string \<Rightarrow> quota option" where
  "GetQuota rows scope scopeID = find (has_key scope scopeID) rows"

fun SetQuota :: "quota \<Rightarrow> quota_rows \<Rightarrow> quota_rows" where
  "SetQuota q [] = [q]"
| "SetQuota q (r # rows) =
     (if has_key (q_scope q) (q_scopeID q) r then q\<lparr>q_id := q_id r\<rparr> # rows else r # SetQuota q rows)"

definition ListQuotas :: "quota_rows \<Rightarrow> quota_scope \<Rightarrow> string list \<Rightarrow> quota list" where
  "ListQuotas rows scope scopeIDs =
     (if scopeIDs = [] then []
      else sort_key q_scopeID (filter (\<lambda>q. q_scope q = scope \<and> q_scopeID q \<in> set scopeIDs) rows))"

definition DeleteQuota :: "string \<Rightarrow> quota_rows \<Rightarrow> (unit store_error, quota_rows) result" where
  "DeleteQuota ident rows =
     (if list_ex (\<lambda>q. q_id q = ident) rows then Inr (filter (\<lambda>q. q_id q \<noteq> ident) rows) else Inl NotFound)"

definition GetQuotaByID :: "string \<Rightarrow> quota_rows \<Rightarrow> (unit store_error, quota) result" where
  "GetQuotaByID ident rows = (case find (\<lambda>q. q_id q = ident) rows of None \<Rightarrow> Inl NotFound | Some q \<Rightarrow> Inr q)"

text \<open>The unique index of the table.\<close>

definition rows_unique :: "quota_rows \<Rightarrow> bool" where
  "rows_unique rows \<longleftrightarrow> distinct (map (\<lambda>q. (q_scope q, q_scopeID q)) rows)"

section \<open>What the cascade check decides\<close>

definition budget_or_0 :: "period \<Rightarrow> quota \<Rightarrow> int" where
  "budget_or_0 per q = (case period_budget per q of None \<Rightarrow> 0 | Some b \<Rightarrow> b)"

definition cascade_holds :: "quota \<Rightarrow> quota list \<Rightarrow> bool" where
  "cascade_holds parent qs \<longleftrightarrow>
     (\<forall>per limit. period_budget per parent = Some limit \<longrightarrow>
        (Cascade parent = CascadeCapped \<longrightarrow> (\<forall>q \<in> set qs. \<forall>b. period_budget per q = Some b \<longrightarrow> b \<le> limit)) \<and>
        (Cascade parent = CascadeSplit \<longrightarrow> wrap64 (\<Sum>q\<leftarrow>qs. budget_or_0 per q) \<le> limit))"

lemma cascade_total_spec:
  "wrap64 acc = acc \<Longrightarrow>
   cascade_total per parent limit acc cs = Inr t \<longleftrightarrow>
     (Cascade parent = CascadeCapped \<longrightarrow> (\<forall>(sc, i, q) \<in> set cs. \<forall>b. period_budget per q = Some b \<longrightarrow> b \<le> limit)) \<and>
     t = wrap64 (acc + (\<Sum>(sc, i, q)\<leftarrow>cs. budget_or_0 per q))"
proof (induction cs arbitrary: acc)
  case Nil
  then show ?case by auto
next
  case (Cons c cs)
  obtain sc i q where c: "c = (sc, i, q)" by (cases c)
  have w: "wrap64 (wrap64 x) = wrap64 x" for x using wrap64_add [of x 0] by simp
  show ?case
  proof (cases "period_budget per q")
    case None
    then show ?thesis using Cons by (simp add: c budget_or_0_def)
  next
    case (Some b)
    then show ?thesis
      using Cons.IH [OF w, of "acc + b"] by (auto simp: c budget_or_0_def wrap64_add add.assoc)
  qed
qed

lemma all_periods: "(\<forall>per. P per) \<longleftrightarrow> P Daily \<and> P Monthly \<and> P Yearly"
  by (metis period.exhaust)

lemma check_period_cons:
  "check_periods parent cs (per # periods) = Inr () \<longleftrightarrow>
     (\<forall>limit. period_budget per parent = Some limit \<longrightarrow>
        (Cascade parent = CascadeCapped \<longrightarrow> (\<forall>(sc, i, q) \<in> set cs. \<forall>b. period_budget per q = Some b \<longrightarrow> b \<le> limit)) \<and>
        (Cascade parent = CascadeSplit \<longrightarrow> wrap64 (\<Sum>(sc, i, q)\<leftarrow>cs. budget_or_0 per q) \<le> limit)) \<and>
     check_periods parent cs periods = Inr ()"
proof -
  have "wrap64 0 = 0" by (simp add: wrap64_def)
  from cascade_total_spec [OF this] show ?thesis
    by (cases "period_budget per parent") (auto simp: result_simps)
qed

lemma checkCascade_holds:
  "checkCascade parent cs = Inr () \<longleftrightarrow> cascade_holds parent (map (snd \<circ> snd) cs)"
proof -
  have sum: "(\<Sum>(sc, i, q)\<leftarrow>cs. budget_or_0 per q) = (\<Sum>q\<leftarrow>map (snd \<circ> snd) cs. budget_or_0 per q)" for per
    by (induction cs) auto
  have all: "(\<forall>(sc, i, q) \<in> set cs. P q) \<longleftrightarrow> (\<forall>q \<in> set (map (snd \<circ> snd) cs). P q)" for P
    by (auto simp: case_prod_beta)
  show ?thesis
    unfolding checkCascade_def cascadePeriods_def check_period_cons sum all cascade_holds_def all_periods by simp
qed

lemma cascade_holds_mset: "mset qs = mset qs' \<Longrightarrow> cascade_holds parent qs = cascade_holds parent qs'"
proof -
  assume eq: "mset qs = mset qs'"
  then have "set qs = set qs'" by (rule mset_eq_setD)
  moreover have "(\<Sum>q\<leftarrow>qs. budget_or_0 per q) = (\<Sum>q\<leftarrow>qs'. budget_or_0 per q)" for per
    using eq by (metis mset_map sum_mset_sum_list)
  ultimately show ?thesis by (simp add: cascade_holds_def)
qed

section \<open>The contract of the table\<close>

definition lookup_all :: "(string \<Rightarrow> quota option) \<Rightarrow> string list \<Rightarrow> quota list" where
  "lookup_all f ids = concat (map (\<lambda>i. case f i of None \<Rightarrow> [] | Some q \<Rightarrow> [q]) ids)"

lemma lookup_all_append: "lookup_all f (xs @ ys) = lookup_all f xs @ lookup_all f ys"
  by (simp add: lookup_all_def)

lemma lookup_all_Cons: "lookup_all f (x # xs) = lookup_all f [x] @ lookup_all f xs"
  by (simp add: lookup_all_def)

lemma lookup_all_cong: "(\<And>x. x \<in> set xs \<Longrightarrow> f x = g x) \<Longrightarrow> lookup_all f xs = lookup_all g xs"
  by (simp add: lookup_all_def cong: map_cong)

text \<open>
  What clients rely on: a quota saved is the one read back on its scope, other scopes keep theirs, and a
  listing holds the quotas of the ids asked for, once each.
\<close>

locale quota_table =
  fixes valid :: "'s \<Rightarrow> bool"
    and get :: "'s \<Rightarrow> quota_scope \<Rightarrow> string \<Rightarrow> quota option"
    and put :: "quota \<Rightarrow> 's \<Rightarrow> 's"
    and list_of :: "'s \<Rightarrow> quota_scope \<Rightarrow> string list \<Rightarrow> quota list"
  assumes valid_put: "valid s \<Longrightarrow> valid (put q s)"
    and get_put: "get (put q s) scope scopeID =
      (if has_key scope scopeID q
       then Some (q\<lparr>q_id := (case get s scope scopeID of None \<Rightarrow> q_id q | Some r \<Rightarrow> q_id r)\<rparr>)
       else get s scope scopeID)"
    and get_key: "get s scope scopeID = Some q \<Longrightarrow> has_key scope scopeID q"
    and list_get: "valid s \<Longrightarrow> distinct ids \<Longrightarrow> mset (list_of s scope ids) = mset (lookup_all (get s scope) ids)"
begin

lemma list_put_other:
  assumes "valid s" "distinct ids" "scope \<noteq> q_scope q \<or> q_scopeID q \<notin> set ids"
  shows "mset (list_of (put q s) scope ids) = mset (list_of s scope ids)"
proof -
  have "lookup_all (get (put q s) scope) ids = lookup_all (get s scope) ids"
    using assms(3) by (intro lookup_all_cong) (auto simp: get_put)
  then show ?thesis using assms by (simp add: list_get valid_put)
qed

lemma list_put_child:
  assumes "valid s" "distinct ids" "q_scopeID q \<in> set ids"
  shows "\<exists>i. mset (list_of (put q s) (q_scope q) ids) =
    mset (filter (\<lambda>r. q_scopeID r \<noteq> q_scopeID q) (list_of s (q_scope q) ids) @ [q\<lparr>q_id := i\<rparr>])"
proof -
  let ?f = "get s (q_scope q)" and ?g = "get (put q s) (q_scope q)" and ?x = "q_scopeID q"
  obtain a b where ids: "ids = a @ ?x # b" using split_list [OF assms(3)] by blast
  with assms(2) have notin: "?x \<notin> set a" "?x \<notin> set b" by auto
  have same: "lookup_all ?g xs = lookup_all ?f xs" if "?x \<notin> set xs" for xs
    using that by (intro lookup_all_cong) (auto simp: get_put)
  have keep: "filter (\<lambda>r. q_scopeID r \<noteq> ?x) (lookup_all ?f xs) = lookup_all ?f xs" if "?x \<notin> set xs" for xs
    using that get_key by (auto simp: lookup_all_def filter_id_conv split: option.splits)
  have drop: "filter (\<lambda>r. q_scopeID r \<noteq> ?x) (lookup_all ?f [?x]) = []"
    using get_key by (auto simp: lookup_all_def split: option.splits)
  note parts = lookup_all_append lookup_all_Cons [of _ ?x b]
  obtain i where i: "?g ?x = Some (q\<lparr>q_id := i\<rparr>)" by (simp add: get_put)
  have "mset (filter P (list_of s (q_scope q) ids)) = mset (filter P (lookup_all ?f ids))" for P
    using assms(1,2) by (simp add: list_get)
  then have old: "mset (filter (\<lambda>r. q_scopeID r \<noteq> ?x) (list_of s (q_scope q) ids)) =
      mset (lookup_all ?f a) + mset (lookup_all ?f b)"
    unfolding ids by (simp only: parts filter_append keep [OF notin(1)] keep [OF notin(2)] drop mset_append) simp
  have "mset (list_of (put q s) (q_scope q) ids) = mset (lookup_all ?g ids)"
    using assms(1,2) by (intro list_get valid_put)
  also have "\<dots> = mset (lookup_all ?f a) + {#q\<lparr>q_id := i\<rparr>#} + mset (lookup_all ?f b)"
    unfolding ids parts same [OF notin(1)] same [OF notin(2)] using i by (simp add: lookup_all_def)
  finally show ?thesis using old by (intro exI [of _ i]) simp
qed

end

lemma find_SetQuota:
  "GetQuota (SetQuota q rows) scope scopeID =
     (if has_key scope scopeID q
      then Some (q\<lparr>q_id := (case GetQuota rows scope scopeID of None \<Rightarrow> q_id q | Some r \<Rightarrow> q_id r)\<rparr>)
      else GetQuota rows scope scopeID)"
  by (induction rows) (auto simp: GetQuota_def)

lemma SetQuota_keys:
  "set (map (\<lambda>r. (q_scope r, q_scopeID r)) (SetQuota q rows)) =
   insert (q_scope q, q_scopeID q) (set (map (\<lambda>r. (q_scope r, q_scopeID r)) rows))"
  by (induction rows) auto

lemma SetQuota_unique: "rows_unique rows \<Longrightarrow> rows_unique (SetQuota q rows)"
proof (induction rows)
  case (Cons r rows)
  then show ?case using SetQuota_keys [of q rows] by (auto simp: rows_unique_def)
qed (simp add: rows_unique_def)

lemma ListQuotas_get:
  assumes "rows_unique rows" "distinct ids"
  shows "mset (ListQuotas rows scope ids) = mset (lookup_all (GetQuota rows scope) ids)"
proof -
  have "mset (filter (\<lambda>q. q_scope q = scope \<and> q_scopeID q \<in> set xs) rows) = mset (lookup_all (GetQuota rows scope) xs)"
    if "distinct xs" for xs
    using that
  proof (induction xs)
    case Nil
    then show ?case by (simp add: lookup_all_def)
  next
    case (Cons x xs)
    have one: "mset (filter (has_key scope x) rows) = mset (lookup_all (GetQuota rows scope) [x])"
      using assms(1)
    proof (induction rows)
      case (Cons r rows)
      have fresh: "\<not> has_key scope x r'" if "has_key scope x r" "r' \<in> set rows" for r'
        using Cons.prems that by (auto simp: rows_unique_def image_iff)
      have "find (has_key scope x) rows = None" if "has_key scope x r"
        using fresh [OF that] unfolding find_None_iff by blast
      moreover have "filter (has_key scope x) rows = []" if "has_key scope x r"
        using fresh [OF that] unfolding filter_empty_conv by blast
      ultimately show ?case using Cons by (auto simp: rows_unique_def GetQuota_def lookup_all_def)
    qed (simp add: GetQuota_def lookup_all_def)
    have "mset (filter (\<lambda>q. q_scope q = scope \<and> q_scopeID q \<in> set (x # xs)) rows) =
        mset (filter (has_key scope x) rows) + mset (filter (\<lambda>q. q_scope q = scope \<and> q_scopeID q \<in> set xs) rows)"
      using Cons.prems by (induction rows) auto
    then show ?case using one Cons by (simp add: lookup_all_Cons [of _ x xs])
  qed
  from this [OF assms(2)] show ?thesis by (auto simp: ListQuotas_def lookup_all_def)
qed

section \<open>Saves keep the cascades\<close>

text \<open>Who belongs to whom: the teams of an organization and the members of a team.\<close>

record team_structure =
  ts_team :: "string \<Rightarrow> team option"
  ts_orgTeams :: "string \<Rightarrow> team list"
  ts_members :: "string \<Rightarrow> team_member list"

definition structure_wf :: "team_structure \<Rightarrow> bool" where
  "structure_wf ts \<longleftrightarrow>
     (\<forall>org. distinct (map t_id (ts_orgTeams ts org)) \<and>
        (\<forall>t \<in> set (ts_orgTeams ts org). ts_team ts (t_id t) = Some t \<and> t_orgID t = org)) \<and>
     (\<forall>team. distinct (map tm_userID (ts_members ts team)) \<and>
        (\<forall>m \<in> set (ts_members ts team). tm_userID m \<noteq> [] \<and> team \<noteq> [] \<and> CHR '':'' \<notin> set team))"

definition reader_of :: "('s \<Rightarrow> quota_scope \<Rightarrow> string \<Rightarrow> quota option) \<Rightarrow> ('s \<Rightarrow> quota_scope \<Rightarrow> string list \<Rightarrow> quota list)
    \<Rightarrow> team_structure \<Rightarrow> 's \<Rightarrow> unit quota_reader" where
  "reader_of get list_of ts s =
     \<lparr>qr_getQuota = (\<lambda>scope i. case get s scope i of None \<Rightarrow> Inl NotFound | Some q \<Rightarrow> Inr q),
      qr_listQuotas = (\<lambda>scope ids. Inr (list_of s scope ids)),
      qr_getTeam = (\<lambda>i. case ts_team ts i of None \<Rightarrow> Inl NotFound | Some t \<Rightarrow> Inr t),
      qr_orgTeams = (\<lambda>i. Inr (ts_orgTeams ts i)), qr_teamMembers = (\<lambda>i. Inr (ts_members ts i))\<rparr>"

fun child_scope :: "quota_scope \<Rightarrow> quota_scope" where
  "child_scope QuotaScopeOrg = QuotaScopeTeam"
| "child_scope _ = QuotaScopeTeamMember"

fun child_ids :: "team_structure \<Rightarrow> quota_scope \<Rightarrow> string \<Rightarrow> string list" where
  "child_ids ts QuotaScopeOrg i = map t_id (ts_orgTeams ts i)"
| "child_ids ts _ i = map (\<lambda>m. TeamMemberScopeID i (tm_userID m)) (ts_members ts i)"

definition cascade_inv :: "('s \<Rightarrow> quota_scope \<Rightarrow> string \<Rightarrow> quota option) \<Rightarrow> ('s \<Rightarrow> quota_scope \<Rightarrow> string list \<Rightarrow> quota list)
    \<Rightarrow> team_structure \<Rightarrow> 's \<Rightarrow> bool" where
  "cascade_inv get list_of ts s \<longleftrightarrow>
     (\<forall>scope i p. HasChildren scope \<longrightarrow> get s scope i = Some p \<longrightarrow> Cascade p \<noteq> CascadeFree \<longrightarrow>
        cascade_holds p (list_of s (child_scope scope) (child_ids ts scope i)))"

lemma lift_simps [simp]:
  "lift_violation r = Inr u \<longleftrightarrow> r = Inr u"
  "lift_store r' = Inr a \<longleftrightarrow> r' = Inr a"
  by (cases r; simp) (cases r'; simp)

lemma distinct_child_ids: "structure_wf ts \<Longrightarrow> distinct (child_ids ts scope i)"
  by (cases scope) (auto simp: structure_wf_def distinct_map inj_on_def TeamMemberScopeID_def)

lemma cascadeChildren_reader:
  assumes "HasChildren scope"
  shows "cascadeChildren (reader_of get list_of ts s) scope i =
    Inr (map (\<lambda>q. (child_scope scope, q_scopeID q, q)) (list_of s (child_scope scope) (child_ids ts scope i)))"
  using assms by (cases scope) (simp_all add: cascadeChildren_def reader_of_def HasChildren_def)

lemma cascade_parent_of_child:
  assumes "structure_wf ts" "HasChildren scope" "q_scope q = child_scope scope" "q_scopeID q \<in> set (child_ids ts scope i)"
  shows "cascade_parent_key (reader_of get list_of ts s) q = Inr (Some (scope, i))"
proof (cases scope)
  case QuotaScopeOrg
  then obtain t where "t \<in> set (ts_orgTeams ts i)" "q_scopeID q = t_id t" using assms(4) by auto
  then show ?thesis
    using assms(1,3) QuotaScopeOrg by (simp add: cascade_parent_key_def reader_of_def structure_wf_def)
next
  case QuotaScopeTeam
  then obtain m where "m \<in> set (ts_members ts i)" "q_scopeID q = TeamMemberScopeID i (tm_userID m)" using assms(4) by auto
  then show ?thesis
    using assms(1,3) QuotaScopeTeam ParseTeamMemberScopeID_roundtrip [of i "tm_userID m"]
    by (simp add: cascade_parent_key_def structure_wf_def)
qed (use assms(2) in \<open>simp_all add: HasChildren_def\<close>)

lemma period_budget_id [simp]: "period_budget per (q\<lparr>q_id := i\<rparr>) = period_budget per q"
  by (cases per) simp_all

lemma Cascade_id [simp]: "Cascade (q\<lparr>q_id := i\<rparr>) = Cascade q"
  by (simp add: Cascade_def)

lemma cascade_holds_id:
  "cascade_holds (q\<lparr>q_id := i\<rparr>) qs = cascade_holds q qs"
  "cascade_holds p (qs @ [q\<lparr>q_id := i\<rparr>]) = cascade_holds p (qs @ [q])"
  by (simp_all add: cascade_holds_def budget_or_0_def)

context quota_table
begin

lemma checked_parent:
  assumes check: "CheckQuotaCascade (reader_of get list_of ts s) q = Inr ()" and wf: "structure_wf ts"
    and scope: "HasChildren scope" and child: "q_scope q = child_scope scope" "q_scopeID q \<in> set (child_ids ts scope i)"
    and p: "get s scope i = Some p" "Cascade p \<noteq> CascadeFree"
  shows "cascade_holds p (filter (\<lambda>r. q_scopeID r \<noteq> q_scopeID q) (list_of s (child_scope scope) (child_ids ts scope i)) @ [q])"
proof -
  have "getOptionalQuota (reader_of get list_of ts s) scope i = Inr (Some p)"
    using p(1) by (simp add: getOptionalQuota_def reader_of_def)
  then have "cascadeParent (reader_of get list_of ts s) q =
      Inr (Some (p, map (\<lambda>q. (child_scope scope, q_scopeID q, q)) (list_of s (child_scope scope) (child_ids ts scope i))))"
    using cascade_parent_of_child [OF wf scope child, of get list_of s] cascadeChildren_reader [OF scope, of get list_of ts s i]
    by (simp add: cascadeParent_def)
  then show ?thesis
    using check p(2) by (simp add: CheckQuotaCascade_def result_simps checkCascade_holds filter_map comp_def)
qed

lemma checked_self:
  assumes "CheckQuotaCascade (reader_of get list_of ts s) q = Inr ()" "HasChildren (q_scope q)" "Cascade q \<noteq> CascadeFree"
  shows "cascade_holds q (list_of s (child_scope (q_scope q)) (child_ids ts (q_scope q) (q_scopeID q)))"
  using assms cascadeChildren_reader [OF assms(2), of get list_of ts s "q_scopeID q"]
  by (auto simp: CheckQuotaCascade_def result_simps checkCascade_holds comp_def)

lemma put_keeps_cascades:
  assumes valid: "valid s" and wf: "structure_wf ts" and inv: "cascade_inv get list_of ts s"
    and check: "CheckQuotaCascade (reader_of get list_of ts s) q = Inr ()"
  shows "cascade_inv get list_of ts (put q s)"
  unfolding cascade_inv_def
proof (intro allI impI)
  fix scope i p
  assume scope: "HasChildren scope" and p: "get (put q s) scope i = Some p" and casc: "Cascade p \<noteq> CascadeFree"
  let ?ids = "child_ids ts scope i" and ?cs = "child_scope scope"
  have dist: "distinct ?ids" using wf by (rule distinct_child_ids)
  show "cascade_holds p (list_of (put q s) ?cs ?ids)"
  proof (cases "has_key scope i q")
    case True
    then obtain k where k: "p = q\<lparr>q_id := k\<rparr>" using p by (auto simp: get_put)
    from True scope have "?cs \<noteq> q_scope q" by (cases scope) (auto simp: HasChildren_def)
    then have "cascade_holds p (list_of (put q s) ?cs ?ids) = cascade_holds p (list_of s ?cs ?ids)"
      using list_put_other [OF valid dist] by (intro cascade_holds_mset) blast
    moreover have "cascade_holds q (list_of s ?cs ?ids)"
      using checked_self [OF check] True scope casc k by simp
    ultimately show ?thesis using k by (simp add: cascade_holds_id)
  next
    case False
    then have old: "get s scope i = Some p" using p by (simp add: get_put split: if_splits)
    show ?thesis
    proof (cases "q_scope q = ?cs \<and> q_scopeID q \<in> set ?ids")
      case True
      then obtain k where m: "mset (list_of (put q s) ?cs ?ids) =
          mset (filter (\<lambda>r. q_scopeID r \<noteq> q_scopeID q) (list_of s ?cs ?ids) @ [q\<lparr>q_id := k\<rparr>])"
        using list_put_child [OF valid dist, of q] by auto
      have "cascade_holds p (list_of (put q s) ?cs ?ids) =
          cascade_holds p (filter (\<lambda>r. q_scopeID r \<noteq> q_scopeID q) (list_of s ?cs ?ids) @ [q])"
        unfolding cascade_holds_mset [OF m] by (rule cascade_holds_id)
      then show ?thesis using checked_parent [OF check wf scope _ _ old casc] True by blast
    next
      case False
      then have "cascade_holds p (list_of (put q s) ?cs ?ids) = cascade_holds p (list_of s ?cs ?ids)"
        using list_put_other [OF valid dist, of ?cs q] by (intro cascade_holds_mset) auto
      then show ?thesis using inv old scope casc unfolding cascade_inv_def by blast
    qed
  qed
qed

end

interpretation quota_rows: quota_table rows_unique GetQuota SetQuota ListQuotas
proof
  show "GetQuota rows scope scopeID = Some q \<Longrightarrow> has_key scope scopeID q" for rows scope scopeID q
    by (auto simp: GetQuota_def find_Some_iff)
qed (simp_all add: SetQuota_unique find_SetQuota ListQuotas_get)

text \<open>The tables the service can build: every quota saved passed \<open>CheckQuotaCascade\<close> on the table it met.\<close>

inductive saved_table :: "team_structure \<Rightarrow> quota_rows \<Rightarrow> bool" for ts :: team_structure where
  saved_empty: "saved_table ts []"
| saved_next: "saved_table ts rows \<Longrightarrow> CheckQuotaCascade (reader_of GetQuota ListQuotas ts rows) q = Inr () \<Longrightarrow>
    saved_table ts (SetQuota q rows)"

lemma saved_table_inv:
  assumes "saved_table ts rows" "structure_wf ts"
  shows "rows_unique rows \<and> cascade_inv GetQuota ListQuotas ts rows"
  using assms
proof (induction rule: saved_table.induct)
  case saved_empty
  then show ?case by (simp add: rows_unique_def cascade_inv_def GetQuota_def)
next
  case (saved_next rows q)
  then show ?case
    using quota_rows.put_keeps_cascades [of rows ts q] SetQuota_unique by blast
qed

lemma cascade_holds_exact:
  assumes "cascade_holds p qs" "period_budget per p = Some limit"
    and "\<bar>\<Sum>q\<leftarrow>qs. budget_or_0 per q\<bar> < 2 ^ 63"
  shows "(Cascade p = CascadeCapped \<longrightarrow> (\<forall>q \<in> set qs. \<forall>b. period_budget per q = Some b \<longrightarrow> b \<le> limit)) \<and>
         (Cascade p = CascadeSplit \<longrightarrow> (\<Sum>q\<leftarrow>qs. budget_or_0 per q) \<le> limit)"
proof -
  have "wrap64 (\<Sum>q\<leftarrow>qs. budget_or_0 per q) = (\<Sum>q\<leftarrow>qs. budget_or_0 per q)"
    using assms(3) by (intro wrap64_id) simp_all
  then show ?thesis using assms(1,2) unfolding cascade_holds_def by metis
qed

text \<open>
  C21.  Cascades are kept by every save: in any table built by saves that passed \<open>CheckQuotaCascade\<close>, the
  budgets of the teams of an organization and of the members of a team respect the cascade of their
  parent for each period: each at most the parent's when it is capped, and all together at most the
  parent's when it is split, as long as their sum fits in an \<open>int64\<close>.
\<close>

theorem saves_respect_cascades:
  assumes "saved_table ts rows" and "structure_wf ts" and "HasChildren scope"
    and "GetQuota rows scope i = Some p" and "period_budget per p = Some limit"
    and "\<bar>\<Sum>q\<leftarrow>ListQuotas rows (child_scope scope) (child_ids ts scope i). budget_or_0 per q\<bar> < 2 ^ 63"
  shows "(Cascade p = CascadeCapped \<longrightarrow>
            (\<forall>q \<in> set (ListQuotas rows (child_scope scope) (child_ids ts scope i)).
               \<forall>b. period_budget per q = Some b \<longrightarrow> b \<le> limit)) \<and>
         (Cascade p = CascadeSplit \<longrightarrow>
            (\<Sum>q\<leftarrow>ListQuotas rows (child_scope scope) (child_ids ts scope i). budget_or_0 per q) \<le> limit)"
proof (cases "Cascade p = CascadeFree")
  case False
  then have "cascade_holds p (ListQuotas rows (child_scope scope) (child_ids ts scope i))"
    using saved_table_inv [OF assms(1,2)] assms(3,4) unfolding cascade_inv_def by blast
  then show ?thesis using assms(5,6) by (rule cascade_holds_exact)
qed simp

text \<open>An organization with two teams that split its daily budget of 100.\<close>

definition cascade_structure :: team_structure where
  "cascade_structure =
     \<lparr>ts_team = (\<lambda>i. if i = ''a'' \<or> i = ''b'' then Some \<lparr>t_id = i, t_orgID = ''o'', t_shareQuotaEqually = False\<rparr> else None),
      ts_orgTeams = (\<lambda>i. if i = ''o'' then map (\<lambda>t. \<lparr>t_id = t, t_orgID = ''o'', t_shareQuotaEqually = False\<rparr>) [''a'', ''b''] else []),
      ts_members = (\<lambda>i. [])\<rparr>"

definition daily_quota :: "quota_scope \<Rightarrow> string \<Rightarrow> int \<Rightarrow> quota" where
  "daily_quota scope i b =
     \<lparr>q_id = i, q_scope = scope, q_scopeID = i, q_currency = ''EUR'', q_daily = Some b, q_monthly = None,
      q_yearly = None, q_cascade = CascadeSplit\<rparr>"

definition cascade_rows :: "int \<Rightarrow> int \<Rightarrow> quota_rows" where
  "cascade_rows x y =
     SetQuota (daily_quota QuotaScopeTeam ''b'' y) (SetQuota (daily_quota QuotaScopeTeam ''a'' x)
       (SetQuota (daily_quota QuotaScopeOrg ''o'' 100) []))"

lemma cascade_structure_wf: "structure_wf cascade_structure"
  by (auto simp: structure_wf_def cascade_structure_def)

lemma cascade_rows_saved: "saved_table cascade_structure (cascade_rows 60 40)"
proof -
  let ?r1 = "SetQuota (daily_quota QuotaScopeOrg ''o'' 100) []"
  let ?r2 = "SetQuota (daily_quota QuotaScopeTeam ''a'' 60) ?r1"
  have c: "CheckQuotaCascade (reader_of GetQuota ListQuotas cascade_structure []) (daily_quota QuotaScopeOrg ''o'' 100) = Inr ()"
    "CheckQuotaCascade (reader_of GetQuota ListQuotas cascade_structure ?r1) (daily_quota QuotaScopeTeam ''a'' 60) = Inr ()"
    "CheckQuotaCascade (reader_of GetQuota ListQuotas cascade_structure ?r2) (daily_quota QuotaScopeTeam ''b'' 40) = Inr ()"
    by code_simp+
  show ?thesis unfolding cascade_rows_def
    by (intro saved_table.intros c)
qed

lemma cascade_rows_list:
  "map q_daily (ListQuotas (cascade_rows 60 40) QuotaScopeTeam [''a'', ''b'']) = [Some 60, Some 40]"
  by code_simp

theorem saves_respect_cascades_witness:
  "(\<Sum>q\<leftarrow>ListQuotas (cascade_rows 60 40) QuotaScopeTeam [''a'', ''b'']. budget_or_0 Daily q) \<le> 100"
proof -
  let ?qs = "ListQuotas (cascade_rows 60 40) QuotaScopeTeam [''a'', ''b'']"
  have "(\<Sum>q\<leftarrow>?qs. budget_or_0 Daily q) = (\<Sum>b\<leftarrow>map q_daily ?qs. case b of None \<Rightarrow> 0 | Some b \<Rightarrow> b)"
    by (simp add: budget_or_0_def comp_def)
  then have sum: "(\<Sum>q\<leftarrow>?qs. budget_or_0 Daily q) = 100" unfolding cascade_rows_list by simp
  have ids: "child_ids cascade_structure QuotaScopeOrg ''o'' = [''a'', ''b'']" by (simp add: cascade_structure_def)
  have get: "GetQuota (cascade_rows 60 40) QuotaScopeOrg ''o'' = Some (daily_quota QuotaScopeOrg ''o'' 100)"
    by (simp add: GetQuota_def cascade_rows_def daily_quota_def)
  show ?thesis
    using saves_respect_cascades [OF cascade_rows_saved cascade_structure_wf, of QuotaScopeOrg "''o''"
        "daily_quota QuotaScopeOrg ''o'' 100" Daily 100] sum get
    by (simp add: ids HasChildren_def daily_quota_def Cascade_def cascade_Normalize_def)
qed

text \<open>
  The bound on the sum is needed: the running total of \<open>checkCascade\<close> wraps around, and four budgets of
  \<open>2 ^ 62\<close> microcents add up to 0.
\<close>

lemma checkCascade_overflow:
  "checkCascade (daily_quota QuotaScopeOrg ''o'' 100)
     (map (\<lambda>i. (QuotaScopeTeam, i, daily_quota QuotaScopeTeam i (2 ^ 62))) [''a'', ''b'', ''c'', ''d'']) = Inr ()"
  by (simp add: checkCascade_def cascadePeriods_def daily_quota_def wrap64_def Cascade_def cascade_Normalize_def)

end
