(* ===== verification/Civil_Time.thy ===== *)
theory Civil_Time
  imports Xolo_Prelude
begin

text \<open>
  Dates of the proleptic Gregorian calendar as the Go package \<open>time\<close> computes them, and the two layouts the usage
  tables use as keys: the day \<open>2006-01-02\<close> and the hour \<open>2006-01-02T15\<close>.  An instant is a number of nanoseconds since
  1970-01-01 00:00 UTC.  Texts are compared as the database compares them, character by character; the section on
  order shows that the keys then sort as the days and hours they spell, up to the year 9999.
\<close>

section \<open>Calendar\<close>

record civil =
  cv_year :: int
  cv_month :: nat
  cv_day :: nat
  cv_nanos :: nat

text \<open>Days from the first of January of year 0 to that of year \<open>y\<close>.\<close>

definition days_before_year :: "int \<Rightarrow> int" where
  "days_before_year y = 365 * y + (y + 3) div 4 - (y + 99) div 100 + (y + 399) div 400"

definition leap_year :: "int \<Rightarrow> bool" where
  "leap_year y \<longleftrightarrow> 4 dvd y \<and> (\<not> 100 dvd y \<or> 400 dvd y)"

definition year_of_day :: "int \<Rightarrow> int" where
  "year_of_day d =
     (let y = (400 * d) div 146097 in
      if d < days_before_year y then y - 1 else if d \<ge> days_before_year (y + 1) then y + 1 else y)"

definition month_lengths :: "int \<Rightarrow> int list" where
  "month_lengths y = [31, if leap_year y then 29 else 28, 31, 30, 31, 30, 31, 31, 30, 31, 30, 31]"

fun month_and_day :: "nat \<Rightarrow> int list \<Rightarrow> int \<Rightarrow> nat \<times> nat" where
  "month_and_day m [] d = (m, nat (d + 1))"
| "month_and_day m [l] d = (m, nat (d + 1))"
| "month_and_day m (l # ls) d = (if d < l then (m, nat (d + 1)) else month_and_day (Suc m) ls (d - l))"

abbreviation "hour_ns \<equiv> (3600 * 10 ^ 9 :: int)"

abbreviation "day_ns \<equiv> (24 * hour_ns :: int)"

text \<open>The date and time of day of a local time, counted in nanoseconds since 1970-01-01 00:00 on the same clock.\<close>

definition civil_of :: "int \<Rightarrow> civil" where
  "civil_of t =
     (let d = t div day_ns + 719528; y = year_of_day d in
      case month_and_day 1 (month_lengths y) (d - days_before_year y) of
        (m, dd) \<Rightarrow> \<lparr>cv_year = y, cv_month = m, cv_day = dd, cv_nanos = nat (t mod day_ns)\<rparr>)"

section \<open>Layouts\<close>

fun pad_digits :: "nat \<Rightarrow> nat \<Rightarrow> string" where
  "pad_digits 0 n = []"
| "pad_digits (Suc w) n = pad_digits w (n div 10) @ [char_of (48 + n mod 10)]"

definition format_day :: "civil \<Rightarrow> string" where
  "format_day c = pad_digits 4 (nat (cv_year c)) @ ''-'' @ pad_digits 2 (cv_month c) @ ''-'' @ pad_digits 2 (cv_day c)"

definition format_hour :: "civil \<Rightarrow> string" where
  "format_hour c = format_day c @ ''T'' @ pad_digits 2 (cv_nanos c div (3600 * 10 ^ 9))"

lemma pad_digits_2: "pad_digits 2 n = [char_of (48 + n div 10 mod 10), char_of (48 + n mod 10)]"
  by (simp add: numeral_2_eq_2)

lemma pad_digits_4: "pad_digits 4 n = pad_digits 2 (n div 100) @ pad_digits 2 n"
proof -
  have "(4 :: nat) = Suc (Suc 2)" by simp
  then show ?thesis
    by (simp only: pad_digits.simps pad_digits_2 append.simps append_assoc) (simp flip: div_mult2_eq)
qed

text \<open>Comparison of texts in the database.\<close>

fun text_less :: "string \<Rightarrow> string \<Rightarrow> bool" where
  "text_less s [] = False"
| "text_less [] (c # t) = True"
| "text_less (a # s) (b # t) = ((of_char a :: nat) < of_char b \<or> a = b \<and> text_less s t)"

section \<open>The years tile the days\<close>

lemma div_succ: "0 < k \<Longrightarrow> (a + 1) div k = a div k + (if k dvd a + 1 then 1 else 0)" for a k :: int
proof -
  assume k: "0 < k"
  define r where "r = a mod k"
  have a: "a = k * (a div k) + r" by (simp add: r_def)
  have r: "0 \<le> r" "r < k" using k by (simp_all add: r_def)
  show ?thesis
  proof (cases "r + 1 = k")
    case True
    then have e: "a + 1 = k * (a div k + 1)" using a by (simp add: algebra_simps)
    then have "(a + 1) div k = a div k + 1" using k by simp
    moreover have "k dvd a + 1" using e by simp
    ultimately show ?thesis by simp
  next
    case False
    then have lt: "r + 1 < k" using r by simp
    have e: "a + 1 = k * (a div k) + (r + 1)" using a by simp
    have "(a + 1) div k = a div k" using int_div_pos_eq [OF e] lt r by simp
    moreover have "\<not> k dvd a + 1"
    proof
      assume "k dvd a + 1"
      then have "k dvd r + 1" using e by (metis dvd_add_right_iff dvd_triv_left)
      then show False using zdvd_imp_le lt r by fastforce
    qed
    ultimately show ?thesis by simp
  qed
qed

lemma div_range: "0 < k \<Longrightarrow> k * (a div k) \<le> a \<and> a < k * (a div k) + k" for a k :: int
  using pos_mod_bound [of k a] pos_mod_sign [of k a] mult_div_mod_eq [of k a] by linarith

lemma days_before_year_Suc: "days_before_year (y + 1) = days_before_year y + (if leap_year y then 366 else 365)"
proof -
  have a: "(y + 1 + 3) div 4 = (y + 3) div 4 + (if 4 dvd y then 1 else 0)"
    using div_succ [of 4 "y + 3"] by (simp add: ac_simps)
  have b: "(y + 1 + 99) div 100 = (y + 99) div 100 + (if 100 dvd y then 1 else 0)"
    using div_succ [of 100 "y + 99"] by (simp add: ac_simps)
  have c: "(y + 1 + 399) div 400 = (y + 399) div 400 + (if 400 dvd y then 1 else 0)"
    using div_succ [of 400 "y + 399"] by (simp add: ac_simps)
  have d: "400 dvd y \<Longrightarrow> 100 dvd y" "100 dvd y \<Longrightarrow> 4 dvd y"
    using dvd_trans [of 100 400 y] dvd_trans [of 4 100 y] by simp_all
  show ?thesis
    unfolding days_before_year_def leap_year_def a b c using d
    by (cases "4 dvd y"; cases "100 dvd y"; cases "400 dvd y") (simp_all only: simp_thms if_True if_False, simp_all)
qed

lemma year_of_day: "days_before_year (year_of_day d) \<le> d" "d < days_before_year (year_of_day d + 1)"
proof -
  define y where "y = (400 * d) div 146097"
  have y: "146097 * y \<le> 400 * d" "400 * d < 146097 * y + 146097" unfolding y_def by simp_all
  have b: "400 * days_before_year z < 146097 * z + 700" "400 * days_before_year z > 146097 * z - 400" for z
    using div_range [of 4 "z + 3"] div_range [of 100 "z + 99"] div_range [of 400 "z + 399"]
    unfolding days_before_year_def by simp_all
  have "days_before_year (y - 1) \<le> d" using y b(1) [of "y - 1"] by (simp add: algebra_simps)
  moreover have "d < days_before_year (y + 1 + 1)" using y b(2) [of "y + 1 + 1"] by (simp add: algebra_simps)
  ultimately show "days_before_year (year_of_day d) \<le> d" "d < days_before_year (year_of_day d + 1)"
    unfolding year_of_day_def Let_def y_def [symmetric] by (auto simp: not_less not_le)
qed

lemma days_before_year_mono: "y \<le> z \<Longrightarrow> days_before_year y \<le> days_before_year z"
proof (induction z rule: int_ge_induct)
  case (step z)
  then show ?case by (simp add: days_before_year_Suc)
qed simp

lemma year_of_day_mono: "d \<le> e \<Longrightarrow> year_of_day d \<le> year_of_day e"
  using year_of_day(1) [of d] year_of_day(2) [of e] days_before_year_mono [of "year_of_day e + 1" "year_of_day d"]
  by (rule_tac ccontr) linarith

section \<open>Keys sort as the times they spell\<close>

lemma month_and_day_ge: "m \<le> fst (month_and_day m ls d)"
  by (induction m ls d rule: month_and_day.induct) auto

lemma month_and_day_less:
  assumes "0 \<le> d" "d < e" "month_and_day m ls d = (a, b)" "month_and_day m ls e = (a', b')"
  shows "a < a' \<or> a = a' \<and> b < b'"
  using assms
proof (induction m ls d arbitrary: e rule: month_and_day.induct)
  case (3 m l l2 ls d)
  show ?case
  proof (cases "d < l")
    case True
    then show ?thesis
      using 3(2-) month_and_day_ge [of "Suc m" "l2 # ls" "e - l"] by (auto split: if_splits)
  next
    case False
    then show ?thesis using 3(1) [OF False, of "e - l"] 3(2-) by auto
  qed
qed auto

lemma month_and_day_bound:
  assumes "0 \<le> d" "d < sum_list ls" "\<forall>l\<in>set ls. l \<le> 31" "ls \<noteq> []"
  shows "fst (month_and_day m ls d) < m + length ls" "snd (month_and_day m ls d) < 100"
  using assms by (induction m ls d rule: month_and_day.induct) auto

definition four_digit_year :: "int \<Rightarrow> bool" where
  "four_digit_year t \<longleftrightarrow> - 719528 \<le> t div day_ns \<and> t div day_ns < 2932897"

abbreviation "day_number t \<equiv> t div day_ns + 719528"

abbreviation "day_of_year t \<equiv> day_number t - days_before_year (year_of_day (day_number t))"

lemma four_digit_year:
  assumes "four_digit_year t"
  shows "0 \<le> year_of_day (day_number t)" "year_of_day (day_number t) < 10000"
proof -
  have d: "0 \<le> day_number t" "day_number t < 3652425" using assms unfolding four_digit_year_def by linarith+
  have "days_before_year 0 = 0" "days_before_year 10000 = 3652425" by (simp_all add: days_before_year_def)
  with d year_of_day [of "day_number t"]
    days_before_year_mono [of "year_of_day (day_number t) + 1" 0] days_before_year_mono [of 10000 "year_of_day (day_number t)"]
  show "0 \<le> year_of_day (day_number t)" "year_of_day (day_number t) < 10000" by linarith+
qed

lemma month_lengths: "sum_list (month_lengths y) = days_before_year (y + 1) - days_before_year y"
  "\<forall>l\<in>set (month_lengths y). l \<le> 31" "length (month_lengths y) = 12"
  by (auto simp: month_lengths_def days_before_year_Suc)

lemma civil_date:
  "month_and_day 1 (month_lengths (year_of_day (day_number t))) (day_of_year t) = (cv_month (civil_of t), cv_day (civil_of t))"
  "cv_year (civil_of t) = year_of_day (day_number t)"
  by (simp_all add: civil_of_def Let_def split: prod.split)

lemma civil_bounds: "cv_month (civil_of t) < 100" "cv_day (civil_of t) < 100"
proof -
  let ?y = "year_of_day (day_number t)"
  have b: "0 \<le> day_of_year t" "day_of_year t < sum_list (month_lengths ?y)"
    using year_of_day [of "day_number t"] by (simp_all add: month_lengths(1))
  have n: "month_lengths ?y \<noteq> []" by (simp add: month_lengths_def)
  show "cv_month (civil_of t) < 100" "cv_day (civil_of t) < 100"
    using month_and_day_bound [OF b month_lengths(2) n, of 1] unfolding civil_date(1) month_lengths(3) by simp_all
qed

lemma digit_order:
  fixes p q r s :: nat
  assumes "q < 10" "s < 10"
  shows "p * 10 + q < r * 10 + s \<longleftrightarrow> p < r \<or> p = r \<and> q < s" "p * 10 + q = r * 10 + s \<longleftrightarrow> p = r \<and> q = s"
proof -
  show "p * 10 + q < r * 10 + s \<longleftrightarrow> p < r \<or> p = r \<and> q < s"
    using assms by (cases p r rule: linorder_cases) auto
  show "p * 10 + q = r * 10 + s \<longleftrightarrow> p = r \<and> q = s"
    using assms by (cases p r rule: linorder_cases) auto
qed

lemma digit_less: "a < b \<longleftrightarrow> a div 10 < b div 10 \<or> a div 10 = b div 10 \<and> a mod 10 < b mod 10" for a b :: nat
  using digit_order(1) [of "a mod 10" "b mod 10" "a div 10" "b div 10"] by (simp add: div_mult_mod_eq)

lemma digit_eq: "a = b \<longleftrightarrow> a div 10 = b div 10 \<and> a mod 10 = b mod 10" for a b :: nat
  by (metis div_mult_mod_eq)

lemma text_less_pad:
  assumes "a < 10 ^ w" "b < 10 ^ w"
  shows "text_less (pad_digits w a @ s) (pad_digits w b @ t) \<longleftrightarrow> a < b \<or> a = b \<and> text_less s t"
  using assms
proof (induction w arbitrary: a b s t)
  case (Suc w)
  have lt: "a div 10 < 10 ^ w" "b div 10 < 10 ^ w" using Suc.prems by auto
  have c: "of_char (char_of (48 + x mod 10) :: char) = (48 + x mod 10 :: nat)" for x :: nat by simp
  have e: "(char_of (48 + a mod 10) :: char) = char_of (48 + b mod 10) \<longleftrightarrow> a mod 10 = b mod 10"
    using c [of a] c [of b] by (metis add_left_cancel)
  have "text_less (pad_digits (Suc w) a @ s) (pad_digits (Suc w) b @ t) \<longleftrightarrow>
      a div 10 < b div 10 \<or> a div 10 = b div 10 \<and> (a mod 10 < b mod 10 \<or> a mod 10 = b mod 10 \<and> text_less s t)"
    using Suc.IH [OF lt] by (simp add: e c)
  also have "\<dots> \<longleftrightarrow> a < b \<or> a = b \<and> text_less s t"
    using digit_less [of a b] digit_eq [of a b] by blast
  finally show ?case .
qed simp

lemma date_less:
  assumes "t div day_ns < u div day_ns"
  shows "cv_year (civil_of t) < cv_year (civil_of u) \<or> cv_year (civil_of t) = cv_year (civil_of u) \<and>
    (cv_month (civil_of t) < cv_month (civil_of u) \<or> cv_month (civil_of t) = cv_month (civil_of u) \<and> cv_day (civil_of t) < cv_day (civil_of u))"
proof (cases "year_of_day (day_number t) = year_of_day (day_number u)")
  case True
  have "0 \<le> day_of_year t" using year_of_day(1) [of "day_number t"] by simp
  moreover have "day_of_year t < day_of_year u" using assms True by simp
  ultimately show ?thesis
    using month_and_day_less [OF _ _ civil_date(1) [of t] civil_date(1) [of u, folded True]] True by (simp add: civil_date(2))
next
  case False
  then show ?thesis using year_of_day_mono [of "day_number t" "day_number u"] assms by (simp add: civil_date(2))
qed

lemma date_cong: "t div day_ns = u div day_ns \<Longrightarrow> format_day (civil_of t) = format_day (civil_of u)"
  by (simp add: civil_of_def format_day_def Let_def split: prod.split)

lemma lex_asym:
  fixes a :: "'a :: linorder" and b :: "'b :: linorder" and c :: "'c :: linorder"
  assumes "a < a' \<or> a = a' \<and> (b < b' \<or> b = b' \<and> c < c')"
  shows "\<not> (a' < a \<or> a' = a \<and> (b' < b \<or> b' = b \<and> (c' < c \<or> c' = c \<and> P)))"
  using assms by auto

lemma text_less_date:
  assumes "four_digit_year t" "four_digit_year u"
  shows "text_less (format_day (civil_of t) @ v) (format_day (civil_of u) @ w) \<longleftrightarrow>
    t div day_ns < u div day_ns \<or> t div day_ns = u div day_ns \<and> text_less v w"
proof -
  have y: "nat (cv_year (civil_of z)) < 10 ^ 4 \<and> 0 \<le> cv_year (civil_of z)" if "four_digit_year z" for z
    using four_digit_year [OF that] by (simp add: civil_date(2))
  note pad4 = text_less_pad [OF conjunct1 [OF y [OF assms(1)]] conjunct1 [OF y [OF assms(2)]]]
  have pad2: "text_less (pad_digits 2 a @ x) (pad_digits 2 b @ z) \<longleftrightarrow> a < b \<or> a = b \<and> text_less x z" if "a < 100" "b < 100" for a b x z
    using text_less_pad [of a 2 b x z] that by simp
  have e: "text_less (format_day (civil_of t) @ v) (format_day (civil_of u) @ w) \<longleftrightarrow>
    cv_year (civil_of t) < cv_year (civil_of u) \<or> cv_year (civil_of t) = cv_year (civil_of u) \<and>
    (cv_month (civil_of t) < cv_month (civil_of u) \<or> cv_month (civil_of t) = cv_month (civil_of u) \<and>
      (cv_day (civil_of t) < cv_day (civil_of u) \<or> cv_day (civil_of t) = cv_day (civil_of u) \<and> text_less v w))"
    unfolding format_day_def append_assoc
    using y [OF assms(1)] y [OF assms(2)]
    by (simp add: pad4 pad2 civil_bounds nat_less_eq_zless eq_nat_nat_iff del: pad_digits.simps zless_nat_conj zless_nat_eq_int_zless)
  consider "t div day_ns < u div day_ns" | "u div day_ns < t div day_ns" | "t div day_ns = u div day_ns" by linarith
  then show ?thesis
  proof cases
    case 1
    then show ?thesis using date_less [OF 1] by (simp only: e) blast
  next
    case 2
    then have "\<not> t div day_ns < u div day_ns" "t div day_ns \<noteq> u div day_ns" by linarith+
    then show ?thesis using lex_asym [OF date_less [OF 2]] by (simp only: e) blast
  next
    case 3
    then have "cv_year (civil_of t) = cv_year (civil_of u)" "cv_month (civil_of t) = cv_month (civil_of u)"
      "cv_day (civil_of t) = cv_day (civil_of u)"
      by (simp_all add: civil_of_def Let_def split: prod.split)
    then show ?thesis using 3 by (simp add: e)
  qed
qed

lemma text_less_Nil [simp]: "text_less s [] = False"
  by (cases s) simp_all

lemma text_less_irrefl [simp]: "\<not> text_less s s"
  by (induction s) auto

lemma format_day_less:
  "four_digit_year t \<Longrightarrow> four_digit_year u \<Longrightarrow>
    text_less (format_day (civil_of t)) (format_day (civil_of u)) \<longleftrightarrow> t div day_ns < u div day_ns"
  using text_less_date [of t u "[]" "[]"] by simp

lemma hour_digits: "pad_digits 2 (nat (t mod day_ns) div (3600 * 10 ^ 9)) = pad_digits 2 (nat (t mod day_ns div hour_ns))"
  by (simp add: nat_div_distrib)

lemma hour_of_day: "0 \<le> z mod day_ns div hour_ns \<and> z mod day_ns div hour_ns < 24" for z :: int
proof -
  have "z mod day_ns < 24 * hour_ns" "0 \<le> z mod day_ns" by simp_all
  then show ?thesis using div_range [of hour_ns "z mod day_ns"] by (simp add: pos_imp_zdiv_nonneg_iff)
qed

lemma hour_order:
  fixes t u :: int
  shows "t div hour_ns < u div hour_ns \<longleftrightarrow> t div day_ns < u div day_ns \<or> t div day_ns = u div day_ns \<and>
    nat (t mod day_ns div hour_ns) < nat (u mod day_ns div hour_ns)"
proof -
  have h: "z div hour_ns = 24 * (z div day_ns) + z mod day_ns div hour_ns" for z :: int
  proof -
    have "z div hour_ns = (hour_ns * (24 * (z div day_ns)) + z mod day_ns) div hour_ns"
      using mult_div_mod_eq [of day_ns z] by (simp add: algebra_simps)
    also have "\<dots> = 24 * (z div day_ns) + z mod day_ns div hour_ns" by (subst div_mult_self4) simp_all
    finally show ?thesis .
  qed
  note b = hour_of_day
  show ?thesis unfolding h [of t] h [of u] using b [of t] b [of u] by linarith
qed

lemma format_hour_less:
  assumes "four_digit_year t" "four_digit_year u"
  shows "text_less (format_hour (civil_of t)) (format_hour (civil_of u)) \<longleftrightarrow> t div hour_ns < u div hour_ns"
proof -
  have n: "cv_nanos (civil_of z) = nat (z mod day_ns)" for z
    by (simp add: civil_of_def Let_def split: prod.split)
  have b: "nat (z mod day_ns div hour_ns) < 10 ^ 2" for z :: int
    using hour_of_day [of z] by (simp add: nat_less_iff)
  show ?thesis
    unfolding format_hour_def append_assoc text_less_date [OF assms] n hour_digits
    using text_less_pad [OF b b, of _ "[]" _ "[]"] hour_order [of t u] by simp
qed

text \<open>Equal keys, then, are equal days or hours.\<close>

lemma format_hour_eq:
  assumes "four_digit_year t" "four_digit_year u"
  shows "format_hour (civil_of t) = format_hour (civil_of u) \<longleftrightarrow> t div hour_ns = u div hour_ns"
proof
  assume "format_hour (civil_of t) = format_hour (civil_of u)"
  then show "t div hour_ns = u div hour_ns"
    using format_hour_less [OF assms] format_hour_less [OF assms(2,1)] by (metis linorder_neqE text_less_irrefl)
next
  assume e: "t div hour_ns = u div hour_ns"
  then have d: "t div day_ns = u div day_ns" using hour_order [of t u] hour_order [of u t] by linarith
  have "nat (t mod day_ns div hour_ns) = nat (u mod day_ns div hour_ns)"
    using hour_order [of t u] hour_order [of u t] e d by linarith
  moreover have n: "cv_nanos (civil_of z) = nat (z mod day_ns)" for z
    by (simp add: civil_of_def Let_def split: prod.split)
  ultimately show "format_hour (civil_of t) = format_hour (civil_of u)"
    unfolding format_hour_def n hour_digits using date_cong [OF d] by simp
qed

lemma format_day_eq:
  assumes "four_digit_year t" "four_digit_year u"
  shows "format_day (civil_of t) = format_day (civil_of u) \<longleftrightarrow> t div day_ns = u div day_ns"
  using format_day_less [OF assms] format_day_less [OF assms(2,1)] date_cong [of t u] by (metis linorder_neqE text_less_irrefl)

end
