(* ===== verification/Quota_Enforcer.thy ===== *)
theory Quota_Enforcer
  imports Quota_Cascade Model_Access Pipeline_Nodes Civil_Time
begin

text \<open>
  The budgets that apply to a request (\<open>src/internal/core/service/quota.go\<close>) and the hook that refuses
  requests over budget (\<open>src/internal/adapter/proxy/quota_enforcer.go\<close>).

  A moment is a civil date and time in the server's location.  \<open>spent\<close> is \<open>SumQuotaCostSince\<close> of the usage
  store.  The metadata of a request are those \<open>populateMetaFromContext\<close> leaves.  A refusal keeps the parts
  of its message: subject, amounts and currency; formatting amounts is left out.
\<close>

section \<open>Budget windows\<close>

definition StartOfDay :: "civil \<Rightarrow> civil" where
  "StartOfDay t = t\<lparr>cv_nanos := 0\<rparr>"

definition StartOfMonth :: "civil \<Rightarrow> civil" where
  "StartOfMonth t = t\<lparr>cv_day := 1, cv_nanos := 0\<rparr>"

definition StartOfYear :: "civil \<Rightarrow> civil" where
  "StartOfYear t = t\<lparr>cv_month := 1, cv_day := 1, cv_nanos := 0\<rparr>"

fun window_start :: "period \<Rightarrow> civil \<Rightarrow> civil" where
  "window_start Daily = StartOfDay"
| "window_start Monthly = StartOfMonth"
| "window_start Yearly = StartOfYear"

section \<open>Resolving budgets\<close>

record effective_quota =
  eq_currency :: string
  eq_daily :: "int option"
  eq_monthly :: "int option"
  eq_yearly :: "int option"

fun eq_budget :: "period \<Rightarrow> effective_quota \<Rightarrow> int option" where
  "eq_budget Daily q = eq_daily q"
| "eq_budget Monthly q = eq_monthly q"
| "eq_budget Yearly q = eq_yearly q"

text \<open>Of an organization the service reads whether it shares its budget equally and how many members it has.\<close>

record 'e org_reader =
  or_shareQuotaEqually :: "string \<Rightarrow> ('e store_error, bool) result"
  or_memberCount :: "string \<Rightarrow> ('e store_error, nat) result"

definition DefaultCurrency :: string where
  "DefaultCurrency = ''USD''"

definition hasBudget :: "quota option \<Rightarrow> bool" where
  "hasBudget q = (case q of None \<Rightarrow> False | Some q \<Rightarrow> q_daily q \<noteq> None \<or> q_monthly q \<noteq> None \<or> q_yearly q \<noteq> None)"

definition divPtr :: "int option \<Rightarrow> int \<Rightarrow> int option" where
  "divPtr v n = map_option (\<lambda>x. x sdiv n) v"

definition ptrOf :: "quota option \<Rightarrow> (quota \<Rightarrow> int option) \<Rightarrow> int option" where
  "ptrOf q f = (case q of None \<Rightarrow> None | Some q \<Rightarrow> f q)"

fun minPtrSvc :: "int option \<Rightarrow> int option \<Rightarrow> int option" where
  "minPtrSvc None b = b"
| "minPtrSvc a None = a"
| "minPtrSvc (Some a) (Some b) = (if a < b then Some a else Some b)"

definition share_quota :: "string \<Rightarrow> quota \<Rightarrow> int \<Rightarrow> effective_quota" where
  "share_quota currency q n =
     \<lparr>eq_currency = currency, eq_daily = divPtr (q_daily q) n, eq_monthly = divPtr (q_monthly q) n,
      eq_yearly = divPtr (q_yearly q) n\<rparr>"

definition min_quota :: "string \<Rightarrow> quota option \<Rightarrow> quota option \<Rightarrow> effective_quota" where
  "min_quota currency a b =
     \<lparr>eq_currency = currency, eq_daily = minPtrSvc (ptrOf a q_daily) (ptrOf b q_daily),
      eq_monthly = minPtrSvc (ptrOf a q_monthly) (ptrOf b q_monthly),
      eq_yearly = minPtrSvc (ptrOf a q_yearly) (ptrOf b q_yearly)\<rparr>"

definition own_quota :: "quota \<Rightarrow> effective_quota" where
  "own_quota q = \<lparr>eq_currency = q_currency q, eq_daily = q_daily q, eq_monthly = q_monthly q, eq_yearly = q_yearly q\<rparr>"

definition ResolveEffectiveQuota :: "'e quota_reader \<Rightarrow> 'e org_reader \<Rightarrow> string \<Rightarrow> string
    \<Rightarrow> ('e store_error, effective_quota \<times> quota option) result" where
  "ResolveEffectiveQuota r orgs userID orgID =
     rbind (getOptionalQuota r QuotaScopeUser userID) (\<lambda>userQuota.
     rbind (getOptionalQuota r QuotaScopeOrg orgID) (\<lambda>orgQuota.
     rbind (or_shareQuotaEqually orgs orgID) (\<lambda>share.
       (let currency = (case orgQuota of
                          Some q \<Rightarrow> q_currency q
                        | None \<Rightarrow> (case userQuota of
                                    Some q \<Rightarrow> if hasBudget userQuota then q_currency q else DefaultCurrency
                                  | None \<Rightarrow> DefaultCurrency))
        in case orgQuota of
             Some q \<Rightarrow>
               if \<not> hasBudget userQuota \<and> share then
                 rbind (or_memberCount orgs orgID) (\<lambda>n.
                   if n > 0 then Inr (share_quota currency q (int n), orgQuota)
                   else Inr (\<lparr>eq_currency = currency, eq_daily = None, eq_monthly = None, eq_yearly = None\<rparr>, orgQuota))
               else Inr (min_quota currency userQuota orgQuota, orgQuota)
           | None \<Rightarrow> Inr (min_quota currency userQuota orgQuota, orgQuota)))))"

definition ResolveEffectiveQuotaForApplication :: "'e quota_reader \<Rightarrow> string \<Rightarrow> string
    \<Rightarrow> ('e store_error, effective_quota \<times> quota option) result" where
  "ResolveEffectiveQuotaForApplication r appID orgID =
     rbind (getOptionalQuota r QuotaScopeApplication appID) (\<lambda>appQuota.
     rbind (getOptionalQuota r QuotaScopeOrg orgID) (\<lambda>orgQuota.
       (let currency = (case orgQuota of
                          Some q \<Rightarrow> q_currency q
                        | None \<Rightarrow> (case appQuota of Some q \<Rightarrow> q_currency q | None \<Rightarrow> DefaultCurrency))
        in Inr (min_quota currency appQuota orgQuota, orgQuota))))"

datatype user_quota_source = UserQuotaPersonal | UserQuotaShared | UserQuotaNone

definition no_user_quota :: "string \<Rightarrow> user_quota_source \<times> effective_quota" where
  "no_user_quota currency = (UserQuotaNone, \<lparr>eq_currency = currency, eq_daily = None, eq_monthly = None, eq_yearly = None\<rparr>)"

definition ResolveUserQuota :: "'e quota_reader \<Rightarrow> 'e org_reader \<Rightarrow> string \<Rightarrow> string
    \<Rightarrow> ('e store_error, user_quota_source \<times> effective_quota) result" where
  "ResolveUserQuota r orgs userID orgID =
     rbind (getOptionalQuota r QuotaScopeUser userID) (\<lambda>userQuota.
       (case (if hasBudget userQuota then userQuota else None) of
          Some q \<Rightarrow> Inr (UserQuotaPersonal, own_quota q)
        | None \<Rightarrow>
            rbind (getOptionalQuota r QuotaScopeOrg orgID) (\<lambda>orgQuota.
              (case orgQuota of
                 None \<Rightarrow> Inr (no_user_quota DefaultCurrency)
               | Some org \<Rightarrow>
                   rbind (or_shareQuotaEqually orgs orgID) (\<lambda>share.
                     if \<not> share then Inr (no_user_quota (q_currency org))
                     else rbind (or_memberCount orgs orgID) (\<lambda>n.
                            if n = 0 then Inr (no_user_quota (q_currency org))
                            else Inr (UserQuotaShared, share_quota (q_currency org) org (int n))))))))"

datatype 'e quota_error = QuotaStoreError "'e store_error" | NoTeamStore

fun lift_quota :: "('e store_error, 'a) result \<Rightarrow> ('e quota_error, 'a) result" where
  "lift_quota (Inl e) = Inl (QuotaStoreError e)"
| "lift_quota (Inr a) = Inr a"

text \<open>\<open>teams\<close> tells whether the service was given a team store.\<close>

definition ResolveTeamQuotas :: "'e quota_reader \<Rightarrow> bool \<Rightarrow> string \<Rightarrow> string
    \<Rightarrow> ('e quota_error, quota option \<times> effective_quota option) result" where
  "ResolveTeamQuotas r teams teamID userID =
     (if \<not> teams then Inl NoTeamStore
      else
        rbind (lift_quota (getOptionalQuota r QuotaScopeTeam teamID)) (\<lambda>teamQuota.
          if userID = [] then Inr (teamQuota, None)
          else
            rbind (lift_quota (getOptionalQuota r QuotaScopeTeamMember (TeamMemberScopeID teamID userID))) (\<lambda>memberQuota.
              (case memberQuota of
                 Some q \<Rightarrow> Inr (teamQuota, Some (own_quota q))
               | None \<Rightarrow>
                   (case teamQuota of
                      None \<Rightarrow> Inr (None, None)
                    | Some tq \<Rightarrow>
                        rbind (lift_quota (qr_getTeam r teamID)) (\<lambda>team.
                          if \<not> t_shareQuotaEqually team then Inr (teamQuota, None)
                          else
                            rbind (lift_quota (qr_teamMembers r teamID)) (\<lambda>members.
                              (let n = length (filter tm_active members) in
                               if n = 0 then Inr (teamQuota, None)
                               else Inr (teamQuota, Some (share_quota (q_currency tq) tq (int n)))))))))))"

section \<open>The enforcer\<close>

text \<open>
  \<open>rq_exec\<close> is the pipeline execution found in the metadata: whether it holds a client, and the identifier
  of the model it resolved.
\<close>

record proxy_request =
  rq_userID :: string
  rq_orgID :: string
  rq_appID :: string
  rq_teamID :: string
  rq_modelID :: string
  rq_model :: string
  rq_exec :: "(bool \<times> string) option"

record llm_model =
  lm_promptCost :: int
  lm_completionCost :: int
  lm_providerID :: string

text \<open>The provider store; a lookup that fails is only logged and answers \<open>None\<close>.\<close>

record provider_reader =
  pr_modelByID :: "string \<Rightarrow> llm_model option"
  pr_modelByProxyName :: "string \<Rightarrow> string \<Rightarrow> llm_model option"
  pr_subscription :: "string \<Rightarrow> bool option"

record rejection =
  rj_subject :: string
  rj_spent :: int
  rj_budget :: int
  rj_currency :: string

type_synonym 'e spent_since = "quota_scope \<Rightarrow> string \<Rightarrow> string \<Rightarrow> civil \<Rightarrow> ('e, int) result"

fun period_title :: "period \<Rightarrow> string" where
  "period_title Daily = ''Daily''"
| "period_title Monthly = ''Monthly''"
| "period_title Yearly = ''Yearly''"

definition quotaMessageSubject :: "string \<Rightarrow> string \<Rightarrow> string" where
  "quotaMessageSubject subjectPrefix periodTitle =
     (case periodTitle of
        [] \<Rightarrow> if subjectPrefix = [] then ''budget exceeded'' else subjectPrefix @ '' budget exceeded''
      | c # cs \<Rightarrow>
          (let per = char_of (fold_char c) # cs
           in if subjectPrefix = [] then per @ '' budget exceeded''
              else subjectPrefix @ '' '' @ per @ '' budget exceeded''))"

definition quotaPeriods :: "period list" where
  "quotaPeriods = [Daily, Monthly, Yearly]"

fun check_budgets :: "(period \<Rightarrow> ('e, int) result) \<Rightarrow> (period \<Rightarrow> int option) \<Rightarrow> string \<Rightarrow> string \<Rightarrow> period list
    \<Rightarrow> ('e, rejection option) result" where
  "check_budgets spentOf budgetOf currency subject [] = Inr None"
| "check_budgets spentOf budgetOf currency subject (per # periods) =
     (case budgetOf per of
        None \<Rightarrow> check_budgets spentOf budgetOf currency subject periods
      | Some budget \<Rightarrow>
          rbind (spentOf per) (\<lambda>spent.
            if spent \<ge> budget
            then Inr (Some \<lparr>rj_subject = quotaMessageSubject subject (period_title per), rj_spent = spent,
                            rj_budget = budget, rj_currency = currency\<rparr>)
            else check_budgets spentOf budgetOf currency subject periods))"

definition checkScope :: "'e spent_since \<Rightarrow> quota_scope \<Rightarrow> string \<Rightarrow> string \<Rightarrow> civil \<Rightarrow> effective_quota \<Rightarrow> string
    \<Rightarrow> ('e, rejection option) result" where
  "checkScope spent scope scopeID orgID now quota subject =
     check_budgets (\<lambda>per. spent scope scopeID orgID (window_start per now)) (\<lambda>per. eq_budget per quota)
       (eq_currency quota) subject quotaPeriods"

definition checkOrgWide :: "'e spent_since \<Rightarrow> quota option \<Rightarrow> string \<Rightarrow> civil \<Rightarrow> ('e, rejection option) result" where
  "checkOrgWide spent orgQuota orgID now =
     (case orgQuota of
        None \<Rightarrow> Inr None
      | Some q \<Rightarrow>
          check_budgets (\<lambda>per. spent QuotaScopeOrg orgID orgID (window_start per now)) (\<lambda>per. period_budget per q)
            (q_currency q) ''Organization'' [Daily, Monthly, Yearly])"

definition pipelineAnsweredWithoutProvider :: "proxy_request \<Rightarrow> bool" where
  "pipelineAnsweredWithoutProvider req =
     (case rq_exec req of None \<Rightarrow> False | Some (hasClient, modelID) \<Rightarrow> hasClient \<and> modelID = [])"

definition parseQualifiedModelName :: "string \<Rightarrow> (string \<times> string) option" where
  "parseQualifiedModelName name =
     (case ParseModelName name None of
        None \<Rightarrow> None
      | Some n \<Rightarrow> if \<not> Qualified n \<or> Personal n then None else Some (mn_org n, mn_local n))"

definition resolveModelAndProvider :: "provider_reader \<Rightarrow> proxy_request \<Rightarrow> llm_model option \<times> bool option" where
  "resolveModelAndProvider ps req =
     (let llm = (if rq_modelID req \<noteq> [] then pr_modelByID ps (rq_modelID req)
                 else if rq_orgID req = [] then None
                 else (case parseQualifiedModelName (rq_model req) of
                         None \<Rightarrow> None
                       | Some (_, proxyName) \<Rightarrow> pr_modelByProxyName ps (rq_orgID req) proxyName))
      in case llm of None \<Rightarrow> (None, None) | Some m \<Rightarrow> (Some m, pr_subscription ps (lm_providerID m)))"

definition quota_exempt :: "provider_reader \<Rightarrow> proxy_request \<Rightarrow> bool" where
  "quota_exempt ps req =
     (pipelineAnsweredWithoutProvider req \<or>
      (case resolveModelAndProvider ps req of
         (None, _) \<Rightarrow> False
       | (Some m, provider) \<Rightarrow>
           (lm_promptCost m = 0 \<and> lm_completionCost m = 0) \<or> provider = Some True))"

datatype 'e enforcer_error = ResolverError "'e quota_error" | UsageError 'e

fun lift_resolver :: "('e quota_error, 'a) result \<Rightarrow> ('e enforcer_error, 'a) result" where
  "lift_resolver (Inl e) = Inl (ResolverError e)"
| "lift_resolver (Inr a) = Inr a"

fun lift_usage :: "('e, 'a) result \<Rightarrow> ('e enforcer_error, 'a) result" where
  "lift_usage (Inl e) = Inl (UsageError e)"
| "lift_usage (Inr a) = Inr a"

text \<open>One check after the other: the first refusal or failure ends the request.\<close>

definition and_then :: "('e enforcer_error, rejection option) result \<Rightarrow> ('e enforcer_error, rejection option) result
    \<Rightarrow> ('e enforcer_error, rejection option) result" where
  "and_then a b = rbind a (\<lambda>res. case res of Some rj \<Rightarrow> Inr (Some rj) | None \<Rightarrow> b)"

text \<open>The check of the principal, an application or a user, and of its organization.\<close>

definition check_principal :: "'e spent_since \<Rightarrow> quota_scope \<Rightarrow> string \<Rightarrow> string \<Rightarrow> civil \<Rightarrow> string
    \<Rightarrow> ('e store_error, effective_quota \<times> quota option) result \<Rightarrow> ('e enforcer_error, rejection option) result" where
  "check_principal spent scope i orgID now subject resolved =
     rbind (lift_resolver (lift_quota resolved)) (\<lambda>(effective, orgQuota).
       and_then (lift_usage (checkScope spent scope i orgID now effective subject))
         (lift_usage (checkOrgWide spent orgQuota orgID now)))"

text \<open>The check of the team levels; \<open>memberID\<close> is empty for an application.\<close>

definition check_team :: "'e quota_reader \<Rightarrow> bool \<Rightarrow> 'e spent_since \<Rightarrow> string \<Rightarrow> civil \<Rightarrow> string \<Rightarrow> string
    \<Rightarrow> ('e enforcer_error, rejection option) result" where
  "check_team r teams spent orgID now teamID memberID =
     rbind (lift_resolver (ResolveTeamQuotas r teams teamID memberID)) (\<lambda>(teamQuota, member).
       and_then
         (case teamQuota of
            None \<Rightarrow> Inr None
          | Some q \<Rightarrow> lift_usage (checkScope spent QuotaScopeTeam teamID orgID now (own_quota q) ''Team''))
         (case member of
            None \<Rightarrow> Inr None
          | Some q \<Rightarrow>
              lift_usage (checkScope spent QuotaScopeTeamMember (TeamMemberScopeID teamID memberID) orgID now q ''Team member'')))"

definition PreRequest :: "'e quota_reader \<Rightarrow> 'e org_reader \<Rightarrow> bool \<Rightarrow> 'e spent_since \<Rightarrow> provider_reader \<Rightarrow> civil
    \<Rightarrow> proxy_request \<Rightarrow> ('e enforcer_error, rejection option) result" where
  "PreRequest r orgs teams spent ps now req =
     (let userID = rq_userID req; orgID = rq_orgID req; appID = rq_appID req; teamID = rq_teamID req in
      if userID = [] \<or> orgID = [] then Inr None
      else if quota_exempt ps req then Inr None
      else
        and_then
          (if appID \<noteq> []
           then check_principal spent QuotaScopeApplication appID orgID now ''Application''
                  (ResolveEffectiveQuotaForApplication r appID orgID)
           else check_principal spent QuotaScopeUser userID orgID now ''User'' (ResolveEffectiveQuota r orgs userID orgID))
          (if teamID = [] then Inr None
           else check_team r teams spent orgID now teamID (if appID \<noteq> [] then [] else userID)))"

end
