(* ===== verification/Quota_Enforcer_Safety.thy ===== *)
theory Quota_Enforcer_Safety
  imports Quota_Enforcer
begin

text \<open>
  What the budget hook guarantees: a request that goes through is below every budget set on its path, a
  request that is refused is over the budget its refusal names, and equal shares never overcommit.
\<close>

section \<open>The checks\<close>

lemma check_budgets_None:
  "check_budgets spentOf budgetOf currency subject ps = Inr None \<longleftrightarrow>
   (\<forall>per \<in> set ps. \<forall>b. budgetOf per = Some b \<longrightarrow> (\<exists>s. spentOf per = Inr s \<and> s < b))"
proof (induction ps)
  case (Cons p ps)
  then show ?case
    by (cases "budgetOf p"; cases "spentOf p") (auto simp: not_le)
qed simp

lemma check_budgets_Some:
  "check_budgets spentOf budgetOf currency subject ps = Inr (Some rj) \<Longrightarrow>
   \<exists>per. budgetOf per = Some (rj_budget rj) \<and> spentOf per = Inr (rj_spent rj) \<and> rj_budget rj \<le> rj_spent rj \<and>
     rj_currency rj = currency"
  by (induction ps) (auto simp: result_simps split: option.splits if_splits)

lemma in_periods: "per \<in> set quotaPeriods" "per \<in> set [Daily, Monthly, Yearly]"
  by (cases per; simp add: quotaPeriods_def)+

lemma checkScope_None:
  "checkScope spent scope i org now q subject = Inr None \<longleftrightarrow>
   (\<forall>per b. eq_budget per q = Some b \<longrightarrow> (\<exists>s. spent scope i org (window_start per now) = Inr s \<and> s < b))"
  using in_periods(1) unfolding checkScope_def check_budgets_None by blast

text \<open>The spending of a scope is known and below the budget of every period the quota sets.\<close>

definition under_budget :: "'e spent_since \<Rightarrow> quota_scope \<Rightarrow> string \<Rightarrow> string \<Rightarrow> civil \<Rightarrow> quota \<Rightarrow> bool" where
  "under_budget spent scope i org now q \<longleftrightarrow>
     (\<forall>per b. period_budget per q = Some b \<longrightarrow> (\<exists>s. spent scope i org (window_start per now) = Inr s \<and> s < b))"

lemma checkOrgWide_None:
  "checkOrgWide spent orgQuota org now = Inr None \<longleftrightarrow>
   (\<forall>q. orgQuota = Some q \<longrightarrow> under_budget spent QuotaScopeOrg org org now q)"
proof (cases orgQuota)
  case (Some q)
  show ?thesis using in_periods(2) unfolding checkOrgWide_def Some option.case check_budgets_None under_budget_def by blast
qed (simp add: checkOrgWide_def)

lemma lift_None [simp]:
  "lift_usage r = Inr x \<longleftrightarrow> r = Inr x"
  "lift_resolver r' = Inr x' \<longleftrightarrow> r' = Inr x'"
  "lift_quota r'' = Inr x'' \<longleftrightarrow> r'' = Inr x''"
  by (cases r; cases r'; cases r''; simp)+

lemma and_then_None: "and_then a b = Inr None \<longleftrightarrow> a = Inr None \<and> b = Inr None"
  by (auto simp: and_then_def result_simps split: option.splits)

lemma and_then_Some: "and_then a b = Inr (Some rj) \<longleftrightarrow> a = Inr (Some rj) \<or> (a = Inr None \<and> b = Inr (Some rj))"
  by (auto simp: and_then_def result_simps split: option.splits)

section \<open>Resolved budgets bound the configured ones\<close>

lemma eq_budget_own [simp]: "eq_budget per (own_quota q) = period_budget per q"
  by (cases per) (simp_all add: own_quota_def)

lemma eq_budget_min: "eq_budget per (min_quota c a b) = minPtrSvc (ptrOf a (period_budget per)) (ptrOf b (period_budget per))"
  by (cases per) (auto simp: min_quota_def ptrOf_def split: option.splits)

lemma minPtrSvc_bound: "x = Some v \<or> y = Some v \<Longrightarrow> \<exists>m. minPtrSvc x y = Some m \<and> m \<le> v"
  by (cases "(x, y)" rule: minPtrSvc.cases) auto

lemma min_quota_left: "period_budget per q = Some b \<Longrightarrow> \<exists>m. eq_budget per (min_quota c (Some q) o') = Some m \<and> m \<le> b"
  by (simp add: eq_budget_min ptrOf_def minPtrSvc_bound)

lemma hasBudgetI: "period_budget per q = Some b \<Longrightarrow> hasBudget (Some q)"
  by (cases per) (auto simp: hasBudget_def)

lemma ResolveEffectiveQuota_user:
  assumes "ResolveEffectiveQuota r orgs u org = Inr (eff, oq)"
  shows "getOptionalQuota r QuotaScopeOrg org = Inr oq \<and>
    (\<forall>q per b. getOptionalQuota r QuotaScopeUser u = Inr (Some q) \<longrightarrow> period_budget per q = Some b \<longrightarrow>
       (\<exists>m. eq_budget per eff = Some m \<and> m \<le> b))"
proof -
  obtain uq where uq: "getOptionalQuota r QuotaScopeUser u = Inr uq"
    using assms by (cases "getOptionalQuota r QuotaScopeUser u") (auto simp: ResolveEffectiveQuota_def)
  obtain oq' where oq': "getOptionalQuota r QuotaScopeOrg org = Inr oq'"
    using assms uq by (cases "getOptionalQuota r QuotaScopeOrg org") (auto simp: ResolveEffectiveQuota_def)
  obtain share where share: "or_shareQuotaEqually orgs org = Inr share"
    using assms uq oq' by (cases "or_shareQuotaEqually orgs org") (auto simp: ResolveEffectiveQuota_def)
  have same: "oq' = oq" and eff: "hasBudget uq \<Longrightarrow> \<exists>c. eff = min_quota c uq oq"
    using assms uq oq' share
    by (cases oq'; cases "hasBudget uq"; cases share; auto simp: ResolveEffectiveQuota_def Let_def result_simps split: if_splits)+
  have "\<exists>m. eq_budget per eff = Some m \<and> m \<le> b" if "uq = Some q" "period_budget per q = Some b" for q per b
    using eff min_quota_left [OF that(2)] hasBudgetI [OF that(2)] that(1) by auto
  with uq oq' same show ?thesis by auto
qed

lemma ResolveEffectiveQuotaForApplication_app:
  assumes "ResolveEffectiveQuotaForApplication r a org = Inr (eff, oq)"
  shows "getOptionalQuota r QuotaScopeOrg org = Inr oq \<and>
    (\<forall>q per b. getOptionalQuota r QuotaScopeApplication a = Inr (Some q) \<longrightarrow> period_budget per q = Some b \<longrightarrow>
       (\<exists>m. eq_budget per eff = Some m \<and> m \<le> b))"
  using assms min_quota_left by (auto simp: ResolveEffectiveQuotaForApplication_def result_simps Let_def)

lemma ResolveTeamQuotas_levels:
  assumes "ResolveTeamQuotas r teams team u = Inr (tq, mq)"
  shows "getOptionalQuota r QuotaScopeTeam team = Inr tq \<and>
    (u \<noteq> [] \<longrightarrow> (\<forall>q. getOptionalQuota r QuotaScopeTeamMember (TeamMemberScopeID team u) = Inr (Some q) \<longrightarrow> mq = Some (own_quota q)))"
  using assms by (auto simp: ResolveTeamQuotas_def result_simps Let_def split: option.splits if_splits)

lemma checkScope_under_budget:
  assumes "checkScope spent scope i org now eff subject = Inr None"
    and "\<And>per b. period_budget per q = Some b \<Longrightarrow> \<exists>m. eq_budget per eff = Some m \<and> m \<le> b"
  shows "under_budget spent scope i org now q"
  using assms unfolding checkScope_None under_budget_def by (meson order_less_le_trans)

section \<open>Every budget on the path is enforced\<close>

lemma check_principal_None:
  "check_principal spent scope i org now subject resolved = Inr None \<longleftrightarrow>
   (\<exists>eff oq. resolved = Inr (eff, oq) \<and> checkScope spent scope i org now eff subject = Inr None \<and>
      checkOrgWide spent oq org now = Inr None)"
  by (auto simp: check_principal_def result_simps and_then_None)

lemma check_team_None:
  "check_team r teams spent org now team member = Inr None \<longleftrightarrow>
   (\<exists>tq mq. ResolveTeamQuotas r teams team member = Inr (tq, mq) \<and>
      (\<forall>q. tq = Some q \<longrightarrow> checkScope spent QuotaScopeTeam team org now (own_quota q) ''Team'' = Inr None) \<and>
      (\<forall>q. mq = Some q \<longrightarrow> checkScope spent QuotaScopeTeamMember (TeamMemberScopeID team member) org now q ''Team member'' = Inr None))"
  by (cases "ResolveTeamQuotas r teams team member") (auto simp: check_team_def and_then_None split: option.splits)

lemma check_principal_app:
  assumes "check_principal spent QuotaScopeApplication i org now subject (ResolveEffectiveQuotaForApplication r i org) = Inr None"
  shows "(\<forall>q. getOptionalQuota r QuotaScopeOrg org = Inr (Some q) \<longrightarrow> under_budget spent QuotaScopeOrg org org now q) \<and>
    (\<forall>q. getOptionalQuota r QuotaScopeApplication i = Inr (Some q) \<longrightarrow> under_budget spent QuotaScopeApplication i org now q)"
proof -
  obtain eff oq where eff: "ResolveEffectiveQuotaForApplication r i org = Inr (eff, oq)"
      "checkScope spent QuotaScopeApplication i org now eff subject = Inr None" "checkOrgWide spent oq org now = Inr None"
    using assms unfolding check_principal_None by blast
  with ResolveEffectiveQuotaForApplication_app [OF eff(1)] checkScope_under_budget [OF eff(2)] show ?thesis
    by (simp add: checkOrgWide_None)
qed

lemma check_principal_user:
  assumes "check_principal spent QuotaScopeUser i org now subject (ResolveEffectiveQuota r orgs i org) = Inr None"
  shows "(\<forall>q. getOptionalQuota r QuotaScopeOrg org = Inr (Some q) \<longrightarrow> under_budget spent QuotaScopeOrg org org now q) \<and>
    (\<forall>q. getOptionalQuota r QuotaScopeUser i = Inr (Some q) \<longrightarrow> under_budget spent QuotaScopeUser i org now q)"
proof -
  obtain eff oq where eff: "ResolveEffectiveQuota r orgs i org = Inr (eff, oq)"
      "checkScope spent QuotaScopeUser i org now eff subject = Inr None" "checkOrgWide spent oq org now = Inr None"
    using assms unfolding check_principal_None by blast
  with ResolveEffectiveQuota_user [OF eff(1)] checkScope_under_budget [OF eff(2)] show ?thesis
    by (simp add: checkOrgWide_None)
qed

lemma check_team_levels:
  assumes "check_team r teams spent org now team member = Inr None"
  shows "(\<forall>q. getOptionalQuota r QuotaScopeTeam team = Inr (Some q) \<longrightarrow> under_budget spent QuotaScopeTeam team org now q) \<and>
    (member \<noteq> [] \<longrightarrow> (\<forall>q. getOptionalQuota r QuotaScopeTeamMember (TeamMemberScopeID team member) = Inr (Some q) \<longrightarrow>
       under_budget spent QuotaScopeTeamMember (TeamMemberScopeID team member) org now q))"
proof -
  obtain tq mq where res: "ResolveTeamQuotas r teams team member = Inr (tq, mq)"
      and t: "\<And>q. tq = Some q \<Longrightarrow> checkScope spent QuotaScopeTeam team org now (own_quota q) ''Team'' = Inr None"
      and m: "\<And>q. mq = Some q \<Longrightarrow> checkScope spent QuotaScopeTeamMember (TeamMemberScopeID team member) org now q ''Team member'' = Inr None"
    using assms unfolding check_team_None by blast
  have own: "under_budget spent scope i org now q" if "checkScope spent scope i org now (own_quota q) subject = Inr None" for scope i q subject
    by (rule checkScope_under_budget [OF that]) simp
  show ?thesis using ResolveTeamQuotas_levels [OF res] own t m by fastforce
qed

lemma PreRequest_under_budget:
  assumes "PreRequest r orgs teams spent ps now req = Inr None"
    and "rq_userID req \<noteq> []" and "rq_orgID req \<noteq> []" and "\<not> quota_exempt ps req"
    and "getOptionalQuota r scope scopeID = Inr (Some q)"
    and "(scope, scopeID) = (QuotaScopeOrg, rq_orgID req) \<or>
         (scope, scopeID) = (if rq_appID req \<noteq> [] then (QuotaScopeApplication, rq_appID req) else (QuotaScopeUser, rq_userID req)) \<or>
         rq_teamID req \<noteq> [] \<and> (scope, scopeID) = (QuotaScopeTeam, rq_teamID req) \<or>
         rq_teamID req \<noteq> [] \<and> rq_appID req = [] \<and>
           (scope, scopeID) = (QuotaScopeTeamMember, TeamMemberScopeID (rq_teamID req) (rq_userID req))"
  shows "under_budget spent scope scopeID (rq_orgID req) now q"
proof -
  let ?org = "rq_orgID req" and ?team = "rq_teamID req"
  have team: "?team \<noteq> [] \<Longrightarrow> check_team r teams spent ?org now ?team (if rq_appID req \<noteq> [] then [] else rq_userID req) = Inr None"
    using assms(1-4) by (auto simp: PreRequest_def Let_def and_then_None)
  show ?thesis
  proof (cases "rq_appID req = []")
    case True
    then have "check_principal spent QuotaScopeUser (rq_userID req) ?org now ''User'' (ResolveEffectiveQuota r orgs (rq_userID req) ?org) = Inr None"
      using assms(1-4) by (simp add: PreRequest_def Let_def and_then_None)
    from check_principal_user [OF this] check_team_levels [OF team] show ?thesis
      using assms(2,5,6) True by auto
  next
    case False
    then have "check_principal spent QuotaScopeApplication (rq_appID req) ?org now ''Application''
        (ResolveEffectiveQuotaForApplication r (rq_appID req) ?org) = Inr None"
      using assms(1-4) by (simp add: PreRequest_def Let_def and_then_None)
    from check_principal_app [OF this] check_team_levels [OF team] show ?thesis
      using assms(5,6) False by auto
  qed
qed

text \<open>
  C14.  Budgets are enforced at every level: a request of an authenticated user that is not exempt (free
  model, subscription, answer without provider) goes through only when its spending is known and below
  the budget of every period of the organization, of the application or else of the user, and, when it
  is attributed to a team, of the team and of the member inside the team.
\<close>

theorem PreRequest_enforces_budgets:
  assumes "PreRequest r orgs teams spent ps now req = Inr None"
    and "rq_userID req \<noteq> []" and "rq_orgID req \<noteq> []" and "\<not> quota_exempt ps req"
    and "getOptionalQuota r scope scopeID = Inr (Some q)"
    and "(scope, scopeID) = (QuotaScopeOrg, rq_orgID req) \<or>
         (scope, scopeID) = (if rq_appID req \<noteq> [] then (QuotaScopeApplication, rq_appID req) else (QuotaScopeUser, rq_userID req)) \<or>
         rq_teamID req \<noteq> [] \<and> (scope, scopeID) = (QuotaScopeTeam, rq_teamID req) \<or>
         rq_teamID req \<noteq> [] \<and> rq_appID req = [] \<and>
           (scope, scopeID) = (QuotaScopeTeamMember, TeamMemberScopeID (rq_teamID req) (rq_userID req))"
  shows "under_budget spent scope scopeID (rq_orgID req) now q"
  using assms by (rule PreRequest_under_budget)

text \<open>An organization of the sample table, with a team of daily budget 60, and constant spending.\<close>

definition demo_orgs :: "unit org_reader" where
  "demo_orgs = \<lparr>or_shareQuotaEqually = (\<lambda>_. Inr False), or_memberCount = (\<lambda>_. Inr 3)\<rparr>"

definition demo_providers :: provider_reader where
  "demo_providers =
     \<lparr>pr_modelByID = (\<lambda>_. Some \<lparr>lm_promptCost = 2, lm_completionCost = 6, lm_providerID = ''p''\<rparr>),
      pr_modelByProxyName = (\<lambda>_ _. None), pr_subscription = (\<lambda>_. Some False)\<rparr>"

definition demo_request :: proxy_request where
  "demo_request =
     \<lparr>rq_userID = ''u'', rq_orgID = ''o'', rq_appID = [], rq_teamID = ''a'', rq_modelID = ''m'', rq_model = ''o/gpt'', rq_exec = None\<rparr>"

definition demo_now :: civil where
  "demo_now = \<lparr>cv_year = 2026, cv_month = 3, cv_day = 14, cv_nanos = 5\<rparr>"

definition demo_spent :: "int \<Rightarrow> unit spent_since" where
  "demo_spent x scope i org since = Inr x"

abbreviation demo_reader :: "unit quota_reader" where
  "demo_reader \<equiv> reader_of GetQuota ListQuotas cascade_structure (cascade_rows 60 40)"

lemma demo_accepted: "PreRequest demo_reader demo_orgs True (demo_spent 59) demo_providers demo_now demo_request = Inr None"
  by code_simp

lemma demo_refused:
  "PreRequest demo_reader demo_orgs True (demo_spent 60) demo_providers demo_now demo_request =
     Inr (Some \<lparr>rj_subject = ''Team daily budget exceeded'', rj_spent = 60, rj_budget = 60, rj_currency = ''EUR''\<rparr>)"
  by code_simp

theorem PreRequest_enforces_budgets_witness:
  "under_budget (demo_spent 59) QuotaScopeTeam ''a'' ''o'' demo_now (daily_quota QuotaScopeTeam ''a'' 60)"
proof -
  have "getOptionalQuota demo_reader QuotaScopeTeam ''a'' = Inr (Some (daily_quota QuotaScopeTeam ''a'' 60))" by code_simp
  moreover have "\<not> quota_exempt demo_providers demo_request" by code_simp
  ultimately show ?thesis
    using PreRequest_enforces_budgets [OF demo_accepted, of QuotaScopeTeam "''a''" "daily_quota QuotaScopeTeam ''a'' 60"]
    by (simp add: demo_request_def)
qed

section \<open>Refusals are justified\<close>

lemma checkScope_Some:
  "checkScope spent scope i org now eff subject = Inr (Some rj) \<Longrightarrow>
   \<exists>per. spent scope i org (window_start per now) = Inr (rj_spent rj) \<and> eq_budget per eff = Some (rj_budget rj) \<and>
     rj_budget rj \<le> rj_spent rj"
  by (auto simp: checkScope_def dest: check_budgets_Some)

lemma checkOrgWide_Some:
  "checkOrgWide spent oq org now = Inr (Some rj) \<Longrightarrow>
   \<exists>per. spent QuotaScopeOrg org org (window_start per now) = Inr (rj_spent rj) \<and> rj_budget rj \<le> rj_spent rj"
  by (auto simp: checkOrgWide_def simp del: check_budgets.simps dest: check_budgets_Some split: option.splits)

definition over_budget :: "'e spent_since \<Rightarrow> quota_scope \<Rightarrow> string \<Rightarrow> string \<Rightarrow> civil \<Rightarrow> rejection \<Rightarrow> bool" where
  "over_budget spent scope i org now rj \<longleftrightarrow>
     (\<exists>per. spent scope i org (window_start per now) = Inr (rj_spent rj)) \<and> rj_budget rj \<le> rj_spent rj"

lemma check_principal_Some:
  "check_principal spent scope i org now subject resolved = Inr (Some rj) \<Longrightarrow>
   over_budget spent scope i org now rj \<or> over_budget spent QuotaScopeOrg org org now rj"
  by (auto simp: check_principal_def result_simps and_then_Some over_budget_def dest!: checkScope_Some checkOrgWide_Some)

lemma check_team_Some:
  "check_team r teams spent org now team member = Inr (Some rj) \<Longrightarrow>
   over_budget spent QuotaScopeTeam team org now rj \<or>
   over_budget spent QuotaScopeTeamMember (TeamMemberScopeID team member) org now rj"
  by (cases "ResolveTeamQuotas r teams team member")
     (auto simp: check_team_def and_then_Some over_budget_def dest!: checkScope_Some split: option.splits)

text \<open>
  Refusals are justified: a request is refused only when the spending recorded for one of the levels on
  its path, over the day, month or year, has reached the amount the refusal names.  Free models,
  subscriptions and answers without a provider are never refused.
\<close>

theorem PreRequest_refusal_justified:
  assumes "PreRequest r orgs teams spent ps now req = Inr (Some rj)"
  shows "\<not> quota_exempt ps req \<and>
    (over_budget spent QuotaScopeOrg (rq_orgID req) (rq_orgID req) now rj \<or>
     rq_appID req \<noteq> [] \<and> over_budget spent QuotaScopeApplication (rq_appID req) (rq_orgID req) now rj \<or>
     rq_appID req = [] \<and> over_budget spent QuotaScopeUser (rq_userID req) (rq_orgID req) now rj \<or>
     rq_teamID req \<noteq> [] \<and> over_budget spent QuotaScopeTeam (rq_teamID req) (rq_orgID req) now rj \<or>
     rq_teamID req \<noteq> [] \<and>
       over_budget spent QuotaScopeTeamMember
         (TeamMemberScopeID (rq_teamID req) (if rq_appID req \<noteq> [] then [] else rq_userID req)) (rq_orgID req) now rj)"
proof -
  have ex: "\<not> quota_exempt ps req" using assms by (auto simp: PreRequest_def Let_def split: if_splits)
  show ?thesis
    using assms ex check_principal_Some check_team_Some
    by (cases "rq_appID req = []"; cases "rq_teamID req = []")
       (fastforce simp: PreRequest_def Let_def and_then_Some split: if_splits)+
qed

theorem PreRequest_refusal_justified_witness:
  "over_budget (demo_spent 60) QuotaScopeTeam ''a'' ''o'' demo_now
     \<lparr>rj_subject = ''Team daily budget exceeded'', rj_spent = 60, rj_budget = 60, rj_currency = ''EUR''\<rparr>"
  using PreRequest_refusal_justified [OF demo_refused] by (simp add: over_budget_def demo_spent_def)

section \<open>Equal shares\<close>

lemma eq_budget_share: "eq_budget per (share_quota c q n) = map_option (\<lambda>x. x sdiv n) (period_budget per q)"
  by (cases per) (simp_all add: share_quota_def divPtr_def)

text \<open>
  Equal shares never overcommit: when an organization of \<open>n\<close> members shares its budget equally, a member
  without a personal budget gets for each period the largest whole amount such that \<open>n\<close> times it fits
  the budget of the organization.
\<close>

theorem equal_shares_fit:
  assumes "ResolveEffectiveQuota r orgs userID orgID = Inr (eff, Some q)"
    and "or_shareQuotaEqually orgs orgID = Inr True" and "or_memberCount orgs orgID = Inr n" and "0 < n"
    and "getOptionalQuota r QuotaScopeUser userID = Inr uq" and "\<not> hasBudget uq"
    and "period_budget per q = Some b" and "0 \<le> b"
  shows "\<exists>s. eq_budget per eff = Some s \<and> int n * s \<le> b \<and> b < int n * (s + 1)"
proof -
  have "getOptionalQuota r QuotaScopeOrg orgID = Inr (Some q)"
    using ResolveEffectiveQuota_user [OF assms(1)] by blast
  then obtain c where "eff = share_quota c q (int n)"
    using assms(1-6) by (auto simp: ResolveEffectiveQuota_def Let_def)
  then have "eq_budget per eff = Some (b div int n)"
    using assms(4,7,8) by (simp add: eq_budget_share sdiv_pos)
  moreover have "int n * (b div int n) + b mod int n = b" "0 \<le> b mod int n" "b mod int n < int n"
    using assms(4) by simp_all
  then have "int n * (b div int n) \<le> b \<and> b < int n * (b div int n + 1)"
    unfolding distrib_left by linarith
  ultimately show ?thesis by blast
qed

theorem equal_shares_fit_witness:
  "\<exists>s. eq_budget Daily \<lparr>eq_currency = ''EUR'', eq_daily = Some 33, eq_monthly = None, eq_yearly = None\<rparr> = Some s \<and>
     3 * s \<le> 100 \<and> 100 < 3 * (s + 1)"
proof -
  let ?orgs = "demo_orgs\<lparr>or_shareQuotaEqually := (\<lambda>_. Inr True)\<rparr>"
  let ?eff = "\<lparr>eq_currency = ''EUR'', eq_daily = Some 33, eq_monthly = None, eq_yearly = None\<rparr>"
  have eff: "ResolveEffectiveQuota demo_reader ?orgs ''u'' ''o'' = Inr (?eff, Some (daily_quota QuotaScopeOrg ''o'' 100))"
    by code_simp
  have u: "getOptionalQuota demo_reader QuotaScopeUser ''u'' = Inr None" by code_simp
  show ?thesis
    using equal_shares_fit [OF eff _ _ _ u, of 3 Daily 100]
    by (simp add: demo_orgs_def hasBudget_def daily_quota_def)
qed

end
