(* ===== verification/Plan_Window.thy ===== *)
theory Plan_Window
  imports Quota Float64
begin

text \<open>
  Subscription plans: the constraints of \<open>src/internal/core/model/billing.go\<close>, their windows, and the weights
  of models on shared constraints.

  An instant is a number of nanoseconds since the Unix epoch, a duration an \<open>int64\<close> of nanoseconds;
  \<open>Time.Sub\<close> saturates, products of durations wrap around.  A conversion of a float64 out of the range of
  \<open>int64\<close> gives the least \<open>int64\<close>, as on amd64.
\<close>

section \<open>Conversions\<close>

definition sat64 :: "int \<Rightarrow> int" where
  "sat64 x = max (- (2 ^ 63)) (min (2 ^ 63 - 1) x)"

definition trunc_rat :: "rat \<Rightarrow> int" where
  "trunc_rat x = (if x < 0 then \<lceil>x\<rceil> else \<lfloor>x\<rfloor>)"

fun f64_to_int64 :: "float64 \<Rightarrow> int" where
  "f64_to_int64 (Fin x) = (let n = trunc_rat x in if - (2 ^ 63) \<le> n \<and> n < 2 ^ 63 then n else - (2 ^ 63))"
| "f64_to_int64 _ = - (2 ^ 63)"

text \<open>\<open>math.Round\<close>: to the nearest integer, halves away from zero.\<close>

fun f64_round :: "float64 \<Rightarrow> float64" where
  "f64_round (Fin x) = Fin (of_int (if x < 0 then - \<lfloor>- x + 1 / 2\<rfloor> else \<lfloor>x + 1 / 2\<rfloor>))"
| "f64_round v = v"

definition f64_sub :: "float64 \<Rightarrow> float64 \<Rightarrow> float64" where
  "f64_sub x y = f64_add x (f64_neg y)"

section \<open>Constraints\<close>

datatype constraint_kind = ConstraintRollingWindow | ConstraintConcurrency | ConstraintOther string

datatype constraint_scope = PlanScopeUnset | PlanScopeProvider | PlanScopeModel | PlanScopeShared | PlanScopeOther string

record plan_budget =
  pb_token :: "int option"
  pb_value :: "int option"

record plan_constraint =
  pc_kind :: constraint_kind
  pc_label :: string
  pc_duration :: int
  pc_tokenBudget :: "int option"
  pc_valueBudget :: "int option"
  pc_maxConcurrent :: "int option"
  pc_scope :: constraint_scope
  pc_modelBudgets :: "(string \<times> plan_budget) list"
  pc_reserveRatio :: "float64 option"
  pc_paceSlack :: "float64 option"
  pc_happyHourStart :: "float64 option"
  pc_happyHourMaxLead :: "int option"
  pc_shareThreshold :: "float64 option"
  pc_windowAnchor :: "int option"

text \<open>The map of model budgets is an association list with distinct keys: iterating over it is in any order.\<close>

record subscription_plan =
  sp_label :: string
  sp_constraints :: "plan_constraint list"

definition PerModel :: "plan_constraint \<Rightarrow> bool" where
  "PerModel c = (pc_kind c = ConstraintRollingWindow \<and> pc_scope c = PlanScopeModel)"

definition Shared :: "plan_constraint \<Rightarrow> bool" where
  "Shared c = (pc_kind c = ConstraintRollingWindow \<and> pc_scope c = PlanScopeShared)"

definition HasSharedConstraint :: "subscription_plan option \<Rightarrow> bool" where
  "HasSharedConstraint p = (case p of None \<Rightarrow> False | Some p \<Rightarrow> list_ex Shared (sp_constraints p))"

definition HasPerModelConstraint :: "subscription_plan option \<Rightarrow> bool" where
  "HasPerModelConstraint p = (case p of None \<Rightarrow> False | Some p \<Rightarrow> list_ex PerModel (sp_constraints p))"

definition ForModel :: "plan_constraint \<Rightarrow> string \<Rightarrow> plan_constraint" where
  "ForModel c realModel =
     (if \<not> PerModel c then c
      else (case map_of (pc_modelBudgets c) realModel of
              Some b \<Rightarrow> c\<lparr>pc_tokenBudget := pb_token b, pc_valueBudget := pb_value b, pc_modelBudgets := []\<rparr>
            | None \<Rightarrow> c\<lparr>pc_modelBudgets := []\<rparr>))"

section \<open>Weights on shared constraints\<close>

definition weighUsage :: "int \<Rightarrow> int option \<Rightarrow> int option \<Rightarrow> int" where
  "weighUsage used budget modelBudget =
     (case budget of
        None \<Rightarrow> used
      | Some b \<Rightarrow>
          (case modelBudget of
             None \<Rightarrow> 0
           | Some mb \<Rightarrow>
               if mb \<le> 0 then used
               else f64_to_int64 (f64_round (f64_div (f64_mul (f64_of_int used) (f64_of_int b)) (f64_of_int mb)))))"

definition smallest_budget :: "int \<Rightarrow> (plan_budget \<Rightarrow> int option) \<Rightarrow> (string \<times> plan_budget) list \<Rightarrow> int" where
  "smallest_budget budget of_kind budgets =
     fold (\<lambda>(_, b) smallest. case of_kind b of
             Some mb \<Rightarrow> if mb > 0 \<and> mb < smallest then mb else smallest
           | None \<Rightarrow> smallest) budgets budget"

definition weighUnknown :: "int \<Rightarrow> int option \<Rightarrow> (string \<times> plan_budget) list \<Rightarrow> (plan_budget \<Rightarrow> int option) \<Rightarrow> int" where
  "weighUnknown used budget budgets of_kind =
     (case budget of
        None \<Rightarrow> used
      | Some b \<Rightarrow> weighUsage used budget (Some (smallest_budget b of_kind budgets)))"

definition Weigh :: "plan_constraint \<Rightarrow> string \<Rightarrow> int \<Rightarrow> int \<Rightarrow> int \<times> int" where
  "Weigh c realModel tokens value =
     (case map_of (pc_modelBudgets c) realModel of
        Some b \<Rightarrow>
          if \<not> Shared c then (tokens, value)
          else (weighUsage tokens (pc_tokenBudget c) (pb_token b), weighUsage value (pc_valueBudget c) (pb_value b))
      | None \<Rightarrow> (tokens, value))"

definition WeighUnknown :: "plan_constraint \<Rightarrow> int \<Rightarrow> int \<Rightarrow> int \<times> int" where
  "WeighUnknown c tokens value =
     (if \<not> Shared c then (tokens, value)
      else (weighUnknown tokens (pc_tokenBudget c) (pc_modelBudgets c) pb_token,
            weighUnknown value (pc_valueBudget c) (pc_modelBudgets c) pb_value))"

section \<open>Windows\<close>

text \<open>The zero time of Go, the first of January of year 1.\<close>

definition zero_time :: int where
  "zero_time = - (62135596800 * 10 ^ 9)"

definition IsAnchored :: "plan_constraint \<Rightarrow> bool" where
  "IsAnchored c = (pc_windowAnchor c \<noteq> None \<and> pc_duration c > 0)"

definition CurrentWindowStart :: "plan_constraint \<Rightarrow> int \<Rightarrow> int" where
  "CurrentWindowStart c now =
     (let dur = pc_duration c in
      if dur \<le> 0 then zero_time
      else
        (case pc_windowAnchor c of
           None \<Rightarrow> now + wrap64 (- dur)
         | Some anchor \<Rightarrow>
             (let elapsed = sat64 (now - anchor);
                  n = elapsed sdiv dur;
                  n = (if elapsed < 0 \<and> elapsed smod dur \<noteq> 0 then wrap64 (n - 1) else n)
              in anchor + wrap64 (n * dur))))"

definition NextResetAt :: "plan_constraint \<Rightarrow> int \<Rightarrow> int" where
  "NextResetAt c now =
     (if \<not> IsAnchored c then zero_time
      else (let ws = CurrentWindowStart c now in if ws = zero_time then zero_time else ws + pc_duration c))"

lemma floor_division:
  assumes "0 < (d :: int)"
  shows "(if e < 0 \<and> e smod d \<noteq> 0 then e sdiv d - 1 else e sdiv d) = e div d"
proof (cases "e < 0")
  case True
  then have q: "e sdiv d = - ((- e) div d)" and m: "e smod d = - ((- e) mod d)"
    using assms by (simp_all add: signed_divide_int_def signed_modulo_int_def sgn_if minus_div_mult_eq_mod [symmetric] algebra_simps)
  have "- e mod d = 0 \<longleftrightarrow> e mod d = 0" by (metis dvd_eq_mod_eq_0 dvd_minus_iff)
  then show ?thesis using True assms unfolding q m by (simp add: zdiv_zminus1_eq_if)
next
  case False
  then show ?thesis using assms by (simp add: sdiv_pos)
qed

lemma CurrentWindowStart_anchored:
  assumes "pc_windowAnchor c = Some anchor" "0 < pc_duration c" "\<bar>now - anchor\<bar> + pc_duration c < 2 ^ 63"
  shows "CurrentWindowStart c now = anchor + (now - anchor) div pc_duration c * pc_duration c"
proof -
  let ?e = "now - anchor" and ?d = "pc_duration c"
  have sat: "sat64 ?e = ?e" using assms(2,3) by (simp add: sat64_def)
  have le: "?e div ?d * ?d \<le> ?e" and gt: "?e - ?d < ?e div ?d * ?d"
    using assms(2) div_mult_mod_eq [of ?e ?d] pos_mod_bound [OF assms(2), of ?e] pos_mod_sign [OF assms(2), of ?e] by linarith+
  have "\<bar>?e div ?d * ?d\<bar> < 2 ^ 63" using le gt assms(2,3) by linarith
  then have w: "wrap64 (?e div ?d * ?d) = ?e div ?d * ?d" by (intro wrap64_id) linarith+
  have "\<bar>?e div ?d\<bar> * 1 \<le> \<bar>?e div ?d\<bar> * ?d" using assms(2) by (intro mult_left_mono) simp_all
  also have "\<dots> = \<bar>?e div ?d * ?d\<bar>" using assms(2) by (simp add: abs_mult)
  finally have "\<bar>?e div ?d\<bar> < 2 ^ 63" using \<open>\<bar>?e div ?d * ?d\<bar> < 2 ^ 63\<close> by linarith
  then have w1: "wrap64 (?e div ?d) = ?e div ?d" by (intro wrap64_id) linarith+
  have "(if ?e < 0 \<and> ?e smod ?d \<noteq> 0 then wrap64 (?e sdiv ?d - 1) else ?e sdiv ?d) = ?e div ?d"
    using floor_division [OF assms(2), of ?e] w1 by (auto split: if_splits)
  then show ?thesis using assms(1,2) w by (simp add: CurrentWindowStart_def sat Let_def)
qed

lemma CurrentWindowStart_bounds:
  assumes "pc_windowAnchor c = Some anchor" "0 < pc_duration c" "\<bar>now - anchor\<bar> + pc_duration c < 2 ^ 63"
  shows "CurrentWindowStart c now \<le> now" "now < CurrentWindowStart c now + pc_duration c"
    "pc_duration c dvd CurrentWindowStart c now - anchor"
proof -
  let ?e = "now - anchor" and ?d = "pc_duration c"
  note div_mult_mod_eq [of ?e ?d] pos_mod_bound [OF assms(2), of ?e] pos_mod_sign [OF assms(2), of ?e]
  then show "CurrentWindowStart c now \<le> now" "now < CurrentWindowStart c now + ?d"
    unfolding CurrentWindowStart_anchored [OF assms] by linarith+
  show "?d dvd CurrentWindowStart c now - anchor" by (simp add: CurrentWindowStart_anchored [OF assms])
qed

text \<open>Two grid points at most one window apart around the same instant are the same.\<close>

lemma grid_point_unique:
  assumes "d dvd a - (x :: int)" "d dvd b - x" "a \<le> t" "t < a + d" "b \<le> t" "t < b + d"
  shows "a = b"
proof -
  have "d dvd a - b" using dvd_diff [OF assms(1,2)] by simp
  then obtain k where k: "a - b = d * k" ..
  have "- d < d * k" "d * k < d" using assms(3-6) k by linarith+
  moreover have "0 < d" using assms(3,4) by linarith
  ultimately have "k < 1" "- 1 < k"
    using mult_less_cancel_left_pos [of d k 1] mult_less_cancel_left_pos [of d "- 1" k] by simp_all
  then have "k = 0" by linarith
  then show ?thesis using k by simp
qed

text \<open>
  The windows of an anchored constraint tile time: the window of an instant holds it, starts a whole
  number of durations away from the anchor (before or after it), ends at the next reset, and is the window
  of every other instant it holds, so that all the usage of a window is counted from the same start.
\<close>

theorem windows_tile:
  assumes "pc_windowAnchor c = Some anchor" "0 < pc_duration c"
    and "\<bar>now - anchor\<bar> + pc_duration c < 2 ^ 63" "\<bar>later - anchor\<bar> + pc_duration c < 2 ^ 63"
    and "CurrentWindowStart c now \<noteq> zero_time"
  shows "CurrentWindowStart c now \<le> now \<and> now < NextResetAt c now
    \<and> pc_duration c dvd CurrentWindowStart c now - anchor
    \<and> (CurrentWindowStart c later = CurrentWindowStart c now
        \<longleftrightarrow> CurrentWindowStart c now \<le> later \<and> later < NextResetAt c now)"
proof -
  note b = CurrentWindowStart_bounds [OF assms(1,2,3)] CurrentWindowStart_bounds [OF assms(1,2,4)]
  have "NextResetAt c now = CurrentWindowStart c now + pc_duration c"
    using assms(1,2,5) by (simp add: NextResetAt_def IsAnchored_def Let_def)
  then show ?thesis using b grid_point_unique [OF b(6) b(3), of later] by auto
qed

text \<open>A window of five hours anchored at an instant of 2026, seen one second before it.\<close>

definition anchored_constraint :: plan_constraint where
  "anchored_constraint =
     \<lparr>pc_kind = ConstraintRollingWindow, pc_label = ''5h'', pc_duration = 5 * 3600 * 10 ^ 9,
      pc_tokenBudget = Some 1200, pc_valueBudget = None, pc_maxConcurrent = None, pc_scope = PlanScopeProvider,
      pc_modelBudgets = [], pc_reserveRatio = None, pc_paceSlack = None, pc_happyHourStart = None,
      pc_happyHourMaxLead = None, pc_shareThreshold = None, pc_windowAnchor = Some (1770000000 * 10 ^ 9)\<rparr>"

theorem windows_tile_witness:
  "CurrentWindowStart anchored_constraint (1769999999 * 10 ^ 9) \<le> 1769999999 * 10 ^ 9
   \<and> 1769999999 * 10 ^ 9 < NextResetAt anchored_constraint (1769999999 * 10 ^ 9)
   \<and> pc_duration anchored_constraint dvd CurrentWindowStart anchored_constraint (1769999999 * 10 ^ 9) - 1770000000 * 10 ^ 9
   \<and> (CurrentWindowStart anchored_constraint (1769990000 * 10 ^ 9) = CurrentWindowStart anchored_constraint (1769999999 * 10 ^ 9)
       \<longleftrightarrow> CurrentWindowStart anchored_constraint (1769999999 * 10 ^ 9) \<le> 1769990000 * 10 ^ 9
         \<and> 1769990000 * 10 ^ 9 < NextResetAt anchored_constraint (1769999999 * 10 ^ 9))"
proof (rule windows_tile)
  show "pc_windowAnchor anchored_constraint = Some (1770000000 * 10 ^ 9)" by (simp add: anchored_constraint_def)
  show "0 < pc_duration anchored_constraint" by (simp add: anchored_constraint_def)
  show "\<bar>1769999999 * 10 ^ 9 - 1770000000 * 10 ^ 9\<bar> + pc_duration anchored_constraint < 2 ^ 63"
    by (simp add: anchored_constraint_def)
  show "\<bar>1769990000 * 10 ^ 9 - 1770000000 * 10 ^ 9\<bar> + pc_duration anchored_constraint < 2 ^ 63"
    by (simp add: anchored_constraint_def)
  show "CurrentWindowStart anchored_constraint (1769999999 * 10 ^ 9) \<noteq> zero_time"
    by code_simp
qed

section \<open>Usage on a shared constraint\<close>

lemma smallest_budget_Cons:
  "smallest_budget b k (entry # budgets) = smallest_budget (smallest_budget b k [entry]) k budgets"
  by (simp add: smallest_budget_def)

lemma smallest_budget_one:
  "smallest_budget b k [entry] \<le> b" "0 < b \<Longrightarrow> 0 < smallest_budget b k [entry]"
  by (auto simp: smallest_budget_def split: option.splits prod.splits)

lemma smallest_budget_le: "smallest_budget b k budgets \<le> b"
proof (induction budgets arbitrary: b)
  case (Cons entry budgets)
  then show ?case using smallest_budget_one(1) [of b k entry] unfolding smallest_budget_Cons [of b k entry budgets] by (meson order.trans)
qed (simp add: smallest_budget_def)

lemma smallest_budget_pos: "0 < b \<Longrightarrow> 0 < smallest_budget b k budgets"
proof (induction budgets arbitrary: b)
  case (Cons entry budgets)
  then show ?case using smallest_budget_one(2) [of b k entry] unfolding smallest_budget_Cons [of b k entry budgets] by blast
qed (simp add: smallest_budget_def)

lemma smallest_budget_le_listed:
  "(name, pb) \<in> set budgets \<Longrightarrow> k pb = Some mb \<Longrightarrow> 0 < mb \<Longrightarrow> smallest_budget b k budgets \<le> mb"
proof (induction budgets arbitrary: b)
  case (Cons entry budgets)
  have "entry = (name, pb) \<Longrightarrow> smallest_budget b k [entry] \<le> mb"
    using Cons.prems(2,3) by (simp add: smallest_budget_def)
  then show ?case
    using Cons smallest_budget_le [of "smallest_budget b k [entry]" k budgets]
    by (auto simp: smallest_budget_Cons [of b k entry budgets])
qed simp

lemma f64_of_rat_small: "\<bar>rnd x\<bar> < f64_overflow \<Longrightarrow> f64_of_rat x = Fin (rnd x)"
  by (auto simp: f64_of_rat_def Let_def abs_less_iff)

lemma f64_of_rat_le_powi:
  assumes "0 \<le> x" "x \<le> of_int m * 2 powi k" "\<bar>m\<bar> \<le> 2 ^ 53" "-1074 \<le> k" "k \<le> 500"
  shows "f64_of_rat x = Fin (rnd x) \<and> 0 \<le> rnd x \<and> rnd x \<le> of_int m * 2 powi k"
proof -
  have le: "rnd x \<le> of_int m * 2 powi k" using f64.le_rounded [OF assms(2) rnd_exact [OF assms(3,4)]] .
  have ge: "0 \<le> rnd x" using f64.nonneg [OF assms(1)] .
  have "(of_int m :: rat) \<le> of_int (2 ^ 53)" using assms(3) by (simp only: of_int_le_iff abs_le_iff)
  then have "of_int m * 2 powi k \<le> 2 ^ 53 * (2 :: rat) powi 500"
    using assms(5) by (intro mult_mono power_int_increasing) simp_all
  also have "\<dots> < f64_overflow" by (simp add: f64_overflow_def power_int_def)
  finally have "\<bar>rnd x\<bar> < f64_overflow" using le ge by simp
  then show ?thesis using le ge by (simp add: f64_of_rat_small)
qed

text \<open>Usage weighed by a positive budget, within the range of \<open>int64\<close>.\<close>

lemma weighUsage_floor:
  assumes "0 \<le> used" "used \<le> 2 ^ 53" "0 < b" "b \<le> 2 ^ 53" "0 < mb" "mb \<le> 2 ^ 53" "used * b \<le> mb * 2 ^ 62"
  shows "weighUsage used (Some b) (Some mb) = \<lfloor>rnd (rnd (of_int (used * b)) / of_int mb) + 1 / 2\<rfloor>
    \<and> 0 \<le> rnd (rnd (of_int (used * b)) / of_int mb)"
proof -
  let ?p = "rnd (of_int (used * b))" and ?q = "rnd (rnd (of_int (used * b)) / of_int mb)"
  have "(of_int (used * b) :: rat) \<le> of_int (mb * 2 ^ 62)" using assms(7) by (simp only: of_int_le_iff)
  then have le: "(of_int (used * b) :: rat) \<le> of_int mb * 2 powi 62" by simp
  have p: "f64_of_rat (of_int (used * b)) = Fin ?p" "0 \<le> ?p" "?p \<le> of_int mb * 2 powi 62"
    using f64_of_rat_le_powi [OF _ le] assms by simp_all
  have "?p / of_int mb \<le> 2 powi 62" using p(3) assms(5) by (simp add: field_simps)
  then have q: "f64_of_rat (?p / of_int mb) = Fin ?q" "0 \<le> ?q" "?q \<le> 2 powi 62"
    using f64_of_rat_le_powi [of "?p / of_int mb" 1 62] p(2) assms(5) by simp_all
  have "0 \<le> \<lfloor>?q + 1 / 2\<rfloor>" "\<lfloor>?q + 1 / 2\<rfloor> < 2 ^ 63" using q(2,3) by (simp_all add: floor_less_iff)
  then have "f64_to_int64 (f64_round (Fin ?q)) = \<lfloor>?q + 1 / 2\<rfloor>"
    using q(2) by (simp add: trunc_rat_def Let_def)
  moreover have "weighUsage used (Some b) (Some mb) = f64_to_int64 (f64_round (Fin ?q))"
    using assms(1-6) p(1) q(1) by (simp add: weighUsage_def f64_of_int_small)
  ultimately show ?thesis using q(2) by simp
qed

text \<open>The budgets of one kind: those validation accepts, of a size that keeps the conversions exact.\<close>

definition weighable :: "int \<Rightarrow> int option \<Rightarrow> (plan_budget \<Rightarrow> int option) \<Rightarrow> (string \<times> plan_budget) list \<Rightarrow> bool" where
  "weighable used budget of_kind budgets =
     (0 \<le> used \<and> used \<le> 2 ^ 53
      \<and> (\<forall>(_, pb) \<in> set budgets. case of_kind pb of None \<Rightarrow> True | Some mb \<Rightarrow> 0 < mb \<and> mb \<le> 2 ^ 53)
      \<and> (case budget of None \<Rightarrow> True
         | Some b \<Rightarrow> 0 < b \<and> b \<le> 2 ^ 53 \<and> used * b \<le> smallest_budget b of_kind budgets * 2 ^ 62))"

lemma weighUsage_le_unknown:
  assumes "weighable used budget k budgets" "(name, pb) \<in> set budgets"
  shows "weighUsage used budget (k pb) \<le> weighUnknown used budget budgets k"
proof (cases budget)
  case None
  then show ?thesis by (simp add: weighUsage_def weighUnknown_def)
next
  case (Some b)
  let ?s = "smallest_budget b k budgets"
  have a: "0 \<le> used" "used \<le> 2 ^ 53" "0 < b" "b \<le> 2 ^ 53" "used * b \<le> ?s * 2 ^ 62"
    and pb: "case k pb of None \<Rightarrow> True | Some mb \<Rightarrow> 0 < mb \<and> mb \<le> 2 ^ 53"
    using assms Some by (auto simp: weighable_def)
  have s: "0 < ?s" "?s \<le> 2 ^ 53" using a(3,4) smallest_budget_pos smallest_budget_le [of b k budgets] by auto
  note unk = weighUsage_floor [OF a(1-4) s a(5)]
  show ?thesis
  proof (cases "k pb")
    case None
    have "0 \<le> weighUsage used (Some b) (Some ?s)" using unk by simp
    then show ?thesis using None Some by (simp add: weighUsage_def [of _ _ None] weighUnknown_def)
  next
    case (Some mb)
    then have mb: "0 < mb" "mb \<le> 2 ^ 53" "?s \<le> mb" using pb smallest_budget_le_listed [OF assms(2)] by auto
    have "?s * 2 ^ 62 \<le> mb * 2 ^ 62" using mb(3) by simp
    then have "used * b \<le> mb * 2 ^ 62" using a(5) by (rule order.trans [rotated])
    note known = weighUsage_floor [OF a(1-4) mb(1,2) this]
    have "0 \<le> rnd (of_int (used * b))" using a(1,3) by (intro f64.nonneg) simp
    then have "rnd (of_int (used * b)) / of_int mb \<le> rnd (of_int (used * b)) / of_int ?s"
      using s(1) mb(3) by (intro divide_left_mono) simp_all
    then have "weighUsage used (Some b) (Some mb) \<le> weighUsage used (Some b) (Some ?s)"
      unfolding known [THEN conjunct1] unk [THEN conjunct1] by (intro floor_mono add_right_mono f64.mono)
    then show ?thesis using Some \<open>budget = Some b\<close> by (simp add: weighUnknown_def)
  qed
qed

text \<open>
  On a shared constraint, usage whose model is unknown weighs at least as much, in tokens and in value,
  as the same usage of any listed model would: the window closes early rather than late.
\<close>

theorem WeighUnknown_dominates:
  assumes "map_of (pc_modelBudgets c) realModel = Some b"
    and "weighable tokens (pc_tokenBudget c) pb_token (pc_modelBudgets c)"
    and "weighable value (pc_valueBudget c) pb_value (pc_modelBudgets c)"
  shows "fst (Weigh c realModel tokens value) \<le> fst (WeighUnknown c tokens value)
    \<and> snd (Weigh c realModel tokens value) \<le> snd (WeighUnknown c tokens value)"
  using weighUsage_le_unknown [OF assms(2) map_of_SomeD [OF assms(1)]]
    weighUsage_le_unknown [OF assms(3) map_of_SomeD [OF assms(1)]] assms(1)
  by (simp add: Weigh_def WeighUnknown_def)

definition shared_constraint :: plan_constraint where
  "shared_constraint = anchored_constraint
     \<lparr>pc_scope := PlanScopeShared,
      pc_modelBudgets := [(''big'', \<lparr>pb_token = Some 400, pb_value = None\<rparr>), (''small'', \<lparr>pb_token = Some 2400, pb_value = None\<rparr>)]\<rparr>"

theorem WeighUnknown_dominates_witness:
  "fst (Weigh shared_constraint ''small'' 100 7) \<le> fst (WeighUnknown shared_constraint 100 7)
    \<and> snd (Weigh shared_constraint ''small'' 100 7) \<le> snd (WeighUnknown shared_constraint 100 7)"
proof (rule WeighUnknown_dominates)
  show "map_of (pc_modelBudgets shared_constraint) ''small'' = Some \<lparr>pb_token = Some 2400, pb_value = None\<rparr>"
    by (simp add: shared_constraint_def)
  show "weighable 100 (pc_tokenBudget shared_constraint) pb_token (pc_modelBudgets shared_constraint)" by code_simp
  show "weighable 7 (pc_valueBudget shared_constraint) pb_value (pc_modelBudgets shared_constraint)" by code_simp
qed

end
