(* ===== verification/Fair_Share.thy ===== *)
theory Fair_Share
  imports Plan_Window
begin

text \<open>
  The per-user allocator of subscription plans (\<open>ComputeFairShare\<close> of
  \<open>src/internal/core/model/billing.go\<close>) and its resolution for a request (\<open>Resolve\<close> of
  \<open>src/internal/core/service/fair_share.go\<close>), with the arithmetic of the code: \<open>float64\<close> shares, truncated to
  \<open>int64\<close>, and \<open>int64\<close> differences that wrap around.
\<close>

section \<open>Parameters\<close>

datatype fair_share_mode =
    FairShareModeShared | FairShareModeThrottled | FairShareModeHappyHour | FairShareModeCapped | FairShareModeOpen

record fair_share_params =
  fs_budget :: int
  fs_totalMembers :: int
  fs_activeUsers :: int
  fs_usedTotal :: int
  fs_userUsed :: int
  fs_windowDuration :: int
  fs_elapsed :: float64
  fs_reserve :: float64
  fs_slack :: float64
  fs_happyHourStart :: float64
  fs_happyHourMaxLead :: int
  fs_shareThreshold :: float64

record fair_share_allocation =
  fa_allowance :: int
  fa_mode :: fair_share_mode

definition DefaultReserveRatio :: float64 where
  "DefaultReserveRatio = f64_of_rat (3 / 10)"

definition DefaultPaceSlack :: float64 where
  "DefaultPaceSlack = f64_of_rat (15 / 100)"

definition DefaultHappyHourStart :: float64 where
  "DefaultHappyHourStart = f64_of_rat (9 / 10)"

definition DefaultHappyHourLeadRatio :: float64 where
  "DefaultHappyHourLeadRatio = f64_of_rat (5 / 100)"

definition MinHappyHourLead :: int where
  "MinHappyHourLead = 30 * 60 * 10 ^ 9"

definition MaxHappyHourLead :: int where
  "MaxHappyHourLead = 4 * 3600 * 10 ^ 9"

definition DefaultHappyHourLead :: "int \<Rightarrow> int" where
  "DefaultHappyHourLead window =
     (let lead = f64_to_int64 (f64_mul (f64_of_int window) DefaultHappyHourLeadRatio) in
      if lead < MinHappyHourLead then MinHappyHourLead
      else if lead > MaxHappyHourLead then MaxHappyHourLead
      else lead)"

definition clampUnit :: "float64 \<Rightarrow> float64" where
  "clampUnit v = (if f64_lt v (Fin 0) then Fin 0 else if f64_lt (Fin 1) v then Fin 1 else v)"

definition FairShareParamsFor :: "plan_constraint \<Rightarrow> fair_share_params \<Rightarrow> fair_share_params" where
  "FairShareParamsFor c p =
     p\<lparr>fs_reserve := (case pc_reserveRatio c of Some r \<Rightarrow> r | None \<Rightarrow> DefaultReserveRatio),
       fs_slack := (case pc_paceSlack c of Some s \<Rightarrow> s | None \<Rightarrow> DefaultPaceSlack),
       fs_happyHourStart :=
         (case pc_happyHourStart c of
            Some h \<Rightarrow> if f64_lt (Fin 0) h then h else DefaultHappyHourStart
          | None \<Rightarrow> DefaultHappyHourStart),
       fs_shareThreshold := (case pc_shareThreshold c of Some t \<Rightarrow> t | None \<Rightarrow> fs_shareThreshold p),
       fs_windowDuration := pc_duration c,
       fs_happyHourMaxLead :=
         (case pc_happyHourMaxLead c of
            Some l \<Rightarrow> if l > 0 then l else DefaultHappyHourLead (pc_duration c)
          | None \<Rightarrow> DefaultHappyHourLead (pc_duration c))\<rparr>"

definition ElapsedFraction :: "plan_constraint \<Rightarrow> int \<Rightarrow> float64" where
  "ElapsedFraction c now =
     (if \<not> IsAnchored c then Fin (- 1)
      else
        (let dur = pc_duration c; start = CurrentWindowStart c now in
         if start = zero_time \<or> dur \<le> 0 then Fin (- 1)
         else clampUnit (f64_div (f64_of_int (sat64 (now - start))) (f64_of_int dur))))"

section \<open>The allocator\<close>

text \<open>The maximum with zero is the builtin of the language: on the values it meets here it is that of \<open>math.Max\<close>.\<close>

definition pacingFactor :: "float64 \<Rightarrow> float64 \<Rightarrow> float64 \<Rightarrow> float64" where
  "pacingFactor pace elapsed slack =
     (let budgetLine = f64_add (clampUnit elapsed) (f64_max slack (Fin 0)) in
      if f64_le (Fin 1) budgetLine \<or> f64_le pace budgetLine then Fin 1
      else clampUnit (f64_div (f64_sub (Fin 1) pace) (f64_sub (Fin 1) budgetLine)))"

definition allocatableCommons :: "fair_share_params \<Rightarrow> float64 \<Rightarrow> int \<Rightarrow> int \<Rightarrow> float64" where
  "allocatableCommons p guaranteed members active =
     (let othersUsed = f64_of_int (wrap64 (fs_usedTotal p - fs_userUsed p));
          othersUsed = (if f64_lt othersUsed (Fin 0) then Fin 0 else othersUsed);
          absentFloors = f64_mul (f64_of_int (members - active)) guaranteed;
          available = f64_sub (f64_sub (f64_sub (f64_of_int (fs_budget p)) othersUsed) absentFloors) guaranteed
      in if f64_le available (Fin 0) then Fin 0 else f64_div available (f64_of_int active))"

definition happyHourAllowance :: "fair_share_params \<Rightarrow> int \<Rightarrow> int" where
  "happyHourAllowance p active =
     (let active = (if active < 1 then 1 else active);
          othersUsed = wrap64 (fs_usedTotal p - fs_userUsed p);
          othersUsed = (if othersUsed < 0 then 0 else othersUsed);
          available = wrap64 (fs_budget p - othersUsed);
          available = (if available < 0 then 0 else available)
      in available sdiv active)"

definition openAllowance :: "fair_share_params \<Rightarrow> int" where
  "openAllowance p =
     (if f64_le (fs_shareThreshold p) (Fin 0) \<or> fs_budget p \<le> 0 then 0
      else
        (let room = wrap64 (f64_to_int64 (f64_round (f64_mul (clampUnit (fs_shareThreshold p)) (f64_of_int (fs_budget p))))
                            - fs_usedTotal p)
         in if room \<le> 0 then 0 else wrap64 (max (fs_userUsed p) 0 + room)))"

definition inHappyHour :: "fair_share_params \<Rightarrow> bool" where
  "inHappyHour p =
     (if f64_le (fs_happyHourStart p) (Fin 0) \<or> f64_le (Fin 1) (fs_happyHourStart p) \<or> fs_windowDuration p \<le> 0 then False
      else if f64_lt (fs_elapsed p) (fs_happyHourStart p) then False
      else
        (let lead = (if fs_happyHourMaxLead p \<le> 0 then DefaultHappyHourLead (fs_windowDuration p) else fs_happyHourMaxLead p);
             remaining = f64_to_int64 (f64_mul (f64_sub (Fin 1) (clampUnit (fs_elapsed p))) (f64_of_int (fs_windowDuration p)))
         in remaining \<le> lead))"

text \<open>
  The members and the active users, at least one and no more active users than members; the floor of a member;
  the commons of an active user after pacing, then capped; the nominal allowance.
\<close>

definition fs_members :: "fair_share_params \<Rightarrow> int" where
  "fs_members p = max (fs_totalMembers p) 1"

definition fs_active :: "fair_share_params \<Rightarrow> int" where
  "fs_active p = min (max (fs_activeUsers p) 1) (fs_members p)"

definition fs_guaranteed :: "fair_share_params \<Rightarrow> float64" where
  "fs_guaranteed p =
     f64_div (f64_mul (clampUnit (fs_reserve p)) (f64_of_int (fs_budget p))) (f64_of_int (fs_members p))"

definition paced_commons :: "fair_share_params \<Rightarrow> float64 \<times> fair_share_mode" where
  "paced_commons p =
     (let budget = f64_of_int (fs_budget p);
          commons = f64_div (f64_mul (f64_sub (Fin 1) (clampUnit (fs_reserve p))) budget) (f64_of_int (fs_active p))
      in if f64_le (Fin 0) (fs_elapsed p) \<and> f64_lt (Fin 0) commons
         then (let factor = pacingFactor (f64_div (f64_of_int (fs_usedTotal p)) budget) (fs_elapsed p) (fs_slack p)
               in if f64_lt factor (Fin 1) then (f64_mul commons factor, FairShareModeThrottled)
                  else (commons, FairShareModeShared))
         else (commons, FairShareModeShared))"

definition capped_commons :: "fair_share_params \<Rightarrow> float64 \<times> fair_share_mode" where
  "capped_commons p =
     (let (commons, mode) = paced_commons p;
          allocatable = allocatableCommons p (fs_guaranteed p) (fs_members p) (fs_active p)
      in if f64_lt allocatable commons
         then (allocatable,
               if mode = FairShareModeShared
                 \<and> f64_lt (f64_add (fs_guaranteed p) allocatable) (f64_div (f64_of_int (fs_budget p)) (f64_of_int (fs_members p)))
               then FairShareModeCapped else mode)
         else (commons, mode))"

definition nominal_allocation :: "fair_share_params \<Rightarrow> fair_share_allocation" where
  "nominal_allocation p =
     (let (commons, mode) = capped_commons p;
          allowance = f64_to_int64 (f64_add (fs_guaranteed p) commons)
      in \<lparr>fa_allowance = (if allowance < 1 then 1 else allowance), fa_mode = mode\<rparr>)"

definition ComputeFairShare :: "fair_share_params \<Rightarrow> fair_share_allocation" where
  "ComputeFairShare p =
     (if fs_budget p \<le> 0 then \<lparr>fa_allowance = 0, fa_mode = FairShareModeShared\<rparr>
      else
        (let res = nominal_allocation p;
             res = (if f64_le (Fin 0) (fs_elapsed p) \<and> inHappyHour p \<and> happyHourAllowance p (fs_active p) > fa_allowance res
                    then \<lparr>fa_allowance = happyHourAllowance p (fs_active p), fa_mode = FairShareModeHappyHour\<rparr>
                    else res)
         in if openAllowance p > fa_allowance res
            then \<lparr>fa_allowance = openAllowance p, fa_mode = FairShareModeOpen\<rparr>
            else res))"

section \<open>Finite shares\<close>

text \<open>The state of a plan whose figures float64 holds exactly.\<close>

definition fair_share_sane :: "fair_share_params \<Rightarrow> bool" where
  "fair_share_sane p =
     (0 < fs_budget p \<and> fs_budget p \<le> 2 ^ 50 \<and> 0 \<le> fs_userUsed p \<and> fs_userUsed p \<le> fs_usedTotal p
      \<and> fs_usedTotal p \<le> 2 ^ 51 \<and> fs_totalMembers p \<le> 2 ^ 31 \<and> fs_reserve p \<noteq> NaN)"

lemma f64_of_rat_abs:
  assumes "\<bar>x\<bar> \<le> of_int n" "n \<le> 2 ^ 53"
  shows "f64_of_rat x = Fin (rnd x) \<and> \<bar>rnd x\<bar> \<le> of_int n"
proof -
  have n: "\<bar>n\<bar> \<le> 2 ^ 53" using assms abs_ge_zero [of x] by (metis abs_of_nonneg of_int_0_le_iff order.trans)
  have hi: "rnd x \<le> of_int n" by (rule f64.le_rounded) (use assms n in \<open>auto simp: rnd_of_int abs_le_iff\<close>)
  have "rnd (of_int (- n)) = of_int (- n)" using n by (simp only: rnd_of_int abs_minus)
  then have lo: "of_int (- n) \<le> rnd x" by (rule f64.ge_rounded [rotated]) (use assms in \<open>simp add: abs_le_iff minus_le_iff\<close>)
  have "(of_int n :: rat) \<le> of_int (2 ^ 53)" using assms(2) by (simp only: of_int_le_iff)
  also have "\<dots> < f64_overflow" by (simp add: f64_overflow_def)
  finally show ?thesis using lo hi by (simp add: f64_of_rat_small abs_le_iff abs_less_iff)
qed

lemma f64_of_rat_nonneg:
  assumes "0 \<le> x" "x \<le> of_int n" "n \<le> 2 ^ 53"
  shows "f64_of_rat x = Fin (rnd x) \<and> 0 \<le> rnd x \<and> rnd x \<le> of_int n"
  using f64_of_rat_abs [of x n] assms f64.nonneg [OF assms(1)] by simp

lemma clampUnit_range: "v \<noteq> NaN \<Longrightarrow> \<exists>r. clampUnit v = Fin r \<and> 0 \<le> r \<and> r \<le> 1"
  by (cases v) (auto simp: clampUnit_def)

lemma clampUnit_below_one: "f64_lt (clampUnit v) (Fin 1) \<Longrightarrow> \<exists>r. clampUnit v = Fin r \<and> 0 \<le> r \<and> r < 1"
  by (cases v) (auto simp: clampUnit_def split: if_splits)

lemma pacingFactor_range: "f64_lt (pacingFactor pace el sl) (Fin 1) \<Longrightarrow> \<exists>f. pacingFactor pace el sl = Fin f \<and> 0 \<le> f \<and> f < 1"
  using clampUnit_below_one by (auto simp: pacingFactor_def Let_def split: if_splits)

lemma sane_members:
  assumes "fair_share_sane p"
  shows "1 \<le> fs_active p" "fs_active p \<le> fs_members p" "fs_members p \<le> 2 ^ 31"
  using assms by (auto simp: fs_active_def fs_members_def fair_share_sane_def)

lemma scaled_share:
  assumes "0 \<le> r" "r \<le> 1" "0 < b" "b \<le> 2 ^ 50" "1 \<le> n" "n \<le> 2 ^ 31"
  obtains g where "f64_div (f64_mul (Fin r) (f64_of_int b)) (f64_of_int n) = Fin g" "0 \<le> g" "g \<le> of_int b"
    "g * of_int n \<le> of_int b + of_int n / 2" "g \<le> r * of_int b / of_int n + 1" "rnd g = g"
proof -
  let ?x = "rnd (r * of_int b)" and ?g = "rnd (rnd (r * of_int b) / of_int n)"
  have b: "f64_of_int b = Fin (of_int b)" and n: "f64_of_int n = Fin (of_int n)"
    using assms by (auto intro: f64_of_int_small)
  have "r * of_int b \<le> 1 * of_int b" using assms by (intro mult_right_mono) simp_all
  then have x: "f64_of_rat (r * of_int b) = Fin ?x" "0 \<le> ?x" "?x \<le> of_int b"
    using f64_of_rat_nonneg [of "r * of_int b" b] assms by simp_all
  have n1: "(1 :: rat) \<le> of_int n" using assms(5) by simp
  have "?x / of_int n \<le> ?x / 1" using x(2) n1 by (intro divide_left_mono) simp_all
  then have le: "?x / of_int n \<le> of_int b" using x(3) by simp
  then have g: "f64_of_rat (?x / of_int n) = Fin ?g" "0 \<le> ?g" "?g \<le> of_int b"
    using f64_of_rat_nonneg [of "?x / of_int n" b] assms(4) n1 x(2) by simp_all
  have "(of_int b :: rat) \<le> of_int (2 ^ 50)" using assms(4) by (simp only: of_int_le_iff)
  then have "\<bar>?x / of_int n\<bar> \<le> 2 ^ 53" using le x(2) n1 by (simp add: abs_le_iff)
  then have "?g \<le> ?x / of_int n + 1 / 2" using rnd_err_half [of "?x / of_int n"] by linarith
  then have "?g * of_int n \<le> (?x / of_int n + 1 / 2) * of_int n" using n1 by (intro mult_right_mono) simp_all
  also have "\<dots> = ?x + of_int n / 2" using n1 by (simp add: field_simps)
  finally have "?g * of_int n \<le> of_int b + of_int n / 2" using x(3) by linarith
  moreover have "?g \<le> r * of_int b / of_int n + 1"
  proof -
    have "\<bar>r * of_int b\<bar> = r * of_int b" using assms(1,3) by simp
    also note \<open>r * of_int b \<le> 1 * of_int b\<close>
    also have "1 * (of_int b :: rat) \<le> of_int (2 ^ 50)" using \<open>of_int b \<le> of_int (2 ^ 50)\<close> by simp
    finally have "\<bar>r * of_int b\<bar> \<le> 2 ^ 53" by simp
    then have "?x \<le> r * of_int b + 1 / 2" using rnd_err_half [of "r * of_int b"] by linarith
    then have "?x / of_int n \<le> (r * of_int b + 1 / 2) / of_int n" using n1 by (intro divide_right_mono) simp_all
    also have "\<dots> \<le> r * of_int b / of_int n + 1 / 2" using n1 by (simp add: add_divide_distrib)
    finally show ?thesis using \<open>?g \<le> ?x / of_int n + 1 / 2\<close> by linarith
  qed
  ultimately show thesis using g that [of ?g] x(1) b n n1 by (simp add: f64.idem)
qed

lemma guaranteed_range:
  assumes "fair_share_sane p"
  obtains g where "fs_guaranteed p = Fin g" "0 \<le> g" "g \<le> of_int (fs_budget p)"
    "g * of_int (fs_members p) \<le> of_int (fs_budget p) + of_int (fs_members p) / 2"
proof -
  obtain r where "clampUnit (fs_reserve p) = Fin r" "0 \<le> r" "r \<le> 1"
    using clampUnit_range assms by (auto simp: fair_share_sane_def)
  then show thesis
    using scaled_share [of r "fs_budget p" "fs_members p"] sane_members [OF assms] assms that
    by (auto simp: fs_guaranteed_def fair_share_sane_def)
qed

lemma share_error:
  assumes "x \<le> y + 2 powi (- 53)" "0 \<le> b" "b \<le> (2 :: rat) ^ 50"
  shows "x * b \<le> y * b + 1 / 8"
proof -
  have "x * b \<le> (y + 2 powi (- 53)) * b" using assms by (intro mult_right_mono)
  also have "\<dots> = y * b + 2 powi (- 53) * b" by (simp add: algebra_simps)
  also have "\<dots> \<le> y * b + 2 powi (- 53) * 2 ^ 50" using assms by (intro add_left_mono mult_left_mono) simp_all
  also have "\<dots> = y * b + 1 / 8" by (simp add: power_int_minus)
  finally show ?thesis .
qed

lemma paced_range:
  assumes "fair_share_sane p"
  obtains c m r where "paced_commons p = (Fin c, m)" "0 \<le> c" "c \<le> of_int (fs_budget p)"
    "m \<in> {FairShareModeShared, FairShareModeThrottled}"
    "clampUnit (fs_reserve p) = Fin r" "c \<le> (1 - r) * of_int (fs_budget p) / of_int (fs_active p) + 9 / 8"
proof -
  let ?b = "fs_budget p"
  let ?commons = "f64_div (f64_mul (f64_sub (Fin 1) (clampUnit (fs_reserve p))) (f64_of_int ?b)) (f64_of_int (fs_active p))"
  let ?factor = "pacingFactor (f64_div (f64_of_int (fs_usedTotal p)) (f64_of_int ?b)) (fs_elapsed p) (fs_slack p)"
  obtain r where r: "clampUnit (fs_reserve p) = Fin r" "0 \<le> r" "r \<le> 1"
    using clampUnit_range assms by (auto simp: fair_share_sane_def)
  have r': "f64_of_rat (1 - r) = Fin (rnd (1 - r))" "0 \<le> rnd (1 - r)" "rnd (1 - r) \<le> 1"
    using f64_of_rat_nonneg [of "1 - r" 1] r(2,3) by simp_all
  obtain c where c: "?commons = Fin c" "0 \<le> c" "c \<le> of_int ?b" "rnd c = c"
    and cr: "c \<le> rnd (1 - r) * of_int ?b / of_int (fs_active p) + 1"
    using scaled_share [OF r'(2,3), of ?b "fs_active p"] sane_members [OF assms] assms r(1) r'(1)
    by (auto simp: fair_share_sane_def f64_sub_def)
  have a1: "(1 :: rat) \<le> of_int (fs_active p)" using sane_members [OF assms] by simp
  have "(of_int ?b :: rat) \<le> of_int (2 ^ 50)" using assms by (simp only: of_int_le_iff fair_share_sane_def)
  moreover have "\<bar>rnd (1 - r) - (1 - r)\<bar> \<le> 2 powi (0 - 53)" using r(2,3) by (intro rnd_err) simp_all
  then have "rnd (1 - r) \<le> 1 - r + 2 powi (- 53)" unfolding diff_0 by linarith
  ultimately have "rnd (1 - r) * of_int ?b \<le> (1 - r) * of_int ?b + 1 / 8"
    using share_error [of "rnd (1 - r)" "1 - r" "of_int ?b"] assms by (simp add: fair_share_sane_def)
  then have "rnd (1 - r) * of_int ?b / of_int (fs_active p) \<le> ((1 - r) * of_int ?b + 1 / 8) / of_int (fs_active p)"
    using a1 by (intro divide_right_mono) simp_all
  also have "\<dots> \<le> (1 - r) * of_int ?b / of_int (fs_active p) + 1 / 8" using a1 by (simp add: add_divide_distrib)
  finally have bound: "c \<le> (1 - r) * of_int ?b / of_int (fs_active p) + 9 / 8" using cr by linarith
  show thesis
  proof (cases "f64_le (Fin 0) (fs_elapsed p) \<and> f64_lt (Fin 0) ?commons \<and> f64_lt ?factor (Fin 1)")
    case True
    then obtain f where f: "?factor = Fin f" "0 \<le> f" "f < 1" using pacingFactor_range by blast
    have cf: "c * f \<le> c * 1" using c(2) f(3) by (intro mult_left_mono) simp_all
    then have "rnd (c * f) \<le> c" using f64.le_rounded [of "c * f" c] c(4) by simp
    then have "rnd (c * f) \<le> (1 - r) * of_int ?b / of_int (fs_active p) + 9 / 8" using bound by linarith
    moreover from cf have "f64_of_rat (c * f) = Fin (rnd (c * f)) \<and> 0 \<le> rnd (c * f) \<and> rnd (c * f) \<le> of_int ?b"
      using c f assms by (intro f64_of_rat_nonneg) (auto simp: fair_share_sane_def)
    ultimately show thesis using True c(1) f r(1) bound
      by (intro that [of "rnd (c * f)" FairShareModeThrottled]) (simp_all add: paced_commons_def Let_def)
  next
    case False
    then have "paced_commons p = (Fin c, FairShareModeShared)" using c(1) by (auto simp: paced_commons_def Let_def)
    then show thesis using that c(2,3) r(1) bound by blast
  qed
qed

text \<open>What the other users consumed, and the pot left to an active user once it and the absent floors are set aside.\<close>

definition fs_others :: "fair_share_params \<Rightarrow> int" where
  "fs_others p = fs_usedTotal p - fs_userUsed p"

lemma available_range:
  assumes "0 < b" "b \<le> 2 ^ 50" "0 \<le> used" "used \<le> 2 ^ 51" "1 \<le> a" "a \<le> m" "m \<le> (2 ^ 31 :: int)"
    and g: "0 \<le> g" "g \<le> of_int b" "g * of_int m \<le> of_int b + of_int m / 2"
  obtains av where
    "f64_sub (f64_sub (f64_sub (f64_of_int b) (f64_of_int used)) (f64_mul (f64_of_int (m - a)) (Fin g))) (Fin g) = Fin av"
    "av \<le> of_int b - g + 1 / 2" "av \<le> of_int (b - used) - of_int (m - a) * g - g + 3 / 2" "rnd av = av"
proof -
  have big: "(of_int b :: rat) \<le> 2 ^ 50" "(of_int used :: rat) \<le> 2 ^ 51" "(of_int m :: rat) \<le> 2 ^ 31"
    using assms of_int_le_iff [of b "2 ^ 50", where ?'a = rat] of_int_le_iff [of used "2 ^ 51", where ?'a = rat]
      of_int_le_iff [of m "2 ^ 31", where ?'a = rat] by simp_all
  let ?f = "of_int (m - a) * g" and ?x1 = "of_int (b - used) :: rat"
  have "?f \<le> of_int m * g" using assms(5) g(1) by (intro mult_right_mono) simp_all
  then have f: "0 \<le> ?f" "?f \<le> 2 ^ 51" using g big assms(6) by (simp_all add: mult.commute)
  have ints: "f64_of_int b = Fin (of_int b)" "f64_of_int used = Fin (of_int used)" "f64_of_int (m - a) = Fin (of_int (m - a))"
    using assms(1-7) by (auto intro: f64_of_int_small simp del: of_int_diff)
  have ab: "f64_of_rat ?f = Fin (rnd ?f)" "0 \<le> rnd ?f" "rnd ?f \<le> 2 ^ 51" "\<bar>rnd ?f - ?f\<bar> \<le> 1 / 2"
    using f64_of_rat_nonneg [OF f(1), of "2 ^ 51"] rnd_err_half [of ?f] f by simp_all
  have x1: "f64_of_rat ?x1 = Fin ?x1" "\<bar>?x1\<bar> \<le> 2 ^ 51" "?x1 \<le> of_int b"
    using f64_of_int_small [of "b - used"] assms(1-4) big by (auto simp: f64_of_int_def abs_le_iff simp del: of_int_diff)
  let ?x2 = "rnd (?x1 - rnd ?f)"
  have sums: "(2 :: rat) ^ 51 + 2 ^ 51 \<le> 2 ^ 52" "(2 :: rat) ^ 52 + 2 ^ 50 \<le> 2 ^ 53" by simp_all
  have in2: "\<bar>?x1 - rnd ?f\<bar> \<le> 2 ^ 52" using x1(2) ab(2,3) sums(1) by linarith
  then have x2: "f64_of_rat (?x1 - rnd ?f) = Fin ?x2" "\<bar>?x2\<bar> \<le> 2 ^ 52" "\<bar>?x2 - (?x1 - rnd ?f)\<bar> \<le> 1 / 2"
    using f64_of_rat_abs [of "?x1 - rnd ?f" "2 ^ 52"] rnd_err_half [of "?x1 - rnd ?f"] by simp_all
  have x2b: "?x2 \<le> of_int b" using x1(3) ab(2) assms(1,2) by (intro f64.le_rounded) (simp_all add: rnd_of_int)
  let ?av = "rnd (?x2 - g)"
  have in3: "\<bar>?x2 - g\<bar> \<le> 2 ^ 53" using x2(2) g(1,2) big(1) sums(2) by linarith
  then have av: "f64_of_rat (?x2 - g) = Fin ?av" "\<bar>?av - (?x2 - g)\<bar> \<le> 1 / 2"
    using f64_of_rat_abs [of "?x2 - g" "2 ^ 53"] rnd_err_half [of "?x2 - g"] by simp_all
  show thesis
  proof (rule that [of ?av])
    show "f64_sub (f64_sub (f64_sub (f64_of_int b) (f64_of_int used)) (f64_mul (f64_of_int (m - a)) (Fin g))) (Fin g) = Fin ?av"
      unfolding ints using ab(1) x1(1) x2(1) av(1) by (simp add: f64_sub_def)
    show "?av \<le> of_int b - g + 1 / 2" using av(2) x2b by linarith
    show "?av \<le> ?x1 - ?f - g + 3 / 2" using av(2) x2(3) ab(4) by linarith
    show "rnd ?av = ?av" by (rule f64.idem)
  qed
qed

lemma allocatable_range:
  assumes "fair_share_sane p" "fs_guaranteed p = Fin g" "0 \<le> g" "g \<le> of_int (fs_budget p)"
    and "g * of_int (fs_members p) \<le> of_int (fs_budget p) + of_int (fs_members p) / 2"
  obtains al where "allocatableCommons p (Fin g) (fs_members p) (fs_active p) = Fin al" "0 \<le> al"
    "g + al \<le> of_int (fs_budget p) + 1 / 2"
    "al = 0 \<or> al \<le> of_int (fs_budget p - fs_others p) - of_int (fs_members p - fs_active p) * g - g + 3 / 2"
proof -
  let ?b = "fs_budget p" and ?a = "fs_active p" and ?m = "fs_members p"
  note mem = sane_members [OF assms(1)]
  have sane: "0 < ?b" "?b \<le> 2 ^ 50" "0 \<le> fs_others p" "fs_others p \<le> 2 ^ 51"
    using assms(1) by (auto simp: fair_share_sane_def fs_others_def)
  have others: "wrap64 (fs_usedTotal p - fs_userUsed p) = fs_others p" "\<not> f64_lt (f64_of_int (fs_others p)) (Fin 0)"
    using sane f64_of_int_small [of "fs_others p"] by (auto simp: fs_others_def wrap64_id)
  obtain av where av: "f64_sub (f64_sub (f64_sub (f64_of_int ?b) (f64_of_int (fs_others p))) (f64_mul (f64_of_int (?m - ?a)) (Fin g))) (Fin g) = Fin av"
    "av \<le> of_int ?b - g + 1 / 2" "av \<le> of_int (?b - fs_others p) - of_int (?m - ?a) * g - g + 3 / 2" "rnd av = av"
    using available_range [OF sane mem assms(3-5)] by blast
  have alloc: "allocatableCommons p (Fin g) ?m ?a = (if f64_le (Fin av) (Fin 0) then Fin 0 else f64_div (Fin av) (f64_of_int ?a))"
    using others av(1) by (simp add: allocatableCommons_def Let_def)
  show thesis
  proof (cases "av \<le> 0")
    case True
    then show thesis using that [of 0] assms(3,4) alloc by (simp add: f64_le_def less_le)
  next
    case False
    have a1: "(1 :: rat) \<le> of_int ?a" using mem(1) by simp
    have "av / of_int ?a \<le> av / 1" using False a1 by (intro divide_left_mono) simp_all
    then have le: "av / of_int ?a \<le> av" by simp
    have "av \<le> of_int (?b + 1)" using av(2) assms(3) by simp
    then have q: "f64_of_rat (av / of_int ?a) = Fin (rnd (av / of_int ?a))" "0 \<le> rnd (av / of_int ?a)"
      using f64_of_rat_nonneg [of "av / of_int ?a" "?b + 1"] le False a1 sane(2) by simp_all
    have "rnd (av / of_int ?a) \<le> av" using f64.le_rounded [OF le av(4)] .
    moreover have "allocatableCommons p (Fin g) ?m ?a = Fin (rnd (av / of_int ?a))"
      using alloc False q(1) a1 mem f64_of_int_small [of ?a] by (simp add: f64_le_def)
    ultimately show thesis using that q(2) av(2,3) by force
  qed
qed

lemma capped_range:
  assumes "fair_share_sane p"
  obtains g c md where "fs_guaranteed p = Fin g" "0 \<le> g" "g \<le> of_int (fs_budget p)" "capped_commons p = (Fin c, md)" "0 \<le> c"
    "g + c \<le> of_int (fs_budget p) + 1 / 2"
    "c = 0 \<or> c \<le> of_int (fs_budget p - fs_others p) - of_int (fs_members p - fs_active p) * g - g + 3 / 2"
    "md \<notin> {FairShareModeHappyHour, FairShareModeOpen}"
proof -
  obtain g where g: "fs_guaranteed p = Fin g" "0 \<le> g" "g \<le> of_int (fs_budget p)"
    "g * of_int (fs_members p) \<le> of_int (fs_budget p) + of_int (fs_members p) / 2"
    using guaranteed_range [OF assms] by blast
  obtain al where al: "allocatableCommons p (Fin g) (fs_members p) (fs_active p) = Fin al" "0 \<le> al"
    "g + al \<le> of_int (fs_budget p) + 1 / 2"
    "al = 0 \<or> al \<le> of_int (fs_budget p - fs_others p) - of_int (fs_members p - fs_active p) * g - g + 3 / 2"
    using allocatable_range [OF assms g] by blast
  obtain c md where c: "paced_commons p = (Fin c, md)" "0 \<le> c" "md \<in> {FairShareModeShared, FairShareModeThrottled}"
    using paced_range [OF assms] by metis
  show thesis
  proof (cases "al < c")
    case True
    then show thesis using c(3) al c(1) g(1)
      by (intro that [OF g(1-3) _ al(2-4), of "snd (capped_commons p)"]) (auto simp: capped_commons_def Let_def)
  next
    case False
    then have "c = 0 \<or> c \<le> of_int (fs_budget p - fs_others p) - of_int (fs_members p - fs_active p) * g - g + 3 / 2"
      using al(4) c(2) by linarith
    then show thesis using False c al g(1)
      by (intro that [OF g(1-3) _ c(2), of md]) (auto simp: capped_commons_def Let_def)
  qed
qed

text \<open>The nominal allowance is the truncated sum of the floor and the commons, and at least one.\<close>

lemma nominal_range:
  assumes "fair_share_sane p"
  shows "1 \<le> fa_allowance (nominal_allocation p) \<and> fa_allowance (nominal_allocation p) \<le> fs_budget p"
    and "fs_guaranteed p = Fin g \<Longrightarrow> of_int (fs_others p) + of_int (fs_members p - fs_active p) * g + g \<le> of_int (fs_budget p)
      \<Longrightarrow> of_int (fs_others p + fa_allowance (nominal_allocation p)) + of_int (fs_members p - fs_active p) * g
          \<le> of_int (fs_budget p) + 2"
    and "fa_mode (nominal_allocation p) \<notin> {FairShareModeHappyHour, FairShareModeOpen}"
proof -
  obtain h c md where h: "fs_guaranteed p = Fin h" "0 \<le> h" "h \<le> of_int (fs_budget p)"
    and c: "capped_commons p = (Fin c, md)" "0 \<le> c" "h + c \<le> of_int (fs_budget p) + 1 / 2"
      "c = 0 \<or> c \<le> of_int (fs_budget p - fs_others p) - of_int (fs_members p - fs_active p) * h - h + 3 / 2"
      "md \<notin> {FairShareModeHappyHour, FairShareModeOpen}"
    using capped_range [OF assms] by blast
  have b: "0 < fs_budget p" "fs_budget p \<le> 2 ^ 50" using assms by (auto simp: fair_share_sane_def)
  have "(of_int (fs_budget p) :: rat) \<le> of_int (2 ^ 50)" using b(2) by (simp only: of_int_le_iff)
  then have sum: "0 \<le> h + c" "h + c \<le> of_int (2 ^ 51)" using h c by simp_all
  then have "rnd (h + c) \<le> h + c + 1 / 2" by (intro rnd_le_half) simp
  then have s: "f64_of_rat (h + c) = Fin (rnd (h + c))" "0 \<le> rnd (h + c)" "rnd (h + c) \<le> 2 ^ 51" "rnd (h + c) \<le> h + c + 1 / 2"
    using f64_of_rat_nonneg [OF sum] by simp_all
  have "rnd (of_int (2 * fs_budget p + 1) * 2 powi (- 1)) = of_int (2 * fs_budget p + 1) * 2 powi (- 1)"
    using b by (intro rnd_exact) simp_all
  then have half: "rnd (of_int (fs_budget p) + 1 / 2) = of_int (fs_budget p) + 1 / 2"
    by (simp add: power_int_def field_simps)
  have sb: "rnd (h + c) \<le> of_int (fs_budget p) + 1 / 2" using f64.le_rounded [OF c(3) half] .
  have "\<lfloor>rnd (h + c)\<rfloor> \<le> 2 ^ 51" using s(3) by (simp add: floor_le_iff)
  then have nom: "nominal_allocation p = \<lparr>fa_allowance = max 1 \<lfloor>rnd (h + c)\<rfloor>, fa_mode = md\<rparr>"
    using h(1) c(1) s(1,2) by (simp add: nominal_allocation_def Let_def trunc_rat_def)
  have "\<lfloor>rnd (h + c)\<rfloor> \<le> fs_budget p" using sb by linarith
  then show "1 \<le> fa_allowance (nominal_allocation p) \<and> fa_allowance (nominal_allocation p) \<le> fs_budget p"
    using b(1) by (simp add: nom)
  show "fa_mode (nominal_allocation p) \<notin> {FairShareModeHappyHour, FairShareModeOpen}" using c(5) by (simp add: nom)
  show "of_int (fs_others p + fa_allowance (nominal_allocation p)) + of_int (fs_members p - fs_active p) * g \<le> of_int (fs_budget p) + 2"
    if g: "fs_guaranteed p = Fin g" "of_int (fs_others p) + of_int (fs_members p - fs_active p) * g + g \<le> of_int (fs_budget p)"
  proof -
    have gh: "g = h" using g(1) h(1) by simp
    have fl: "of_int \<lfloor>rnd (h + c)\<rfloor> \<le> h + c + 1 / 2" using s(4) by linarith
    have "h + c \<le> of_int (fs_budget p) - of_int (fs_others p) - of_int (fs_members p - fs_active p) * h + 3 / 2"
      using c(4) g(2) unfolding gh of_int_diff [of "fs_budget p"] by linarith
    then have "of_int (max 1 \<lfloor>rnd (h + c)\<rfloor>) \<le> of_int (fs_budget p) - of_int (fs_others p) - of_int (fs_members p - fs_active p) * h + 2"
      using fl g(2) h(2) unfolding gh by (simp only: of_int_max of_int_1)
    then show ?thesis by (simp add: nom gh)
  qed
qed

lemma happyHourAllowance_eq:
  assumes "0 < fs_budget p" "fs_budget p < 2 ^ 63"
  obtains v where "happyHourAllowance p a = v div max 1 a" "0 \<le> v" "v \<le> fs_budget p"
proof -
  define u where "u = max 0 (wrap64 (fs_usedTotal p - fs_userUsed p))"
  define v where "v = max 0 (wrap64 (fs_budget p - u))"
  have "u < 2 ^ 63" unfolding u_def wrap64_def by (simp add: less_diff_eq)
  then have "wrap64 (fs_budget p - u) = fs_budget p - u" using assms by (intro wrap64_id) (simp_all add: u_def)
  then have v: "0 \<le> v" "v \<le> fs_budget p" using assms by (simp_all add: v_def u_def)
  have "happyHourAllowance p a = v div max 1 a"
    using v(1) by (auto simp: happyHourAllowance_def Let_def u_def v_def max_def sdiv_pos)
  with v show thesis using that by blast
qed

lemma happyHourAllowance_le:
  assumes "0 < fs_budget p" "fs_budget p < 2 ^ 63"
  shows "happyHourAllowance p a \<le> fs_budget p"
proof -
  obtain v where v: "happyHourAllowance p a = v div max 1 a" "0 \<le> v" "v \<le> fs_budget p"
    using happyHourAllowance_eq [OF assms] by blast
  have "v div max 1 a \<le> v div 1" using v(2) by (intro zdiv_mono2) simp_all
  then show ?thesis using v by simp
qed

lemma openAllowance_le:
  assumes "fair_share_sane p" "fs_shareThreshold p \<noteq> NaN"
  shows "openAllowance p \<le> fs_budget p"
proof -
  let ?b = "fs_budget p"
  obtain t where t: "clampUnit (fs_shareThreshold p) = Fin t" "0 \<le> t" "t \<le> 1" using clampUnit_range [OF assms(2)] by blast
  have sane: "0 < ?b" "?b \<le> 2 ^ 50" "0 \<le> fs_userUsed p" "fs_userUsed p \<le> fs_usedTotal p" "fs_usedTotal p \<le> 2 ^ 51"
    using assms(1) by (auto simp: fair_share_sane_def)
  have "t * of_int ?b \<le> 1 * of_int ?b" using t sane(1) by (intro mult_right_mono) simp_all
  then have x: "f64_of_rat (t * of_int ?b) = Fin (rnd (t * of_int ?b))" "0 \<le> rnd (t * of_int ?b)" "rnd (t * of_int ?b) \<le> of_int ?b"
    using f64_of_rat_nonneg [of "t * of_int ?b" ?b] t sane by simp_all
  define n where "n = \<lfloor>rnd (t * of_int ?b) + 1 / 2\<rfloor>"
  have n: "0 \<le> n" "n \<le> ?b" using x(2,3) unfolding n_def by linarith+
  have "f64_to_int64 (f64_round (f64_mul (clampUnit (fs_shareThreshold p)) (f64_of_int ?b))) = n"
    using t x n sane f64_of_int_small [of ?b] by (simp add: n_def [symmetric] trunc_rat_def Let_def)
  moreover have "wrap64 (n - fs_usedTotal p) = n - fs_usedTotal p" using n sane by (intro wrap64_id) simp_all
  moreover have "wrap64 (fs_userUsed p + (n - fs_usedTotal p)) = fs_userUsed p + (n - fs_usedTotal p)"
    using n sane by (intro wrap64_id) simp_all
  ultimately show ?thesis using n sane by (simp add: openAllowance_def Let_def max_def)
qed

text \<open>
  C36.  On a plan with a budget, every member is always let to consume something, never more than the whole
  budget, and never less than the nominal share: the happy hour and the share threshold only widen it.
\<close>

theorem ComputeFairShare_bounds:
  assumes "fair_share_sane p" "fs_shareThreshold p \<noteq> NaN"
  shows "1 \<le> fa_allowance (ComputeFairShare p)
    \<and> fa_allowance (nominal_allocation p) \<le> fa_allowance (ComputeFairShare p)
    \<and> fa_allowance (ComputeFairShare p) \<le> fs_budget p"
proof -
  have b: "0 < fs_budget p" "fs_budget p < 2 ^ 63" using assms(1) by (auto simp: fair_share_sane_def)
  then show ?thesis
    using nominal_range(1) [OF assms(1)] openAllowance_le [OF assms] happyHourAllowance_le [OF b, of "fs_active p"]
    by (simp add: ComputeFairShare_def Let_def)
qed

text \<open>The share when every member is counted as active is the static one, up to rounding.\<close>

lemma static_sum:
  assumes "0 < (m :: rat)" "g \<le> r * b / m + 1" "c \<le> (1 - r) * b / m + 9 / 8"
  shows "g + c \<le> b / m + 17 / 8"
proof -
  have "r * b / m + (1 - r) * b / m = b / m" using assms(1) by (simp add: field_simps)
  then show ?thesis using assms(2,3) by linarith
qed

lemma nominal_static:
  assumes "fair_share_sane p" "fs_active p = fs_members p"
  shows "of_int (fa_allowance (nominal_allocation p)) \<le> (of_int (fs_budget p) / of_int (fs_members p) + 3 :: rat)"
proof -
  let ?b = "of_int (fs_budget p) :: rat" and ?m = "of_int (fs_members p) :: rat"
  have m: "0 < ?m" and b: "0 < ?b" using sane_members [OF assms(1)] assms(1) by (auto simp: fair_share_sane_def)
  obtain c0 md0 r where c0: "paced_commons p = (Fin c0, md0)" "clampUnit (fs_reserve p) = Fin r" "c0 \<le> (1 - r) * ?b / ?m + 9 / 8"
    using paced_range [OF assms(1)] unfolding assms(2) by metis
  have r: "0 \<le> r" "r \<le> 1" using clampUnit_range [of "fs_reserve p"] c0(2) assms(1) by (auto simp: fair_share_sane_def)
  obtain g where g: "fs_guaranteed p = Fin g" "g \<le> r * ?b / ?m + 1"
    using scaled_share [OF r, of "fs_budget p" "fs_members p"] sane_members [OF assms(1)] assms(1) c0(2)
    by (auto simp: fs_guaranteed_def fair_share_sane_def)
  obtain g' c md where c: "fs_guaranteed p = Fin g'" "0 \<le> g'" "capped_commons p = (Fin c, md)" "0 \<le> c" "g' + c \<le> ?b + 1 / 2"
    using capped_range [OF assms(1)] by metis
  have gg: "g' = g" using g(1) c(1) by simp
  have "c \<le> c0"
    using c(3) c0(1) by (cases "allocatableCommons p (fs_guaranteed p) (fs_members p) (fs_active p)")
      (auto simp: capped_commons_def Let_def split: if_splits)
  then have sum: "g + c \<le> ?b / ?m + 17 / 8" using static_sum [OF m g(2) c0(3)] by linarith
  have "?b \<le> of_int (2 ^ 50)" using assms(1) by (simp only: of_int_le_iff fair_share_sane_def)
  then have "0 \<le> g + c" "g + c \<le> of_int (2 ^ 51)" using c gg by simp_all
  note s = f64_of_rat_nonneg [OF this]
  have err: "rnd (g + c) \<le> g + c + 1 / 2" using \<open>0 \<le> g + c\<close> \<open>g + c \<le> of_int (2 ^ 51)\<close> by (intro rnd_le_half) simp
  have "\<lfloor>rnd (g + c)\<rfloor> \<le> 2 ^ 51" using s by (simp add: floor_le_iff)
  then have "fa_allowance (nominal_allocation p) = max 1 \<lfloor>rnd (g + c)\<rfloor>"
    using g(1) c(3) s by (simp add: nominal_allocation_def Let_def trunc_rat_def)
  moreover have "of_int \<lfloor>rnd (g + c)\<rfloor> \<le> ?b / ?m + 3" using err sum by linarith
  moreover have "0 \<le> ?b / ?m" using m b by simp
  ultimately show ?thesis by (simp only: of_int_max of_int_1)
qed

lemma happyHour_static:
  assumes "0 < fs_budget p" "fs_budget p < 2 ^ 63" "1 \<le> a"
  shows "of_int (happyHourAllowance p a) \<le> (of_int (fs_budget p) / of_int a :: rat)"
proof -
  obtain v where v: "happyHourAllowance p a = v div max 1 a" "0 \<le> v" "v \<le> fs_budget p"
    using happyHourAllowance_eq [OF assms(1,2)] by blast
  have "(of_int (v div a) :: rat) \<le> of_int v / of_int a"
    using of_int_floor_le [of "of_int v / of_int a :: rat"] by (simp add: floor_divide_of_int_eq)
  moreover have "(of_int v :: rat) / of_int a \<le> of_int (fs_budget p) / of_int a"
    using v(3) assms(3) by (intro divide_right_mono) simp_all
  ultimately show ?thesis using v(1) assms(3) by (simp add: max_def)
qed

text \<open>Evaluation on figures that float64 holds exactly.\<close>

lemma f64_of_int_exact:
  "(numeral k :: int) \<le> 2 ^ 53 \<Longrightarrow> f64_of_int (numeral k) = Fin (numeral k)" "f64_of_int 0 = Fin 0" "f64_of_int 1 = Fin 1"
  using f64_of_int_small [of "numeral k"] f64_of_int_small [of 0] f64_of_int_small [of 1] by simp_all

lemma f64_of_rat_exact:
  "(numeral k :: int) \<le> 2 ^ 53 \<Longrightarrow> f64_of_rat (numeral k) = Fin (numeral k)"
  "(numeral k :: int) \<le> 2 ^ 53 \<Longrightarrow> f64_of_rat (- numeral k) = Fin (- numeral k)"
  "f64_of_rat 0 = Fin 0" "f64_of_rat 1 = Fin 1" "f64_of_rat (3 / 4) = Fin (3 / 4)"
proof -
  show "f64_of_rat (numeral k) = Fin (numeral k)" "f64_of_rat (- numeral k) = Fin (- numeral k)" if "(numeral k :: int) \<le> 2 ^ 53"
    using that f64_of_int_small [of "numeral k"] f64_of_int_small [of "- numeral k"] by (simp_all add: f64_of_int_def)
  show "f64_of_rat 0 = Fin 0" "f64_of_rat 1 = Fin 1"
    using f64_of_int_small [of 0] f64_of_int_small [of 1] by (simp_all add: f64_of_int_def)
  have "rnd (3 / 4) = 3 / 4" using rnd_exact [of 3 "- 2"] by (simp add: power_int_def power2_eq_square)
  then show "f64_of_rat (3 / 4) = Fin (3 / 4)" by (simp add: f64_of_rat_def f64_overflow_def)
qed

definition weekly_plan :: "int \<Rightarrow> int \<Rightarrow> int \<Rightarrow> fair_share_params" where
  "weekly_plan active total_used user_used =
     \<lparr>fs_budget = 1200, fs_totalMembers = 3, fs_activeUsers = active, fs_usedTotal = total_used, fs_userUsed = user_used,
      fs_windowDuration = 168 * 3600 * 10 ^ 9, fs_elapsed = Fin (- 1), fs_reserve = Fin (1 / 4), fs_slack = DefaultPaceSlack,
      fs_happyHourStart = DefaultHappyHourStart, fs_happyHourMaxLead = MaxHappyHourLead, fs_shareThreshold = Fin 0\<rparr>"

lemmas weekly_plan_eval = weekly_plan_def fs_others_def fs_members_def fs_active_def fs_guaranteed_def clampUnit_def
  nominal_allocation_def capped_commons_def paced_commons_def allocatableCommons_def openAllowance_def ComputeFairShare_def
  f64_of_int_exact f64_of_rat_exact f64_sub_def f64_le_def wrap64_def trunc_rat_def

theorem ComputeFairShare_bounds_witness:
  "1 \<le> fa_allowance (ComputeFairShare (weekly_plan 2 1000 0))
    \<and> fa_allowance (nominal_allocation (weekly_plan 2 1000 0)) \<le> fa_allowance (ComputeFairShare (weekly_plan 2 1000 0))
    \<and> fa_allowance (ComputeFairShare (weekly_plan 2 1000 0)) \<le> fs_budget (weekly_plan 2 1000 0)"
  by (rule ComputeFairShare_bounds) (simp_all add: weekly_plan_def fair_share_sane_def)

text \<open>
  One grant is a reservation: as long as what the others consumed leaves the floors of the absent members
  and the caller's own, the share granted to the caller, on top of what the others consumed, still leaves the
  floors of the absent members in the budget, up to two units of rounding.
\<close>

theorem ComputeFairShare_keeps_absent_floors:
  assumes "fair_share_sane p" "fs_guaranteed p = Fin g"
    and "of_int (fs_others p) + of_int (fs_members p - fs_active p) * g + g \<le> of_int (fs_budget p)"
    and "fa_mode (ComputeFairShare p) \<notin> {FairShareModeHappyHour, FairShareModeOpen}"
  shows "of_int (fs_others p + fa_allowance (ComputeFairShare p)) + of_int (fs_members p - fs_active p) * g
    \<le> of_int (fs_budget p) + 2"
proof -
  have "ComputeFairShare p = nominal_allocation p"
    using assms(1,4) by (auto simp: ComputeFairShare_def Let_def fair_share_sane_def split: if_splits)
  then show ?thesis using nominal_range(2) [OF assms(1-3)] by simp
qed

theorem ComputeFairShare_keeps_absent_floors_witness:
  "of_int (fs_others (weekly_plan 2 300 0) + fa_allowance (ComputeFairShare (weekly_plan 2 300 0)))
     + of_int (fs_members (weekly_plan 2 300 0) - fs_active (weekly_plan 2 300 0)) * 100
   \<le> (of_int (fs_budget (weekly_plan 2 300 0)) + 2 :: rat)"
proof (rule ComputeFairShare_keeps_absent_floors)
  show "fair_share_sane (weekly_plan 2 300 0)" by (simp add: weekly_plan_def fair_share_sane_def)
  show "fs_guaranteed (weekly_plan 2 300 0) = Fin 100" by (simp add: weekly_plan_eval)
  show "of_int (fs_others (weekly_plan 2 300 0))
     + of_int (fs_members (weekly_plan 2 300 0) - fs_active (weekly_plan 2 300 0)) * 100 + 100
    \<le> (of_int (fs_budget (weekly_plan 2 300 0)) :: rat)"
    by (simp add: weekly_plan_def fs_others_def fs_members_def fs_active_def)
  show "fa_mode (ComputeFairShare (weekly_plan 2 300 0)) \<notin> {FairShareModeHappyHour, FairShareModeOpen}" by (simp add: weekly_plan_eval)
qed

section \<open>Shares granted in sequence\<close>

text \<open>
  A history of grants on a sliding window: a request of a user is let through when the user is below the share
  computed on the usage recorded so far, and then consumes up to it.  The users who consumed, and the caller,
  are the active ones.
\<close>

type_synonym plan_usage = "(string \<times> int) list"

definition usage_of :: "plan_usage \<Rightarrow> string \<Rightarrow> int" where
  "usage_of u user = sum_list (map snd (filter (\<lambda>(v, _). v = user) u))"

definition plan_total :: "plan_usage \<Rightarrow> int" where
  "plan_total u = sum_list (map snd u)"

definition share_of :: "(int \<Rightarrow> int \<Rightarrow> int \<Rightarrow> fair_share_params) \<Rightarrow> plan_usage \<Rightarrow> string \<Rightarrow> int" where
  "share_of plan u user =
     fa_allowance (ComputeFairShare (plan (int (length (remdups (user # map fst u)))) (plan_total u) (usage_of u user)))"

inductive granted :: "(int \<Rightarrow> int \<Rightarrow> int \<Rightarrow> fair_share_params) \<Rightarrow> plan_usage \<Rightarrow> bool" for plan where
  granted_none: "granted plan []"
| granted_step: "granted plan u \<Longrightarrow> 0 \<le> x \<Longrightarrow> usage_of u user + x \<le> share_of plan u user \<Longrightarrow> granted plan ((user, x) # u)"

text \<open>
  Shares granted in sequence can add up past the budget: only the floors of absent members are set aside,
  and a member who has shown up but not used their floor finds it handed out to the next one.  Three members
  of a plan of 1200 units, each staying within the share granted at that moment, consume 1230.
\<close>

theorem shares_exceed_budget:
  "granted weekly_plan [(''i'', 90), (''k'', 130), (''i'', 10), (''j'', 1000)]
   \<and> plan_total [(''i'', 90), (''k'', 130), (''i'', 10), (''j'', 1000)] = fs_budget (weekly_plan 3 1230 100) + 30"
proof -
  have "granted weekly_plan [(''j'', 1000)]"
    by (rule granted_step [OF granted_none]) (simp_all add: share_of_def usage_of_def plan_total_def weekly_plan_eval)
  then have "granted weekly_plan [(''i'', 10), (''j'', 1000)]"
    by (rule granted_step) (simp_all add: share_of_def usage_of_def plan_total_def weekly_plan_eval)
  then have "granted weekly_plan [(''k'', 130), (''i'', 10), (''j'', 1000)]"
    by (rule granted_step) (simp_all add: share_of_def usage_of_def plan_total_def weekly_plan_eval)
  then have "granted weekly_plan [(''i'', 90), (''k'', 130), (''i'', 10), (''j'', 1000)]"
    by (rule granted_step) (simp_all add: share_of_def usage_of_def plan_total_def weekly_plan_eval)
  then show ?thesis by (simp add: plan_total_def weekly_plan_def)
qed

end
