(* ===== verification/Expiring_Table.thy ===== *)
theory Expiring_Table
  imports Quota "HOL-Library.AList"
begin

text \<open>
  In-memory maps whose entries expire, as the proxy keeps four of: the active-user counts and the presences of
  \<open>src/internal/core/service/active_user_cache.go\<close>, the models of an organization of
  \<open>src/internal/adapter/proxy/upstream_model_cache.go\<close> and the cooldowns of
  \<open>src/internal/adapter/proxy/subscription_state.go\<close>.  Each insertion sweeps the expired entries once the map has
  outgrown its last sweep.

  A Go map is an association list with distinct keys.  The mutexes make each operation one step.
\<close>

definition minPurgeAt :: nat where
  "minPurgeAt = 64"

text \<open>The sweep that the insertions share: what is kept, and the size of the next sweep.\<close>

definition sweep :: "('v \<Rightarrow> int) \<Rightarrow> int \<Rightarrow> ('k \<times> 'v) list \<times> nat \<Rightarrow> ('k \<times> 'v) list \<times> nat" where
  "sweep expiry now t =
     (case t of (entries, purgeAt) \<Rightarrow>
        if length entries \<ge> purgeAt
        then (let kept = filter (\<lambda>(_, e). \<not> now > expiry e) entries in (kept, max (2 * length kept) minPurgeAt))
        else (entries, purgeAt))"

definition sweep_put :: "('v \<Rightarrow> int) \<Rightarrow> int \<Rightarrow> 'k \<Rightarrow> 'v \<Rightarrow> ('k \<times> 'v) list \<times> nat \<Rightarrow> ('k \<times> 'v) list \<times> nat" where
  "sweep_put expiry now key e t = (case sweep expiry now t of (entries, purgeAt) \<Rightarrow> (AList.update key e entries, purgeAt))"

definition sweep_get :: "('v \<Rightarrow> int) \<Rightarrow> int \<Rightarrow> 'k \<Rightarrow> ('k \<times> 'v) list \<times> nat \<Rightarrow> 'v option" where
  "sweep_get expiry now key t =
     (case map_of (fst t) key of
        None \<Rightarrow> None
      | Some e \<Rightarrow> if now > expiry e then None else Some e)"

definition empty_table :: "('k \<times> 'v) list \<times> nat" where
  "empty_table = ([], minPurgeAt)"

section \<open>The specification: the last write, while it is fresh\<close>

text \<open>A history of writes, the last one first, each with its instant.\<close>

type_synonym ('k, 'v) history = "(int \<times> 'k \<times> 'v) list"

fun last_write :: "('k, 'v) history \<Rightarrow> 'k \<Rightarrow> 'v option" where
  "last_write [] key = None"
| "last_write ((_, k, e) # h) key = (if k = key then Some e else last_write h key)"

definition fresh_write :: "('v \<Rightarrow> int) \<Rightarrow> ('k, 'v) history \<Rightarrow> int \<Rightarrow> 'k \<Rightarrow> 'v option" where
  "fresh_write expiry h now key =
     (case last_write h key of
        None \<Rightarrow> None
      | Some e \<Rightarrow> if now > expiry e then None else Some e)"

text \<open>The instants of a history, read by one clock that never goes back.\<close>

fun in_order :: "('k, 'v) history \<Rightarrow> int \<Rightarrow> bool" where
  "in_order [] now = True"
| "in_order ((t, _, _) # h) now = (t \<le> now \<and> in_order h t)"

lemma in_order_later: "in_order h t \<Longrightarrow> t \<le> now \<Longrightarrow> in_order h now"
  by (cases "(h, t)" rule: in_order.cases) auto

text \<open>
  What the clients of an expiring map rely on: a read returns the last write of its key while it is fresh, and
  the size stays below a bound that a sweep sets.
\<close>

locale expiring_map =
  fixes empty :: 't
    and put :: "int \<Rightarrow> 'k \<Rightarrow> 'v \<Rightarrow> 't \<Rightarrow> 't"
    and get :: "int \<Rightarrow> 'k \<Rightarrow> 't \<Rightarrow> 'v option"
    and expiry :: "'v \<Rightarrow> int"
    and invar :: "'t \<Rightarrow> bool"
  assumes invar_empty: "invar empty"
    and invar_put: "invar t \<Longrightarrow> invar (put now k e t)"
    and get_empty: "get now k empty = None"
    and get_put: "invar t \<Longrightarrow> now \<le> later \<Longrightarrow>
      get later k (put now k' e t) = (if k = k' then (if later > expiry e then None else Some e) else get later k t)"
begin

fun replay :: "('k, 'v) history \<Rightarrow> 't" where
  "replay [] = empty"
| "replay ((t, k, e) # h) = put t k e (replay h)"

lemma invar_replay: "invar (replay h)"
  by (induction h rule: replay.induct) (auto intro: invar_empty invar_put)

lemma replay_refines: "in_order h now \<Longrightarrow> get now k (replay h) = fresh_write expiry h now k"
proof (induction h)
  case (Cons w h)
  obtain t k' e where w: "w = (t, k', e)" by (cases w)
  have "in_order h now" "t \<le> now" using Cons.prems in_order_later by (auto simp: w)
  then show ?case using Cons.IH by (simp add: w get_put invar_replay fresh_write_def)
qed (simp add: get_empty fresh_write_def)

end

section \<open>The sweeping map\<close>

definition table_ok :: "('k \<times> 'v) list \<times> nat \<Rightarrow> bool" where
  "table_ok t = (distinct (map fst (fst t)) \<and> length (fst t) \<le> snd t \<and> minPurgeAt \<le> snd t)"

lemma map_of_filter_distinct:
  "distinct (map fst al) \<Longrightarrow> map_of (filter P al) k = (case map_of al k of None \<Rightarrow> None | Some v \<Rightarrow> if P (k, v) then Some v else None)"
proof (induction al)
  case (Cons x al)
  then have "fst x \<notin> set (map fst (filter P al))" by auto
  then have "map_of (filter P al) (fst x) = None" "map_of al (fst x) = None"
    using Cons.prems by (auto simp: map_of_eq_None_iff)
  then show ?case using Cons by (cases x) auto
qed simp

lemma length_update_le: "length (AList.update k v al) \<le> Suc (length al)"
  by (induction al) auto

lemma sweep_distinct: "distinct (map fst (fst t)) \<Longrightarrow> distinct (map fst (fst (sweep expiry now t)))"
  by (cases t) (auto simp: sweep_def Let_def intro: distinct_map_filter)

text \<open>After a sweep there is room for one more entry.\<close>

lemma sweep_room:
  "length (fst t) \<le> snd t \<Longrightarrow> minPurgeAt \<le> snd t \<Longrightarrow>
    length (fst (sweep expiry now t)) < snd (sweep expiry now t) \<and> minPurgeAt \<le> snd (sweep expiry now t)"
  by (cases t) (auto simp: sweep_def Let_def minPurgeAt_def)

lemma sweep_put_ok: "table_ok t \<Longrightarrow> table_ok (sweep_put expiry now k e t)"
  using sweep_distinct [of t expiry now] sweep_room [of t expiry now]
    length_update_le [of k e "fst (sweep expiry now t)"]
  by (auto simp: table_ok_def sweep_put_def distinct_update split: prod.splits)

lemma sweep_keeps_fresh:
  assumes "distinct (map fst (fst t))" "now \<le> later"
  shows "sweep_get expiry later k (sweep expiry now t) = sweep_get expiry later k t"
  using assms by (cases t) (auto simp: sweep_def sweep_get_def Let_def map_of_filter_distinct split: option.splits)

lemma sweep_get_put:
  assumes "distinct (map fst (fst t))" "now \<le> later"
  shows "sweep_get expiry later k (sweep_put expiry now k' e t)
    = (if k = k' then (if later > expiry e then None else Some e) else sweep_get expiry later k t)"
proof -
  have "sweep_get expiry later k (sweep_put expiry now k' e t)
    = (if k = k' then (if later > expiry e then None else Some e) else sweep_get expiry later k (sweep expiry now t))"
    by (cases "sweep expiry now t") (simp add: sweep_put_def sweep_get_def update_conv')
  then show ?thesis using sweep_keeps_fresh [OF assms, of expiry k] by simp
qed

interpretation swept: expiring_map empty_table "sweep_put expiry" "sweep_get expiry" expiry table_ok for expiry
proof unfold_locales
  show "table_ok empty_table" by (simp add: table_ok_def empty_table_def)
  show "sweep_get expiry now k empty_table = None" for now and k :: 'a by (simp add: sweep_get_def empty_table_def)
  show "table_ok t \<Longrightarrow> table_ok (sweep_put expiry now k e t)" for t and now and k :: 'a and e by (rule sweep_put_ok)
  show "sweep_get expiry later k (sweep_put expiry now k' e t)
      = (if k = k' then (if later > expiry e then None else Some e) else sweep_get expiry later k t)"
    if "table_ok t" "now \<le> later" for t now later and k k' :: 'a and e
    using that by (intro sweep_get_put) (simp_all add: table_ok_def)
qed

text \<open>
  A sweeping map is a log of writes read back: whatever was written before, in any number and with sweeps
  in between, a read returns the last value written under its key exactly while that value is fresh.
\<close>

theorem sweeping_map_refines:
  assumes "in_order h now"
  shows "sweep_get expiry now k (foldr (\<lambda>(t, k, e). sweep_put expiry t k e) h empty_table) = fresh_write expiry h now k"
proof -
  have "foldr (\<lambda>(t, k, e). sweep_put expiry t k e) h empty_table = swept.replay expiry h"
    by (induction h) auto
  then show ?thesis using swept.replay_refines [OF assms] by simp
qed

theorem sweeping_map_refines_witness:
  "sweep_get id 12 ''a'' (foldr (\<lambda>(t, k, e). sweep_put id t k e) [(7, ''b'', 9), (5, ''a'', 20)] empty_table)
    = fresh_write id [(7, ''b'', 9), (5, ''a'', 20)] 12 ''a''"
  by (rule sweeping_map_refines) simp

end
