(* ===== verification/Fair_Share_Service.thy ===== *)
theory Fair_Share_Service
  imports Fair_Share Expiring_Table "HOL-Library.List_Lexorder" "HOL-Library.Char_ord"
begin

text \<open>
  The resolution of a user's share (\<open>src/internal/core/service/fair_share.go\<close>) with its two caches
  (\<open>src/internal/core/service/active_user_cache.go\<close>), and the scope of the usage a constraint counts
  (\<open>PlanUsageScope\<close> of \<open>src/internal/core/model/billing.go\<close>).

  The usage store is a record of functions that may fail.  A plan-wide count runs behind the request, bounded by
  \<open>firstReadWait\<close>: the flag \<open>in_time\<close> says whether it ends before the request stops waiting for it, and \<open>reload\<close>
  is the step that writes its result, whenever that is.
\<close>

section \<open>Usage scopes\<close>

record plan_usage_scope =
  us_orgID :: string
  us_providerID :: string
  us_modelIDs :: "string list"
  us_byKey :: bool
  us_keyID :: string
  us_keyWindows :: "(string \<times> int) list"

definition Since :: "plan_usage_scope \<Rightarrow> int \<Rightarrow> int" where
  "Since s since = fold (\<lambda>(_, start) t. if start < t then start else t) (us_keyWindows s) since"

fun digits :: "nat \<Rightarrow> string" where
  "digits n = (if n < 10 then [char_of (48 + n)] else digits (n div 10) @ [char_of (48 + n mod 10)])"

definition FormatInt :: "int \<Rightarrow> string" where
  "FormatInt n = (if n < 0 then CHR ''-'' # digits (nat (- n)) else digits (nat n))"

fun join_with :: "string \<Rightarrow> string list \<Rightarrow> string" where
  "join_with sep [] = []"
| "join_with sep [x] = x"
| "join_with sep (x # xs) = x @ sep @ join_with sep xs"

definition scope_Key :: "plan_usage_scope \<Rightarrow> string" where
  "scope_Key s =
     us_orgID s @ ''|'' @ us_providerID s @ ''|'' @ join_with '','' (sort (us_modelIDs s))
     @ (if us_byKey s then ''|key:'' @ us_keyID s else [])
     @ concat (map (\<lambda>k. ''|'' @ k @ ''@'' @ FormatInt (wrap64 (the (map_of (us_keyWindows s) k))))
                 (sort (remdups (map fst (us_keyWindows s)))))"

section \<open>The caches\<close>

type_synonym active_user_key = "string \<times> int"

definition activeUserKeyFor :: "plan_usage_scope \<Rightarrow> int \<Rightarrow> int \<Rightarrow> active_user_key" where
  "activeUserKeyFor scope since ttl =
     (scope_Key scope, if ttl > 0 then wrap64 since sdiv ttl else wrap64 since)"

record active_user_entry =
  ae_count :: int
  ae_degraded :: bool
  ae_expiresAt :: int

record active_user_cache =
  ac_ttl :: int
  ac_table :: "(active_user_key \<times> active_user_entry) list \<times> nat"

definition newActiveUserCache :: "int \<Rightarrow> active_user_cache" where
  "newActiveUserCache ttl = \<lparr>ac_ttl = ttl, ac_table = empty_table\<rparr>"

definition cache_lookup :: "active_user_cache \<Rightarrow> active_user_key \<Rightarrow> int \<Rightarrow> (active_user_entry \<times> bool) option" where
  "cache_lookup c key now =
     (if ac_ttl c \<le> 0 then None
      else map_option (\<lambda>e. (e, \<not> now > ae_expiresAt e)) (map_of (fst (ac_table c)) key))"

definition cache_get :: "active_user_cache \<Rightarrow> active_user_key \<Rightarrow> int \<Rightarrow> active_user_entry option" where
  "cache_get c key now =
     (case cache_lookup c key now of
        Some (e, fresh) \<Rightarrow> if fresh then Some e else None
      | None \<Rightarrow> None)"

definition cache_put :: "active_user_cache \<Rightarrow> active_user_key \<Rightarrow> active_user_entry \<Rightarrow> int \<Rightarrow> active_user_cache" where
  "cache_put c key entry now =
     (if ac_ttl c \<le> 0 then c
      else c\<lparr>ac_table := sweep_put ae_expiresAt now key (entry\<lparr>ae_expiresAt := now + ac_ttl c\<rparr>) (ac_table c)\<rparr>)"

record presence_cache =
  pr_ttl :: int
  pr_table :: "((active_user_key \<times> string) \<times> int) list \<times> nat"

definition newPresenceCache :: "int \<Rightarrow> presence_cache" where
  "newPresenceCache ttl = \<lparr>pr_ttl = ttl, pr_table = empty_table\<rparr>"

definition presence_has :: "presence_cache \<Rightarrow> active_user_key \<times> string \<Rightarrow> int \<Rightarrow> bool" where
  "presence_has c key now = (pr_ttl c > 0 \<and> sweep_get id now key (pr_table c) \<noteq> None)"

definition presence_remember :: "presence_cache \<Rightarrow> active_user_key \<times> string \<Rightarrow> int \<Rightarrow> presence_cache" where
  "presence_remember c key now =
     (if pr_ttl c \<le> 0 then c
      else c\<lparr>pr_table := sweep_put id now key (now + pr_ttl c) (pr_table c)\<rparr>)"

section \<open>The service\<close>

record plan_totals =
  pt_tokens :: int
  pt_value :: int

record 'e plan_usage_reader =
  ur_sumPlan :: "plan_usage_scope \<Rightarrow> int \<Rightarrow> ('e, plan_totals) result"
  ur_sumUser :: "string \<Rightarrow> plan_usage_scope \<Rightarrow> int \<Rightarrow> ('e, plan_totals) result"
  ur_countActive :: "plan_usage_scope \<Rightarrow> int \<Rightarrow> string \<Rightarrow> ('e, int) result"
  ur_hasUsage :: "string \<Rightarrow> plan_usage_scope \<Rightarrow> int \<Rightarrow> ('e, bool) result"

record fair_share_request =
  fr_orgID :: string
  fr_providerID :: string
  fr_modelIDs :: "string list"
  fr_keyWindows :: "(string \<times> int) list"
  fr_userID :: string
  fr_memberCount :: int
  fr_constraint :: plan_constraint
  fr_now :: int
  fr_planUsage :: "plan_totals option"
  fr_userUsage :: "plan_totals option"

record fair_share_result =
  fres_tokenAllowance :: "int option"
  fres_valueAllowance :: "int option"
  fres_tokenMode :: "fair_share_mode option"
  fres_valueMode :: "fair_share_mode option"
  fres_planTokens :: int
  fres_planValue :: int
  fres_userTokens :: int
  fres_userValue :: int
  fres_activeUsers :: int
  fres_countDegraded :: bool

record fair_share_service =
  ss_activeUsers :: active_user_cache
  ss_presence :: presence_cache

datatype 'e share_error = ErrFairShareNotApplicable | ShareUsageError 'e

definition request_scope :: "fair_share_request \<Rightarrow> plan_usage_scope" where
  "request_scope r =
     \<lparr>us_orgID = fr_orgID r, us_providerID = fr_providerID r, us_modelIDs = fr_modelIDs r, us_byKey = False,
      us_keyID = '''', us_keyWindows = fr_keyWindows r\<rparr>"

text \<open>The reload keeps an entry another caller has filled meanwhile, and caches a failure like a value.\<close>

definition reload :: "'e plan_usage_reader \<Rightarrow> fair_share_request \<Rightarrow> int \<Rightarrow> active_user_cache
    \<Rightarrow> active_user_cache \<times> active_user_entry" where
  "reload r req since c =
     (let key = activeUserKeyFor (request_scope req) since (ac_ttl c) in
      case cache_get c key (fr_now req) of
        Some e \<Rightarrow> (c, e)
      | None \<Rightarrow>
          (let e = (case ur_countActive r (request_scope req) since '''' of
                      Inr n \<Rightarrow> \<lparr>ae_count = n, ae_degraded = False, ae_expiresAt = zero_time\<rparr>
                    | Inl _ \<Rightarrow> \<lparr>ae_count = 0, ae_degraded = True, ae_expiresAt = zero_time\<rparr>)
           in (cache_put c key e (fr_now req), e)))"

definition countAll :: "'e plan_usage_reader \<Rightarrow> bool \<Rightarrow> fair_share_request \<Rightarrow> int \<Rightarrow> active_user_cache
    \<Rightarrow> active_user_cache \<times> int \<times> bool" where
  "countAll r in_time req since c =
     (case cache_lookup c (activeUserKeyFor (request_scope req) since (ac_ttl c)) (fr_now req) of
        Some (e, fresh) \<Rightarrow>
          if fresh then (c, ae_count e, ae_degraded e)
          else (if in_time then fst (reload r req since c) else c, ae_count e, ae_degraded e)
      | None \<Rightarrow>
          if in_time then (case reload r req since c of (c', e) \<Rightarrow> (c', ae_count e, ae_degraded e))
          else (c, 0, True))"

definition isPresent :: "'e plan_usage_reader \<Rightarrow> fair_share_request \<Rightarrow> int \<Rightarrow> presence_cache \<Rightarrow> presence_cache \<times> bool" where
  "isPresent r req since c =
     (let key = (activeUserKeyFor (request_scope req) since (pr_ttl c), fr_userID req) in
      if presence_has c key (fr_now req) then (c, True)
      else (case ur_hasUsage r (fr_userID req) (request_scope req) since of
              Inr True \<Rightarrow> (presence_remember c key (fr_now req), True)
            | _ \<Rightarrow> (c, False)))"

definition countActive :: "'e plan_usage_reader \<Rightarrow> bool \<Rightarrow> fair_share_request \<Rightarrow> int \<Rightarrow> fair_share_service
    \<Rightarrow> fair_share_service \<times> int \<times> bool" where
  "countActive r in_time req since s =
     (case countAll r in_time req since (ss_activeUsers s) of (c, n, degraded) \<Rightarrow>
        if degraded then (s\<lparr>ss_activeUsers := c\<rparr>, 0, True)
        else (case isPresent r req since (ss_presence s) of (pc, present) \<Rightarrow>
                (s\<lparr>ss_activeUsers := c, ss_presence := pc\<rparr>, if present then n else wrap64 (n + 1), False)))"

definition allocation :: "fair_share_params \<Rightarrow> int option \<Rightarrow> int \<Rightarrow> int \<Rightarrow> fair_share_allocation option" where
  "allocation base budget used userUsed =
     map_option (\<lambda>b. ComputeFairShare (base\<lparr>fs_budget := b, fs_usedTotal := used, fs_userUsed := userUsed\<rparr>)) budget"

definition empty_params :: fair_share_params where
  "empty_params =
     \<lparr>fs_budget = 0, fs_totalMembers = 0, fs_activeUsers = 0, fs_usedTotal = 0, fs_userUsed = 0, fs_windowDuration = 0,
      fs_elapsed = Fin 0, fs_reserve = Fin 0, fs_slack = Fin 0, fs_happyHourStart = Fin 0, fs_happyHourMaxLead = 0,
      fs_shareThreshold = Fin 0\<rparr>"

definition read_usage :: "plan_totals option \<Rightarrow> ('e, plan_totals) result \<Rightarrow> ('e share_error, plan_totals) result" where
  "read_usage given stored =
     (case given of
        Some u \<Rightarrow> Inr u
      | None \<Rightarrow> (case stored of Inr u \<Rightarrow> Inr u | Inl e \<Rightarrow> Inl (ShareUsageError e)))"

definition base_params :: "fair_share_request \<Rightarrow> int \<Rightarrow> fair_share_params" where
  "base_params req active =
     FairShareParamsFor (fr_constraint req)
       (empty_params\<lparr>fs_totalMembers := fr_memberCount req, fs_activeUsers := active,
                     fs_elapsed := ElapsedFraction (fr_constraint req) (fr_now req)\<rparr>)"

definition share_result :: "fair_share_request \<Rightarrow> plan_totals \<Rightarrow> plan_totals \<Rightarrow> int \<Rightarrow> bool \<Rightarrow> fair_share_result" where
  "share_result req plan user active degraded =
     (let base = base_params req active;
          t = allocation base (pc_tokenBudget (fr_constraint req)) (pt_tokens plan) (pt_tokens user);
          v = allocation base (pc_valueBudget (fr_constraint req)) (pt_value plan) (pt_value user)
      in \<lparr>fres_tokenAllowance = map_option fa_allowance t, fres_valueAllowance = map_option fa_allowance v,
          fres_tokenMode = map_option fa_mode t, fres_valueMode = map_option fa_mode v,
          fres_planTokens = pt_tokens plan, fres_planValue = pt_value plan, fres_userTokens = pt_tokens user,
          fres_userValue = pt_value user, fres_activeUsers = active, fres_countDegraded = degraded\<rparr>)"

definition Resolve :: "'e plan_usage_reader \<Rightarrow> bool \<Rightarrow> fair_share_request \<Rightarrow> fair_share_service
    \<Rightarrow> fair_share_service \<times> ('e share_error, fair_share_result) result" where
  "Resolve r in_time req s =
     (if fr_memberCount req \<le> 0 \<or> fr_userID req = [] then (s, Inl ErrFairShareNotApplicable)
      else
        (let since = CurrentWindowStart (fr_constraint req) (fr_now req) in
         case read_usage (fr_planUsage req) (ur_sumPlan r (request_scope req) since) of
           Inl e \<Rightarrow> (s, Inl e)
         | Inr plan \<Rightarrow>
             (case read_usage (fr_userUsage req) (ur_sumUser r (fr_userID req) (request_scope req) since) of
                Inl e \<Rightarrow> (s, Inl e)
              | Inr user \<Rightarrow>
                  (case countActive r in_time req since s of (s', n, degraded) \<Rightarrow>
                     (let active = (if degraded then fr_memberCount req else n);
                          active = (if active > fr_memberCount req then fr_memberCount req else active)
                      in (s', Inr (share_result req plan user active degraded)))))))"

section \<open>Shares without a count\<close>

lemma ComputeFairShare_static:
  assumes "fair_share_sane p" "fs_active p = fs_members p" "f64_le (fs_shareThreshold p) (Fin 0)"
  shows "of_int (fa_allowance (ComputeFairShare p)) \<le> (of_int (fs_budget p) / of_int (fs_members p) + 3 :: rat)"
proof -
  have b: "0 < fs_budget p" "fs_budget p < 2 ^ 63" using assms(1) by (auto simp: fair_share_sane_def)
  have "openAllowance p = 0" using assms(3) by (simp add: openAllowance_def)
  moreover have "1 \<le> fa_allowance (nominal_allocation p)" using nominal_range(1) [OF assms(1)] by simp
  ultimately have "ComputeFairShare p = nominal_allocation p
      \<or> fa_allowance (ComputeFairShare p) = happyHourAllowance p (fs_members p)"
    using b(1) assms(2) by (auto simp: ComputeFairShare_def Let_def split: if_splits)
  moreover have "of_int (happyHourAllowance p (fs_members p)) \<le> (of_int (fs_budget p) / of_int (fs_members p) :: rat)"
    using happyHour_static [OF b] sane_members [OF assms(1)] by simp
  ultimately show ?thesis using nominal_static [OF assms(1,2)] by (elim disjE) simp_all
qed

text \<open>The allocator's input for one budget of a request, as \<open>Resolve\<close> builds it.\<close>

definition resolved_params :: "fair_share_request \<Rightarrow> int \<Rightarrow> int \<Rightarrow> int \<Rightarrow> int \<Rightarrow> fair_share_params" where
  "resolved_params req active budget used userUsed =
     (base_params req active)\<lparr>fs_budget := budget, fs_usedTotal := used, fs_userUsed := userUsed\<rparr>"

lemma resolved_params_sel:
  "fs_totalMembers (resolved_params req a b u v) = fr_memberCount req"
  "fs_activeUsers (resolved_params req a b u v) = a" "fs_budget (resolved_params req a b u v) = b"
  "fs_usedTotal (resolved_params req a b u v) = u" "fs_userUsed (resolved_params req a b u v) = v"
  "fs_shareThreshold (resolved_params req a b u v) = (case pc_shareThreshold (fr_constraint req) of Some t \<Rightarrow> t | None \<Rightarrow> Fin 0)"
  by (simp_all add: resolved_params_def base_params_def FairShareParamsFor_def empty_params_def
      split: option.splits)

lemma Resolve_Inr:
  assumes "Resolve r in_time req s = (s', Inr res)"
  obtains plan user active where "res = share_result req plan user active (fres_countDegraded res)"
    "active = fres_activeUsers res" "active \<le> fr_memberCount req" "0 < fr_memberCount req"
    "fres_countDegraded res \<longrightarrow> active = fr_memberCount req"
    "pt_tokens plan = fres_planTokens res" "pt_tokens user = fres_userTokens res"
  using assms unfolding Resolve_def
  by (auto simp: Let_def share_result_def split: if_splits sum.splits prod.splits)

text \<open>
  A share resolved without the count of active users is at most the static one, the budget divided by the
  number of members, up to three units of rounding, on a constraint without a share threshold: pacing, the
  availability cap and the happy hour never take it further.
\<close>

theorem Resolve_degraded_static:
  assumes "Resolve r in_time req s = (s', Inr res)" "fres_countDegraded res"
    and "pc_shareThreshold (fr_constraint req) = None" "pc_tokenBudget (fr_constraint req) = Some budget"
    and "fair_share_sane (resolved_params req (fr_memberCount req) budget (fres_planTokens res) (fres_userTokens res))"
  shows "\<exists>allowance. fres_tokenAllowance res = Some allowance
    \<and> of_int allowance \<le> (of_int budget / of_int (fr_memberCount req) + 3 :: rat)"
proof -
  obtain plan user active where res: "res = share_result req plan user active True" "active = fr_memberCount req"
    "0 < fr_memberCount req" "pt_tokens plan = fres_planTokens res" "pt_tokens user = fres_userTokens res"
    using Resolve_Inr [OF assms(1)] assms(2) by metis
  let ?p = "resolved_params req (fr_memberCount req) budget (fres_planTokens res) (fres_userTokens res)"
  have "fres_tokenAllowance res = fres_tokenAllowance (share_result req plan user active True)"
    by (rule arg_cong [OF res(1)])
  also have "\<dots> = Some (fa_allowance (ComputeFairShare ?p))"
    using res(2,4,5) assms(4) by (simp add: share_result_def Let_def allocation_def resolved_params_def)
  finally have "fres_tokenAllowance res = Some (fa_allowance (ComputeFairShare ?p))" .
  moreover have "fs_active ?p = fs_members ?p" "fs_members ?p = fr_memberCount req"
    using res(3) by (simp_all add: fs_active_def fs_members_def resolved_params_sel)
  moreover have "f64_le (fs_shareThreshold ?p) (Fin 0)" using assms(3) by (simp add: resolved_params_sel f64_le_def)
  ultimately show ?thesis using ComputeFairShare_static [OF assms(5)] by (simp add: resolved_params_sel)
qed

text \<open>A plan of 1200 tokens shared by three members, 1010 consumed by another one, and a store that cannot count.\<close>

definition sliding_constraint :: plan_constraint where
  "sliding_constraint = anchored_constraint\<lparr>pc_windowAnchor := None, pc_reserveRatio := Some (Fin (1 / 4))\<rparr>"

definition uncounted_request :: fair_share_request where
  "uncounted_request =
     \<lparr>fr_orgID = ''acme'', fr_providerID = ''p'', fr_modelIDs = [], fr_keyWindows = [], fr_userID = ''i'', fr_memberCount = 3,
      fr_constraint = sliding_constraint, fr_now = 1770000000 * 10 ^ 9,
      fr_planUsage = Some \<lparr>pt_tokens = 1010, pt_value = 0\<rparr>, fr_userUsage = Some \<lparr>pt_tokens = 0, pt_value = 0\<rparr>\<rparr>"

definition counting_reader :: "(string, int) result \<Rightarrow> string plan_usage_reader" where
  "counting_reader n =
     \<lparr>ur_sumPlan = (\<lambda>_ _. Inl ''unused''), ur_sumUser = (\<lambda>_ _ _. Inl ''unused''), ur_countActive = (\<lambda>_ _ _. n),
      ur_hasUsage = (\<lambda>_ _ _. Inr False)\<rparr>"

definition fresh_service :: fair_share_service where
  "fresh_service = \<lparr>ss_activeUsers = newActiveUserCache 0, ss_presence = newPresenceCache 0\<rparr>"

lemmas service_eval = Resolve_def read_usage_def countActive_def countAll_def reload_def isPresent_def presence_has_def
  cache_lookup_def cache_get_def cache_put_def newActiveUserCache_def newPresenceCache_def fresh_service_def counting_reader_def
  share_result_def

lemma uncounted_shares:
  "fst (Resolve (counting_reader (Inl e)) True uncounted_request fresh_service) = fresh_service"
  "snd (Resolve (counting_reader (Inl e)) True uncounted_request fresh_service)
    = Inr (share_result uncounted_request \<lparr>pt_tokens = 1010, pt_value = 0\<rparr> \<lparr>pt_tokens = 0, pt_value = 0\<rparr> 3 True)"
  "snd (Resolve (counting_reader (Inr 1)) True uncounted_request fresh_service)
    = Inr (share_result uncounted_request \<lparr>pt_tokens = 1010, pt_value = 0\<rparr> \<lparr>pt_tokens = 0, pt_value = 0\<rparr> 2 False)"
  by (simp_all add: service_eval uncounted_request_def Let_def wrap64_def)

lemma uncounted_allowance:
  "fres_tokenAllowance (share_result uncounted_request \<lparr>pt_tokens = 1010, pt_value = 0\<rparr> \<lparr>pt_tokens = 0, pt_value = 0\<rparr> active degraded)
    = Some (fa_allowance (ComputeFairShare (resolved_params uncounted_request active 1200 1010 0)))"
  by (simp add: share_result_def Let_def allocation_def resolved_params_def uncounted_request_def sliding_constraint_def
      anchored_constraint_def)

theorem Resolve_degraded_static_witness:
  "\<exists>allowance. fres_tokenAllowance (share_result uncounted_request \<lparr>pt_tokens = 1010, pt_value = 0\<rparr> \<lparr>pt_tokens = 0, pt_value = 0\<rparr> 3 True)
      = Some allowance
    \<and> of_int allowance \<le> (of_int 1200 / of_int (fr_memberCount uncounted_request) + 3 :: rat)"
proof (rule Resolve_degraded_static)
  show "Resolve (counting_reader (Inl ''down'')) True uncounted_request fresh_service
     = (fresh_service, Inr (share_result uncounted_request \<lparr>pt_tokens = 1010, pt_value = 0\<rparr> \<lparr>pt_tokens = 0, pt_value = 0\<rparr> 3 True))"
    using uncounted_shares(1,2) [of "''down''"] by (metis prod.collapse)
  show "pc_shareThreshold (fr_constraint uncounted_request) = None" "pc_tokenBudget (fr_constraint uncounted_request) = Some 1200"
    by (simp_all add: uncounted_request_def sliding_constraint_def anchored_constraint_def)
  show "fair_share_sane (resolved_params uncounted_request (fr_memberCount uncounted_request) 1200
      (fres_planTokens (share_result uncounted_request \<lparr>pt_tokens = 1010, pt_value = 0\<rparr> \<lparr>pt_tokens = 0, pt_value = 0\<rparr> 3 True))
      (fres_userTokens (share_result uncounted_request \<lparr>pt_tokens = 1010, pt_value = 0\<rparr> \<lparr>pt_tokens = 0, pt_value = 0\<rparr> 3 True)))"
    by (simp add: share_result_def Let_def fair_share_sane_def resolved_params_def base_params_def FairShareParamsFor_def
        empty_params_def uncounted_request_def sliding_constraint_def anchored_constraint_def)
qed (simp add: share_result_def Let_def)

text \<open>
  Losing the count can widen a share: on that plan a user who is the second active one is granted 100 tokens,
  and 130 when the store cannot count, since counting every member as active releases the floor held for the third.
\<close>

theorem Resolve_degraded_widens:
  "map_sum id fres_tokenAllowance (snd (Resolve (counting_reader (Inr 1)) True uncounted_request fresh_service)) = Inr (Some 100)
   \<and> map_sum id fres_tokenAllowance (snd (Resolve (counting_reader (Inl ''down'')) True uncounted_request fresh_service)) = Inr (Some 130)"
proof -
  have "fa_allowance (ComputeFairShare (resolved_params uncounted_request 2 1200 1010 0)) = 100"
    "fa_allowance (ComputeFairShare (resolved_params uncounted_request 3 1200 1010 0)) = 130"
    by (simp_all add: weekly_plan_eval resolved_params_def base_params_def FairShareParamsFor_def empty_params_def
        uncounted_request_def sliding_constraint_def anchored_constraint_def ElapsedFraction_def IsAnchored_def)
  then show ?thesis by (simp add: uncounted_shares uncounted_allowance)
qed

end
