(* ===== verification/Subscription_State.thy ===== *)
theory Subscription_State
  imports Expiring_Table
begin

text \<open>
  The in-memory state of subscription enforcement (\<open>src/internal/adapter/proxy/subscription_state.go\<close>): requests in
  flight per provider and per user, and the cooldowns of exhausted constraints.  Each operation holds the mutex, so
  it is one step.  A counter missing from its map reads as zero.
\<close>

section \<open>State\<close>

type_synonym scope_key = "string \<times> string"
type_synonym user_scope_key = "string \<times> string \<times> string"
type_synonym constraint_key = "scope_key \<times> string \<times> string \<times> string"

record subscription_state =
  st_inFlight :: "scope_key \<Rightarrow> int"
  st_userInFlight :: "user_scope_key \<Rightarrow> int"
  st_exhausted :: "(constraint_key \<times> int) list \<times> nat"

definition NewSubscriptionState :: subscription_state where
  "NewSubscriptionState = \<lparr>st_inFlight = (\<lambda>_. 0), st_userInFlight = (\<lambda>_. 0), st_exhausted = empty_table\<rparr>"

definition IncrementInFlight :: "string \<Rightarrow> string \<Rightarrow> subscription_state \<Rightarrow> subscription_state \<times> int" where
  "IncrementInFlight orgID providerID s =
     (let k = (orgID, providerID); n = wrap64 (st_inFlight s k + 1) in (s\<lparr>st_inFlight := (st_inFlight s)(k := n)\<rparr>, n))"

definition DecrementInFlight :: "string \<Rightarrow> string \<Rightarrow> subscription_state \<Rightarrow> subscription_state" where
  "DecrementInFlight orgID providerID s =
     (let k = (orgID, providerID) in
      if st_inFlight s k > 0 then s\<lparr>st_inFlight := (st_inFlight s)(k := st_inFlight s k - 1)\<rparr> else s)"

definition CurrentInFlight :: "string \<Rightarrow> string \<Rightarrow> subscription_state \<Rightarrow> int" where
  "CurrentInFlight orgID providerID s = st_inFlight s (orgID, providerID)"

definition IncrementUserInFlight :: "string \<Rightarrow> string \<Rightarrow> string \<Rightarrow> subscription_state \<Rightarrow> subscription_state \<times> int" where
  "IncrementUserInFlight orgID providerID userID s =
     (let k = (orgID, providerID, userID); n = wrap64 (st_userInFlight s k + 1)
      in (s\<lparr>st_userInFlight := (st_userInFlight s)(k := n)\<rparr>, n))"

definition DecrementUserInFlight :: "string \<Rightarrow> string \<Rightarrow> string \<Rightarrow> subscription_state \<Rightarrow> subscription_state" where
  "DecrementUserInFlight orgID providerID userID s =
     (let k = (orgID, providerID, userID) in
      if st_userInFlight s k > 0 then s\<lparr>st_userInFlight := (st_userInFlight s)(k := st_userInFlight s k - 1)\<rparr> else s)"

definition CurrentUserInFlight :: "string \<Rightarrow> string \<Rightarrow> string \<Rightarrow> subscription_state \<Rightarrow> int" where
  "CurrentUserInFlight orgID providerID userID s = st_userInFlight s (orgID, providerID, userID)"

section \<open>Cooldowns\<close>

definition MarkExhausted :: "int \<Rightarrow> constraint_key \<Rightarrow> int \<Rightarrow> subscription_state \<Rightarrow> subscription_state" where
  "MarkExhausted now k until s = s\<lparr>st_exhausted := sweep_put id now k until (st_exhausted s)\<rparr>"

definition exhaustedLocked :: "int \<Rightarrow> constraint_key \<Rightarrow> subscription_state \<Rightarrow> subscription_state \<times> bool" where
  "exhaustedLocked now k s =
     (case map_of (fst (st_exhausted s)) k of
        None \<Rightarrow> (s, False)
      | Some until \<Rightarrow>
          if now > until then (s\<lparr>st_exhausted := (AList.delete k (fst (st_exhausted s)), snd (st_exhausted s))\<rparr>, False)
          else (s, True))"

definition IsKeyExhausted :: "int \<Rightarrow> string \<Rightarrow> string \<Rightarrow> string \<Rightarrow> string \<Rightarrow> string \<Rightarrow> subscription_state
    \<Rightarrow> subscription_state \<times> bool" where
  "IsKeyExhausted now orgID providerID key label upstreamModel s =
     exhaustedLocked now ((orgID, providerID), key, label, upstreamModel) s"

fun all_exhausted :: "int \<Rightarrow> scope_key \<Rightarrow> string list \<Rightarrow> string \<Rightarrow> string \<Rightarrow> subscription_state
    \<Rightarrow> subscription_state \<times> bool" where
  "all_exhausted now scope [] label m s = (s, True)"
| "all_exhausted now scope (key # keys) label m s =
     (case exhaustedLocked now (scope, key, label, m) s of (s', b) \<Rightarrow>
        if b then all_exhausted now scope keys label m s' else (s', False))"

definition IsExhausted :: "int \<Rightarrow> string \<Rightarrow> string \<Rightarrow> string list \<Rightarrow> string \<Rightarrow> string \<Rightarrow> subscription_state
    \<Rightarrow> subscription_state \<times> bool" where
  "IsExhausted now orgID providerID keys label upstreamModel s =
     all_exhausted now (orgID, providerID) (if keys = [] then [''''] else keys) label upstreamModel s"

section \<open>Cooldowns refine a log of marks\<close>

text \<open>The state of the cooldowns, as the later checks see it.\<close>

definition cooldown :: "subscription_state \<Rightarrow> int \<Rightarrow> constraint_key \<Rightarrow> bool" where
  "cooldown s now k = (sweep_get id now k (st_exhausted s) \<noteq> None)"

definition cooldowns_ok :: "subscription_state \<Rightarrow> bool" where
  "cooldowns_ok s = table_ok (st_exhausted s)"

lemma exhaustedLocked_answer: "snd (exhaustedLocked now k s) = cooldown s now k"
  by (auto simp: exhaustedLocked_def cooldown_def sweep_get_def split: option.splits)

lemma exhaustedLocked_later:
  assumes "cooldowns_ok s" "now \<le> later"
  shows "cooldown (fst (exhaustedLocked now k s)) later k' = cooldown s later k'"
proof -
  have "map_of (AList.delete k al) k' = (if k' = k then None else map_of al k')" for al :: "(constraint_key \<times> int) list"
    by (auto simp: delete_conv')
  then show ?thesis using assms by (auto simp: exhaustedLocked_def cooldown_def sweep_get_def split: option.splits)
qed

lemma exhaustedLocked_ok: "cooldowns_ok s \<Longrightarrow> cooldowns_ok (fst (exhaustedLocked now k s))"
proof -
  have "length (AList.delete k al) \<le> length al" for al :: "(constraint_key \<times> int) list"
    by (simp add: AList.delete_eq)
  then show "cooldowns_ok s \<Longrightarrow> cooldowns_ok (fst (exhaustedLocked now k s))"
    by (auto simp: exhaustedLocked_def cooldowns_ok_def table_ok_def distinct_delete split: option.splits intro: order.trans)
qed

text \<open>One event of the cooldowns: a mark with its end, or a check with its answer.\<close>

datatype cooldown_event = Mark constraint_key int | Check constraint_key bool

inductive cooldown_trace :: "(int \<times> cooldown_event) list \<Rightarrow> int \<Rightarrow> subscription_state \<Rightarrow> bool" where
  trace_start: "cooldown_trace [] now NewSubscriptionState"
| trace_mark: "cooldown_trace h t s \<Longrightarrow> t \<le> now \<Longrightarrow>
    cooldown_trace ((now, Mark k until) # h) now (MarkExhausted now k until s)"
| trace_check: "cooldown_trace h t s \<Longrightarrow> t \<le> now \<Longrightarrow> exhaustedLocked now k s = (s', b) \<Longrightarrow>
    cooldown_trace ((now, Check k b) # h) now s'"

fun marked_until :: "(int \<times> cooldown_event) list \<Rightarrow> constraint_key \<Rightarrow> int option" where
  "marked_until [] k = None"
| "marked_until ((_, Mark k' until) # h) k = (if k' = k then Some until else marked_until h k)"
| "marked_until ((_, Check _ _) # h) k = marked_until h k"

definition in_cooldown :: "(int \<times> cooldown_event) list \<Rightarrow> int \<Rightarrow> constraint_key \<Rightarrow> bool" where
  "in_cooldown h now k = (case marked_until h k of None \<Rightarrow> False | Some until \<Rightarrow> now \<le> until)"

lemma trace_invariant:
  "cooldown_trace h t s \<Longrightarrow> cooldowns_ok s \<and> (\<forall>later \<ge> t. \<forall>k. cooldown s later k = in_cooldown h later k)"
proof (induction rule: cooldown_trace.induct)
  case (trace_start now)
  then show ?case
    by (simp add: cooldowns_ok_def NewSubscriptionState_def table_ok_def empty_table_def cooldown_def sweep_get_def in_cooldown_def)
next
  case (trace_mark h t s now k until)
  then have ok: "table_ok (st_exhausted s)" by (simp add: cooldowns_ok_def)
  then have "cooldown (MarkExhausted now k until s) later k' = (if k' = k then later \<le> until else cooldown s later k')"
    if "now \<le> later" for later k'
    using that by (auto simp: cooldown_def MarkExhausted_def sweep_get_put table_ok_def)
  then show ?case using trace_mark ok
    by (auto simp: cooldowns_ok_def MarkExhausted_def sweep_put_ok in_cooldown_def)
next
  case (trace_check h t s now k s' b)
  then show ?case
    using exhaustedLocked_ok [of s now k] exhaustedLocked_later [of s now _ k] by (auto simp: in_cooldown_def)
qed

text \<open>
  A constraint of a key is reported exhausted exactly while its last mark says so: whatever marks, checks and
  sweeps came before, a check answers that the end of the last mark of that key, constraint and model has not
  passed, and never what another one's mark said.
\<close>

theorem cooldown_check_correct:
  assumes "cooldown_trace ((now, Check k b) # h) now s"
  shows "b = in_cooldown h now k"
  using assms
proof (cases rule: cooldown_trace.cases)
  case (trace_check t s0)
  then have "cooldown s0 now k = in_cooldown h now k" using trace_invariant by blast
  then show ?thesis using trace_check exhaustedLocked_answer [of now k s0] by simp
qed

theorem cooldown_check_correct_witness:
  "True = in_cooldown [(3, Mark ((''acme'', ''p''), ''k1'', ''5h'', '''') 20)] 12 ((''acme'', ''p''), ''k1'', ''5h'', '''')"
proof (rule cooldown_check_correct)
  let ?k = "((''acme'', ''p''), ''k1'', ''5h'', '''') :: constraint_key"
  let ?s = "MarkExhausted 3 ?k 20 NewSubscriptionState"
  have "cooldown_trace [(3, Mark ?k 20)] 3 ?s" using trace_start [of 0] by (rule trace_mark) simp
  then show "cooldown_trace [(12, Check ?k True), (3, Mark ?k 20)] 12 ?s"
    by (rule trace_check) (simp_all add: exhaustedLocked_def MarkExhausted_def NewSubscriptionState_def sweep_put_def sweep_def
        empty_table_def minPurgeAt_def)
qed

end
