(* ===== verification/Plan_Concurrency.thy ===== *)
theory Plan_Concurrency
  imports Subscription_State Plan_Window
begin

text \<open>
  The concurrency constraint of a plan (\<open>concurrencyEvaluator\<close> of \<open>src/internal/adapter/proxy/billing_evaluator.go\<close>):
  what it reserves, how it is released, and what holds when requests interleave between the accesses to the state.
\<close>

section \<open>Reservations\<close>

datatype plan_reservation =
    NoopReservation
  | ConcurrencyReservation string string
  | UserConcurrencyReservation string string string
  | CompositeReservation "plan_reservation list"

fun Release :: "plan_reservation \<Rightarrow> subscription_state \<Rightarrow> subscription_state" where
  "Release NoopReservation s = s"
| "Release (ConcurrencyReservation orgID providerID) s = DecrementInFlight orgID providerID s"
| "Release (UserConcurrencyReservation orgID providerID userID) s = DecrementUserInFlight orgID providerID userID s"
| "Release (CompositeReservation rs) s = fold Release rs s"

definition releaseAll :: "plan_reservation list \<Rightarrow> subscription_state \<Rightarrow> subscription_state" where
  "releaseAll rs s = fold Release rs s"

text \<open>The reasons of a refusal, with the figures of their messages; formatting them is left out.\<close>

datatype plan_denial =
    DenyUsedUp string int
  | DenyTokens string int int int
  | DenyValue string int int
  | DenyShareTokens string int int int
  | DenyShareValue string int int int
  | DenyConcurrency string int int
  | DenyUserConcurrency string int int int
  | DenyCooldown string
  | DenyPool

section \<open>Acquiring\<close>

definition user_share :: "int \<Rightarrow> int \<Rightarrow> int" where
  "user_share maxConcurrent n = max (maxConcurrent sdiv n) 1"

definition concurrency_Acquire :: "string \<Rightarrow> string \<Rightarrow> string \<Rightarrow> int \<Rightarrow> plan_constraint \<Rightarrow> subscription_state
    \<Rightarrow> subscription_state \<times> (plan_denial, plan_reservation) result" where
  "concurrency_Acquire orgID providerID userID memberCount c s =
     (case pc_maxConcurrent c of
        None \<Rightarrow> (s, Inr NoopReservation)
      | Some maxc \<Rightarrow>
          if maxc \<le> 0 then (s, Inr NoopReservation)
          else
            (case IncrementInFlight orgID providerID s of (s1, current) \<Rightarrow>
               if current > maxc
               then (DecrementInFlight orgID providerID s1, Inl (DenyConcurrency (pc_label c) (current - 1) maxc))
               else if userID \<noteq> [] \<and> memberCount > 0
               then (let fairShare = user_share maxc memberCount in
                     case IncrementUserInFlight orgID providerID userID s1 of (s2, userCurrent) \<Rightarrow>
                       if userCurrent > fairShare
                       then (Release (ConcurrencyReservation orgID providerID) (DecrementUserInFlight orgID providerID userID s2),
                             Inl (DenyUserConcurrency (pc_label c) (userCurrent - 1) fairShare memberCount))
                       else (s2, Inr (CompositeReservation [ConcurrencyReservation orgID providerID,
                                        UserConcurrencyReservation orgID providerID userID])))
               else (s1, Inr (ConcurrencyReservation orgID providerID))))"

text \<open>Counters in the range that a process reaches.\<close>

definition counters_ok :: "subscription_state \<Rightarrow> bool" where
  "counters_ok s = ((\<forall>k. 0 \<le> st_inFlight s k \<and> st_inFlight s k < 2 ^ 62) \<and> (\<forall>k. 0 \<le> st_userInFlight s k \<and> st_userInFlight s k < 2 ^ 62))"

lemma IncrementInFlight_exact:
  "0 \<le> st_inFlight s (o', p) \<Longrightarrow> st_inFlight s (o', p) < 2 ^ 63 - 1 \<Longrightarrow> IncrementInFlight o' p s
    = (s\<lparr>st_inFlight := (st_inFlight s)((o', p) := st_inFlight s (o', p) + 1)\<rparr>, st_inFlight s (o', p) + 1)"
  by (simp add: IncrementInFlight_def Let_def wrap64_id)

lemma IncrementUserInFlight_exact:
  "0 \<le> st_userInFlight s (o', p, u) \<Longrightarrow> st_userInFlight s (o', p, u) < 2 ^ 63 - 1 \<Longrightarrow> IncrementUserInFlight o' p u s
    = (s\<lparr>st_userInFlight := (st_userInFlight s)((o', p, u) := st_userInFlight s (o', p, u) + 1)\<rparr>, st_userInFlight s (o', p, u) + 1)"
  by (simp add: IncrementUserInFlight_def Let_def wrap64_id)

lemma DecrementInFlight_exact:
  "0 < st_inFlight s (o', p) \<Longrightarrow> DecrementInFlight o' p s = s\<lparr>st_inFlight := (st_inFlight s)((o', p) := st_inFlight s (o', p) - 1)\<rparr>"
  by (simp add: DecrementInFlight_def Let_def)

lemma DecrementUserInFlight_exact:
  "0 < st_userInFlight s (o', p, u) \<Longrightarrow>
    DecrementUserInFlight o' p u s = s\<lparr>st_userInFlight := (st_userInFlight s)((o', p, u) := st_userInFlight s (o', p, u) - 1)\<rparr>"
  by (simp add: DecrementUserInFlight_def Let_def)

lemmas counter_exact = IncrementInFlight_exact IncrementUserInFlight_exact DecrementInFlight_exact DecrementUserInFlight_exact

text \<open>An acquisition is undone by its release, and a refusal leaves nothing behind.\<close>

lemma concurrency_Acquire_balanced:
  assumes "counters_ok s"
  shows "case concurrency_Acquire orgID providerID userID members c s of
    (s', Inl _) \<Rightarrow> s' = s | (s', Inr r) \<Rightarrow> Release r s' = s"
proof -
  have "0 \<le> st_inFlight s (orgID, providerID)" "st_inFlight s (orgID, providerID) < 2 ^ 62"
    "0 \<le> st_userInFlight s (orgID, providerID, userID)" "st_userInFlight s (orgID, providerID, userID) < 2 ^ 62"
    using assms by (auto simp: counters_ok_def)
  then show ?thesis
    by (simp add: concurrency_Acquire_def counter_exact Let_def split: option.split)
qed

section \<open>Interleaved requests\<close>

text \<open>
  A request of a provider with a concurrency limit, between its accesses to the shared counters: the phases of
  \<open>Acquire\<close> and of the release of its reservations.
\<close>

datatype conc_phase =
    Ready | Counted int | UserCounted int | UserReleased | Running | OrgReleased | Finished | Refused

record conc_limits =
  cl_org :: string
  cl_provider :: string
  cl_max :: int
  cl_members :: int

type_synonym conc_system = "subscription_state \<times> (string \<times> conc_phase) list"

definition by_user :: "conc_limits \<Rightarrow> string \<Rightarrow> bool" where
  "by_user l u = (u \<noteq> [] \<and> cl_members l > 0)"

inductive conc_step :: "conc_limits \<Rightarrow> conc_system \<Rightarrow> conc_system \<Rightarrow> bool" for l where
  count_step: "i < length ts \<Longrightarrow> ts ! i = (u, Ready) \<Longrightarrow> IncrementInFlight (cl_org l) (cl_provider l) s = (s', n) \<Longrightarrow>
    conc_step l (s, ts) (s', ts[i := (u, Counted n)])"
| refuse_step: "i < length ts \<Longrightarrow> ts ! i = (u, Counted n) \<Longrightarrow> n > cl_max l \<Longrightarrow>
    conc_step l (s, ts) (DecrementInFlight (cl_org l) (cl_provider l) s, ts[i := (u, Refused)])"
| admit_step: "i < length ts \<Longrightarrow> ts ! i = (u, Counted n) \<Longrightarrow> n \<le> cl_max l \<Longrightarrow> \<not> by_user l u \<Longrightarrow>
    conc_step l (s, ts) (s, ts[i := (u, Running)])"
| count_user_step: "i < length ts \<Longrightarrow> ts ! i = (u, Counted n) \<Longrightarrow> n \<le> cl_max l \<Longrightarrow> by_user l u \<Longrightarrow>
    IncrementUserInFlight (cl_org l) (cl_provider l) u s = (s', m) \<Longrightarrow> conc_step l (s, ts) (s', ts[i := (u, UserCounted m)])"
| refuse_user_step: "i < length ts \<Longrightarrow> ts ! i = (u, UserCounted m) \<Longrightarrow> m > user_share (cl_max l) (cl_members l) \<Longrightarrow>
    conc_step l (s, ts) (DecrementUserInFlight (cl_org l) (cl_provider l) u s, ts[i := (u, UserReleased)])"
| release_refused_step: "i < length ts \<Longrightarrow> ts ! i = (u, UserReleased) \<Longrightarrow>
    conc_step l (s, ts) (DecrementInFlight (cl_org l) (cl_provider l) s, ts[i := (u, Refused)])"
| admit_user_step: "i < length ts \<Longrightarrow> ts ! i = (u, UserCounted m) \<Longrightarrow> m \<le> user_share (cl_max l) (cl_members l) \<Longrightarrow>
    conc_step l (s, ts) (s, ts[i := (u, Running)])"
| release_step: "i < length ts \<Longrightarrow> ts ! i = (u, Running) \<Longrightarrow>
    conc_step l (s, ts) (DecrementInFlight (cl_org l) (cl_provider l) s, ts[i := (u, if by_user l u then OrgReleased else Finished)])"
| release_user_step: "i < length ts \<Longrightarrow> ts ! i = (u, OrgReleased) \<Longrightarrow>
    conc_step l (s, ts) (DecrementUserInFlight (cl_org l) (cl_provider l) u s, ts[i := (u, Finished)])"

inductive conc_reachable :: "conc_limits \<Rightarrow> string list \<Rightarrow> conc_system \<Rightarrow> bool" for l users where
  conc_init: "conc_reachable l users (NewSubscriptionState, map (\<lambda>u. (u, Ready)) users)"
| conc_more: "conc_reachable l users c \<Longrightarrow> conc_step l c c' \<Longrightarrow> conc_reachable l users c'"

text \<open>Which requests a counter counts, and which it has admitted.\<close>

fun holds_slot :: "conc_phase \<Rightarrow> bool" where
  "holds_slot (Counted _) = True" | "holds_slot (UserCounted _) = True" | "holds_slot UserReleased = True"
| "holds_slot Running = True" | "holds_slot _ = False"

fun admitted :: "conc_limits \<Rightarrow> conc_phase \<Rightarrow> bool" where
  "admitted l (Counted n) = (n \<le> cl_max l)" | "admitted l (UserCounted _) = True" | "admitted l UserReleased = True"
| "admitted l Running = True" | "admitted l _ = False"

fun holds_user_slot :: "conc_phase \<Rightarrow> bool" where
  "holds_user_slot (UserCounted _) = True" | "holds_user_slot Running = True" | "holds_user_slot OrgReleased = True"
| "holds_user_slot _ = False"

fun user_admitted :: "conc_limits \<Rightarrow> conc_phase \<Rightarrow> bool" where
  "user_admitted l (UserCounted m) = (m \<le> user_share (cl_max l) (cl_members l))" | "user_admitted l Running = True"
| "user_admitted l _ = False"

definition requests_in :: "('a \<Rightarrow> bool) \<Rightarrow> 'a list \<Rightarrow> int" where
  "requests_in P ts = int (length (filter P ts))"

lemma requests_in_update:
  "i < length ts \<Longrightarrow> requests_in P (ts[i := x]) = requests_in P ts + of_bool (P x) - of_bool (P (ts ! i))"
proof (induction ts arbitrary: i)
  case (Cons t ts)
  then show ?case by (cases i) (auto simp: requests_in_def)
qed simp

lemma requests_in_bounds: "0 \<le> requests_in P ts" "requests_in P ts \<le> int (length ts)"
  by (simp_all add: requests_in_def)

lemma requests_in_mono: "(\<And>t. t \<in> set ts \<Longrightarrow> P t \<Longrightarrow> Q t) \<Longrightarrow> requests_in P ts \<le> requests_in Q ts"
  by (induction ts) (auto simp: requests_in_def)

lemma requests_in_pos: "i < length ts \<Longrightarrow> P (ts ! i) \<Longrightarrow> 0 < requests_in P ts"
  using nth_mem [of i ts] by (auto simp: requests_in_def filter_empty_conv)

abbreviation "slots ts \<equiv> requests_in (\<lambda>(_, ph). holds_slot ph) ts"
abbreviation "admissions l ts \<equiv> requests_in (\<lambda>(_, ph). admitted l ph) ts"
abbreviation "user_slots l u ts \<equiv> requests_in (\<lambda>(v, ph). v = u \<and> by_user l v \<and> holds_user_slot ph) ts"
abbreviation "user_admissions l u ts \<equiv> requests_in (\<lambda>(v, ph). v = u \<and> by_user l v \<and> user_admitted l ph) ts"

definition conc_inv :: "conc_limits \<Rightarrow> nat \<Rightarrow> conc_system \<Rightarrow> bool" where
  "conc_inv l n c =
     (case c of (s, ts) \<Rightarrow>
        length ts = n
        \<and> st_inFlight s (cl_org l, cl_provider l) = slots ts \<and> admissions l ts \<le> max 0 (cl_max l)
        \<and> (\<forall>u. by_user l u \<longrightarrow> st_userInFlight s (cl_org l, cl_provider l, u) = user_slots l u ts
             \<and> user_admissions l u ts \<le> user_share (cl_max l) (cl_members l))
        \<and> (\<forall>(u, ph) \<in> set ts. ph \<in> {UserReleased, OrgReleased} \<or> (\<exists>m. ph = UserCounted m) \<longrightarrow> by_user l u))"

lemma admitted_holds: "admitted l ph \<Longrightarrow> holds_slot ph"
  by (cases ph) auto

lemma user_admitted_holds: "user_admitted l ph \<Longrightarrow> holds_user_slot ph"
  by (cases ph) auto

lemma admissions_le_slots: "admissions l ts \<le> slots ts"
  by (rule requests_in_mono) (auto dest: admitted_holds)

lemma user_admissions_le_slots: "user_admissions l u ts \<le> user_slots l u ts"
  by (rule requests_in_mono) (auto dest: user_admitted_holds)

text \<open>One request changes its phase, and the counters change with it.\<close>

lemma conc_inv_change:
  assumes "conc_inv l n (s, ts)" "i < length ts" "ts ! i = (u, ph)"
    and "st_inFlight s' (cl_org l, cl_provider l) = slots ts + of_bool (holds_slot ph') - of_bool (holds_slot ph)"
    and "admissions l ts + of_bool (admitted l ph') - of_bool (admitted l ph) \<le> max 0 (cl_max l)"
    and "\<And>v. by_user l v \<Longrightarrow> st_userInFlight s' (cl_org l, cl_provider l, v)
           = user_slots l v ts + (if v = u then of_bool (holds_user_slot ph') - of_bool (holds_user_slot ph) else 0)"
    and "by_user l u \<Longrightarrow> user_admissions l u ts + of_bool (user_admitted l ph') - of_bool (user_admitted l ph)
           \<le> user_share (cl_max l) (cl_members l)"
    and "ph' \<in> {UserReleased, OrgReleased} \<or> (\<exists>m. ph' = UserCounted m) \<Longrightarrow> by_user l u"
  shows "conc_inv l n (s', ts[i := (u, ph')])"
proof -
  let ?ts = "ts[i := (u, ph')]"
  note upd = requests_in_update [OF assms(2)]
  have len: "length ts = n" and old: "\<And>v. by_user l v \<Longrightarrow> user_admissions l v ts \<le> user_share (cl_max l) (cl_members l)"
    and phases: "\<forall>(v, q) \<in> set ts. q \<in> {UserReleased, OrgReleased} \<or> (\<exists>m. q = UserCounted m) \<longrightarrow> by_user l v"
    using assms(1) by (simp_all add: conc_inv_def)
  have slots: "st_inFlight s' (cl_org l, cl_provider l) = slots ?ts" "admissions l ?ts \<le> max 0 (cl_max l)"
    using assms(4,5) by (simp_all add: upd assms(3))
  have user: "st_userInFlight s' (cl_org l, cl_provider l, v) = user_slots l v ?ts"
    "user_admissions l v ?ts \<le> user_share (cl_max l) (cl_members l)" if "by_user l v" for v
    using that assms(6) [OF that] assms(7) old [OF that] by (cases "v = u"; simp add: upd assms(3))+
  have "set ?ts \<subseteq> insert (u, ph') (set ts)" by (rule set_update_subset_insert)
  then have "\<forall>(v, q) \<in> set ?ts. q \<in> {UserReleased, OrgReleased} \<or> (\<exists>m. q = UserCounted m) \<longrightarrow> by_user l v"
    using phases assms(8) by fastforce
  then show ?thesis unfolding conc_inv_def prod.case using len slots user by simp
qed

lemma conc_step_inv:
  assumes "conc_step l c c'" "conc_inv l n c" "int n < 2 ^ 62"
  shows "conc_inv l n c'"
  using assms(1)
proof cases
  case (count_step i ts u s s' m)
  note inv = assms(2) [unfolded count_step(1)]
  have c: "st_inFlight s (cl_org l, cl_provider l) = slots ts" "slots ts < 2 ^ 62" "0 \<le> slots ts"
    using inv assms(3) requests_in_bounds [of "\<lambda>(_, ph). holds_slot ph" ts] by (auto simp: conc_inv_def)
  then have "m = slots ts + 1" "s' = s\<lparr>st_inFlight := (st_inFlight s)((cl_org l, cl_provider l) := slots ts + 1)\<rparr>"
    using count_step(5) by (auto simp: IncrementInFlight_exact)
  then show ?thesis unfolding count_step(2)
    using inv admissions_le_slots [of l ts] by (intro conc_inv_change [OF inv count_step(3,4)]) (auto simp: conc_inv_def)
next
  case (refuse_step i ts u m s)
  note inv = assms(2) [unfolded refuse_step(1)]
  have "0 < slots ts" using refuse_step(3,4) by (intro requests_in_pos [of i]) simp_all
  then show ?thesis unfolding refuse_step(2)
    using inv refuse_step(5) by (intro conc_inv_change [OF inv refuse_step(3,4)]) (auto simp: conc_inv_def DecrementInFlight_exact)
next
  case (admit_step i ts u m s)
  note inv = assms(2) [unfolded admit_step(1)]
  show ?thesis unfolding admit_step(2)
    using inv admit_step(5,6) by (intro conc_inv_change [OF inv admit_step(3,4)]) (auto simp: conc_inv_def)
next
  case (count_user_step i ts u m s s' k)
  note inv = assms(2) [unfolded count_user_step(1)]
  have c: "st_userInFlight s (cl_org l, cl_provider l, u) = user_slots l u ts" "user_slots l u ts < 2 ^ 62" "0 \<le> user_slots l u ts"
    using inv assms(3) count_user_step(6) requests_in_bounds [of "\<lambda>(v, ph). v = u \<and> by_user l v \<and> holds_user_slot ph" ts]
    by (auto simp: conc_inv_def)
  then have "k = user_slots l u ts + 1"
    "s' = s\<lparr>st_userInFlight := (st_userInFlight s)((cl_org l, cl_provider l, u) := user_slots l u ts + 1)\<rparr>"
    using count_user_step(7) by (auto simp: IncrementUserInFlight_exact)
  then show ?thesis unfolding count_user_step(2)
    using inv count_user_step(5,6) user_admissions_le_slots [where l = l and u = u and ts = ts]
    by (intro conc_inv_change [OF inv count_user_step(3,4)]) (auto simp: conc_inv_def)
next
  case (refuse_user_step i ts u m s)
  note inv = assms(2) [unfolded refuse_user_step(1)]
  have u: "by_user l u" using inv refuse_user_step(3,4) nth_mem [of i ts] by (fastforce simp: conc_inv_def)
  then have "0 < user_slots l u ts" using refuse_user_step(3,4) by (intro requests_in_pos [of i]) simp_all
  then show ?thesis unfolding refuse_user_step(2)
    using inv refuse_user_step(5) u
    by (intro conc_inv_change [OF inv refuse_user_step(3,4)]) (auto simp: conc_inv_def DecrementUserInFlight_exact)
next
  case (release_refused_step i ts u s)
  note inv = assms(2) [unfolded release_refused_step(1)]
  have "0 < slots ts" using release_refused_step(3,4) by (intro requests_in_pos [of i]) simp_all
  then show ?thesis unfolding release_refused_step(2)
    using inv by (intro conc_inv_change [OF inv release_refused_step(3,4)]) (auto simp: conc_inv_def DecrementInFlight_exact)
next
  case (admit_user_step i ts u m s)
  note inv = assms(2) [unfolded admit_user_step(1)]
  show ?thesis unfolding admit_user_step(2)
    using inv admit_user_step(5) by (intro conc_inv_change [OF inv admit_user_step(3,4)]) (auto simp: conc_inv_def)
next
  case (release_step i ts u s)
  note inv = assms(2) [unfolded release_step(1)]
  have "0 < slots ts" using release_step(3,4) by (intro requests_in_pos [of i]) simp_all
  then show ?thesis unfolding release_step(2)
    using inv by (intro conc_inv_change [OF inv release_step(3,4)]) (auto simp: conc_inv_def DecrementInFlight_exact split: if_splits)
next
  case (release_user_step i ts u s)
  note inv = assms(2) [unfolded release_user_step(1)]
  have u: "by_user l u" using inv release_user_step(3,4) nth_mem [of i ts] by (fastforce simp: conc_inv_def)
  then have "0 < user_slots l u ts" using release_user_step(3,4) by (intro requests_in_pos [of i]) simp_all
  then show ?thesis unfolding release_user_step(2)
    using inv u by (intro conc_inv_change [OF inv release_user_step(3,4)]) (auto simp: conc_inv_def DecrementUserInFlight_exact)
qed

lemma conc_reachable_inv:
  "conc_reachable l users c \<Longrightarrow> int (length users) < 2 ^ 62 \<Longrightarrow> conc_inv l (length users) c"
proof (induction rule: conc_reachable.induct)
  case conc_init
  have none: "requests_in P (map (\<lambda>u. (u, Ready)) users) = 0" if "\<And>u. \<not> P (u, Ready)" for P
    using that by (simp add: requests_in_def filter_map comp_def)
  show ?case by (auto simp: conc_inv_def none NewSubscriptionState_def user_share_def)
qed (blast intro: conc_step_inv)

text \<open>
  C19.  However the requests of a provider interleave between their accesses to the counters, no more of them run at
  the same time than the plan's limit, no user runs more than their share of it, and once all are over the counters
  are back to zero.
\<close>

theorem concurrency_limits_hold:
  assumes "conc_reachable l users (s, ts)" "int (length users) < 2 ^ 62" "0 < cl_max l"
  shows "requests_in (\<lambda>(_, ph). ph = Running) ts \<le> cl_max l
    \<and> (\<forall>u. by_user l u \<longrightarrow> requests_in (\<lambda>(v, ph). v = u \<and> ph = Running) ts \<le> user_share (cl_max l) (cl_members l))
    \<and> ((\<forall>(u, ph) \<in> set ts. ph \<in> {Finished, Refused}) \<longrightarrow>
         CurrentInFlight (cl_org l) (cl_provider l) s = 0
         \<and> (\<forall>u. by_user l u \<longrightarrow> CurrentUserInFlight (cl_org l) (cl_provider l) u s = 0))"
proof -
  have inv: "conc_inv l (length users) (s, ts)" using conc_reachable_inv [OF assms(1,2)] .
  have c: "admissions l ts \<le> cl_max l" "st_inFlight s (cl_org l, cl_provider l) = slots ts"
    "by_user l u \<Longrightarrow> st_userInFlight s (cl_org l, cl_provider l, u) = user_slots l u ts"
    "by_user l u \<Longrightarrow> user_admissions l u ts \<le> user_share (cl_max l) (cl_members l)" for u
    using inv assms(3) by (simp_all add: conc_inv_def)
  have "requests_in (\<lambda>(_, ph). ph = Running) ts \<le> admissions l ts" by (rule requests_in_mono) auto
  then have running: "requests_in (\<lambda>(_, ph). ph = Running) ts \<le> cl_max l" using c(1) by linarith
  have user: "requests_in (\<lambda>(v, ph). v = u \<and> ph = Running) ts \<le> user_share (cl_max l) (cl_members l)" if "by_user l u" for u
  proof -
    have "requests_in (\<lambda>(v, ph). v = u \<and> ph = Running) ts \<le> user_admissions l u ts" using that by (intro requests_in_mono) auto
    then show ?thesis using c(4) [OF that] by linarith
  qed
  have none: "requests_in P ts = 0" if "\<forall>t \<in> set ts. \<not> P t" for P using that by (simp add: requests_in_def)
  have "slots ts = 0" "user_slots l u ts = 0" if "\<forall>(u, ph) \<in> set ts. ph \<in> {Finished, Refused}" for u
    using that by (intro none; fastforce)+
  then have over: "CurrentInFlight (cl_org l) (cl_provider l) s = 0
      \<and> (\<forall>u. by_user l u \<longrightarrow> CurrentUserInFlight (cl_org l) (cl_provider l) u s = 0)"
    if "\<forall>(u, ph) \<in> set ts. ph \<in> {Finished, Refused}"
    using that c(2,3) by (simp add: CurrentInFlight_def CurrentUserInFlight_def)
  show ?thesis using running user over by blast
qed

definition two_slots :: conc_limits where
  "two_slots = \<lparr>cl_org = ''acme'', cl_provider = ''p'', cl_max = 2, cl_members = 3\<rparr>"

theorem concurrency_limits_hold_witness:
  "requests_in (\<lambda>(_, ph). ph = Running) [(''a'', Running), (''b'', Ready)] \<le> cl_max two_slots"
proof -
  let ?s1 = "fst (IncrementInFlight ''acme'' ''p'' NewSubscriptionState)"
  let ?s2 = "fst (IncrementUserInFlight ''acme'' ''p'' ''a'' ?s1)"
  have "conc_step two_slots (NewSubscriptionState, [(''a'', Ready), (''b'', Ready)])
      (?s1, [(''a'', Ready), (''b'', Ready)][0 := (''a'', Counted 1)])"
    by (rule count_step) (simp_all add: IncrementInFlight_def Let_def two_slots_def NewSubscriptionState_def wrap64_def)
  moreover have "conc_step two_slots (?s1, [(''a'', Counted 1), (''b'', Ready)])
      (?s2, [(''a'', Counted 1), (''b'', Ready)][0 := (''a'', UserCounted 1)])"
    by (rule count_user_step [where n = 1])
      (simp_all add: IncrementInFlight_def IncrementUserInFlight_def Let_def two_slots_def by_user_def NewSubscriptionState_def wrap64_def)
  moreover have "conc_step two_slots (?s2, [(''a'', UserCounted 1), (''b'', Ready)])
      (?s2, [(''a'', UserCounted 1), (''b'', Ready)][0 := (''a'', Running)])"
    by (rule admit_user_step [where m = 1]) (simp_all add: two_slots_def user_share_def signed_divide_int_def)
  ultimately have "conc_reachable two_slots [''a'', ''b''] (?s2, [(''a'', Running), (''b'', Ready)])"
    using conc_init [of two_slots "[''a'', ''b'']"] by simp (meson conc_more)
  then show ?thesis by (rule concurrency_limits_hold [THEN conjunct1]) (simp_all add: two_slots_def)
qed

end
