(* ===== verification/Provider_Keys.thy ===== *)
theory Provider_Keys
  imports Plan_Window Pipeline_Nodes Expiring_Table "HOL-Library.List_Lexorder" "HOL-Library.Char_ord"
begin

text \<open>
  The API keys of a provider and the plan they pool (\<open>src/internal/core/model/provider_key.go\<close>): each key holds the
  provider's plan, adjusted by its overrides; the users share the sum of the budgets of the keys.

  Go maps are association lists; a nil map and an empty one are both the empty list.
\<close>

section \<open>Keys and overrides\<close>

record plan_override =
  ov_tokenBudget :: "int option"
  ov_valueBudget :: "int option"
  ov_modelBudgets :: "(string \<times> plan_budget) list"
  ov_windowAnchor :: "int option"

record provider_key =
  pk_id :: string
  pk_label :: string
  pk_apiKey :: string
  pk_overrides :: "(string \<times> plan_override) list"

text \<open>Of a provider, what the plans read.\<close>

record plan_provider =
  pv_id :: string
  pv_apiKey :: string
  pv_extraKeys :: "provider_key list"
  pv_subscription :: bool
  pv_plan :: "subscription_plan option"
  pv_currency :: string

definition PrimaryProviderKey :: string where
  "PrimaryProviderKey = ''''"

definition override_Empty :: "plan_override \<Rightarrow> bool" where
  "override_Empty ov =
     (ov_tokenBudget ov = None \<and> ov_valueBudget ov = None \<and> ov_modelBudgets ov = [] \<and> ov_windowAnchor ov = None)"

definition override_Apply :: "plan_override \<Rightarrow> plan_constraint \<Rightarrow> plan_constraint" where
  "override_Apply ov c =
     (let c = (if ov_tokenBudget ov \<noteq> None then c\<lparr>pc_tokenBudget := ov_tokenBudget ov\<rparr> else c);
          c = (if ov_valueBudget ov \<noteq> None then c\<lparr>pc_valueBudget := ov_valueBudget ov\<rparr> else c);
          c = (if ov_modelBudgets ov \<noteq> [] then c\<lparr>pc_modelBudgets := AList.merge (pc_modelBudgets c) (ov_modelBudgets ov)\<rparr> else c)
      in if ov_windowAnchor ov \<noteq> None then c\<lparr>pc_windowAnchor := ov_windowAnchor ov\<rparr> else c)"

definition primary_key :: "plan_provider \<Rightarrow> provider_key" where
  "primary_key p = \<lparr>pk_id = PrimaryProviderKey, pk_label = '''', pk_apiKey = pv_apiKey p, pk_overrides = []\<rparr>"

definition ProviderKeys :: "plan_provider \<Rightarrow> provider_key list" where
  "ProviderKeys p = primary_key p # pv_extraKeys p"

definition ProviderKeyByID :: "plan_provider \<Rightarrow> string \<Rightarrow> provider_key option" where
  "ProviderKeyByID p i =
     (if i = PrimaryProviderKey then Some (primary_key p) else find (\<lambda>k. pk_id k = i) (pv_extraKeys p))"

definition ProviderKeyIDs :: "plan_provider \<Rightarrow> string list" where
  "ProviderKeyIDs p = PrimaryProviderKey # map pk_id (pv_extraKeys p)"

definition KeyPoolSize :: "plan_provider \<Rightarrow> nat" where
  "KeyPoolSize p = 1 + length (pv_extraKeys p)"

section \<open>Plans of a key and of the pool\<close>

definition adjust :: "(string \<times> plan_override) list \<Rightarrow> plan_constraint \<Rightarrow> plan_constraint" where
  "adjust overrides c = (case map_of overrides (pc_label c) of Some ov \<Rightarrow> override_Apply ov c | None \<Rightarrow> c)"

definition KeyPlan :: "plan_provider \<Rightarrow> string \<Rightarrow> subscription_plan option" where
  "KeyPlan p key =
     (case pv_plan p of
        None \<Rightarrow> None
      | Some plan \<Rightarrow>
          (case ProviderKeyByID p key of
             None \<Rightarrow> Some plan
           | Some k \<Rightarrow>
               if pk_overrides k = [] then Some plan
               else Some \<lparr>sp_label = sp_label plan, sp_constraints = map (adjust (pk_overrides k)) (sp_constraints plan)\<rparr>))"

fun sum_loop :: "int option \<Rightarrow> int option list \<Rightarrow> int option" where
  "sum_loop t [] = t"
| "sum_loop t (None # bs) = sum_loop t bs"
| "sum_loop t (Some b # bs) = sum_loop (Some (wrap64 ((case t of None \<Rightarrow> 0 | Some x \<Rightarrow> x) + b))) bs"

definition sumBudgets :: "int option list \<Rightarrow> int option" where
  "sumBudgets bs = sum_loop None bs"

definition model_budget_on :: "string \<Rightarrow> plan_constraint \<Rightarrow> plan_budget" where
  "model_budget_on m k =
     (case map_of (pc_modelBudgets k) m of
        Some b \<Rightarrow> b
      | None \<Rightarrow> \<lparr>pb_token = pc_tokenBudget k, pb_value = pc_valueBudget k\<rparr>)"

definition pooled_models :: "plan_constraint list \<Rightarrow> string list" where
  "pooled_models perKey = remdups (concat (map (\<lambda>k. map fst (pc_modelBudgets k)) perKey))"

definition poolConstraint :: "plan_constraint \<Rightarrow> plan_constraint list \<Rightarrow> plan_constraint" where
  "poolConstraint c perKey =
     (let c = c\<lparr>pc_tokenBudget := sumBudgets (map pc_tokenBudget perKey),
                pc_valueBudget := sumBudgets (map pc_valueBudget perKey),
                pc_maxConcurrent := map_option (\<lambda>n. wrap64 (n * int (length perKey))) (pc_maxConcurrent c)\<rparr>
      in if pooled_models perKey = [] then c
         else c\<lparr>pc_modelBudgets :=
                map (\<lambda>m. (m, \<lparr>pb_token = sumBudgets (map (\<lambda>k. pb_token (model_budget_on m k)) perKey),
                             pb_value = sumBudgets (map (\<lambda>k. pb_value (model_budget_on m k)) perKey)\<rparr>))
                  (pooled_models perKey)\<rparr>)"

definition key_constraints :: "plan_provider \<Rightarrow> string \<Rightarrow> plan_constraint list" where
  "key_constraints p key = (case KeyPlan p key of None \<Rightarrow> [] | Some plan \<Rightarrow> sp_constraints plan)"

definition PooledPlan :: "plan_provider \<Rightarrow> subscription_plan option" where
  "PooledPlan p =
     (case pv_plan p of
        None \<Rightarrow> None
      | Some plan \<Rightarrow>
          (let keys = ProviderKeyIDs p in
           if length keys \<le> 1 then Some plan
           else Some \<lparr>sp_label = sp_label plan,
                      sp_constraints =
                        map (\<lambda>i. poolConstraint (sp_constraints plan ! i) (map (\<lambda>key. key_constraints p key ! i) keys))
                          [0..<length (sp_constraints plan)]\<rparr>))"

section \<open>Windows, affinity and fitting\<close>

definition KeyWindows :: "plan_provider \<Rightarrow> string \<Rightarrow> int \<Rightarrow> (string \<times> int) list" where
  "KeyWindows p label now =
     (case pv_plan p of
        None \<Rightarrow> []
      | Some plan \<Rightarrow>
          (case find (\<lambda>c. pc_label c = label) (sp_constraints plan) of
             None \<Rightarrow> []
           | Some c \<Rightarrow>
               if pc_kind c \<noteq> ConstraintRollingWindow \<or> pc_duration c \<le> 0 then []
               else fold (\<lambda>k windows.
                      (case map_of (pk_overrides k) label of
                         None \<Rightarrow> windows
                       | Some ov \<Rightarrow>
                           if ov_windowAnchor ov = None then windows
                           else AList.update (pk_id k) (CurrentWindowStart (override_Apply ov c) now) windows))
                    (pv_extraKeys p) []))"

definition KeyAffinity :: "string \<Rightarrow> string \<Rightarrow> 64 word" where
  "KeyAffinity userID key = fnv64a (utf8_bytes userID @ [0] @ utf8_bytes key)"

definition fitKeyOverride :: "plan_override \<Rightarrow> subscription_plan option \<Rightarrow> string \<Rightarrow> plan_override" where
  "fitKeyOverride ov plan label =
     (let none = \<lparr>ov_tokenBudget = None, ov_valueBudget = None, ov_modelBudgets = [], ov_windowAnchor = None\<rparr> in
      case plan of
        None \<Rightarrow> none
      | Some pl \<Rightarrow>
          (case find (\<lambda>c. pc_label c = label) (sp_constraints pl) of
             None \<Rightarrow> none
           | Some c \<Rightarrow>
               if pc_kind c \<noteq> ConstraintRollingWindow then none
               else ov\<lparr>ov_valueBudget := (if pc_valueBudget c = None then None else ov_valueBudget ov),
                       ov_tokenBudget := (if pc_tokenBudget c = None then None else ov_tokenBudget ov),
                       ov_modelBudgets := (if pc_scope c \<noteq> PlanScopeModel \<and> pc_scope c \<noteq> PlanScopeShared then [] else ov_modelBudgets ov)\<rparr>))"

definition override_labels :: "provider_key \<Rightarrow> string list" where
  "override_labels k = sort (remdups (map fst (pk_overrides k)))"

definition fit_key :: "subscription_plan option \<Rightarrow> provider_key \<Rightarrow> provider_key" where
  "fit_key plan k =
     k\<lparr>pk_overrides := filter (\<lambda>(_, ov). \<not> override_Empty ov)
         (map (\<lambda>label. (label, fitKeyOverride (the (map_of (pk_overrides k) label)) plan label)) (override_labels k))\<rparr>"

definition key_dropped :: "subscription_plan option \<Rightarrow> provider_key \<Rightarrow> (string \<times> string) list" where
  "key_dropped plan k =
     map (\<lambda>label. (pk_label k, label))
       (filter (\<lambda>label. fitKeyOverride (the (map_of (pk_overrides k) label)) plan label \<noteq> the (map_of (pk_overrides k) label))
          (override_labels k))"

definition FitKeyOverrides :: "provider_key list \<Rightarrow> subscription_plan option \<Rightarrow> provider_key list \<times> (string \<times> string) list" where
  "FitKeyOverrides keys plan =
     (let dropped = concat (map (key_dropped plan) keys) in
      if dropped = [] then (keys, []) else (map (fit_key plan) keys, dropped))"

section \<open>Budgets of the pool\<close>

definition set_budget :: "int option \<Rightarrow> int" where
  "set_budget b = (case b of None \<Rightarrow> 0 | Some x \<Rightarrow> x)"

lemma set_budget_simps [simp]: "set_budget None = 0" "set_budget (Some x) = x"
  by (simp_all add: set_budget_def)

lemma sum_budgets_nonneg: "\<forall>b \<in> set bs. 0 \<le> set_budget b \<Longrightarrow> 0 \<le> sum_list (map set_budget bs)"
  by (induction bs) auto

lemma sum_loop_exact:
  assumes "\<forall>b \<in> set bs. 0 \<le> set_budget b" "0 \<le> set_budget t" "set_budget t + sum_list (map set_budget bs) < 2 ^ 63"
  shows "sum_loop t bs = (if t = None \<and> list_all (\<lambda>b. b = None) bs then None
    else Some (set_budget t + sum_list (map set_budget bs)))"
  using assms
proof (induction t bs rule: sum_loop.induct)
  case (3 t b bs)
  have "0 \<le> sum_list (map set_budget bs)" using 3(2) by (intro sum_budgets_nonneg) simp
  then have "wrap64 (set_budget t + b) = set_budget t + b" using 3(2-4) by (intro wrap64_id) auto
  then show ?case using 3 by (simp add: set_budget_def [of t] algebra_simps)
qed (auto split: option.splits)

lemma sumBudgets_exact:
  "\<forall>b \<in> set bs. 0 \<le> set_budget b \<Longrightarrow> sum_list (map set_budget bs) < 2 ^ 63 \<Longrightarrow>
    sumBudgets bs = (if list_all (\<lambda>b. b = None) bs then None else Some (sum_list (map set_budget bs)))"
  using sum_loop_exact [of bs None] by (simp add: sumBudgets_def)

lemma PooledPlan_constraint:
  assumes "pv_plan p = Some plan" "1 < length (ProviderKeyIDs p)" "i < length (sp_constraints plan)" "PooledPlan p = Some pooled"
  shows "sp_constraints pooled ! i = poolConstraint (sp_constraints plan ! i) (map (\<lambda>key. key_constraints p key ! i) (ProviderKeyIDs p))"
    "length (sp_constraints pooled) = length (sp_constraints plan)"
  using assms by (auto simp: PooledPlan_def Let_def)

lemma poolConstraint_budgets [simp]:
  "pc_tokenBudget (poolConstraint c perKey) = sumBudgets (map pc_tokenBudget perKey)"
  "pc_valueBudget (poolConstraint c perKey) = sumBudgets (map pc_valueBudget perKey)"
  "pc_label (poolConstraint c perKey) = pc_label c" "pc_kind (poolConstraint c perKey) = pc_kind c"
  "pc_duration (poolConstraint c perKey) = pc_duration c" "pc_scope (poolConstraint c perKey) = pc_scope c"
  by (simp_all add: poolConstraint_def Let_def)

lemma sum_list_less_some:
  "sum_list (map f xs) < sum_list (map g xs) \<Longrightarrow> \<exists>x \<in> set xs. f x < (g x :: int)"
proof (rule ccontr)
  assume "sum_list (map f xs) < sum_list (map g xs)" "\<not> (\<exists>x \<in> set xs. f x < g x)"
  then have "sum_list (map g xs) \<le> sum_list (map f xs)" by (intro sum_list_mono) (simp add: not_less)
  with \<open>sum_list (map f xs) < sum_list (map g xs)\<close> show False by simp
qed

text \<open>
  While the usage of a pool, key by key, stays below the pooled budget of a window, one of the keys still has
  room under its own: a request the pool lets through finds a key.
\<close>

theorem PooledPlan_key_with_room:
  assumes "pv_plan p = Some plan" "1 < length (ProviderKeyIDs p)" "i < length (sp_constraints plan)" "PooledPlan p = Some pooled"
    and "pc_tokenBudget (sp_constraints pooled ! i) = Some budget"
    and "\<forall>key \<in> set (ProviderKeyIDs p). 0 \<le> set_budget (pc_tokenBudget (key_constraints p key ! i))"
    and "(\<Sum>key \<leftarrow> ProviderKeyIDs p. set_budget (pc_tokenBudget (key_constraints p key ! i))) < 2 ^ 63"
    and "(\<Sum>key \<leftarrow> ProviderKeyIDs p. usage key) < budget"
  shows "\<exists>key \<in> set (ProviderKeyIDs p). case pc_tokenBudget (key_constraints p key ! i) of
    None \<Rightarrow> True | Some own \<Rightarrow> usage key < own"
proof -
  let ?own = "\<lambda>key. pc_tokenBudget (key_constraints p key ! i)"
  have "sumBudgets (map ?own (ProviderKeyIDs p)) = Some budget"
    using assms(5) by (simp add: PooledPlan_constraint [OF assms(1-4)] comp_def)
  then have "budget = (\<Sum>key \<leftarrow> ProviderKeyIDs p. set_budget (?own key))"
    using sumBudgets_exact [of "map ?own (ProviderKeyIDs p)"] assms(6,7) by (simp add: comp_def split: if_splits)
  then obtain key where "key \<in> set (ProviderKeyIDs p)" "usage key < set_budget (?own key)"
    using sum_list_less_some assms(8) by blast
  then show ?thesis by (intro bexI [of _ key]) (auto simp: set_budget_def split: option.splits)
qed

definition team_provider :: plan_provider where
  "team_provider =
     \<lparr>pv_id = ''p'', pv_apiKey = ''k0'',
      pv_extraKeys = [\<lparr>pk_id = ''k1'', pk_label = ''bob'', pk_apiKey = ''k1'', pk_overrides =
        [(''5h'', \<lparr>ov_tokenBudget = Some 500, ov_valueBudget = None, ov_modelBudgets = [], ov_windowAnchor = Some 0\<rparr>),
         (''gone'', \<lparr>ov_tokenBudget = Some 7, ov_valueBudget = None, ov_modelBudgets = [], ov_windowAnchor = None\<rparr>)]\<rparr>],
      pv_subscription = True,
      pv_plan = Some \<lparr>sp_label = ''team'', sp_constraints = [anchored_constraint]\<rparr>, pv_currency = ''USD''\<rparr>"

lemmas team_provider_eval = team_provider_def PooledPlan_def ProviderKeyIDs_def PrimaryProviderKey_def anchored_constraint_def
  key_constraints_def KeyPlan_def ProviderKeyByID_def primary_key_def adjust_def override_Apply_def poolConstraint_def
  pooled_models_def sumBudgets_def wrap64_def

theorem PooledPlan_key_with_room_witness:
  "\<exists>key \<in> set (ProviderKeyIDs team_provider). case pc_tokenBudget (key_constraints team_provider key ! 0) of
    None \<Rightarrow> True | Some own \<Rightarrow> (if key = '''' then 1200 else 499) < own"
proof (rule PooledPlan_key_with_room)
  show "pv_plan team_provider = Some \<lparr>sp_label = ''team'', sp_constraints = [anchored_constraint]\<rparr>" by (simp add: team_provider_def)
  show "1 < length (ProviderKeyIDs team_provider)" by (simp add: team_provider_def ProviderKeyIDs_def)
  show "PooledPlan team_provider = Some (the (PooledPlan team_provider))" by (simp add: team_provider_eval Let_def)
  show "pc_tokenBudget (sp_constraints (the (PooledPlan team_provider)) ! 0) = Some 1700"
    by (simp add: team_provider_eval Let_def)
  show "\<forall>key \<in> set (ProviderKeyIDs team_provider). 0 \<le> set_budget (pc_tokenBudget (key_constraints team_provider key ! 0))"
    by (simp add: team_provider_eval Let_def)
  show "(\<Sum>key \<leftarrow> ProviderKeyIDs team_provider. set_budget (pc_tokenBudget (key_constraints team_provider key ! 0))) < 2 ^ 63"
    by (simp add: team_provider_eval Let_def)
  show "(\<Sum>key \<leftarrow> ProviderKeyIDs team_provider. if key = '''' then 1200 else 499) < (1700 :: int)"
    by (simp add: team_provider_eval)
qed simp

section \<open>Fitting overrides\<close>

lemma fitKeyOverride_idem: "fitKeyOverride (fitKeyOverride ov plan label) plan label = fitKeyOverride ov plan label"
  by (auto simp: fitKeyOverride_def Let_def split: option.splits)

lemma map_of_labelled: "distinct ls \<Longrightarrow> map_of (map (\<lambda>l. (l, f l)) ls) l = (if l \<in> set ls then Some (f l) else None)"
  by (induction ls) auto

lemma fit_key_overrides:
  "map_of (pk_overrides (fit_key plan k)) label =
     (case map_of (pk_overrides k) label of
        None \<Rightarrow> None
      | Some ov \<Rightarrow> (let fit = fitKeyOverride ov plan label in if override_Empty fit then None else Some fit))"
proof -
  let ?f = "\<lambda>l. fitKeyOverride (the (map_of (pk_overrides k) l)) plan l"
  have d: "distinct (override_labels k)" by (simp add: override_labels_def)
  then have "distinct (map fst (map (\<lambda>l. (l, ?f l)) (override_labels k)))" by (simp add: comp_def)
  then have "map_of (pk_overrides (fit_key plan k)) label =
      (case map_of (map (\<lambda>l. (l, ?f l)) (override_labels k)) label of
         None \<Rightarrow> None | Some v \<Rightarrow> if \<not> override_Empty v then Some v else None)"
    by (auto simp: fit_key_def map_of_filter_distinct split: option.splits)
  moreover have "label \<in> set (override_labels k) \<longleftrightarrow> map_of (pk_overrides k) label \<noteq> None"
    by (simp add: override_labels_def map_of_eq_None_iff)
  ultimately show ?thesis by (auto simp: map_of_labelled [OF d] Let_def split: option.splits)
qed

lemma fit_key_settled: "key_dropped plan (fit_key plan k) = []"
proof -
  have "fitKeyOverride ov plan label = ov" if "map_of (pk_overrides (fit_key plan k)) label = Some ov" for label ov
    using that by (auto simp: fit_key_overrides fitKeyOverride_idem Let_def split: option.splits if_splits)
  moreover have "\<exists>ov. map_of (pk_overrides k') label = Some ov" if "label \<in> set (override_labels k')" for label k'
    using that by (simp add: override_labels_def flip: map_of_eq_None_iff) (metis not_None_eq map_of_eq_None_iff image_eqI)
  ultimately show ?thesis by (auto simp: key_dropped_def filter_empty_conv)
qed

lemma fit_key_no_drop:
  assumes "key_dropped plan k = []" "map_of (pk_overrides k) label = Some ov"
  shows "fitKeyOverride ov plan label = ov"
proof -
  have "label \<in> set (override_labels k)"
    using assms(2) by (simp add: override_labels_def) (metis image_eqI fst_conv map_of_SomeD)
  then show ?thesis using assms by (auto simp: key_dropped_def filter_empty_conv)
qed

text \<open>What an override of a key may change once it fits the plan.\<close>

definition fits :: "plan_constraint \<Rightarrow> plan_override \<Rightarrow> bool" where
  "fits c ov =
     ((pc_kind c \<noteq> ConstraintRollingWindow \<longrightarrow> override_Empty ov)
      \<and> (pc_tokenBudget c = None \<longrightarrow> ov_tokenBudget ov = None)
      \<and> (pc_valueBudget c = None \<longrightarrow> ov_valueBudget ov = None)
      \<and> (pc_scope c \<notin> {PlanScopeModel, PlanScopeShared} \<longrightarrow> ov_modelBudgets ov = []))"

lemma fitKeyOverride_fits:
  assumes "fitKeyOverride ov (Some plan) label = ov"
  shows "case find (\<lambda>c. pc_label c = label) (sp_constraints plan) of None \<Rightarrow> override_Empty ov | Some c \<Rightarrow> fits c ov"
proof -
  have "case find (\<lambda>c. pc_label c = label) (sp_constraints plan) of
      None \<Rightarrow> override_Empty (fitKeyOverride ov (Some plan) label) | Some c \<Rightarrow> fits c (fitKeyOverride ov (Some plan) label)"
    by (auto simp: fitKeyOverride_def fits_def override_Empty_def Let_def split: option.splits)
  then show ?thesis unfolding assms .
qed

text \<open>
  Fitting the overrides of a provider's keys to a plan settles them: fitting again changes nothing, and each
  override left only adjusts a rolling window of the plan, its budgets of a kind only where the window holds one,
  its model budgets only on a per-model or shared window.
\<close>

theorem FitKeyOverrides_settles:
  assumes "FitKeyOverrides keys (Some plan) = (fitted, dropped)"
  shows "FitKeyOverrides fitted (Some plan) = (fitted, [])
    \<and> (\<forall>k \<in> set fitted. \<forall>label ov. map_of (pk_overrides k) label = Some ov \<longrightarrow>
         (case find (\<lambda>c. pc_label c = label) (sp_constraints plan) of None \<Rightarrow> override_Empty ov | Some c \<Rightarrow> fits c ov))"
proof -
  have settled: "key_dropped (Some plan) k = []" if "k \<in> set fitted" for k
    using assms that fit_key_settled by (auto simp: FitKeyOverrides_def Let_def split: if_splits)
  then have "FitKeyOverrides fitted (Some plan) = (fitted, [])" by (simp add: FitKeyOverrides_def)
  then show ?thesis using fit_key_no_drop [OF settled] fitKeyOverride_fits by blast
qed

theorem FitKeyOverrides_settles_witness:
  "FitKeyOverrides (fst (FitKeyOverrides (pv_extraKeys team_provider) (pv_plan team_provider))) (pv_plan team_provider)
     = (fst (FitKeyOverrides (pv_extraKeys team_provider) (pv_plan team_provider)), [])
   \<and> snd (FitKeyOverrides (pv_extraKeys team_provider) (pv_plan team_provider)) = [(''bob'', ''gone'')]"
proof
  have plan: "pv_plan team_provider = Some \<lparr>sp_label = ''team'', sp_constraints = [anchored_constraint]\<rparr>"
    by (simp add: team_provider_def)
  show "FitKeyOverrides (fst (FitKeyOverrides (pv_extraKeys team_provider) (pv_plan team_provider))) (pv_plan team_provider)
     = (fst (FitKeyOverrides (pv_extraKeys team_provider) (pv_plan team_provider)), [])"
    unfolding plan by (rule FitKeyOverrides_settles [THEN conjunct1]) (rule prod.collapse [symmetric])
  show "snd (FitKeyOverrides (pv_extraKeys team_provider) (pv_plan team_provider)) = [(''bob'', ''gone'')]" by code_simp
qed

end
