(* ===== verification/Plan_Evaluator.thy ===== *)
theory Plan_Evaluator
  imports Fair_Share_Service Plan_Concurrency Provider_Keys
begin

text \<open>
  The evaluators of plan constraints (\<open>src/internal/adapter/proxy/billing_evaluator.go\<close>), the weighing of usage by model
  (\<open>src/internal/core/service/plan_model_usage.go\<close>) and the cache of an organization's models
  (\<open>src/internal/adapter/proxy/upstream_model_cache.go\<close>).

  The clock is read once per evaluation; the amounts of refusals are kept, their formatting is not.
\<close>

section \<open>Scopes and stores\<close>

record plan_model =
  pm_id :: string
  pm_providerID :: string
  pm_realModel :: string

record plan_scope =
  ps_orgID :: string
  ps_providerID :: string
  ps_userID :: string
  ps_memberCount :: int
  ps_currency :: string
  ps_upstreamModel :: string
  ps_modelIDs :: "string list"
  ps_models :: "plan_model list"
  ps_keyWindows :: "(string \<times> (string \<times> int) list) list"
  ps_byKey :: bool
  ps_keyID :: string

text \<open>The usage store; usage by model and by key are maps.\<close>

type_synonym model_usage = "(string \<times> plan_totals) list"

record 'e plan_usage_store =
  ut_reader :: "'e plan_usage_reader"
  ut_byModel :: "plan_usage_scope \<Rightarrow> string \<Rightarrow> int \<Rightarrow> ('e, model_usage) result"
  ut_byKey :: "plan_usage_scope \<Rightarrow> int \<Rightarrow> ('e, (string \<times> model_usage) list) result"
  ut_lastKey :: "plan_usage_scope \<Rightarrow> string \<Rightarrow> ('e, string option) result"

definition windows_of :: "plan_scope \<Rightarrow> string \<Rightarrow> (string \<times> int) list" where
  "windows_of s label = (case map_of (ps_keyWindows s) label of Some w \<Rightarrow> w | None \<Rightarrow> [])"

definition usageScope :: "plan_scope \<Rightarrow> plan_constraint \<Rightarrow> plan_usage_scope" where
  "usageScope s c =
     \<lparr>us_orgID = ps_orgID s, us_providerID = ps_providerID s, us_modelIDs = (if PerModel c then ps_modelIDs s else []),
      us_byKey = ps_byKey s, us_keyID = ps_keyID s, us_keyWindows = windows_of s (pc_label c)\<rparr>"

definition forKey :: "plan_scope \<Rightarrow> string \<Rightarrow> plan_scope" where
  "forKey s key = s\<lparr>ps_byKey := True, ps_keyID := key\<rparr>"

definition constraintName :: "plan_scope \<Rightarrow> plan_constraint \<Rightarrow> string" where
  "constraintName s c =
     (if PerModel c \<and> ps_upstreamModel s \<noteq> [] then pc_label c @ '' '' @ [CHR 0xB7] @ '' '' @ ps_upstreamModel s else pc_label c)"

definition UpstreamModelIDs :: "plan_model list \<Rightarrow> plan_model \<Rightarrow> string list" where
  "UpstreamModelIDs models m =
     pm_id m # map pm_id (filter (\<lambda>x. pm_id x \<noteq> pm_id m \<and> pm_providerID x = pm_providerID m \<and> pm_realModel x = pm_realModel m) models)"

section \<open>Usage by model\<close>

definition upstream_of :: "plan_model list \<Rightarrow> string \<Rightarrow> string option" where
  "upstream_of models i = map_of (rev (map (\<lambda>m. (pm_id m, pm_realModel m)) models)) i"

definition weigh_one :: "plan_constraint \<Rightarrow> plan_model list \<Rightarrow> string \<Rightarrow> plan_totals \<Rightarrow> int \<times> int" where
  "weigh_one c models i t =
     (case upstream_of models i of
        Some realModel \<Rightarrow> Weigh c realModel (pt_tokens t) (pt_value t)
      | None \<Rightarrow> WeighUnknown c (pt_tokens t) (pt_value t))"

definition WeighSharedPlanUsage :: "plan_constraint \<Rightarrow> plan_model list \<Rightarrow> model_usage \<Rightarrow> plan_totals" where
  "WeighSharedPlanUsage c models usage =
     fold (\<lambda>(i, t) acc. (case weigh_one c models i t of (tokens, value) \<Rightarrow>
             \<lparr>pt_tokens = wrap64 (pt_tokens acc + tokens), pt_value = wrap64 (pt_value acc + value)\<rparr>))
       usage \<lparr>pt_tokens = 0, pt_value = 0\<rparr>"

record upstream_usage =
  uu_model :: string
  uu_ids :: "string list"
  uu_tokens :: int
  uu_value :: int

definition add_model :: "string \<Rightarrow> model_usage \<Rightarrow> plan_model \<Rightarrow> (string \<times> upstream_usage) list \<Rightarrow> (string \<times> upstream_usage) list" where
  "add_model providerID usage m by =
     (if pm_providerID m \<noteq> providerID then by
      else
        (let e = (case map_of by (pm_realModel m) of
                    Some e \<Rightarrow> e
                  | None \<Rightarrow> \<lparr>uu_model = pm_realModel m, uu_ids = [], uu_tokens = 0, uu_value = 0\<rparr>);
             e = e\<lparr>uu_ids := uu_ids e @ [pm_id m]\<rparr>;
             e = (case map_of usage (pm_id m) of
                    Some t \<Rightarrow> e\<lparr>uu_tokens := wrap64 (uu_tokens e + pt_tokens t), uu_value := wrap64 (uu_value e + pt_value t)\<rparr>
                  | None \<Rightarrow> e)
         in AList.update (pm_realModel m) e by))"

definition hasUsage :: "string list \<Rightarrow> model_usage \<Rightarrow> bool" where
  "hasUsage ids usage = list_ex (\<lambda>i. map_of usage i \<noteq> None) ids"

definition GroupPlanUsageByUpstreamModel :: "plan_model list \<Rightarrow> string \<Rightarrow> model_usage \<Rightarrow> upstream_usage list" where
  "GroupPlanUsageByUpstreamModel models providerID usage =
     sort_key uu_model (filter (\<lambda>e. hasUsage (uu_ids e) usage) (map snd (fold (add_model providerID usage) models [])))"

definition keyUsage :: "plan_constraint \<Rightarrow> plan_model list \<Rightarrow> model_usage \<Rightarrow> plan_totals" where
  "keyUsage c models byModel =
     (if Shared c then WeighSharedPlanUsage c models byModel
      else fold (\<lambda>(_, t) acc. \<lparr>pt_tokens = wrap64 (pt_tokens acc + pt_tokens t), pt_value = wrap64 (pt_value acc + pt_value t)\<rparr>)
             byModel \<lparr>pt_tokens = 0, pt_value = 0\<rparr>)"

text \<open>The maximum is the builtin one; the values it meets are never NaN with an infinity.\<close>

definition fillRatio :: "plan_constraint \<Rightarrow> plan_totals \<Rightarrow> float64" where
  "fillRatio c u =
     (let ratio = (case pc_tokenBudget c of
                     Some b \<Rightarrow> if b > 0 then f64_max (Fin 0) (f64_div (f64_of_int (pt_tokens u)) (f64_of_int b)) else Fin 0
                   | None \<Rightarrow> Fin 0)
      in case pc_valueBudget c of
           Some b \<Rightarrow> if b > 0 then f64_max ratio (f64_div (f64_of_int (pt_value u)) (f64_of_int b)) else ratio
         | None \<Rightarrow> ratio)"

section \<open>Rolling windows\<close>

definition budgetDenial :: "plan_scope \<Rightarrow> plan_constraint \<Rightarrow> string \<Rightarrow> int \<Rightarrow> int \<Rightarrow> plan_denial option" where
  "budgetDenial s c name tokens value =
     (let tokensOut = (case pc_tokenBudget c of Some b \<Rightarrow> tokens \<ge> b | None \<Rightarrow> False);
          valueOut = (case pc_valueBudget c of Some b \<Rightarrow> value \<ge> b | None \<Rightarrow> False)
      in if (tokensOut \<or> valueOut) \<and> ps_byKey s then Some (DenyUsedUp name (pc_duration c))
         else if tokensOut then Some (DenyTokens name tokens (the (pc_tokenBudget c)) (pc_duration c))
         else if valueOut then Some (DenyValue name value (pc_duration c))
         else None)"

definition planUsage :: "'e plan_usage_store \<Rightarrow> plan_scope \<Rightarrow> plan_constraint \<Rightarrow> plan_usage_scope \<Rightarrow> string \<Rightarrow> int
    \<Rightarrow> ('e, plan_totals) result" where
  "planUsage st s c usage userID since =
     (if \<not> Shared c then
        (if userID = [] then ur_sumPlan (ut_reader st) usage since else ur_sumUser (ut_reader st) userID usage since)
      else rmap (WeighSharedPlanUsage c (ps_models s)) (ut_byModel st usage userID since))"

definition keysUsage :: "'e plan_usage_store \<Rightarrow> int \<Rightarrow> plan_scope \<Rightarrow> plan_constraint \<Rightarrow> ('e, (string \<times> model_usage) list) result" where
  "keysUsage st now s c =
     ut_byKey st ((usageScope s c)\<lparr>us_byKey := False, us_keyID := ''''\<rparr>) (CurrentWindowStart c now)"

datatype 'e plan_error = PlanUsageError 'e | PlanShareError "'e share_error"

fun lift_plan :: "('e, 'a) result \<Rightarrow> ('e plan_error, 'a) result" where
  "lift_plan (Inl e) = Inl (PlanUsageError e)" | "lift_plan (Inr a) = Inr a"

definition share_denial :: "string \<Rightarrow> int \<Rightarrow> fair_share_result \<Rightarrow> plan_denial option" where
  "share_denial name dur r =
     (case fres_tokenAllowance r of
        Some a \<Rightarrow>
          if fres_userTokens r \<ge> a then Some (DenyShareTokens name (fres_userTokens r) a dur)
          else (case fres_valueAllowance r of
                  Some v \<Rightarrow> if fres_userValue r \<ge> v then Some (DenyShareValue name (fres_userValue r) v dur) else None
                | None \<Rightarrow> None)
      | None \<Rightarrow>
          (case fres_valueAllowance r of
             Some v \<Rightarrow> if fres_userValue r \<ge> v then Some (DenyShareValue name (fres_userValue r) v dur) else None
           | None \<Rightarrow> None))"

definition share_request :: "plan_scope \<Rightarrow> plan_constraint \<Rightarrow> int \<Rightarrow> plan_totals \<Rightarrow> plan_totals option \<Rightarrow> fair_share_request" where
  "share_request s c now plan user =
     \<lparr>fr_orgID = ps_orgID s, fr_providerID = ps_providerID s, fr_modelIDs = us_modelIDs (usageScope s c),
      fr_keyWindows = us_keyWindows (usageScope s c), fr_userID = ps_userID s, fr_memberCount = ps_memberCount s,
      fr_constraint = c, fr_now = now, fr_planUsage = Some plan, fr_userUsage = user\<rparr>"

definition rolling_Acquire :: "'e plan_usage_store \<Rightarrow> bool \<Rightarrow> int \<Rightarrow> plan_scope \<Rightarrow> plan_constraint \<Rightarrow> fair_share_service
    \<Rightarrow> fair_share_service \<times> ('e plan_error, plan_denial option) result" where
  "rolling_Acquire st in_time now s c fs =
     (if pc_duration c \<le> 0 \<or> pc_tokenBudget c = None \<and> pc_valueBudget c = None then (fs, Inr None)
      else
        (let since = CurrentWindowStart c now; usage = usageScope s c; name = constraintName s c in
         case planUsage st s c usage '''' since of
           Inl e \<Rightarrow> (fs, Inl (PlanUsageError e))
         | Inr plan \<Rightarrow>
             (case budgetDenial s c name (pt_tokens plan) (pt_value plan) of
                Some d \<Rightarrow> (fs, Inr (Some d))
              | None \<Rightarrow>
                  if ps_userID s \<noteq> [] \<and> ps_memberCount s > 0 \<and> \<not> ps_byKey s then
                    (case (if Shared c then rmap Some (planUsage st s c usage (ps_userID s) since) else Inr None) of
                       Inl e \<Rightarrow> (fs, Inl (PlanUsageError e))
                     | Inr user \<Rightarrow>
                         (case Resolve (ut_reader st) in_time (share_request s c now plan user) fs of
                            (fs', Inl e) \<Rightarrow> (fs', Inl (PlanShareError e))
                          | (fs', Inr share) \<Rightarrow> (fs', Inr (share_denial name (pc_duration c) share))))
                  else (fs, Inr None))))"

section \<open>Models of an organization\<close>

definition upstreamModelsCacheTTL :: int where
  "upstreamModelsCacheTTL = 30 * 10 ^ 9"

record org_model_cache =
  om_ttl :: int
  om_table :: "(string \<times> plan_model list \<times> int) list \<times> nat"

definition om_get :: "org_model_cache \<Rightarrow> string \<Rightarrow> int \<Rightarrow> plan_model list option" where
  "om_get c orgID now = map_option fst (sweep_get snd now orgID (om_table c))"

definition om_put :: "org_model_cache \<Rightarrow> string \<Rightarrow> plan_model list \<Rightarrow> int \<Rightarrow> org_model_cache" where
  "om_put c orgID models now = c\<lparr>om_table := sweep_put snd now orgID (models, now + om_ttl c) (om_table c)\<rparr>"

end
