(* ===== verification/Subscription_Enforcer.thy ===== *)
theory Subscription_Enforcer
  imports Plan_Evaluator Quota_Enforcer
begin

text \<open>
  The hook that enforces subscription plans (\<open>src/internal/adapter/proxy/subscription_enforcer.go\<close>): cooldowns, the
  constraints of the pooled plan, the choice of an API key, and the cooldown after an upstream 429; and the client that
  moves a request to another key (\<open>src/internal/adapter/proxy/key_failover_client.go\<close>).

  The clock is read once per hook.  The metadata of a request that the enforcer reads and writes are a record; the
  stores, \<open>json.Unmarshal\<close> and \<open>http.ParseTime\<close> are fields of the environment.  Metrics and logs are left out.
\<close>

section \<open>Environment and state\<close>

datatype json = JString string | JObject "(string \<times> json) list" | JOther

datatype response_body = BodyMap "(string \<times> json) list" | BodyText string | BodyOther

datatype upstream_error = HTTPError int response_body string | OtherError string

record 'e enforcer_env =
  ev_usage :: "'e plan_usage_store"
  ev_modelByID :: "string \<Rightarrow> ('e, plan_model option) result"
  ev_modelByProxyName :: "string \<Rightarrow> string \<Rightarrow> ('e, plan_model option) result"
  ev_providerByID :: "string \<Rightarrow> ('e, plan_provider) result"
  ev_listModels :: "string \<Rightarrow> ('e, plan_model list) result"
  ev_memberCount :: "string \<Rightarrow> ('e, int) result"
  ev_inTime :: bool
  ev_now :: int
  ev_parseTime :: "string \<Rightarrow> int option"
  ev_unmarshal :: "string \<Rightarrow> (string \<times> json) list option"

record enforcer_state =
  es_sub :: subscription_state
  es_share :: fair_share_service
  es_models :: org_model_cache

text \<open>The metadata: the key chosen and its fallbacks, the reservations stashed, the key last used.\<close>

record plan_meta =
  mt_key :: "string option"
  mt_fallbacks :: "string list"
  mt_reservations :: "plan_reservation list"
  mt_used :: string

definition resolveTarget :: "'e enforcer_env \<Rightarrow> proxy_request \<Rightarrow> (plan_model \<times> plan_provider) option" where
  "resolveTarget env req =
     (let found = (if rq_modelID req \<noteq> [] then ev_modelByID env (rq_modelID req)
                   else if rq_orgID req = [] then Inr None
                   else (case parseQualifiedModelName (rq_model req) of
                           None \<Rightarrow> Inr None
                         | Some (_, proxyName) \<Rightarrow> ev_modelByProxyName env (rq_orgID req) proxyName))
      in case found of
           Inr (Some m) \<Rightarrow> (case ev_providerByID env (pm_providerID m) of Inr p \<Rightarrow> Some (m, p) | Inl _ \<Rightarrow> None)
         | _ \<Rightarrow> None)"

definition orgModels :: "'e enforcer_env \<Rightarrow> string \<Rightarrow> org_model_cache \<Rightarrow> org_model_cache \<times> plan_model list \<times> bool" where
  "orgModels env orgID c =
     (case om_get c orgID (ev_now env) of
        Some models \<Rightarrow> (c, models, True)
      | None \<Rightarrow>
          (case ev_listModels env orgID of
             Inl _ \<Rightarrow> (c, [], False)
           | Inr models \<Rightarrow> (om_put c orgID models (ev_now env), models, True)))"

definition upstreamModelIDs :: "plan_model list \<Rightarrow> bool \<Rightarrow> plan_model \<Rightarrow> string list" where
  "upstreamModelIDs models ok m = (if \<not> ok then [pm_id m] else UpstreamModelIDs models m)"

definition cooldownModel :: "plan_constraint \<Rightarrow> string \<Rightarrow> string" where
  "cooldownModel c upstreamModel = (if PerModel c then upstreamModel else [])"

section \<open>Choosing a key\<close>

record key_state =
  ks_fill :: float64
  ks_denial :: "plan_denial option"

definition anyBudget :: "plan_provider \<Rightarrow> string list \<Rightarrow> nat \<Rightarrow> string \<Rightarrow> bool" where
  "anyBudget p keys i upstreamModel =
     list_ex (\<lambda>key. let c = ForModel (key_constraints p key ! i) upstreamModel
                    in pc_tokenBudget c \<noteq> None \<or> pc_valueBudget c \<noteq> None) keys"

definition key_step :: "int \<Rightarrow> plan_scope \<Rightarrow> plan_provider \<Rightarrow> nat \<Rightarrow> plan_constraint \<Rightarrow> (string \<times> model_usage) list option \<Rightarrow> string
    \<Rightarrow> subscription_state \<times> (string \<Rightarrow> key_state) \<Rightarrow> subscription_state \<times> (string \<Rightarrow> key_state)" where
  "key_step now s p i c usage key ss =
     (case ss of (sub, states) \<Rightarrow>
        (let state = states key in
         if ks_denial state \<noteq> None then (sub, states)
         else
           (let kc = ForModel (key_constraints p key ! i) (ps_upstreamModel s); keyScope = forKey s key in
            case IsKeyExhausted now (ps_orgID s) (ps_providerID s) key (pc_label c) (cooldownModel c (ps_upstreamModel s)) sub of
              (sub', True) \<Rightarrow> (sub', states(key := state\<lparr>ks_denial := Some (DenyCooldown (constraintName keyScope kc))\<rparr>))
            | (sub', False) \<Rightarrow>
                (case usage of
                   Some u \<Rightarrow>
                     if pc_tokenBudget kc \<noteq> None \<or> pc_valueBudget kc \<noteq> None then
                       (let t = keyUsage kc (ps_models s) (case map_of u key of Some m \<Rightarrow> m | None \<Rightarrow> [])
                        in (sub', states(key := state\<lparr>
                              ks_denial := budgetDenial keyScope kc (constraintName keyScope kc) (pt_tokens t) (pt_value t),
                              ks_fill := f64_max (ks_fill state) (fillRatio kc t)\<rparr>)))
                     else (sub', states(key := state))
                 | None \<Rightarrow> (sub', states(key := state))))))"

fun key_states_from :: "'e enforcer_env \<Rightarrow> plan_scope \<Rightarrow> plan_provider \<Rightarrow> string list \<Rightarrow> nat \<Rightarrow> plan_constraint list
    \<Rightarrow> subscription_state \<times> (string \<Rightarrow> key_state) \<Rightarrow> subscription_state \<times> ('e, string \<Rightarrow> key_state) result" where
  "key_states_from env s p keys i [] (sub, states) = (sub, Inr states)"
| "key_states_from env s p keys i (c # cs) (sub, states) =
     (if PerModel c \<and> ps_upstreamModel s = [] then key_states_from env s p keys (Suc i) cs (sub, states)
      else
        (case (if pc_kind c = ConstraintRollingWindow \<and> pc_duration c > 0 \<and> anyBudget p keys i (ps_upstreamModel s)
               then rmap Some (keysUsage (ev_usage env) (ev_now env) s (ForModel c (ps_upstreamModel s)))
               else Inr None) of
           Inl e \<Rightarrow> (sub, Inl e)
         | Inr usage \<Rightarrow>
             key_states_from env s p keys (Suc i) cs (fold (key_step (ev_now env) s p i c usage) keys (sub, states))))"

definition keyStates :: "'e enforcer_env \<Rightarrow> plan_scope \<Rightarrow> plan_provider \<Rightarrow> string list \<Rightarrow> subscription_state
    \<Rightarrow> subscription_state \<times> ('e, string \<Rightarrow> key_state) result" where
  "keyStates env s p keys sub =
     key_states_from env s p keys 0 (case pv_plan p of Some plan \<Rightarrow> sp_constraints plan | None \<Rightarrow> [])
       (sub, \<lambda>_. \<lparr>ks_fill = Fin 0, ks_denial = None\<rparr>)"

text \<open>\<open>cmp.Compare\<close> on floats puts NaN first; the sort is stable.\<close>

definition f64_before :: "float64 \<Rightarrow> float64 \<Rightarrow> bool" where
  "f64_before x y = (if x = NaN then y \<noteq> NaN else f64_lt x y)"

definition key_le :: "string \<Rightarrow> (string \<Rightarrow> key_state) \<Rightarrow> string \<Rightarrow> string \<Rightarrow> bool" where
  "key_le userID states a b =
     (if f64_before (ks_fill (states a)) (ks_fill (states b)) then True
      else if f64_before (ks_fill (states b)) (ks_fill (states a)) then False
      else KeyAffinity userID a \<le> KeyAffinity userID b)"

fun insert_by :: "('a \<Rightarrow> 'a \<Rightarrow> bool) \<Rightarrow> 'a \<Rightarrow> 'a list \<Rightarrow> 'a list" where
  "insert_by le x [] = [x]"
| "insert_by le x (y # ys) = (if le x y then x # y # ys else y # insert_by le x ys)"

definition stable_sort :: "('a \<Rightarrow> 'a \<Rightarrow> bool) \<Rightarrow> 'a list \<Rightarrow> 'a list" where
  "stable_sort le xs = foldr (insert_by le) xs []"

definition minRebalanceMargin :: float64 where
  "minRebalanceMargin = f64_of_rat (1 / 10)"

text \<open>The difference of the two constants is a constant, 0.20 exactly before it is rounded.\<close>

definition rebalanceMargin :: "string \<Rightarrow> string \<Rightarrow> float64" where
  "rebalanceMargin userID key =
     (let rank = f64_div (f64_of_int (uint (KeyAffinity (userID @ [CHR 0x00] @ ''margin'') key))) (f64_of_int (2 ^ 64 - 1))
      in f64_add minRebalanceMargin (f64_mul rank (f64_of_rat (2 / 10))))"

definition last_denial :: "(string \<Rightarrow> key_state) \<Rightarrow> string list \<Rightarrow> plan_denial" where
  "last_denial states keys =
     fold (\<lambda>key d. case ks_denial (states key) of Some d' \<Rightarrow> d' | None \<Rightarrow> d) keys DenyPool"

definition rank_keys :: "string \<Rightarrow> (string \<Rightarrow> key_state) \<Rightarrow> string option \<Rightarrow> string list \<Rightarrow> string list" where
  "rank_keys userID states sticky keys =
     (let sorted = stable_sort (key_le userID states) keys in
      case sticky of
        None \<Rightarrow> sorted
      | Some k \<Rightarrow>
          if k \<in> set (tl sorted) \<and> k \<noteq> hd sorted
             \<and> f64_le (f64_sub (ks_fill (states k)) (ks_fill (states (hd sorted)))) (rebalanceMargin userID k)
          then k # remove1 k sorted else sorted)"

definition pickKey :: "'e enforcer_env \<Rightarrow> plan_scope \<Rightarrow> plan_provider \<Rightarrow> string list \<Rightarrow> subscription_state
    \<Rightarrow> subscription_state \<times> ('e, plan_denial + string list) result" where
  "pickKey env s p keys sub =
     (let sticky = (if ps_userID s = [] then None
                    else (case ut_lastKey (ev_usage env)
                             \<lparr>us_orgID = ps_orgID s, us_providerID = ps_providerID s, us_modelIDs = [], us_byKey = False,
                              us_keyID = '''', us_keyWindows = []\<rparr> (ps_userID s) of
                            Inr (Some k) \<Rightarrow> if k \<in> set keys then Some k else None
                          | _ \<Rightarrow> None))
      in case keyStates env s p keys sub of
           (sub', Inl e) \<Rightarrow> (sub', Inl e)
         | (sub', Inr states) \<Rightarrow>
             (let open_keys = filter (\<lambda>key. ks_denial (states key) = None) keys in
              if open_keys = [] then (sub', Inr (Inl (last_denial states keys)))
              else (sub', Inr (Inr (rank_keys (ps_userID s) states sticky open_keys)))))"

section \<open>Before the request\<close>

datatype enforcer_answer = LetThrough | PlanExhausted plan_denial

definition member_count :: "'e enforcer_env \<Rightarrow> string \<Rightarrow> string \<Rightarrow> int" where
  "member_count env orgID userID =
     (if userID = [] then 0 else (case ev_memberCount env orgID of Inr n \<Rightarrow> n | Inl _ \<Rightarrow> 0))"

definition request_plan_scope :: "'e enforcer_env \<Rightarrow> proxy_request \<Rightarrow> plan_model \<Rightarrow> plan_provider \<Rightarrow> subscription_plan \<Rightarrow> org_model_cache
    \<Rightarrow> org_model_cache \<times> plan_scope" where
  "request_plan_scope env req m p plan cache =
     (let scope = \<lparr>ps_orgID = rq_orgID req, ps_providerID = pv_id p, ps_userID = rq_userID req,
                   ps_memberCount = member_count env (rq_orgID req) (rq_userID req), ps_currency = pv_currency p,
                   ps_upstreamModel = '''', ps_modelIDs = [], ps_models = [],
                   ps_keyWindows =
                     (if length (ProviderKeyIDs p) > 1
                      then fold (\<lambda>c w. (case KeyWindows p (pc_label c) (ev_now env) of [] \<Rightarrow> w | ws \<Rightarrow> AList.update (pc_label c) ws w))
                             (sp_constraints plan) []
                      else []),
                   ps_byKey = False, ps_keyID = ''''\<rparr>
      in if HasPerModelConstraint (Some plan) \<or> HasSharedConstraint (Some plan)
         then (case orgModels env (rq_orgID req) cache of (cache', models, ok) \<Rightarrow>
                 (cache',
                  (if HasPerModelConstraint (Some plan)
                   then scope\<lparr>ps_upstreamModel := pm_realModel m, ps_modelIDs := upstreamModelIDs models ok m, ps_models := models\<rparr>
                   else scope\<lparr>ps_models := models\<rparr>)))
         else (cache, scope))"

fun check_cooldowns :: "int \<Rightarrow> plan_scope \<Rightarrow> plan_constraint list \<Rightarrow> subscription_state \<Rightarrow> subscription_state \<times> plan_denial option" where
  "check_cooldowns now s [] sub = (sub, None)"
| "check_cooldowns now s (c # cs) sub =
     (if PerModel c \<and> ps_upstreamModel s = [] then check_cooldowns now s cs sub
      else (case IsKeyExhausted now (ps_orgID s) (ps_providerID s) PrimaryProviderKey (pc_label c) (cooldownModel c (ps_upstreamModel s)) sub of
              (sub', True) \<Rightarrow> (sub', Some (DenyCooldown (constraintName s c)))
            | (sub', False) \<Rightarrow> check_cooldowns now s cs sub'))"

text \<open>One constraint: the evaluator of its kind, none for an unknown kind.\<close>

definition acquire_one :: "'e enforcer_env \<Rightarrow> plan_scope \<Rightarrow> plan_constraint \<Rightarrow> enforcer_state
    \<Rightarrow> enforcer_state \<times> ('e plan_error, plan_denial + plan_reservation option) result" where
  "acquire_one env s c es =
     (if PerModel c \<and> ps_upstreamModel s = [] then (es, Inr (Inr None))
      else
        (let c = (if PerModel c then ForModel c (ps_upstreamModel s) else c) in
         case pc_kind c of
           ConstraintRollingWindow \<Rightarrow>
             (case rolling_Acquire (ev_usage env) (ev_inTime env) (ev_now env) s c (es_share es) of
                (fs, Inl e) \<Rightarrow> (es\<lparr>es_share := fs\<rparr>, Inl e)
              | (fs, Inr (Some d)) \<Rightarrow> (es\<lparr>es_share := fs\<rparr>, Inr (Inl d))
              | (fs, Inr None) \<Rightarrow> (es\<lparr>es_share := fs\<rparr>, Inr (Inr (Some NoopReservation))))
         | ConstraintConcurrency \<Rightarrow>
             (case concurrency_Acquire (ps_orgID s) (ps_providerID s) (ps_userID s) (ps_memberCount s) c (es_sub es) of
                (sub, Inl d) \<Rightarrow> (es\<lparr>es_sub := sub\<rparr>, Inr (Inl d))
              | (sub, Inr r) \<Rightarrow> (es\<lparr>es_sub := sub\<rparr>, Inr (Inr (Some r))))
         | ConstraintOther _ \<Rightarrow> (es, Inr (Inr None))))"

definition release_in :: "plan_reservation list \<Rightarrow> enforcer_state \<Rightarrow> enforcer_state" where
  "release_in rs es = es\<lparr>es_sub := releaseAll rs (es_sub es)\<rparr>"

fun acquire_all :: "'e enforcer_env \<Rightarrow> plan_scope \<Rightarrow> plan_constraint list \<Rightarrow> plan_reservation list \<Rightarrow> enforcer_state
    \<Rightarrow> enforcer_state \<times> ('e plan_error, plan_denial + plan_reservation list) result" where
  "acquire_all env s [] rs es = (es, Inr (Inr rs))"
| "acquire_all env s (c # cs) rs es =
     (case acquire_one env s c es of
        (es', Inl e) \<Rightarrow> (release_in rs es', Inl e)
      | (es', Inr (Inl d)) \<Rightarrow> (release_in rs es', Inr (Inl d))
      | (es', Inr (Inr None)) \<Rightarrow> acquire_all env s cs rs es'
      | (es', Inr (Inr (Some r))) \<Rightarrow> acquire_all env s cs (rs @ [r]) es')"

definition admit_plan :: "'e enforcer_env \<Rightarrow> plan_provider \<Rightarrow> plan_scope \<Rightarrow> subscription_plan \<Rightarrow> plan_meta \<Rightarrow> enforcer_state
    \<Rightarrow> enforcer_state \<times> plan_meta \<times> ('e plan_error, enforcer_answer) result" where
  "admit_plan env p s shared meta es =
     (case acquire_all env s (sp_constraints shared) [] es of
        (es', Inl e) \<Rightarrow> (es', meta, Inl e)
      | (es', Inr (Inl d)) \<Rightarrow> (es', meta, Inr (PlanExhausted d))
      | (es', Inr (Inr rs)) \<Rightarrow>
          if length (ProviderKeyIDs p) > 1 then
            (case pickKey env s p (ProviderKeyIDs p) (es_sub es') of
               (sub, Inl e) \<Rightarrow> (release_in rs (es'\<lparr>es_sub := sub\<rparr>), meta, Inl (PlanUsageError e))
             | (sub, Inr (Inl d)) \<Rightarrow> (release_in rs (es'\<lparr>es_sub := sub\<rparr>), meta, Inr (PlanExhausted d))
             | (sub, Inr (Inr ks)) \<Rightarrow>
                 (es'\<lparr>es_sub := sub\<rparr>, meta\<lparr>mt_key := Some (hd ks), mt_fallbacks := tl ks, mt_reservations := rs\<rparr>, Inr LetThrough))
          else (es', meta\<lparr>mt_reservations := rs\<rparr>, Inr LetThrough))"

definition SubscriptionPreRequest :: "'e enforcer_env \<Rightarrow> proxy_request \<Rightarrow> plan_meta \<Rightarrow> enforcer_state
    \<Rightarrow> enforcer_state \<times> plan_meta \<times> ('e plan_error, enforcer_answer) result" where
  "SubscriptionPreRequest env req meta es =
     (if rq_orgID req = [] then (es, meta, Inr LetThrough)
      else
        (case resolveTarget env req of
           None \<Rightarrow> (es, meta, Inr LetThrough)
         | Some (m, p) \<Rightarrow>
             (case (if pv_subscription p then pv_plan p else None) of
                None \<Rightarrow> (es, meta, Inr LetThrough)
              | Some plan \<Rightarrow>
                  if sp_constraints plan = [] then (es, meta, Inr LetThrough)
                  else
                    (case request_plan_scope env req m p plan (es_models es) of (cache, s) \<Rightarrow>
                       (let es = es\<lparr>es_models := cache\<rparr>; shared = the (PooledPlan p) in
                        if length (ProviderKeyIDs p) > 1 then admit_plan env p s shared meta es
                        else
                          (case check_cooldowns (ev_now env) s (sp_constraints plan) (es_sub es) of
                             (sub, Some d) \<Rightarrow> (es\<lparr>es_sub := sub\<rparr>, meta, Inr (PlanExhausted d))
                           | (sub, None) \<Rightarrow> admit_plan env p s shared meta (es\<lparr>es_sub := sub\<rparr>)))))))"

section \<open>After the response\<close>

definition releaseReservations :: "plan_meta \<Rightarrow> enforcer_state \<Rightarrow> enforcer_state \<times> plan_meta" where
  "releaseReservations meta es = (release_in (mt_reservations meta) es, meta\<lparr>mt_reservations := []\<rparr>)"

text \<open>\<open>strconv.ParseInt\<close> in base ten for 64 bits.\<close>

definition ParseInt64 :: "string \<Rightarrow> int option" where
  "ParseInt64 s =
     (let (neg, ds) = (case s of [] \<Rightarrow> (False, []) | c # r \<Rightarrow> if c = CHR ''-'' then (True, r) else if c = CHR ''+'' then (False, r) else (False, s));
          n = foldl (\<lambda>a d. 10 * a + (int (of_char d) - 48)) 0 ds;
          v = (if neg then - n else n)
      in if ds = [] \<or> \<not> list_all is_digit ds \<or> v < - (2 ^ 63) \<or> v > 2 ^ 63 - 1 then None else Some v)"

definition defaultExhaustionCooldown :: int where
  "defaultExhaustionCooldown = 5 * 60 * 10 ^ 9"

definition retryAfter :: "(string \<Rightarrow> int option) \<Rightarrow> string \<Rightarrow> int \<Rightarrow> int option" where
  "retryAfter parseTime header now =
     (let value = trim_space header in
      if value = [] then None
      else (case ParseInt64 value of
              Some secs \<Rightarrow> if secs \<le> 0 then None else Some (wrap64 (secs * 10 ^ 9))
            | None \<Rightarrow> (case parseTime value of Some t \<Rightarrow> if t > now then Some (sat64 (t - now)) else None | None \<Rightarrow> None)))"

definition markExhausted :: "'e enforcer_env \<Rightarrow> proxy_request \<Rightarrow> string \<Rightarrow> string \<Rightarrow> subscription_state \<Rightarrow> subscription_state" where
  "markExhausted env req key header sub =
     (case resolveTarget env req of
        None \<Rightarrow> sub
      | Some (m, p) \<Rightarrow>
          (case (if pv_subscription p then pv_plan p else None) of
             None \<Rightarrow> sub
           | Some plan \<Rightarrow>
               (let now = ev_now env;
                    cd = (case retryAfter (ev_parseTime env) header now of Some d \<Rightarrow> d | None \<Rightarrow> defaultExhaustionCooldown);
                    perModel = HasPerModelConstraint (Some plan)
                in fold (\<lambda>c st. if perModel \<and> \<not> PerModel c then st
                                else MarkExhausted now ((rq_orgID req, pv_id p), key, pc_label c,
                                       if perModel then pm_realModel m else '''') (now + cd) st)
                     (sp_constraints plan) sub)))"

definition isCapacityErrorObject :: "(string \<times> json) list \<Rightarrow> bool" where
  "isCapacityErrorObject obj =
     (case map_of obj ''error'' of
        Some (JObject err) \<Rightarrow> (case map_of err ''type'' of Some (JString t) \<Rightarrow> t = ''server_error'' | _ \<Rightarrow> False)
      | _ \<Rightarrow> False)"

definition isUpstreamCapacityError :: "(string \<Rightarrow> (string \<times> json) list option) \<Rightarrow> response_body \<Rightarrow> bool" where
  "isUpstreamCapacityError unmarshal body =
     (case body of
        BodyMap obj \<Rightarrow> isCapacityErrorObject obj
      | BodyText t \<Rightarrow> (case unmarshal t of Some obj \<Rightarrow> isCapacityErrorObject obj | None \<Rightarrow> False)
      | BodyOther \<Rightarrow> False)"

definition isOwnResponse :: "response_body \<Rightarrow> bool" where
  "isOwnResponse body =
     (case body of
        BodyMap obj \<Rightarrow>
          (case map_of obj ''error'' of
             Some (JObject err) \<Rightarrow>
               (let code = (case map_of err ''code'' of Some (JString c) \<Rightarrow> c | _ \<Rightarrow> '''') in has_prefix code ''plan_'' \<or> code = ''quota_exceeded'')
           | _ \<Rightarrow> False)
      | _ \<Rightarrow> False)"

definition PostResponse :: "'e enforcer_env \<Rightarrow> proxy_request \<Rightarrow> (int \<times> response_body \<times> string) option \<Rightarrow> plan_meta \<Rightarrow> enforcer_state
    \<Rightarrow> enforcer_state \<times> plan_meta" where
  "PostResponse env req res meta es =
     (case releaseReservations meta es of (es', meta') \<Rightarrow>
        (case res of
           Some (status, body, header) \<Rightarrow>
             if status = 429 \<and> \<not> isOwnResponse body \<and> \<not> isUpstreamCapacityError (ev_unmarshal env) body
             then (es'\<lparr>es_sub := markExhausted env req (mt_used meta) header (es_sub es')\<rparr>, meta') else (es', meta')
         | None \<Rightarrow> (es', meta')))"

definition planExhaustion :: "'e enforcer_env \<Rightarrow> upstream_error \<Rightarrow> string option" where
  "planExhaustion env err =
     (case err of
        HTTPError status body header \<Rightarrow> if status = 429 \<and> \<not> isUpstreamCapacityError (ev_unmarshal env) body then Some header else None
      | OtherError _ \<Rightarrow> None)"

definition OnError :: "'e enforcer_env \<Rightarrow> proxy_request \<Rightarrow> upstream_error \<Rightarrow> plan_meta \<Rightarrow> enforcer_state
    \<Rightarrow> enforcer_state \<times> plan_meta" where
  "OnError env req err meta es =
     (case releaseReservations meta es of (es', meta') \<Rightarrow>
        (case planExhaustion env err of
           Some header \<Rightarrow> (es'\<lparr>es_sub := markExhausted env req (mt_used meta) header (es_sub es')\<rparr>, meta')
         | None \<Rightarrow> (es', meta')))"

section \<open>Moving a request between keys\<close>

text \<open>The handler of an exhausted key only has the metadata of the request.\<close>

definition MarkKeyExhausted :: "'e enforcer_env \<Rightarrow> proxy_request \<Rightarrow> string \<Rightarrow> string \<Rightarrow> subscription_state \<Rightarrow> subscription_state" where
  "MarkKeyExhausted env req key header sub = markExhausted env (req\<lparr>rq_model := [], rq_userID := []\<rparr>) key header sub"

text \<open>\<open>call key\<close> is the answer of the client of a key; the metadata carry the key last used.  The handler of exhausted
  keys is set, as the server wires it; the client also accepts none, and then marks no key.\<close>

fun try_keys :: "'e enforcer_env \<Rightarrow> proxy_request \<Rightarrow> (string \<Rightarrow> (upstream_error, 'r) result) \<Rightarrow> string list \<Rightarrow> plan_meta \<Rightarrow> subscription_state
    \<Rightarrow> subscription_state \<times> plan_meta \<times> (upstream_error, 'r) result option" where
  "try_keys env req call [] meta sub = (sub, meta, None)"
| "try_keys env req call (k # ks) meta sub =
     (let meta' = meta\<lparr>mt_used := k\<rparr> in
      case call k of
        Inr r \<Rightarrow> (sub, meta', Some (Inr r))
      | Inl err \<Rightarrow>
          (case planExhaustion env err of
             None \<Rightarrow> (sub, meta', Some (Inl err))
           | Some header \<Rightarrow>
               if ks = [] then (sub, meta', Some (Inl err))
               else try_keys env req call ks meta' (MarkKeyExhausted env req k header sub)))"

end
