(* ===== verification/Subscription_Enforcer_Safety.thy ===== *)
theory Subscription_Enforcer_Safety
  imports Subscription_Enforcer
begin

text \<open>
  What the subscription enforcer guarantees: no slot of a concurrency limit leaks, whatever the answer; the keys a
  pooled request may go through all have room; a cooldown only touches the key it came from; and a request only moves
  to another key when its own is exhausted.
\<close>

section \<open>Slots\<close>

fun org_slots :: "plan_reservation \<Rightarrow> scope_key \<Rightarrow> int" where
  "org_slots NoopReservation k = 0"
| "org_slots (ConcurrencyReservation orgID providerID) k = of_bool (k = (orgID, providerID))"
| "org_slots (UserConcurrencyReservation _ _ _) k = 0"
| "org_slots (CompositeReservation rs) k = sum_list (map (\<lambda>r. org_slots r k) rs)"

fun member_slots :: "plan_reservation \<Rightarrow> user_scope_key \<Rightarrow> int" where
  "member_slots NoopReservation k = 0"
| "member_slots (ConcurrencyReservation _ _) k = 0"
| "member_slots (UserConcurrencyReservation orgID providerID userID) k = of_bool (k = (orgID, providerID, userID))"
| "member_slots (CompositeReservation rs) k = sum_list (map (\<lambda>r. member_slots r k) rs)"

lemma org_slots_nonneg: "0 \<le> org_slots r k"
  by (induction r k rule: org_slots.induct) (auto intro!: sum_list_nonneg)

lemma member_slots_nonneg: "0 \<le> member_slots r k"
  by (induction r k rule: member_slots.induct) (auto intro!: sum_list_nonneg)

definition slots_of :: "plan_reservation list \<Rightarrow> scope_key \<Rightarrow> int" where
  "slots_of rs k = sum_list (map (\<lambda>r. org_slots r k) rs)"

definition member_slots_of :: "plan_reservation list \<Rightarrow> user_scope_key \<Rightarrow> int" where
  "member_slots_of rs k = sum_list (map (\<lambda>r. member_slots r k) rs)"

lemma slots_of_simps [simp]:
  "slots_of [] k = 0" "slots_of (r # rs) k = org_slots r k + slots_of rs k" "slots_of (rs @ rs') k = slots_of rs k + slots_of rs' k"
  "member_slots_of [] u = 0" "member_slots_of (r # rs) u = member_slots r u + member_slots_of rs u"
  "member_slots_of (rs @ rs') u = member_slots_of rs u + member_slots_of rs' u"
  by (simp_all add: slots_of_def member_slots_of_def)

lemma slots_of_nonneg: "0 \<le> slots_of rs k" "0 \<le> member_slots_of rs u"
  by (auto simp: slots_of_def member_slots_of_def org_slots_nonneg member_slots_nonneg intro!: sum_list_nonneg)

text \<open>The state holds the slots of a reservation: its counters are at least as high.\<close>

definition held :: "(scope_key \<Rightarrow> int) \<Rightarrow> (user_scope_key \<Rightarrow> int) \<Rightarrow> subscription_state \<Rightarrow> bool" where
  "held f g s = ((\<forall>k. f k \<le> st_inFlight s k) \<and> (\<forall>k. g k \<le> st_userInFlight s k))"

definition give_back :: "(scope_key \<Rightarrow> int) \<Rightarrow> (user_scope_key \<Rightarrow> int) \<Rightarrow> subscription_state \<Rightarrow> subscription_state" where
  "give_back f g s = s\<lparr>st_inFlight := (\<lambda>k. st_inFlight s k - f k), st_userInFlight := (\<lambda>k. st_userInFlight s k - g k)\<rparr>"

lemma give_back_give_back:
  "give_back f g (give_back f' g' s) = give_back (\<lambda>k. f' k + f k) (\<lambda>k. g' k + g k) s"
  by (simp add: give_back_def algebra_simps)

lemma give_back_zero: "give_back (\<lambda>_. 0) (\<lambda>_. 0) s = s"
  by (simp add: give_back_def)

lemma fold_Release:
  assumes "\<And>r s. r \<in> set rs \<Longrightarrow> held (org_slots r) (member_slots r) s \<Longrightarrow> Release r s = give_back (org_slots r) (member_slots r) s"
    and "held (slots_of rs) (member_slots_of rs) s"
  shows "fold Release rs s = give_back (slots_of rs) (member_slots_of rs) s"
  using assms
proof (induction rs arbitrary: s)
  case Nil
  then show ?case by (simp add: give_back_def)
next
  case (Cons r rs)
  have "held (org_slots r) (member_slots r) s"
    using Cons.prems(2) slots_of_nonneg [of rs] unfolding held_def by (simp, smt (verit))
  then have step: "Release r s = give_back (org_slots r) (member_slots r) s" using Cons.prems(1) by simp
  have "held (slots_of rs) (member_slots_of rs) (give_back (org_slots r) (member_slots r) s)"
    using Cons.prems(2) by (simp add: held_def give_back_def algebra_simps)
  then have "fold Release rs (Release r s) = give_back (slots_of rs) (member_slots_of rs) (give_back (org_slots r) (member_slots r) s)"
    unfolding step using Cons.IH Cons.prems(1) by simp
  then show ?case by (simp add: give_back_give_back)
qed

lemma Release_gives_back: "held (org_slots r) (member_slots r) s \<Longrightarrow> Release r s = give_back (org_slots r) (member_slots r) s"
proof (induction r s rule: Release.induct)
  case (4 rs s)
  have eq: "org_slots (CompositeReservation rs) = slots_of rs" "member_slots (CompositeReservation rs) = member_slots_of rs"
    by (simp_all add: fun_eq_iff slots_of_def member_slots_of_def)
  have "fold Release rs s = give_back (slots_of rs) (member_slots_of rs) s"
    using 4 unfolding eq by (intro fold_Release) auto
  then show ?case by (simp add: eq)
next
  case (2 orgID providerID s)
  then have "1 \<le> st_inFlight s (orgID, providerID)" unfolding held_def by (metis (full_types) of_bool_eq(2) org_slots.simps(2))
  then show ?case by (simp add: DecrementInFlight_exact give_back_def fun_eq_iff fun_upd_def)
next
  case (3 orgID providerID userID s)
  then have "1 \<le> st_userInFlight s (orgID, providerID, userID)"
    unfolding held_def by (metis (full_types) of_bool_eq(2) member_slots.simps(3))
  then show ?case by (simp add: DecrementUserInFlight_exact give_back_def fun_eq_iff fun_upd_def)
qed (simp add: give_back_def)

lemma releaseAll_gives_back:
  "held (slots_of rs) (member_slots_of rs) s \<Longrightarrow> releaseAll rs s = give_back (slots_of rs) (member_slots_of rs) s"
  unfolding releaseAll_def by (rule fold_Release) (auto intro: Release_gives_back)

section \<open>Acquiring leaves exactly its reservations\<close>

definition counters :: "subscription_state \<Rightarrow> (scope_key \<Rightarrow> int) \<times> (user_scope_key \<Rightarrow> int)" where
  "counters s = (st_inFlight s, st_userInFlight s)"

definition counters_below :: "int \<Rightarrow> subscription_state \<Rightarrow> bool" where
  "counters_below n s = ((\<forall>k. 0 \<le> st_inFlight s k \<and> st_inFlight s k < n) \<and> (\<forall>k. 0 \<le> st_userInFlight s k \<and> st_userInFlight s k < n))"

lemma counters_belowD:
  "counters_below n s \<Longrightarrow> 0 \<le> st_inFlight s k" "counters_below n s \<Longrightarrow> st_inFlight s k < n"
  "counters_below n s \<Longrightarrow> 0 \<le> st_userInFlight s u" "counters_below n s \<Longrightarrow> st_userInFlight s u < n"
  by (cases k; cases u; simp add: counters_below_def)+

lemma counters_below_mono: "counters_below n s \<Longrightarrow> n \<le> m \<Longrightarrow> counters_below m s"
  unfolding counters_below_def by (meson order.strict_trans2)

text \<open>A state after reservations have been taken from another one.\<close>

definition took :: "plan_reservation list \<Rightarrow> subscription_state \<Rightarrow> subscription_state \<Rightarrow> bool" where
  "took rs s s' = ((\<forall>k. st_inFlight s' k = st_inFlight s k + slots_of rs k)
     \<and> (\<forall>k. st_userInFlight s' k = st_userInFlight s k + member_slots_of rs k))"

lemma took_nothing: "took [] s s' \<longleftrightarrow> counters s' = counters s"
  by (auto simp: took_def counters_def fun_eq_iff)

lemma took_trans: "took rs s s1 \<Longrightarrow> took rs' s1 s2 \<Longrightarrow> took (rs @ rs') s s2"
  by (simp add: took_def)

lemma took_release:
  assumes "took rs s s'" "counters_below n s"
  shows "counters (releaseAll rs s') = counters s"
proof -
  have "held (slots_of rs) (member_slots_of rs) s'" using assms by (auto simp: held_def took_def counters_below_def)
  then show ?thesis using assms(1)
    by (simp add: releaseAll_gives_back give_back_def counters_def took_def fun_eq_iff)
qed

lemma concurrency_Acquire_took:
  assumes "counters_below n s" "n < 2 ^ 63"
  shows "case concurrency_Acquire orgID providerID userID members c s of
    (s', Inl _) \<Rightarrow> took [] s s' | (s', Inr r) \<Rightarrow> took [r] s s' \<and> counters_below (n + 1) s'"
proof -
  note b = counters_belowD [OF assms(1)]
  have "st_inFlight s (orgID, providerID) < 2 ^ 63 - 1" "st_userInFlight s (orgID, providerID, userID) < 2 ^ 63 - 1"
    using b(2) [of "(orgID, providerID)"] b(4) [of "(orgID, providerID, userID)"] assms(2) by linarith+
  then have step: "concurrency_Acquire orgID providerID userID members c s = (s', res) \<Longrightarrow>
      (case res of Inl _ \<Rightarrow> s' = s
       | Inr r \<Rightarrow> took [r] s s' \<and> (\<forall>k. slots_of [r] k \<le> 1) \<and> (\<forall>k. member_slots_of [r] k \<le> 1))" for s' res
    using b(1) [of "(orgID, providerID)"] b(3) [of "(orgID, providerID, userID)"]
    by (auto simp: concurrency_Acquire_def counter_exact Let_def took_def split: option.splits if_splits)
  obtain s' res where eq: "concurrency_Acquire orgID providerID userID members c s = (s', res)" by fastforce
  have "counters_below (n + 1) s'" if "took [r] s s'" "\<forall>k. slots_of [r] k \<le> 1" "\<forall>k. member_slots_of [r] k \<le> 1" for r
    unfolding counters_below_def
  proof (intro conjI allI)
    have t: "st_inFlight s' k = st_inFlight s k + slots_of [r] k" "st_userInFlight s' u = st_userInFlight s u + member_slots_of [r] u" for k u
      using that(1) by (simp_all only: took_def)
    fix k
    show "0 \<le> st_inFlight s' k" "st_inFlight s' k < n + 1"
      using t(1) [of k] b(1,2) [of k] slots_of_nonneg(1) [of "[r]" k] spec [OF that(2), of k] by linarith+
    fix u
    show "0 \<le> st_userInFlight s' u" "st_userInFlight s' u < n + 1"
      using t(2) [of u] b(3,4) [of u] slots_of_nonneg(2) [of "[r]" u] spec [OF that(3), of u] by linarith+
  qed
  then show ?thesis using step [OF eq] by (cases res) (auto simp: eq took_nothing simp del: split_paired_All)
qed

lemma acquire_one_took:
  assumes "acquire_one env s c es = (es', res)" "counters_below n (es_sub es)" "n < 2 ^ 63"
  shows "case res of Inr (Inr (Some r)) \<Rightarrow> took [r] (es_sub es) (es_sub es') \<and> counters_below (n + 1) (es_sub es')
    | _ \<Rightarrow> took [] (es_sub es) (es_sub es')"
proof -
  have more: "counters_below (n + 1) (es_sub es)" using assms(2) by (rule counters_below_mono) simp
  show ?thesis
    using assms(1) concurrency_Acquire_took [OF assms(2,3), of "ps_orgID s" "ps_providerID s" "ps_userID s" "ps_memberCount s"
        "if PerModel c then ForModel c (ps_upstreamModel s) else c"] more
    by (auto simp: acquire_one_def Let_def took_def split: if_splits constraint_kind.splits prod.splits sum.splits option.splits)
qed

lemma acquire_all_took:
  assumes "acquire_all env s cs rs es = (es', res)" "took rs s0 (es_sub es)" "counters_below m s0"
    and "counters_below n (es_sub es)" "n + int (length cs) < 2 ^ 63"
  shows "case res of Inr (Inr rs') \<Rightarrow> took rs' s0 (es_sub es') | _ \<Rightarrow> counters (es_sub es') = counters s0"
  using assms
proof (induction cs arbitrary: rs es n)
  case (Cons c cs)
  obtain es1 r1 where one: "acquire_one env s c es = (es1, r1)" by fastforce
  have n: "n < 2 ^ 63" using Cons.prems(5) by simp
  note eff = acquire_one_took [OF one Cons.prems(4) n]
  have none: "took rs s0 (es_sub es1)" if "took [] (es_sub es) (es_sub es1)"
    using took_trans [OF Cons.prems(2) that] by simp
  have undone: "counters (es_sub (release_in rs es1)) = counters s0" if "took [] (es_sub es) (es_sub es1)"
    using took_release [OF none [OF that] Cons.prems(3)] by (simp add: release_in_def)
  consider (failed) e where "r1 = Inl e" | (refused) d where "r1 = Inr (Inl d)" | (skipped) "r1 = Inr (Inr None)"
    | (reserved) r where "r1 = Inr (Inr (Some r))"
    by (metis sum.exhaust option.exhaust)
  then show ?case
  proof cases
    case skipped
    then have "counters_below n (es_sub es1)" using eff Cons.prems(4) by (simp add: took_def counters_below_def)
    then show ?thesis using skipped Cons.IH [of rs es1 n] Cons.prems none eff one by simp
  next
    case (reserved r)
    then have "took (rs @ [r]) s0 (es_sub es1)" "counters_below (n + 1) (es_sub es1)"
      using eff took_trans [OF Cons.prems(2), of "[r]"] by simp_all
    then show ?thesis using reserved Cons.IH [of "rs @ [r]" es1 "n + 1"] Cons.prems one by simp
  qed (use Cons.prems(1) one eff undone in auto)
qed auto

section \<open>Checks leave the counters alone\<close>

lemma exhaustedLocked_counters: "counters (fst (exhaustedLocked now k sub)) = counters sub"
  by (auto simp: exhaustedLocked_def counters_def split: option.splits)

lemma check_cooldowns_counters: "counters (fst (check_cooldowns now s cs sub)) = counters sub"
proof (induction cs arbitrary: sub)
  case (Cons c cs)
  show ?case
    using Cons [of sub] Cons exhaustedLocked_counters [of now _ sub]
    by (auto simp: IsKeyExhausted_def split: prod.splits bool.splits) (metis fst_conv)+
qed simp

lemma key_step_counters: "counters (fst (key_step now s p i c usage key ss)) = counters (fst ss)"
proof -
  obtain sub states where ss: "ss = (sub, states)" by fastforce
  obtain sub' b where e: "IsKeyExhausted now (ps_orgID s) (ps_providerID s) key (pc_label c) (cooldownModel c (ps_upstreamModel s)) sub = (sub', b)"
    by fastforce
  then have "counters sub' = counters sub" unfolding IsKeyExhausted_def by (metis exhaustedLocked_counters fst_conv)
  then show ?thesis by (cases b; auto simp: key_step_def ss e Let_def split: option.splits)
qed

lemma fold_key_step_counters: "counters (fst (fold (key_step now s p i c usage) keys ss)) = counters (fst ss)"
  by (induction keys arbitrary: ss) (simp_all add: key_step_counters)

lemma key_states_from_counters: "counters (fst (key_states_from env s p keys i cs (sub, states))) = counters sub"
proof (induction cs arbitrary: i sub states)
  case (Cons c cs)
  have step: "counters (fst (key_states_from env s p keys (Suc i) cs (fold (key_step (ev_now env) s p i c usage) keys (sub, states)))) = counters sub" for usage
    using Cons [of "Suc i"] fold_key_step_counters [of "ev_now env" s p i c usage keys "(sub, states)"] by (metis fst_conv prod.collapse)
  show ?case using Cons step by (auto split: sum.splits if_splits)
qed simp

lemma pickKey_counters: "counters (fst (pickKey env s p keys sub)) = counters sub"
  using key_states_from_counters [of env s p keys 0 _ sub]
  by (auto simp: pickKey_def keyStates_def Let_def split: prod.splits sum.splits option.splits) (metis fst_conv)+

section \<open>No slot leaks\<close>

lemma admit_plan_counters:
  assumes "admit_plan env p s shared meta es = (es', meta', answer)" "mt_reservations meta = []"
    and "counters_below n (es_sub es)" "n + int (length (sp_constraints shared)) < 2 ^ 63"
  shows "counters (es_sub (fst (releaseReservations meta' es'))) = counters (es_sub es)"
proof -
  obtain es1 r1 where one: "acquire_all env s (sp_constraints shared) [] es = (es1, r1)" by fastforce
  have start: "took [] (es_sub es) (es_sub es)" by (simp add: took_nothing)
  note eff = acquire_all_took [OF one start assms(3,3,4)]
  obtain sub r2 where pick: "pickKey env s p (ProviderKeyIDs p) (es_sub es1) = (sub, r2)" by fastforce
  have same: "took rs (es_sub es) sub" if "took rs (es_sub es) (es_sub es1)" for rs
    using that pickKey_counters [of env s p "ProviderKeyIDs p" "es_sub es1"] by (simp add: pick took_def counters_def)
  have release: "counters (releaseAll rs x) = counters (es_sub es)" if "took rs (es_sub es) x" for rs x
    using took_release [OF that assms(3)] .
  show ?thesis
  proof (cases "\<exists>rs. r1 = Inr (Inr rs)")
    case True
    then obtain rs where rs: "r1 = Inr (Inr rs)" ..
    then have "took rs (es_sub es) (es_sub es1)" using eff by simp
    then show ?thesis using assms(1,2) one rs pick release [of rs] same [of rs]
      by (auto simp: admit_plan_def releaseReservations_def release_in_def releaseAll_def split: if_splits sum.splits)
  next
    case False
    then have "counters (es_sub es1) = counters (es_sub es)" using eff by (auto split: sum.splits)
    then show ?thesis using assms(1,2) one False
      by (auto simp: admit_plan_def releaseReservations_def release_in_def releaseAll_def split: sum.splits)
  qed
qed

lemma PooledPlan_length:
  "pv_plan p = Some plan \<Longrightarrow> length (sp_constraints (the (PooledPlan p))) = length (sp_constraints plan)"
  by (simp add: PooledPlan_def Let_def)

definition plans_bounded :: "'e enforcer_env \<Rightarrow> proxy_request \<Rightarrow> bool" where
  "plans_bounded env req =
     (case resolveTarget env req of
        Some (m, p) \<Rightarrow> (case pv_plan p of Some plan \<Rightarrow> int (length (sp_constraints plan)) < 2 ^ 31 | None \<Rightarrow> True)
      | None \<Rightarrow> True)"

text \<open>
  C6.  No slot of a concurrency limit leaks: once the reservations left in the metadata are released, after the
  response or the error, the counters of every provider and user are what they were before the request, and a request
  that was refused or failed leaves none behind.
\<close>

theorem SubscriptionPreRequest_no_leak:
  assumes "SubscriptionPreRequest env req meta es = (es', meta', answer)"
    and "mt_reservations meta = []" "counters_below (2 ^ 62) (es_sub es)" "plans_bounded env req"
  shows "counters (es_sub (fst (releaseReservations meta' es'))) = counters (es_sub es)
    \<and> (answer \<noteq> Inr LetThrough \<longrightarrow> mt_reservations meta' = [])"
proof -
  have none: "counters (es_sub (fst (releaseReservations meta x))) = counters (es_sub x)" for x
    using assms(2) by (simp add: releaseReservations_def release_in_def releaseAll_def)
  have admit: "counters (es_sub (fst (releaseReservations meta' es'))) = counters (es_sub x)
      \<and> (answer \<noteq> Inr LetThrough \<longrightarrow> mt_reservations meta' = [])"
    if "admit_plan env p s (the (PooledPlan p)) meta x = (es', meta', answer)" "counters (es_sub x) = counters (es_sub es)"
      "pv_plan p = Some plan" "resolveTarget env req = Some (m, p)" for p s x plan m
  proof
    have "counters_below (2 ^ 62) (es_sub x)" using assms(3) that(2) by (simp add: counters_below_def counters_def)
    moreover have "2 ^ 62 + int (length (sp_constraints (the (PooledPlan p)))) < 2 ^ 63"
      using assms(4) that(3,4) by (simp add: plans_bounded_def PooledPlan_length)
    ultimately show "counters (es_sub (fst (releaseReservations meta' es'))) = counters (es_sub x)"
      using admit_plan_counters [OF that(1) assms(2)] by blast
    show "answer \<noteq> Inr LetThrough \<longrightarrow> mt_reservations meta' = []"
      using that(1) assms(2) by (auto simp: admit_plan_def split: prod.splits sum.splits if_splits)
  qed
  consider (passed) "es' = es" "meta' = meta" "answer = Inr LetThrough"
    | (planned) m p plan cache s where "resolveTarget env req = Some (m, p)" "pv_plan p = Some plan"
        "request_plan_scope env req m p plan (es_models es) = (cache, s)"
        "(if length (ProviderKeyIDs p) > 1 then admit_plan env p s (the (PooledPlan p)) meta (es\<lparr>es_models := cache\<rparr>)
          else (case check_cooldowns (ev_now env) s (sp_constraints plan) (es_sub es) of
                  (sub, Some d) \<Rightarrow> (es\<lparr>es_models := cache, es_sub := sub\<rparr>, meta, Inr (PlanExhausted d))
                | (sub, None) \<Rightarrow> admit_plan env p s (the (PooledPlan p)) meta (es\<lparr>es_models := cache, es_sub := sub\<rparr>)))
         = (es', meta', answer)"
    using assms(1) unfolding SubscriptionPreRequest_def Let_def
    by (auto split: if_splits option.splits prod.splits)
  then show ?thesis
  proof cases
    case passed
    then show ?thesis using none by simp
  next
    case planned
    obtain sub d where cd: "check_cooldowns (ev_now env) s (sp_constraints plan) (es_sub es) = (sub, d)" by fastforce
    have sub: "counters sub = counters (es_sub es)" using check_cooldowns_counters [of "ev_now env" s "sp_constraints plan" "es_sub es"] cd by simp
    show ?thesis
    proof (cases "length (ProviderKeyIDs p) > 1")
      case True
      then show ?thesis using planned admit [OF _ _ planned(2,1), of s "es\<lparr>es_models := cache\<rparr>"] by simp
    next
      case False
      then show ?thesis using planned(4) cd sub none assms(2)
          admit [OF _ _ planned(2,1), of s "es\<lparr>es_models := cache, es_sub := sub\<rparr>"]
        by (cases d) auto
    qed
  qed
qed

section \<open>The keys of a pool\<close>

text \<open>A key has room under one constraint: it is not in cooldown, and its own usage is below its own budgets.\<close>

definition below_budgets :: "plan_constraint \<Rightarrow> plan_totals \<Rightarrow> bool" where
  "below_budgets c t =
     ((case pc_tokenBudget c of Some b \<Rightarrow> pt_tokens t < b | None \<Rightarrow> True) \<and> (case pc_valueBudget c of Some b \<Rightarrow> pt_value t < b | None \<Rightarrow> True))"

definition usage_on :: "string \<Rightarrow> (string \<times> model_usage) list \<Rightarrow> model_usage" where
  "usage_on key u = (case map_of u key of Some m \<Rightarrow> m | None \<Rightarrow> [])"

definition key_cooldown :: "plan_scope \<Rightarrow> string \<Rightarrow> plan_constraint \<Rightarrow> constraint_key" where
  "key_cooldown s key c = ((ps_orgID s, ps_providerID s), key, pc_label c, cooldownModel c (ps_upstreamModel s))"

definition key_has_room :: "int \<Rightarrow> plan_scope \<Rightarrow> plan_provider \<Rightarrow> subscription_state \<Rightarrow> nat \<Rightarrow> plan_constraint
    \<Rightarrow> (string \<times> model_usage) list option \<Rightarrow> string \<Rightarrow> bool" where
  "key_has_room now s p sub i c usage key =
     (\<not> cooldown sub now (key_cooldown s key c)
      \<and> (case usage of
           Some u \<Rightarrow> below_budgets (ForModel (key_constraints p key ! i) (ps_upstreamModel s))
                      (keyUsage (ForModel (key_constraints p key ! i) (ps_upstreamModel s)) (ps_models s) (usage_on key u))
         | None \<Rightarrow> True))"

lemma budgetDenial_None: "budgetDenial s c name (pt_tokens t) (pt_value t) = None \<longleftrightarrow> below_budgets c t"
  by (auto simp: budgetDenial_def below_budgets_def Let_def split: option.splits)

lemma key_step_other: "k \<noteq> key \<Longrightarrow> snd (key_step now s p i c usage key ss) k = snd ss k"
  by (auto simp: key_step_def Let_def split: prod.splits option.splits bool.splits)

lemma key_step_sub: "fst (key_step now s p i c usage key ss) = fst ss \<or>
    fst (key_step now s p i c usage key ss) = fst (exhaustedLocked now (key_cooldown s key c) (fst ss))"
  by (auto simp: key_step_def Let_def IsKeyExhausted_def key_cooldown_def split: prod.splits option.splits bool.splits)

lemma key_step_same:
  assumes "ks_denial (snd (key_step now s p i c usage key ss) key) = None"
  shows "ks_denial (snd ss key) = None \<and> key_has_room now s p (fst ss) i c usage key"
proof -
  obtain sub states where ss: "ss = (sub, states)" by fastforce
  obtain sub' b where e: "IsKeyExhausted now (ps_orgID s) (ps_providerID s) key (pc_label c) (cooldownModel c (ps_upstreamModel s)) sub = (sub', b)"
    by fastforce
  have "b = cooldown sub now (key_cooldown s key c)"
    using exhaustedLocked_answer [of now "key_cooldown s key c" sub] e by (simp add: IsKeyExhausted_def key_cooldown_def)
  moreover have "below_budgets kc t" if "pc_tokenBudget kc = None" "pc_valueBudget kc = None" for kc t
    using that by (simp add: below_budgets_def)
  ultimately show ?thesis
    using assms e by (cases b; auto simp: key_step_def ss Let_def key_has_room_def usage_on_def budgetDenial_None split: option.splits if_splits)
qed

lemma cooldown_now_kept:
  assumes "cooldowns_ok (fst ss)"
  shows "cooldowns_ok (fst (key_step now s p i c usage key ss))"
    "cooldown (fst (key_step now s p i c usage key ss)) now k = cooldown (fst ss) now k"
  using key_step_sub [of now s p i c usage key ss] assms exhaustedLocked_ok [OF assms, of now "key_cooldown s key c"]
    exhaustedLocked_later [OF assms order.refl [of now], of "key_cooldown s key c" k]
  by (elim disjE; simp)+

lemma key_has_room_cong:
  "(\<And>k. cooldown sub' now k = cooldown sub now k) \<Longrightarrow> key_has_room now s p sub' i c usage key = key_has_room now s p sub i c usage key"
  by (simp add: key_has_room_def)

lemma fold_key_step:
  "cooldowns_ok (fst ss) \<Longrightarrow> cooldowns_ok (fst (fold (key_step now s p i c usage) keys ss))
    \<and> (\<forall>k. cooldown (fst (fold (key_step now s p i c usage) keys ss)) now k = cooldown (fst ss) now k)
    \<and> (ks_denial (snd (fold (key_step now s p i c usage) keys ss) key) = None \<longrightarrow>
        ks_denial (snd ss key) = None \<and> (key \<in> set keys \<longrightarrow> key_has_room now s p (fst ss) i c usage key))"
proof (induction keys arbitrary: ss)
  case (Cons x keys)
  let ?ss = "key_step now s p i c usage x ss"
  note kept = cooldown_now_kept [OF Cons.prems, of now s p i c usage x]
  note IH = Cons.IH [OF kept(1)]
  have "ks_denial (snd ss key) = None \<and> (key \<in> set (x # keys) \<longrightarrow> key_has_room now s p (fst ss) i c usage key)"
    if "ks_denial (snd ?ss key) = None" "key \<in> set keys \<longrightarrow> key_has_room now s p (fst ?ss) i c usage key"
    using that key_step_same [of now s p i c usage key ss] key_step_other [of key x now s p i c usage ss]
      key_has_room_cong [OF kept(2), of s p i c usage key]
    by (cases "x = key") auto
  then show ?case using IH kept(2) by (auto simp del: split_paired_All)
qed simp

text \<open>The usage a constraint is checked on for the keys of a pool, and the constraints that do not apply.\<close>

definition pool_usage :: "'e enforcer_env \<Rightarrow> plan_scope \<Rightarrow> plan_provider \<Rightarrow> string list \<Rightarrow> nat \<Rightarrow> plan_constraint
    \<Rightarrow> ('e, (string \<times> model_usage) list option) result" where
  "pool_usage env s p keys i c =
     (if pc_kind c = ConstraintRollingWindow \<and> pc_duration c > 0 \<and> anyBudget p keys i (ps_upstreamModel s)
      then rmap Some (keysUsage (ev_usage env) (ev_now env) s (ForModel c (ps_upstreamModel s))) else Inr None)"

definition key_open :: "'e enforcer_env \<Rightarrow> plan_scope \<Rightarrow> plan_provider \<Rightarrow> string list \<Rightarrow> subscription_state \<Rightarrow> nat \<Rightarrow> plan_constraint \<Rightarrow> string \<Rightarrow> bool" where
  "key_open env s p keys sub i c key =
     ((PerModel c \<and> ps_upstreamModel s = [])
      \<or> (case pool_usage env s p keys i c of Inr usage \<Rightarrow> key_has_room (ev_now env) s p sub i c usage key | Inl _ \<Rightarrow> False))"

lemma key_open_cong:
  "(\<And>k. cooldown sub' (ev_now env) k = cooldown sub (ev_now env) k) \<Longrightarrow> key_open env s p keys sub' i c key = key_open env s p keys sub i c key"
  using key_has_room_cong [of sub' "ev_now env" sub] by (auto simp: key_open_def split: sum.splits)

lemma key_states_from_open:
  assumes "key_states_from env s p keys i cs (sub, states) = (sub', Inr states')" "cooldowns_ok sub" "key \<in> set keys"
    and "ks_denial (states' key) = None"
  shows "ks_denial (states key) = None \<and> (\<forall>j < length cs. key_open env s p keys sub (i + j) (cs ! j) key)"
  using assms
proof (induction cs arbitrary: i sub states)
  case (Cons c cs)
  show ?case
  proof (cases "PerModel c \<and> ps_upstreamModel s = []")
    case True
    then have "ks_denial (states key) = None \<and> (\<forall>j < length cs. key_open env s p keys sub (Suc i + j) (cs ! j) key)"
      using Cons.prems by (intro Cons.IH) simp_all
    moreover have "key_open env s p keys sub i c key" using True by (simp add: key_open_def)
    ultimately show ?thesis by (auto simp: less_Suc_eq_0_disj)
  next
    case False
    then obtain usage where u: "pool_usage env s p keys i c = Inr usage"
      using Cons.prems(1) by (auto simp: pool_usage_def split: sum.splits if_splits)
    obtain sub1 states1 where f: "fold (key_step (ev_now env) s p i c usage) keys (sub, states) = (sub1, states1)" by fastforce
    note step = fold_key_step [of "(sub, states)" "ev_now env" s p i c usage keys key, unfolded f, simplified]
    have "key_states_from env s p keys (Suc i) cs (sub1, states1) = (sub', Inr states')"
      using Cons.prems(1) False u f by (auto simp: pool_usage_def split: sum.splits if_splits)
    then have rest: "ks_denial (states1 key) = None \<and> (\<forall>j < length cs. key_open env s p keys sub1 (Suc i + j) (cs ! j) key)"
      using Cons.prems step by (intro Cons.IH) simp_all
    have same: "cooldown sub1 (ev_now env) k = cooldown sub (ev_now env) k" for k
      using fold_key_step [of "(sub, states)" "ev_now env" s p i c usage keys key] Cons.prems(2) f by (metis fst_conv)
    have "key_open env s p keys sub i c key" using rest step Cons.prems(2,3) False u by (simp add: key_open_def)
    then show ?thesis using rest step Cons.prems(2) key_open_cong [OF same] by (auto simp: less_Suc_eq_0_disj)
  qed
qed simp

lemma mset_insert_by: "mset (insert_by le x xs) = add_mset x (mset xs)"
  by (induction xs) auto

lemma mset_stable_sort: "mset (stable_sort le xs) = mset xs"
  by (induction xs) (simp_all add: stable_sort_def mset_insert_by)

lemma mset_rank_keys: "mset (rank_keys userID states sticky keys) = mset keys"
proof -
  have "k \<in> set keys" if "k \<in> set (tl (stable_sort le keys))" for k le
  proof -
    have "k \<in> set (stable_sort le keys)" using that by (cases "stable_sort le keys") auto
    then show ?thesis by (metis mset_stable_sort set_mset_mset)
  qed
  then show ?thesis by (auto simp: rank_keys_def Let_def mset_stable_sort insert_DiffM split: option.splits)
qed

lemma pickKey_open:
  assumes "pickKey env s p keys sub = (sub', Inr (Inr ks))" "cooldowns_ok sub" "pv_plan p = Some plan"
  shows "ks \<noteq> [] \<and> set ks \<subseteq> set keys
    \<and> (\<forall>key \<in> set ks. \<forall>i < length (sp_constraints plan). key_open env s p keys sub i (sp_constraints plan ! i) key)"
proof -
  obtain states where st: "keyStates env s p keys sub = (sub', Inr states)"
    and ks: "\<exists>sticky. ks = rank_keys (ps_userID s) states sticky (filter (\<lambda>key. ks_denial (states key) = None) keys)"
    and ne: "filter (\<lambda>key. ks_denial (states key) = None) keys \<noteq> []"
    using assms(1) by (auto simp: pickKey_def Let_def split: prod.splits sum.splits if_splits)
  have m: "mset ks = mset (filter (\<lambda>key. ks_denial (states key) = None) keys)" using ks mset_rank_keys by blast
  then have set: "set ks = {key \<in> set keys. ks_denial (states key) = None}" by (metis set_filter set_mset_mset)
  have "key_open env s p keys sub i (sp_constraints plan ! i) key" if "key \<in> set ks" "i < length (sp_constraints plan)" for key i
    using key_states_from_open [of env s p keys 0 "sp_constraints plan" sub "\<lambda>_. \<lparr>ks_fill = Fin 0, ks_denial = None\<rparr>" sub' states key]
      st that set assms(2,3) by (simp add: keyStates_def)
  then show ?thesis using m ne set by auto
qed

section \<open>Acquiring leaves the cooldowns alone\<close>

lemma Release_exhausted: "st_exhausted (Release r s) = st_exhausted s"
proof (induction r s rule: Release.induct)
  case (4 rs s)
  then have "st_exhausted (fold Release rs s) = st_exhausted s" by (induction rs arbitrary: s) auto
  then show ?case by simp
qed (simp_all add: DecrementInFlight_def DecrementUserInFlight_def Let_def)

lemma concurrency_Acquire_exhausted: "st_exhausted (fst (concurrency_Acquire orgID providerID userID members c s)) = st_exhausted s"
  by (simp add: concurrency_Acquire_def IncrementInFlight_def IncrementUserInFlight_def DecrementInFlight_def DecrementUserInFlight_def
      Let_def split: option.split)

lemma acquire_one_exhausted: "acquire_one env s c es = (es', res) \<Longrightarrow> st_exhausted (es_sub es') = st_exhausted (es_sub es)"
  using concurrency_Acquire_exhausted [of "ps_orgID s" "ps_providerID s" "ps_userID s" "ps_memberCount s"
      "if PerModel c then ForModel c (ps_upstreamModel s) else c" "es_sub es"]
  by (auto simp: acquire_one_def Let_def split: if_splits constraint_kind.splits prod.splits sum.splits option.splits)

lemma acquire_all_exhausted:
  "acquire_all env s cs rs es = (es', Inr (Inr rs')) \<Longrightarrow> st_exhausted (es_sub es') = st_exhausted (es_sub es)"
proof (induction cs arbitrary: rs es)
  case (Cons c cs)
  obtain es1 r1 where one: "acquire_one env s c es = (es1, r1)" by fastforce
  have "st_exhausted (es_sub es') = st_exhausted (es_sub es1)"
    using Cons one by (auto split: sum.splits option.splits)
  then show ?case using acquire_one_exhausted [OF one] by simp
qed simp

section \<open>What a request that goes through satisfies\<close>

text \<open>One constraint of the pooled plan, as it applies to the request, and what its evaluator has checked.\<close>

definition applied :: "plan_scope \<Rightarrow> plan_constraint \<Rightarrow> plan_constraint" where
  "applied s c = (if PerModel c then ForModel c (ps_upstreamModel s) else c)"

definition below_share :: "fair_share_result \<Rightarrow> bool" where
  "below_share r =
     ((case fres_tokenAllowance r of Some a \<Rightarrow> fres_userTokens r < a | None \<Rightarrow> True)
      \<and> (case fres_valueAllowance r of Some a \<Rightarrow> fres_userValue r < a | None \<Rightarrow> True))"

text \<open>
  The consumption of the user in the window, as the store reports it: weighed on a shared constraint, and for the models
  and key windows of the constraint otherwise.
\<close>

definition user_usage :: "'e enforcer_env \<Rightarrow> plan_scope \<Rightarrow> plan_constraint \<Rightarrow> ('e, plan_totals) result" where
  "user_usage env s c =
     (let since = CurrentWindowStart c (ev_now env) in
      if Shared c then planUsage (ev_usage env) s c (usageScope s c) (ps_userID s) since
      else ur_sumUser (ut_reader (ev_usage env)) (ps_userID s) ((usageScope s c)\<lparr>us_byKey := False, us_keyID := []\<rparr>) since)"

text \<open>
  A window is respected when the usage of the plan is below its budgets and, for a user who shares it with other members,
  the usage of that user is below the share \<open>Resolve\<close> allots to it with the service in the state \<open>fs\<close>.
\<close>

definition window_respected :: "'e enforcer_env \<Rightarrow> plan_scope \<Rightarrow> plan_constraint \<Rightarrow> fair_share_service \<Rightarrow> bool" where
  "window_respected env s c fs =
     (\<exists>plan. planUsage (ev_usage env) s c (usageScope s c) [] (CurrentWindowStart c (ev_now env)) = Inr plan \<and> below_budgets c plan
        \<and> (ps_userID s \<noteq> [] \<and> ps_memberCount s > 0 \<and> \<not> ps_byKey s \<longrightarrow>
            (\<exists>user fs' share. user_usage env s c = Inr user \<and>
               Resolve (ut_reader (ev_usage env)) (ev_inTime env)
                 (share_request s c (ev_now env) plan (if Shared c then Some user else None)) fs = (fs', Inr share) \<and>
               fres_userTokens share = pt_tokens user \<and> fres_userValue share = pt_value user \<and> below_share share)))"

lemma share_denial_None: "share_denial name dur r = None \<longleftrightarrow> below_share r"
  by (auto simp: share_denial_def below_share_def split: option.splits)

lemma Resolve_user:
  assumes "Resolve r in_time req fs = (fs', Inr share)"
  shows "\<exists>user. read_usage (fr_userUsage req) (ur_sumUser r (fr_userID req) (request_scope req) (CurrentWindowStart (fr_constraint req) (fr_now req))) = Inr user
    \<and> fres_userTokens share = pt_tokens user \<and> fres_userValue share = pt_value user"
  using assms by (auto simp: Resolve_def Let_def share_result_def split: if_splits sum.splits prod.splits)

lemma rolling_Acquire_share:
  assumes "rolling_Acquire (ev_usage env) (ev_inTime env) (ev_now env) s c fs = (fs', Inr None)" "0 < pc_duration c"
    and "pc_tokenBudget c \<noteq> None \<or> pc_valueBudget c \<noteq> None" "ps_userID s \<noteq> []" "ps_memberCount s > 0" "\<not> ps_byKey s"
    and plan: "planUsage (ev_usage env) s c (usageScope s c) [] (CurrentWindowStart c (ev_now env)) = Inr plan"
  shows "\<exists>user fs' share. user_usage env s c = Inr user \<and>
    Resolve (ut_reader (ev_usage env)) (ev_inTime env) (share_request s c (ev_now env) plan (if Shared c then Some user else None)) fs = (fs', Inr share) \<and>
    fres_userTokens share = pt_tokens user \<and> fres_userValue share = pt_value user \<and> below_share share"
proof -
  let ?since = "CurrentWindowStart c (ev_now env)"
  obtain given fs' share where given: "(if Shared c then rmap Some (planUsage (ev_usage env) s c (usageScope s c) (ps_userID s) ?since) else Inr None) = Inr given"
      and r: "Resolve (ut_reader (ev_usage env)) (ev_inTime env) (share_request s c (ev_now env) plan given) fs = (fs', Inr share)"
      and ok: "share_denial (constraintName s c) (pc_duration c) share = None"
    using assms by (auto simp: rolling_Acquire_def Let_def split: sum.splits option.splits prod.splits)
  obtain user where user: "read_usage given (ur_sumUser (ut_reader (ev_usage env)) (ps_userID s) (request_scope (share_request s c (ev_now env) plan given)) ?since) = Inr user"
      "fres_userTokens share = pt_tokens user" "fres_userValue share = pt_value user"
    using Resolve_user [OF r] by (auto simp: share_request_def)
  have scope: "request_scope (share_request s c (ev_now env) plan given) = (usageScope s c)\<lparr>us_byKey := False, us_keyID := []\<rparr>"
    by (simp add: request_scope_def share_request_def usageScope_def)
  have "given = (if Shared c then Some user else None) \<and> user_usage env s c = Inr user"
    using given user(1) unfolding scope
    by (auto simp: user_usage_def read_usage_def result_simps Let_def split: if_splits option.splits sum.splits)
  then show ?thesis using r ok user(2,3) by (auto simp: share_denial_None)
qed

lemma rolling_Acquire_respects:
  assumes "rolling_Acquire (ev_usage env) (ev_inTime env) (ev_now env) s c fs = (fs', Inr None)" "0 < pc_duration c"
    and "pc_tokenBudget c \<noteq> None \<or> pc_valueBudget c \<noteq> None"
  shows "window_respected env s c fs"
proof -
  obtain plan where plan: "planUsage (ev_usage env) s c (usageScope s c) [] (CurrentWindowStart c (ev_now env)) = Inr plan"
    "below_budgets c plan"
    using assms by (auto simp: rolling_Acquire_def Let_def budgetDenial_None split: sum.splits option.splits)
  then show ?thesis unfolding window_respected_def using rolling_Acquire_share [OF assms(1,2,3) _ _ _ plan(1)] by blast
qed

text \<open>The state of the service when a constraint is evaluated: what the constraints before it leave.\<close>

definition share_state :: "'e enforcer_env \<Rightarrow> plan_scope \<Rightarrow> plan_constraint list \<Rightarrow> plan_constraint \<Rightarrow> enforcer_state \<Rightarrow> fair_share_service" where
  "share_state env s cs c es = es_share (fst (acquire_all env s (takeWhile (\<lambda>x. x \<noteq> c) cs) [] es))"

lemma acquire_all_upto:
  assumes "acquire_all env s cs rs es = (es', Inr (Inr rs'))" "c \<in> set cs"
  shows "\<exists>es2 r. acquire_one env s c (fst (acquire_all env s (takeWhile (\<lambda>x. x \<noteq> c) cs) rs es)) = (es2, Inr (Inr r))"
  using assms
proof (induction cs arbitrary: rs es)
  case (Cons x cs)
  obtain es1 r1 where one: "acquire_one env s x es = (es1, Inr (Inr r1))"
    using Cons.prems(1) by (auto split: prod.splits sum.splits)
  show ?case
  proof (cases "x = c")
    case False
    then show ?thesis using Cons one by (auto split: option.splits)
  qed (use one in simp)
qed simp

lemma acquire_all_respects:
  assumes "acquire_all env s cs [] es = (es', Inr (Inr rs'))" "c \<in> set cs" "\<not> (PerModel c \<and> ps_upstreamModel s = [])"
    and "pc_kind c = ConstraintRollingWindow" "0 < pc_duration c"
    and "pc_tokenBudget (applied s c) \<noteq> None \<or> pc_valueBudget (applied s c) \<noteq> None"
  shows "window_respected env s (applied s c) (share_state env s cs c es)"
proof -
  let ?es = "fst (acquire_all env s (takeWhile (\<lambda>x. x \<noteq> c) cs) [] es)"
  obtain es2 r where one: "acquire_one env s c ?es = (es2, Inr (Inr r))" using acquire_all_upto [OF assms(1,2)] by blast
  have kind: "pc_kind (applied s c) = ConstraintRollingWindow" "0 < pc_duration (applied s c)"
    using assms(4,5) by (simp_all add: applied_def ForModel_def split: option.splits)
  obtain fs' where "rolling_Acquire (ev_usage env) (ev_inTime env) (ev_now env) s (applied s c) (es_share ?es) = (fs', Inr None)"
    using one assms(3) kind(1)
    by (auto simp: acquire_one_def Let_def applied_def [symmetric] split: if_splits prod.splits sum.splits option.splits)
  then show ?thesis using rolling_Acquire_respects kind(2) assms(6) unfolding share_state_def by blast
qed

lemma cooldown_cong: "st_exhausted s' = st_exhausted s \<Longrightarrow> cooldown s' now k = cooldown s now k"
  by (simp add: cooldown_def)

lemma admit_plan_LetThrough:
  assumes "admit_plan env p s shared meta es = (es', meta', Inr LetThrough)"
  obtains es1 rs where "acquire_all env s (sp_constraints shared) [] es = (es1, Inr (Inr rs))"
    "1 < length (ProviderKeyIDs p) \<Longrightarrow> \<exists>sub ks. pickKey env s p (ProviderKeyIDs p) (es_sub es1) = (sub, Inr (Inr ks))
       \<and> mt_key meta' = Some (hd ks) \<and> mt_fallbacks meta' = tl ks"
  using assms by (auto simp: admit_plan_def split: prod.splits sum.splits if_splits)

lemma PreRequest_pooled:
  assumes "rq_orgID req \<noteq> []" "resolveTarget env req = Some (m, p)" "pv_subscription p" "pv_plan p = Some plan" "sp_constraints plan \<noteq> []"
    and "request_plan_scope env req m p plan (es_models es) = (cache, s)" "1 < length (ProviderKeyIDs p)"
  shows "SubscriptionPreRequest env req meta es = admit_plan env p s (the (PooledPlan p)) meta (es\<lparr>es_models := cache\<rparr>)"
  using assms by (simp add: SubscriptionPreRequest_def)

text \<open>
  A request of a provider with several keys that goes through is given keys that all have room: the key chosen
  and every key it may fall back to belong to the provider, are not in cooldown under any constraint of the plan for
  the requested model, and have consumed less than each of their own budgets.
\<close>

theorem SubscriptionPreRequest_keys_open:
  assumes "SubscriptionPreRequest env req meta es = (es', meta', Inr LetThrough)" "cooldowns_ok (es_sub es)"
    and "rq_orgID req \<noteq> []" "resolveTarget env req = Some (m, p)" "pv_subscription p" "pv_plan p = Some plan" "sp_constraints plan \<noteq> []"
    and "request_plan_scope env req m p plan (es_models es) = (cache, s)" "1 < length (ProviderKeyIDs p)"
  shows "\<exists>k. mt_key meta' = Some k
    \<and> (\<forall>key \<in> set (k # mt_fallbacks meta'). key \<in> set (ProviderKeyIDs p)
        \<and> (\<forall>i < length (sp_constraints plan). key_open env s p (ProviderKeyIDs p) (es_sub es) i (sp_constraints plan ! i) key))"
proof -
  have "admit_plan env p s (the (PooledPlan p)) meta (es\<lparr>es_models := cache\<rparr>) = (es', meta', Inr LetThrough)"
    using PreRequest_pooled [OF assms(3-9)] assms(1) by simp
  then obtain es1 rs sub ks where a: "acquire_all env s (sp_constraints (the (PooledPlan p))) [] (es\<lparr>es_models := cache\<rparr>) = (es1, Inr (Inr rs))"
    and k: "pickKey env s p (ProviderKeyIDs p) (es_sub es1) = (sub, Inr (Inr ks))" "mt_key meta' = Some (hd ks)" "mt_fallbacks meta' = tl ks"
    using admit_plan_LetThrough assms(9) by metis
  have ex: "st_exhausted (es_sub es1) = st_exhausted (es_sub es)" using acquire_all_exhausted [OF a] by simp
  then have "cooldowns_ok (es_sub es1)" using assms(2) by (simp add: cooldowns_ok_def)
  note keys = pickKey_open [OF k(1) this assms(6)]
  then obtain k0 ks0 where "ks = k0 # ks0" by (cases ks) auto
  moreover have "key_open env s p (ProviderKeyIDs p) (es_sub es1) i c key = key_open env s p (ProviderKeyIDs p) (es_sub es) i c key"
    for i c key by (rule key_open_cong) (rule cooldown_cong [OF ex])
  ultimately show ?thesis using k(2,3) keys by (simp add: subset_iff)
qed

text \<open>The state of the enforcer when the constraints are evaluated: a provider with a single key has its cooldowns read first.\<close>

definition admission_state :: "'e enforcer_env \<Rightarrow> plan_provider \<Rightarrow> subscription_plan \<Rightarrow> plan_scope \<Rightarrow> org_model_cache \<Rightarrow> enforcer_state \<Rightarrow> enforcer_state" where
  "admission_state env p plan s cache es =
     (if length (ProviderKeyIDs p) > 1 then es\<lparr>es_models := cache\<rparr>
      else es\<lparr>es_models := cache, es_sub := fst (check_cooldowns (ev_now env) s (sp_constraints plan) (es_sub es))\<rparr>)"

text \<open>
  C20.  A request of a subscription provider that goes through respects every rolling window of the pooled plan: the
  usage of the window, weighed on a shared constraint, is below each budget; and the usage the store reports for the user,
  when there is one to share with other members, is below the share allotted to it, in tokens and in value, with the count
  of active users the service has when the constraint is evaluated.
\<close>

theorem SubscriptionPreRequest_within_plan:
  assumes "SubscriptionPreRequest env req meta es = (es', meta', Inr LetThrough)"
    and "rq_orgID req \<noteq> []" "resolveTarget env req = Some (m, p)" "pv_subscription p" "pv_plan p = Some plan" "sp_constraints plan \<noteq> []"
    and "request_plan_scope env req m p plan (es_models es) = (cache, s)"
    and "c \<in> set (sp_constraints (the (PooledPlan p)))" "\<not> (PerModel c \<and> ps_upstreamModel s = [])"
    and "pc_kind c = ConstraintRollingWindow" "0 < pc_duration c"
    and "pc_tokenBudget (applied s c) \<noteq> None \<or> pc_valueBudget (applied s c) \<noteq> None"
  shows "window_respected env s (applied s c)
    (share_state env s (sp_constraints (the (PooledPlan p))) c (admission_state env p plan s cache es))"
proof -
  have "admit_plan env p s (the (PooledPlan p)) meta (admission_state env p plan s cache es) = (es', meta', Inr LetThrough)"
    using assms(1-7) by (auto simp: SubscriptionPreRequest_def admission_state_def Let_def split: if_splits prod.splits option.splits)
  then obtain es1 rs where "acquire_all env s (sp_constraints (the (PooledPlan p))) [] (admission_state env p plan s cache es) = (es1, Inr (Inr rs))"
    using admit_plan_LetThrough by metis
  then show ?thesis using acquire_all_respects assms(8-12) by blast
qed

section \<open>Cooldowns stay on their key\<close>

lemma MarkExhausted_other:
  assumes "cooldowns_ok sub" "now \<le> later"
  shows "cooldowns_ok (MarkExhausted now k until sub)"
    "k' \<noteq> k \<Longrightarrow> cooldown (MarkExhausted now k until sub) later k' = cooldown sub later k'"
  using assms sweep_put_ok [of "st_exhausted sub" id now k until] sweep_get_put [of "st_exhausted sub" now later id k' k until]
  by (simp_all add: cooldowns_ok_def MarkExhausted_def cooldown_def table_ok_def)

text \<open>The cooldowns an upstream 429 on a key may set.\<close>

definition touches :: "proxy_request \<Rightarrow> plan_model \<Rightarrow> plan_provider \<Rightarrow> subscription_plan \<Rightarrow> string \<Rightarrow> constraint_key \<Rightarrow> bool" where
  "touches req m p plan key k =
     (\<exists>c \<in> set (sp_constraints plan).
        (HasPerModelConstraint (Some plan) \<longrightarrow> PerModel c)
        \<and> k = ((rq_orgID req, pv_id p), key, pc_label c, if HasPerModelConstraint (Some plan) then pm_realModel m else []))"

text \<open>The length of the cooldown an exhausted key is given: that of the Retry-After header, or the default one.\<close>

definition cooldown_length :: "'e enforcer_env \<Rightarrow> string \<Rightarrow> int" where
  "cooldown_length env header =
     (case retryAfter (ev_parseTime env) header (ev_now env) of Some d \<Rightarrow> d | None \<Rightarrow> defaultExhaustionCooldown)"

lemma fold_marks:
  assumes "cooldowns_ok st" "now \<le> later"
  shows "cooldowns_ok (fold (\<lambda>c st. if skip c then st else MarkExhausted now (key_of c) until st) cs st) \<and>
    cooldown (fold (\<lambda>c st. if skip c then st else MarkExhausted now (key_of c) until st) cs st) later k =
      (if \<exists>c \<in> set cs. \<not> skip c \<and> k = key_of c then later \<le> until else cooldown st later k)"
  using assms(1)
proof (induction cs arbitrary: st)
  case (Cons c cs)
  show ?case
  proof (cases "skip c")
    case False
    note m = MarkExhausted_other [OF Cons.prems assms(2)]
    have "cooldown (MarkExhausted now (key_of c) until st) later (key_of c) \<longleftrightarrow> later \<le> until"
      using Cons.prems assms(2) sweep_get_put [of "st_exhausted st" now later id "key_of c" "key_of c" until]
      by (simp add: cooldown_def MarkExhausted_def cooldowns_ok_def table_ok_def)
    then show ?thesis using Cons.IH [OF m(1)] m(2) False by auto
  qed (use Cons in simp)
qed simp

text \<open>
  An upstream 429 only puts in cooldown the key it came from, for the constraints of the plan: when the plan meters
  models separately, only the per-model constraints, and only for the requested model.  These cooldowns last as long as
  the header asks and every other one is left as it was.
\<close>

theorem markExhausted_exact:
  assumes "resolveTarget env req = Some (m, p)" "pv_subscription p" "pv_plan p = Some plan" "cooldowns_ok sub" "ev_now env \<le> later"
  shows "cooldowns_ok (markExhausted env req key header sub) \<and> cooldown (markExhausted env req key header sub) later k =
    (if touches req m p plan key k then later \<le> ev_now env + cooldown_length env header else cooldown sub later k)"
  using assms fold_marks [OF assms(4,5), of "\<lambda>c. HasPerModelConstraint (Some plan) \<and> \<not> PerModel c"
      "\<lambda>c. ((rq_orgID req, pv_id p), key, pc_label c, if HasPerModelConstraint (Some plan) then pm_realModel m else [])"
      "ev_now env + cooldown_length env header" "sp_constraints plan" k]
  by (auto simp: markExhausted_def touches_def cooldown_length_def Let_def cong: if_cong)

section \<open>Failover\<close>

definition exhaustion_header :: "'e enforcer_env \<Rightarrow> (upstream_error, 'r) result \<Rightarrow> string option" where
  "exhaustion_header env r = (case r of Inl err \<Rightarrow> planExhaustion env err | Inr _ \<Rightarrow> None)"

lemma try_keys_split:
  assumes "try_keys env req call (k # ks) meta sub = (sub', meta', res)"
  shows "\<exists>left used rest. k # ks = left @ used # rest \<and> res = Some (call used) \<and> mt_used meta' = used
    \<and> (\<forall>x \<in> set left. exhaustion_header env (call x) \<noteq> None) \<and> (rest = [] \<or> exhaustion_header env (call used) = None)
    \<and> sub' = fold (\<lambda>x. MarkKeyExhausted env req x (the (exhaustion_header env (call x)))) left sub"
  using assms
proof (induction ks arbitrary: k meta sub)
  case Nil
  then show ?case by (intro exI [of _ "[]"] exI [of _ k]) (auto simp: Let_def split: sum.splits option.splits)
next
  case (Cons k' ks)
  show ?case
  proof (cases "exhaustion_header env (call k)")
    case None
    then show ?thesis using Cons.prems
      by (intro exI [of _ "[]"] exI [of _ k] exI [of _ "k' # ks"]) (auto simp: Let_def exhaustion_header_def split: sum.splits option.splits)
  next
    case (Some header)
    then have "try_keys env req call (k' # ks) (meta\<lparr>mt_used := k\<rparr>) (MarkKeyExhausted env req k header sub) = (sub', meta', res)"
      using Cons.prems by (auto simp: Let_def exhaustion_header_def split: sum.splits)
    from Cons.IH [OF this] obtain left used rest where ih: "k' # ks = left @ used # rest" "res = Some (call used)" "mt_used meta' = used"
      "\<forall>x \<in> set left. exhaustion_header env (call x) \<noteq> None" "rest = [] \<or> exhaustion_header env (call used) = None"
      "sub' = fold (\<lambda>x. MarkKeyExhausted env req x (the (exhaustion_header env (call x)))) left (MarkKeyExhausted env req k header sub)"
      by blast
    show ?thesis using ih Some by (intro exI [of _ "k # left"] exI [of _ used] exI [of _ rest]) simp
  qed
qed

text \<open>A cooldown is positive when the seconds of the header, if it holds seconds, fit in a duration.\<close>

definition bounded_header :: "string \<Rightarrow> bool" where
  "bounded_header h \<longleftrightarrow> (\<forall>secs. ParseInt64 (trim_space h) = Some secs \<longrightarrow> secs * 10 ^ 9 < 2 ^ 63)"

lemma cooldown_length_pos:
  assumes "bounded_header h"
  shows "0 < cooldown_length env h"
proof -
  have "0 < wrap64 (secs * 10 ^ 9)" if "ParseInt64 (trim_space h) = Some secs" "0 < secs" for secs
    using assms that by (simp add: bounded_header_def wrap64_def)
  moreover have "0 < sat64 (t - ev_now env)" if "ev_now env < t" for t using that by (simp add: sat64_def)
  ultimately show ?thesis
    by (auto simp: cooldown_length_def retryAfter_def defaultExhaustionCooldown_def Let_def split: option.splits)
qed

lemma fold_keys_marked:
  assumes "resolveTarget env (req\<lparr>rq_model := [], rq_userID := []\<rparr>) = Some (m, p)" "pv_subscription p" "pv_plan p = Some plan" "ev_now env \<le> later"
  shows "cooldowns_ok sub \<Longrightarrow> cooldown (fold (\<lambda>x. MarkKeyExhausted env req x (header x)) keys sub) later k =
    (if \<exists>x \<in> set keys. touches req m p plan x k then later \<le> ev_now env + cooldown_length env (header (fst (snd k))) else cooldown sub later k)"
proof (induction keys arbitrary: sub)
  case (Cons x keys)
  let ?sub = "MarkKeyExhausted env req x (header x) sub"
  have t: "touches (req\<lparr>rq_model := [], rq_userID := []\<rparr>) m p plan x k = touches req m p plan x k" for x k by (simp add: touches_def)
  have one: "cooldowns_ok ?sub" "cooldown ?sub later k =
      (if touches req m p plan x k then later \<le> ev_now env + cooldown_length env (header x) else cooldown sub later k)"
    using markExhausted_exact [OF assms(1-3) Cons.prems assms(4)] by (simp_all add: MarkKeyExhausted_def t)
  have "fst (snd k) = x" if "touches req m p plan x k" using that by (auto simp: touches_def)
  then show ?case using Cons.IH [OF one(1)] one(2) by auto
qed simp

text \<open>
  C34.  A request goes through the keys of its list in order and only moves on when a key answers that its plan is
  exhausted: its result is the answer of the first key that does not, or of the last key; that key is recorded as the one
  used.  When the metadata of the request name its model and the headers hold no more seconds than a duration can, the keys
  it moved away from are in cooldown from then on, for the constraints of the plan, for the time the header asks or the
  default one, and no other cooldown changes: the key that answered gets none.
\<close>

theorem try_keys_moves_on_exhaustion:
  assumes "try_keys env req call (k # ks) meta sub = (sub', meta', res)" "cooldowns_ok sub"
    and "resolveTarget env (req\<lparr>rq_model := [], rq_userID := []\<rparr>) = Some (m, p)" "pv_subscription p" "pv_plan p = Some plan"
    and "\<forall>x \<in> set (k # ks). \<forall>h. exhaustion_header env (call x) = Some h \<longrightarrow> bounded_header h"
  shows "\<exists>left used rest. k # ks = left @ used # rest \<and> res = Some (call used) \<and> mt_used meta' = used
    \<and> (\<forall>x \<in> set left. exhaustion_header env (call x) \<noteq> None) \<and> (rest = [] \<or> exhaustion_header env (call used) = None)
    \<and> (\<forall>x \<in> set left. \<forall>c \<in> set (sp_constraints plan). (HasPerModelConstraint (Some plan) \<longrightarrow> PerModel c) \<longrightarrow>
         cooldown sub' (ev_now env) ((rq_orgID req, pv_id p), x, pc_label c, if HasPerModelConstraint (Some plan) then pm_realModel m else []))
    \<and> (\<forall>key later. ev_now env \<le> later \<longrightarrow> cooldown sub' later key =
         (if \<exists>x \<in> set left. touches req m p plan x key
          then later \<le> ev_now env + cooldown_length env (the (exhaustion_header env (call (fst (snd key))))) else cooldown sub later key))"
proof -
  obtain left used rest where s: "k # ks = left @ used # rest" "res = Some (call used)" "mt_used meta' = used"
      "\<forall>x \<in> set left. exhaustion_header env (call x) \<noteq> None" "rest = [] \<or> exhaustion_header env (call used) = None"
      "sub' = fold (\<lambda>x. MarkKeyExhausted env req x (the (exhaustion_header env (call x)))) left sub"
    using try_keys_split [OF assms(1)] by blast
  have marked: "cooldown sub' later key =
      (if \<exists>x \<in> set left. touches req m p plan x key
       then later \<le> ev_now env + cooldown_length env (the (exhaustion_header env (call (fst (snd key))))) else cooldown sub later key)"
    if "ev_now env \<le> later" for later key
    unfolding s(6) using fold_keys_marked [OF assms(3-5) that assms(2)] .
  have "cooldown sub' (ev_now env) ((rq_orgID req, pv_id p), x, pc_label c, if HasPerModelConstraint (Some plan) then pm_realModel m else [])"
    if x: "x \<in> set left" "c \<in> set (sp_constraints plan)" "HasPerModelConstraint (Some plan) \<longrightarrow> PerModel c" for x c
  proof -
    let ?key = "((rq_orgID req, pv_id p), x, pc_label c, if HasPerModelConstraint (Some plan) then pm_realModel m else [])"
    have "touches req m p plan x ?key" using x(2,3) by (auto simp: touches_def)
    moreover obtain h where h: "exhaustion_header env (call x) = Some h" using s(4) x(1) by blast
    moreover have "x \<in> set (k # ks)" unfolding s(1) using x(1) by simp
    then have "0 < cooldown_length env h" using assms(6) h cooldown_length_pos by blast
    ultimately show ?thesis using marked [of "ev_now env" ?key] x(1) by auto
  qed
  then show ?thesis using s(1-5) marked by blast
qed

section \<open>A team subscription\<close>

text \<open>A provider with two keys, the second half used, and a request of no particular user.\<close>

definition team_env :: "string enforcer_env" where
  "team_env =
     \<lparr>ev_usage = \<lparr>ut_reader = \<lparr>ur_sumPlan = (\<lambda>_ _. Inr \<lparr>pt_tokens = 250, pt_value = 0\<rparr>), ur_sumUser = (\<lambda>_ _ _. Inr \<lparr>pt_tokens = 0, pt_value = 0\<rparr>),
                               ur_countActive = (\<lambda>_ _ _. Inr 1), ur_hasUsage = (\<lambda>_ _ _. Inr True)\<rparr>,
                  ut_byModel = (\<lambda>_ _ _. Inr []), ut_byKey = (\<lambda>_ _. Inr [(''k1'', [(''m'', \<lparr>pt_tokens = 250, pt_value = 0\<rparr>)])]),
                  ut_lastKey = (\<lambda>_ _. Inr None)\<rparr>,
      ev_modelByID = (\<lambda>_. Inr (Some \<lparr>pm_id = ''m'', pm_providerID = ''p'', pm_realModel = ''big''\<rparr>)),
      ev_modelByProxyName = (\<lambda>_ _. Inr None), ev_providerByID = (\<lambda>_. Inr team_provider), ev_listModels = (\<lambda>_. Inr []),
      ev_memberCount = (\<lambda>_. Inr 3), ev_inTime = True, ev_now = 1770000000 * 10 ^ 9, ev_parseTime = (\<lambda>_. None), ev_unmarshal = (\<lambda>_. None)\<rparr>"

definition team_request :: proxy_request where
  "team_request = \<lparr>rq_userID = [], rq_orgID = ''acme'', rq_appID = [], rq_teamID = [], rq_modelID = ''m'', rq_model = ''acme/big'', rq_exec = None\<rparr>"

definition no_meta :: plan_meta where
  "no_meta = \<lparr>mt_key = None, mt_fallbacks = [], mt_reservations = [], mt_used = []\<rparr>"

definition idle_state :: enforcer_state where
  "idle_state = \<lparr>es_sub = NewSubscriptionState, es_share = fresh_service, es_models = \<lparr>om_ttl = upstreamModelsCacheTTL, om_table = empty_table\<rparr>\<rparr>"

lemma f64_of_rat_half: "f64_of_rat (1 / 2) = Fin (1 / 2)"
proof -
  have "rnd (1 / 2) = 1 / 2" using rnd_exact [of 1 "- 1"] by (simp add: power_int_def)
  then show ?thesis by (simp add: f64_of_rat_def f64_overflow_def)
qed

lemma team_plan_scope:
  "request_plan_scope team_env team_request \<lparr>pm_id = ''m'', pm_providerID = ''p'', pm_realModel = ''big''\<rparr> team_provider
     \<lparr>sp_label = ''team'', sp_constraints = [anchored_constraint]\<rparr> (es_models idle_state) =
   (es_models idle_state, snd (request_plan_scope team_env team_request \<lparr>pm_id = ''m'', pm_providerID = ''p'', pm_realModel = ''big''\<rparr> team_provider
     \<lparr>sp_label = ''team'', sp_constraints = [anchored_constraint]\<rparr> (es_models idle_state)))"
  by (simp add: request_plan_scope_def HasPerModelConstraint_def HasSharedConstraint_def PerModel_def Shared_def anchored_constraint_def Let_def)

lemmas enforcer_eval = SubscriptionPreRequest_def resolveTarget_def request_plan_scope_def admit_plan_def acquire_one_def rolling_Acquire_def
  planUsage_def budgetDenial_def pickKey_def keyStates_def key_step_def anyBudget_def keysUsage_def rank_keys_def stable_sort_def key_le_def
  f64_before_def IsKeyExhausted_def exhaustedLocked_def keyUsage_def fillRatio_def member_count_def HasPerModelConstraint_def
  HasSharedConstraint_def PerModel_def Shared_def ForModel_def team_env_def team_request_def idle_state_def no_meta_def NewSubscriptionState_def
  empty_table_def f64_of_rat_half

lemma team_admitted:
  "snd (snd (SubscriptionPreRequest team_env team_request no_meta idle_state)) = Inr LetThrough"
  by (simp add: enforcer_eval team_provider_eval f64_of_int_exact f64_of_rat_exact KeyWindows_def Let_def)

lemma team_target:
  "resolveTarget team_env team_request = Some (\<lparr>pm_id = ''m'', pm_providerID = ''p'', pm_realModel = ''big''\<rparr>, team_provider)"
  by (simp add: resolveTarget_def team_env_def team_request_def)

lemma team_facts:
  "pv_plan team_provider = Some \<lparr>sp_label = ''team'', sp_constraints = [anchored_constraint]\<rparr>" "pv_subscription team_provider"
  "1 < length (ProviderKeyIDs team_provider)" "rq_orgID team_request \<noteq> []" "cooldowns_ok (es_sub idle_state)"
  by (simp_all add: team_provider_def ProviderKeyIDs_def team_request_def idle_state_def NewSubscriptionState_def cooldowns_ok_def
      table_ok_def empty_table_def)

lemma team_answer:
  "SubscriptionPreRequest team_env team_request no_meta idle_state =
     (fst (SubscriptionPreRequest team_env team_request no_meta idle_state),
      fst (snd (SubscriptionPreRequest team_env team_request no_meta idle_state)), Inr LetThrough)"
  using team_admitted by (metis prod.collapse)

definition team_scope :: plan_scope where
  "team_scope = snd (request_plan_scope team_env team_request \<lparr>pm_id = ''m'', pm_providerID = ''p'', pm_realModel = ''big''\<rparr> team_provider
     \<lparr>sp_label = ''team'', sp_constraints = [anchored_constraint]\<rparr> (es_models idle_state))"

theorem SubscriptionPreRequest_no_leak_witness:
  "counters (es_sub (fst (releaseReservations (fst (snd (SubscriptionPreRequest team_env team_request no_meta idle_state)))
      (fst (SubscriptionPreRequest team_env team_request no_meta idle_state))))) = counters (es_sub idle_state)"
proof (rule SubscriptionPreRequest_no_leak [THEN conjunct1, OF team_answer])
  show "counters_below (2 ^ 62) (es_sub idle_state)" by (simp add: counters_below_def idle_state_def NewSubscriptionState_def)
  show "plans_bounded team_env team_request" by (simp add: plans_bounded_def team_target team_facts(1))
qed (simp add: no_meta_def)

theorem SubscriptionPreRequest_keys_open_witness:
  "\<exists>k. mt_key (fst (snd (SubscriptionPreRequest team_env team_request no_meta idle_state))) = Some k
    \<and> (\<forall>key \<in> set (k # mt_fallbacks (fst (snd (SubscriptionPreRequest team_env team_request no_meta idle_state)))).
        key \<in> set (ProviderKeyIDs team_provider)
        \<and> (\<forall>i < length (sp_constraints \<lparr>sp_label = ''team'', sp_constraints = [anchored_constraint]\<rparr>).
             key_open team_env team_scope team_provider (ProviderKeyIDs team_provider) (es_sub idle_state) i
               (sp_constraints \<lparr>sp_label = ''team'', sp_constraints = [anchored_constraint]\<rparr> ! i) key))"
  by (rule SubscriptionPreRequest_keys_open [OF team_answer team_facts(5,4) team_target team_facts(2,1) _
        team_plan_scope [folded team_scope_def] team_facts(3)]) simp

text \<open>The same request for a member who has consumed nothing yet, sharing the plan with two others.\<close>

definition member_request :: proxy_request where
  "member_request = team_request\<lparr>rq_userID := ''ann''\<rparr>"

lemma ComputeFairShare_positive:
  assumes "fair_share_sane p" "fs_shareThreshold p \<noteq> NaN"
  shows "0 < fa_allowance (ComputeFairShare p)"
proof -
  have b: "0 < fs_budget p" "fs_budget p < 2 ^ 63" using assms(1) by (auto simp: fair_share_sane_def)
  then show ?thesis
    using nominal_range(1) [OF assms(1)] openAllowance_le [OF assms] happyHourAllowance_le [OF b, of "fs_active p"]
    by (simp add: ComputeFairShare_def Let_def)
qed

definition member_scope :: plan_scope where
  "member_scope = snd (request_plan_scope team_env member_request \<lparr>pm_id = ''m'', pm_providerID = ''p'', pm_realModel = ''big''\<rparr> team_provider
     \<lparr>sp_label = ''team'', sp_constraints = [anchored_constraint]\<rparr> (es_models idle_state))"

definition pooled_window :: plan_constraint where
  "pooled_window = sp_constraints (the (PooledPlan team_provider)) ! 0"

lemma pooled_plan: "sp_constraints (the (PooledPlan team_provider)) = [pooled_window]"
  by (simp add: pooled_window_def team_provider_eval)

lemma pooled_sel:
  "\<not> Shared pooled_window" "\<not> PerModel pooled_window" "pc_kind pooled_window = ConstraintRollingWindow" "pc_tokenBudget pooled_window = Some 1700"
  "pc_valueBudget pooled_window = None" "0 < pc_duration pooled_window" "pc_shareThreshold pooled_window = None" "pc_reserveRatio pooled_window = None"
  by (simp_all add: pooled_window_def team_provider_eval Shared_def PerModel_def)

lemma member_plan_scope:
  "request_plan_scope team_env member_request \<lparr>pm_id = ''m'', pm_providerID = ''p'', pm_realModel = ''big''\<rparr> team_provider
     \<lparr>sp_label = ''team'', sp_constraints = [anchored_constraint]\<rparr> (es_models idle_state) = (es_models idle_state, member_scope)"
  by (simp add: member_scope_def request_plan_scope_def HasPerModelConstraint_def HasSharedConstraint_def PerModel_def Shared_def anchored_constraint_def Let_def)

lemma member_shares: "ps_userID member_scope = ''ann''" "ps_memberCount member_scope = 3" "\<not> ps_byKey member_scope"
  by (simp_all add: member_scope_def request_plan_scope_def HasPerModelConstraint_def HasSharedConstraint_def PerModel_def Shared_def anchored_constraint_def Let_def
      member_request_def member_count_def team_env_def team_request_def)

lemma member_target:
  "resolveTarget team_env member_request = Some (\<lparr>pm_id = ''m'', pm_providerID = ''p'', pm_realModel = ''big''\<rparr>, team_provider)"
  "rq_orgID member_request \<noteq> []"
  by (simp_all add: resolveTarget_def team_env_def member_request_def team_request_def)

lemma share_open:
  assumes "pc_tokenBudget (fr_constraint req) = Some b" "pc_valueBudget (fr_constraint req) = None" "pc_shareThreshold (fr_constraint req) = None"
    and "fair_share_sane (resolved_params req active b (pt_tokens plan) 0)" "pt_tokens user = 0"
  shows "below_share (share_result req plan user active degraded)"
  using ComputeFairShare_positive [OF assms(4)] assms
  by (simp add: below_share_def share_result_def allocation_def Let_def resolved_params_def [symmetric] resolved_params_sel)

lemma member_share:
  assumes "Resolve (ut_reader (ev_usage team_env)) it (share_request member_scope pooled_window now \<lparr>pt_tokens = 250, pt_value = 0\<rparr> None) fs = (fs', r)"
  shows "\<exists>share. r = Inr share \<and> below_share share"
proof -
  let ?req = "share_request member_scope pooled_window now \<lparr>pt_tokens = 250, pt_value = 0\<rparr> None"
  have sel: "fr_constraint ?req = pooled_window" "fr_userID ?req = ''ann''" "fr_memberCount ?req = 3"
      "fr_planUsage ?req = Some \<lparr>pt_tokens = 250, pt_value = 0\<rparr>" "fr_userUsage ?req = None"
    by (simp_all add: share_request_def member_shares)
  have "ur_sumUser (ut_reader (ev_usage team_env)) u x since = Inr \<lparr>pt_tokens = 0, pt_value = 0\<rparr>" for u x since by (simp add: team_env_def)
  then obtain active degraded where r: "r = Inr (share_result ?req \<lparr>pt_tokens = 250, pt_value = 0\<rparr> \<lparr>pt_tokens = 0, pt_value = 0\<rparr> active degraded)"
    using assms sel by (auto simp: Resolve_def read_usage_def Let_def split: prod.splits)
  have "DefaultReserveRatio \<noteq> NaN" using f64_of_rat_abs [of "3 / 10" 1] by (simp add: DefaultReserveRatio_def)
  then have "fair_share_sane (resolved_params ?req active 1700 250 0)"
    using sel pooled_sel by (simp add: fair_share_sane_def resolved_params_def base_params_def FairShareParamsFor_def empty_params_def)
  then show ?thesis using r sel pooled_sel by (auto intro!: share_open)
qed

lemma member_rolling: "\<exists>fs'. rolling_Acquire (ev_usage team_env) (ev_inTime team_env) (ev_now team_env) member_scope pooled_window fs = (fs', Inr None)"
proof -
  let ?p = "\<lparr>pt_tokens = 250, pt_value = 0\<rparr>"
  obtain fs' r where r: "Resolve (ut_reader (ev_usage team_env)) (ev_inTime team_env) (share_request member_scope pooled_window (ev_now team_env) ?p None) fs = (fs', r)"
    by fastforce
  then obtain share where share: "r = Inr share" "below_share share" using member_share by blast
  have "planUsage (ev_usage team_env) member_scope pooled_window u [] since = Inr ?p" for u since
    using pooled_sel(1) by (simp add: planUsage_def team_env_def)
  moreover have "share_denial n d share = None" for n d using share(2) by (simp add: share_denial_None)
  ultimately show ?thesis using r share(1) member_shares pooled_sel by (simp add: rolling_Acquire_def Let_def budgetDenial_def)
qed

lemma member_keys: "\<exists>sub ks. pickKey team_env member_scope team_provider (ProviderKeyIDs team_provider) (es_sub idle_state) = (sub, Inr (Inr ks))"
  by (simp add: member_scope_def enforcer_eval member_request_def team_provider_eval f64_of_int_exact f64_of_rat_exact KeyWindows_def Let_def)

lemma member_admitted:
  "snd (snd (SubscriptionPreRequest team_env member_request no_meta idle_state)) = Inr LetThrough"
proof -
  obtain fs where "rolling_Acquire (ev_usage team_env) (ev_inTime team_env) (ev_now team_env) member_scope pooled_window (es_share idle_state) = (fs, Inr None)"
    using member_rolling by blast
  then have "acquire_all team_env member_scope (sp_constraints (the (PooledPlan team_provider))) [] idle_state
      = (idle_state\<lparr>es_share := fs\<rparr>, Inr (Inr [NoopReservation]))"
    using pooled_sel by (simp add: pooled_plan acquire_one_def)
  then have "snd (snd (admit_plan team_env team_provider member_scope (the (PooledPlan team_provider)) no_meta idle_state)) = Inr LetThrough"
    using member_keys by (auto simp: admit_plan_def)
  moreover have "idle_state\<lparr>es_models := es_models idle_state\<rparr> = idle_state" by simp
  ultimately show ?thesis using PreRequest_pooled [OF member_target(2,1) team_facts(2,1) _ member_plan_scope team_facts(3), of no_meta] by simp
qed

lemma member_answer:
  "SubscriptionPreRequest team_env member_request no_meta idle_state =
     (fst (SubscriptionPreRequest team_env member_request no_meta idle_state),
      fst (snd (SubscriptionPreRequest team_env member_request no_meta idle_state)), Inr LetThrough)"
  using member_admitted by (metis prod.collapse)

theorem SubscriptionPreRequest_within_plan_witness:
  "\<exists>user share. user_usage team_env member_scope (applied member_scope pooled_window) = Inr user \<and>
     fres_userTokens share = pt_tokens user \<and> below_share share"
proof -
  have c: "pooled_window \<in> set (sp_constraints (the (PooledPlan team_provider)))" by (simp add: pooled_plan)
  have k: "\<not> (PerModel pooled_window \<and> ps_upstreamModel member_scope = [])" "pc_kind pooled_window = ConstraintRollingWindow"
      "0 < pc_duration pooled_window"
      "pc_tokenBudget (applied member_scope pooled_window) \<noteq> None \<or> pc_valueBudget (applied member_scope pooled_window) \<noteq> None"
    using pooled_sel by (simp_all add: applied_def)
  have "window_respected team_env member_scope (applied member_scope pooled_window)
      (share_state team_env member_scope (sp_constraints (the (PooledPlan team_provider))) pooled_window
        (admission_state team_env team_provider \<lparr>sp_label = ''team'', sp_constraints = [anchored_constraint]\<rparr> member_scope (es_models idle_state) idle_state))"
    by (rule SubscriptionPreRequest_within_plan [OF member_answer member_target(2,1) team_facts(2,1) _ member_plan_scope c k]) simp
  then show ?thesis using member_shares unfolding window_respected_def by auto
qed

definition team_call :: "string \<Rightarrow> (upstream_error, string) result" where
  "team_call key = (if key = ''k1'' then Inl (HTTPError 429 BodyOther ''60'') else Inr ''hello'')"

theorem try_keys_moves_on_exhaustion_witness:
  "cooldown (MarkKeyExhausted team_env team_request ''k1'' ''60'' (es_sub idle_state)) (ev_now team_env) ((''acme'', ''p''), ''k1'', ''5h'', [])"
proof -
  let ?plan = "\<lparr>sp_label = ''team'', sp_constraints = [anchored_constraint]\<rparr>"
  have run: "try_keys team_env team_request team_call (''k1'' # [[]]) no_meta (es_sub idle_state) =
      (MarkKeyExhausted team_env team_request ''k1'' ''60'' (es_sub idle_state), no_meta\<lparr>mt_used := []\<rparr>, Some (Inr ''hello''))"
    by (simp add: team_call_def planExhaustion_def isUpstreamCapacityError_def no_meta_def)
  have target: "resolveTarget team_env (team_request\<lparr>rq_model := [], rq_userID := []\<rparr>) =
      Some (\<lparr>pm_id = ''m'', pm_providerID = ''p'', pm_realModel = ''big''\<rparr>, team_provider)"
    by (simp add: resolveTarget_def team_env_def team_request_def)
  have headers: "\<forall>x \<in> set (''k1'' # [[]]). \<forall>h. exhaustion_header team_env (team_call x) = Some h \<longrightarrow> bounded_header h"
    by (simp add: exhaustion_header_def team_call_def planExhaustion_def isUpstreamCapacityError_def bounded_header_def
        trim_space_def is_space_def ParseInt64_def is_digit_def)
  have head: "exhaustion_header team_env (team_call ''k1'') \<noteq> None"
    by (simp add: exhaustion_header_def team_call_def planExhaustion_def isUpstreamCapacityError_def)
  have names: "rq_orgID team_request = ''acme''" "pv_id team_provider = ''p''" "pc_label anchored_constraint = ''5h''"
      "\<not> HasPerModelConstraint (Some ?plan)"
    by (simp_all add: team_request_def team_provider_def anchored_constraint_def HasPerModelConstraint_def PerModel_def)
  obtain left used rest where s: "''k1'' # [[]] = left @ used # rest" "Some (Inr ''hello'') = Some (team_call used)"
      "\<forall>x \<in> set left. \<forall>c \<in> set (sp_constraints ?plan). (HasPerModelConstraint (Some ?plan) \<longrightarrow> PerModel c) \<longrightarrow>
         cooldown (MarkKeyExhausted team_env team_request ''k1'' ''60'' (es_sub idle_state)) (ev_now team_env)
           ((rq_orgID team_request, pv_id team_provider), x, pc_label c,
            if HasPerModelConstraint (Some ?plan) then pm_realModel \<lparr>pm_id = ''m'', pm_providerID = ''p'', pm_realModel = ''big''\<rparr> else [])"
    using try_keys_moves_on_exhaustion [OF run team_facts(5) target team_facts(2,1) headers] by (elim exE conjE) (rule that)
  have "''k1'' \<in> set left" using s(1,2) by (cases left) (auto simp: team_call_def)
  then show ?thesis using s(3) names by simp
qed

section \<open>Retry-After\<close>

text \<open>
  A large Retry-After cancels the cooldown it asks for: the seconds are multiplied in nanoseconds without a check,
  and a header of ten billion seconds makes the cooldown end before the 429 was received.
\<close>

theorem retryAfter_overflow:
  "retryAfter (\<lambda>_. None) ''10000000000'' now = Some (- 8446744073709551616)
   \<and> \<not> cooldown (markExhausted team_env team_request ''k1'' ''10000000000'' (es_sub idle_state)) (ev_now team_env) ((''acme'', ''p''), ''k1'', ''5h'', [])"
proof
  show r: "retryAfter (\<lambda>_. None) ''10000000000'' now = Some (- 8446744073709551616)" for now
    by (simp add: retryAfter_def trim_space_def is_space_def ParseInt64_def is_digit_def wrap64_def)
  show "\<not> cooldown (markExhausted team_env team_request ''k1'' ''10000000000'' (es_sub idle_state)) (ev_now team_env) ((''acme'', ''p''), ''k1'', ''5h'', [])"
  proof -
    let ?k = "((''acme'', ''p''), ''k1'', ''5h'', []) :: constraint_key"
    have "ev_parseTime team_env = (\<lambda>_. None)" "rq_orgID team_request = ''acme''" "pv_id team_provider = ''p''"
      by (simp_all add: team_env_def team_request_def team_provider_def)
    then have "markExhausted team_env team_request ''k1'' ''10000000000'' (es_sub idle_state)
        = MarkExhausted (ev_now team_env) ?k (ev_now team_env + - 8446744073709551616) (es_sub idle_state)"
      by (simp add: markExhausted_def team_target team_facts r HasPerModelConstraint_def PerModel_def anchored_constraint_def Let_def)
    then show ?thesis
      by (simp add: cooldown_def MarkExhausted_def sweep_get_put idle_state_def NewSubscriptionState_def empty_table_def)
  qed
qed

end
