(* ===== verification/Usage_Store.thy ===== *)
theory Usage_Store
  imports Quota Civil_Time "HOL-Library.AList"
begin

text \<open>
  The usage records and the running totals kept beside them (\<open>src/internal/core/model/usage.go\<close>,
  \<open>src/internal/adapter/gorm/usage_store.go\<close>, \<open>quota_usage.go\<close>, \<open>plan_usage_hourly.go\<close>, \<open>usage_daily.go\<close>).

  A table is a list of rows with its primary key first; an upsert adds to the row of its key.  A transaction is one
  step.  \<open>zone\<close> is the offset from UTC of the server's location at an instant.  Totals are integers: the code keeps
  them in 64 bits, and the sums of a table that holds them stay in range as long as its totals do.  The daily totals of the
  dashboard (\<open>incrementUsageDaily\<close>), which no budget reads, are left out of the transaction.  A backfill, an insert of grouped
  rows, is an upsert of each of them: identifiers hold no colon, so that no two groups have the same key.
\<close>

section \<open>Records\<close>

record usage_record =
  ur_id :: string
  ur_userID :: string
  ur_applicationID :: string
  ur_orgID :: string
  ur_teamID :: string
  ur_providerID :: string
  ur_modelID :: string
  ur_proxyModelName :: string
  ur_resolvedModelName :: string
  ur_authTokenID :: string
  ur_promptTokens :: int
  ur_cachedTokens :: int
  ur_completionTokens :: int
  ur_totalTokens :: int
  ur_cost :: int
  ur_currency :: string
  ur_createdAt :: int
  ur_planCovered :: bool
  ur_providerCost :: int
  ur_keyID :: string

definition FeedsMonetaryBudget :: "usage_record \<Rightarrow> bool" where
  "FeedsMonetaryBudget r = (\<not> ur_planCovered r \<and> ur_cost r \<noteq> 0 \<and> ur_orgID r \<noteq> [])"

definition QuotaCounters :: "usage_record \<Rightarrow> (quota_scope \<times> string) list" where
  "QuotaCounters r =
     (if \<not> FeedsMonetaryBudget r then []
      else
        [(QuotaScopeOrg, ur_orgID r)]
        @ (if ur_applicationID r \<noteq> [] then [(QuotaScopeApplication, ur_applicationID r)]
           else if ur_userID r \<noteq> [] then [(QuotaScopeUser, ur_userID r)] else [])
        @ (if ur_teamID r \<noteq> []
           then (QuotaScopeTeam, ur_teamID r)
                # (if ur_applicationID r = [] \<and> ur_userID r \<noteq> []
                   then [(QuotaScopeTeamMember, TeamMemberScopeID (ur_teamID r) (ur_userID r))] else [])
           else []))"

section \<open>Tables of totals\<close>

text \<open>The upsert of the three tables: a row is created, or the values are added to those of its key.\<close>

definition upsert :: "'k \<Rightarrow> 'v::comm_monoid_add \<Rightarrow> ('k \<times> 'v) list \<Rightarrow> ('k \<times> 'v) list" where
  "upsert k v t = (case map_of t k of None \<Rightarrow> t @ [(k, v)] | Some w \<Rightarrow> AList.update k (w + v) t)"

text \<open>\<open>COALESCE(SUM(...), 0)\<close> of the rows whose key passes a condition.\<close>

definition sum_where :: "('k \<Rightarrow> bool) \<Rightarrow> ('k \<times> 'v::comm_monoid_add) list \<Rightarrow> 'v" where
  "sum_where P t = sum_list (map snd (filter (P \<circ> fst) t))"

text \<open>\<open>INSERT INTO ... SELECT ... GROUP BY\<close> into a table.\<close>

definition insert_grouped :: "('r \<Rightarrow> 'k) \<Rightarrow> ('r \<Rightarrow> 'v::comm_monoid_add) \<Rightarrow> 'r list \<Rightarrow> ('k \<times> 'v) list \<Rightarrow> ('k \<times> 'v) list" where
  "insert_grouped key val rows t = fold (\<lambda>r. upsert (key r) (val r)) rows t"

subsection \<open>Budget counters\<close>

type_synonym quota_usage_key = "quota_scope \<times> string \<times> string \<times> string \<times> string"

definition quotaUsageDay :: "civil \<Rightarrow> string" where
  "quotaUsageDay c = format_day c"

definition local_time :: "(int \<Rightarrow> int) \<Rightarrow> int \<Rightarrow> civil" where
  "local_time zone t = civil_of (t + zone t)"

definition quotaUsageRows :: "(int \<Rightarrow> int) \<Rightarrow> usage_record \<Rightarrow> (quota_usage_key \<times> int) list" where
  "quotaUsageRows zone r =
     map (\<lambda>(scope, scopeID). ((scope, scopeID, ur_orgID r, ur_currency r, quotaUsageDay (local_time zone (ur_createdAt r))), ur_cost r))
       (QuotaCounters r)"

definition incrementQuotaUsage :: "(quota_usage_key \<times> int) list \<Rightarrow> (quota_usage_key \<times> int) list \<Rightarrow> (quota_usage_key \<times> int) list" where
  "incrementQuotaUsage rows t = fold (\<lambda>(k, v). upsert k v) rows t"

subsection \<open>Hourly plan sums\<close>

datatype hour_sums = HourSums (hs_requests: int) (hs_tokens: int) (hs_value: int)

instantiation hour_sums :: comm_monoid_add
begin

definition zero_hour_sums :: hour_sums where
  "0 = HourSums 0 0 0"

definition plus_hour_sums :: "hour_sums \<Rightarrow> hour_sums \<Rightarrow> hour_sums" where
  "a + b = HourSums (hs_requests a + hs_requests b) (hs_tokens a + hs_tokens b) (hs_value a + hs_value b)"

instance
  by standard (simp_all add: zero_hour_sums_def plus_hour_sums_def)

end

type_synonym hour_key = "string \<times> string \<times> string \<times> string \<times> string \<times> string"

definition usageHour :: "int \<Rightarrow> string" where
  "usageHour t = format_hour (civil_of t)"

definition plan_hour_key :: "usage_record \<Rightarrow> hour_key" where
  "plan_hour_key r =
     (ur_orgID r, ur_providerID r, usageHour (ur_createdAt r), ur_keyID r, ur_modelID r, ur_userID r)"

definition plan_hour_sums :: "usage_record \<Rightarrow> hour_sums" where
  "plan_hour_sums r = HourSums 1 (ur_totalTokens r) (ur_providerCost r)"

definition incrementPlanUsageHourly :: "usage_record \<Rightarrow> (hour_key \<times> hour_sums) list \<Rightarrow> (hour_key \<times> hour_sums) list" where
  "incrementPlanUsageHourly r t = (if \<not> ur_planCovered r then t else upsert (plan_hour_key r) (plan_hour_sums r) t)"

section \<open>The store\<close>

record usage_db =
  db_records :: "usage_record list"
  db_quota :: "(quota_usage_key \<times> int) list"
  db_hourly :: "(hour_key \<times> hour_sums) list"

definition empty_db :: usage_db where
  "empty_db = \<lparr>db_records = [], db_quota = [], db_hourly = []\<rparr>"

definition RecordUsage :: "(int \<Rightarrow> int) \<Rightarrow> usage_record \<Rightarrow> usage_db \<Rightarrow> usage_db" where
  "RecordUsage zone r db =
     db\<lparr>db_records := db_records db @ [r],
        db_quota := incrementQuotaUsage (quotaUsageRows zone r) (db_quota db),
        db_hourly := incrementPlanUsageHourly r (db_hourly db)\<rparr>"

definition SumQuotaCostSince :: "usage_db \<Rightarrow> quota_scope \<Rightarrow> string \<Rightarrow> string \<Rightarrow> civil \<Rightarrow> int" where
  "SumQuotaCostSince db scope scopeID orgID since =
     sum_where (\<lambda>(sc, sid, org, _, day). sc = scope \<and> sid = scopeID \<and> org = orgID \<and> \<not> text_less day (quotaUsageDay since))
       (db_quota db)"

text \<open>
  The rebuild of the counters: one pass per scope over the records that feed a budget, their day computed with
  one offset, the one in effect when it runs.
\<close>

definition quota_backfill_pass :: "int \<Rightarrow> quota_scope \<Rightarrow> (usage_record \<Rightarrow> string) \<Rightarrow> (usage_record \<Rightarrow> bool) \<Rightarrow> usage_record list
    \<Rightarrow> (quota_usage_key \<times> int) list \<Rightarrow> (quota_usage_key \<times> int) list" where
  "quota_backfill_pass off scope sid cond rs =
     insert_grouped (\<lambda>r. (scope, sid r, ur_orgID r, ur_currency r, format_day (civil_of (ur_createdAt r + off)))) ur_cost
       (filter (\<lambda>r. \<not> ur_planCovered r \<and> ur_orgID r \<noteq> [] \<and> ur_cost r \<noteq> 0 \<and> cond r) rs)"

definition backfillQuotaUsage :: "int \<Rightarrow> usage_db \<Rightarrow> usage_db" where
  "backfillQuotaUsage off db =
     db\<lparr>db_quota :=
       (quota_backfill_pass off QuotaScopeTeamMember (\<lambda>r. TeamMemberScopeID (ur_teamID r) (ur_userID r))
          (\<lambda>r. ur_teamID r \<noteq> [] \<and> ur_userID r \<noteq> [] \<and> ur_applicationID r = []) (db_records db)
        \<circ> quota_backfill_pass off QuotaScopeTeam ur_teamID (\<lambda>r. ur_teamID r \<noteq> []) (db_records db)
        \<circ> quota_backfill_pass off QuotaScopeUser ur_userID (\<lambda>r. ur_userID r \<noteq> [] \<and> ur_applicationID r = []) (db_records db)
        \<circ> quota_backfill_pass off QuotaScopeApplication ur_applicationID (\<lambda>r. ur_applicationID r \<noteq> []) (db_records db)
        \<circ> quota_backfill_pass off QuotaScopeOrg ur_orgID (\<lambda>_. True) (db_records db)) []\<rparr>"

definition backfillPlanUsageHourly :: "usage_db \<Rightarrow> usage_db" where
  "backfillPlanUsageHourly db =
     db\<lparr>db_hourly := insert_grouped plan_hour_key plan_hour_sums (filter ur_planCovered (db_records db)) []\<rparr>"

section \<open>Totals are sums of contributions\<close>

lemma sum_where_Nil [simp]: "sum_where P [] = 0"
  by (simp add: sum_where_def)

lemma sum_where_Cons [simp]: "sum_where P (x # t) = (if P (fst x) then snd x else 0) + sum_where P t"
  by (simp add: sum_where_def)

lemma sum_where_append [simp]: "sum_where P (t @ u) = sum_where P t + sum_where P u"
  by (simp add: sum_where_def)

lemma sum_where_update:
  "map_of t k = Some w \<Longrightarrow> sum_where P (AList.update k (w + v) t) = sum_where P t + (if P k then v else 0)"
  by (induction t) (auto simp: ac_simps)

lemma sum_where_upsert [simp]: "sum_where P (upsert k v t) = sum_where P t + (if P k then v else 0)"
  by (simp add: upsert_def sum_where_update split: option.split)

lemma keys_upsert [simp]: "fst ` set (upsert k v t) = insert k (fst ` set t)"
proof (cases "map_of t k")
  case (Some w)
  then have "k \<in> fst ` set t" by (metis map_of_eq_None_iff option.distinct(1))
  then show ?thesis using Some by (auto simp: upsert_def dom_update)
qed (auto simp: upsert_def)

text \<open>
  What the readers of a table of totals rely on: adding a record adds what it contributes, under each key, and no row
  stands for nothing.
\<close>

locale summed_table =
  fixes add :: "'r \<Rightarrow> ('k \<times> 'v::comm_monoid_add) list \<Rightarrow> ('k \<times> 'v) list"
    and rows :: "'r \<Rightarrow> ('k \<times> 'v) list"
  assumes sum_add: "sum_where P (add r t) = sum_where P t + sum_where P (rows r)"
    and keys_add: "fst ` set (add r t) = fst ` set t \<union> fst ` set (rows r)"
begin

lemma sum_fold: "sum_where P (fold add rs t) = sum_where P t + sum_where P (concat (map rows rs))"
  by (induction rs arbitrary: t) (simp_all add: sum_add ac_simps)

lemma keys_fold: "fst ` set (fold add rs t) = fst ` set t \<union> fst ` set (concat (map rows rs))"
  by (induction rs arbitrary: t) (auto simp: keys_add)

end

interpretation rows_in: summed_table "\<lambda>(k, v). upsert k v" "\<lambda>row. [row]"
  by unfold_locales (auto split: prod.split)

interpretation grouped: summed_table "\<lambda>r. upsert (key r) (val r)" "\<lambda>r. [(key r, val r)]" for key val
  by unfold_locales simp_all

interpretation counters_table: summed_table "\<lambda>r. incrementQuotaUsage (quotaUsageRows zone r)" "quotaUsageRows zone" for zone
  by unfold_locales (simp_all add: incrementQuotaUsage_def rows_in.sum_fold rows_in.keys_fold)

interpretation hours_table: summed_table incrementPlanUsageHourly
    "\<lambda>r. if ur_planCovered r then [(plan_hour_key r, plan_hour_sums r)] else []"
  by unfold_locales (simp_all add: incrementPlanUsageHourly_def)

section \<open>The stores a history of requests and rebuilds leaves\<close>

inductive db_reachable :: "(int \<Rightarrow> int) \<Rightarrow> usage_db \<Rightarrow> bool" for zone where
  db_empty: "db_reachable zone empty_db"
| db_record: "db_reachable zone db \<Longrightarrow> db_reachable zone (RecordUsage zone r db)"
| db_rebuild_quota: "db_reachable zone db \<Longrightarrow> \<forall>r\<in>set (db_records db). zone (ur_createdAt r) = off \<Longrightarrow>
    db_reachable zone (backfillQuotaUsage off db)"
| db_rebuild_hourly: "db_reachable zone db \<Longrightarrow> db_reachable zone (backfillPlanUsageHourly db)"

definition counter_rows :: "(int \<Rightarrow> int) \<Rightarrow> usage_db \<Rightarrow> (quota_usage_key \<times> int) list" where
  "counter_rows zone db = concat (map (quotaUsageRows zone) (db_records db))"

definition hour_rows :: "usage_db \<Rightarrow> (hour_key \<times> hour_sums) list" where
  "hour_rows db = map (\<lambda>r. (plan_hour_key r, plan_hour_sums r)) (filter ur_planCovered (db_records db))"

lemma hour_rows_concat: "concat (map (\<lambda>r. if ur_planCovered r then [(plan_hour_key r, plan_hour_sums r)] else []) rs)
    = map (\<lambda>r. (plan_hour_key r, plan_hour_sums r)) (filter ur_planCovered rs)"
  by (induction rs) auto

lemma concat_singleton: "concat (map (\<lambda>r. [f r]) rs) = map f rs"
  by (induction rs) auto

lemma rebuilt_hours:
  "sum_where P (db_hourly (backfillPlanUsageHourly db)) = sum_where P (hour_rows db)"
  "fst ` set (db_hourly (backfillPlanUsageHourly db)) = fst ` set (hour_rows db)"
  by (simp_all add: backfillPlanUsageHourly_def insert_grouped_def grouped.sum_fold grouped.keys_fold hour_rows_def concat_singleton)

text \<open>The passes of a rebuild together contribute, record by record, what the records did one by one.\<close>

lemma pass_sum:
  "sum_where P (quota_backfill_pass off scope sid cond rs t) = sum_where P t
    + (\<Sum>r\<leftarrow>rs. if FeedsMonetaryBudget r \<and> cond r
        \<and> P (scope, sid r, ur_orgID r, ur_currency r, format_day (civil_of (ur_createdAt r + off))) then ur_cost r else 0)"
proof -
  have "sum_where P (map (\<lambda>r. (f r, ur_cost r)) (filter c rs)) = (\<Sum>r\<leftarrow>rs. if c r \<and> P (f r) then ur_cost r else 0)" for f c
    by (induction rs) auto
  then show ?thesis
    by (auto simp: quota_backfill_pass_def insert_grouped_def grouped.sum_fold concat_singleton FeedsMonetaryBudget_def
        intro!: arg_cong [where f = sum_list] map_cong)
qed

lemma sum_where_map: "sum_where P (map f xs) = (\<Sum>x\<leftarrow>xs. if P (fst (f x)) then snd (f x) else 0)"
  by (induction xs) auto

lemma sum_where_concat: "sum_where P (concat tss) = (\<Sum>ts\<leftarrow>tss. sum_where P ts)"
  by (induction tss) auto

lemma sum_where_counters:
  "sum_where P (quotaUsageRows zone r) = (\<Sum>(scope, sid)\<leftarrow>QuotaCounters r.
    if P (scope, sid, ur_orgID r, ur_currency r, format_day (local_time zone (ur_createdAt r))) then ur_cost r else 0)"
  unfolding quotaUsageRows_def quotaUsageDay_def sum_where_map
  by (intro arg_cong [where f = sum_list] map_cong refl) (simp split: prod.split)

lemma rebuilt_counters:
  assumes "\<forall>r\<in>set (db_records db). zone (ur_createdAt r) = off"
  shows "sum_where P (db_quota (backfillQuotaUsage off db)) = sum_where P (counter_rows zone db)"
proof -
  have "sum_where P (counter_rows zone db) = (\<Sum>r\<leftarrow>db_records db. sum_where P (quotaUsageRows zone r))"
    by (simp add: counter_rows_def sum_where_concat comp_def)
  also have "\<dots> = sum_where P (db_quota (backfillQuotaUsage off db))"
    using assms unfolding backfillQuotaUsage_def
    by (simp add: pass_sum flip: sum_list_addf)
      (auto simp: sum_where_counters QuotaCounters_def local_time_def intro!: arg_cong [where f = sum_list] map_cong)
  finally show ?thesis by simp
qed

definition totals_ok :: "(int \<Rightarrow> int) \<Rightarrow> usage_db \<Rightarrow> bool" where
  "totals_ok zone db \<longleftrightarrow>
     (\<forall>P. sum_where P (db_quota db) = sum_where P (counter_rows zone db)) \<and>
     (\<forall>P. sum_where P (db_hourly db) = sum_where P (hour_rows db)) \<and>
     fst ` set (db_hourly db) = fst ` set (hour_rows db)"

lemma totals_ok_record: "totals_ok zone db \<Longrightarrow> totals_ok zone (RecordUsage zone r db)"
  using counters_table.sum_add [of _ zone r "db_quota db"] hours_table.sum_add [of _ r "db_hourly db"]
    hours_table.keys_add [of r "db_hourly db"]
  by (auto simp: totals_ok_def RecordUsage_def counter_rows_def hour_rows_def image_Un)

lemma reachable_totals: "db_reachable zone db \<Longrightarrow> totals_ok zone db"
proof (induction rule: db_reachable.induct)
  case db_empty
  show ?case by (simp add: totals_ok_def empty_db_def counter_rows_def hour_rows_def)
next
  case (db_record db r)
  then show ?case using totals_ok_record by blast
next
  case (db_rebuild_quota db off)
  then show ?case
    using rebuilt_counters [of db zone off]
    by (simp add: totals_ok_def) (simp add: backfillQuotaUsage_def counter_rows_def hour_rows_def)
next
  case (db_rebuild_hourly db)
  then show ?case
    using rebuilt_hours(1) [of _ db] rebuilt_hours(2) [of db]
    by (simp add: totals_ok_def) (simp add: backfillPlanUsageHourly_def counter_rows_def hour_rows_def)
qed

section \<open>Days in order\<close>

definition date_before :: "civil \<Rightarrow> civil \<Rightarrow> bool" where
  "date_before c d \<longleftrightarrow>
     cv_year c < cv_year d \<or> cv_year c = cv_year d \<and>
       (cv_month c < cv_month d \<or> cv_month c = cv_month d \<and> cv_day c < cv_day d)"

definition printable_date :: "civil \<Rightarrow> bool" where
  "printable_date c \<longleftrightarrow> 0 \<le> cv_year c \<and> cv_year c < 10000 \<and> cv_month c < 100 \<and> cv_day c < 100"

lemma quotaUsageDay_order:
  assumes "printable_date c" "printable_date d"
  shows "text_less (quotaUsageDay c) (quotaUsageDay d) \<longleftrightarrow> date_before c d"
proof -
  have p: "text_less (pad_digits w a @ x) (pad_digits w b @ z) \<longleftrightarrow> a < b \<or> a = b \<and> text_less x z"
    if "a < 10 ^ w" "b < 10 ^ w" for w a b x z using text_less_pad [OF that] .
  have y: "text_less (pad_digits 4 (nat (cv_year c)) @ x) (pad_digits 4 (nat (cv_year d)) @ z)
      \<longleftrightarrow> cv_year c < cv_year d \<or> cv_year c = cv_year d \<and> text_less x z" for x z
    using assms p [of "nat (cv_year c)" 4 "nat (cv_year d)" x z] by (auto simp: printable_date_def nat_less_iff)
  show ?thesis
    using assms y p [of "cv_month c" 2 "cv_month d"]
      p [of "cv_day c" 2 "cv_day d" "[]" "[]"]
    by (simp add: quotaUsageDay_def format_day_def date_before_def printable_date_def nat_less_eq_zless eq_nat_nat_iff
        del: zless_nat_conj zless_nat_eq_int_zless)
qed

lemma printable_civil: "four_digit_year t \<Longrightarrow> printable_date (civil_of t)"
  using four_digit_year [of t] by (simp add: printable_date_def civil_bounds civil_date(2))

lemma counters_distinct: "distinct (QuotaCounters r)"
  by (simp add: QuotaCounters_def)

lemma sum_one_counter:
  assumes "distinct xs"
  shows "(\<Sum>x\<leftarrow>xs. if x = a \<and> Q then c else (0 :: int)) = (if a \<in> set xs \<and> Q then c else 0)"
  using assms by (induction xs) auto

text \<open>
  C22.  The budget counters are exact: after any history of recorded requests and rebuilds, the total a budget check reads
  for a scope since a day is the sum of the costs of the records that feed that scope in the organization, on that day
  of the server or a later one, each once.  A rebuild counts with one offset, so the server's offset is the same at every
  record it covers.
\<close>

theorem quota_counters_exact:
  assumes "db_reachable zone db"
    and "\<forall>r\<in>set (db_records db). four_digit_year (ur_createdAt r + zone (ur_createdAt r))"
    and "printable_date since"
  shows "SumQuotaCostSince db scope scopeID orgID since =
    (\<Sum>r\<leftarrow>db_records db. if ur_orgID r = orgID \<and> (scope, scopeID) \<in> set (QuotaCounters r)
        \<and> \<not> date_before (local_time zone (ur_createdAt r)) since then ur_cost r else 0)"
proof -
  have o: "text_less (quotaUsageDay (local_time zone (ur_createdAt r))) (quotaUsageDay since)
      \<longleftrightarrow> date_before (local_time zone (ur_createdAt r)) since" if "r \<in> set (db_records db)" for r
    using quotaUsageDay_order assms(2,3) that printable_civil by (simp add: local_time_def)
  have one: "sum_where (\<lambda>(sc, sid, org, _, day). sc = scope \<and> sid = scopeID \<and> org = orgID \<and> \<not> text_less day (quotaUsageDay since))
       (quotaUsageRows zone r)
     = (if ur_orgID r = orgID \<and> (scope, scopeID) \<in> set (QuotaCounters r)
        \<and> \<not> date_before (local_time zone (ur_createdAt r)) since then ur_cost r else 0)" if "r \<in> set (db_records db)" for r
    using sum_one_counter [OF counters_distinct [of r], of "(scope, scopeID)"
        "ur_orgID r = orgID \<and> \<not> date_before (local_time zone (ur_createdAt r)) since" "ur_cost r"] o [OF that]
    by (simp add: sum_where_counters case_prod_unfold prod_eq_iff conj_assoc quotaUsageDay_def cong: if_cong)
  have "SumQuotaCostSince db scope scopeID orgID since = (\<Sum>r\<leftarrow>db_records db.
      sum_where (\<lambda>(sc, sid, org, _, day). sc = scope \<and> sid = scopeID \<and> org = orgID \<and> \<not> text_less day (quotaUsageDay since))
        (quotaUsageRows zone r))"
    using reachable_totals [OF assms(1)]
    by (simp add: SumQuotaCostSince_def totals_ok_def counter_rows_def sum_where_concat comp_def)
  also have "\<dots> = (\<Sum>r\<leftarrow>db_records db. if ur_orgID r = orgID \<and> (scope, scopeID) \<in> set (QuotaCounters r)
        \<and> \<not> date_before (local_time zone (ur_createdAt r)) since then ur_cost r else 0)"
    using one by (intro arg_cong [where f = sum_list] map_cong refl)
  finally show ?thesis .
qed

definition sample_record :: "string \<Rightarrow> int \<Rightarrow> int \<Rightarrow> usage_record" where
  "sample_record user cost t =
     \<lparr>ur_id = ''r'', ur_userID = user, ur_applicationID = [], ur_orgID = ''acme'', ur_teamID = ''core'', ur_providerID = ''p'',
      ur_modelID = ''m'', ur_proxyModelName = ''gpt'', ur_resolvedModelName = [], ur_authTokenID = [], ur_promptTokens = 10,
      ur_cachedTokens = 0, ur_completionTokens = 5, ur_totalTokens = 15, ur_cost = cost, ur_currency = ''EUR'', ur_createdAt = t,
      ur_planCovered = False, ur_providerCost = 0, ur_keyID = []\<rparr>"

definition sample_db :: usage_db where
  "sample_db = RecordUsage (\<lambda>_. 0) (sample_record ''ann'' 30 (2 * day_ns))
     (backfillQuotaUsage 0 (RecordUsage (\<lambda>_. 0) (sample_record ''ann'' 20 day_ns) (RecordUsage (\<lambda>_. 0) (sample_record ''bob'' 7 0) empty_db)))"

lemma sample_db_reachable: "db_reachable (\<lambda>_. 0) sample_db"
  unfolding sample_db_def by (intro db_reachable.intros) simp_all

lemma sample_db_records:
  "db_records sample_db = [sample_record ''bob'' 7 0, sample_record ''ann'' 20 day_ns, sample_record ''ann'' 30 (2 * day_ns)]"
  by (simp add: sample_db_def RecordUsage_def backfillQuotaUsage_def empty_db_def)

lemma sample_days:
  "civil_of 0 = \<lparr>cv_year = 1970, cv_month = 1, cv_day = 1, cv_nanos = 0\<rparr>"
  "civil_of day_ns = \<lparr>cv_year = 1970, cv_month = 1, cv_day = 2, cv_nanos = 0\<rparr>"
  "civil_of (2 * day_ns) = \<lparr>cv_year = 1970, cv_month = 1, cv_day = 3, cv_nanos = 0\<rparr>"
  by code_simp+

theorem quota_counters_exact_witness:
  "SumQuotaCostSince sample_db QuotaScopeUser ''ann'' ''acme'' \<lparr>cv_year = 1970, cv_month = 1, cv_day = 2, cv_nanos = 0\<rparr> = 50"
proof -
  have f: "\<forall>r\<in>set (db_records sample_db). four_digit_year (ur_createdAt r + 0)"
    by (simp add: sample_db_records sample_record_def four_digit_year_def)
  have p: "printable_date \<lparr>cv_year = 1970, cv_month = 1, cv_day = 2, cv_nanos = 0\<rparr>" by (simp add: printable_date_def)
  show ?thesis
    unfolding quota_counters_exact [OF sample_db_reachable f p] sample_db_records
    using sample_days by (simp add: sample_record_def QuotaCounters_def FeedsMonetaryBudget_def date_before_def local_time_def)
qed

end
