(* ===== verification/Plan_Usage_Hourly.thy ===== *)
theory Plan_Usage_Hourly
  imports Usage_Store Fair_Share_Service
begin

text \<open>
  The usage of a subscription plan, read from the records and from their hourly sums
  (\<open>src/internal/adapter/gorm/plan_usage_hourly.go\<close> and the plan queries of \<open>usage_store.go\<close>), against the query over
  the records alone.

  A source of the code is a query; here it is the list of rows it selects, each with the columns the totals read.
  The several queries of a read see one snapshot of the database.
\<close>

section \<open>Windows and sources\<close>

record plan_usage_window =
  pw_since :: int
  pw_keys :: "string list option"
  pw_exclude :: bool

definition planUsageWindows :: "plan_usage_scope \<Rightarrow> int \<Rightarrow> plan_usage_window list" where
  "planUsageWindows scope since =
     (if us_keyWindows scope = [] then [\<lparr>pw_since = since, pw_keys = None, pw_exclude = False\<rparr>]
      else
        (let keys = sort (remdups (map fst (us_keyWindows scope))) in
         \<lparr>pw_since = since, pw_keys = Some keys, pw_exclude = True\<rparr>
         # map (\<lambda>key. \<lparr>pw_since = the (map_of (us_keyWindows scope) key), pw_keys = Some [key], pw_exclude = False\<rparr>) keys))"

text \<open>The condition of a window on the key of a row.\<close>

definition window_where :: "plan_usage_window \<Rightarrow> string \<Rightarrow> bool" where
  "window_where w key =
     (case pw_keys w of
        None \<Rightarrow> True
      | Some ks \<Rightarrow> if pw_exclude w then key \<notin> set ks else key = hd ks)"

text \<open>The columns of a selected row: key, model, user and what it sums.\<close>

record plan_row =
  pl_key :: string
  pl_model :: string
  pl_user :: string
  pl_tokens :: int
  pl_value :: int

definition record_row :: "usage_record \<Rightarrow> plan_row" where
  "record_row r = \<lparr>pl_key = ur_keyID r, pl_model = ur_modelID r, pl_user = ur_userID r,
                   pl_tokens = ur_totalTokens r, pl_value = ur_providerCost r\<rparr>"

fun hourly_row :: "hour_key \<times> hour_sums \<Rightarrow> plan_row" where
  "hourly_row ((_, _, _, key, m, user), s) = \<lparr>pl_key = key, pl_model = m, pl_user = user, pl_tokens = hs_tokens s, pl_value = hs_value s\<rparr>"

definition truncate_hour :: "int \<Rightarrow> int" where
  "truncate_hour t = t - t mod hour_ns"

record usage_part =
  up_window :: plan_usage_window
  up_from :: int
  up_to :: int

text \<open>The parts a window is read from: records of its first hour, whole hours, records of the current hour.\<close>

definition window_parts :: "int \<Rightarrow> plan_usage_window \<Rightarrow> usage_part list \<times> usage_part list \<times> usage_part list" where
  "window_parts currentHour w =
     (if \<not> pw_since w < currentHour then ([], [], [\<lparr>up_window = w, up_from = pw_since w, up_to = 0\<rparr>])
      else
        (let firstHour = truncate_hour (pw_since w);
             partial = firstHour < pw_since w;
             nextHour = (if partial then firstHour + hour_ns else firstHour)
         in (if partial then [\<lparr>up_window = w, up_from = pw_since w, up_to = nextHour\<rparr>] else [],
             if nextHour < currentHour then [\<lparr>up_window = w, up_from = nextHour, up_to = 0\<rparr>] else [],
             [\<lparr>up_window = w, up_from = currentHour, up_to = 0\<rparr>])))"

definition in_scope :: "plan_usage_scope \<Rightarrow> plan_row \<Rightarrow> bool" where
  "in_scope scope row \<longleftrightarrow>
     (us_modelIDs scope \<noteq> [] \<longrightarrow> pl_model row \<in> set (us_modelIDs scope)) \<and> (us_byKey scope \<longrightarrow> pl_key row = us_keyID scope)"

definition plan_records :: "plan_usage_scope \<Rightarrow> usage_db \<Rightarrow> usage_record list" where
  "plan_records scope db =
     filter (\<lambda>r. ur_orgID r = us_orgID scope \<and> ur_providerID r = us_providerID scope \<and> ur_planCovered r) (db_records db)"

definition earliest_of :: "int list \<Rightarrow> int" where
  "earliest_of ts = fold (\<lambda>b a. if b < a then b else a) (tl ts) (hd ts)"

definition latest_of :: "int list \<Rightarrow> int" where
  "latest_of ts = fold (\<lambda>b a. if b > a then b else a) (tl ts) (hd ts)"

definition heads_source :: "plan_usage_scope \<Rightarrow> usage_part list \<Rightarrow> usage_db \<Rightarrow> plan_row list" where
  "heads_source scope parts db =
     (let from = earliest_of (map up_from parts); to = latest_of (map up_to parts) in
      filter (in_scope scope) (map record_row
        (filter (\<lambda>r. from \<le> ur_createdAt r \<and> ur_createdAt r < to \<and>
                     list_ex (\<lambda>p. window_where (up_window p) (ur_keyID r) \<and> up_from p \<le> ur_createdAt r \<and> ur_createdAt r < up_to p) parts)
          (plan_records scope db))))"

definition hours_source :: "plan_usage_scope \<Rightarrow> int \<Rightarrow> usage_part list \<Rightarrow> usage_db \<Rightarrow> plan_row list" where
  "hours_source scope currentHour parts db =
     (let from = earliest_of (map up_from parts) in
      filter (in_scope scope) (map hourly_row
        (filter (\<lambda>((org, prov, hour, key, _, _), _).
                   org = us_orgID scope \<and> prov = us_providerID scope \<and> \<not> text_less hour (usageHour from) \<and> text_less hour (usageHour currentHour) \<and>
                   list_ex (\<lambda>p. window_where (up_window p) key \<and> \<not> text_less hour (usageHour (up_from p))) parts)
          (db_hourly db))))"

definition tails_source :: "plan_usage_scope \<Rightarrow> usage_part list \<Rightarrow> usage_db \<Rightarrow> plan_row list" where
  "tails_source scope parts db =
     (let from = earliest_of (map up_from parts) in
      filter (in_scope scope) (map record_row
        (filter (\<lambda>r. from \<le> ur_createdAt r \<and>
                     list_ex (\<lambda>p. window_where (up_window p) (ur_keyID r) \<and> up_from p \<le> ur_createdAt r) parts)
          (plan_records scope db))))"

definition planUsageSources :: "plan_usage_scope \<Rightarrow> int \<Rightarrow> int \<Rightarrow> (usage_db \<Rightarrow> plan_row list) list" where
  "planUsageSources scope since now =
     (let currentHour = truncate_hour now;
          parts = map (window_parts currentHour) (planUsageWindows scope since);
          heads = concat (map fst parts); hours = concat (map (fst \<circ> snd) parts); tails = concat (map (snd \<circ> snd) parts)
      in (if heads \<noteq> [] then [heads_source scope heads] else [])
         @ (if hours \<noteq> [] then [hours_source scope currentHour hours] else [])
         @ [tails_source scope tails])"

section \<open>Reads\<close>

definition sum_rows :: "plan_row list \<Rightarrow> plan_totals" where
  "sum_rows rows = \<lparr>pt_tokens = (\<Sum>row\<leftarrow>rows. pl_tokens row), pt_value = (\<Sum>row\<leftarrow>rows. pl_value row)\<rparr>"

definition add_totals :: "plan_totals \<Rightarrow> plan_totals \<Rightarrow> plan_totals" where
  "add_totals a b = \<lparr>pt_tokens = pt_tokens a + pt_tokens b, pt_value = pt_value a + pt_value b\<rparr>"

definition of_user :: "string \<Rightarrow> plan_row \<Rightarrow> bool" where
  "of_user userID row \<longleftrightarrow> userID \<noteq> [] \<longrightarrow> pl_user row = userID"

definition sumPlanUsage :: "usage_db \<Rightarrow> int \<Rightarrow> plan_usage_scope \<Rightarrow> string \<Rightarrow> int \<Rightarrow> plan_totals" where
  "sumPlanUsage db now scope userID since =
     fold (\<lambda>src t. add_totals t (sum_rows (filter (of_user userID) (src db)))) (planUsageSources scope since now)
       \<lparr>pt_tokens = 0, pt_value = 0\<rparr>"

definition SumPlanUsageSince :: "usage_db \<Rightarrow> int \<Rightarrow> plan_usage_scope \<Rightarrow> int \<Rightarrow> plan_totals" where
  "SumPlanUsageSince db now scope since = sumPlanUsage db now scope [] since"

definition SumUserPlanUsageSince :: "usage_db \<Rightarrow> int \<Rightarrow> string \<Rightarrow> plan_usage_scope \<Rightarrow> int \<Rightarrow> plan_totals" where
  "SumUserPlanUsageSince db now userID scope since = sumPlanUsage db now scope userID since"

text \<open>Rows grouped by a column and added to a map of totals, as the two reads per model and per key do.\<close>

definition add_grouped :: "(plan_row \<Rightarrow> 'k) \<Rightarrow> plan_row list \<Rightarrow> ('k \<times> plan_totals) list \<Rightarrow> ('k \<times> plan_totals) list" where
  "add_grouped key rows m =
     fold (\<lambda>k m. AList.update k (add_totals (case map_of m k of Some t \<Rightarrow> t | None \<Rightarrow> \<lparr>pt_tokens = 0, pt_value = 0\<rparr>)
                                  (sum_rows (filter (\<lambda>row. key row = k) rows))) m)
       (remdups (map key rows)) m"

definition SumPlanUsageByModelSince :: "usage_db \<Rightarrow> int \<Rightarrow> plan_usage_scope \<Rightarrow> string \<Rightarrow> int \<Rightarrow> (string \<times> plan_totals) list" where
  "SumPlanUsageByModelSince db now scope userID since =
     fold (\<lambda>src. add_grouped pl_model (filter (of_user userID) (src db))) (planUsageSources scope since now) []"

definition SumPlanUsageByKeySince :: "usage_db \<Rightarrow> int \<Rightarrow> plan_usage_scope \<Rightarrow> int \<Rightarrow> ((string \<times> string) \<times> plan_totals) list" where
  "SumPlanUsageByKeySince db now scope since =
     fold (\<lambda>src. add_grouped (\<lambda>row. (pl_key row, pl_model row)) (src db)) (planUsageSources scope since now) []"

definition CountActivePlanUsersSince :: "usage_db \<Rightarrow> int \<Rightarrow> plan_usage_scope \<Rightarrow> int \<Rightarrow> string \<Rightarrow> int" where
  "CountActivePlanUsersSince db now scope since excludeUserID =
     (let users = (\<lambda>src. remdups (map pl_user
            (filter (\<lambda>row. pl_user row \<noteq> [] \<and> (excludeUserID \<noteq> [] \<longrightarrow> pl_user row \<noteq> excludeUserID)) (src db))))
      in case planUsageSources scope since now of
           [src] \<Rightarrow> int (length (users src))
         | srcs \<Rightarrow> int (length (remdups (concat (map users srcs)))))"

text \<open>The query over the records alone, which the probes of one user and of the first use read.\<close>

definition planUsageQuery :: "plan_usage_scope \<Rightarrow> int \<Rightarrow> usage_db \<Rightarrow> usage_record list" where
  "planUsageQuery scope since db =
     filter (\<lambda>r. Since scope since \<le> ur_createdAt r
                 \<and> (us_keyWindows scope = []
                    \<or> ur_keyID r \<notin> fst ` set (us_keyWindows scope) \<and> since \<le> ur_createdAt r
                    \<or> list_ex (\<lambda>(key, _). ur_keyID r = key \<and> the (map_of (us_keyWindows scope) key) \<le> ur_createdAt r) (us_keyWindows scope))
                 \<and> in_scope scope (record_row r))
       (plan_records scope db)"

definition HasPlanUsageSince :: "usage_db \<Rightarrow> string \<Rightarrow> plan_usage_scope \<Rightarrow> int \<Rightarrow> bool" where
  "HasPlanUsageSince db userID scope since = list_ex (\<lambda>r. ur_userID r = userID) (planUsageQuery scope since db)"

definition EarliestPlanUsageSince :: "usage_db \<Rightarrow> plan_usage_scope \<Rightarrow> string \<Rightarrow> int \<Rightarrow> int" where
  "EarliestPlanUsageSince db scope userID since =
     (case filter (\<lambda>r. userID \<noteq> [] \<longrightarrow> ur_userID r = userID) (planUsageQuery scope since db) of
        [] \<Rightarrow> zero_time
      | r # rs \<Rightarrow> fold (\<lambda>r t. if ur_createdAt r < t then ur_createdAt r else t) rs (ur_createdAt r))"

definition LastPlanUsageKey :: "usage_db \<Rightarrow> plan_usage_scope \<Rightarrow> string \<Rightarrow> string option" where
  "LastPlanUsageKey db scope userID =
     (case filter (\<lambda>r. ur_userID r = userID) (plan_records scope db) of
        [] \<Rightarrow> None
      | r # rs \<Rightarrow> Some (ur_keyID (fold (\<lambda>r best. if ur_createdAt r > ur_createdAt best then r else best) rs r)))"

section \<open>One window per key\<close>

text \<open>The start of the window that counts a key.\<close>

definition start_of :: "plan_usage_scope \<Rightarrow> int \<Rightarrow> string \<Rightarrow> int" where
  "start_of scope since key = (case map_of (us_keyWindows scope) key of Some t \<Rightarrow> t | None \<Rightarrow> since)"

lemma windows_for_key:
  "filter (\<lambda>w. window_where w key) (planUsageWindows scope since) \<noteq> []"
  "w \<in> set (planUsageWindows scope since) \<Longrightarrow> window_where w key \<Longrightarrow> pw_since w = start_of scope since key"
proof -
  show "w \<in> set (planUsageWindows scope since) \<Longrightarrow> window_where w key \<Longrightarrow> pw_since w = start_of scope since key"
  proof (cases "map_of (us_keyWindows scope) key")
    case None
    then have "key \<notin> fst ` set (us_keyWindows scope)" by (simp add: map_of_eq_None_iff)
    then show "w \<in> set (planUsageWindows scope since) \<Longrightarrow> window_where w key \<Longrightarrow> pw_since w = start_of scope since key"
      using None by (auto simp: planUsageWindows_def window_where_def start_of_def Let_def image_iff split: if_splits)
  next
    case (Some t)
    define K where "K = sort (remdups (map fst (us_keyWindows scope)))"
    have "key \<in> fst ` set (us_keyWindows scope)" using Some by (metis map_of_eq_None_iff option.distinct(1))
    then have "key \<in> set K" by (simp add: K_def)
    then show "w \<in> set (planUsageWindows scope since) \<Longrightarrow> window_where w key \<Longrightarrow> pw_since w = start_of scope since key"
      using Some by (auto simp: planUsageWindows_def window_where_def start_of_def Let_def simp flip: K_def split: if_splits)
  qed
  show "filter (\<lambda>w. window_where w key) (planUsageWindows scope since) \<noteq> []"
  proof (cases "key \<in> fst ` set (us_keyWindows scope)")
    case True
    then show ?thesis
      by (auto simp: planUsageWindows_def window_where_def Let_def filter_empty_conv intro!: bexI [where x = key])
  qed (auto simp: planUsageWindows_def window_where_def Let_def filter_empty_conv)
qed

text \<open>A condition on the parts of the windows is one on the part of the window of the key.\<close>

lemma parts_of_key:
  assumes "\<And>w p. p \<in> set (sel (window_parts cur w)) \<Longrightarrow> up_window p = w"
    and "\<And>w w' p. pw_since w = pw_since w' \<Longrightarrow> p \<in> set (sel (window_parts cur w)) \<Longrightarrow> \<exists>p'\<in>set (sel (window_parts cur w')). up_from p' = up_from p \<and> up_to p' = up_to p"
  shows "list_ex (\<lambda>p. window_where (up_window p) key \<and> C (up_from p) (up_to p)) (concat (map (sel \<circ> window_parts cur) (planUsageWindows scope since)))
    \<longleftrightarrow> list_ex (\<lambda>p. C (up_from p) (up_to p)) (sel (window_parts cur \<lparr>pw_since = start_of scope since key, pw_keys = None, pw_exclude = False\<rparr>))"
    (is "?l \<longleftrightarrow> list_ex ?c (sel (window_parts cur ?w))")
proof
  assume ?l
  then obtain w p where w: "w \<in> set (planUsageWindows scope since)" and p: "p \<in> set (sel (window_parts cur w))"
    and k: "window_where (up_window p) key" "C (up_from p) (up_to p)"
    by (auto simp: list_ex_iff)
  have "up_window p = w" using assms(1) p .
  then have "pw_since w = pw_since ?w" using windows_for_key(2) [OF w] k(1) by simp
  then obtain p' where "p' \<in> set (sel (window_parts cur ?w))" "up_from p' = up_from p" "up_to p' = up_to p"
    using assms(2) [OF _ p, of ?w] by blast
  then show "list_ex ?c (sel (window_parts cur ?w))" using k(2) by (auto simp: list_ex_iff intro!: bexI [of _ p'])
next
  assume "list_ex ?c (sel (window_parts cur ?w))"
  then obtain p where p: "p \<in> set (sel (window_parts cur ?w))" "C (up_from p) (up_to p)" by (auto simp: list_ex_iff)
  obtain w where w: "w \<in> set (planUsageWindows scope since)" "window_where w key"
    using windows_for_key(1) by (metis (mono_tags, lifting) filter_empty_conv)
  have "pw_since w = pw_since ?w" using windows_for_key(2) [OF w] by simp
  then obtain p' where "p' \<in> set (sel (window_parts cur w))" "up_from p' = up_from p" "up_to p' = up_to p"
    using assms(2) [of ?w w p] p(1) by auto
  then show ?l using w p(2) assms(1) by (fastforce simp: list_ex_iff)
qed

lemma window_parts_window:
  "p \<in> set (fst (window_parts cur w)) \<Longrightarrow> up_window p = w"
  "p \<in> set (fst (snd (window_parts cur w))) \<Longrightarrow> up_window p = w"
  "p \<in> set (snd (snd (window_parts cur w))) \<Longrightarrow> up_window p = w"
  by (auto simp: window_parts_def Let_def split: if_splits)

lemma window_parts_start:
  assumes "pw_since w = pw_since w'"
  shows "p \<in> set (fst (window_parts cur w)) \<Longrightarrow> \<exists>p'\<in>set (fst (window_parts cur w')). up_from p' = up_from p \<and> up_to p' = up_to p"
    and "p \<in> set (fst (snd (window_parts cur w))) \<Longrightarrow> \<exists>p'\<in>set (fst (snd (window_parts cur w'))). up_from p' = up_from p \<and> up_to p' = up_to p"
    and "p \<in> set (snd (snd (window_parts cur w))) \<Longrightarrow> \<exists>p'\<in>set (snd (snd (window_parts cur w'))). up_from p' = up_from p \<and> up_to p' = up_to p"
  using assms by (auto simp: window_parts_def Let_def split: if_splits)

lemma head_of_key:
  "list_ex (\<lambda>p. window_where (up_window p) key \<and> C (up_from p) (up_to p)) (concat (map (fst \<circ> window_parts cur) (planUsageWindows scope since)))
    \<longleftrightarrow> list_ex (\<lambda>p. C (up_from p) (up_to p)) (fst (window_parts cur \<lparr>pw_since = start_of scope since key, pw_keys = None, pw_exclude = False\<rparr>))"
  by (rule parts_of_key [where sel = "fst"]) (erule window_parts_window, erule window_parts_start, assumption)

lemma hours_of_key:
  "list_ex (\<lambda>p. window_where (up_window p) key \<and> C (up_from p) (up_to p)) (concat (map ((\<lambda>x. fst (snd x)) \<circ> window_parts cur) (planUsageWindows scope since)))
    \<longleftrightarrow> list_ex (\<lambda>p. C (up_from p) (up_to p)) ((\<lambda>x. fst (snd x)) (window_parts cur \<lparr>pw_since = start_of scope since key, pw_keys = None, pw_exclude = False\<rparr>))"
  by (rule parts_of_key [where sel = "(\<lambda>x. fst (snd x))"]) (erule window_parts_window, erule window_parts_start, assumption)

lemma tail_of_key:
  "list_ex (\<lambda>p. window_where (up_window p) key \<and> C (up_from p) (up_to p)) (concat (map ((\<lambda>x. snd (snd x)) \<circ> window_parts cur) (planUsageWindows scope since)))
    \<longleftrightarrow> list_ex (\<lambda>p. C (up_from p) (up_to p)) ((\<lambda>x. snd (snd x)) (window_parts cur \<lparr>pw_since = start_of scope since key, pw_keys = None, pw_exclude = False\<rparr>))"
  by (rule parts_of_key [where sel = "(\<lambda>x. snd (snd x))"]) (erule window_parts_window, erule window_parts_start, assumption)

lemma earliest_of_le: "t \<in> set ts \<Longrightarrow> earliest_of ts \<le> t"
proof -
  have "fold (\<lambda>b a. if b < a then b else a) us a \<le> a \<and> (\<forall>u\<in>set us. fold (\<lambda>b a. if b < a then b else a) us a \<le> u)" for us and a :: int
    by (induction us arbitrary: a) (auto, force+)
  then show "t \<in> set ts \<Longrightarrow> earliest_of ts \<le> t" by (cases ts) (auto simp: earliest_of_def)
qed

lemma latest_of_ge: "t \<in> set ts \<Longrightarrow> t \<le> latest_of ts"
proof -
  have "a \<le> fold (\<lambda>b a. if b > a then b else a) us a \<and> (\<forall>u\<in>set us. u \<le> fold (\<lambda>b a. if b > a then b else a) us a)" for us and a :: int
    by (induction us arbitrary: a) (auto, force+)
  then show "t \<in> set ts \<Longrightarrow> t \<le> latest_of ts" by (cases ts) (auto simp: latest_of_def)
qed

section \<open>What each source contributes\<close>

text \<open>The record of a row of a source, and the part of the window that reads it.\<close>

definition in_head :: "int \<Rightarrow> int \<Rightarrow> int \<Rightarrow> bool" where
  "in_head cur start t \<longleftrightarrow> start < cur \<and> start mod hour_ns \<noteq> 0 \<and> start \<le> t \<and> t < truncate_hour start + hour_ns"

definition first_hour :: "int \<Rightarrow> int" where
  "first_hour start = (if start mod hour_ns = 0 then start else truncate_hour start + hour_ns)"

definition in_hours :: "int \<Rightarrow> int \<Rightarrow> int \<Rightarrow> bool" where
  "in_hours cur start t \<longleftrightarrow> first_hour start \<le> t \<and> t < cur"

definition in_tail :: "int \<Rightarrow> int \<Rightarrow> int \<Rightarrow> bool" where
  "in_tail cur start t \<longleftrightarrow> max cur start \<le> t"

lemma truncate_hour: "truncate_hour t \<le> t" "t < truncate_hour t + hour_ns" "truncate_hour t mod hour_ns = 0"
  using pos_mod_bound [of hour_ns t] pos_mod_sign [of hour_ns t] by (simp_all add: truncate_hour_def mod_diff_eq [of t _ "t mod hour_ns"])

lemma truncate_less: "truncate_hour t < t \<longleftrightarrow> t mod hour_ns \<noteq> 0"
  using pos_mod_sign [of hour_ns t] by (simp add: truncate_hour_def) linarith

lemma head_cond:
  "list_ex (\<lambda>p. up_from p \<le> t \<and> t < up_to p) (fst (window_parts cur \<lparr>pw_since = start, pw_keys = ks, pw_exclude = e\<rparr>))
    \<longleftrightarrow> in_head cur start t"
  by (auto simp: window_parts_def in_head_def truncate_less Let_def)

lemma hours_cond:
  "list_ex (\<lambda>p. up_from p \<le> t) (fst (snd (window_parts cur \<lparr>pw_since = start, pw_keys = ks, pw_exclude = e\<rparr>))) \<and> t < cur
    \<longleftrightarrow> in_hours cur start t"
proof -
  have "truncate_hour start = start" if "start mod hour_ns = 0" using that by (simp add: truncate_hour_def)
  moreover have "start \<le> first_hour start" using truncate_hour(2) [of start] by (simp add: first_hour_def)
  ultimately show ?thesis
    by (auto simp: window_parts_def in_hours_def first_hour_def truncate_less Let_def)
qed

lemma tail_cond:
  "list_ex (\<lambda>p. up_from p \<le> t) (snd (snd (window_parts cur \<lparr>pw_since = start, pw_keys = ks, pw_exclude = e\<rparr>)))
    \<longleftrightarrow> in_tail cur start t"
  by (auto simp: window_parts_def in_tail_def Let_def)

text \<open>The three parts tile the window.\<close>

lemma parts_tile:
  assumes "cur mod hour_ns = 0"
  shows "(if in_head cur start t then v else 0) + (if in_hours cur start t then v else 0) + (if in_tail cur start t then v else 0)
    = (if start \<le> t then v else (0 :: int))"
proof -
  have b: "truncate_hour start \<le> start" "start < truncate_hour start + hour_ns" by (fact truncate_hour)+
  have n: "truncate_hour start + hour_ns \<le> cur" if "start < cur"
  proof -
    have e: "truncate_hour start = hour_ns * (start div hour_ns)" "cur = hour_ns * (cur div hour_ns)"
      using assms mult_div_mod_eq [of hour_ns start] mult_div_mod_eq [of hour_ns cur] unfolding truncate_hour_def by linarith+
    have "hour_ns * (start div hour_ns) < hour_ns * (cur div hour_ns)" using e b(1) that by linarith
    then have "start div hour_ns + 1 \<le> cur div hour_ns" by simp
    then have "hour_ns * (start div hour_ns + 1) \<le> hour_ns * (cur div hour_ns)" by simp
    then show ?thesis using e by (simp add: algebra_simps)
  qed
  show ?thesis using b n by (auto simp: in_head_def in_hours_def in_tail_def first_hour_def)
qed

section \<open>Sums over the sources\<close>

lemma sum_filter_map:
  "(\<Sum>y\<leftarrow>filter q (filter a (map h (filter b xs))). f y) = (\<Sum>x\<leftarrow>xs. if b x \<and> a (h x) \<and> q (h x) then f (h x) else (0 :: int))"
  by (induction xs) auto

lemma sum_filter: "(\<Sum>x\<leftarrow>filter b xs. f x) = (\<Sum>x\<leftarrow>xs. if b x then f x else (0 :: int))"
  by (induction xs) auto

lemma list_ex_cong_set: "(\<And>x. x \<in> set xs \<Longrightarrow> A x \<longleftrightarrow> B x) \<Longrightarrow> list_ex A xs \<longleftrightarrow> list_ex B xs"
  by (auto simp: list_ex_iff)

text \<open>A column of the rows and the sum it is in the hourly table.\<close>

locale summed_column =
  fixes f :: "plan_row \<Rightarrow> int" and g :: "hour_sums \<Rightarrow> int"
  assumes g_zero: "g 0 = 0"
    and g_plus: "g (a + b) = g a + g b"
    and f_hour: "f (hourly_row (k, s)) = g s"
    and f_record: "f (record_row r) = g (plan_hour_sums r)"
begin

lemma g_sum_where: "g (sum_where P t) = (\<Sum>kv\<leftarrow>t. if P (fst kv) then g (snd kv) else 0)"
  by (induction t) (simp_all add: g_zero g_plus)

lemma hours_sum:
  assumes "totals_ok zone db" and q: "\<And>k s s'. q (hourly_row (k, s)) \<longleftrightarrow> q (hourly_row (k, s'))"
  shows "(\<Sum>row\<leftarrow>filter q (map hourly_row (filter (P \<circ> fst) (db_hourly db))). f row)
    = (\<Sum>r\<leftarrow>db_records db. if ur_planCovered r \<and> P (plan_hour_key r) \<and> q (hourly_row (plan_hour_key r, 0)) then f (record_row r) else 0)"
proof -
  have "(\<Sum>row\<leftarrow>filter q (map hourly_row (filter (P \<circ> fst) t)). f row) = g (sum_where (\<lambda>k. P k \<and> q (hourly_row (k, 0))) t)" for t
  proof (induction t)
    case (Cons kv t)
    obtain k s where kv: "kv = (k, s)" by (cases kv)
    have "q (hourly_row (k, s)) \<longleftrightarrow> q (hourly_row (k, 0))" by (rule q)
    then show ?case using Cons.IH by (simp add: kv g_zero g_plus f_hour del: hourly_row.simps)
  qed (simp add: g_zero)
  moreover have "sum_where (\<lambda>k. P k \<and> q (hourly_row (k, 0))) (db_hourly db) = sum_where (\<lambda>k. P k \<and> q (hourly_row (k, 0))) (hour_rows db)"
    using assms(1) by (simp add: totals_ok_def)
  moreover have "g (sum_where Q (hour_rows db)) = (\<Sum>r\<leftarrow>db_records db. if ur_planCovered r \<and> Q (plan_hour_key r) then f (record_row r) else 0)" for Q
    unfolding g_sum_where hour_rows_def f_record by (simp add: comp_def sum_filter) (rule arg_cong [where f = sum_list], auto)
  ultimately show ?thesis by simp
qed

end

interpretation tokens_column: summed_column pl_tokens hs_tokens
  by unfold_locales (auto simp: zero_hour_sums_def plus_hour_sums_def plan_hour_sums_def record_row_def)

interpretation value_column: summed_column pl_value hs_value
  by unfold_locales (auto simp: zero_hour_sums_def plus_hour_sums_def plan_hour_sums_def record_row_def)

section \<open>Hours as texts\<close>

lemma four_digit_between: "four_digit_year a \<Longrightarrow> four_digit_year c \<Longrightarrow> a \<le> b \<Longrightarrow> b \<le> c \<Longrightarrow> four_digit_year b"
  using zdiv_mono1 [of a b day_ns] zdiv_mono1 [of b c day_ns] by (simp add: four_digit_year_def)

lemma usageHour_whole:
  assumes "four_digit_year t" "four_digit_year h" "h mod hour_ns = 0"
  shows "text_less (usageHour t) (usageHour h) \<longleftrightarrow> t < h"
proof -
  have e: "h = hour_ns * (h div hour_ns)" using assms(3) mult_div_mod_eq [of hour_ns h] by linarith
  have "t div hour_ns < h div hour_ns \<longleftrightarrow> t < h"
  proof
    assume "t div hour_ns < h div hour_ns"
    then have "hour_ns * (t div hour_ns + 1) \<le> hour_ns * (h div hour_ns)" by simp
    then show "t < h" using div_range [of hour_ns t] e by (simp add: algebra_simps)
  next
    assume "t < h"
    then have "hour_ns * (t div hour_ns) < hour_ns * (h div hour_ns)" using div_range [of hour_ns t] e by simp
    then show "t div hour_ns < h div hour_ns" by simp
  qed
  then show ?thesis using format_hour_less [OF assms(1,2)] by (simp add: usageHour_def)
qed

lemma earliest_of_mem: "ts \<noteq> [] \<Longrightarrow> earliest_of ts \<in> set ts"
proof -
  have "fold (\<lambda>b a. if b < a then b else a) us a \<in> insert a (set us)" for us and a :: int
  proof (induction us arbitrary: a)
    case (Cons b us)
    then show ?case using Cons.IH [of a] Cons.IH [of b] by auto
  qed simp
  then show "ts \<noteq> [] \<Longrightarrow> earliest_of ts \<in> set ts" by (cases ts) (auto simp: earliest_of_def)
qed

lemma hours_parts:
  assumes "p \<in> set (concat (map ((\<lambda>x. fst (snd x)) \<circ> window_parts cur) ws))"
  shows "\<exists>w\<in>set ws. up_from p = first_hour (pw_since w) \<and> pw_since w \<le> up_from p \<and> up_from p < cur \<and> up_from p mod hour_ns = 0"
proof -
  obtain w where w: "w \<in> set ws" "p \<in> set (fst (snd (window_parts cur w)))" using assms by auto
  have m: "(truncate_hour t + hour_ns) mod hour_ns = 0" for t using truncate_hour(3) [of t] by simp
  have "truncate_hour t = t" if "t mod hour_ns = 0" for t using that by (simp add: truncate_hour_def)
  then show ?thesis
    using w truncate_hour(2) [of "pw_since w"] m [of "pw_since w"]
    by (intro bexI [OF _ w(1)]) (auto simp: window_parts_def first_hour_def truncate_less Let_def split: if_splits)
qed

definition spelled :: "int \<Rightarrow> plan_usage_scope \<Rightarrow> int \<Rightarrow> usage_db \<Rightarrow> bool" where
  "spelled now scope since db \<longleftrightarrow>
     four_digit_year now \<and> four_digit_year since \<and> (\<forall>(_, t)\<in>set (us_keyWindows scope). four_digit_year t)
     \<and> (\<forall>r\<in>set (db_records db). four_digit_year (ur_createdAt r))"

lemma spelled_windows: "spelled now scope since db \<Longrightarrow> w \<in> set (planUsageWindows scope since) \<Longrightarrow> four_digit_year (pw_since w)"
  by (auto simp: spelled_def planUsageWindows_def Let_def split: if_splits) (metis (mono_tags, lifting) case_prodD map_of_SomeD option.sel weak_map_of_SomeI)

lemma truncate_four_digit:
  assumes "four_digit_year t"
  shows "four_digit_year (truncate_hour t)"
proof -
  have "24 * hour_ns * (t div day_ns) \<le> t" using div_range [of day_ns t] by simp
  have "t div hour_ns div 24 = t div day_ns" by (simp flip: zdiv_zmult2_eq)
  moreover have "truncate_hour t = hour_ns * (t div hour_ns)" by (simp add: truncate_hour_def minus_mod_eq_mult_div)
  ultimately have "truncate_hour t div day_ns = t div day_ns"
    by (simp add: div_mult_mult1 zdiv_zmult2_eq)
  then show ?thesis using assms by (simp add: four_digit_year_def)
qed

lemma hours_source_cond:
  assumes "spelled now scope since db" "r \<in> set (db_records db)" "cur = truncate_hour now"
  defines "parts \<equiv> concat (map ((\<lambda>x. fst (snd x)) \<circ> window_parts cur) (planUsageWindows scope since))"
  shows "\<not> text_less (usageHour (ur_createdAt r)) (usageHour (earliest_of (map up_from parts))) \<and> text_less (usageHour (ur_createdAt r)) (usageHour cur)
      \<and> list_ex (\<lambda>p. window_where (up_window p) key \<and> \<not> text_less (usageHour (ur_createdAt r)) (usageHour (up_from p))) parts
    \<longleftrightarrow> in_hours cur (start_of scope since key) (ur_createdAt r)"
proof -
  let ?t = "ur_createdAt r"
  have t: "four_digit_year ?t" using assms(1,2) by (simp add: spelled_def)
  have c: "four_digit_year cur" "cur mod hour_ns = 0"
    using assms(1,3) truncate_four_digit truncate_hour(3) by (simp_all add: spelled_def)
  have p: "text_less (usageHour ?t) (usageHour (up_from p)) \<longleftrightarrow> ?t < up_from p" if mem: "p \<in> set parts" for p
  proof -
    obtain w where w0: "w \<in> set (planUsageWindows scope since)"
      and w1: "up_from p = first_hour (pw_since w) \<and> pw_since w \<le> up_from p \<and> up_from p < cur \<and> up_from p mod hour_ns = 0"
      using hours_parts [OF mem [unfolded parts_def]] by (rule bexE)
    note w = w0 w1 [THEN conjunct2, THEN conjunct1] w1 [THEN conjunct2, THEN conjunct2, THEN conjunct1]
      w1 [THEN conjunct2, THEN conjunct2, THEN conjunct2]
    have "four_digit_year (up_from p)" using four_digit_between [OF spelled_windows [OF assms(1) w(1)] c(1)] w(2,3) by simp
    then show ?thesis using usageHour_whole [OF t _ w(4)] by simp
  qed
  have e: "list_ex (\<lambda>p. window_where (up_window p) key \<and> \<not> text_less (usageHour ?t) (usageHour (up_from p))) parts
      \<longleftrightarrow> list_ex (\<lambda>p. window_where (up_window p) key \<and> up_from p \<le> ?t) parts" (is "?l \<longleftrightarrow> ?r")
    using p by (intro list_ex_cong_set) (simp add: not_less)
  have "\<not> text_less (usageHour ?t) (usageHour (earliest_of (map up_from parts)))" if ?r
  proof -
    obtain q where q: "q \<in> set parts" "up_from q \<le> ?t" using \<open>?r\<close> by (auto simp: list_ex_iff)
    obtain p0 where "p0 \<in> set parts" "earliest_of (map up_from parts) = up_from p0"
      using earliest_of_mem [of "map up_from parts"] q(1) by (cases parts) auto
    then show ?thesis using p earliest_of_le [of "up_from q" "map up_from parts"] q by auto
  qed
  moreover have "?r \<and> ?t < cur \<longleftrightarrow> in_hours cur (start_of scope since key) ?t"
    using hours_of_key [where C = "\<lambda>a _. a \<le> ?t" and key = key and cur = cur and scope = scope and since = since] hours_cond
    unfolding parts_def by simp
  ultimately show ?thesis using e usageHour_whole [OF t c] by blast
qed

lemma heads_source_cond:
  fixes cur since t :: int and scope :: plan_usage_scope
  defines "parts \<equiv> concat (map (fst \<circ> window_parts cur) (planUsageWindows scope since))"
  shows "earliest_of (map up_from parts) \<le> t \<and> t < latest_of (map up_to parts)
      \<and> list_ex (\<lambda>p. window_where (up_window p) key \<and> up_from p \<le> t \<and> t < up_to p) parts
    \<longleftrightarrow> in_head cur (start_of scope since key) t"
proof -
  have "list_ex (\<lambda>p. window_where (up_window p) key \<and> up_from p \<le> t \<and> t < up_to p) parts \<longleftrightarrow> in_head cur (start_of scope since key) t"
    using head_of_key [where C = "\<lambda>a b. a \<le> t \<and> t < b" and key = key and cur = cur and scope = scope and since = since] head_cond
    unfolding parts_def by simp
  moreover have "earliest_of (map up_from parts) \<le> t \<and> t < latest_of (map up_to parts)"
    if "list_ex (\<lambda>p. window_where (up_window p) key \<and> up_from p \<le> t \<and> t < up_to p) parts"
    using that earliest_of_le [of _ "map up_from parts"] latest_of_ge [of _ "map up_to parts"] by (force simp: list_ex_iff)
  ultimately show ?thesis by blast
qed

lemma tails_source_cond:
  fixes cur since t :: int and scope :: plan_usage_scope
  defines "parts \<equiv> concat (map ((\<lambda>x. snd (snd x)) \<circ> window_parts cur) (planUsageWindows scope since))"
  shows "earliest_of (map up_from parts) \<le> t \<and> list_ex (\<lambda>p. window_where (up_window p) key \<and> up_from p \<le> t) parts
    \<longleftrightarrow> in_tail cur (start_of scope since key) t"
proof -
  have "list_ex (\<lambda>p. window_where (up_window p) key \<and> up_from p \<le> t) parts \<longleftrightarrow> in_tail cur (start_of scope since key) t"
    using tail_of_key [where C = "\<lambda>a _. a \<le> t" and key = key and cur = cur and scope = scope and since = since] tail_cond
    unfolding parts_def by simp
  moreover have "earliest_of (map up_from parts) \<le> t" if "list_ex (\<lambda>p. window_where (up_window p) key \<and> up_from p \<le> t) parts"
    using that earliest_of_le [of _ "map up_from parts"] by (force simp: list_ex_iff)
  ultimately show ?thesis by blast
qed

lemma Since_le: "Since scope since \<le> start_of scope since key"
proof -
  have f: "fold (\<lambda>(_, start) t. if start < t then start else t) ws t \<le> t
      \<and> (\<forall>(k, s)\<in>set ws. fold (\<lambda>(_, start) t. if start < t then start else t) ws t \<le> s)" for ws :: "(string \<times> int) list" and t
    by (induction ws arbitrary: t) (auto, force+)
  show ?thesis
    using f [of "us_keyWindows scope" since] by (auto simp: Since_def start_of_def dest!: map_of_SomeD split: option.split)
qed

lemma planUsageQuery_start:
  "planUsageQuery scope since db = filter (\<lambda>r. start_of scope since (ur_keyID r) \<le> ur_createdAt r \<and> in_scope scope (record_row r)) (plan_records scope db)"
proof -
  have "Since scope since \<le> ur_createdAt r
      \<and> (us_keyWindows scope = [] \<or> ur_keyID r \<notin> fst ` set (us_keyWindows scope) \<and> since \<le> ur_createdAt r
         \<or> list_ex (\<lambda>(key, _). ur_keyID r = key \<and> the (map_of (us_keyWindows scope) key) \<le> ur_createdAt r) (us_keyWindows scope))
    \<longleftrightarrow> start_of scope since (ur_keyID r) \<le> ur_createdAt r" for r
  proof (cases "map_of (us_keyWindows scope) (ur_keyID r)")
    case None
    then have "ur_keyID r \<notin> fst ` set (us_keyWindows scope)" by (simp add: map_of_eq_None_iff)
    then show ?thesis using None Since_le [of scope since "ur_keyID r"]
      by (cases "us_keyWindows scope = []") (force simp: start_of_def list_ex_iff Since_def)+
  next
    case (Some t)
    then have "(ur_keyID r, t) \<in> set (us_keyWindows scope)" "us_keyWindows scope \<noteq> []" "ur_keyID r \<in> fst ` set (us_keyWindows scope)"
      by (auto dest: map_of_SomeD intro: rev_image_eqI)
    then show ?thesis using Some Since_le [of scope since "ur_keyID r"] by (auto simp: start_of_def list_ex_iff)
  qed
  then show ?thesis unfolding planUsageQuery_def by (intro filter_cong) auto
qed

section \<open>The sources together are the query over the records\<close>

lemma empty_sources [simp]: "heads_source scope [] db = []" "hours_source scope cur [] db = []"
  by (simp_all add: heads_source_def hours_source_def Let_def case_prod_unfold)

lemma sum_sources:
  fixes F :: "plan_row list \<Rightarrow> int"
  assumes "F [] = 0" "parts = map (window_parts (truncate_hour now)) (planUsageWindows scope since)"
  shows "(\<Sum>src\<leftarrow>planUsageSources scope since now. F (src db))
    = F (heads_source scope (concat (map fst parts)) db)
      + F (hours_source scope (truncate_hour now) (concat (map (fst \<circ> snd) parts)) db)
      + F (tails_source scope (concat (map (snd \<circ> snd) parts)) db)"
  using assms(1) unfolding planUsageSources_def Let_def assms(2) [symmetric]
  by (auto simp del: map_map concat_eq_Nil_conv)

lemma plan_records_sum:
  "(\<Sum>r\<leftarrow>plan_records scope db. h r)
    = (\<Sum>r\<leftarrow>db_records db. if ur_orgID r = us_orgID scope \<and> ur_providerID r = us_providerID scope \<and> ur_planCovered r then h r else (0 :: int))"
  by (simp add: plan_records_def sum_filter)

lemma sum_list_cong: "(\<And>x. x \<in> set xs \<Longrightarrow> f x = g x) \<Longrightarrow> (\<Sum>x\<leftarrow>xs. f x) = (\<Sum>x\<leftarrow>xs. g x)"
  by (metis map_cong)

lemma record_hour_columns:
  "pl_key (hourly_row (plan_hour_key r, s)) = ur_keyID r" "pl_model (hourly_row (plan_hour_key r, s)) = ur_modelID r"
  "pl_user (hourly_row (plan_hour_key r, s)) = ur_userID r"
  by (simp_all add: plan_hour_key_def)

lemma record_row_columns [simp]:
  "pl_key (record_row r) = ur_keyID r" "pl_model (record_row r) = ur_modelID r" "pl_user (record_row r) = ur_userID r"
  by (simp_all add: record_row_def)

context summed_column
begin

lemma heads_sum:
  "(\<Sum>row\<leftarrow>filter q (heads_source scope (concat (map fst (map (window_parts cur) (planUsageWindows scope since)))) db). f row)
    = (\<Sum>r\<leftarrow>plan_records scope db. if in_head cur (start_of scope since (ur_keyID r)) (ur_createdAt r)
        \<and> in_scope scope (record_row r) \<and> q (record_row r) then f (record_row r) else 0)"
  unfolding heads_source_def Let_def sum_filter_map map_map heads_source_cond by (rule refl)

lemma tails_sum:
  "(\<Sum>row\<leftarrow>filter q (tails_source scope (concat (map (snd \<circ> snd) (map (window_parts cur) (planUsageWindows scope since)))) db). f row)
    = (\<Sum>r\<leftarrow>plan_records scope db. if in_tail cur (start_of scope since (ur_keyID r)) (ur_createdAt r)
        \<and> in_scope scope (record_row r) \<and> q (record_row r) then f (record_row r) else 0)"
proof -
  have "snd \<circ> snd \<circ> window_parts cur = (\<lambda>x. snd (snd x)) \<circ> window_parts cur" by (simp add: comp_def)
  then show ?thesis
    unfolding tails_source_def Let_def sum_filter_map map_map by (simp only: tails_source_cond)
qed

lemma middle_sum:
  assumes "totals_ok zone db" "spelled now scope since db" "cur = truncate_hour now"
    and q: "\<And>row. q row \<longleftrightarrow> qq (pl_key row) (pl_model row) (pl_user row)"
  shows "(\<Sum>row\<leftarrow>filter q (hours_source scope cur (concat (map (fst \<circ> snd) (map (window_parts cur) (planUsageWindows scope since)))) db). f row)
    = (\<Sum>r\<leftarrow>plan_records scope db. if in_hours cur (start_of scope since (ur_keyID r)) (ur_createdAt r)
        \<and> in_scope scope (record_row r) \<and> q (record_row r) then f (record_row r) else 0)"
proof -
  define ps where "ps = concat (map ((\<lambda>x. fst (snd x)) \<circ> window_parts cur) (planUsageWindows scope since))"
  define P where "P = (\<lambda>(org, prov, hour, key, _ :: string, _ :: string). org = us_orgID scope \<and> prov = us_providerID scope
      \<and> \<not> text_less hour (usageHour (earliest_of (map up_from ps))) \<and> text_less hour (usageHour cur)
      \<and> list_ex (\<lambda>p. window_where (up_window p) key \<and> \<not> text_less hour (usageHour (up_from p))) ps)"
  have ps: "concat (map (fst \<circ> snd) (map (window_parts cur) (planUsageWindows scope since))) = ps"
    by (simp add: ps_def comp_def)
  have src: "filter q (hours_source scope cur ps db)
      = filter (\<lambda>row. in_scope scope row \<and> q row) (map hourly_row (filter (P \<circ> fst) (db_hourly db)))"
    unfolding hours_source_def P_def by (simp add: Let_def comp_def case_prod_unfold)
  have cols: "in_scope scope (hourly_row (k, s)) \<and> q (hourly_row (k, s)) \<longleftrightarrow> in_scope scope (hourly_row (k, s')) \<and> q (hourly_row (k, s'))" for k s s'
    by (cases k) (simp add: q in_scope_def)
  have key: "P (plan_hour_key r) \<longleftrightarrow> ur_orgID r = us_orgID scope \<and> ur_providerID r = us_providerID scope
      \<and> in_hours cur (start_of scope since (ur_keyID r)) (ur_createdAt r)" if "r \<in> set (db_records db)" for r
    using hours_source_cond [OF assms(2) that assms(3), of "ur_keyID r"] unfolding P_def ps_def by (simp add: plan_hour_key_def)
  show ?thesis
    unfolding ps src hours_sum [where q = "\<lambda>row. in_scope scope row \<and> q row", OF assms(1) cols] plan_records_sum
    by (rule sum_list_cong) (auto simp: key in_scope_def q record_hour_columns)
qed

lemma sources_sum:
  assumes "totals_ok zone db" "spelled now scope since db"
    and q: "\<And>row. q row \<longleftrightarrow> qq (pl_key row) (pl_model row) (pl_user row)"
  shows "(\<Sum>src\<leftarrow>planUsageSources scope since now. \<Sum>row\<leftarrow>filter q (src db). f row)
    = (\<Sum>row\<leftarrow>filter q (map record_row (planUsageQuery scope since db)). f row)"
proof -
  define cur where "cur = truncate_hour now"
  have tile: "(if in_head cur s t \<and> a then v else 0) + (if in_hours cur s t \<and> a then v else 0) + (if in_tail cur s t \<and> a then v else 0)
      = (if s \<le> t \<and> a then v else 0)" for s t a and v :: int
    using parts_tile [of cur s t v] truncate_hour(3) [of now] by (cases a) (simp_all add: cur_def)
  let ?parts = "map (window_parts cur) (planUsageWindows scope since)"
  have "(\<Sum>src\<leftarrow>planUsageSources scope since now. \<Sum>row\<leftarrow>filter q (src db). f row)
      = (\<Sum>row\<leftarrow>filter q (heads_source scope (concat (map fst ?parts)) db). f row)
        + (\<Sum>row\<leftarrow>filter q (hours_source scope cur (concat (map (fst \<circ> snd) ?parts)) db). f row)
        + (\<Sum>row\<leftarrow>filter q (tails_source scope (concat (map (snd \<circ> snd) ?parts)) db). f row)"
    unfolding cur_def by (rule sum_sources) simp_all
  also have "\<dots> = (\<Sum>r\<leftarrow>plan_records scope db. if start_of scope since (ur_keyID r) \<le> ur_createdAt r
          \<and> in_scope scope (record_row r) \<and> q (record_row r) then f (record_row r) else 0)"
    unfolding heads_sum tails_sum middle_sum [where q = q and qq = qq, OF assms(1,2) cur_def q] sum_list_addf [symmetric] tile by (rule refl)
  also have "\<dots> = (\<Sum>row\<leftarrow>filter q (map record_row (planUsageQuery scope since db)). f row)"
    unfolding planUsageQuery_start by (simp add: filter_map comp_def sum_filter conj_ac cong: if_cong)
  finally show ?thesis .
qed

end

lemma totals_eq_iff: "a = b \<longleftrightarrow> pt_tokens a = pt_tokens b \<and> pt_value a = pt_value b" for a b :: plan_totals
  by (cases a; cases b) simp

lemma fold_totals:
  "pt_tokens (fold (\<lambda>src t. add_totals t (sum_rows (h src))) srcs t) = pt_tokens t + (\<Sum>src\<leftarrow>srcs. \<Sum>row\<leftarrow>h src. pl_tokens row)"
  "pt_value (fold (\<lambda>src t. add_totals t (sum_rows (h src))) srcs t) = pt_value t + (\<Sum>src\<leftarrow>srcs. \<Sum>row\<leftarrow>h src. pl_value row)"
  by (induction srcs arbitrary: t) (simp_all add: add_totals_def sum_rows_def)

lemma sources_totals:
  assumes "totals_ok zone db" "spelled now scope since db" and q: "\<And>row. q row \<longleftrightarrow> qq (pl_key row) (pl_model row) (pl_user row)"
  shows "fold (\<lambda>src t. add_totals t (sum_rows (filter q (src db)))) (planUsageSources scope since now) \<lparr>pt_tokens = 0, pt_value = 0\<rparr>
    = sum_rows (filter q (map record_row (planUsageQuery scope since db)))"
  using tokens_column.sources_sum [where q = q and qq = qq, OF assms(1,2) q] value_column.sources_sum [where q = q and qq = qq, OF assms(1,2) q]
  by (simp add: totals_eq_iff fold_totals) (simp add: sum_rows_def)

text \<open>The totals a grouped read holds for a key.\<close>

definition totals_for :: "('k \<times> plan_totals) list \<Rightarrow> 'k \<Rightarrow> plan_totals" where
  "totals_for m k = (case map_of m k of Some t \<Rightarrow> t | None \<Rightarrow> \<lparr>pt_tokens = 0, pt_value = 0\<rparr>)"

lemma totals_for_add_grouped:
  "totals_for (add_grouped key rows m) k = add_totals (totals_for m k) (sum_rows (filter (\<lambda>row. key row = k) rows))"
proof -
  let ?step = "\<lambda>k m. AList.update k (add_totals (case map_of m k of Some t \<Rightarrow> t | None \<Rightarrow> \<lparr>pt_tokens = 0, pt_value = 0\<rparr>)
      (sum_rows (filter (\<lambda>row. key row = k) rows))) m"
  have f: "totals_for (fold ?step ks m) k = (if k \<in> set ks then add_totals (totals_for m k) (sum_rows (filter (\<lambda>row. key row = k) rows)) else totals_for m k)"
    if "distinct ks" for ks m using that
    by (induction ks arbitrary: m) (auto simp: totals_for_def update_conv')
  have "sum_rows (filter (\<lambda>row. key row = k) rows) = \<lparr>pt_tokens = 0, pt_value = 0\<rparr>" if "k \<notin> key ` set rows"
  proof -
    have "filter (\<lambda>row. key row = k) rows = []" using that by (auto simp: filter_empty_conv)
    then show ?thesis by (simp add: sum_rows_def)
  qed
  then show ?thesis unfolding add_grouped_def by (subst f) (auto simp: add_totals_def)
qed

lemma totals_for_fold:
  "totals_for (fold (\<lambda>src. add_grouped key (h src)) srcs m) k
    = fold (\<lambda>src t. add_totals t (sum_rows (filter (\<lambda>row. key row = k) (h src)))) srcs (totals_for m k)"
  by (induction srcs arbitrary: m) (simp_all add: totals_for_add_grouped)

lemma parts_cover:
  assumes "cur mod hour_ns = 0"
  shows "in_head cur s t \<or> in_hours cur s t \<or> in_tail cur s t \<longleftrightarrow> s \<le> t"
  using parts_tile [OF assms, of s t 1] by (auto split: if_splits)

lemma set_sources:
  assumes "parts = map (window_parts (truncate_hour now)) (planUsageWindows scope since)"
  shows "(\<Union>src\<in>set (planUsageSources scope since now). set (src db))
    = set (heads_source scope (concat (map fst parts)) db)
      \<union> set (hours_source scope (truncate_hour now) (concat (map (fst \<circ> snd) parts)) db)
      \<union> set (tails_source scope (concat (map (snd \<circ> snd) parts)) db)"
  unfolding planUsageSources_def Let_def assms [symmetric] by (auto simp del: map_map concat_eq_Nil_conv)

lemma hours_users:
  assumes "totals_ok zone db" "spelled now scope since db" "cur = truncate_hour now"
  shows "(\<exists>row\<in>set (hours_source scope cur (concat (map (fst \<circ> snd) (map (window_parts cur) (planUsageWindows scope since)))) db). pl_user row = u)
    \<longleftrightarrow> (\<exists>r\<in>set (plan_records scope db). in_hours cur (start_of scope since (ur_keyID r)) (ur_createdAt r)
          \<and> in_scope scope (record_row r) \<and> ur_userID r = u)"
proof -
  define ps where "ps = concat (map ((\<lambda>x. fst (snd x)) \<circ> window_parts cur) (planUsageWindows scope since))"
  define P where "P = (\<lambda>(org, prov, hour, key, _ :: string, _ :: string). org = us_orgID scope \<and> prov = us_providerID scope
      \<and> \<not> text_less hour (usageHour (earliest_of (map up_from ps))) \<and> text_less hour (usageHour cur)
      \<and> list_ex (\<lambda>p. window_where (up_window p) key \<and> \<not> text_less hour (usageHour (up_from p))) ps)"
  have ps: "concat (map (fst \<circ> snd) (map (window_parts cur) (planUsageWindows scope since))) = ps"
    by (simp add: ps_def comp_def)
  have cols: "in_scope scope (hourly_row (k, s)) \<longleftrightarrow> in_scope scope (hourly_row (k, 0))" "pl_user (hourly_row (k, s)) = pl_user (hourly_row (k, 0))" for k s
    by (cases k, simp add: in_scope_def)+
  have key: "P (plan_hour_key r) \<longleftrightarrow> ur_orgID r = us_orgID scope \<and> ur_providerID r = us_providerID scope
      \<and> in_hours cur (start_of scope since (ur_keyID r)) (ur_createdAt r)" if "r \<in> set (db_records db)" for r
    using hours_source_cond [OF assms(2) that assms(3), of "ur_keyID r"] unfolding P_def ps_def by (simp add: plan_hour_key_def)
  have "(\<exists>row\<in>set (hours_source scope cur ps db). pl_user row = u)
      \<longleftrightarrow> (\<exists>k\<in>fst ` set (db_hourly db). P k \<and> in_scope scope (hourly_row (k, 0)) \<and> pl_user (hourly_row (k, 0)) = u)"
    unfolding hours_source_def P_def using cols by (fastforce simp: Let_def case_prod_unfold)
  also have "\<dots> \<longleftrightarrow> (\<exists>r\<in>set (db_records db). ur_planCovered r \<and> P (plan_hour_key r) \<and> in_scope scope (hourly_row (plan_hour_key r, 0))
      \<and> pl_user (hourly_row (plan_hour_key r, 0)) = u)"
    using assms(1) by (auto simp: totals_ok_def hour_rows_def)
  also have "\<dots> \<longleftrightarrow> (\<exists>r\<in>set (plan_records scope db). in_hours cur (start_of scope since (ur_keyID r)) (ur_createdAt r)
          \<and> in_scope scope (record_row r) \<and> ur_userID r = u)"
    unfolding plan_records_def using key by (auto simp: in_scope_def record_hour_columns)
  finally show ?thesis unfolding ps .
qed

lemma sources_users:
  assumes "totals_ok zone db" "spelled now scope since db"
  shows "(\<exists>src\<in>set (planUsageSources scope since now). \<exists>row\<in>set (src db). pl_user row = u)
    \<longleftrightarrow> (\<exists>r\<in>set (planUsageQuery scope since db). ur_userID r = u)"
proof -
  define cur where "cur = truncate_hour now"
  let ?ps = "map (window_parts cur) (planUsageWindows scope since)"
  have tail: "snd \<circ> snd \<circ> window_parts cur = (\<lambda>x. snd (snd x)) \<circ> window_parts cur" by (simp add: comp_def)
  have h: "(\<exists>row\<in>set (heads_source scope (concat (map fst ?ps)) db). pl_user row = u)
      \<longleftrightarrow> (\<exists>r\<in>set (plan_records scope db). in_head cur (start_of scope since (ur_keyID r)) (ur_createdAt r) \<and> in_scope scope (record_row r) \<and> ur_userID r = u)"
    unfolding heads_source_def Let_def map_map heads_source_cond by auto
  have t: "(\<exists>row\<in>set (tails_source scope (concat (map (snd \<circ> snd) ?ps)) db). pl_user row = u)
      \<longleftrightarrow> (\<exists>r\<in>set (plan_records scope db). in_tail cur (start_of scope since (ur_keyID r)) (ur_createdAt r) \<and> in_scope scope (record_row r) \<and> ur_userID r = u)"
    unfolding tails_source_def Let_def map_map tail tails_source_cond by auto
  have "(\<exists>src\<in>set (planUsageSources scope since now). \<exists>row\<in>set (src db). pl_user row = u)
      \<longleftrightarrow> (\<exists>row\<in>(\<Union>src\<in>set (planUsageSources scope since now). set (src db)). pl_user row = u)" by auto
  also have "\<dots> \<longleftrightarrow> (\<exists>r\<in>set (plan_records scope db). (in_head cur (start_of scope since (ur_keyID r)) (ur_createdAt r)
      \<or> in_hours cur (start_of scope since (ur_keyID r)) (ur_createdAt r) \<or> in_tail cur (start_of scope since (ur_keyID r)) (ur_createdAt r))
      \<and> in_scope scope (record_row r) \<and> ur_userID r = u)"
    unfolding set_sources [OF refl] bex_Un cur_def [symmetric] h t hours_users [OF assms cur_def] by blast
  also have "\<dots> \<longleftrightarrow> (\<exists>r\<in>set (planUsageQuery scope since db). ur_userID r = u)"
    using parts_cover [of cur] truncate_hour(3) [of now] by (auto simp: cur_def planUsageQuery_start)
  finally show ?thesis .
qed

lemma CountActive_users:
  "CountActivePlanUsersSince db now scope since ex
    = int (card {u. u \<noteq> [] \<and> (ex \<noteq> [] \<longrightarrow> u \<noteq> ex) \<and> (\<exists>src\<in>set (planUsageSources scope since now). \<exists>row\<in>set (src db). pl_user row = u)})"
proof -
  have one: "int (length (remdups us)) = int (card (set us))" for us :: "string list" by (simp add: length_remdups_card_conv)
  have f: "set (map pl_user (filter (\<lambda>row. pl_user row \<noteq> [] \<and> (ex \<noteq> [] \<longrightarrow> pl_user row \<noteq> ex)) rows))
      = {u. u \<noteq> [] \<and> (ex \<noteq> [] \<longrightarrow> u \<noteq> ex) \<and> (\<exists>row\<in>set rows. pl_user row = u)}" for rows
    by auto
  show ?thesis
  proof (cases "planUsageSources scope since now")
    case (Cons src srcs)
    then show ?thesis
      unfolding CountActivePlanUsersSince_def Let_def
      by (cases srcs) (simp_all add: one f del: set_map set_filter, auto intro!: arg_cong [where f = card])
  qed (simp add: CountActivePlanUsersSince_def)
qed

lemma plan_reads_exact:
  assumes "db_reachable zone db" "spelled now scope since db"
  defines "records \<equiv> planUsageQuery scope since db"
  shows total_exact: "sumPlanUsage db now scope userID since
      = sum_rows (map record_row (filter (\<lambda>r. userID \<noteq> [] \<longrightarrow> ur_userID r = userID) records))"
    and by_model_exact: "totals_for (SumPlanUsageByModelSince db now scope userID since) m
      = sum_rows (map record_row (filter (\<lambda>r. (userID \<noteq> [] \<longrightarrow> ur_userID r = userID) \<and> ur_modelID r = m) records))"
    and by_key_exact: "totals_for (SumPlanUsageByKeySince db now scope since) (key, m)
      = sum_rows (map record_row (filter (\<lambda>r. ur_keyID r = key \<and> ur_modelID r = m) records))"
    and active_users_exact: "CountActivePlanUsersSince db now scope since ex
      = int (card {u \<in> ur_userID ` set records. u \<noteq> [] \<and> (ex \<noteq> [] \<longrightarrow> u \<noteq> ex)})"
proof -
  note ok = reachable_totals [OF assms(1)]
  note sums = sources_totals [OF ok assms(2)]
  show "sumPlanUsage db now scope userID since
      = sum_rows (map record_row (filter (\<lambda>r. userID \<noteq> [] \<longrightarrow> ur_userID r = userID) records))"
    unfolding sumPlanUsage_def records_def
    using sums [where q = "of_user userID" and qq = "\<lambda>_ _ u. userID \<noteq> [] \<longrightarrow> u = userID"]
    by (simp add: of_user_def filter_map comp_def)
  show "totals_for (SumPlanUsageByModelSince db now scope userID since) m
      = sum_rows (map record_row (filter (\<lambda>r. (userID \<noteq> [] \<longrightarrow> ur_userID r = userID) \<and> ur_modelID r = m) records))"
    unfolding SumPlanUsageByModelSince_def records_def totals_for_fold
    using sums [where q = "\<lambda>row. of_user userID row \<and> pl_model row = m" and qq = "\<lambda>_ m' u. (userID \<noteq> [] \<longrightarrow> u = userID) \<and> m' = m"]
    by (simp add: of_user_def filter_map comp_def totals_for_def)
  show "totals_for (SumPlanUsageByKeySince db now scope since) (key, m)
      = sum_rows (map record_row (filter (\<lambda>r. ur_keyID r = key \<and> ur_modelID r = m) records))"
    unfolding SumPlanUsageByKeySince_def records_def totals_for_fold
    using sums [where q = "\<lambda>row. pl_key row = key \<and> pl_model row = m" and qq = "\<lambda>k' m' _. k' = key \<and> m' = m"]
    by (simp add: filter_map comp_def totals_for_def)
  show "CountActivePlanUsersSince db now scope since ex
      = int (card {u \<in> ur_userID ` set records. u \<noteq> [] \<and> (ex \<noteq> [] \<longrightarrow> u \<noteq> ex)})"
    unfolding CountActive_users sources_users [OF ok assms(2)] records_def
    by (rule arg_cong [where f = "\<lambda>s. int (card s)"]) auto
qed

text \<open>
  C7.  The usage of a plan read from the hourly sums is the usage of its records: after any history of recorded requests
  and rebuilds, the total of a plan, or of one user of it, the totals per model and per key, and the count of active
  users, read from the partial first hour, the whole hours and the current hour of every window, are those of the query
  over all the records since the start of the window of their key.
\<close>

theorem plan_usage_exact:
  assumes "db_reachable zone db" "spelled now scope since db" "records = planUsageQuery scope since db"
  shows "sumPlanUsage db now scope userID since
      = sum_rows (map record_row (filter (\<lambda>r. userID \<noteq> [] \<longrightarrow> ur_userID r = userID) records))
    \<and> totals_for (SumPlanUsageByModelSince db now scope userID since) m
      = sum_rows (map record_row (filter (\<lambda>r. (userID \<noteq> [] \<longrightarrow> ur_userID r = userID) \<and> ur_modelID r = m) records))
    \<and> totals_for (SumPlanUsageByKeySince db now scope since) (key, m)
      = sum_rows (map record_row (filter (\<lambda>r. ur_keyID r = key \<and> ur_modelID r = m) records))
    \<and> CountActivePlanUsersSince db now scope since ex
      = int (card {u \<in> ur_userID ` set records. u \<noteq> [] \<and> (ex \<noteq> [] \<longrightarrow> u \<noteq> ex)})"
  using total_exact by_model_exact by_key_exact active_users_exact assms by simp

definition plan_sample_record :: "string \<Rightarrow> string \<Rightarrow> int \<Rightarrow> int \<Rightarrow> usage_record" where
  "plan_sample_record user key tokens t = (sample_record user 0 t)\<lparr>ur_planCovered := True, ur_keyID := key, ur_totalTokens := tokens\<rparr>"

definition plan_sample_db :: usage_db where
  "plan_sample_db = RecordUsage (\<lambda>_. 0) (plan_sample_record ''ann'' ''k2'' 400 (5 * hour_ns))
     (backfillPlanUsageHourly (RecordUsage (\<lambda>_. 0) (plan_sample_record ''bob'' '''' 30 (3 * hour_ns))
       (RecordUsage (\<lambda>_. 0) (plan_sample_record ''ann'' ''k2'' 2 hour_ns) (RecordUsage (\<lambda>_. 0) (plan_sample_record ''ann'' '''' 1 0) empty_db))))"

definition plan_sample_scope :: plan_usage_scope where
  "plan_sample_scope = \<lparr>us_orgID = ''acme'', us_providerID = ''p'', us_modelIDs = [], us_byKey = False, us_keyID = '''',
     us_keyWindows = [(''k2'', 2 * hour_ns)]\<rparr>"

lemma plan_sample_reachable: "db_reachable (\<lambda>_. 0) plan_sample_db"
  unfolding plan_sample_db_def by (intro db_reachable.intros)

lemma plan_sample_records: "db_records plan_sample_db =
    [plan_sample_record ''ann'' '''' 1 0, plan_sample_record ''ann'' ''k2'' 2 hour_ns,
     plan_sample_record ''bob'' '''' 30 (3 * hour_ns), plan_sample_record ''ann'' ''k2'' 400 (5 * hour_ns)]"
  by (simp add: plan_sample_db_def RecordUsage_def backfillPlanUsageHourly_def empty_db_def)

theorem plan_usage_exact_witness:
  "pt_tokens (sumPlanUsage plan_sample_db (5 * hour_ns) plan_sample_scope '''' (30 * 60 * 10 ^ 9)) = 430"
proof -
  have sp: "spelled (5 * hour_ns) plan_sample_scope (30 * 60 * 10 ^ 9) plan_sample_db"
    by (simp add: spelled_def plan_sample_records plan_sample_scope_def plan_sample_record_def sample_record_def four_digit_year_def)
  show ?thesis
    unfolding plan_usage_exact [OF plan_sample_reachable sp refl, THEN conjunct1]
    by (simp add: planUsageQuery_def plan_records_def plan_sample_records plan_sample_scope_def plan_sample_record_def sample_record_def
        in_scope_def Since_def sum_rows_def record_row_def)
qed

end
