(* ===== verification/Usage_Cache.thy ===== *)
theory Usage_Cache
  imports Usage_Store Quota_Enforcer
begin

text \<open>
  The cache of budget totals in front of the usage store (\<open>src/internal/adapter/cache/usage_store.go\<close> over
  \<open>memory.go\<close>): totals are read through it on every request, and incremented in place once a record is stored.

  An entry of the code is named by its four parts joined with colons; here the parts are the key.  The critical sections
  of the code are the steps of the interleaving below; an entry may expire or be evicted between any two of them.
\<close>

section \<open>The in-memory cache\<close>

record memory_entry =
  me_value :: int
  me_expiresAt :: "int option"

type_synonym sum_key = "quota_scope \<times> string \<times> string \<times> civil"

definition expired :: "int \<Rightarrow> memory_entry \<Rightarrow> bool" where
  "expired now e = (case me_expiresAt e of None \<Rightarrow> False | Some t \<Rightarrow> now > t)"

definition GetInt64 :: "int \<Rightarrow> sum_key \<Rightarrow> (sum_key \<Rightarrow> memory_entry option) \<Rightarrow> (sum_key \<Rightarrow> memory_entry option) \<times> int option" where
  "GetInt64 now key c =
     (case c key of
        None \<Rightarrow> (c, None)
      | Some e \<Rightarrow> if expired now e then (c(key := None), None) else (c, Some (me_value e)))"

definition SetInt64 :: "int \<Rightarrow> int \<Rightarrow> sum_key \<Rightarrow> int \<Rightarrow> (sum_key \<Rightarrow> memory_entry option) \<Rightarrow> sum_key \<Rightarrow> memory_entry option" where
  "SetInt64 now ttl key v c = c(key := Some \<lparr>me_value = v, me_expiresAt = (if ttl > 0 then Some (now + ttl) else None)\<rparr>)"

definition AddInt64 :: "int \<Rightarrow> sum_key \<Rightarrow> int \<Rightarrow> (sum_key \<Rightarrow> memory_entry option) \<Rightarrow> sum_key \<Rightarrow> memory_entry option" where
  "AddInt64 now key delta c =
     (case c key of
        None \<Rightarrow> c
      | Some e \<Rightarrow> if expired now e then c(key := None) else c(key := Some (e\<lparr>me_value := me_value e + delta\<rparr>)))"

section \<open>Loads in flight\<close>

record key_load =
  kl_readers :: int
  kl_stale :: bool

record usage_cache =
  uc_entries :: "sum_key \<Rightarrow> memory_entry option"
  uc_loading :: "sum_key \<Rightarrow> key_load option"

definition beginLoad :: "sum_key \<Rightarrow> usage_cache \<Rightarrow> usage_cache" where
  "beginLoad key c =
     (let load = (case uc_loading c key of Some l \<Rightarrow> l | None \<Rightarrow> \<lparr>kl_readers = 0, kl_stale = False\<rparr>)
      in c\<lparr>uc_loading := (uc_loading c)(key := Some (load\<lparr>kl_readers := kl_readers load + 1\<rparr>))\<rparr>)"

definition finishLoad :: "int \<Rightarrow> int \<Rightarrow> sum_key \<Rightarrow> int \<Rightarrow> bool \<Rightarrow> usage_cache \<Rightarrow> usage_cache" where
  "finishLoad now ttl key v store c =
     (case uc_loading c key of
        None \<Rightarrow> c
      | Some load \<Rightarrow>
          (let n = kl_readers load - 1;
               c' = c\<lparr>uc_loading := (uc_loading c)(key := if n \<le> 0 then None else Some (load\<lparr>kl_readers := n\<rparr>))\<rparr>
           in if \<not> store \<or> kl_stale load then c' else c'\<lparr>uc_entries := SetInt64 now ttl key v (uc_entries c')\<rparr>))"

definition applyRecordedCost :: "int \<Rightarrow> sum_key \<Rightarrow> int \<Rightarrow> usage_cache \<Rightarrow> usage_cache" where
  "applyRecordedCost now key cost c =
     c\<lparr>uc_loading := (case uc_loading c key of None \<Rightarrow> uc_loading c | Some l \<Rightarrow> (uc_loading c)(key := Some (l\<lparr>kl_stale := True\<rparr>))),
        uc_entries := AddInt64 now key cost (uc_entries c)\<rparr>"

text \<open>The entries a record adds to: the day, month and year of its counters, a start the three share only once.\<close>

definition window_starts :: "civil \<Rightarrow> civil list" where
  "window_starts t = remdups_adj [StartOfDay t, StartOfMonth t, StartOfYear t]"

definition quotaSumCacheKeysFor :: "(int \<Rightarrow> int) \<Rightarrow> usage_record \<Rightarrow> sum_key list" where
  "quotaSumCacheKeysFor zone r =
     concat (map (\<lambda>start. map (\<lambda>(scope, scopeID). (scope, scopeID, ur_orgID r, start)) (QuotaCounters r))
       (window_starts (local_time zone (ur_createdAt r))))"

section \<open>Reads and records, interleaved\<close>

text \<open>
  A reader looks an entry up, registers its load, reads the store and closes the load; the store may fail it.  A recorder
  stores its record, then applies the cost to each of its entries.
\<close>

datatype cache_task =
    ReadKey sum_key
  | Missed sum_key
  | Loading sum_key
  | Fetched sum_key int
  | Answered sum_key "int option"
  | Recording usage_record
  | Applying usage_record "sum_key list"

definition SumOf :: "usage_db \<Rightarrow> sum_key \<Rightarrow> int" where
  "SumOf db key = (case key of (scope, scopeID, orgID, since) \<Rightarrow> SumQuotaCostSince db scope scopeID orgID since)"

type_synonym cache_system = "usage_db \<times> usage_cache \<times> cache_task list"

inductive cache_step :: "(int \<Rightarrow> int) \<Rightarrow> int \<Rightarrow> cache_system \<Rightarrow> cache_system \<Rightarrow> bool" for zone ttl where
  hit: "i < length ts \<Longrightarrow> ts ! i = ReadKey key \<Longrightarrow> GetInt64 now key (uc_entries c) = (es, Some v) \<Longrightarrow>
    cache_step zone ttl (db, c, ts) (db, c\<lparr>uc_entries := es\<rparr>, ts[i := Answered key (Some v)])"
| miss: "i < length ts \<Longrightarrow> ts ! i = ReadKey key \<Longrightarrow> GetInt64 now key (uc_entries c) = (es, None) \<Longrightarrow>
    cache_step zone ttl (db, c, ts) (db, c\<lparr>uc_entries := es\<rparr>, ts[i := Missed key])"
| begin_load: "i < length ts \<Longrightarrow> ts ! i = Missed key \<Longrightarrow>
    cache_step zone ttl (db, c, ts) (db, beginLoad key c, ts[i := Loading key])"
| fetch: "i < length ts \<Longrightarrow> ts ! i = Loading key \<Longrightarrow>
    cache_step zone ttl (db, c, ts) (db, c, ts[i := Fetched key (SumOf db key)])"
| fetch_failed: "i < length ts \<Longrightarrow> ts ! i = Loading key \<Longrightarrow>
    cache_step zone ttl (db, c, ts) (db, finishLoad now ttl key 0 False c, ts[i := Answered key None])"
| finish_load: "i < length ts \<Longrightarrow> ts ! i = Fetched key v \<Longrightarrow>
    cache_step zone ttl (db, c, ts) (db, finishLoad now ttl key v True c, ts[i := Answered key (Some v)])"
| store_record: "i < length ts \<Longrightarrow> ts ! i = Recording r \<Longrightarrow>
    cache_step zone ttl (db, c, ts) (RecordUsage zone r db, c, ts[i := Applying r (quotaSumCacheKeysFor zone r)])"
| apply_cost: "i < length ts \<Longrightarrow> ts ! i = Applying r (key # keys) \<Longrightarrow>
    cache_step zone ttl (db, c, ts) (db, applyRecordedCost now key (ur_cost r) c, ts[i := Applying r keys])"
| evict: "cache_step zone ttl (db, c, ts) (db, c\<lparr>uc_entries := (uc_entries c)(key := None)\<rparr>, ts)"
| next_request: "cache_step zone ttl (db, c, ts) (db, c, ts @ [ReadKey key])"
| next_record: "cache_step zone ttl (db, c, ts) (db, c, ts @ [Recording r])"

definition empty_cache :: usage_cache where
  "empty_cache = \<lparr>uc_entries = \<lambda>_. None, uc_loading = \<lambda>_. None\<rparr>"

inductive cache_reachable :: "(int \<Rightarrow> int) \<Rightarrow> int \<Rightarrow> usage_db \<Rightarrow> cache_system \<Rightarrow> bool" for zone ttl db0 where
  cache_start: "cache_reachable zone ttl db0 (db0, empty_cache, [])"
| cache_more: "cache_reachable zone ttl db0 s \<Longrightarrow> cache_step zone ttl s s' \<Longrightarrow> cache_reachable zone ttl db0 s'"

section \<open>Cached totals never lag behind\<close>

definition feeds :: "(int \<Rightarrow> int) \<Rightarrow> sum_key \<Rightarrow> usage_record \<Rightarrow> bool" where
  "feeds zone key r = (case key of (scope, scopeID, orgID, since) \<Rightarrow>
     ur_orgID r = orgID \<and> (scope, scopeID) \<in> set (QuotaCounters r)
     \<and> \<not> text_less (quotaUsageDay (local_time zone (ur_createdAt r))) (quotaUsageDay since))"

lemma SumOf_record: "SumOf (RecordUsage zone r db) key = SumOf db key + (if feeds zone key r then ur_cost r else 0)"
proof (cases key)
  case (fields scope scopeID orgID since)
  have "SumOf (RecordUsage zone r db) key = SumOf db key
      + (\<Sum>x\<leftarrow>QuotaCounters r. if x = (scope, scopeID) \<and> ur_orgID r = orgID
          \<and> \<not> text_less (quotaUsageDay (local_time zone (ur_createdAt r))) (quotaUsageDay since) then ur_cost r else 0)"
    by (simp add: fields SumOf_def SumQuotaCostSince_def RecordUsage_def counters_table.sum_add sum_where_counters case_prod_unfold
        prod_eq_iff conj_assoc quotaUsageDay_def cong: if_cong)
  then show ?thesis unfolding sum_one_counter [OF counters_distinct] by (auto simp: feeds_def fields)
qed

text \<open>What the recorders under way still have to add to an entry, and the loads of it in flight.\<close>

fun unapplied :: "sum_key \<Rightarrow> cache_task \<Rightarrow> int" where
  "unapplied key (Applying r keys) = int (count_list keys key) * ur_cost r"
| "unapplied key _ = 0"

fun in_flight :: "sum_key \<Rightarrow> cache_task \<Rightarrow> int" where
  "in_flight key (Loading k) = (if k = key then 1 else 0)"
| "in_flight key (Fetched k _) = (if k = key then 1 else 0)"
| "in_flight key _ = 0"

abbreviation "pending key ts \<equiv> (\<Sum>t\<leftarrow>ts. unapplied key t)"

abbreviation "flights key ts \<equiv> (\<Sum>t\<leftarrow>ts. in_flight key t)"

lemma sum_update: "i < length ts \<Longrightarrow> (\<Sum>t\<leftarrow>ts[i := x]. f t) = (\<Sum>t\<leftarrow>ts. f t) - f (ts ! i) + (f x :: int)"
  by (induction ts arbitrary: i) (auto split: nat.split)

lemma flights_nonneg: "0 \<le> flights key ts"
proof -
  have "0 \<le> in_flight key t" for t by (cases "(key, t)" rule: in_flight.cases) auto
  then show ?thesis by (intro sum_list_nonneg) auto
qed

definition cache_inv :: "sum_key \<Rightarrow> cache_system \<Rightarrow> bool" where
  "cache_inv key s = (case s of (db, c, ts) \<Rightarrow>
     (case uc_loading c key of None \<Rightarrow> flights key ts = 0 | Some l \<Rightarrow> flights key ts > 0 \<and> kl_readers l = flights key ts)
     \<and> (\<forall>t\<in>set ts. \<forall>v. t = Fetched key v \<longrightarrow> (\<exists>l. uc_loading c key = Some l \<and> (kl_stale l \<or> SumOf db key - pending key ts \<le> v)))
     \<and> (\<forall>e. uc_entries c key = Some e \<longrightarrow> SumOf db key - pending key ts \<le> me_value e)
     \<and> (\<forall>t\<in>set ts. \<forall>r ks. t = Applying r ks \<longrightarrow> r \<in> set (db_records db)))"

definition windowed :: "(int \<Rightarrow> int) \<Rightarrow> sum_key \<Rightarrow> usage_db \<Rightarrow> bool" where
  "windowed zone key db \<longleftrightarrow>
     (\<forall>r\<in>set (db_records db). 0 \<le> ur_cost r \<and> (feeds zone key r \<longrightarrow> key \<in> set (quotaSumCacheKeysFor zone r)))"

lemma GetInt64_entry: "GetInt64 now key c = (es, x) \<Longrightarrow> es k = Some e \<Longrightarrow> c k = Some e"
  by (auto simp: GetInt64_def split: option.splits if_splits)

lemma AddInt64_entry:
  "AddInt64 now k d c key = Some e \<Longrightarrow> \<exists>e'. c key = Some e' \<and> me_value e = me_value e' + (if k = key then d else 0)"
  by (auto simp: AddInt64_def split: option.splits if_splits)

lemma loading_sel:
  "uc_loading (beginLoad k c) key = (if k = key then Some (case uc_loading c key of Some l \<Rightarrow> l\<lparr>kl_readers := kl_readers l + 1\<rparr>
      | None \<Rightarrow> \<lparr>kl_readers = 1, kl_stale = False\<rparr>) else uc_loading c key)"
  "uc_entries (beginLoad k c) = uc_entries c"
  "uc_loading (applyRecordedCost now k d c) key
    = (if k = key then map_option (\<lambda>l. l\<lparr>kl_stale := True\<rparr>) (uc_loading c key) else uc_loading c key)"
  "uc_entries (applyRecordedCost now k d c) = AddInt64 now k d (uc_entries c)"
  by (auto simp: beginLoad_def applyRecordedCost_def Let_def split: option.split)

lemma finishLoad_sel:
  "uc_loading (finishLoad now ttl k v st c) key = (if k = key then (case uc_loading c key of None \<Rightarrow> None
      | Some l \<Rightarrow> if kl_readers l - 1 \<le> 0 then None else Some (l\<lparr>kl_readers := kl_readers l - 1\<rparr>)) else uc_loading c key)"
  "uc_entries (finishLoad now ttl k v st c) key = Some e \<Longrightarrow>
    uc_entries c key = Some e \<or> k = key \<and> st \<and> me_value e = v \<and> (\<exists>l. uc_loading c key = Some l \<and> \<not> kl_stale l)"
  by (auto simp: finishLoad_def SetInt64_def Let_def split: option.splits if_splits)

lemma mem_update: "x \<in> set (ts[i := y]) \<Longrightarrow> x = y \<or> x \<in> set ts"
  using set_update_subset_insert by fastforce

lemma pending_apply:
  "i < length ts \<Longrightarrow> ts ! i = Applying r (k # ks) \<Longrightarrow>
    pending key (ts[i := Applying r ks]) = pending key ts - (if k = key then ur_cost r else 0)"
  by (simp add: sum_update algebra_simps)

lemma flights_loading: "Loading key \<in> set ts \<Longrightarrow> 0 < flights key ts"
proof (induction ts)
  case (Cons t ts)
  have "0 \<le> in_flight key t" by (cases "(key, t)" rule: in_flight.cases) auto
  then show ?case using Cons flights_nonneg [of key ts] by auto
qed simp

lemma flights_fetched: "Fetched key v \<in> set ts \<Longrightarrow> 0 < flights key ts"
proof (induction ts)
  case (Cons t ts)
  have "0 \<le> in_flight key t" by (cases "(key, t)" rule: in_flight.cases) auto
  then show ?case using Cons flights_nonneg [of key ts] by auto
qed simp

lemma pending_nonneg:
  assumes "\<forall>t\<in>set ts. \<forall>r ks. t = Applying r ks \<longrightarrow> r \<in> set (db_records db)" "windowed zone key db"
  shows "0 \<le> pending key ts"
proof (rule sum_list_nonneg)
  fix x assume "x \<in> set (map (unapplied key) ts)"
  then obtain t where t: "t \<in> set ts" "x = unapplied key t" by auto
  show "0 \<le> x"
  proof (cases t)
    case (Applying r ks)
    then show ?thesis using assms t by (auto simp: windowed_def)
  qed (use t in auto)
qed

lemma cache_inv_load_closed:
  assumes inv: "cache_inv key (db, c, ts)" and i: "i < length ts" "ts ! i = task" "in_flight key task = (if k = key then 1 else 0)" "unapplied key task = 0"
    and st: "st \<Longrightarrow> task = Fetched k v"
  shows "cache_inv key (db, finishLoad now ttl k v st c, ts[i := Answered k x])"
proof -
  let ?ts = "ts[i := Answered k x]"
  have p: "pending key ?ts = pending key ts" using i by (simp add: sum_update)
  have f: "flights key ?ts = flights key ts - (if k = key then 1 else 0)" using i by (simp add: sum_update)
  have load: "case uc_loading (finishLoad now ttl k v st c) key of None \<Rightarrow> flights key ?ts = 0
      | Some l \<Rightarrow> flights key ?ts > 0 \<and> kl_readers l = flights key ?ts"
    using inv flights_nonneg [of key ?ts] unfolding finishLoad_sel f by (auto simp: cache_inv_def split: option.splits)
  have fetched: "\<exists>l. uc_loading (finishLoad now ttl k v st c) key = Some l \<and> (kl_stale l \<or> SumOf db key - pending key ?ts \<le> w)"
    if "Fetched key w \<in> set ?ts" for w
  proof -
    have m: "Fetched key w \<in> set ts" using mem_update [OF that] by auto
    then obtain l where "uc_loading c key = Some l" "kl_stale l \<or> SumOf db key - pending key ts \<le> w"
      using inv unfolding cache_inv_def prod.case by blast
    then show ?thesis using load flights_fetched [OF that] unfolding finishLoad_sel p by (auto split: option.splits if_splits)
  qed
  have entry: "SumOf db key - pending key ?ts \<le> me_value e" if "uc_entries (finishLoad now ttl k v st c) key = Some e" for e
    using finishLoad_sel(2) [OF that]
  proof
    assume "uc_entries c key = Some e"
    then show ?thesis using inv p by (auto simp: cache_inv_def)
  next
    assume a: "k = key \<and> st \<and> me_value e = v \<and> (\<exists>l. uc_loading c key = Some l \<and> \<not> kl_stale l)"
    then have "Fetched key v \<in> set ts" using st i(1,2) nth_mem by metis
    then show ?thesis using inv a p by (auto simp: cache_inv_def)
  qed
  have "\<forall>t\<in>set ?ts. \<forall>r ks. t = Applying r ks \<longrightarrow> r \<in> set (db_records db)"
    using inv by (auto simp: cache_inv_def dest!: mem_update)
  then show ?thesis using load fetched entry by (auto simp: cache_inv_def)
qed

lemma cache_inv_stored:
  assumes "cache_inv key (db, c, ts)" "i < length ts" "ts ! i = Recording r" "windowed zone key (RecordUsage zone r db)"
  shows "cache_inv key (RecordUsage zone r db, c, ts[i := Applying r (quotaSumCacheKeysFor zone r)])"
proof -
  let ?ks = "quotaSumCacheKeysFor zone r"
  have c: "0 \<le> ur_cost r" "feeds zone key r \<longrightarrow> key \<in> set ?ks" using assms(4) by (auto simp: windowed_def RecordUsage_def)
  have "(if feeds zone key r then ur_cost r else 0) \<le> int (count_list ?ks key) * ur_cost r"
  proof (cases "feeds zone key r")
    case True
    then have "1 \<le> int (count_list ?ks key)" using c(2) count_list_0_iff [of ?ks key] by linarith
    then show ?thesis using c(1) True mult_right_mono [of 1 "int (count_list ?ks key)" "ur_cost r"] by simp
  qed (use c(1) in simp)
  moreover have "pending key (ts[i := Applying r ?ks]) = pending key ts + int (count_list ?ks key) * ur_cost r"
    "flights key (ts[i := Applying r ?ks]) = flights key ts" using assms(2,3) by (simp_all add: sum_update)
  ultimately have d: "SumOf (RecordUsage zone r db) key - pending key (ts[i := Applying r ?ks]) \<le> SumOf db key - pending key ts"
    "flights key (ts[i := Applying r ?ks]) = flights key ts"
    by (simp_all add: SumOf_record)
  have r: "set (db_records (RecordUsage zone r db)) = insert r (set (db_records db))" by (simp add: RecordUsage_def)
  show ?thesis using assms(1) d unfolding cache_inv_def prod.case r
    by (auto dest!: mem_update split: option.splits)
qed

lemma cache_inv_applied:
  assumes "cache_inv key (db, c, ts)" "i < length ts" "ts ! i = Applying r (k # ks)"
  shows "cache_inv key (db, applyRecordedCost now k (ur_cost r) c, ts[i := Applying r ks])"
proof -
  have f: "flights key (ts[i := Applying r ks]) = flights key ts" using assms(2,3) by (simp add: sum_update)
  have r: "r \<in> set (db_records db)" using assms nth_mem [of i ts] by (auto simp: cache_inv_def)
  show ?thesis
    using assms(1) r unfolding cache_inv_def prod.case loading_sel pending_apply [OF assms(2,3)] f
    by (auto dest!: mem_update AddInt64_entry split: option.splits)
qed

lemma cache_inv_step:
  assumes "cache_step zone ttl s s'" "cache_inv key s" "windowed zone key (fst s')"
  shows "cache_inv key s'"
  using assms
proof (induction rule: cache_step.induct)
  case (hit i ts k now c es v db)
  then show ?case
    using GetInt64_entry [OF hit(3)] by (auto simp: cache_inv_def sum_update dest!: mem_update split: option.splits)
next
  case (miss i ts k now c es db)
  then show ?case
    using GetInt64_entry [OF miss(3)] by (auto simp: cache_inv_def sum_update dest!: mem_update split: option.splits)
next
  case (begin_load i ts k db c)
  then show ?case
    using flights_nonneg [of key ts]
    by (auto simp: cache_inv_def sum_update loading_sel dest!: mem_update split: option.splits)
next
  case (fetch i ts k db c)
  then have p: "pending key (ts[i := Fetched k (SumOf db k)]) = pending key ts" "flights key (ts[i := Fetched k (SumOf db k)]) = flights key ts"
    by (simp_all add: sum_update)
  have "0 \<le> pending key ts" using pending_nonneg [of ts db zone key] fetch by (simp add: cache_inv_def)
  moreover have "0 < flights key ts" if "k = key" using flights_loading [of key ts] nth_mem [OF fetch(1)] fetch(2) that by simp
  ultimately show ?case using fetch by (auto simp: cache_inv_def p dest!: mem_update split: option.splits)
next
  case (fetch_failed i ts k db now c)
  then show ?case by (intro cache_inv_load_closed) auto
next
  case (finish_load i ts k v db now c)
  then show ?case by (intro cache_inv_load_closed) auto
next
  case (store_record i ts r db c)
  then show ?case by (intro cache_inv_stored) auto
next
  case (apply_cost i ts r k ks db now c)
  then show ?case by (intro cache_inv_applied) auto
qed (auto simp: cache_inv_def split: option.splits)

lemma records_grow: "cache_step zone ttl s s' \<Longrightarrow> set (db_records (fst s)) \<subseteq> set (db_records (fst s'))"
  by (induction rule: cache_step.induct) (auto simp: RecordUsage_def)

lemma reachable_cache_inv: "cache_reachable zone ttl db0 s \<Longrightarrow> windowed zone key (fst s) \<Longrightarrow> cache_inv key s"
proof (induction rule: cache_reachable.induct)
  case cache_start
  show ?case by (simp add: cache_inv_def empty_cache_def)
next
  case (cache_more s s')
  then have "windowed zone key (fst s)" using records_grow by (fastforce simp: windowed_def)
  then show ?case using cache_more cache_inv_step by blast
qed

text \<open>The entries of a record are those of the windows its time opens, of every length.\<close>

lemma window_start_listed: "window_start per t \<in> set (window_starts t)"
  by (cases per) (auto simp: window_starts_def)

lemma recorder_covers:
  assumes "feeds zone (scope, scopeID, orgID, since) r" "window_start per (local_time zone (ur_createdAt r)) = since"
  shows "(scope, scopeID, orgID, since) \<in> set (quotaSumCacheKeysFor zone r)"
  using assms window_start_listed [of per "local_time zone (ur_createdAt r)"]
  by (force simp: quotaSumCacheKeysFor_def feeds_def)

text \<open>
  The window of length \<open>per\<close> that opens at \<open>since\<close> is the last one any record is dated in: every record is dated
  before it or in it.
\<close>

definition last_window :: "(int \<Rightarrow> int) \<Rightarrow> period \<Rightarrow> civil \<Rightarrow> usage_db \<Rightarrow> bool" where
  "last_window zone per since db \<longleftrightarrow> (\<forall>r\<in>set (db_records db). let t = local_time zone (ur_createdAt r) in
     text_less (quotaUsageDay t) (quotaUsageDay since) \<or> window_start per t = since)"

lemma last_window_covered:
  assumes "last_window zone per since db" "\<forall>r\<in>set (db_records db). 0 \<le> ur_cost r"
  shows "windowed zone (scope, scopeID, orgID, since) db"
proof -
  have "(scope, scopeID, orgID, since) \<in> set (quotaSumCacheKeysFor zone r)"
    if r: "r \<in> set (db_records db)" "feeds zone (scope, scopeID, orgID, since) r" for r
  proof (rule recorder_covers [OF r(2), of per])
    show "window_start per (local_time zone (ur_createdAt r)) = since"
      using assms(1) r by (auto simp: last_window_def feeds_def Let_def)
  qed
  then show ?thesis using assms(2) by (simp add: windowed_def)
qed

text \<open>
  C11.  A cached total of the current day, month or year never lets spending escape: however reads, records, failures
  and evictions interleave, the cached total of a scope since the start of a window is at least the total of the stored
  records, less what recorders under way have still to add to it.  The window is the last one a record is dated in (no
  record is dated in a later day, month or year than the window of the total) and recorded costs are not negative.
\<close>

theorem cached_total_not_under:
  assumes "cache_reachable zone ttl db0 (db, c, ts)" "uc_entries c (scope, scopeID, orgID, since) = Some e"
    and "last_window zone per since db" "\<forall>r\<in>set (db_records db). 0 \<le> ur_cost r"
  shows "SumQuotaCostSince db scope scopeID orgID since - pending (scope, scopeID, orgID, since) ts \<le> me_value e"
proof -
  have "cache_inv (scope, scopeID, orgID, since) (db, c, ts)"
    using reachable_cache_inv [OF assms(1)] last_window_covered [OF assms(3,4)] by simp
  then show ?thesis using assms(2) by (simp add: cache_inv_def SumOf_def)
qed

definition org_today :: sum_key where
  "org_today = (QuotaScopeOrg, ''acme'', ''acme'', StartOfDay (civil_of 0))"

abbreviation "spent_today \<equiv> sample_record ''ann'' 20 0"

lemma spent_today_keys: "quotaSumCacheKeysFor (\<lambda>_. 0) spent_today = org_today # map (\<lambda>(scope, sid). (scope, sid, ''acme'', StartOfDay (civil_of 0)))
    [(QuotaScopeUser, ''ann''), (QuotaScopeTeam, ''core''), (QuotaScopeTeamMember, ''core:ann'')]"
  using sample_days(1)
  by (simp add: quotaSumCacheKeysFor_def window_starts_def local_time_def StartOfDay_def StartOfMonth_def StartOfYear_def
      org_today_def sample_record_def QuotaCounters_def FeedsMonetaryBudget_def TeamMemberScopeID_def)

lemma spent_today_feeds: "feeds (\<lambda>_. 0) org_today spent_today"
  by (simp add: feeds_def org_today_def sample_record_def QuotaCounters_def FeedsMonetaryBudget_def local_time_def
      StartOfDay_def quotaUsageDay_def format_day_def)

abbreviation "paid_db \<equiv> RecordUsage (\<lambda>_. 0) spent_today empty_db"

lemma paid_total: "SumOf paid_db org_today = 20"
  using spent_today_feeds
  by (simp add: SumOf_record) (simp add: sample_record_def SumOf_def org_today_def SumQuotaCostSince_def empty_db_def)

text \<open>A record stored, its total read and cached by another request before the recorder adds to it.\<close>

definition loaded_cache :: usage_cache where
  "loaded_cache = \<lparr>uc_entries = [org_today \<mapsto> \<lparr>me_value = 20, me_expiresAt = Some 1\<rparr>], uc_loading = \<lambda>_. None\<rparr>"

lemma loaded_reachable:
  "cache_reachable (\<lambda>_. 0) 1 empty_db (paid_db, loaded_cache,
     [Applying spent_today (quotaSumCacheKeysFor (\<lambda>_. 0) spent_today), Answered org_today (Some 20)])"
proof -
  let ?R = "cache_reachable (\<lambda>_. 0) 1 empty_db" and ?ks = "quotaSumCacheKeysFor (\<lambda>_. 0) spent_today"
  note go = cache_more [of "\<lambda>_. 0" 1 empty_db]
  have "?R (empty_db, empty_cache, [Recording spent_today])"
    using go [OF cache_start next_record] by simp
  then have "?R (paid_db, empty_cache, [Applying spent_today ?ks])"
    using go [OF _ store_record [where i = 0]] by fastforce
  then have "?R (paid_db, empty_cache, [Applying spent_today ?ks, ReadKey org_today])"
    using go [OF _ next_request] by fastforce
  then have "?R (paid_db, empty_cache, [Applying spent_today ?ks, Missed org_today])"
    using go [OF _ miss [where i = 1 and now = 0 and key = org_today and c = empty_cache and es = "\<lambda>_. None"]]
    by (fastforce simp: GetInt64_def empty_cache_def)
  then have "?R (paid_db, beginLoad org_today empty_cache, [Applying spent_today ?ks, Loading org_today])"
    using go [OF _ begin_load [where i = 1 and key = org_today]] by fastforce
  then have "?R (paid_db, beginLoad org_today empty_cache, [Applying spent_today ?ks, Fetched org_today 20])"
    using go [OF _ fetch [where i = 1 and key = org_today and db = paid_db]] by (fastforce simp: paid_total)
  then have "?R (paid_db, finishLoad 0 1 org_today 20 True (beginLoad org_today empty_cache), [Applying spent_today ?ks, Answered org_today (Some 20)])"
    using go [OF _ finish_load [where i = 1 and key = org_today and v = 20 and now = 0]] by fastforce
  moreover have "finishLoad 0 1 org_today 20 True (beginLoad org_today empty_cache) = loaded_cache"
    by (auto simp: finishLoad_def beginLoad_def empty_cache_def loaded_cache_def SetInt64_def)
  ultimately show ?thesis by simp
qed

text \<open>
  The total of a month, cached before a record of the tenth of February is stored and its cost added to the entries of
  the day, the month and the year.
\<close>

definition february :: sum_key where
  "february = (QuotaScopeOrg, ''acme'', ''acme'', \<lparr>cv_year = 1970, cv_month = 2, cv_day = 1, cv_nanos = 0\<rparr>)"

abbreviation "spent_february \<equiv> sample_record ''ann'' 20 (40 * day_ns)"

abbreviation "february_db \<equiv> RecordUsage (\<lambda>_. 0) spent_february empty_db"

definition read_february :: usage_cache where
  "read_february = \<lparr>uc_entries = [february \<mapsto> \<lparr>me_value = 0, me_expiresAt = Some 1\<rparr>], uc_loading = \<lambda>_. None\<rparr>"

abbreviation "february_added keys c \<equiv> fold (\<lambda>k. applyRecordedCost 0 k 20) keys c"

lemma tenth_of_february: "civil_of (40 * day_ns) = \<lparr>cv_year = 1970, cv_month = 2, cv_day = 10, cv_nanos = 0\<rparr>"
  by code_simp

lemma february_keys: "count_list (quotaSumCacheKeysFor (\<lambda>_. 0) spent_february) february = 1"
  using tenth_of_february
  by (simp add: quotaSumCacheKeysFor_def window_starts_def local_time_def StartOfDay_def StartOfMonth_def StartOfYear_def
      february_def sample_record_def QuotaCounters_def FeedsMonetaryBudget_def TeamMemberScopeID_def)

lemma february_entry:
  "uc_entries c february = Some \<lparr>me_value = v, me_expiresAt = Some 1\<rparr> \<Longrightarrow>
    uc_entries (february_added keys c) february = Some \<lparr>me_value = v + 20 * int (count_list keys february), me_expiresAt = Some 1\<rparr>"
  by (induction keys arbitrary: c v) (simp_all add: loading_sel AddInt64_def expired_def split: option.split)

lemma applied_reachable:
  "cache_reachable zone ttl db0 (db, c, [x, Applying r ks]) \<Longrightarrow> ur_cost r = 20 \<Longrightarrow>
    cache_reachable zone ttl db0 (db, february_added ks c, [x, Applying r []])"
proof (induction ks arbitrary: c)
  case (Cons k ks)
  have "cache_reachable zone ttl db0 (db, applyRecordedCost 0 k 20 c, [x, Applying r ks])"
    using cache_more [OF Cons.prems(1) apply_cost [where i = 1 and now = 0]] Cons.prems(2) by fastforce
  then show ?case using Cons by simp
qed simp

lemma february_reachable:
  "cache_reachable (\<lambda>_. 0) 1 empty_db (february_db, february_added (quotaSumCacheKeysFor (\<lambda>_. 0) spent_february) read_february,
     [Answered february (Some 0), Applying spent_february []])"
proof -
  let ?R = "cache_reachable (\<lambda>_. 0) 1 empty_db" and ?ks = "quotaSumCacheKeysFor (\<lambda>_. 0) spent_february"
  note go = cache_more [of "\<lambda>_. 0" 1 empty_db]
  have "?R (empty_db, empty_cache, [ReadKey february])"
    using go [OF cache_start next_request] by simp
  then have "?R (empty_db, empty_cache, [Missed february])"
    using go [OF _ miss [where i = 0 and now = 0 and key = february and c = empty_cache and es = "\<lambda>_. None"]]
    by (fastforce simp: GetInt64_def empty_cache_def)
  then have "?R (empty_db, beginLoad february empty_cache, [Loading february])"
    using go [OF _ begin_load [where i = 0 and key = february]] by fastforce
  moreover have "SumOf empty_db february = 0" by (simp add: SumOf_def february_def SumQuotaCostSince_def empty_db_def)
  ultimately have "?R (empty_db, beginLoad february empty_cache, [Fetched february 0])"
    using go [OF _ fetch [where i = 0 and key = february and db = empty_db]] by fastforce
  then have "?R (empty_db, finishLoad 0 1 february 0 True (beginLoad february empty_cache), [Answered february (Some 0)])"
    using go [OF _ finish_load [where i = 0 and key = february and v = 0 and now = 0]] by fastforce
  moreover have "finishLoad 0 1 february 0 True (beginLoad february empty_cache) = read_february"
    by (auto simp: finishLoad_def beginLoad_def empty_cache_def read_february_def SetInt64_def)
  ultimately have "?R (empty_db, read_february, [Answered february (Some 0), Recording spent_february])"
    using go [OF _ next_record] by fastforce
  then have "?R (february_db, read_february, [Answered february (Some 0), Applying spent_february ?ks])"
    using go [OF _ store_record [where i = 1]] by fastforce
  then show ?thesis by (rule applied_reachable) (simp add: sample_record_def)
qed

theorem cached_total_not_under_witness:
  "SumQuotaCostSince february_db QuotaScopeOrg ''acme'' ''acme'' \<lparr>cv_year = 1970, cv_month = 2, cv_day = 1, cv_nanos = 0\<rparr> - 0 \<le> 20"
proof -
  have "SumQuotaCostSince february_db QuotaScopeOrg ''acme'' ''acme'' \<lparr>cv_year = 1970, cv_month = 2, cv_day = 1, cv_nanos = 0\<rparr>
      - pending february [Answered february (Some 0), Applying spent_february []] \<le> me_value \<lparr>me_value = 20, me_expiresAt = Some 1\<rparr>"
    unfolding february_def
  proof (rule cached_total_not_under [OF february_reachable [unfolded february_def], where per = Monthly])
    show "uc_entries (february_added (quotaSumCacheKeysFor (\<lambda>_. 0) spent_february) read_february)
        (QuotaScopeOrg, ''acme'', ''acme'', \<lparr>cv_year = 1970, cv_month = 2, cv_day = 1, cv_nanos = 0\<rparr>) = Some \<lparr>me_value = 20, me_expiresAt = Some 1\<rparr>"
      unfolding february_def [symmetric]
      using february_entry [of read_february 0 "quotaSumCacheKeysFor (\<lambda>_. 0) spent_february"]
      by (simp only: february_keys read_february_def) simp
    show "last_window (\<lambda>_. 0) Monthly \<lparr>cv_year = 1970, cv_month = 2, cv_day = 1, cv_nanos = 0\<rparr> february_db"
      using tenth_of_february
      by (simp add: last_window_def RecordUsage_def empty_db_def sample_record_def local_time_def StartOfMonth_def)
    show "\<forall>r\<in>set (db_records february_db). 0 \<le> ur_cost r" by (simp add: RecordUsage_def empty_db_def sample_record_def)
  qed
  then show ?thesis by simp
qed

text \<open>
  A cached total can still run ahead of the store for the length of its time to live: when a total is loaded between
  the moment a record is stored and the moment its cost is added, the cost is counted twice, no recorder being under way
  any more for that entry.
\<close>

theorem cached_total_counts_twice:
  "\<exists>db c ts e. cache_reachable (\<lambda>_. 0) 1 empty_db (db, c, ts) \<and> pending org_today ts = 0
     \<and> uc_entries c org_today = Some e \<and> SumOf db org_today = 20 \<and> me_value e = 40"
proof -
  let ?rest = "tl (quotaSumCacheKeysFor (\<lambda>_. 0) spent_today)" and ?c = "applyRecordedCost 0 org_today 20 loaded_cache"
  have "cache_reachable (\<lambda>_. 0) 1 empty_db (paid_db, ?c, [Applying spent_today ?rest, Answered org_today (Some 20)])"
    using cache_more [OF loaded_reachable apply_cost [where i = 0 and now = 0 and key = org_today and keys = ?rest and r = spent_today]]
    by (simp add: spent_today_keys) (simp add: sample_record_def)
  moreover have "pending org_today [Applying spent_today ?rest, Answered org_today (Some 20)] = 0"
    by (simp add: spent_today_keys) (simp add: org_today_def)
  moreover have "uc_entries ?c org_today = Some \<lparr>me_value = 40, me_expiresAt = Some 1\<rparr>"
    by (simp add: applyRecordedCost_def loaded_cache_def AddInt64_def expired_def)
  ultimately show ?thesis using paid_total by (intro exI conjI) auto
qed

end
