(* ===== verification/Permissions.thy ===== *)
theory Permissions
  imports Xolo_Prelude "HOL-Library.List_Lexorder" "HOL-Library.Char_ord" "HOL-Library.Product_Lexorder" "HOL-Library.Multiset"
begin

text \<open>
  Permissions and permission sets: \<open>src/internal/core/rbac/permission.go\<close>.

  A permission is the string of its code; the labels of the catalogue, which only the interface shows, are left
  out.  A Go map to \<open>struct{}\<close> is a set.  \<open>WithTeams\<close> ranges over such a map: the order in which the runtime visits
  the keys is the argument \<open>order\<close>, any list of the elements of the set.  \<open>slices.SortFunc\<close> is the sort by slug then
  identifier; teams with the same slug and identifier, which the code leaves in any order, keep theirs.
\<close>

section \<open>Codes and the catalogue\<close>

type_synonym permission = string

abbreviation PermMembersRead :: permission where "PermMembersRead \<equiv> ''members:read''"
abbreviation PermMembersWrite :: permission where "PermMembersWrite \<equiv> ''members:write''"
abbreviation PermRolesRead :: permission where "PermRolesRead \<equiv> ''roles:read''"
abbreviation PermRolesWrite :: permission where "PermRolesWrite \<equiv> ''roles:write''"
abbreviation PermTeamsRead :: permission where "PermTeamsRead \<equiv> ''teams:read''"
abbreviation PermTeamsWrite :: permission where "PermTeamsWrite \<equiv> ''teams:write''"
abbreviation PermProvidersRead :: permission where "PermProvidersRead \<equiv> ''providers:read''"
abbreviation PermProvidersWrite :: permission where "PermProvidersWrite \<equiv> ''providers:write''"
abbreviation PermVirtualModelsRead :: permission where "PermVirtualModelsRead \<equiv> ''virtual-models:read''"
abbreviation PermVirtualModelsWrite :: permission where "PermVirtualModelsWrite \<equiv> ''virtual-models:write''"
abbreviation PermMiddlewaresRead :: permission where "PermMiddlewaresRead \<equiv> ''middlewares:read''"
abbreviation PermMiddlewaresWrite :: permission where "PermMiddlewaresWrite \<equiv> ''middlewares:write''"
abbreviation PermQuotaRead :: permission where "PermQuotaRead \<equiv> ''quota:read''"
abbreviation PermQuotaWrite :: permission where "PermQuotaWrite \<equiv> ''quota:write''"
abbreviation PermInvitesRead :: permission where "PermInvitesRead \<equiv> ''invites:read''"
abbreviation PermInvitesWrite :: permission where "PermInvitesWrite \<equiv> ''invites:write''"
abbreviation PermApplicationsRead :: permission where "PermApplicationsRead \<equiv> ''applications:read''"
abbreviation PermApplicationsWrite :: permission where "PermApplicationsWrite \<equiv> ''applications:write''"
abbreviation PermSettingsRead :: permission where "PermSettingsRead \<equiv> ''settings:read''"
abbreviation PermSettingsWrite :: permission where "PermSettingsWrite \<equiv> ''settings:write''"
abbreviation PermUsageRead :: permission where "PermUsageRead \<equiv> ''usage:read''"
abbreviation PermEventsReadAll :: permission where "PermEventsReadAll \<equiv> ''events:read:all''"
abbreviation PermEventsWrite :: permission where "PermEventsWrite \<equiv> ''events:write''"
abbreviation PermEventsAlertsOwn :: permission where "PermEventsAlertsOwn \<equiv> ''events:alerts:own''"
abbreviation PermModelUseOrg :: permission where "PermModelUseOrg \<equiv> ''model:use:org''"
abbreviation PermModelUseVirtual :: permission where "PermModelUseVirtual \<equiv> ''model:use:virtual''"
abbreviation PermPersonalVMCreate :: permission where "PermPersonalVMCreate \<equiv> ''personal-vm:create''"

abbreviation ModelKindLLM :: string where "ModelKindLLM \<equiv> ''llm''"
abbreviation ModelKindVirtual :: string where "ModelKindVirtual \<equiv> ''virtual''"

definition writeImplies :: "(permission \<times> permission) list" where
  "writeImplies =
     [(PermMembersWrite, PermMembersRead), (PermRolesWrite, PermRolesRead), (PermTeamsWrite, PermTeamsRead),
      (PermProvidersWrite, PermProvidersRead), (PermVirtualModelsWrite, PermVirtualModelsRead),
      (PermMiddlewaresWrite, PermMiddlewaresRead), (PermQuotaWrite, PermQuotaRead), (PermInvitesWrite, PermInvitesRead),
      (PermApplicationsWrite, PermApplicationsRead), (PermSettingsWrite, PermSettingsRead),
      (PermEventsWrite, PermEventsReadAll)]"

definition Implies :: "permission \<Rightarrow> permission option" where
  "Implies code = map_of writeImplies code"

record permission_def =
  pd_code :: permission
  pd_teamScopable :: bool

record permission_group =
  pg_section :: string
  pg_perms :: "permission_def list"

abbreviation perm_def :: "permission \<Rightarrow> bool \<Rightarrow> permission_def" where
  "perm_def code scopable \<equiv> \<lparr>pd_code = code, pd_teamScopable = scopable\<rparr>"

definition Catalog :: "permission_group list" where
  "Catalog =
     [\<lparr>pg_section = ''members'', pg_perms = [perm_def PermMembersRead True, perm_def PermMembersWrite True]\<rparr>,
      \<lparr>pg_section = ''roles'', pg_perms = [perm_def PermRolesRead False, perm_def PermRolesWrite False]\<rparr>,
      \<lparr>pg_section = ''teams'', pg_perms = [perm_def PermTeamsRead False, perm_def PermTeamsWrite False]\<rparr>,
      \<lparr>pg_section = ''providers'', pg_perms = [perm_def PermProvidersRead False, perm_def PermProvidersWrite False]\<rparr>,
      \<lparr>pg_section = ''virtual-models'',
        pg_perms = [perm_def PermVirtualModelsRead False, perm_def PermVirtualModelsWrite False]\<rparr>,
      \<lparr>pg_section = ''middlewares'', pg_perms = [perm_def PermMiddlewaresRead False, perm_def PermMiddlewaresWrite False]\<rparr>,
      \<lparr>pg_section = ''quota'', pg_perms = [perm_def PermQuotaRead True, perm_def PermQuotaWrite True]\<rparr>,
      \<lparr>pg_section = ''invites'', pg_perms = [perm_def PermInvitesRead True, perm_def PermInvitesWrite True]\<rparr>,
      \<lparr>pg_section = ''applications'',
        pg_perms = [perm_def PermApplicationsRead False, perm_def PermApplicationsWrite False]\<rparr>,
      \<lparr>pg_section = ''settings'', pg_perms = [perm_def PermSettingsRead False, perm_def PermSettingsWrite False]\<rparr>,
      \<lparr>pg_section = ''usage'', pg_perms = [perm_def PermUsageRead True]\<rparr>,
      \<lparr>pg_section = ''events'',
        pg_perms = [perm_def PermEventsReadAll True, perm_def PermEventsWrite False, perm_def PermEventsAlertsOwn False]\<rparr>,
      \<lparr>pg_section = ''models'', pg_perms = [perm_def PermModelUseOrg False, perm_def PermModelUseVirtual False]\<rparr>,
      \<lparr>pg_section = ''personal'', pg_perms = [perm_def PermPersonalVMCreate False]\<rparr>]"

definition knownPermissions :: "permission list" where
  "knownPermissions = map pd_code (concat (map pg_perms Catalog))"

definition teamScopable :: "permission list" where
  "teamScopable = map pd_code (filter pd_teamScopable (concat (map pg_perms Catalog)))"

definition IsKnown :: "string \<Rightarrow> bool" where
  "IsKnown code = (code \<in> set knownPermissions)"

definition IsTeamScopable :: "permission \<Rightarrow> bool" where
  "IsTeamScopable code = (code \<in> set teamScopable)"

definition IsAdminPermission :: "permission \<Rightarrow> bool" where
  "IsAdminPermission code =
     (if code \<in> {PermUsageRead, PermModelUseOrg, PermModelUseVirtual, PermPersonalVMCreate, PermEventsAlertsOwn} then False
      else IsKnown code)"

section \<open>Permission sets\<close>

record model_grant =
  mg_modelID :: string
  mg_kind :: string

record team_access =
  ta_teamID :: string
  ta_slug :: string
  ta_codes :: "string list"
  ta_grants :: "model_grant list"

record team_ref =
  tr_id :: string
  tr_slug :: string

record team_set =
  ts_ref :: team_ref
  ts_codes :: "permission set"
  ts_grants :: "string set"

record permission_set =
  ps_owner :: bool
  ps_codes :: "permission set"
  ps_teams :: "team_set list"

definition grantKey :: "string \<Rightarrow> string \<Rightarrow> string" where
  "grantKey kind modelID = kind @ CHR 0x00 # modelID"

fun expandCodes :: "string list \<Rightarrow> bool \<Rightarrow> permission set \<Rightarrow> permission set" where
  "expandCodes [] teamScoped out = out"
| "expandCodes (code # codes) teamScoped out =
     (if \<not> IsKnown code then expandCodes codes teamScoped out
      else if teamScoped \<and> \<not> IsTeamScopable code then expandCodes codes teamScoped out
      else expandCodes codes teamScoped
             (case Implies code of Some implied \<Rightarrow> insert implied (insert code out) | None \<Rightarrow> insert code out))"

definition team_set_of :: "team_access \<Rightarrow> team_set" where
  "team_set_of team =
     \<lparr>ts_ref = \<lparr>tr_id = ta_teamID team, tr_slug = ta_slug team\<rparr>,
      ts_codes = expandCodes (ta_codes team) True {},
      ts_grants = (\<lambda>g. grantKey (mg_kind g) (mg_modelID g)) ` set (ta_grants team)\<rparr>"

definition team_sort_key :: "team_set \<Rightarrow> string \<times> string" where
  "team_sort_key t = (tr_slug (ts_ref t), tr_id (ts_ref t))"

definition NewPermissionSet :: "string list \<Rightarrow> team_access list \<Rightarrow> permission_set" where
  "NewPermissionSet codes teams =
     \<lparr>ps_owner = False, ps_codes = expandCodes codes False {}, ps_teams = sort_key team_sort_key (map team_set_of teams)\<rparr>"

text \<open>The zero value of the type, which error paths return.\<close>

definition EmptyPermissionSet :: permission_set where
  "EmptyPermissionSet = \<lparr>ps_owner = False, ps_codes = {}, ps_teams = []\<rparr>"

definition OwnerPermissionSet :: permission_set where
  "OwnerPermissionSet = EmptyPermissionSet\<lparr>ps_owner := True\<rparr>"

definition WithTeams :: "permission list \<Rightarrow> permission_set \<Rightarrow> team_access list \<Rightarrow> permission_set" where
  "WithTeams order s teams = (NewPermissionSet order teams)\<lparr>ps_owner := ps_owner s\<rparr>"

definition AsOwner :: "permission_set \<Rightarrow> permission_set" where
  "AsOwner s = s\<lparr>ps_owner := True\<rparr>"

section \<open>Decisions\<close>

definition Has :: "permission_set \<Rightarrow> permission \<Rightarrow> bool" where
  "Has s perm = (if ps_owner s then True else perm \<in> ps_codes s)"

definition team_of :: "permission_set \<Rightarrow> string \<Rightarrow> team_set option" where
  "team_of s teamID = find (\<lambda>t. tr_id (ts_ref t) = teamID) (ps_teams s)"

definition HasInTeam :: "permission_set \<Rightarrow> string \<Rightarrow> permission \<Rightarrow> bool" where
  "HasInTeam s teamID perm =
     (if Has s perm then True
      else (case team_of s teamID of None \<Rightarrow> False | Some t \<Rightarrow> perm \<in> ts_codes t))"

definition HasInAnyTeam :: "permission_set \<Rightarrow> permission \<Rightarrow> bool" where
  "HasInAnyTeam s perm = (if Has s perm then True else list_ex (\<lambda>t. perm \<in> ts_codes t) (ps_teams s))"

definition Teams :: "permission_set \<Rightarrow> team_ref list" where
  "Teams s = map ts_ref (ps_teams s)"

definition InTeam :: "permission_set \<Rightarrow> string \<Rightarrow> bool" where
  "InTeam s teamID = (team_of s teamID \<noteq> None)"

definition HasOrgWideModelAccess :: "permission_set \<Rightarrow> string \<Rightarrow> bool" where
  "HasOrgWideModelAccess s kind =
     (if kind = ModelKindLLM then Has s PermModelUseOrg
      else if kind = ModelKindVirtual then Has s PermModelUseVirtual
      else ps_owner s)"

definition TeamGrants :: "permission_set \<Rightarrow> string \<Rightarrow> string \<Rightarrow> string \<Rightarrow> bool" where
  "TeamGrants s teamID modelID kind =
     (case team_of s teamID of None \<Rightarrow> False | Some t \<Rightarrow> grantKey kind modelID \<in> ts_grants t)"

definition CanUseModel :: "permission_set \<Rightarrow> string \<Rightarrow> string \<Rightarrow> string \<Rightarrow> bool" where
  "CanUseModel s teamID modelID kind =
     (if HasOrgWideModelAccess s kind then True else teamID \<noteq> [] \<and> TeamGrants s teamID modelID kind)"

definition TeamsGranting :: "permission_set \<Rightarrow> string \<Rightarrow> string \<Rightarrow> team_ref list" where
  "TeamsGranting s modelID kind = map ts_ref (filter (\<lambda>t. grantKey kind modelID \<in> ts_grants t) (ps_teams s))"

definition HasAnyModelAccess_of :: "permission_set \<Rightarrow> string \<Rightarrow> bool" where
  "HasAnyModelAccess_of s kind =
     (if HasOrgWideModelAccess s kind then True
      else list_ex (\<lambda>t. \<exists>key \<in> ts_grants t. has_prefix key (kind @ [CHR 0x00])) (ps_teams s))"

definition HasAnyModelAccess :: "permission_set \<Rightarrow> string \<Rightarrow> bool" where
  "HasAnyModelAccess s kind =
     (if kind = [] then HasAnyModelAccess_of s ModelKindLLM \<or> HasAnyModelAccess_of s ModelKindVirtual
      else HasAnyModelAccess_of s kind)"

section \<open>The catalogue is consistent\<close>

lemma known_list [simp]: "knownPermissions = map pd_code (concat (map pg_perms Catalog))"
  by (rule knownPermissions_def)

lemma Implies_cases:
  assumes "Implies code = Some implied"
  shows "(code, implied) \<in> set writeImplies"
  using assms unfolding Implies_def by (rule map_of_SomeD)

text \<open>What every entry of \<open>writeImplies\<close> satisfies: both codes are in the catalogue, the read implies nothing
  more, and a team-scopable write implies a team-scopable read.\<close>

definition implication_ok :: "permission \<times> permission \<Rightarrow> bool" where
  "implication_ok = (\<lambda>(code, implied).
     IsKnown code \<and> IsKnown implied \<and> Implies implied = None \<and> (IsTeamScopable code \<longrightarrow> IsTeamScopable implied))"

lemma writeImplies_ok: "list_all implication_ok writeImplies"
  by code_simp

lemma Implies_ok:
  assumes "Implies code = Some implied"
  shows "IsKnown code" and "IsKnown implied" and "Implies implied = None" and "IsTeamScopable code \<Longrightarrow> IsTeamScopable implied"
  using writeImplies_ok Implies_cases [OF assms] by (auto simp: list_all_iff implication_ok_def)

lemma scopable_known: "IsTeamScopable code \<Longrightarrow> IsKnown code"
  by (auto simp: IsTeamScopable_def teamScopable_def IsKnown_def)

section \<open>What a code grants\<close>

text \<open>A list of codes grants a permission when it holds it, or the write that implies it, among the codes
  that count: the known ones, and on a team the team-scopable ones.\<close>

definition counts_code :: "bool \<Rightarrow> string \<Rightarrow> bool" where
  "counts_code teamScoped code \<longleftrightarrow> IsKnown code \<and> (teamScoped \<longrightarrow> IsTeamScopable code)"

definition grants_perm :: "bool \<Rightarrow> string list \<Rightarrow> permission \<Rightarrow> bool" where
  "grants_perm teamScoped codes perm \<longleftrightarrow>
     (\<exists>code \<in> set codes. counts_code teamScoped code \<and> (code = perm \<or> Implies code = Some perm))"

lemma expandCodes_iff: "perm \<in> expandCodes codes teamScoped out \<longleftrightarrow> perm \<in> out \<or> grants_perm teamScoped codes perm"
  by (induction codes teamScoped out rule: expandCodes.induct)
    (auto simp: grants_perm_def counts_code_def split: option.splits)

lemma grants_perm_scope: "grants_perm teamScoped codes perm \<Longrightarrow> counts_code teamScoped perm"
  by (auto simp: grants_perm_def counts_code_def dest: Implies_ok)

lemma grants_perm_closed:
  "grants_perm teamScoped codes perm \<Longrightarrow> Implies perm = Some implied \<Longrightarrow> grants_perm teamScoped codes implied"
  by (auto simp: grants_perm_def dest: Implies_ok)

text \<open>Expanding codes that are already expanded changes nothing.\<close>

lemma grants_perm_expanded:
  assumes "\<And>code. code \<in> set codes \<longleftrightarrow> grants_perm teamScoped base code"
  shows "grants_perm teamScoped codes perm \<longleftrightarrow> grants_perm teamScoped base perm"
  using assms grants_perm_closed [of teamScoped base] grants_perm_scope [of teamScoped base]
  unfolding grants_perm_def [of teamScoped codes] by blast

section \<open>Well-formed permission sets\<close>

text \<open>The codes of a scope: all count there, and a write comes with its read.\<close>

definition codes_wf :: "bool \<Rightarrow> permission set \<Rightarrow> bool" where
  "codes_wf teamScoped codes \<longleftrightarrow>
     (\<forall>code \<in> codes. counts_code teamScoped code \<and> (\<forall>implied. Implies code = Some implied \<longrightarrow> implied \<in> codes))"

definition ps_wf :: "permission_set \<Rightarrow> bool" where
  "ps_wf s \<longleftrightarrow> codes_wf False (ps_codes s) \<and> (\<forall>t \<in> set (ps_teams s). codes_wf True (ts_codes t)) \<and>
     sorted (map team_sort_key (ps_teams s))"

lemma codes_wf_expand [simp]: "codes_wf teamScoped (expandCodes codes teamScoped {})"
  by (auto simp: codes_wf_def expandCodes_iff intro: grants_perm_scope grants_perm_closed)

lemma codes_wf_empty [simp]: "codes_wf teamScoped {}"
  by (simp add: codes_wf_def)

text \<open>The permission sets the package can build.\<close>

inductive built :: "permission_set \<Rightarrow> bool" where
  built_zero: "built EmptyPermissionSet"
| built_new: "built (NewPermissionSet codes teams)"
| built_owner: "built OwnerPermissionSet"
| built_teams: "built s \<Longrightarrow> set order = ps_codes s \<Longrightarrow> built (WithTeams order s teams)"
| built_as: "built s \<Longrightarrow> built (AsOwner s)"

lemma NewPermissionSet_sel [simp]:
  "ps_owner (NewPermissionSet codes teams) = False"
  "ps_codes (NewPermissionSet codes teams) = expandCodes codes False {}"
  "ps_teams (NewPermissionSet codes teams) = sort_key team_sort_key (map team_set_of teams)"
  by (simp_all add: NewPermissionSet_def)

lemma WithTeams_sel [simp]:
  "ps_owner (WithTeams order s teams) = ps_owner s"
  "ps_codes (WithTeams order s teams) = expandCodes order False {}"
  "ps_teams (WithTeams order s teams) = sort_key team_sort_key (map team_set_of teams)"
  by (simp_all add: WithTeams_def)

lemma EmptyPermissionSet_sel [simp]:
  "ps_owner EmptyPermissionSet = False" "ps_codes EmptyPermissionSet = {}" "ps_teams EmptyPermissionSet = []"
  by (simp_all add: EmptyPermissionSet_def)

lemma OwnerPermissionSet_sel [simp]:
  "ps_owner OwnerPermissionSet = True" "ps_codes OwnerPermissionSet = {}" "ps_teams OwnerPermissionSet = []"
  by (simp_all add: OwnerPermissionSet_def)

lemma AsOwner_sel [simp]:
  "ps_owner (AsOwner s) = True" "ps_codes (AsOwner s) = ps_codes s" "ps_teams (AsOwner s) = ps_teams s"
  by (simp_all add: AsOwner_def)

lemma team_set_of_sel [simp]:
  "ts_ref (team_set_of t) = \<lparr>tr_id = ta_teamID t, tr_slug = ta_slug t\<rparr>"
  "ts_codes (team_set_of t) = expandCodes (ta_codes t) True {}"
  by (simp_all add: team_set_of_def)

text \<open>
  C23.  Every permission set the package builds is well formed, whatever codes the database holds: it only has codes
  of the catalogue, on a team only team-scopable ones, every write comes with the read it implies, and the teams are
  ordered by slug then identifier.
\<close>

theorem permission_sets_well_formed:
  assumes "built s"
  shows "ps_wf s"
  using assms
proof (induction rule: built.induct)
  case (built_as s)
  then show ?case by (simp add: ps_wf_def)
qed (auto simp: ps_wf_def)

theorem permission_sets_well_formed_witness:
  "ps_wf (WithTeams [''members:write'', ''members:read'']
     (NewPermissionSet [''members:write'', ''bogus''] [])
     [\<lparr>ta_teamID = ''t1'', ta_slug = ''core'', ta_codes = [''quota:write'', ''roles:write''], ta_grants = []\<rparr>])"
  by (rule permission_sets_well_formed, rule built_teams, rule built_new) code_simp

section \<open>Functional correctness of the decisions\<close>

lemma team_of_Some: "team_of s teamID = Some t \<Longrightarrow> t \<in> set (ps_teams s) \<and> tr_id (ts_ref t) = teamID"
  unfolding team_of_def find_Some_iff by auto

lemma team_of_None: "team_of s teamID = None \<longleftrightarrow> (\<forall>t \<in> set (ps_teams s). tr_id (ts_ref t) \<noteq> teamID)"
  by (auto simp: team_of_def find_None_iff)

lemma InTeam_iff: "InTeam s teamID \<longleftrightarrow> teamID \<in> tr_id ` set (Teams s)"
  by (auto simp: InTeam_def team_of_None Teams_def)

text \<open>A principal whose teams have distinct identifiers: the lookup by identifier finds the team itself.\<close>

lemma team_of_unique:
  assumes "distinct (map (tr_id \<circ> ts_ref) (ps_teams s))" and "t \<in> set (ps_teams s)"
  shows "team_of s (tr_id (ts_ref t)) = Some t"
proof (cases "team_of s (tr_id (ts_ref t))")
  case None
  then show ?thesis using assms(2) by (auto simp: team_of_None)
next
  case (Some u)
  then have "u \<in> set (ps_teams s)" "tr_id (ts_ref u) = tr_id (ts_ref t)" using team_of_Some by blast+
  then have "u = t" using assms by (simp add: distinct_map inj_on_def)
  then show ?thesis using Some by simp
qed

lemma teams_distinct:
  assumes "distinct (map ta_teamID teams)"
  shows "distinct (map (tr_id \<circ> ts_ref) (sort_key team_sort_key (map team_set_of teams)))"
proof -
  have id: "team_set_of t = team_set_of u \<Longrightarrow> ta_teamID t = ta_teamID u" for t u
    by (auto simp: team_set_of_def)
  show ?thesis using assms by (auto simp: distinct_map inj_on_def dest: id)
qed

lemma team_of_New:
  assumes "distinct (map ta_teamID teams)" and "t \<in> set teams"
  shows "team_of (NewPermissionSet codes teams) (ta_teamID t) = Some (team_set_of t)"
  using team_of_unique [of "NewPermissionSet codes teams" "team_set_of t"] teams_distinct [OF assms(1)] assms(2) by simp

lemma team_of_New_None:
  "(\<forall>t \<in> set teams. ta_teamID t \<noteq> tid) \<Longrightarrow> team_of (NewPermissionSet codes teams) tid = None"
  by (simp add: team_of_None)

text \<open>A decision read off the team of an identifier is a decision on the access of that very team.\<close>

lemma team_of_New_decision:
  assumes "distinct (map ta_teamID teams)"
  shows "(case team_of (NewPermissionSet codes teams) tid of None \<Rightarrow> False | Some ts \<Rightarrow> P ts) \<longleftrightarrow>
    (\<exists>t \<in> set teams. ta_teamID t = tid \<and> P (team_set_of t))"
proof (cases "\<exists>t \<in> set teams. ta_teamID t = tid")
  case True
  then obtain t where t: "t \<in> set teams" "ta_teamID t = tid" by blast
  then have "u = t" if "u \<in> set teams" "ta_teamID u = tid" for u
    using assms that by (auto simp: distinct_map dest: inj_onD)
  then have "(\<exists>u \<in> set teams. ta_teamID u = tid \<and> P (team_set_of u)) \<longleftrightarrow> P (team_set_of t)" using t by blast
  then show ?thesis using team_of_New [OF assms t(1), of codes] t(2) by simp
next
  case False
  then show ?thesis using team_of_New_None [of teams tid codes] by simp
qed

text \<open>A NUL byte separates the kind from the identifier in the keys of the grants, so keys of kinds without one
  never collide.\<close>

lemma grantKey_inj:
  "CHR 0x00 \<notin> set kind \<Longrightarrow> CHR 0x00 \<notin> set kind' \<Longrightarrow> grantKey kind i = grantKey kind' j \<longleftrightarrow> kind = kind' \<and> i = j"
  by (auto simp: grantKey_def append_eq_append_conv2 Cons_eq_append_conv append_eq_Cons_conv)

definition team_grants_model :: "team_access \<Rightarrow> string \<Rightarrow> string \<Rightarrow> bool" where
  "team_grants_model t modelID kind \<longleftrightarrow> (\<exists>g \<in> set (ta_grants t). mg_kind g = kind \<and> mg_modelID g = modelID)"

definition grants_plain :: "team_access list \<Rightarrow> bool" where
  "grants_plain teams \<longleftrightarrow> (\<forall>t \<in> set teams. \<forall>g \<in> set (ta_grants t). CHR 0x00 \<notin> set (mg_kind g))"

lemma team_set_grants:
  assumes "t \<in> set teams" "grants_plain teams" "CHR 0x00 \<notin> set kind"
  shows "grantKey kind modelID \<in> ts_grants (team_set_of t) \<longleftrightarrow> team_grants_model t modelID kind"
proof -
  have "grantKey kind modelID = grantKey (mg_kind g) (mg_modelID g) \<longleftrightarrow> mg_kind g = kind \<and> mg_modelID g = modelID"
    if "g \<in> set (ta_grants t)" for g
    using assms that grantKey_inj [of kind "mg_kind g"] by (auto simp: grants_plain_def)
  then show ?thesis by (auto simp: team_set_of_def team_grants_model_def image_iff)
qed

lemma Has_New: "Has (NewPermissionSet codes teams) perm \<longleftrightarrow> grants_perm False codes perm"
  by (simp add: Has_def expandCodes_iff)

lemma TeamGrants_New:
  assumes "distinct (map ta_teamID teams)" "grants_plain teams" "CHR 0x00 \<notin> set kind"
  shows "TeamGrants (NewPermissionSet codes teams) tid modelID kind \<longleftrightarrow>
    (\<exists>t \<in> set teams. ta_teamID t = tid \<and> team_grants_model t modelID kind)"
  unfolding TeamGrants_def team_of_New_decision [OF assms(1)] using team_set_grants [OF _ assms(2,3)] by blast

text \<open>The specification of the access to models: the organization-wide permission of the kind, or a grant of the
  team the request is attributed to.\<close>

fun kind_perm :: "string \<Rightarrow> permission" where
  "kind_perm kind = (if kind = ModelKindLLM then PermModelUseOrg else PermModelUseVirtual)"

text \<open>
  What a permission set decides is what the roles and the grants say, and nothing else.  For a principal with the
  given codes and teams: a permission holds on the organization exactly when one of its known codes is that
  permission or the write implying it; on a team exactly when it holds on the organization or a team-scopable code of
  that team gives it; and a request attributed to a team may use a model exactly when the organization-wide
  permission of its kind holds or that very team grants it.
\<close>

theorem permission_decisions:
  assumes "distinct (map ta_teamID teams)" and "grants_plain teams" and "kind \<in> {ModelKindLLM, ModelKindVirtual}"
  shows "(Has (NewPermissionSet codes teams) perm \<longleftrightarrow> grants_perm False codes perm) \<and>
    (HasInTeam (NewPermissionSet codes teams) tid perm \<longleftrightarrow>
       grants_perm False codes perm \<or> (\<exists>t \<in> set teams. ta_teamID t = tid \<and> grants_perm True (ta_codes t) perm)) \<and>
    (CanUseModel (NewPermissionSet codes teams) tid modelID kind \<longleftrightarrow>
       grants_perm False codes (kind_perm kind) \<or>
       tid \<noteq> [] \<and> (\<exists>t \<in> set teams. ta_teamID t = tid \<and> team_grants_model t modelID kind))"
proof (intro conjI)
  let ?s = "NewPermissionSet codes teams"
  show "Has ?s perm \<longleftrightarrow> grants_perm False codes perm" by (rule Has_New)
  show "HasInTeam ?s tid perm \<longleftrightarrow>
      grants_perm False codes perm \<or> (\<exists>t \<in> set teams. ta_teamID t = tid \<and> grants_perm True (ta_codes t) perm)"
    unfolding HasInTeam_def Has_New team_of_New_decision [OF assms(1)] by (auto simp: expandCodes_iff)
  have "CHR 0x00 \<notin> set kind" using assms(3) by auto
  moreover have "HasOrgWideModelAccess ?s kind \<longleftrightarrow> grants_perm False codes (kind_perm kind)"
    using assms(3) by (auto simp: HasOrgWideModelAccess_def Has_New)
  ultimately show "CanUseModel ?s tid modelID kind \<longleftrightarrow>
       grants_perm False codes (kind_perm kind) \<or>
       tid \<noteq> [] \<and> (\<exists>t \<in> set teams. ta_teamID t = tid \<and> team_grants_model t modelID kind)"
    by (simp add: CanUseModel_def TeamGrants_New [OF assms(1,2)])
qed

theorem permission_decisions_witness:
  "(Has (NewPermissionSet [''members:write''] [\<lparr>ta_teamID = ''t'', ta_slug = ''core'', ta_codes = [''roles:write''],
        ta_grants = [\<lparr>mg_modelID = ''m'', mg_kind = ''llm''\<rparr>]\<rparr>]) ''members:read'') \<and>
   \<not> (HasInTeam (NewPermissionSet [''members:write''] [\<lparr>ta_teamID = ''t'', ta_slug = ''core'', ta_codes = [''roles:write''],
        ta_grants = [\<lparr>mg_modelID = ''m'', mg_kind = ''llm''\<rparr>]\<rparr>]) ''t'' ''roles:read'') \<and>
   (CanUseModel (NewPermissionSet [''members:write''] [\<lparr>ta_teamID = ''t'', ta_slug = ''core'', ta_codes = [''roles:write''],
        ta_grants = [\<lparr>mg_modelID = ''m'', mg_kind = ''llm''\<rparr>]\<rparr>]) ''t'' ''m'' ''llm'')"
proof -
  let ?teams = "[\<lparr>ta_teamID = ''t'', ta_slug = ''core'', ta_codes = [''roles:write''],
        ta_grants = [\<lparr>mg_modelID = ''m'', mg_kind = ''llm''\<rparr>]\<rparr>]"
  have "grants_perm False [''members:write''] ''members:read''" "\<not> grants_perm False [''members:write''] ''roles:read''"
    "\<not> grants_perm True [''roles:write''] ''roles:read''"
    by code_simp+
  moreover have "grants_plain ?teams" "distinct (map ta_teamID ?teams)" "ModelKindLLM \<in> {ModelKindLLM, ModelKindVirtual}"
    by (simp_all add: grants_plain_def)
  moreover have "team_grants_model (hd ?teams) ''m'' ''llm''" by (simp add: team_grants_model_def)
  ultimately show ?thesis
    using permission_decisions [of ?teams "''llm''" "[''members:write'']" "''members:read''" "''t''" "''m''"]
      permission_decisions [of ?teams "''llm''" "[''members:write'']" "''roles:read''" "''t''" "''m''"] by simp
qed

section \<open>Changing the teams of a set\<close>

lemma built_codes:
  assumes "built s"
  shows "\<exists>base. \<forall>perm. perm \<in> ps_codes s \<longleftrightarrow> grants_perm False base perm"
  using assms
proof (induction rule: built.induct)
  case (built_teams s order teams)
  then show ?case by (auto simp: expandCodes_iff)
next
  case (built_new codes teams)
  then show ?case by (auto simp: expandCodes_iff)
qed (auto simp: grants_perm_def intro: exI [of _ "[]"])

text \<open>
  Replacing the teams of a set keeps what it grants on the organization, in whatever order the map of its codes is
  visited, and its teams are then exactly the new ones.
\<close>

theorem WithTeams_keeps:
  assumes "built s" and "set order = ps_codes s"
  shows "Has (WithTeams order s teams) perm = Has s perm \<and>
    mset (Teams (WithTeams order s teams)) = mset (map (\<lambda>t. \<lparr>tr_id = ta_teamID t, tr_slug = ta_slug t\<rparr>) teams)"
proof
  obtain base where base: "\<And>p. p \<in> ps_codes s \<longleftrightarrow> grants_perm False base p" using built_codes [OF assms(1)] by blast
  then have "grants_perm False order perm \<longleftrightarrow> perm \<in> ps_codes s"
    using grants_perm_expanded [of order False base perm] assms(2) by simp
  then show "Has (WithTeams order s teams) perm = Has s perm" by (simp add: Has_def expandCodes_iff)
  show "mset (Teams (WithTeams order s teams)) = mset (map (\<lambda>t. \<lparr>tr_id = ta_teamID t, tr_slug = ta_slug t\<rparr>) teams)"
    by (simp add: Teams_def image_mset.compositionality comp_def)
qed

end
