(* ===== verification/Team_Scope.thy ===== *)
theory Team_Scope
  imports Permissions Model_Access Quota
begin

text \<open>
  Who pays for a request and what it may use: \<open>src/internal/adapter/proxy/team_scope.go\<close>, \<open>model_access.go\<close>, the metadata
  helpers of \<open>auth_extractor.go\<close>, \<open>src/internal/http/context/permissions.go\<close> and \<open>src/internal/core/service/model_names.go\<close>.

  \<open>scope_env\<close> gathers the stores the hook reads; a store that may be nil is an option, and a lookup fails with
  \<open>NotFound\<close> or with an error of its own.  A store of models may also answer no error and no model.  \<open>request_context\<close>
  holds what the hooks read from the Go context.  The metadata of a request are a map to dynamically typed values.
  Refusals keep status, type, code, message and candidates; log lines are left out.
\<close>

section \<open>Requests, context and stores\<close>

record organization =
  og_id :: string
  og_slug :: string
  og_active :: bool

record org_team =
  ot_id :: string
  ot_orgID :: string
  ot_slug :: string

datatype meta_value = MetaString string | MetaBool bool

record scope_request =
  sq_model :: string
  sq_userID :: string
  sq_meta :: "string \<rightharpoonup> meta_value"

record 'e request_context =
  cx_authTokenID :: string
  cx_orgID :: string
  cx_applicationID :: string
  cx_tenantID :: string
  cx_authnTeam :: "string option"
  cx_user :: "string option"
  cx_resolver :: "(string \<Rightarrow> ('e, permission_set) result) option"

record 'e scope_env =
  se_orgByID :: "string \<Rightarrow> ('e store_error, organization) result"
  se_orgBySlug :: "string \<Rightarrow> string \<Rightarrow> ('e store_error, organization) result"
  se_teamBySlug :: "string \<Rightarrow> string \<Rightarrow> ('e store_error, org_team) result"
  se_teamByID :: "string \<Rightarrow> ('e store_error, org_team) result"
  se_virtual :: "(string \<Rightarrow> string \<Rightarrow> ('e store_error, string option) result) option"
  se_llm :: "(string \<Rightarrow> string \<Rightarrow> ('e store_error, string option) result) option"
  se_personal :: "(string \<Rightarrow> string \<Rightarrow> ('e store_error, string) result) option"

record hook_answer =
  ha_status :: int
  ha_type :: string
  ha_message :: string
  ha_code :: string
  ha_candidates :: "string list"

section \<open>Metadata\<close>

abbreviation MetaTeamID :: string where "MetaTeamID \<equiv> ''teamID''"
abbreviation MetaTeamSlug :: string where "MetaTeamSlug \<equiv> ''teamSlug''"
abbreviation MetaRequestedModel :: string where "MetaRequestedModel \<equiv> ''requestedModel''"
abbreviation metaTeamScoped :: string where "metaTeamScoped \<equiv> ''teamScoped''"
abbreviation MetaAuthTokenID :: string where "MetaAuthTokenID \<equiv> ''authTokenID''"
abbreviation MetaOrgID :: string where "MetaOrgID \<equiv> ''orgID''"
abbreviation MetaApplicationID :: string where "MetaApplicationID \<equiv> ''applicationID''"

text \<open>\<open>v, _ := meta[key].(string)\<close>: the empty string when the key is missing or holds another type.\<close>

definition meta_string :: "(string \<rightharpoonup> meta_value) \<Rightarrow> string \<Rightarrow> string" where
  "meta_string meta key = (case meta key of Some (MetaString v) \<Rightarrow> v | _ \<Rightarrow> [])"

definition meta_bool :: "(string \<rightharpoonup> meta_value) \<Rightarrow> string \<Rightarrow> bool" where
  "meta_bool meta key = (case meta key of Some (MetaBool v) \<Rightarrow> v | _ \<Rightarrow> False)"

definition TeamIDFromMeta :: "(string \<rightharpoonup> meta_value) \<Rightarrow> string" where
  "TeamIDFromMeta meta = meta_string meta MetaTeamID"

definition TeamSlugFromMeta :: "(string \<rightharpoonup> meta_value) \<Rightarrow> string" where
  "TeamSlugFromMeta meta = meta_string meta MetaTeamSlug"

definition RequestedModelFromMeta :: "(string \<rightharpoonup> meta_value) \<Rightarrow> string" where
  "RequestedModelFromMeta meta = meta_string meta MetaRequestedModel"

definition OrgIDFromMeta :: "(string \<rightharpoonup> meta_value) \<Rightarrow> string" where
  "OrgIDFromMeta meta = meta_string meta MetaOrgID"

definition set_nonempty :: "string \<Rightarrow> string \<Rightarrow> (string \<rightharpoonup> meta_value) \<Rightarrow> (string \<rightharpoonup> meta_value)" where
  "set_nonempty key v meta = (if v \<noteq> [] then meta(key \<mapsto> MetaString v) else meta)"

definition PopulateMetaFromContext :: "'e request_context \<Rightarrow> (string \<rightharpoonup> meta_value) \<Rightarrow> (string \<rightharpoonup> meta_value)" where
  "PopulateMetaFromContext cx meta =
     set_nonempty MetaApplicationID (cx_applicationID cx)
       (set_nonempty MetaOrgID (cx_orgID cx) (set_nonempty MetaAuthTokenID (cx_authTokenID cx) meta))"

definition BoundTeamIDFromContext :: "'e request_context \<Rightarrow> string" where
  "BoundTeamIDFromContext cx = (case cx_authnTeam cx of Some t \<Rightarrow> t | None \<Rightarrow> [])"

definition ResolvePermissions :: "'e request_context \<Rightarrow> string \<Rightarrow> ('e, permission_set) result" where
  "ResolvePermissions cx orgID = (case cx_resolver cx of None \<Rightarrow> Inr EmptyPermissionSet | Some resolver \<Rightarrow> resolver orgID)"

section \<open>Answers\<close>

definition sq_quoted :: "string \<Rightarrow> string" where
  "sq_quoted s = CHR 0x27 # s @ [CHR 0x27]"

definition virtualModelForbidden :: "string \<Rightarrow> hook_answer" where
  "virtualModelForbidden modelName =
     \<lparr>ha_status = 403, ha_type = ''permission_error'',
      ha_message = ''model '' @ sq_quoted modelName @ '' not available in your organization'',
      ha_code = ''model_forbidden'', ha_candidates = []\<rparr>"

definition teamForbidden :: "string \<Rightarrow> string \<Rightarrow> hook_answer" where
  "teamForbidden modelName reason =
     \<lparr>ha_status = 403, ha_type = ''permission_error'',
      ha_message = ''model '' @ sq_quoted modelName @ '' not available: '' @ reason,
      ha_code = ''model_forbidden'', ha_candidates = []\<rparr>"

definition teamRequired :: "string \<Rightarrow> hook_answer" where
  "teamRequired message =
     \<lparr>ha_status = 400, ha_type = ''invalid_request_error'', ha_message = message, ha_code = ''model_team_required'',
      ha_candidates = []\<rparr>"

definition team_model_name :: "string \<Rightarrow> string \<Rightarrow> string \<Rightarrow> string" where
  "team_model_name orgSlug teamSlug loc = mn_string \<lparr>mn_org = orgSlug, mn_team = teamSlug, mn_local = loc\<rparr>"

fun join_comma :: "string list \<Rightarrow> string" where
  "join_comma [] = []"
| "join_comma [s] = s"
| "join_comma (s # ss) = s @ '', '' @ join_comma ss"

definition ambiguousModel :: "string \<Rightarrow> string \<Rightarrow> string \<Rightarrow> team_ref list \<Rightarrow> hook_answer" where
  "ambiguousModel modelName orgSlug loc teams =
     (let candidates = map (\<lambda>t. team_model_name orgSlug (tr_slug t) loc) teams
      in \<lparr>ha_status = 400, ha_type = ''invalid_request_error'',
          ha_message = ''model '' @ sq_quoted modelName @ '' is available through several teams, name the one to charge: ''
            @ join_comma candidates,
          ha_code = ''model_ambiguous'', ha_candidates = candidates\<rparr>)"

section \<open>Looking up a local model\<close>

definition lookupLocalModel :: "'e scope_env \<Rightarrow> string \<Rightarrow> string \<Rightarrow> ('e, (string \<times> string) option) result" where
  "lookupLocalModel env orgID loc =
     (let llm = (case se_llm env of
                   None \<Rightarrow> Inr None
                 | Some get \<Rightarrow>
                     (case get orgID loc of
                        Inr (Some m) \<Rightarrow> Inr (Some (ModelKindLLM, m))
                      | Inl (StoreFailed e) \<Rightarrow> Inl e
                      | _ \<Rightarrow> Inr None))
      in case se_virtual env of
           None \<Rightarrow> llm
         | Some get \<Rightarrow>
             (case get orgID loc of
                Inr (Some vm) \<Rightarrow> Inr (Some (ModelKindVirtual, vm))
              | Inl (StoreFailed e) \<Rightarrow> Inl e
              | _ \<Rightarrow> llm))"

section \<open>The team of a request\<close>

definition no_team :: team_ref where
  "no_team = \<lparr>tr_id = [], tr_slug = []\<rparr>"

definition refOf :: "org_team option \<Rightarrow> team_ref" where
  "refOf team = (case team of None \<Rightarrow> no_team | Some t \<Rightarrow> \<lparr>tr_id = ot_id t, tr_slug = ot_slug t\<rparr>)"

definition teamRefOf :: "permission_set \<Rightarrow> string \<Rightarrow> team_ref option" where
  "teamRefOf perms teamID = find (\<lambda>t. tr_id t = teamID) (Teams perms)"

datatype 'e scope_failure = ScopeAnswer hook_answer | ScopeError 'e

definition single_team :: "permission_set \<Rightarrow> model_name \<Rightarrow> ('e scope_failure, team_ref) result" where
  "single_team perms name =
     (if HasOrgWideModelAccess perms ModelKindLLM then Inr no_team
      else (case Teams perms of
              [] \<Rightarrow> Inr no_team
            | [t] \<Rightarrow> Inr t
            | _ \<Rightarrow> Inl (ScopeAnswer (teamRequired (''personal virtual model '' @ sq_quoted (mn_string name) @
                     '' has no team in this organization: pick the team it charges in its settings, or use a token bound to a team'')))))"

definition personalTeam :: "'e scope_env \<Rightarrow> 'e request_context \<Rightarrow> string \<Rightarrow> permission_set \<Rightarrow> team_ref \<Rightarrow> model_name
    \<Rightarrow> ('e scope_failure, team_ref) result" where
  "personalTeam env cx orgID perms bound name =
     (if tr_id bound \<noteq> [] then Inr bound
      else
        (case (se_personal env, cx_user cx) of
           (Some get, Some u) \<Rightarrow>
             (case get u (mn_local name) of
                Inl (StoreFailed e) \<Rightarrow> Inl (ScopeError e)
              | Inl NotFound \<Rightarrow> single_team perms name
              | Inr picked \<Rightarrow>
                  if picked = [] then single_team perms name
                  else
                    (case teamRefOf perms picked of
                       Some team \<Rightarrow> Inr team
                     | None \<Rightarrow>
                         let unavailable = Inl (ScopeAnswer (teamRequired (''the team personal virtual model '' @
                               sq_quoted (mn_string name) @
                               '' charges is no longer available to you: pick another team in its settings'')))
                         in case se_teamByID env picked of
                              Inr team \<Rightarrow>
                                if ot_orgID team \<noteq> orgID
                                then Inl (ScopeAnswer (teamRequired (''personal virtual model '' @ sq_quoted (mn_string name) @
                                       '' charges a team of another organization: pick a team of this organization in its settings'')))
                                else unavailable
                            | Inl NotFound \<Rightarrow> unavailable
                            | Inl (StoreFailed e) \<Rightarrow> Inl (ScopeError e)))
         | _ \<Rightarrow> single_team perms name))"

definition setScope :: "scope_request \<Rightarrow> model_name \<Rightarrow> team_ref \<Rightarrow> scope_request" where
  "setScope req name team =
     (let meta = (if tr_id team \<noteq> []
                  then (sq_meta req)(MetaTeamID \<mapsto> MetaString (tr_id team), MetaTeamSlug \<mapsto> MetaString (tr_slug team))
                  else sq_meta req)
      in req\<lparr>sq_meta := meta, sq_model := mn_string (OrgLevel name)\<rparr>)"

text \<open>
  The organization and segment \<open>ParseModelName\<close> asks its predicate about, at most one.  The predicate of the hook looks
  the segment up in the store and keeps what it found, \<open>named\<close>, or the failure of the store, \<open>lookupErr\<close>.
\<close>

definition asked_segment :: "string \<Rightarrow> (string \<times> string) option" where
  "asked_segment name =
     (case str_cut slash name of
        None \<Rightarrow> None
      | Some (org, rest) \<Rightarrow>
          if org = [] \<or> rest = [] \<or> org = PersonalModelOrg then None
          else (case str_cut slash rest of
                  None \<Rightarrow> None
                | Some (segment, loc) \<Rightarrow> if segment \<noteq> [] \<and> loc \<noteq> [] then Some (org, segment) else None))"

definition segment_is_team :: "'e scope_env \<Rightarrow> organization \<Rightarrow> string \<Rightarrow> string \<Rightarrow> bool" where
  "segment_is_team env org orgSlug segment =
     (if orgSlug \<noteq> og_slug org then False
      else (case se_teamBySlug env (og_id org) segment of Inr _ \<Rightarrow> True | Inl _ \<Rightarrow> False))"

definition named_team :: "'e scope_env \<Rightarrow> organization \<Rightarrow> string \<Rightarrow> ('e, org_team option) result" where
  "named_team env org name =
     (case asked_segment name of
        None \<Rightarrow> Inr None
      | Some (orgSlug, segment) \<Rightarrow>
          if orgSlug \<noteq> og_slug org then Inr None
          else (case se_teamBySlug env (og_id org) segment of
                  Inr team \<Rightarrow> Inr (Some team)
                | Inl NotFound \<Rightarrow> Inr None
                | Inl (StoreFailed e) \<Rightarrow> Inl e))"

text \<open>The attribution of a known model of the organization: the switch of \<open>PreRequest\<close>.\<close>

definition model_team :: "permission_set \<Rightarrow> organization \<Rightarrow> string \<Rightarrow> model_name \<Rightarrow> org_team option \<Rightarrow> team_ref \<Rightarrow> string \<Rightarrow> string
    \<Rightarrow> (hook_answer, team_ref) result" where
  "model_team perms org reqModel name named boundTeam kind modelID =
     (case named of
        Some t \<Rightarrow>
          if \<not> CanUseModel perms (ot_id t) modelID kind then Inl (virtualModelForbidden reqModel) else Inr (refOf named)
      | None \<Rightarrow>
          if tr_id boundTeam \<noteq> [] then
            if \<not> CanUseModel perms (tr_id boundTeam) modelID kind then Inl (virtualModelForbidden reqModel) else Inr boundTeam
          else if HasOrgWideModelAccess perms kind then Inr no_team
          else (case TeamsGranting perms modelID kind of
                  [] \<Rightarrow> Inl (virtualModelForbidden reqModel)
                | [t] \<Rightarrow> Inr t
                | ts \<Rightarrow> Inl (ambiguousModel reqModel (og_slug org) (mn_local name) ts)))"

definition chargeable :: "permission_set \<Rightarrow> string \<Rightarrow> org_team option \<Rightarrow> bool" where
  "chargeable perms bound named =
     (case named of None \<Rightarrow> True | Some t \<Rightarrow> InTeam perms (ot_id t) \<and> (bound = [] \<or> bound = ot_id t))"

text \<open>The part of \<open>PreRequest\<close> once the name is known to be one of the token's organization and the bound team checked.\<close>

definition attribute :: "'e scope_env \<Rightarrow> 'e request_context \<Rightarrow> organization \<Rightarrow> permission_set \<Rightarrow> string \<Rightarrow> team_ref \<Rightarrow> org_team option
    \<Rightarrow> model_name \<Rightarrow> scope_request \<Rightarrow> scope_request \<times> ('e, hook_answer option) result" where
  "attribute env cx org perms bound boundTeam named name req =
     (if Personal name then
        (case personalTeam env cx (og_id org) perms boundTeam name of
           Inl (ScopeAnswer a) \<Rightarrow> (req, Inr (Some a))
         | Inl (ScopeError e) \<Rightarrow> (req, Inl e)
         | Inr team \<Rightarrow> (setScope req name team, Inr None))
      else if \<not> chargeable perms bound named then (req, Inr None)
      else
        (case lookupLocalModel env (og_id org) (mn_local name) of
           Inl e \<Rightarrow> (req, Inl e)
         | Inr None \<Rightarrow> (setScope req name no_team, Inr None)
         | Inr (Some (kind, modelID)) \<Rightarrow>
             (case model_team perms org (sq_model req) name named boundTeam kind modelID of
                Inl a \<Rightarrow> (req, Inr (Some a))
              | Inr team \<Rightarrow> (setScope req name team, Inr None))))"

definition scope_marked :: "'e request_context \<Rightarrow> scope_request \<Rightarrow> scope_request" where
  "scope_marked cx req =
     req\<lparr>sq_meta := (PopulateMetaFromContext cx (sq_meta req))
        (metaTeamScoped \<mapsto> MetaBool True, MetaRequestedModel \<mapsto> MetaString (sq_model req))\<rparr>"

definition TeamScopePreRequest :: "'e scope_env \<Rightarrow> 'e request_context \<Rightarrow> scope_request
    \<Rightarrow> scope_request \<times> ('e, hook_answer option) result" where
  "TeamScopePreRequest env cx req0 =
     (if meta_bool (sq_meta req0) metaTeamScoped then (req0, Inr None)
      else
        (let req = scope_marked cx req0; orgID = OrgIDFromMeta (sq_meta req)
         in if orgID = [] \<or> sq_userID req = [] then (req, Inr None)
            else
              (case se_orgByID env orgID of
                 Inl NotFound \<Rightarrow> (req, Inr None)
               | Inl (StoreFailed e) \<Rightarrow> (req, Inl e)
               | Inr org \<Rightarrow>
                   (case named_team env org (sq_model req) of
                      Inl e \<Rightarrow> (req, Inl e)
                    | Inr named \<Rightarrow>
                        (case ParseModelName (sq_model req) (Some (segment_is_team env org)) of
                           None \<Rightarrow> (req, Inr None)
                         | Some name \<Rightarrow>
                             if \<not> Personal name \<and> mn_org name \<noteq> og_slug org then (req, Inr None)
                             else
                               (case ResolvePermissions cx (og_id org) of
                                  Inl e \<Rightarrow> (req, Inl e)
                                | Inr perms \<Rightarrow>
                                    let bound = BoundTeamIDFromContext cx
                                    in if bound \<noteq> [] then
                                         (case teamRefOf perms bound of
                                            None \<Rightarrow>
                                              (req, Inr (Some (teamForbidden (sq_model req)
                                                 ''the token is bound to a team it can no longer use'')))
                                          | Some boundTeam \<Rightarrow> attribute env cx org perms bound boundTeam named name req)
                                       else attribute env cx org perms bound no_team named name req))))))"

section \<open>Listed names\<close>

definition teamSlugOf :: "permission_set \<Rightarrow> string \<Rightarrow> string" where
  "teamSlugOf perms teamID = (case find (\<lambda>t. tr_id t = teamID) (Teams perms) of Some t \<Rightarrow> tr_slug t | None \<Rightarrow> [])"

definition ListedModelNames :: "permission_set \<Rightarrow> string \<Rightarrow> string \<Rightarrow> string \<Rightarrow> string \<Rightarrow> string \<Rightarrow> string list" where
  "ListedModelNames perms bound orgSlug loc modelID kind =
     (if bound \<noteq> [] then
        if \<not> InTeam perms bound \<or> \<not> CanUseModel perms bound modelID kind then []
        else [team_model_name orgSlug (teamSlugOf perms bound) loc]
      else
        (if HasOrgWideModelAccess perms kind then [mn_string \<lparr>mn_org = orgSlug, mn_team = [], mn_local = loc\<rparr>] else [])
        @ map (\<lambda>t. team_model_name orgSlug (tr_slug t) loc) (TeamsGranting perms modelID kind))"

section \<open>Parsing with the teams of the store\<close>

lemma asked_segment_parse:
  "ParseModelName m (Some f) =
     (case asked_segment m of
        Some (org, segment) \<Rightarrow>
          if f org segment
          then Some \<lparr>mn_org = org, mn_team = segment, mn_local = drop (length org + length segment + 2) m\<rparr>
          else ParseModelName m None
      | None \<Rightarrow> ParseModelName m None)"
  by (auto simp: parse_simps asked_segment_def str_cut_Some split: option.splits prod.splits)

lemma asked_segment_None_team: "ParseModelName m None = Some n \<Longrightarrow> mn_team n = []"
  by (auto simp: ParseModelName_def split: option.splits prod.splits if_splits)

text \<open>What the hook knows after parsing: it holds a team exactly when the name has one, found under its slug.\<close>

lemma named_team_Some:
  assumes "named_team env org m = Inr (Some t)"
  obtains segment where "asked_segment m = Some (og_slug org, segment)" "se_teamBySlug env (og_id org) segment = Inr t"
  using assms by (auto simp: named_team_def split: option.splits prod.splits if_splits sum.splits store_error.splits)

lemma named_team_parse:
  assumes "named_team env org m = Inr None"
  shows "ParseModelName m (Some (segment_is_team env org)) = ParseModelName m None"
  using assms unfolding asked_segment_parse
  by (auto simp: named_team_def segment_is_team_def split: option.splits prod.splits sum.splits store_error.splits if_splits)

section \<open>A request is only charged to a team of its caller\<close>

definition distinct_teams :: "permission_set \<Rightarrow> bool" where
  "distinct_teams s \<longleftrightarrow> distinct (map tr_id (Teams s))"

lemma granting_can_use:
  assumes "distinct_teams s" and "r \<in> set (TeamsGranting s modelID kind)"
  shows "InTeam s (tr_id r)" and "tr_id r \<noteq> [] \<Longrightarrow> CanUseModel s (tr_id r) modelID kind"
proof -
  obtain t where t: "t \<in> set (ps_teams s)" "grantKey kind modelID \<in> ts_grants t" "r = ts_ref t"
    using assms(2) by (auto simp: TeamsGranting_def)
  have "team_of s (tr_id r) = Some t"
    using team_of_unique [OF _ t(1)] assms(1) t(3) by (simp add: distinct_teams_def Teams_def)
  then show "InTeam s (tr_id r)" "tr_id r \<noteq> [] \<Longrightarrow> CanUseModel s (tr_id r) modelID kind"
    using t(2) by (auto simp: InTeam_def CanUseModel_def TeamGrants_def)
qed

lemma teamRefOf_Some: "teamRefOf s tid = Some r \<Longrightarrow> r \<in> set (Teams s) \<and> tr_id r = tid"
  unfolding teamRefOf_def find_Some_iff by auto

lemma Teams_InTeam: "r \<in> set (Teams s) \<Longrightarrow> InTeam s (tr_id r)"
  by (auto simp: InTeam_iff)

lemma setScope_team:
  "TeamIDFromMeta (sq_meta (setScope req name team)) = (if tr_id team \<noteq> [] then tr_id team else TeamIDFromMeta (sq_meta req))"
  by (simp add: setScope_def TeamIDFromMeta_def meta_string_def Let_def)

lemma no_team_id [simp]: "tr_id no_team = []"
  by (simp add: no_team_def)

text \<open>The bound team as \<open>PreRequest\<close> passes it on.\<close>

definition bound_ok :: "permission_set \<Rightarrow> string \<Rightarrow> team_ref \<Rightarrow> bool" where
  "bound_ok perms bound boundTeam \<longleftrightarrow>
     (if bound = [] then boundTeam = no_team else teamRefOf perms bound = Some boundTeam)"

lemma single_team_member:
  assumes "single_team perms name = Inr team" "tr_id team \<noteq> []"
  shows "team \<in> set (Teams perms)"
  using assms by (auto simp: single_team_def split: if_splits list.splits)

lemma personalTeam_member:
  assumes "personalTeam env cx orgID perms boundTeam name = Inr team" "tr_id team \<noteq> []" "bound_ok perms bound boundTeam"
  shows "InTeam perms (tr_id team) \<and> (bound \<noteq> [] \<longrightarrow> tr_id team = bound)"
proof (cases "tr_id boundTeam = []")
  case True
  then have "bound = []" using assms(3) by (auto simp: bound_ok_def dest: teamRefOf_Some split: if_splits)
  moreover have "team \<in> set (Teams perms)"
    using assms(1,2) True
    by (auto simp: personalTeam_def Let_def dest: single_team_member teamRefOf_Some
        split: option.splits sum.splits store_error.splits if_splits)
  ultimately show ?thesis by (auto intro: Teams_InTeam)
next
  case False
  then show ?thesis
    using assms by (auto simp: personalTeam_def bound_ok_def dest!: teamRefOf_Some intro: Teams_InTeam split: if_splits)
qed

lemma model_team_member:
  assumes "model_team perms org m name named boundTeam kind modelID = Inr team" and id: "tr_id team \<noteq> []"
    and "chargeable perms bound named" and b: "bound_ok perms bound boundTeam" and d: "distinct_teams perms"
  shows "InTeam perms (tr_id team) \<and> (bound \<noteq> [] \<longrightarrow> tr_id team = bound) \<and> CanUseModel perms (tr_id team) modelID kind"
proof (cases named)
  case (Some t)
  then show ?thesis using assms by (auto simp: model_team_def chargeable_def refOf_def split: if_splits)
next
  case None
  show ?thesis
  proof (cases "bound = []")
    case True
    then have "team \<in> set (TeamsGranting perms modelID kind)"
      using assms None by (auto simp: model_team_def bound_ok_def split: if_splits list.splits)
    then show ?thesis using granting_can_use [OF d] True id by blast
  next
    case False
    then have bt: "teamRefOf perms bound = Some boundTeam" using b by (simp add: bound_ok_def)
    then have "tr_id boundTeam = bound" "InTeam perms bound" using teamRefOf_Some Teams_InTeam by blast+
    then show ?thesis using assms None False by (auto simp: model_team_def split: if_splits)
  qed
qed

text \<open>What a request the hook let through with a team satisfies.\<close>

definition attributed_soundly :: "'e scope_env \<Rightarrow> 'e request_context \<Rightarrow> organization \<Rightarrow> permission_set \<Rightarrow> model_name \<Rightarrow> string \<Rightarrow> bool" where
  "attributed_soundly env cx org perms name tid \<longleftrightarrow>
     InTeam perms tid \<and> (BoundTeamIDFromContext cx \<noteq> [] \<longrightarrow> tid = BoundTeamIDFromContext cx) \<and>
     (\<not> Personal name \<longrightarrow>
       (\<exists>kind modelID. lookupLocalModel env (og_id org) (mn_local name) = Inr (Some (kind, modelID)) \<and>
          CanUseModel perms tid modelID kind))"

lemma attribute_sound:
  assumes "attribute env cx org perms bound boundTeam named name req = (req', Inr None)"
    and "bound = BoundTeamIDFromContext cx" and "bound_ok perms bound boundTeam" and "distinct_teams perms"
    and "TeamIDFromMeta (sq_meta req) = []" and "TeamIDFromMeta (sq_meta req') = tid" and "tid \<noteq> []"
  shows "attributed_soundly env cx org perms name tid"
proof (cases "Personal name")
  case True
  then obtain team where "personalTeam env cx (og_id org) perms boundTeam name = Inr team" "req' = setScope req name team"
    using assms(1) by (auto simp: attribute_def split: sum.splits scope_failure.splits)
  moreover have "tr_id team = tid" using calculation assms(5-7) by (auto simp: setScope_team split: if_splits)
  ultimately show ?thesis
    using personalTeam_member [of env cx "og_id org" perms boundTeam name team bound] assms True
    by (auto simp: attributed_soundly_def)
next
  case False
  then have ch: "chargeable perms bound named" using assms by (auto simp: attribute_def split: if_splits)
  have "\<exists>kind modelID team. lookupLocalModel env (og_id org) (mn_local name) = Inr (Some (kind, modelID)) \<and>
      model_team perms org (sq_model req) name named boundTeam kind modelID = Inr team \<and> req' = setScope req name team"
    using assms False ch
    by (auto simp: attribute_def setScope_team split: sum.splits option.splits prod.splits if_splits)
  then obtain kind modelID team where
      l: "lookupLocalModel env (og_id org) (mn_local name) = Inr (Some (kind, modelID))"
      and m: "model_team perms org (sq_model req) name named boundTeam kind modelID = Inr team"
      and r: "req' = setScope req name team" by blast
  have "tr_id team = tid" using r assms(5-7) by (auto simp: setScope_team split: if_splits)
  then show ?thesis
    using model_team_member [OF m _ ch assms(3,4)] assms(2,7) l by (auto simp: attributed_soundly_def)
qed

lemma scope_marked_meta:
  "TeamIDFromMeta (sq_meta (scope_marked cx req)) = TeamIDFromMeta (sq_meta req)"
  "sq_model (scope_marked cx req) = sq_model req" "sq_userID (scope_marked cx req) = sq_userID req"
  by (simp_all add: scope_marked_def TeamIDFromMeta_def meta_string_def PopulateMetaFromContext_def set_nonempty_def)

text \<open>
  C2.  A request is only ever charged to a team of its caller.  When the hook lets a request that carried no team
  through with one: the team is among the caller's teams in the token's organization, it is the team the token is
  bound to if there is one, and unless the model is a personal virtual model, it is a known model that this very
  team (or the organization-wide access) lets the caller use.
\<close>

theorem team_scope_charges_own_team:
  assumes run: "TeamScopePreRequest env cx req = (req', Inr None)"
    and fresh: "TeamIDFromMeta (sq_meta req) = []" and tid: "TeamIDFromMeta (sq_meta req') \<noteq> []"
    and ids: "\<And>orgID perms. ResolvePermissions cx orgID = Inr perms \<Longrightarrow> distinct_teams perms"
  shows "\<exists>org perms name. se_orgByID env (OrgIDFromMeta (sq_meta (scope_marked cx req))) = Inr org \<and>
    ResolvePermissions cx (og_id org) = Inr perms \<and>
    ParseModelName (sq_model req) (Some (segment_is_team env org)) = Some name \<and> (Personal name \<or> mn_org name = og_slug org) \<and>
    attributed_soundly env cx org perms name (TeamIDFromMeta (sq_meta req'))"
proof -
  let ?req = "scope_marked cx req" and ?bound = "BoundTeamIDFromContext cx"
  have fresh': "TeamIDFromMeta (sq_meta ?req) = []" using fresh by (simp add: scope_marked_meta)
  have "\<exists>org perms name named boundTeam. se_orgByID env (OrgIDFromMeta (sq_meta ?req)) = Inr org \<and>
      ResolvePermissions cx (og_id org) = Inr perms \<and>
      ParseModelName (sq_model req) (Some (segment_is_team env org)) = Some name \<and> (Personal name \<or> mn_org name = og_slug org) \<and>
      bound_ok perms ?bound boundTeam \<and> attribute env cx org perms ?bound boundTeam named name ?req = (req', Inr None)"
    using run fresh fresh' tid
    by (auto simp: TeamScopePreRequest_def Let_def bound_ok_def scope_marked_meta
        split: if_splits sum.splits store_error.splits option.splits)
  then show ?thesis using attribute_sound [OF _ refl _ _ fresh' refl tid] ids by blast
qed

section \<open>Running the hook on a name of the organization\<close>

lemma TeamScopePreRequest_attribute:
  assumes "\<not> meta_bool (sq_meta req) metaTeamScoped" "OrgIDFromMeta (sq_meta (scope_marked cx req)) = orgID" "orgID \<noteq> []"
    "sq_userID req \<noteq> []" "se_orgByID env orgID = Inr org" "named_team env org (sq_model req) = Inr named"
    "ParseModelName (sq_model req) (Some (segment_is_team env org)) = Some name" "Personal name \<or> mn_org name = og_slug org"
    "ResolvePermissions cx (og_id org) = Inr perms" "bound_ok perms (BoundTeamIDFromContext cx) boundTeam"
  shows "TeamScopePreRequest env cx req =
    attribute env cx org perms (BoundTeamIDFromContext cx) boundTeam named name (scope_marked cx req)"
  using assms by (auto simp: TeamScopePreRequest_def Let_def scope_marked_meta bound_ok_def)

lemma scope_marked_org:
  "cx_orgID cx \<noteq> [] \<Longrightarrow> OrgIDFromMeta (sq_meta (scope_marked cx req)) = cx_orgID cx"
  by (simp add: scope_marked_def OrgIDFromMeta_def meta_string_def PopulateMetaFromContext_def set_nonempty_def)

lemma setScope_no_team: "sq_model req = mn_string (OrgLevel name) \<Longrightarrow> setScope req name no_team = req"
  by (simp add: setScope_def)

section \<open>Teams the caller can not charge stay hidden\<close>

text \<open>The same stores without the team of a slug.\<close>

definition hide_team :: "'e scope_env \<Rightarrow> string \<Rightarrow> string \<Rightarrow> 'e scope_env" where
  "hide_team env orgID slug =
     env\<lparr>se_teamBySlug := \<lambda>i s. if i = orgID \<and> s = slug then Inl NotFound else se_teamBySlug env i s\<rparr>"

lemma hide_team_sel [simp]:
  "se_orgByID (hide_team env i s) = se_orgByID env" "se_teamByID (hide_team env i s) = se_teamByID env"
  "se_personal (hide_team env i s) = se_personal env"
  "lookupLocalModel (hide_team env i s) = lookupLocalModel env"
  by (simp_all add: hide_team_def lookupLocalModel_def fun_eq_iff)

lemma asked_segment_parts:
  assumes "asked_segment m = Some (org, segment)"
  obtains loc where "m = org @ slash # segment @ slash # loc" "loc \<noteq> []" "segment \<noteq> []" "org \<noteq> []" "org \<noteq> PersonalModelOrg"
    "slash \<notin> set org" "slash \<notin> set segment"
  using assms by (auto simp: asked_segment_def str_cut_Some split: option.splits prod.splits if_splits)

lemma parse_without_team:
  assumes "asked_segment m = Some (org, segment)"
  obtains rest where "ParseModelName m None = Some \<lparr>mn_org = org, mn_team = [], mn_local = rest\<rparr>" "m = org @ slash # rest"
    "has_prefix rest (segment @ [slash])"
proof -
  obtain loc where m: "m = org @ slash # segment @ slash # loc" "org \<noteq> []" "org \<noteq> PersonalModelOrg" "slash \<notin> set org"
    using assms by (rule asked_segment_parts)
  then have "ParseModelName m None = Some \<lparr>mn_org = org, mn_team = [], mn_local = segment @ slash # loc\<rparr>"
    by (simp add: ParseModelName_def str_cut_append split: option.split)
  then show ?thesis using that m(1) by (auto simp: has_prefix_iff)
qed

text \<open>
  C10.  The hook never tells a team the caller can not charge from a team that does not exist.  When a request names a team
  of the organization that the caller is not in, or that the token is not bound to, and no model of the organization
  has a name starting with that segment, the request is treated, in its answer, its model name and its metadata,
  exactly as if the store did not hold the team.
\<close>

theorem team_existence_hidden:
  assumes fresh: "\<not> meta_bool (sq_meta req) metaTeamScoped" and user: "sq_userID req \<noteq> []"
    and orgID: "OrgIDFromMeta (sq_meta (scope_marked cx req)) = orgID" "orgID \<noteq> []" and org: "se_orgByID env orgID = Inr org"
    and asked: "asked_segment (sq_model req) = Some (og_slug org, segment)"
    and team: "se_teamBySlug env (og_id org) segment = Inr t"
    and perms: "ResolvePermissions cx (og_id org) = Inr perms"
    and no_charge: "\<not> chargeable perms (BoundTeamIDFromContext cx) (Some t)"
    and no_model: "\<And>loc. ModelNameConflicts segment loc \<Longrightarrow> lookupLocalModel env (og_id org) loc = Inr None"
  shows "TeamScopePreRequest env cx req = TeamScopePreRequest (hide_team env (og_id org) segment) cx req"
proof -
  let ?env = "hide_team env (og_id org) segment" and ?req = "scope_marked cx req" and ?b = "BoundTeamIDFromContext cx"
  obtain rest where rest: "ParseModelName (sq_model req) None = Some \<lparr>mn_org = og_slug org, mn_team = [], mn_local = rest\<rparr>"
      "sq_model req = og_slug org @ slash # rest" "has_prefix rest (segment @ [slash])"
    by (rule parse_without_team [OF asked])
  obtain loc where loc: "og_slug org \<noteq> PersonalModelOrg" "og_slug org \<noteq> []" using asked_segment_parts [OF asked] by metis
  let ?n = "\<lparr>mn_org = og_slug org, mn_team = [], mn_local = rest\<rparr>"
  have named: "named_team env org (sq_model req) = Inr (Some t)" "named_team ?env org (sq_model req) = Inr None"
    using asked team by (auto simp: named_team_def hide_team_def)
  define n where "n = \<lparr>mn_org = og_slug org, mn_team = segment, mn_local = drop (length (og_slug org) + length segment + 2) (sq_model req)\<rparr>"
  have parse: "ParseModelName (sq_model req) (Some (segment_is_team env org)) = Some n"
      "ParseModelName (sq_model req) (Some (segment_is_team ?env org)) = Some ?n"
    using asked team rest(1) named_team_parse [OF named(2)] unfolding asked_segment_parse
    by (auto simp: segment_is_team_def n_def)
  have lookup: "lookupLocalModel env (og_id org) rest = Inr None" using no_model rest(3) by (simp add: ModelNameConflicts_def)
  have str: "sq_model ?req = mn_string (OrgLevel ?n)"
    using rest(2) loc(2) by (simp add: scope_marked_meta mn_string_def OrgLevel_def)
  show ?thesis
  proof (cases "\<exists>bt. bound_ok perms ?b bt")
    case True
    then obtain bt where bt: "bound_ok perms ?b bt" by blast
    have "TeamScopePreRequest env cx req = attribute env cx org perms ?b bt (Some t) n ?req"
      by (rule TeamScopePreRequest_attribute [OF fresh orgID user org named(1) parse(1) _ perms bt]) (simp add: n_def)
    also have "\<dots> = (?req, Inr None)"
      using no_charge loc(1) by (simp add: attribute_def Personal_def n_def)
    also have "\<dots> = attribute ?env cx org perms ?b bt None ?n ?req"
      using lookup loc(1) setScope_no_team [OF str] by (simp add: attribute_def Personal_def chargeable_def)
    also have "\<dots> = TeamScopePreRequest ?env cx req"
      by (rule TeamScopePreRequest_attribute [OF fresh orgID user _ named(2) parse(2) _ perms bt, symmetric]) (simp_all add: org)
    finally show ?thesis .
  next
    case False
    then have b: "?b \<noteq> []" "teamRefOf perms ?b = None" by (cases "teamRefOf perms ?b"; auto simp: bound_ok_def split: if_splits)+
    then show ?thesis
      using fresh orgID user org named parse perms
      by (simp add: TeamScopePreRequest_def Let_def scope_marked_meta n_def)
  qed
qed

section \<open>Listed names are served\<close>

text \<open>\<open>IsValidSlug\<close> of \<open>src/internal/core/model/slug.go\<close>, with its regular expression read off: lower case letters and
  digits, and dashes inside.\<close>

definition slug_char :: "char \<Rightarrow> bool" where
  "slug_char c \<longleftrightarrow> CHR ''a'' \<le> c \<and> c \<le> CHR ''z'' \<or> CHR ''0'' \<le> c \<and> c \<le> CHR ''9''"

definition IsValidSlug :: "string \<Rightarrow> bool" where
  "IsValidSlug s \<longleftrightarrow> s \<noteq> [] \<and> length s \<le> 63 \<and> list_all (\<lambda>c. slug_char c \<or> c = CHR ''-'') s \<and>
     slug_char (hd s) \<and> slug_char (last s)"

lemma slug_not_slash: "IsValidSlug s \<Longrightarrow> slash \<notin> set s"
  by (auto simp: IsValidSlug_def list_all_iff slug_char_def less_eq_char_simp)

lemma slug_not_personal: "IsValidSlug s \<Longrightarrow> s \<noteq> PersonalModelOrg"
  by (auto simp: IsValidSlug_def PersonalModelOrg_def slug_char_def less_eq_char_simp)

lemma slug_nonempty: "IsValidSlug s \<Longrightarrow> s \<noteq> []"
  by (simp add: IsValidSlug_def)

text \<open>What the hook relies on in the stores: the organization of the token, and every team of the caller under its slug.\<close>

definition stores_agree :: "'e scope_env \<Rightarrow> 'e request_context \<Rightarrow> organization \<Rightarrow> permission_set \<Rightarrow> bool" where
  "stores_agree env cx org perms \<longleftrightarrow>
     og_id org \<noteq> [] \<and> IsValidSlug (og_slug org) \<and> cx_orgID cx = og_id org \<and> se_orgByID env (og_id org) = Inr org \<and>
     ResolvePermissions cx (og_id org) = Inr perms \<and> distinct_teams perms \<and>
     (\<forall>r \<in> set (Teams perms). tr_id r \<noteq> [] \<and> IsValidSlug (tr_slug r) \<and>
        (\<exists>t. se_teamBySlug env (og_id org) (tr_slug r) = Inr t \<and> ot_id t = tr_id r))"

text \<open>The local name of a model, no segment of which is the slug of a team.\<close>

definition local_ok :: "'e scope_env \<Rightarrow> organization \<Rightarrow> string \<Rightarrow> string \<Rightarrow> string \<Rightarrow> bool" where
  "local_ok env org loc kind modelID \<longleftrightarrow>
     loc \<noteq> [] \<and> lookupLocalModel env (og_id org) loc = Inr (Some (kind, modelID)) \<and>
     (\<forall>slug. ModelNameConflicts slug loc \<longrightarrow> se_teamBySlug env (og_id org) slug = Inl NotFound)"

lemma asked_team_form:
  assumes "IsValidSlug org" "IsValidSlug slug" "loc \<noteq> []"
  shows "asked_segment (team_model_name org slug loc) = Some (org, slug)"
  using assms slug_not_slash slug_not_personal slug_nonempty
  by (simp add: asked_segment_def team_model_name_def mn_string_def str_cut_append)

lemma team_form_parse:
  assumes "IsValidSlug (og_slug org)" "IsValidSlug slug" "loc \<noteq> []" "se_teamBySlug env (og_id org) slug = Inr t"
  shows "named_team env org (team_model_name (og_slug org) slug loc) = Inr (Some t)"
    and "ParseModelName (team_model_name (og_slug org) slug loc) (Some (segment_is_team env org)) =
       Some \<lparr>mn_org = og_slug org, mn_team = slug, mn_local = loc\<rparr>"
  using asked_team_form [OF assms(1-3)] assms slug_nonempty [of slug] slug_nonempty [of "og_slug org"]
  unfolding asked_segment_parse
  by (simp_all add: named_team_def segment_is_team_def team_model_name_def mn_string_def)

lemma short_form_named:
  assumes "IsValidSlug (og_slug org)" "local_ok env org loc kind modelID"
  shows "named_team env org (og_slug org @ slash # loc) = Inr None"
proof (cases "asked_segment (og_slug org @ slash # loc)")
  case None
  then show ?thesis by (simp add: named_team_def)
next
  case (Some a)
  obtain o' seg where a: "a = (o', seg)" by (cases a)
  obtain l where l: "og_slug org @ slash # loc = o' @ slash # seg @ slash # l" "slash \<notin> set o'"
    using asked_segment_parts [OF Some [unfolded a]] by metis
  have "str_cut slash (og_slug org @ slash # loc) = Some (og_slug org, loc)"
    using slug_not_slash [OF assms(1)] by (rule str_cut_append)
  moreover have "str_cut slash (og_slug org @ slash # loc) = Some (o', seg @ slash # l)"
    unfolding l(1) using l(2) by (rule str_cut_append)
  ultimately have "loc = seg @ slash # l" by simp
  then have "se_teamBySlug env (og_id org) seg = Inl NotFound"
    using assms(2) by (auto simp: local_ok_def ModelNameConflicts_def has_prefix_iff)
  then show ?thesis using Some a by (simp add: named_team_def)
qed

lemma short_form_parse:
  assumes "IsValidSlug (og_slug org)" "local_ok env org loc kind modelID"
  shows "ParseModelName (og_slug org @ slash # loc) (Some (segment_is_team env org)) =
     Some \<lparr>mn_org = og_slug org, mn_team = [], mn_local = loc\<rparr>"
  unfolding named_team_parse [OF short_form_named [OF assms]]
  using assms slug_not_slash slug_not_personal slug_nonempty
  by (simp add: ParseModelName_def str_cut_append local_ok_def split: option.split)

text \<open>A request the hook lets through under the organization-level name of a model, with a team that may use it.\<close>

definition served :: "'e scope_env \<Rightarrow> 'e request_context \<Rightarrow> organization \<Rightarrow> permission_set \<Rightarrow> string \<Rightarrow> string \<Rightarrow> string \<Rightarrow> scope_request \<Rightarrow> bool" where
  "served env cx org perms loc kind modelID req \<longleftrightarrow>
     (\<exists>req'. TeamScopePreRequest env cx req = (req', Inr None) \<and> sq_model req' = og_slug org @ slash # loc \<and>
        CanUseModel perms (TeamIDFromMeta (sq_meta req')) modelID kind \<and>
        (BoundTeamIDFromContext cx \<noteq> [] \<longrightarrow> TeamIDFromMeta (sq_meta req') = BoundTeamIDFromContext cx))"

definition fresh_request :: "scope_request \<Rightarrow> bool" where
  "fresh_request req \<longleftrightarrow>
     \<not> meta_bool (sq_meta req) metaTeamScoped \<and> TeamIDFromMeta (sq_meta req) = [] \<and> sq_userID req \<noteq> []"

lemma bound_ok_ex: "(bound \<noteq> [] \<Longrightarrow> InTeam perms bound) \<Longrightarrow> \<exists>bt. bound_ok perms bound bt"
  by (cases "teamRefOf perms bound") (auto simp: bound_ok_def teamRefOf_def find_None_iff InTeam_iff)

lemma agree_attribute:
  assumes "stores_agree env cx org perms" "fresh_request req"
    "named_team env org (sq_model req) = Inr named"
    "ParseModelName (sq_model req) (Some (segment_is_team env org)) = Some name" "mn_org name = og_slug org"
    "bound_ok perms (BoundTeamIDFromContext cx) boundTeam"
  shows "TeamScopePreRequest env cx req =
    attribute env cx org perms (BoundTeamIDFromContext cx) boundTeam named name (scope_marked cx req)"
  using assms scope_marked_org [of cx req]
  by (intro TeamScopePreRequest_attribute [of req cx "og_id org"]) (auto simp: stores_agree_def fresh_request_def)

lemma org_name_level:
  assumes "IsValidSlug (og_slug org)"
  shows "mn_string (OrgLevel \<lparr>mn_org = og_slug org, mn_team = slug, mn_local = loc\<rparr>) = og_slug org @ slash # loc"
    and "\<not> Personal \<lparr>mn_org = og_slug org, mn_team = slug, mn_local = loc\<rparr>"
  using slug_nonempty [OF assms] slug_not_personal [OF assms] by (simp_all add: mn_string_def OrgLevel_def Personal_def)

lemma setScope_model: "sq_model (setScope req name team) = mn_string (OrgLevel name)"
  by (simp add: setScope_def)

lemma team_form_served:
  assumes agree: "stores_agree env cx org perms" and loc: "local_ok env org loc kind modelID" and fresh: "fresh_request req"
    and r: "r \<in> set (Teams perms)" "sq_model req = team_model_name (og_slug org) (tr_slug r) loc"
    and use: "CanUseModel perms (tr_id r) modelID kind"
    and b: "BoundTeamIDFromContext cx \<noteq> [] \<Longrightarrow> tr_id r = BoundTeamIDFromContext cx"
  shows "served env cx org perms loc kind modelID req"
proof -
  let ?n = "\<lparr>mn_org = og_slug org, mn_team = tr_slug r, mn_local = loc\<rparr>" and ?b = "BoundTeamIDFromContext cx"
  obtain t where t: "se_teamBySlug env (og_id org) (tr_slug r) = Inr t" "ot_id t = tr_id r" "IsValidSlug (tr_slug r)" "tr_id r \<noteq> []"
    using agree r(1) by (auto simp: stores_agree_def)
  have org: "IsValidSlug (og_slug org)" using agree by (simp add: stores_agree_def)
  have l: "loc \<noteq> []" "lookupLocalModel env (og_id org) loc = Inr (Some (kind, modelID))" using loc by (auto simp: local_ok_def)
  have mem: "InTeam perms (tr_id r)" using r(1) by (rule Teams_InTeam)
  then obtain bt where bt: "bound_ok perms ?b bt" using bound_ok_ex [of ?b perms] b by fastforce
  have "TeamScopePreRequest env cx req = attribute env cx org perms ?b bt (Some t) ?n (scope_marked cx req)"
    using team_form_parse [OF org t(3) l(1) t(1)] r(2) by (intro agree_attribute [OF agree fresh _ _ _ bt]) simp_all
  also have "\<dots> = (setScope (scope_marked cx req) ?n (refOf (Some t)), Inr None)"
    using org_name_level(2) [OF org] l(2) use t(2) b mem by (auto simp: attribute_def chargeable_def model_team_def)
  finally show ?thesis
    using t(2,4) use b by (simp add: served_def setScope_team refOf_def setScope_model org_name_level [OF org])
qed

lemma short_form_served:
  assumes agree: "stores_agree env cx org perms" and loc: "local_ok env org loc kind modelID" and fresh: "fresh_request req"
    and m: "sq_model req = og_slug org @ slash # loc" and wide: "HasOrgWideModelAccess perms kind"
    and b: "BoundTeamIDFromContext cx = []"
  shows "served env cx org perms loc kind modelID req"
proof -
  let ?n = "\<lparr>mn_org = og_slug org, mn_team = [], mn_local = loc\<rparr>" and ?b = "BoundTeamIDFromContext cx"
  have org: "IsValidSlug (og_slug org)" using agree by (simp add: stores_agree_def)
  have l: "lookupLocalModel env (og_id org) loc = Inr (Some (kind, modelID))" using loc by (auto simp: local_ok_def)
  have "TeamScopePreRequest env cx req = attribute env cx org perms ?b no_team None ?n (scope_marked cx req)"
    using short_form_parse [OF org loc] short_form_named [OF org loc] m b
    by (intro agree_attribute [OF agree fresh]) (simp_all add: bound_ok_def)
  also have "\<dots> = (setScope (scope_marked cx req) ?n no_team, Inr None)"
    using org_name_level(2) [OF org] l wide by (simp add: attribute_def chargeable_def model_team_def)
  finally show ?thesis
    using wide b by (simp add: served_def setScope_model org_name_level [OF org] CanUseModel_def)
qed

text \<open>
  Every model name a principal is shown can be used.  A request for any of the names \<open>ListedModelNames\<close> gives for a
  model is let through by the hook under the organization-level name of that model, is charged to the bound team when
  the token has one, and the access check that follows, in the router or in front of the pipeline, accepts it.
\<close>

lemma listed_name_served:
  assumes agree: "stores_agree env cx org perms" and loc: "local_ok env org loc kind modelID" and fresh: "fresh_request req"
    and listed: "sq_model req \<in> set (ListedModelNames perms (BoundTeamIDFromContext cx) (og_slug org) loc modelID kind)"
  shows "served env cx org perms loc kind modelID req"
proof (cases "BoundTeamIDFromContext cx = []")
  case b: True
  show ?thesis
  proof (cases "\<exists>r \<in> set (TeamsGranting perms modelID kind). sq_model req = team_model_name (og_slug org) (tr_slug r) loc")
    case True
    then obtain r where r: "r \<in> set (TeamsGranting perms modelID kind)" "sq_model req = team_model_name (og_slug org) (tr_slug r) loc"
      by blast
    then have mem: "r \<in> set (Teams perms)" by (auto simp: TeamsGranting_def Teams_def)
    then have "tr_id r \<noteq> []" "distinct_teams perms" using agree by (auto simp: stores_agree_def)
    then show ?thesis using team_form_served [OF agree loc fresh mem r(2)] granting_can_use [OF _ r(1)] b by blast
  next
    case False
    have "IsValidSlug (og_slug org)" using agree by (simp add: stores_agree_def)
    then have "HasOrgWideModelAccess perms kind" "sq_model req = og_slug org @ slash # loc"
      using listed b False slug_nonempty by (auto simp: ListedModelNames_def mn_string_def split: if_splits)
    then show ?thesis using short_form_served [OF agree loc fresh] b by blast
  qed
next
  case False
  let ?b = "BoundTeamIDFromContext cx"
  have b: "InTeam perms ?b" "CanUseModel perms ?b modelID kind"
      "sq_model req = team_model_name (og_slug org) (teamSlugOf perms ?b) loc"
    using listed False by (auto simp: ListedModelNames_def split: if_splits)
  then obtain r where "find (\<lambda>t. tr_id t = ?b) (Teams perms) = Some r"
    by (cases "find (\<lambda>t. tr_id t = ?b) (Teams perms)") (auto simp: find_None_iff InTeam_iff)
  then have "r \<in> set (Teams perms)" "tr_id r = ?b" "teamSlugOf perms ?b = tr_slug r"
    by (auto simp: teamSlugOf_def dest: teamRefOf_Some [unfolded teamRefOf_def])
  then show ?thesis using team_form_served [OF agree loc fresh, of r] b by simp
qed

section \<open>Concrete requests\<close>

text \<open>An organization with two teams, \<open>core\<close> which grants the model \<open>gpt\<close>, and \<open>ops\<close>; the caller is in \<open>core\<close> only.\<close>

definition acme :: organization where
  "acme = \<lparr>og_id = ''o1'', og_slug = ''acme'', og_active = True\<rparr>"

definition acme_env :: "unit scope_env" where
  "acme_env =
     \<lparr>se_orgByID = \<lambda>i. if i = ''o1'' then Inr acme else Inl NotFound,
      se_orgBySlug = \<lambda>_ s. if s = ''acme'' then Inr acme else Inl NotFound,
      se_teamBySlug = \<lambda>_ s. if s = ''core'' then Inr \<lparr>ot_id = ''t1'', ot_orgID = ''o1'', ot_slug = ''core''\<rparr>
                      else if s = ''ops'' then Inr \<lparr>ot_id = ''t2'', ot_orgID = ''o1'', ot_slug = ''ops''\<rparr>
                      else Inl NotFound,
      se_teamByID = \<lambda>_. Inl NotFound,
      se_virtual = None,
      se_llm = Some (\<lambda>_ n. if n = ''gpt'' then Inr (Some ''m1'') else Inl NotFound),
      se_personal = None\<rparr>"

definition acme_perms :: permission_set where
  "acme_perms = NewPermissionSet []
     [\<lparr>ta_teamID = ''t1'', ta_slug = ''core'', ta_codes = [], ta_grants = [\<lparr>mg_modelID = ''m1'', mg_kind = ModelKindLLM\<rparr>]\<rparr>]"

definition acme_cx :: "unit request_context" where
  "acme_cx = \<lparr>cx_authTokenID = ''k'', cx_orgID = ''o1'', cx_applicationID = [], cx_tenantID = [], cx_authnTeam = None,
     cx_user = Some ''u'', cx_resolver = Some (\<lambda>_. Inr acme_perms)\<rparr>"

definition acme_request :: "string \<Rightarrow> scope_request" where
  "acme_request name = \<lparr>sq_model = name, sq_userID = ''u'', sq_meta = Map.empty\<rparr>"

lemmas acme_defs = acme_def acme_env_def acme_perms_def acme_cx_def acme_request_def

lemma acme_teams [simp]: "Teams acme_perms = [\<lparr>tr_id = ''t1'', tr_slug = ''core''\<rparr>]"
  by (simp add: acme_perms_def Teams_def team_set_of_def)

lemma acme_distinct: "ResolvePermissions acme_cx orgID = Inr perms \<Longrightarrow> distinct_teams perms"
  by (auto simp: ResolvePermissions_def acme_cx_def distinct_teams_def)

lemma acme_charged:
  "snd (TeamScopePreRequest acme_env acme_cx (acme_request ''acme/gpt'')) = Inr None"
  "TeamIDFromMeta (sq_meta (fst (TeamScopePreRequest acme_env acme_cx (acme_request ''acme/gpt'')))) = ''t1''"
  by code_simp+

theorem team_scope_charges_own_team_witness:
  "\<exists>org perms name. se_orgByID acme_env (OrgIDFromMeta (sq_meta (scope_marked acme_cx (acme_request ''acme/gpt'')))) = Inr org \<and>
    ResolvePermissions acme_cx (og_id org) = Inr perms \<and>
    ParseModelName (sq_model (acme_request ''acme/gpt'')) (Some (segment_is_team acme_env org)) = Some name \<and>
    (Personal name \<or> mn_org name = og_slug org) \<and>
    attributed_soundly acme_env acme_cx org perms name
      (TeamIDFromMeta (sq_meta (fst (TeamScopePreRequest acme_env acme_cx (acme_request ''acme/gpt'')))))"
proof (rule team_scope_charges_own_team)
  show "TeamScopePreRequest acme_env acme_cx (acme_request ''acme/gpt'') =
      (fst (TeamScopePreRequest acme_env acme_cx (acme_request ''acme/gpt'')), Inr None)"
    using acme_charged(1) by (metis prod.collapse)
  show "TeamIDFromMeta (sq_meta (acme_request ''acme/gpt'')) = []" by code_simp
  show "TeamIDFromMeta (sq_meta (fst (TeamScopePreRequest acme_env acme_cx (acme_request ''acme/gpt'')))) \<noteq> []"
    by (simp add: acme_charged)
qed (rule acme_distinct)

lemma acme_no_conflict: "ModelNameConflicts slug loc \<Longrightarrow> lookupLocalModel acme_env ''o1'' loc = Inr None"
  by (auto simp: ModelNameConflicts_def has_prefix_iff lookupLocalModel_def acme_env_def Cons_eq_append_conv append_eq_Cons_conv)

theorem team_existence_hidden_witness:
  "TeamScopePreRequest acme_env acme_cx (acme_request ''acme/ops/gpt'') =
   TeamScopePreRequest (hide_team acme_env (og_id acme) ''ops'') acme_cx (acme_request ''acme/ops/gpt'')"
proof (rule team_existence_hidden)
  show "\<not> meta_bool (sq_meta (acme_request ''acme/ops/gpt'')) metaTeamScoped" by code_simp
  show "sq_userID (acme_request ''acme/ops/gpt'') \<noteq> []" by code_simp
  show "OrgIDFromMeta (sq_meta (scope_marked acme_cx (acme_request ''acme/ops/gpt''))) = ''o1''" by code_simp
  show "''o1'' \<noteq> []" by simp
  show "se_orgByID acme_env ''o1'' = Inr acme" by code_simp
  show "asked_segment (sq_model (acme_request ''acme/ops/gpt'')) = Some (og_slug acme, ''ops'')" by code_simp
  show "se_teamBySlug acme_env (og_id acme) ''ops'' = Inr \<lparr>ot_id = ''t2'', ot_orgID = ''o1'', ot_slug = ''ops''\<rparr>" by code_simp
  show "ResolvePermissions acme_cx (og_id acme) = Inr acme_perms" by (simp add: ResolvePermissions_def acme_cx_def)
  show "\<not> chargeable acme_perms (BoundTeamIDFromContext acme_cx) (Some \<lparr>ot_id = ''t2'', ot_orgID = ''o1'', ot_slug = ''ops''\<rparr>)"
    by (simp add: chargeable_def InTeam_iff)
  show "lookupLocalModel acme_env (og_id acme) loc = Inr None" if "ModelNameConflicts ''ops'' loc" for loc
    using acme_no_conflict [OF that] by (simp add: acme_def)
qed

lemma acme_agrees: "stores_agree acme_env acme_cx acme acme_perms"
proof -
  have "ResolvePermissions acme_cx (og_id acme) = Inr acme_perms" by (simp add: ResolvePermissions_def acme_cx_def)
  moreover have "og_id acme \<noteq> [] \<and> IsValidSlug (og_slug acme) \<and> cx_orgID acme_cx = og_id acme \<and> IsValidSlug ''core''" by code_simp
  moreover have "se_orgByID acme_env (og_id acme) = Inr acme" by code_simp
  moreover have "se_teamBySlug acme_env (og_id acme) ''core'' = Inr \<lparr>ot_id = ''t1'', ot_orgID = ''o1'', ot_slug = ''core''\<rparr>" by code_simp
  ultimately show ?thesis by (simp add: stores_agree_def distinct_teams_def)
qed

lemma acme_local: "local_ok acme_env acme ''gpt'' ModelKindLLM ''m1''"
proof -
  have "lookupLocalModel acme_env (og_id acme) ''gpt'' = Inr (Some (ModelKindLLM, ''m1''))" by code_simp
  then show ?thesis by (auto simp: local_ok_def ModelNameConflicts_def has_prefix_iff Cons_eq_append_conv append_eq_Cons_conv)
qed

end
