(* ===== verification/Usage_Tracker.thy ===== *)
theory Usage_Tracker
  imports Quota_Enforcer_Safety Usage_Store Team_Scope Provider_Keys
begin

text \<open>
  What a response costs and how it reaches the budgets: the hook that records the usage of a response
  (\<open>src/internal/adapter/proxy/usage_tracker.go\<close>, \<open>NewUsageRecord\<close> of \<open>src/internal/core/model/usage.go\<close>) and the conversion
  of costs (\<open>src/internal/core/service/exchange_rate.go\<close>, \<open>src/internal/core/model/exchange_rate.go\<close>,
  \<open>src/internal/adapter/gorm/exchange_rate_store.go\<close>), down to the counters the budget hook reads.

  Costs are \<open>int64\<close> millionths of a currency unit, token counts Go \<open>int\<close>s, rates \<open>float64\<close>.  The store of rates is a table
  keyed by both currencies; \<open>rate_env\<close> says which accesses fail and what the provider of rates answers.  \<open>tracker_env\<close> holds the
  stores, the clock, the identifier of the next record and \<open>body_lib\<close>, the decodings of \<open>encoding/json\<close> the estimate of a
  prompt uses.  The key a request went through is a field of its own, its metadata value having a type of its own.  Metrics,
  log lines and the energy estimate, which only the daily sums keep, are left out.
\<close>

section \<open>Exchange rates\<close>

record exchange_rate =
  xr_from :: string
  xr_to :: string
  xr_rate :: float64
  xr_fetchedAt :: int

definition rate_Convert :: "exchange_rate \<Rightarrow> int \<Rightarrow> int" where
  "rate_Convert r amount =
     (if f64_eq (xr_rate r) (Fin 0) then amount else f64_to_int64 (f64_mul (f64_of_int amount) (xr_rate r)))"

type_synonym rate_table = "((string \<times> string) \<times> float64 \<times> int) list"

record 'e rate_env =
  xe_readError :: "string \<Rightarrow> string \<Rightarrow> 'e option"
  xe_writeError :: "string \<Rightarrow> string \<Rightarrow> 'e option"
  xe_FetchRates :: "string \<Rightarrow> ('e, (string \<times> float64) list) result"
  xe_ttl :: int

definition GetRate :: "'e rate_env \<Rightarrow> rate_table \<Rightarrow> string \<Rightarrow> string \<Rightarrow> ('e store_error, exchange_rate) result" where
  "GetRate env t src dst =
     (case xe_readError env src dst of
        Some e \<Rightarrow> Inl (StoreFailed e)
      | None \<Rightarrow>
          (case map_of t (src, dst) of
             None \<Rightarrow> Inl NotFound
           | Some (rate, fetchedAt) \<Rightarrow> Inr \<lparr>xr_from = src, xr_to = dst, xr_rate = rate, xr_fetchedAt = fetchedAt\<rparr>))"

definition UpsertRate :: "'e rate_env \<Rightarrow> exchange_rate \<Rightarrow> rate_table \<Rightarrow> rate_table" where
  "UpsertRate env r t =
     (case xe_writeError env (xr_from r) (xr_to r) of
        Some _ \<Rightarrow> t
      | None \<Rightarrow> AList.update (xr_from r, xr_to r) (xr_rate r, xr_fetchedAt r) t)"

definition upsert_rates :: "'e rate_env \<Rightarrow> int \<Rightarrow> string \<Rightarrow> (string \<times> float64) list \<Rightarrow> rate_table \<Rightarrow> rate_table" where
  "upsert_rates env now src rates t =
     fold (\<lambda>(dst, rate). UpsertRate env \<lparr>xr_from = src, xr_to = dst, xr_rate = rate, xr_fetchedAt = now\<rparr>) rates t"

datatype 'e rate_error = FetchFailed 'e | NoRate string string

definition resolveRate :: "'e rate_env \<Rightarrow> int \<Rightarrow> string \<Rightarrow> string \<Rightarrow> rate_table \<Rightarrow> ('e rate_error, exchange_rate) result \<times> rate_table" where
  "resolveRate env now src dst t =
     (let cached = (case GetRate env t src dst of Inr r \<Rightarrow> Some r | Inl _ \<Rightarrow> None);
          fetch = (case xe_FetchRates env src of
                     Inl e \<Rightarrow> (case cached of Some r \<Rightarrow> (Inr r, t) | None \<Rightarrow> (Inl (FetchFailed e), t))
                   | Inr rates \<Rightarrow>
                       (let t' = upsert_rates env now src rates t
                        in case map_of rates dst of
                             Some rate \<Rightarrow> (Inr \<lparr>xr_from = src, xr_to = dst, xr_rate = rate, xr_fetchedAt = now\<rparr>, t')
                           | None \<Rightarrow> (Inl (NoRate src dst), t')))
      in case cached of
           Some r \<Rightarrow> if now - xr_fetchedAt r < xe_ttl env then (Inr r, t) else fetch
         | None \<Rightarrow> fetch)"

text \<open>The amount and the error, as the code returns them, and the table left.\<close>

definition Convert :: "'e rate_env \<Rightarrow> int \<Rightarrow> int \<Rightarrow> string \<Rightarrow> string \<Rightarrow> rate_table \<Rightarrow> (int \<times> 'e rate_error option) \<times> rate_table" where
  "Convert env now amount src dst t =
     (if src = dst \<or> amount = 0 then ((amount, None), t)
      else
        (case resolveRate env now src dst t of
           (Inl e, t') \<Rightarrow> ((amount, Some e), t')
         | (Inr rate, t') \<Rightarrow> ((rate_Convert rate amount, None), t')))"

definition refreshAll :: "'e rate_env \<Rightarrow> int \<Rightarrow> string list \<Rightarrow> rate_table \<Rightarrow> rate_table" where
  "refreshAll env now bases t =
     fold (\<lambda>base t. case xe_FetchRates env base of Inl _ \<Rightarrow> t | Inr rates \<Rightarrow> upsert_rates env now base rates t) bases t"

section \<open>Responses and records\<close>

record token_usage =
  tu_promptTokens :: int
  tu_cachedTokens :: int
  tu_completionTokens :: int
  tu_cost :: "float64 option"
  tu_costCurrency :: string

datatype interruption_cause =
  StreamInterruptionUpstream | StreamInterruptionClientGone | StreamInterruptionWriteFailed | StreamInterruptionTruncated
  | StreamInterruptionOther string

record stream_interruption =
  si_cause :: interruption_cause
  si_partialUsage :: bool
  si_chunksEmitted :: int

record tracked_response =
  tp_tokensUsed :: "token_usage option"
  tp_interruption :: "stream_interruption option"

record tracked_request = scope_request +
  tq_body :: string
  tq_keyUsed :: string

record billed_model = llm_model +
  bm_proxyName :: string
  bm_cachedPromptCost :: int

record billed_org = organization +
  bo_currency :: string

datatype cost_source = CostSourceProvider | CostSourceComputed | CostSourceEstimated

datatype usage_status =
  UsageStatusOK | UsageStatusInterrupted | UsageStatusClientGone | UsageStatusWriteFailed | UsageStatusTruncated

record tracked_record = usage_record +
  kr_costSource :: cost_source
  kr_status :: usage_status

definition NewUsageRecord :: "string \<Rightarrow> int \<Rightarrow> string \<Rightarrow> string \<Rightarrow> string \<Rightarrow> string \<Rightarrow> string \<Rightarrow> string \<Rightarrow> string \<Rightarrow> string
    \<Rightarrow> int \<Rightarrow> int \<Rightarrow> int \<Rightarrow> int \<Rightarrow> string \<Rightarrow> cost_source \<Rightarrow> string \<Rightarrow> tracked_record" where
  "NewUsageRecord newID now userID applicationID orgID teamID providerID modelID proxyModelName authTokenID
     promptTokens cachedTokens completionTokens cost currency costSource resolvedModelName =
     \<lparr>ur_id = newID, ur_userID = userID, ur_applicationID = applicationID, ur_orgID = orgID, ur_teamID = teamID,
      ur_providerID = providerID, ur_modelID = modelID, ur_proxyModelName = proxyModelName,
      ur_resolvedModelName = resolvedModelName, ur_authTokenID = authTokenID, ur_promptTokens = promptTokens,
      ur_cachedTokens = cachedTokens, ur_completionTokens = completionTokens,
      ur_totalTokens = wrap64 (promptTokens + completionTokens), ur_cost = cost, ur_currency = currency, ur_createdAt = now,
      ur_planCovered = False, ur_providerCost = 0, ur_keyID = PrimaryProviderKey, kr_costSource = costSource, kr_status = UsageStatusOK\<rparr>"

section \<open>Tokens of a response\<close>

record body_lib =
  bl_messages :: "string \<Rightarrow> string list option"
  bl_string :: "string \<Rightarrow> string option"
  bl_parts :: "string \<Rightarrow> string list option"

definition charsPerToken :: int where
  "charsPerToken = 4"

definition messageText :: "body_lib \<Rightarrow> string \<Rightarrow> string" where
  "messageText lib content =
     (if content = [] then []
      else (case bl_string lib content of
              Some s \<Rightarrow> s
            | None \<Rightarrow> (case bl_parts lib content of Some parts \<Rightarrow> concat parts | None \<Rightarrow> content)))"

definition estimatePromptTokens :: "body_lib \<Rightarrow> string \<Rightarrow> int" where
  "estimatePromptTokens lib body =
     (if body = [] then 0
      else (case bl_messages lib body of
              Some (m # ms) \<Rightarrow> (\<Sum>content\<leftarrow>m # ms. int (length (messageText lib content))) sdiv charsPerToken
            | _ \<Rightarrow> int (length body) sdiv charsPerToken))"

definition estimateInterruptedTokens :: "body_lib \<Rightarrow> string \<Rightarrow> stream_interruption \<Rightarrow> int \<times> int" where
  "estimateInterruptedTokens lib body i = (estimatePromptTokens lib body, si_chunksEmitted i)"

definition usageStatus :: "tracked_response \<Rightarrow> usage_status" where
  "usageStatus res =
     (case tp_interruption res of
        None \<Rightarrow> UsageStatusOK
      | Some i \<Rightarrow>
          (case si_cause i of
             StreamInterruptionUpstream \<Rightarrow> UsageStatusInterrupted
           | StreamInterruptionClientGone \<Rightarrow> UsageStatusClientGone
           | StreamInterruptionWriteFailed \<Rightarrow> UsageStatusWriteFailed
           | StreamInterruptionTruncated \<Rightarrow> UsageStatusTruncated
           | StreamInterruptionOther _ \<Rightarrow> UsageStatusInterrupted))"

text \<open>Prompt, cached and completion tokens, and whether they are estimates.\<close>

definition recorded_tokens :: "body_lib \<Rightarrow> string \<Rightarrow> token_usage \<Rightarrow> stream_interruption option \<Rightarrow> int \<times> int \<times> int \<times> bool" where
  "recorded_tokens lib body usage interruption =
     (case interruption of
        Some i \<Rightarrow>
          if \<not> si_partialUsage i
          then (case estimateInterruptedTokens lib body i of (prompt, completion) \<Rightarrow> (prompt, 0, completion, True))
          else (tu_promptTokens usage, tu_cachedTokens usage, tu_completionTokens usage, False)
      | None \<Rightarrow> (tu_promptTokens usage, tu_cachedTokens usage, tu_completionTokens usage, False))"

section \<open>Cost of a response\<close>

definition zeroPlanCost :: "bool \<Rightarrow> float64 \<Rightarrow> int \<Rightarrow> bool" where
  "zeroPlanCost planCovered cost tokens = (planCovered \<and> f64_eq cost (Fin 0) \<and> tokens > 0)"

definition tariff_cost :: "billed_model \<Rightarrow> int \<Rightarrow> int \<Rightarrow> int \<Rightarrow> int" where
  "tariff_cost m promptTokens cachedTokens completionTokens =
     wrap64 (wrap64 (wrap64 (wrap64 (promptTokens - cachedTokens) * lm_promptCost m) sdiv 1000
                     + wrap64 (cachedTokens * bm_cachedPromptCost m) sdiv 1000)
             + wrap64 (completionTokens * lm_completionCost m) sdiv 1000)"

definition provider_cost :: "plan_provider \<Rightarrow> billed_model \<Rightarrow> token_usage \<Rightarrow> int \<times> int \<times> int \<times> bool \<Rightarrow> int \<times> string \<times> cost_source" where
  "provider_cost p m usage = (\<lambda>(promptTokens, cachedTokens, completionTokens, estimated).
     (let computed = (tariff_cost m promptTokens cachedTokens completionTokens, pv_currency p,
                      if estimated then CostSourceEstimated else CostSourceComputed)
      in case tu_cost usage of
           Some cost \<Rightarrow>
             if \<not> estimated \<and> \<not> zeroPlanCost (pv_subscription p) cost (wrap64 (promptTokens + completionTokens))
             then (f64_to_int64 (f64_round (f64_mul cost (Fin 1000000))), tu_costCurrency usage, CostSourceProvider)
             else computed
         | None \<Rightarrow> computed))"

text \<open>Cost, currency and name of the model on the record, and the rates left; the names of an organization that can not be
  loaded stay as they are.\<close>

definition org_cost :: "'e rate_env \<Rightarrow> int \<Rightarrow> ('e store_error, billed_org) result \<Rightarrow> billed_model \<Rightarrow> string \<Rightarrow> int \<Rightarrow> string \<Rightarrow> rate_table
    \<Rightarrow> int \<times> string \<times> string \<times> rate_table" where
  "org_cost env now org m resolvedModel cost currency t =
     (case org of
        Inl _ \<Rightarrow> (cost, currency, resolvedModel, t)
      | Inr o' \<Rightarrow>
          (let orgCurrency = (if bo_currency o' = [] then DefaultCurrency else bo_currency o');
               name = og_slug o' @ ''/'' @ bm_proxyName m
           in case Convert env now cost currency orgCurrency t of
                ((_, Some _), t') \<Rightarrow> (cost, currency, name, t')
              | ((converted, None), t') \<Rightarrow> (converted, orgCurrency, name, t')))"

section \<open>The hook\<close>

record 'e tracker_env =
  te_model :: "string \<Rightarrow> ('e store_error, billed_model) result"
  te_provider :: "string \<Rightarrow> ('e store_error, plan_provider) result"
  te_org :: "string \<Rightarrow> ('e store_error, billed_org) result"
  te_rates :: "'e rate_env"
  te_body :: body_lib
  te_recordError :: "usage_record \<Rightarrow> 'e option"
  te_zone :: "int \<Rightarrow> int"
  te_now :: int
  te_newID :: string

record tracker_state =
  ts_db :: usage_db
  ts_rates :: rate_table

definition ModelIDFromMeta :: "(string \<rightharpoonup> meta_value) \<Rightarrow> string" where
  "ModelIDFromMeta meta = meta_string meta ''modelID''"

definition AuthTokenIDFromMeta :: "(string \<rightharpoonup> meta_value) \<Rightarrow> string" where
  "AuthTokenIDFromMeta meta = meta_string meta MetaAuthTokenID"

definition ApplicationIDFromMeta :: "(string \<rightharpoonup> meta_value) \<Rightarrow> string" where
  "ApplicationIDFromMeta meta = meta_string meta MetaApplicationID"

definition named_or :: "(string \<rightharpoonup> meta_value) \<Rightarrow> string \<Rightarrow> string \<Rightarrow> string" where
  "named_or meta key name = (if meta_string meta key \<noteq> [] then meta_string meta key else name)"

definition recorded_key :: "plan_provider \<Rightarrow> string \<Rightarrow> string" where
  "recorded_key p key = (if key \<noteq> PrimaryProviderKey \<and> ProviderKeyByID p key \<noteq> None then key else PrimaryProviderKey)"

text \<open>The record of a response and the rates left, once its model and its provider are known.\<close>

definition build_record :: "'e tracker_env \<Rightarrow> (string \<rightharpoonup> meta_value) \<Rightarrow> tracked_request \<Rightarrow> tracked_response \<Rightarrow> token_usage
    \<Rightarrow> billed_model \<Rightarrow> plan_provider \<Rightarrow> rate_table \<Rightarrow> tracked_record \<times> rate_table" where
  "build_record env meta req res usage m p t =
     (let tokens = recorded_tokens (te_body env) (tq_body req) usage (tp_interruption res);
          (providerCost, providerCurrency, source) = provider_cost p m usage tokens;
          (cost, currency, resolvedModel, t') =
            org_cost (te_rates env) (te_now env) (te_org env (OrgIDFromMeta meta)) m (named_or meta ''resolvedModel'' (sq_model req))
              providerCost providerCurrency t;
          (promptTokens, cachedTokens, completionTokens, _) = tokens
      in ((NewUsageRecord (te_newID env) (te_now env) (sq_userID req) (ApplicationIDFromMeta meta) (OrgIDFromMeta meta)
             (TeamIDFromMeta meta) (lm_providerID m) (ModelIDFromMeta meta) (named_or meta ''originalModel'' (sq_model req))
             (AuthTokenIDFromMeta meta) promptTokens cachedTokens completionTokens cost currency source resolvedModel)
           \<lparr>ur_planCovered := pv_subscription p, ur_providerCost := providerCost, kr_status := usageStatus res,
            ur_keyID := recorded_key p (tq_keyUsed req)\<rparr>, t'))"

definition PostResponse_usage :: "'e tracker_env \<Rightarrow> 'f request_context \<Rightarrow> tracked_request \<Rightarrow> tracked_response \<Rightarrow> tracker_state
    \<Rightarrow> tracker_state \<times> (string \<rightharpoonup> meta_value)" where
  "PostResponse_usage env cx req res st =
     (case tp_tokensUsed res of
        None \<Rightarrow> (st, sq_meta req)
      | Some usage \<Rightarrow>
          if sq_userID req = [] then (st, sq_meta req)
          else
            (let meta = PopulateMetaFromContext cx (sq_meta req) in
             if OrgIDFromMeta meta = [] \<or> ModelIDFromMeta meta = [] then (st, meta)
             else
               (case te_model env (ModelIDFromMeta meta) of
                  Inl _ \<Rightarrow> (st, meta)
                | Inr m \<Rightarrow>
                    (case te_provider env (lm_providerID m) of
                       Inl _ \<Rightarrow> (st, meta)
                     | Inr p \<Rightarrow>
                         (case build_record env meta req res usage m p (ts_rates st) of
                            (r, t') \<Rightarrow>
                              let stored = usage_record.truncate r in
                              (case te_recordError env stored of
                                 Some _ \<Rightarrow> (st\<lparr>ts_rates := t'\<rparr>, meta)
                               | None \<Rightarrow> (st\<lparr>ts_rates := t', ts_db := RecordUsage (te_zone env) stored (ts_db st)\<rparr>, meta)))))))"


section \<open>What a record adds to the counters\<close>

lemma truncate_fields [simp]:
  "ur_cost (usage_record.truncate r) = ur_cost r" "ur_orgID (usage_record.truncate r) = ur_orgID r"
  "ur_createdAt (usage_record.truncate r) = ur_createdAt r" "ur_planCovered (usage_record.truncate r) = ur_planCovered r"
  "ur_applicationID (usage_record.truncate r) = ur_applicationID r" "ur_userID (usage_record.truncate r) = ur_userID r"
  "ur_teamID (usage_record.truncate r) = ur_teamID r" "ur_currency (usage_record.truncate r) = ur_currency r"
  "ur_providerCost (usage_record.truncate r) = ur_providerCost r" "ur_keyID (usage_record.truncate r) = ur_keyID r"
  "ur_totalTokens (usage_record.truncate r) = ur_totalTokens r" "ur_providerID (usage_record.truncate r) = ur_providerID r"
  "ur_modelID (usage_record.truncate r) = ur_modelID r"
  by (simp_all add: usage_record.defs)

lemma SumQuotaCostSince_record:
  "SumQuotaCostSince (RecordUsage zone r db) scope sid org since = SumQuotaCostSince db scope sid org since
     + (if ur_orgID r = org \<and> (scope, sid) \<in> set (QuotaCounters r)
          \<and> \<not> text_less (quotaUsageDay (local_time zone (ur_createdAt r))) (quotaUsageDay since) then ur_cost r else 0)"
  using sum_one_counter [OF counters_distinct [of r], of "(scope, sid)"
      "ur_orgID r = org \<and> \<not> text_less (quotaUsageDay (local_time zone (ur_createdAt r))) (quotaUsageDay since)" "ur_cost r"]
  by (simp add: SumQuotaCostSince_def RecordUsage_def counters_table.sum_add sum_where_counters case_prod_unfold prod_eq_iff
      conj_assoc quotaUsageDay_def cong: if_cong)

text \<open>The levels whose budgets a request is checked against, and those its record feeds.\<close>

definition request_levels :: "string \<Rightarrow> string \<Rightarrow> string \<Rightarrow> string \<Rightarrow> (quota_scope \<times> string) set" where
  "request_levels org app user team =
     {(QuotaScopeOrg, org), if app \<noteq> [] then (QuotaScopeApplication, app) else (QuotaScopeUser, user)}
     \<union> (if team \<noteq> [] then {(QuotaScopeTeam, team)} else {})
     \<union> (if team \<noteq> [] \<and> app = [] then {(QuotaScopeTeamMember, TeamMemberScopeID team user)} else {})"

lemma counters_are_levels:
  "FeedsMonetaryBudget r \<Longrightarrow> ur_userID r \<noteq> [] \<Longrightarrow>
   set (QuotaCounters r) = request_levels (ur_orgID r) (ur_applicationID r) (ur_userID r) (ur_teamID r)"
  by (auto simp: QuotaCounters_def request_levels_def)

lemma build_record_fields:
  assumes "build_record env meta req res usage m p t = (r, t')"
  shows "ur_userID r = sq_userID req" "ur_orgID r = OrgIDFromMeta meta" "ur_applicationID r = ApplicationIDFromMeta meta"
    "ur_teamID r = TeamIDFromMeta meta" "ur_planCovered r = pv_subscription p" "ur_createdAt r = te_now env"
    "ur_providerID r = lm_providerID m" "ur_modelID r = ModelIDFromMeta meta" "ur_keyID r = recorded_key p (tq_keyUsed req)"
    "ur_providerCost r = fst (provider_cost p m usage (recorded_tokens (te_body env) (tq_body req) usage (tp_interruption res)))"
  using assms by (auto simp: build_record_def NewUsageRecord_def Let_def split: prod.splits)

lemma build_record_cost:
  assumes "recorded_tokens (te_body env) (tq_body req) usage (tp_interruption res) = tokens"
    and "provider_cost p m usage tokens = (providerCost, providerCurrency, source)"
    and "org_cost (te_rates env) (te_now env) (te_org env (OrgIDFromMeta meta)) m (named_or meta ''resolvedModel'' (sq_model req))
      providerCost providerCurrency t = (cost, currency, name, t')"
  shows "ur_cost (fst (build_record env meta req res usage m p t)) = cost"
    "ur_currency (fst (build_record env meta req res usage m p t)) = currency"
  using assms by (auto simp: build_record_def NewUsageRecord_def Let_def split: prod.splits)

text \<open>A response the hook records: it reports tokens, its caller, organization, model and provider are known.\<close>

definition recordable :: "'e tracker_env \<Rightarrow> 'f request_context \<Rightarrow> tracked_request \<Rightarrow> tracked_response \<Rightarrow> token_usage \<Rightarrow> billed_model
    \<Rightarrow> plan_provider \<Rightarrow> bool" where
  "recordable env cx req res usage m p \<longleftrightarrow>
     (let meta = PopulateMetaFromContext cx (sq_meta req)
      in tp_tokensUsed res = Some usage \<and> sq_userID req \<noteq> [] \<and> OrgIDFromMeta meta \<noteq> [] \<and> ModelIDFromMeta meta \<noteq> [] \<and>
         te_model env (ModelIDFromMeta meta) = Inr m \<and> te_provider env (lm_providerID m) = Inr p \<and> (\<forall>r. te_recordError env r = None))"

lemma PostResponse_records:
  assumes "recordable env cx req res usage m p" and "PostResponse_usage env cx req res st = (st', meta)"
    and "build_record env (PopulateMetaFromContext cx (sq_meta req)) req res usage m p (ts_rates st) = (r, t')"
  shows "ts_db st' = RecordUsage (te_zone env) (usage_record.truncate r) (ts_db st)" "ts_rates st' = t'"
    "meta = PopulateMetaFromContext cx (sq_meta req)"
  using assms by (auto simp: recordable_def PostResponse_usage_def Let_def)

text \<open>Every level of the request grows by the cost on the record, unless a plan covers it.\<close>

lemma PostResponse_counters:
  assumes "recordable env cx req res usage m p" and "PostResponse_usage env cx req res st = (st', meta)"
    and "build_record env meta req res usage m p (ts_rates st) = (r, t')"
    and "four_digit_year (te_now env + te_zone env (te_now env))" and "printable_date since"
  shows "SumQuotaCostSince (ts_db st') scope sid (OrgIDFromMeta meta) since
     = SumQuotaCostSince (ts_db st) scope sid (OrgIDFromMeta meta) since
       + (if \<not> pv_subscription p
            \<and> (scope, sid) \<in> request_levels (OrgIDFromMeta meta) (ApplicationIDFromMeta meta) (sq_userID req) (TeamIDFromMeta meta)
            \<and> \<not> date_before (local_time (te_zone env) (te_now env)) since
          then ur_cost r else 0)"
proof -
  have meta: "meta = PopulateMetaFromContext cx (sq_meta req)"
    using PostResponse_records(3) [OF assms(1,2)] by (metis surj_pair)
  note db = PostResponse_records(1) [OF assms(1,2) assms(3) [unfolded meta]]
  note fs = build_record_fields [OF assms(3)]
  have user: "sq_userID req \<noteq> []" and org: "OrgIDFromMeta meta \<noteq> []" using assms(1) by (auto simp: recordable_def meta Let_def)
  have ord: "text_less (quotaUsageDay (local_time (te_zone env) (te_now env))) (quotaUsageDay since)
      \<longleftrightarrow> date_before (local_time (te_zone env) (te_now env)) since"
    using quotaUsageDay_order assms(4,5) printable_civil by (simp add: local_time_def)
  let ?r = "usage_record.truncate r"
  have feeds: "FeedsMonetaryBudget ?r \<longleftrightarrow> \<not> pv_subscription p \<and> ur_cost r \<noteq> 0"
    using org fs by (simp add: FeedsMonetaryBudget_def)
  have "set (QuotaCounters ?r) = (if \<not> pv_subscription p \<and> ur_cost r \<noteq> 0
      then request_levels (OrgIDFromMeta meta) (ApplicationIDFromMeta meta) (sq_userID req) (TeamIDFromMeta meta) else {})"
    using counters_are_levels [of ?r] feeds fs user by (simp add: QuotaCounters_def split: if_splits)
  then show ?thesis using fs by (simp add: db SumQuotaCostSince_record ord)
qed


section \<open>Spending closes budgets\<close>

text \<open>The budget hook reading the totals of a store.\<close>

definition store_totals :: "usage_db \<Rightarrow> 'e spent_since" where
  "store_totals db scope i org since = Inr (SumQuotaCostSince db scope i org since)"

lemma PreRequest_levels:
  assumes "PreRequest q orgs teams spent ps now req = Inr None"
    and "rq_userID req \<noteq> []" and "rq_orgID req \<noteq> []" and "\<not> quota_exempt ps req"
    and "(scope, i) \<in> request_levels (rq_orgID req) (rq_appID req) (rq_userID req) (rq_teamID req)"
    and "getOptionalQuota q scope i = Inr (Some quota)"
  shows "under_budget spent scope i (rq_orgID req) now quota"
  using assms(5) by (intro PreRequest_under_budget [OF assms(1-4,6)]) (auto simp: request_levels_def split: if_splits)

text \<open>
  C13.  Spending closes budgets.  When a response that a plan does not cover is recorded, the total of every level its request
  is checked against (organization, application or user, team, member of the team) grows by the cost on the record, and
  the next request of the same caller, organization and team is not let through once such a total has reached the budget
  of its day, month or year.  The record falls in the period of the next check and the dates have four-digit years.
\<close>

theorem spending_closes_budgets:
  assumes "recordable env cx req res usage m p" and "\<not> pv_subscription p"
    and "PostResponse_usage env cx req res st = (st', meta)"
    and "build_record env meta req res usage m p (ts_rates st) = (r, t')"
    and "(scope, i) \<in> request_levels (OrgIDFromMeta meta) (ApplicationIDFromMeta meta) (sq_userID req) (TeamIDFromMeta meta)"
    and "getOptionalQuota q scope i = Inr (Some quota)" and "period_budget per quota = Some budget"
    and "four_digit_year (te_now env + te_zone env (te_now env))" and "printable_date (window_start per now)"
    and "\<not> date_before (local_time (te_zone env) (te_now env)) (window_start per now)"
    and "budget \<le> SumQuotaCostSince (ts_db st) scope i (OrgIDFromMeta meta) (window_start per now) + ur_cost r"
    and "rq_userID later = sq_userID req" and "rq_orgID later = OrgIDFromMeta meta"
    and "rq_appID later = ApplicationIDFromMeta meta" and "rq_teamID later = TeamIDFromMeta meta"
    and "\<not> quota_exempt ps later"
  shows "SumQuotaCostSince (ts_db st') scope i (OrgIDFromMeta meta) (window_start per now)
      = SumQuotaCostSince (ts_db st) scope i (OrgIDFromMeta meta) (window_start per now) + ur_cost r
    \<and> PreRequest q orgs teams (store_totals (ts_db st')) ps now later \<noteq> Inr None"
proof -
  have grows: "SumQuotaCostSince (ts_db st') scope i (OrgIDFromMeta meta) (window_start per now)
      = SumQuotaCostSince (ts_db st) scope i (OrgIDFromMeta meta) (window_start per now) + ur_cost r"
    using PostResponse_counters [OF assms(1,3,4,8,9)] assms(2,5,10) by simp
  have meta: "meta = PopulateMetaFromContext cx (sq_meta req)"
    using PostResponse_records(3) [OF assms(1,3)] by (metis surj_pair)
  have "sq_userID req \<noteq> []" "OrgIDFromMeta meta \<noteq> []" using assms(1) by (auto simp: recordable_def meta Let_def)
  then have False if "PreRequest q orgs teams (store_totals (ts_db st')) ps now later = Inr None"
    using PreRequest_levels [OF that _ _ assms(16) _ assms(6)] assms(5,7,11-15) grows
    by (fastforce simp: under_budget_def store_totals_def)
  with grows show ?thesis by blast
qed

section \<open>Accuracy of a cost\<close>

text \<open>A thousand times what the tariff of the model makes of the tokens.\<close>

definition exact_tariff :: "billed_model \<Rightarrow> int \<Rightarrow> int \<Rightarrow> int \<Rightarrow> int" where
  "exact_tariff m promptTokens cachedTokens completionTokens =
     (promptTokens - cachedTokens) * lm_promptCost m + cachedTokens * bm_cachedPromptCost m + completionTokens * lm_completionCost m"

lemma wrap64_small: "0 \<le> x \<Longrightarrow> x < 2 ^ 63 \<Longrightarrow> wrap64 x = x"
  by (simp add: wrap64_def)

lemma tariff_cost_accurate:
  assumes "0 \<le> cached" "cached \<le> prompt" "0 \<le> completion" "prompt < 2 ^ 63"
    and "0 \<le> lm_promptCost m" "0 \<le> bm_cachedPromptCost m" "0 \<le> lm_completionCost m"
    and "exact_tariff m prompt cached completion < 2 ^ 63"
  shows "0 \<le> tariff_cost m prompt cached completion"
    "1000 * tariff_cost m prompt cached completion \<le> exact_tariff m prompt cached completion"
    "exact_tariff m prompt cached completion < 1000 * tariff_cost m prompt cached completion + 3000"
proof -
  define a b c where "a = (prompt - cached) * lm_promptCost m" and "b = cached * bm_cachedPromptCost m" and "c = completion * lm_completionCost m"
  have n: "0 \<le> a" "0 \<le> b" "0 \<le> c" using assms by (simp_all add: a_def b_def c_def)
  have e: "exact_tariff m prompt cached completion = a + b + c" by (simp add: exact_tariff_def a_def b_def c_def)
  have lt: "a + b + c < 2 ^ 63" using assms(8) by (simp only: e)
  have w: "wrap64 (prompt - cached) = prompt - cached" "wrap64 a = a" "wrap64 b = b" "wrap64 c = c"
    using assms(1-4) n lt by (simp_all add: wrap64_small)
  have d: "wrap64 (a div 1000 + b div 1000) = a div 1000 + b div 1000"
    "wrap64 (a div 1000 + b div 1000 + c div 1000) = a div 1000 + b div 1000 + c div 1000"
    using n lt by (intro wrap64_small; simp; linarith)+
  have "tariff_cost m prompt cached completion = a div 1000 + b div 1000 + c div 1000"
    using w n d by (simp add: tariff_cost_def sdiv_pos a_def [symmetric] b_def [symmetric] c_def [symmetric])
  then show "0 \<le> tariff_cost m prompt cached completion"
    "1000 * tariff_cost m prompt cached completion \<le> exact_tariff m prompt cached completion"
    "exact_tariff m prompt cached completion < 1000 * tariff_cost m prompt cached completion + 3000"
    using n e by simp_all
qed

lemma rate_Convert_accurate:
  assumes "xr_rate rate = Fin x" "0 < x" "0 \<le> amount" "amount \<le> 2 ^ 53" "of_int amount * x \<le> 2 ^ 53"
  shows "\<bar>of_int (rate_Convert rate amount) - of_int amount * x\<bar> \<le> 3 / 2"
proof -
  let ?y = "of_int amount * x"
  have y: "0 \<le> ?y" using assms(2,3) by simp
  have err: "\<bar>rnd ?y - ?y\<bar> \<le> 1 / 2" using rnd_err_half [of ?y] y assms(5) by simp
  have pos: "0 \<le> rnd ?y" using y by (rule rnd_nonneg)
  have top: "rnd ?y \<le> 2 ^ 53 + 1 / 2" using err assms(5) by linarith
  then have "rnd ?y < f64_overflow" by (simp add: f64_overflow_def)
  moreover have "- f64_overflow < 0" by (simp add: f64_overflow_def)
  ultimately have fin: "f64_mul (f64_of_int amount) (xr_rate rate) = Fin (rnd ?y)"
    using assms(1,3,4) pos by (simp add: f64_of_int_small f64_of_rat_def Let_def)
  have "\<lfloor>rnd ?y\<rfloor> < 2 ^ 63" "0 \<le> \<lfloor>rnd ?y\<rfloor>" using top pos by (simp_all add: floor_less_iff)
  then have "rate_Convert rate amount = \<lfloor>rnd ?y\<rfloor>"
    using assms(1,2) fin pos by (simp add: rate_Convert_def trunc_rat_def)
  then show ?thesis using err by linarith
qed


text \<open>
  C35.  Costs are accurate.  When a provider reports no cost and bills in another currency than the organization, the cost on
  the record is, up to three millionths of the currency of the provider and one and a half of that of the organization, what
  the tariff makes of the tokens at the rate found, whatever rate, for tokens and prices that are not negative and amounts
  that a float64 holds exactly: rounding down each of the three parts and the conversion lose no more.
\<close>

theorem recorded_cost_accurate:
  assumes "build_record env meta req res usage m p t = (r, t')" and "tu_cost usage = None"
    and "recorded_tokens (te_body env) (tq_body req) usage (tp_interruption res) = (prompt, cached, completion, est)"
    and "te_org env (OrgIDFromMeta meta) = Inr org" and "bo_currency org \<noteq> []" and "bo_currency org \<noteq> pv_currency p"
    and "resolveRate (te_rates env) (te_now env) (pv_currency p) (bo_currency org) t = (Inr rate, t'')"
    and "xr_rate rate = Fin x" and "0 < x"
    and "0 \<le> cached" "cached \<le> prompt" "0 \<le> completion" "prompt < 2 ^ 63"
    and "0 \<le> lm_promptCost m" "0 \<le> bm_cachedPromptCost m" "0 \<le> lm_completionCost m"
    and "exact_tariff m prompt cached completion \<le> 2 ^ 53"
    and "of_int (exact_tariff m prompt cached completion) / 1000 * x \<le> 2 ^ 53"
  shows "\<bar>of_int (ur_cost r) - of_int (exact_tariff m prompt cached completion) / 1000 * x\<bar> \<le> 3 * x + 3 / 2"
proof -
  let ?e = "exact_tariff m prompt cached completion" and ?c = "tariff_cost m prompt cached completion"
  have c: "0 \<le> ?c" "1000 * ?c \<le> ?e" "?e < 1000 * ?c + 3000"
    using tariff_cost_accurate [OF assms(10-16)] assms(17) by simp_all
  have "(of_int (1000 * ?c) :: rat) \<le> of_int ?e" "(of_int ?e :: rat) < of_int (1000 * ?c + 3000)"
    using c(2,3) by (simp_all only: of_int_le_iff of_int_less_iff)
  then have q: "(of_int ?c :: rat) \<le> of_int ?e / 1000" "of_int ?e / 1000 - of_int ?c \<le> (3 :: rat)" by simp_all
  have "(of_int ?c :: rat) * x \<le> of_int ?e / 1000 * x" using q(1) assms(9) by (intro mult_right_mono) simp_all
  moreover have "(of_int ?e / 1000 - of_int ?c) * x \<le> 3 * x" using q(2) assms(9) by (intro mult_right_mono) simp_all
  ultimately have gap: "\<bar>of_int ?c * x - of_int ?e / 1000 * x\<bar> \<le> 3 * x" and top: "of_int ?c * x \<le> 2 ^ 53"
    using assms(18) by (auto simp: left_diff_distrib)
  have "ur_cost r = (if ?c = 0 then 0 else rate_Convert rate ?c)"
    using assms(1-7) by (auto simp: build_record_def provider_cost_def org_cost_def Convert_def NewUsageRecord_def Let_def)
  then have "\<bar>of_int (ur_cost r) - of_int ?c * x\<bar> \<le> 3 / 2"
    using rate_Convert_accurate [OF assms(8,9) c(1) _ top] c assms(17) by (auto split: if_splits)
  then show ?thesis using gap by linarith
qed

section \<open>Amounts that are not converted\<close>

text \<open>
  C40.  When no rate is found, the counters of a budget kept in the currency of the organization grow by an amount in the
  currency of the provider: the record keeps the amount and the currency of the provider, and the total a budget check reads
  adds it, unconverted, to amounts in the currency of the organization.
\<close>

theorem unconverted_cost_counted:
  assumes "recordable env cx req res usage m p" and "\<not> pv_subscription p"
    and "PostResponse_usage env cx req res st = (st', meta)"
    and "build_record env meta req res usage m p (ts_rates st) = (r, t')"
    and "provider_cost p m usage (recorded_tokens (te_body env) (tq_body req) usage (tp_interruption res)) = (cost, currency, source)"
    and "te_org env (OrgIDFromMeta meta) = Inr org" and "bo_currency org \<noteq> []" and "bo_currency org \<noteq> currency" and "cost \<noteq> 0"
    and "resolveRate (te_rates env) (te_now env) currency (bo_currency org) (ts_rates st) = (Inl e, t'')"
    and "four_digit_year (te_now env + te_zone env (te_now env))" and "printable_date since"
    and "\<not> date_before (local_time (te_zone env) (te_now env)) since"
  shows "ur_currency r = currency \<and>
    SumQuotaCostSince (ts_db st') QuotaScopeOrg (OrgIDFromMeta meta) (OrgIDFromMeta meta) since
      = SumQuotaCostSince (ts_db st) QuotaScopeOrg (OrgIDFromMeta meta) (OrgIDFromMeta meta) since + cost"
proof -
  have "ur_cost r = cost" "ur_currency r = currency"
    using assms(4-10) by (auto simp: build_record_def org_cost_def Convert_def NewUsageRecord_def Let_def split: prod.splits)
  then show ?thesis
    using PostResponse_counters [OF assms(1,3,4,11,12), of QuotaScopeOrg "OrgIDFromMeta meta"] assms(2,13)
    by (simp add: request_levels_def)
qed

text \<open>Calls a plan covers move no budget, and a zero cost the provider reports for them is replaced by the tariff.\<close>

theorem plan_calls_metered:
  assumes "recordable env cx req res usage m p" and "pv_subscription p"
    and "PostResponse_usage env cx req res st = (st', meta)"
    and "recorded_tokens (te_body env) (tq_body req) usage (tp_interruption res) = (prompt, cached, completion, False)"
    and "tu_cost usage = Some (Fin 0)" and "0 < prompt + completion" and "prompt + completion < 2 ^ 63"
  shows "db_quota (ts_db st') = db_quota (ts_db st) \<and>
    sum_where (\<lambda>_. True) (db_hourly (ts_db st')) = sum_where (\<lambda>_. True) (db_hourly (ts_db st))
      + HourSums 1 (prompt + completion) (tariff_cost m prompt cached completion)"
proof -
  obtain r t' where b: "build_record env (PopulateMetaFromContext cx (sq_meta req)) req res usage m p (ts_rates st) = (r, t')"
    by (cases "build_record env (PopulateMetaFromContext cx (sq_meta req)) req res usage m p (ts_rates st)")
  note db = PostResponse_records(1) [OF assms(1,3) b] and fs = build_record_fields [OF b]
  have w: "wrap64 (prompt + completion) = prompt + completion" using assms(6,7) by (intro wrap64_small) simp_all
  have "ur_totalTokens r = prompt + completion"
    using b assms(4) w by (auto simp: build_record_def NewUsageRecord_def Let_def split: prod.splits)
  moreover have "ur_providerCost r = tariff_cost m prompt cached completion"
    using fs(10) assms(2,4-6) w by (simp add: provider_cost_def zeroPlanCost_def)
  ultimately show ?thesis
    using assms(2) fs(5)
    by (simp add: db RecordUsage_def quotaUsageRows_def QuotaCounters_def FeedsMonetaryBudget_def incrementQuotaUsage_def
        incrementPlanUsageHourly_def plan_hour_sums_def)
qed


section \<open>Rates\<close>

text \<open>A rate is only missing when it can not be fetched and is not stored, or when the provider of rates answers without it.\<close>

lemma resolveRate_fails:
  "(\<exists>e t'. resolveRate env now src dst t = (Inl e, t')) \<longleftrightarrow>
    (case xe_FetchRates env src of
       Inl _ \<Rightarrow> \<forall>r. GetRate env t src dst \<noteq> Inr r
     | Inr rates \<Rightarrow> map_of rates dst = None \<and> (\<forall>r. GetRate env t src dst = Inr r \<longrightarrow> xe_ttl env \<le> now - xr_fetchedAt r))"
  by (cases "GetRate env t src dst"; cases "xe_FetchRates env src") (auto simp: resolveRate_def Let_def split: option.splits)

lemma map_of_upsert_rates:
  assumes "\<And>a b. xe_writeError env a b = None" and "distinct (map fst rates)"
  shows "map_of (upsert_rates env now src rates t) (src, dst)
    = (case map_of rates dst of Some rate \<Rightarrow> Some (rate, now) | None \<Rightarrow> map_of t (src, dst))"
  using assms(2)
proof (induction rates arbitrary: t)
  case (Cons x rates)
  obtain d rate where x: "x = (d, rate)" by force
  let ?t = "AList.update (src, d) (rate, now) t"
  have "upsert_rates env now src (x # rates) t = upsert_rates env now src rates ?t"
    by (simp add: upsert_rates_def UpsertRate_def assms(1) x)
  moreover have "map_of rates d = None" using Cons.prems x by (simp add: map_of_eq_None_iff)
  ultimately show ?case using Cons.IH [of ?t] Cons.prems by (auto simp: x update_conv' split: option.splits)
qed (simp add: upsert_rates_def)

text \<open>A rate that was found is used again, whatever the provider of rates answers by then, until it is too old.\<close>

theorem rate_reused:
  assumes "resolveRate env now src dst t = (Inr rate, t')"
    and "\<And>a b. xe_writeError env a b = None" and "\<And>a b. xe_readError env a b = None"
    and "\<And>rates. xe_FetchRates env src = Inr rates \<Longrightarrow> distinct (map fst rates)"
    and "later - xr_fetchedAt rate < xe_ttl env"
  shows "resolveRate (env\<lparr>xe_FetchRates := fetch\<rparr>) later src dst t' = (Inr rate, t')"
proof -
  have "map_of t' (src, dst) = Some (xr_rate rate, xr_fetchedAt rate) \<and> xr_from rate = src \<and> xr_to rate = dst"
    using assms(1,3) map_of_upsert_rates [OF assms(2,4)]
    by (auto simp: resolveRate_def GetRate_def Let_def split: option.splits sum.splits if_splits prod.splits)
  then have "GetRate (env\<lparr>xe_FetchRates := fetch\<rparr>) t' src dst = Inr rate"
    using assms(3) by (simp add: GetRate_def)
  then show ?thesis using assms(5) by (simp add: resolveRate_def)
qed

section \<open>A sample\<close>

definition sample_rates :: "nat rate_env" where
  "sample_rates = \<lparr>xe_readError = (\<lambda>_ _. None), xe_writeError = (\<lambda>_ _. None),
     xe_FetchRates = (\<lambda>src. if src = ''USD'' then Inr [(''EUR'', Fin (1 / 2))] else Inl 503), xe_ttl = 86400 * 10 ^ 9\<rparr>"

definition sample_billed :: "string \<Rightarrow> nat tracker_env" where
  "sample_billed currency =
     \<lparr>te_model = (\<lambda>_. Inr \<lparr>lm_promptCost = 2000, lm_completionCost = 4000, lm_providerID = ''p'', bm_proxyName = ''gpt'', bm_cachedPromptCost = 1000\<rparr>),
      te_provider = (\<lambda>_. Inr \<lparr>pv_id = ''p'', pv_apiKey = [], pv_extraKeys = [], pv_subscription = False, pv_plan = None, pv_currency = currency\<rparr>),
      te_org = (\<lambda>i. Inr \<lparr>og_id = i, og_slug = ''org'', og_active = True, bo_currency = ''EUR''\<rparr>),
      te_rates = sample_rates, te_body = \<lparr>bl_messages = (\<lambda>_. None), bl_string = (\<lambda>_. None), bl_parts = (\<lambda>_. None)\<rparr>,
      te_recordError = (\<lambda>_. None), te_zone = (\<lambda>_. 0), te_now = day_ns, te_newID = ''r1''\<rparr>"

definition sample_call :: tracked_request where
  "sample_call = \<lparr>sq_model = ''o/gpt'', sq_userID = ''u'',
     sq_meta = [''teamID'' \<mapsto> MetaString ''a'', ''modelID'' \<mapsto> MetaString ''m''], tq_body = [], tq_keyUsed = []\<rparr>"

definition sample_caller :: "nat request_context" where
  "sample_caller = \<lparr>cx_authTokenID = [], cx_orgID = ''o'', cx_applicationID = [], cx_tenantID = [], cx_authnTeam = None, cx_user = Some ''u'',
     cx_resolver = None\<rparr>"

definition sample_answer :: tracked_response where
  "sample_answer = \<lparr>tp_tokensUsed = Some \<lparr>tu_promptTokens = 1500, tu_cachedTokens = 500, tu_completionTokens = 100, tu_cost = None, tu_costCurrency = []\<rparr>,
     tp_interruption = None\<rparr>"

definition sample_start :: tracker_state where
  "sample_start = \<lparr>ts_db = empty_db, ts_rates = []\<rparr>"


abbreviation sample_meta :: "string \<rightharpoonup> meta_value" where
  "sample_meta \<equiv> PopulateMetaFromContext sample_caller (sq_meta sample_call)"

abbreviation sample_model :: billed_model where
  "sample_model \<equiv> projr (te_model (sample_billed []) [])"

abbreviation sample_provider :: "string \<Rightarrow> plan_provider" where
  "sample_provider currency \<equiv> projr (te_provider (sample_billed currency) [])"

abbreviation sample_usage :: token_usage where
  "sample_usage \<equiv> the (tp_tokensUsed sample_answer)"

abbreviation sample_built :: "string \<Rightarrow> tracked_record \<times> rate_table" where
  "sample_built currency \<equiv>
     build_record (sample_billed currency) sample_meta sample_call sample_answer sample_usage sample_model (sample_provider currency)
       (ts_rates sample_start)"

lemmas sample_defs = sample_billed_def sample_call_def sample_caller_def sample_answer_def sample_start_def sample_rates_def

lemma sample_recordable:
  "recordable (sample_billed currency) sample_caller sample_call sample_answer sample_usage sample_model (sample_provider currency)"
  by (simp add: recordable_def sample_defs PopulateMetaFromContext_def set_nonempty_def OrgIDFromMeta_def ModelIDFromMeta_def meta_string_def)

definition sample_after :: "string \<Rightarrow> tracker_state" where
  "sample_after currency = fst (PostResponse_usage (sample_billed currency) sample_caller sample_call sample_answer sample_start)"

lemma sample_posted:
  "PostResponse_usage (sample_billed currency) sample_caller sample_call sample_answer sample_start = (sample_after currency, sample_meta)"
  using PostResponse_records(3) [OF sample_recordable] unfolding sample_after_def by (metis prod.collapse)

lemma sample_tokens:
  "recorded_tokens (te_body (sample_billed currency)) (tq_body sample_call) sample_usage (tp_interruption sample_answer) = (1500, 500, 100, False)"
  by (simp add: recorded_tokens_def sample_defs)

lemma sample_tariff: "tariff_cost sample_model 1500 500 100 = 2900" "exact_tariff sample_model 1500 500 100 = 2900000"
  by (simp_all add: tariff_cost_def exact_tariff_def sample_defs wrap64_def sdiv_pos)

lemma sample_rate:
  "resolveRate sample_rates now ''USD'' ''EUR'' [] =
     (Inr \<lparr>xr_from = ''USD'', xr_to = ''EUR'', xr_rate = Fin (1 / 2), xr_fetchedAt = now\<rparr>, [((''USD'', ''EUR''), Fin (1 / 2), now)])"
  "resolveRate sample_rates now ''JPY'' ''EUR'' [] = (Inl (FetchFailed 503), [])"
  by (simp_all add: resolveRate_def GetRate_def sample_rates_def upsert_rates_def UpsertRate_def)

lemma sample_levels:
  "OrgIDFromMeta sample_meta = ''o''" "ApplicationIDFromMeta sample_meta = []" "TeamIDFromMeta sample_meta = ''a''" "sq_userID sample_call = ''u''"
  by (simp_all add: PopulateMetaFromContext_def set_nonempty_def sample_defs OrgIDFromMeta_def ApplicationIDFromMeta_def TeamIDFromMeta_def meta_string_def)

lemma sample_charged:
  "provider_cost (sample_provider currency) sample_model sample_usage (1500, 500, 100, False) = (2900, currency, CostSourceComputed)"
  by (simp add: provider_cost_def sample_tariff) (simp add: sample_defs)

lemma sample_converted: "ur_cost (fst (sample_built ''USD'')) = 1450"
proof -
  have "rnd (of_int 1450) = of_int 1450" by (rule rnd_of_int) simp
  then have "rate_Convert \<lparr>xr_from = ''USD'', xr_to = ''EUR'', xr_rate = Fin (1 / 2), xr_fetchedAt = now\<rparr> 2900 = 1450" for now
    by (simp add: rate_Convert_def f64_of_int_small f64_of_rat_def f64_overflow_def Let_def trunc_rat_def)
  then have "\<exists>name t'. org_cost (te_rates (sample_billed ''USD'')) (te_now (sample_billed ''USD'')) (te_org (sample_billed ''USD'') i) m n 2900 ''USD'' []
      = (1450, ''EUR'', name, t')" for i m n
    by (simp add: org_cost_def Convert_def sample_billed_def sample_rate Let_def)
  then show ?thesis
    using build_record_cost(1) [OF sample_tokens sample_charged] by (metis sample_start_def tracker_state.select_convs(2))
qed

definition sample_today :: civil where
  "sample_today = \<lparr>cv_year = 1970, cv_month = 1, cv_day = 2, cv_nanos = 7\<rparr>"

lemma sample_dates:
  "four_digit_year (te_now (sample_billed currency) + te_zone (sample_billed currency) (te_now (sample_billed currency)))"
  "printable_date (window_start Daily sample_today)"
  "\<not> date_before (local_time (te_zone (sample_billed currency)) (te_now (sample_billed currency))) (window_start Daily sample_today)"
  by (simp_all add: four_digit_year_def sample_billed_def printable_date_def sample_today_def StartOfDay_def
      local_time_def date_before_def sample_days(2) [simplified])

lemma sample_before: "SumQuotaCostSince (ts_db sample_start) scope i org since = 0"
  by (simp add: sample_start_def empty_db_def SumQuotaCostSince_def)

lemma sample_payg: "\<not> pv_subscription (sample_provider currency)"
  by (simp add: sample_billed_def)

theorem spending_closes_budgets_witness:
  "SumQuotaCostSince (ts_db (sample_after ''USD'')) QuotaScopeTeam ''a'' ''o'' (window_start Daily sample_today) = 1450
    \<and> PreRequest demo_reader demo_orgs True (store_totals (ts_db (sample_after ''USD''))) demo_providers sample_today demo_request \<noteq> Inr None"
proof -
  have q: "getOptionalQuota demo_reader QuotaScopeTeam ''a'' = Inr (Some (daily_quota QuotaScopeTeam ''a'' 60))" by code_simp
  have x: "\<not> quota_exempt demo_providers demo_request" by code_simp
  have level: "(QuotaScopeTeam, ''a'') \<in> request_levels (OrgIDFromMeta sample_meta) (ApplicationIDFromMeta sample_meta) (sq_userID sample_call)
      (TeamIDFromMeta sample_meta)" by (simp add: request_levels_def sample_levels)
  have b: "period_budget Daily (daily_quota QuotaScopeTeam ''a'' 60) = Some 60" by (simp add: daily_quota_def)
  have over: "60 \<le> SumQuotaCostSince (ts_db sample_start) QuotaScopeTeam ''a'' (OrgIDFromMeta sample_meta) (window_start Daily sample_today)
      + ur_cost (fst (sample_built ''USD''))" unfolding sample_before sample_converted by simp
  have later: "rq_userID demo_request = sq_userID sample_call" "rq_orgID demo_request = OrgIDFromMeta sample_meta"
    "rq_appID demo_request = ApplicationIDFromMeta sample_meta" "rq_teamID demo_request = TeamIDFromMeta sample_meta"
    by (simp_all add: sample_levels demo_request_def)
  show ?thesis
    using spending_closes_budgets [OF sample_recordable sample_payg sample_posted surjective_pairing level q b sample_dates over later x]
    unfolding sample_before sample_converted sample_levels by simp
qed

theorem recorded_cost_accurate_witness:
  "\<bar>of_int (ur_cost (fst (sample_built ''USD''))) - 1450\<bar> \<le> (3 :: rat)"
proof -
  let ?org = "\<lparr>og_id = ''o'', og_slug = ''org'', og_active = True, bo_currency = ''EUR''\<rparr>"
  have org: "te_org (sample_billed ''USD'') (OrgIDFromMeta sample_meta) = Inr ?org"
    by (simp add: sample_billed_def sample_levels)
  have none: "tu_cost sample_usage = None" by (simp add: sample_answer_def)
  have rate: "resolveRate (te_rates (sample_billed ''USD'')) (te_now (sample_billed ''USD'')) (pv_currency (sample_provider ''USD''))
      (bo_currency ?org) (ts_rates sample_start)
    = (Inr \<lparr>xr_from = ''USD'', xr_to = ''EUR'', xr_rate = Fin (1 / 2), xr_fetchedAt = day_ns\<rparr>, [((''USD'', ''EUR''), Fin (1 / 2), day_ns)])"
    using sample_rate(1) [of day_ns] by (simp add: sample_billed_def sample_start_def)
  have prices: "bo_currency ?org \<noteq> pv_currency (sample_provider ''USD'')" "0 \<le> lm_promptCost sample_model"
    "0 \<le> bm_cachedPromptCost sample_model" "0 \<le> lm_completionCost sample_model"
    by (simp_all add: sample_billed_def)
  show ?thesis
    using recorded_cost_accurate [where m = sample_model and x = "1 / 2", OF surjective_pairing none sample_tokens org _ prices(1) rate] prices(2-4)
    unfolding sample_tariff(2) by simp
qed

theorem unconverted_cost_counted_witness:
  "ur_currency (fst (sample_built ''JPY'')) = ''JPY'' \<and>
   SumQuotaCostSince (ts_db (sample_after ''JPY'')) QuotaScopeOrg ''o'' ''o'' (window_start Daily sample_today) = 2900"
proof -
  have org: "te_org (sample_billed ''JPY'') (OrgIDFromMeta sample_meta) = Inr \<lparr>og_id = ''o'', og_slug = ''org'', og_active = True, bo_currency = ''EUR''\<rparr>"
    by (simp add: sample_billed_def sample_levels)
  have rate: "resolveRate (te_rates (sample_billed ''JPY'')) (te_now (sample_billed ''JPY'')) ''JPY''
      (bo_currency \<lparr>og_id = ''o'', og_slug = ''org'', og_active = True, bo_currency = ''EUR''\<rparr>) (ts_rates sample_start) = (Inl (FetchFailed 503), [])"
    using sample_rate(2) by (simp add: sample_billed_def sample_start_def)
  show ?thesis
    using unconverted_cost_counted [OF sample_recordable sample_payg sample_posted surjective_pairing _ org _ _ _ rate sample_dates, of 2900 CostSourceComputed]
      sample_charged [of "''JPY''"] sample_tokens [of "''JPY''"]
    unfolding sample_before sample_levels by simp
qed

end
