(* ===== verification/Role_Store.thy ===== *)
theory Role_Store
  imports Permissions
begin

text \<open>
  Roles and how the permissions of a principal are resolved: \<open>src/internal/adapter/gorm/role_store.go\<close>, the tables of \<open>role.go\<close>,
  \<open>team.go\<close>, \<open>membership.go\<close> and \<open>user.go\<close> of the same directory, \<open>src/internal/core/model/role.go\<close>, and the resolver of
  \<open>src/internal/http/middleware/memberships/middleware.go\<close>.

  A table is a list of rows in the order of its primary key, the permissions of a role and the grants of a team are kept in
  their row, and a transaction is one step.  A join with a table of assignments keeps the rows of the joined table that
  an assignment names.  Unique indexes are checked where the code relies on them.
\<close>

section \<open>Tables\<close>

record role_row =
  rl_id :: string
  rl_orgID :: string
  rl_name :: string
  rl_builtin :: bool
  rl_builtinKind :: string
  rl_permissions :: "string list"

record membership_row =
  ms_id :: string
  ms_userID :: string
  ms_orgID :: string
  ms_status :: string

record team_row =
  tw_id :: string
  tw_orgID :: string
  tw_slug :: string
  tw_status :: string
  tw_grants :: "model_grant list"

record team_member_row =
  mw_teamID :: string
  mw_membershipID :: string
  mw_status :: string

record team_member_role =
  mr_teamID :: string
  mr_membershipID :: string
  mr_roleID :: string

record application_row =
  ap_id :: string
  ap_orgID :: string
  ap_active :: bool
  ap_teamID :: string

record role_db =
  db_activeOrgs :: "string list"
  db_roles :: "role_row list"
  db_memberships :: "membership_row list"
  db_membershipRoles :: "(string \<times> string) list"
  db_applications :: "application_row list"
  db_applicationRoles :: "(string \<times> string) list"
  db_teams :: "team_row list"
  db_teamMembers :: "team_member_row list"
  db_teamMemberRoles :: "team_member_role list"

abbreviation StatusActive :: string where "StatusActive \<equiv> ''active''"
abbreviation BuiltinKindOwner :: string where "BuiltinKindOwner \<equiv> ''owner''"
abbreviation BuiltinKindAdmin :: string where "BuiltinKindAdmin \<equiv> ''admin''"
abbreviation BuiltinKindMember :: string where "BuiltinKindMember \<equiv> ''member''"

section \<open>Roles\<close>

datatype role_error = RoleNotFound | RoleNotAllowed | RoleExists | RoleRejected

definition GetRoleByID :: "role_db \<Rightarrow> string \<Rightarrow> (role_error, role_row) result" where
  "GetRoleByID db i = (case find (\<lambda>r. rl_id r = i) (db_roles db) of None \<Rightarrow> Inl RoleNotFound | Some r \<Rightarrow> Inr r)"

text \<open>Ordered by \<open>builtin DESC, name ASC\<close>.\<close>

definition ListOrgRoles :: "role_db \<Rightarrow> string \<Rightarrow> role_row list" where
  "ListOrgRoles db orgID = sort_key (\<lambda>r. (\<not> rl_builtin r, rl_name r)) (filter (\<lambda>r. rl_orgID r = orgID) (db_roles db))"

definition name_taken :: "role_row list \<Rightarrow> role_row \<Rightarrow> bool" where
  "name_taken roles role =
     list_ex (\<lambda>r. rl_orgID r = rl_orgID role \<and> rl_name r = rl_name role \<and> rl_id r \<noteq> rl_id role) roles"

definition CreateRole :: "role_db \<Rightarrow> role_row \<Rightarrow> (role_error, role_db) result" where
  "CreateRole db role =
     (if name_taken (db_roles db) role then Inl RoleExists
      else if rl_id role \<in> set (map rl_id (db_roles db)) \<or> \<not> distinct (rl_permissions role) then Inl RoleRejected
      else Inr (db\<lparr>db_roles := db_roles db @ [role]\<rparr>))"

definition SaveRole :: "role_db \<Rightarrow> role_row \<Rightarrow> (role_error, role_db) result" where
  "SaveRole db role =
     (if name_taken (db_roles db) role \<or> \<not> distinct (rl_permissions role) then Inl RoleRejected
      else if rl_id role \<in> set (map rl_id (db_roles db))
      then Inr (db\<lparr>db_roles := map (\<lambda>r. if rl_id r = rl_id role then role else r) (db_roles db)\<rparr>)
      else Inr (db\<lparr>db_roles := db_roles db @ [role]\<rparr>))"

definition DeleteRole :: "role_db \<Rightarrow> string \<Rightarrow> (role_error, role_db) result" where
  "DeleteRole db i =
     (case find (\<lambda>r. rl_id r = i) (db_roles db) of
        None \<Rightarrow> Inl RoleNotFound
      | Some role \<Rightarrow>
          if rl_builtin role then Inl RoleNotAllowed
          else Inr (db\<lparr>db_membershipRoles := filter (\<lambda>(_, r). r \<noteq> i) (db_membershipRoles db),
                       db_applicationRoles := filter (\<lambda>(_, r). r \<noteq> i) (db_applicationRoles db),
                       db_teamMemberRoles := filter (\<lambda>x. mr_roleID x \<noteq> i) (db_teamMemberRoles db),
                       db_roles := filter (\<lambda>r. rl_id r \<noteq> i) (db_roles db)\<rparr>))"

text \<open>An insertion that does nothing on conflict.\<close>

definition insert_new :: "'a \<Rightarrow> 'a list \<Rightarrow> 'a list" where
  "insert_new x xs = (if x \<in> set xs then xs else xs @ [x])"

definition replace_roles :: "string \<Rightarrow> string list \<Rightarrow> (string \<times> string) list \<Rightarrow> (string \<times> string) list" where
  "replace_roles owner roleIDs rows =
     fold (\<lambda>r. insert_new (owner, r)) roleIDs (filter (\<lambda>(x, _). x \<noteq> owner) rows)"

definition SetMembershipRoles :: "role_db \<Rightarrow> string \<Rightarrow> string list \<Rightarrow> role_db" where
  "SetMembershipRoles db membershipID roleIDs =
     db\<lparr>db_membershipRoles := replace_roles membershipID roleIDs (db_membershipRoles db)\<rparr>"

definition SetApplicationRoles :: "role_db \<Rightarrow> string \<Rightarrow> string list \<Rightarrow> role_db" where
  "SetApplicationRoles db appID roleIDs =
     db\<lparr>db_applicationRoles := replace_roles appID roleIDs (db_applicationRoles db)\<rparr>"

definition ListMembershipRoles :: "role_db \<Rightarrow> string \<Rightarrow> role_row list" where
  "ListMembershipRoles db membershipID = filter (\<lambda>r. (membershipID, rl_id r) \<in> set (db_membershipRoles db)) (db_roles db)"

definition ListApplicationRoles :: "role_db \<Rightarrow> string \<Rightarrow> role_row list" where
  "ListApplicationRoles db appID = filter (\<lambda>r. (appID, rl_id r) \<in> set (db_applicationRoles db)) (db_roles db)"

text \<open>A builtin role is its kind, its name and its permissions; descriptions are left out.\<close>

definition builtinRoleSpecs :: "(string \<times> string \<times> string list) list" where
  "builtinRoleSpecs =
     [(BuiltinKindOwner, ''Propri'' @ CHR 0xE9 # ''taire'', []),
      (BuiltinKindAdmin, ''Administrateur'', map pd_code (concat (map pg_perms Catalog))),
      (BuiltinKindMember, ''Membre'', [PermUsageRead, PermModelUseOrg, PermModelUseVirtual, PermPersonalVMCreate])]"

text \<open>\<open>newID\<close> gives the identifier of the role created for a kind.\<close>

definition NewBuiltinRole :: "string \<Rightarrow> string \<Rightarrow> string \<times> string \<times> string list \<Rightarrow> role_row" where
  "NewBuiltinRole roleID orgID = (\<lambda>(kind, name, perms).
     \<lparr>rl_id = roleID, rl_orgID = orgID, rl_name = name, rl_builtin = True, rl_builtinKind = kind, rl_permissions = perms\<rparr>)"

fun ensure_roles :: "string \<Rightarrow> (string \<Rightarrow> string) \<Rightarrow> (string \<times> string \<times> string list) list \<Rightarrow> role_db \<Rightarrow> (role_error, role_db) result" where
  "ensure_roles orgID newID [] db = Inr db"
| "ensure_roles orgID newID (spec # specs) db =
     (if list_ex (\<lambda>r. rl_orgID r = orgID \<and> rl_builtinKind r = fst spec) (db_roles db) then ensure_roles orgID newID specs db
      else
        (let role = NewBuiltinRole (newID (fst spec)) orgID spec
         in if name_taken (db_roles db) role \<or> rl_id role \<in> set (map rl_id (db_roles db)) then Inl RoleRejected
            else ensure_roles orgID newID specs (db\<lparr>db_roles := db_roles db @ [role]\<rparr>)))"

definition EnsureBuiltinRoles :: "role_db \<Rightarrow> string \<Rightarrow> (string \<Rightarrow> string) \<Rightarrow> (role_error, role_db) result" where
  "EnsureBuiltinRoles db orgID newID = ensure_roles orgID newID builtinRoleSpecs db"

section \<open>Resolving permissions\<close>

definition team_codes :: "role_db \<Rightarrow> string \<Rightarrow> team_row \<Rightarrow> string list" where
  "team_codes db membershipID t =
     (if membershipID = [] then []
      else concat (map rl_permissions (filter (\<lambda>r. rl_orgID r = tw_orgID t \<and>
             list_ex (\<lambda>x. mr_teamID x = tw_id t \<and> mr_membershipID x = membershipID \<and> mr_roleID x = rl_id r) (db_teamMemberRoles db))
           (db_roles db))))"

definition resolveTeamAccess :: "role_db \<Rightarrow> string list \<Rightarrow> string \<Rightarrow> team_access list" where
  "resolveTeamAccess db teamIDs membershipID =
     map (\<lambda>t. \<lparr>ta_teamID = tw_id t, ta_slug = tw_slug t, ta_codes = team_codes db membershipID t, ta_grants = tw_grants t\<rparr>)
       (sort_key tw_slug (filter (\<lambda>t. tw_id t \<in> set teamIDs \<and> tw_status t = StatusActive) (db_teams db)))"

definition permissionSetFromRoles :: "role_row list \<Rightarrow> team_access list \<Rightarrow> permission_set" where
  "permissionSetFromRoles roles teams =
     (if list_ex (\<lambda>r. rl_builtinKind r = BuiltinKindOwner) roles then WithTeams [] OwnerPermissionSet teams
      else NewPermissionSet (concat (map rl_permissions roles)) teams)"

definition active_membership :: "role_db \<Rightarrow> string \<Rightarrow> string \<Rightarrow> membership_row option" where
  "active_membership db userID orgID =
     find (\<lambda>m. ms_userID m = userID \<and> ms_orgID m = orgID \<and> ms_status m = StatusActive \<and> ms_orgID m \<in> set (db_activeOrgs db))
       (db_memberships db)"

definition ResolveEffectivePermissions :: "role_db \<Rightarrow> string \<Rightarrow> string \<Rightarrow> permission_set" where
  "ResolveEffectivePermissions db userID orgID =
     (case active_membership db userID orgID of
        None \<Rightarrow> permissionSetFromRoles [] []
      | Some m \<Rightarrow>
          permissionSetFromRoles (ListMembershipRoles db (ms_id m))
            (resolveTeamAccess db
               (map mw_teamID (filter (\<lambda>x. mw_membershipID x = ms_id m \<and> mw_status x = StatusActive) (db_teamMembers db)))
               (ms_id m)))"

definition org_application :: "role_db \<Rightarrow> string \<Rightarrow> string \<Rightarrow> application_row option" where
  "org_application db appID orgID =
     find (\<lambda>a. ap_id a = appID \<and> ap_orgID a = orgID \<and> ap_orgID a \<in> set (db_activeOrgs db)) (db_applications db)"

definition ResolveApplicationPermissions :: "role_db \<Rightarrow> string \<Rightarrow> string \<Rightarrow> permission_set" where
  "ResolveApplicationPermissions db appID orgID =
     (case org_application db appID orgID of
        None \<Rightarrow> permissionSetFromRoles [] []
      | Some app \<Rightarrow>
          if \<not> ap_active app then permissionSetFromRoles [] []
          else
            permissionSetFromRoles
              (filter (\<lambda>r. rl_orgID r = orgID) (ListApplicationRoles db appID))
              (if ap_teamID app = [] then []
               else resolveTeamAccess db
                      (map tw_id (filter (\<lambda>t. tw_id t = ap_teamID app \<and> tw_orgID t = orgID) (db_teams db))) []))"

section \<open>The resolver of a request\<close>

record principal =
  pr_id :: string
  pr_provider :: string
  pr_subject :: string
  pr_roles :: "string list"

abbreviation ApplicationProvider :: string where "ApplicationProvider \<equiv> ''application''"
abbreviation RoleAdmin :: string where "RoleAdmin \<equiv> ''admin''"

definition isApplication :: "principal \<Rightarrow> bool" where
  "isApplication u = (pr_provider u = ApplicationProvider)"

definition isGlobalAdmin :: "principal \<Rightarrow> bool" where
  "isGlobalAdmin u = (\<not> isApplication u \<and> RoleAdmin \<in> set (pr_roles u))"

text \<open>The resolver keeps the sets it resolved, per organization; \<open>db\<close> is the database at the time of the call.\<close>

definition resolver_step :: "principal \<Rightarrow> role_db \<Rightarrow> (string \<rightharpoonup> permission_set) \<Rightarrow> string
    \<Rightarrow> (string \<rightharpoonup> permission_set) \<times> permission_set" where
  "resolver_step u db cache orgID =
     (if isGlobalAdmin u then (cache, OwnerPermissionSet)
      else
        (case cache orgID of
           Some known \<Rightarrow> (cache, known)
         | None \<Rightarrow>
             let resolved = (if isApplication u then ResolveApplicationPermissions db (pr_subject u) orgID
                             else ResolveEffectivePermissions db (pr_id u) orgID)
             in (cache(orgID \<mapsto> resolved), resolved)))"

section \<open>Permissions come from roles held now\<close>

text \<open>A role a user holds on an organization: assigned to an active membership in an active organization.\<close>

definition member_of :: "role_db \<Rightarrow> string \<Rightarrow> string \<Rightarrow> membership_row \<Rightarrow> bool" where
  "member_of db userID orgID m \<longleftrightarrow>
     m \<in> set (db_memberships db) \<and> ms_userID m = userID \<and> ms_orgID m = orgID \<and> ms_status m = StatusActive \<and>
     orgID \<in> set (db_activeOrgs db)"

definition holds_role :: "role_db \<Rightarrow> string \<Rightarrow> string \<Rightarrow> role_row \<Rightarrow> bool" where
  "holds_role db userID orgID r \<longleftrightarrow>
     (\<exists>m. member_of db userID orgID m \<and> r \<in> set (db_roles db) \<and> (ms_id m, rl_id r) \<in> set (db_membershipRoles db))"

text \<open>An active team the user is an active member of.\<close>

definition in_team :: "role_db \<Rightarrow> string \<Rightarrow> string \<Rightarrow> team_row \<Rightarrow> bool" where
  "in_team db userID orgID t \<longleftrightarrow>
     (\<exists>m x. member_of db userID orgID m \<and> x \<in> set (db_teamMembers db) \<and> mw_membershipID x = ms_id m \<and>
        mw_status x = StatusActive \<and> mw_teamID x = tw_id t \<and> t \<in> set (db_teams db) \<and> tw_status t = StatusActive)"

definition role_grants :: "role_row \<Rightarrow> permission \<Rightarrow> bool" where
  "role_grants r perm \<longleftrightarrow> rl_builtinKind r = BuiltinKindOwner \<or> grants_perm False (rl_permissions r) perm"

text \<open>The unique indexes of the tables the resolution reads.\<close>

definition db_keys :: "role_db \<Rightarrow> bool" where
  "db_keys db \<longleftrightarrow>
     distinct (map (\<lambda>m. (ms_userID m, ms_orgID m)) (db_memberships db)) \<and> distinct (map tw_id (db_teams db)) \<and>
     (\<forall>t \<in> set (db_teams db). tw_id t \<noteq> [] \<and> (\<forall>g \<in> set (tw_grants t). mg_kind g \<in> {ModelKindLLM, ModelKindVirtual}))"

lemma grants_perm_concat:
  "grants_perm scoped (concat (map rl_permissions roles)) perm \<longleftrightarrow> (\<exists>r \<in> set roles. grants_perm scoped (rl_permissions r) perm)"
  by (auto simp: grants_perm_def)

lemma Has_fromRoles: "Has (permissionSetFromRoles roles teams) perm \<longleftrightarrow> (\<exists>r \<in> set roles. role_grants r perm)"
  by (auto simp: permissionSetFromRoles_def list_ex_iff role_grants_def Has_def grants_perm_concat expandCodes_iff)

lemma teams_fromRoles: "ps_teams (permissionSetFromRoles roles teams) = sort_key team_sort_key (map team_set_of teams)"
  by (simp add: permissionSetFromRoles_def)

lemma team_of_fromRoles:
  "team_of (permissionSetFromRoles roles teams) tid = team_of (NewPermissionSet codes teams) tid"
  by (simp add: team_of_def teams_fromRoles)

lemma find_key:
  assumes "distinct (map f xs)" "x \<in> set xs" "P x" "\<And>y. P y \<Longrightarrow> f y = f x"
  shows "find P xs = Some x"
proof (cases "find P xs")
  case None
  then show ?thesis using assms by (auto simp: find_None_iff)
next
  case (Some y)
  then have "y \<in> set xs" "P y" unfolding find_Some_iff by auto
  then have "y = x" using assms by (auto simp: distinct_map dest: inj_onD)
  then show ?thesis using Some by simp
qed

lemma active_membership_member:
  "active_membership db u org = Some m \<Longrightarrow> member_of db u org m"
  unfolding active_membership_def find_Some_iff member_of_def by auto

lemma active_membership_iff:
  assumes "db_keys db"
  shows "active_membership db u org = Some m \<longleftrightarrow> member_of db u org m"
proof
  assume "member_of db u org m"
  then show "active_membership db u org = Some m" unfolding active_membership_def
    using assms by (intro find_key [where f = "\<lambda>m. (ms_userID m, ms_orgID m)"]) (auto simp: db_keys_def member_of_def)
qed (rule active_membership_member)

lemma fromRoles_empty: "permissionSetFromRoles [] [] = EmptyPermissionSet"
  by (simp add: permissionSetFromRoles_def NewPermissionSet_def EmptyPermissionSet_def)

lemma Empty_denies [simp]: "\<not> Has EmptyPermissionSet perm" "\<not> InTeam EmptyPermissionSet tid"
  "\<not> HasInTeam EmptyPermissionSet tid perm" "\<not> CanUseModel EmptyPermissionSet tid modelID kind"
  by (simp_all add: Has_def InTeam_iff Teams_def HasInTeam_def CanUseModel_def HasOrgWideModelAccess_def TeamGrants_def team_of_def)

lemma set_resolveTeamAccess:
  "set (resolveTeamAccess db ids mid) =
     (\<lambda>t. \<lparr>ta_teamID = tw_id t, ta_slug = tw_slug t, ta_codes = team_codes db mid t, ta_grants = tw_grants t\<rparr>) `
       {t \<in> set (db_teams db). tw_id t \<in> set ids \<and> tw_status t = StatusActive}"
  by (auto simp: resolveTeamAccess_def)

lemma distinct_resolveTeamAccess:
  assumes "distinct (map tw_id (db_teams db))"
  shows "distinct (map ta_teamID (resolveTeamAccess db ids mid))"
proof -
  have "distinct (map tw_id (sort_key tw_slug (filter P (db_teams db))))" for P
    using assms by (auto simp: distinct_map inj_on_def)
  then show ?thesis by (simp add: resolveTeamAccess_def comp_def)
qed

lemma plain_kind: "kind \<in> {ModelKindLLM, ModelKindVirtual} \<Longrightarrow> CHR 0x00 \<notin> set kind"
  by auto

lemma plain_resolveTeamAccess: "db_keys db \<Longrightarrow> grants_plain (resolveTeamAccess db ids mid)"
  unfolding grants_plain_def set_resolveTeamAccess db_keys_def by (intro ballI plain_kind) fastforce

lemma grant_eta [simp]: "\<lparr>mg_modelID = mg_modelID g, mg_kind = mg_kind g\<rparr> = (g :: model_grant)"
  by simp

lemma wide_fromRoles:
  "kind \<in> {ModelKindLLM, ModelKindVirtual} \<Longrightarrow>
     HasOrgWideModelAccess (permissionSetFromRoles roles teams) kind \<longleftrightarrow> (\<exists>r \<in> set roles. role_grants r (kind_perm kind))"
  by (auto simp: HasOrgWideModelAccess_def Has_fromRoles)

lemma TeamGrants_fromRoles:
  assumes "distinct (map ta_teamID teams)" "grants_plain teams" "kind \<in> {ModelKindLLM, ModelKindVirtual}"
  shows "TeamGrants (permissionSetFromRoles roles teams) tid modelID kind \<longleftrightarrow>
    (\<exists>t \<in> set teams. ta_teamID t = tid \<and> team_grants_model t modelID kind)"
proof -
  have "TeamGrants (permissionSetFromRoles roles teams) tid modelID kind = TeamGrants (NewPermissionSet [] teams) tid modelID kind"
    by (simp add: TeamGrants_def team_of_fromRoles [of roles teams tid "[]"])
  moreover have "CHR 0x00 \<notin> set kind" using assms(3) by (rule plain_kind)
  ultimately show ?thesis using TeamGrants_New [OF assms(1,2)] by simp
qed

text \<open>
  C18.  The permissions of a user are exactly those of the roles it holds now.  A permission holds on an organization exactly when
  a role assigned to the user's active membership of that active organization is the owner role or grants it; and a
  request of the user attributed to a team may use a model exactly when such a role gives the organization-wide
  access, or the user is an active member of that active team and the team grants the model.  A suspended membership,
  team membership, team or organization gives nothing.
\<close>

theorem effective_permissions_exact:
  assumes keys: "db_keys db" and kind: "kind \<in> {ModelKindLLM, ModelKindVirtual}"
  shows "(Has (ResolveEffectivePermissions db u org) perm \<longleftrightarrow> (\<exists>r. holds_role db u org r \<and> role_grants r perm)) \<and>
    (CanUseModel (ResolveEffectivePermissions db u org) tid modelID kind \<longleftrightarrow>
       (\<exists>r. holds_role db u org r \<and> role_grants r (kind_perm kind)) \<or>
       (\<exists>t. in_team db u org t \<and> tw_id t = tid \<and> \<lparr>mg_modelID = modelID, mg_kind = kind\<rparr> \<in> set (tw_grants t)))"
proof (cases "active_membership db u org")
  case None
  then have "\<not> member_of db u org m" for m using active_membership_iff [OF keys] by (metis option.distinct(1))
  then show ?thesis
    by (simp add: None ResolveEffectivePermissions_def fromRoles_empty holds_role_def in_team_def)
next
  case (Some m)
  have m: "member_of db u org x \<longleftrightarrow> x = m" for x using Some active_membership_iff [OF keys] by (metis option.inject)
  let ?ids = "map mw_teamID (filter (\<lambda>x. mw_membershipID x = ms_id m \<and> mw_status x = StatusActive) (db_teamMembers db))"
  let ?roles = "ListMembershipRoles db (ms_id m)" and ?teams = "resolveTeamAccess db ?ids (ms_id m)"
  have res: "ResolveEffectivePermissions db u org = permissionSetFromRoles ?roles ?teams"
    by (simp add: Some ResolveEffectivePermissions_def)
  have roles: "(\<exists>r \<in> set ?roles. role_grants r p) \<longleftrightarrow> (\<exists>r. holds_role db u org r \<and> role_grants r p)" for p
    by (auto simp: ListMembershipRoles_def holds_role_def m)
  have grant: "team_grants_model \<lparr>ta_teamID = a, ta_slug = b, ta_codes = c, ta_grants = gs\<rparr> modelID kind \<longleftrightarrow>
      \<lparr>mg_modelID = modelID, mg_kind = kind\<rparr> \<in> set gs" for a b c gs
    by (auto simp: team_grants_model_def intro: rev_bexI)
  have ids: "i \<in> set ?ids \<longleftrightarrow>
      (\<exists>x. x \<in> set (db_teamMembers db) \<and> mw_membershipID x = ms_id m \<and> mw_status x = StatusActive \<and> mw_teamID x = i)" for i
    by auto
  have d: "distinct (map ta_teamID ?teams)" using keys by (auto simp: db_keys_def intro: distinct_resolveTeamAccess)
  have team: "TeamGrants (permissionSetFromRoles ?roles ?teams) tid modelID kind \<longleftrightarrow>
      (\<exists>t. in_team db u org t \<and> tw_id t = tid \<and> \<lparr>mg_modelID = modelID, mg_kind = kind\<rparr> \<in> set (tw_grants t))"
    unfolding TeamGrants_fromRoles [OF d plain_resolveTeamAccess [OF keys] kind] set_resolveTeamAccess in_team_def m ids
    by (simp add: grant) blast
  have "tid \<noteq> []" if "in_team db u org t" "tw_id t = tid" for t
    using that keys by (auto simp: in_team_def db_keys_def)
  then show ?thesis
    unfolding res Has_fromRoles CanUseModel_def wide_fromRoles [OF kind] roles team by auto
qed

text \<open>A small organization: \<open>ann\<close> is an active member with the role \<open>dev\<close> and in the team \<open>core\<close>.\<close>

definition ann_db :: role_db where
  "ann_db =
     \<lparr>db_activeOrgs = [''o1''],
      db_roles = [\<lparr>rl_id = ''r1'', rl_orgID = ''o1'', rl_name = ''dev'', rl_builtin = False, rl_builtinKind = [], rl_permissions = [''quota:write'']\<rparr>,
                  \<lparr>rl_id = ''r2'', rl_orgID = ''o1'', rl_name = ''owner'', rl_builtin = True, rl_builtinKind = ''owner'', rl_permissions = []\<rparr>],
      db_memberships = [\<lparr>ms_id = ''m1'', ms_userID = ''ann'', ms_orgID = ''o1'', ms_status = ''active''\<rparr>],
      db_membershipRoles = [(''m1'', ''r1'')],
      db_applications = [\<lparr>ap_id = ''a1'', ap_orgID = ''o1'', ap_active = True, ap_teamID = []\<rparr>],
      db_applicationRoles = [(''a1'', ''r1'')],
      db_teams = [\<lparr>tw_id = ''t1'', tw_orgID = ''o1'', tw_slug = ''core'', tw_status = ''active'',
                    tw_grants = [\<lparr>mg_modelID = ''gpt'', mg_kind = ''llm''\<rparr>]\<rparr>],
      db_teamMembers = [\<lparr>mw_teamID = ''t1'', mw_membershipID = ''m1'', mw_status = ''active''\<rparr>],
      db_teamMemberRoles = []\<rparr>"

theorem effective_permissions_exact_witness:
  "Has (ResolveEffectivePermissions ann_db ''ann'' ''o1'') ''quota:read'' \<and>
   CanUseModel (ResolveEffectivePermissions ann_db ''ann'' ''o1'') ''t1'' ''gpt'' ''llm''"
proof -
  let ?m = "\<lparr>ms_id = ''m1'', ms_userID = ''ann'', ms_orgID = ''o1'', ms_status = ''active''\<rparr>"
  have m: "member_of ann_db ''ann'' ''o1'' ?m" by (simp add: member_of_def ann_db_def)
  have "role_grants (hd (db_roles ann_db)) ''quota:read''" by code_simp
  moreover have "holds_role ann_db ''ann'' ''o1'' (hd (db_roles ann_db))"
    unfolding holds_role_def by (intro exI [of _ ?m] conjI m) (simp_all add: ann_db_def)
  moreover have "in_team ann_db ''ann'' ''o1'' (hd (db_teams ann_db))"
    unfolding in_team_def
    by (intro exI [of _ ?m] exI [of _ "hd (db_teamMembers ann_db)"] conjI m) (simp_all add: ann_db_def)
  moreover have "tw_id (hd (db_teams ann_db)) = ''t1''" "\<lparr>mg_modelID = ''gpt'', mg_kind = ''llm''\<rparr> \<in> set (tw_grants (hd (db_teams ann_db)))"
    by (simp_all add: ann_db_def)
  moreover have "db_keys ann_db" by (simp add: db_keys_def ann_db_def)
  ultimately show ?thesis
    using effective_permissions_exact [of ann_db "''llm''" "''ann''" "''o1''" "''quota:read''" "''t1''" "''gpt''"] by blast
qed

section \<open>Applications\<close>

text \<open>A role that counts for an application on an organization: one of that organization, assigned to the application,
  which belongs to it, is active, and whose organization is.\<close>

definition app_holds_role :: "role_db \<Rightarrow> string \<Rightarrow> string \<Rightarrow> role_row \<Rightarrow> bool" where
  "app_holds_role db appID orgID r \<longleftrightarrow>
     (\<exists>a \<in> set (db_applications db). ap_id a = appID \<and> ap_orgID a = orgID \<and> ap_active a) \<and> orgID \<in> set (db_activeOrgs db) \<and>
     r \<in> set (db_roles db) \<and> rl_orgID r = orgID \<and> (appID, rl_id r) \<in> set (db_applicationRoles db)"

lemma org_application_Some:
  "org_application db appID org = Some a \<Longrightarrow>
     a \<in> set (db_applications db) \<and> ap_id a = appID \<and> ap_orgID a = org \<and> org \<in> set (db_activeOrgs db)"
  unfolding org_application_def find_Some_iff by auto

lemma application_role:
  assumes "Has (ResolveApplicationPermissions db appID org) perm"
  shows "\<exists>r. app_holds_role db appID org r \<and> role_grants r perm"
proof -
  obtain a where a: "org_application db appID org = Some a" "ap_active a"
    using assms by (auto simp: ResolveApplicationPermissions_def fromRoles_empty split: option.splits if_splits)
  then obtain r where "r \<in> set (ListApplicationRoles db appID)" "rl_orgID r = org" "role_grants r perm"
    using assms by (auto simp: ResolveApplicationPermissions_def Has_fromRoles)
  then show ?thesis using org_application_Some [OF a(1)] a(2)
    by (auto simp: app_holds_role_def ListApplicationRoles_def)
qed

lemma application_team:
  assumes keys: "db_keys db" and "InTeam (ResolveApplicationPermissions db appID org) tid"
  shows "\<exists>a \<in> set (db_applications db). \<exists>t \<in> set (db_teams db). ap_id a = appID \<and> ap_orgID a = org \<and> ap_active a \<and>
    ap_teamID a = tid \<and> tw_id t = tid \<and> tw_orgID t = org \<and> tw_status t = StatusActive"
proof -
  obtain a where a: "org_application db appID org = Some a" "ap_active a"
    using assms by (auto simp: ResolveApplicationPermissions_def fromRoles_empty split: option.splits if_splits)
  then have "ap_teamID a \<noteq> []" using assms
    by (auto simp: ResolveApplicationPermissions_def InTeam_iff Teams_def teams_fromRoles)
  then obtain t t' where t: "t \<in> set (db_teams db)" "tw_id t = tid" "tw_status t = StatusActive"
      "t' \<in> set (db_teams db)" "tw_id t' = tid" "tid = ap_teamID a" "tw_orgID t' = org"
    using assms a
    by (auto simp: ResolveApplicationPermissions_def InTeam_iff Teams_def teams_fromRoles set_resolveTeamAccess team_set_of_def image_iff)
  moreover have "inj_on tw_id (set (db_teams db))" using keys by (simp add: db_keys_def distinct_map)
  ultimately have "t' = t" by (simp add: inj_on_def)
  then show ?thesis using org_application_Some [OF a(1)] a(2) t by (intro bexI [of _ a] bexI [of _ t]) simp_all
qed

text \<open>
  An application has only what its own organization gives it.  Whatever the platform roles of the account it
  authenticates through, the permission set a request of an application resolves for an organization grants a
  permission only through a role of that organization assigned to the application, and a team only when it is the
  active team of that organization the application is bound to; the application must be active and belong to that
  active organization.
\<close>

theorem application_permissions_confined:
  assumes "isApplication u" and "db_keys db" and "resolver_step u db Map.empty org = (cache, perms)"
  shows "(Has perms perm \<longrightarrow> (\<exists>r. app_holds_role db (pr_subject u) org r \<and> role_grants r perm)) \<and>
    (InTeam perms tid \<longrightarrow> (\<exists>a \<in> set (db_applications db). \<exists>t \<in> set (db_teams db).
       ap_id a = pr_subject u \<and> ap_orgID a = org \<and> ap_active a \<and> ap_teamID a = tid \<and> tw_id t = tid \<and> tw_orgID t = org \<and>
       tw_status t = StatusActive))"
proof -
  have "perms = ResolveApplicationPermissions db (pr_subject u) org"
    using assms(1,3) by (simp add: resolver_step_def isGlobalAdmin_def Let_def)
  then show ?thesis using application_role application_team [OF assms(2)] by blast
qed

theorem application_permissions_confined_witness:
  "\<not> Has (snd (resolver_step \<lparr>pr_id = ''u'', pr_provider = ''application'', pr_subject = ''a1'', pr_roles = [''admin'']\<rparr>
      ann_db Map.empty ''o1'')) ''roles:write''"
proof
  let ?u = "\<lparr>pr_id = ''u'', pr_provider = ''application'', pr_subject = ''a1'', pr_roles = [''admin'']\<rparr>"
  obtain cache perms where res: "resolver_step ?u ann_db Map.empty ''o1'' = (cache, perms)" by (cases "resolver_step ?u ann_db Map.empty ''o1''")
  assume "Has (snd (resolver_step ?u ann_db Map.empty ''o1'')) ''roles:write''"
  moreover have "isApplication ?u" "db_keys ann_db" by (simp_all add: isApplication_def db_keys_def ann_db_def)
  ultimately obtain r where "app_holds_role ann_db (pr_subject ?u) ''o1'' r" "role_grants r ''roles:write''"
    using application_permissions_confined [of ?u ann_db "''o1''" cache perms "''roles:write''"] res by auto
  moreover have "\<not> role_grants (hd (db_roles ann_db)) ''roles:write''" by code_simp
  ultimately show False by (auto simp: app_holds_role_def ann_db_def)
qed

section \<open>One request sees one set of permissions\<close>

text \<open>The answers of a resolver over the calls of a request, the database changing between them.\<close>

fun resolver_run :: "principal \<Rightarrow> (string \<rightharpoonup> permission_set) \<Rightarrow> (role_db \<times> string) list \<Rightarrow> (string \<times> permission_set) list" where
  "resolver_run u cache [] = []"
| "resolver_run u cache ((db, org) # calls) =
     (case resolver_step u db cache org of (cache', perms) \<Rightarrow> (org, perms) # resolver_run u cache' calls)"

lemma resolver_step_keeps:
  assumes "cache org = Some known" "\<not> isGlobalAdmin u" "resolver_step u db cache org' = (cache', perms)"
  shows "cache' org = Some known \<and> (org' = org \<longrightarrow> perms = known)"
  using assms by (auto simp: resolver_step_def Let_def split: option.splits)

lemma resolver_run_cached:
  assumes "\<not> isGlobalAdmin u"
  shows "cache org = Some known \<Longrightarrow> (org, perms) \<in> set (resolver_run u cache calls) \<Longrightarrow> perms = known"
proof (induction calls arbitrary: cache)
  case (Cons c calls)
  obtain db org' cache' p where step: "c = (db, org')" "resolver_step u db cache org' = (cache', p)"
    by (cases c, cases "resolver_step u (fst c) cache (snd c)") auto
  show ?case using Cons.IH [of cache'] Cons.prems resolver_step_keeps [OF Cons.prems(1) assms step(2)] step by auto
qed simp

lemma resolver_run_admin: "isGlobalAdmin u \<Longrightarrow> (org, perms) \<in> set (resolver_run u cache calls) \<Longrightarrow> perms = OwnerPermissionSet"
  by (induction u cache calls rule: resolver_run.induct) (auto simp: resolver_step_def)

text \<open>
  Every check of a request for one organization sees the same permissions, even when roles change while it runs.
\<close>

theorem resolver_consistent:
  assumes "(org, p) \<in> set (resolver_run u cache calls)" and "(org, q) \<in> set (resolver_run u cache calls)"
  shows "p = q"
proof (cases "isGlobalAdmin u")
  case True
  then show ?thesis using assms resolver_run_admin by blast
next
  case admin: False
  show ?thesis
    using assms
  proof (induction u cache calls rule: resolver_run.induct)
    case (2 u cache db org' calls)
    obtain cache' perms where step: "resolver_step u db cache org' = (cache', perms)" by fastforce
    then have "\<not> isGlobalAdmin u \<Longrightarrow> cache' org' = Some perms" by (auto simp: resolver_step_def Let_def split: option.splits)
    then have known: "r = perms" if "(org', r) \<in> set (resolver_run u cache' calls)" for r
      using resolver_run_cached [of u cache' org' perms r calls] resolver_run_admin [OF _ that] that step
      by (cases "isGlobalAdmin u") (auto simp: resolver_step_def)
    then show ?case using 2 step by auto
  qed simp
qed

section \<open>Deleting a role\<close>

text \<open>
  A builtin role is never deleted; deleting another one takes it away from everything that held it, and changes what no
  other role gives.
\<close>

theorem DeleteRole_clean:
  "(case DeleteRole db i of
      Inl e \<Rightarrow> e = RoleNotFound \<and> (\<forall>r \<in> set (db_roles db). rl_id r \<noteq> i) \<or> e = RoleNotAllowed \<and> (\<exists>r \<in> set (db_roles db). rl_id r = i \<and> rl_builtin r)
    | Inr db' \<Rightarrow> \<not> holds_role db' u org r \<or> (holds_role db u org r \<and> rl_id r \<noteq> i)) \<and>
   (\<forall>db'. DeleteRole db i = Inr db' \<longrightarrow> rl_id r \<noteq> i \<longrightarrow> holds_role db' u org r = holds_role db u org r)"
  by (auto simp: DeleteRole_def holds_role_def member_of_def find_None_iff find_Some_iff split: option.splits)

end
