(* ===== verification/Request_Access.thy ===== *)
theory Request_Access
  imports Team_Scope Model_Executor_Safety
begin

text \<open>
  The models a pipeline reaches by name: \<open>CanUse\<close> of \<open>src/internal/adapter/proxy/model_access.go\<close>, which checks a name
  against the access of the request, and \<open>ResolveRealModel\<close> of \<open>org_model_router.go\<close>, which turns the name into a
  client.  The two read names separately; the theory shows that they read them the same way, and what a served
  pipeline may therefore reach.

  \<open>router_env\<close> holds what the router reads beside the stores of \<open>scope_env\<close>: models by name, the memberships of the
  user, and the client built for a model (\<open>clientForModel\<close>).
\<close>

section \<open>The router's side\<close>

datatype model_kind = ModelKindCompletion | ModelKindEmbeddings | ModelKindDecision

record real_model =
  rm_id :: string
  rm_realModel :: string
  rm_kind :: model_kind
  rm_providerID :: string

record ('c, 'e) router_env =
  ro_orgBySlug :: "string \<Rightarrow> string \<Rightarrow> ('e store_error, organization) result"
  ro_llm :: "string \<Rightarrow> string \<Rightarrow> ('e store_error, real_model) result"
  ro_memberships :: "string \<Rightarrow> ('e store_error, string list) result"
  ro_client :: "real_model \<Rightarrow> ('e, 'c) result"

datatype 'e router_error =
    NotAvailable string
  | NotAvailableHere string
  | RouterStore "'e store_error"
  | ConversationKind string model_kind
  | ClientFailed 'e

definition assertOrgMembership :: "('c, 'e) router_env \<Rightarrow> 'e request_context \<Rightarrow> string \<Rightarrow> bool" where
  "assertOrgMembership renv cx orgID =
     (case cx_user cx of
        None \<Rightarrow> False
      | Some u \<Rightarrow> (case ro_memberships renv u of Inl _ \<Rightarrow> False | Inr orgs \<Rightarrow> orgID \<in> set orgs))"

text \<open>The organization and the local name the model is looked up under at first.\<close>

definition resolve_where :: "('c, 'e) router_env \<Rightarrow> 'e request_context \<Rightarrow> string \<Rightarrow> string \<Rightarrow> model_name
    \<Rightarrow> ('e router_error, string \<times> string) result" where
  "resolve_where renv cx orgID proxyName name =
     (if Qualified name then
        (case ro_orgBySlug renv (cx_tenantID cx) (mn_org name) of
           Inl NotFound \<Rightarrow> Inr (orgID, proxyName)
         | Inl e \<Rightarrow> Inl (RouterStore e)
         | Inr org \<Rightarrow>
             if og_id org \<noteq> orgID \<and> \<not> assertOrgMembership renv cx (og_id org) then Inl (NotAvailableHere proxyName)
             else Inr (og_id org, mn_local name))
      else Inr (orgID, proxyName))"

definition resolve_lookup :: "('c, 'e) router_env \<Rightarrow> model_name \<Rightarrow> string \<Rightarrow> string \<Rightarrow> ('e router_error, string \<times> real_model) result" where
  "resolve_lookup renv name orgID proxyName =
     (case ro_llm renv orgID proxyName of
        Inr m \<Rightarrow> Inr (proxyName, m)
      | Inl NotFound \<Rightarrow>
          if Qualified name \<and> proxyName \<noteq> mn_local name then
            (case ro_llm renv orgID (mn_local name) of
               Inr m \<Rightarrow> Inr (mn_local name, m)
             | Inl NotFound \<Rightarrow> Inl (NotAvailable (mn_local name))
             | Inl e \<Rightarrow> Inl (RouterStore e))
          else Inl (NotAvailable proxyName)
      | Inl e \<Rightarrow> Inl (RouterStore e))"

definition ResolveRealModel :: "('c, 'e) router_env \<Rightarrow> 'e request_context \<Rightarrow> string \<Rightarrow> string
    \<Rightarrow> ('e router_error, 'c \<times> string \<times> string) result" where
  "ResolveRealModel renv cx orgID proxyName =
     (case ParseModelName proxyName None of
        None \<Rightarrow> Inl (NotAvailable proxyName)
      | Some name \<Rightarrow>
          if Personal name then Inl (NotAvailable proxyName)
          else
            rbind (resolve_where renv cx orgID proxyName name) (\<lambda>(oid, pn).
            rbind (resolve_lookup renv name oid pn) (\<lambda>(pn', m).
              if rm_kind m \<noteq> ModelKindCompletion then Inl (ConversationKind pn' (rm_kind m))
              else (case ro_client renv m of
                      Inl e \<Rightarrow> Inl (ClientFailed e)
                    | Inr c \<Rightarrow> Inr (c, rm_realModel m, rm_id m)))))"

section \<open>The check\<close>

record request_access =
  ra_org :: organization
  ra_teamID :: string
  ra_teamSlug :: string

definition newRequestModelAccess :: "organization \<Rightarrow> string \<Rightarrow> string \<Rightarrow> request_access" where
  "newRequestModelAccess org teamID teamSlug = \<lparr>ra_org = org, ra_teamID = teamID, ra_teamSlug = teamSlug\<rparr>"

definition own_team :: "request_access \<Rightarrow> string \<Rightarrow> string \<Rightarrow> bool" where
  "own_team a org segment = (org = og_slug (ra_org a) \<and> ra_teamSlug a \<noteq> [] \<and> segment = ra_teamSlug a)"

text \<open>The organization, the team and the local name the check starts from; \<open>None\<close> when the other organization is not active.\<close>

definition check_where :: "'e scope_env \<Rightarrow> 'e request_context \<Rightarrow> request_access \<Rightarrow> model_name
    \<Rightarrow> ('e, (organization \<times> string \<times> string) option) result" where
  "check_where env cx a n =
     (if mn_org n \<noteq> [] \<and> mn_org n \<noteq> og_slug (ra_org a) then
        (case se_orgBySlug env (cx_tenantID cx) (mn_org n) of
           Inl NotFound \<Rightarrow> Inr (Some (ra_org a, ra_teamID a, mn_string (OrgLevel n)))
         | Inl (StoreFailed e) \<Rightarrow> Inl e
         | Inr other \<Rightarrow> if \<not> og_active other then Inr None else Inr (Some (other, [], mn_local n)))
      else Inr (Some (ra_org a, ra_teamID a, mn_local n)))"

definition check_lookup :: "'e scope_env \<Rightarrow> string \<Rightarrow> string \<Rightarrow> model_name \<Rightarrow> ('e, (string \<times> string) option) result" where
  "check_lookup env orgID loc n =
     rbind (lookupLocalModel env orgID loc) (\<lambda>found.
       if found = None \<and> loc \<noteq> mn_local n then lookupLocalModel env orgID (mn_local n) else Inr found)"

definition CanUse :: "'e scope_env \<Rightarrow> 'e request_context \<Rightarrow> request_access \<Rightarrow> string \<Rightarrow> ('e, bool) result" where
  "CanUse env cx a name =
     (case ParseModelName name (Some (own_team a)) of
        None \<Rightarrow> Inr False
      | Some n \<Rightarrow>
          if Personal n then
            rmap (\<lambda>perms. Has perms PermPersonalVMCreate) (ResolvePermissions cx (og_id (ra_org a)))
          else
            rbind (check_where env cx a n) (\<lambda>w. case w of
              None \<Rightarrow> Inr False
            | Some (org, teamID, loc) \<Rightarrow>
                rbind (check_lookup env (og_id org) loc n) (\<lambda>found. case found of
                  None \<Rightarrow> Inr True
                | Some (kind, modelID) \<Rightarrow>
                    rmap (\<lambda>perms.
                        if og_id org \<noteq> og_id (ra_org a)
                        then HasOrgWideModelAccess perms kind \<or> TeamsGranting perms modelID kind \<noteq> []
                        else CanUseModel perms teamID modelID kind)
                      (ResolvePermissions cx (og_id org)))))"

section \<open>The check and the resolution read the same model\<close>

text \<open>
  What both sides rely on: the same stores, the organization of the request under its own slug, and names of virtual
  models that hold no slash and are no names of real models.
\<close>

definition same_stores :: "'e scope_env \<Rightarrow> ('c, 'e) router_env \<Rightarrow> bool" where
  "same_stores env renv \<longleftrightarrow>
     se_orgBySlug env = ro_orgBySlug renv \<and> se_llm env = Some (\<lambda>orgID loc. rmap (Some \<circ> rm_id) (ro_llm renv orgID loc))"

definition names_apart :: "'e scope_env \<Rightarrow> ('c, 'e) router_env \<Rightarrow> bool" where
  "names_apart env renv \<longleftrightarrow>
     (\<forall>get orgID loc vm. se_virtual env = Some get \<longrightarrow> get orgID loc = Inr (Some vm) \<longrightarrow>
        slash \<notin> set loc \<and> ro_llm renv orgID loc = Inl NotFound)"

text \<open>A model of an organization the request may use: through its own team in its organization, through any team of the
  caller in another.\<close>

definition request_may_use :: "'e request_context \<Rightarrow> request_access \<Rightarrow> string \<Rightarrow> string \<Rightarrow> bool" where
  "request_may_use cx a orgID modelID \<longleftrightarrow>
     (\<exists>perms. ResolvePermissions cx orgID = Inr perms \<and>
        (if orgID = og_id (ra_org a) then CanUseModel perms (ra_teamID a) modelID ModelKindLLM
         else HasOrgWideModelAccess perms ModelKindLLM \<or> TeamsGranting perms modelID ModelKindLLM \<noteq> []))"

lemma parsed_shape:
  assumes "ParseModelName name f = Some n"
  shows "mn_local n \<noteq> [] \<and> (mn_org n = [] \<longrightarrow> mn_team n = [] \<and> slash \<notin> set (mn_local n))"
  using assms by (auto simp: ParseModelName_def str_cut_None split: if_splits option.splits prod.splits)

lemma parse_level:
  assumes "slash \<notin> set org" "loc \<noteq> []" "org = [] \<Longrightarrow> slash \<notin> set loc"
  shows "ParseModelName (mn_string \<lparr>mn_org = org, mn_team = [], mn_local = loc\<rparr>) None =
    Some \<lparr>mn_org = org, mn_team = [], mn_local = loc\<rparr>"
proof (cases "org = []")
  case True
  then show ?thesis using assms by (simp add: ParseModelName_def mn_string_def str_cut_None [THEN iffD2])
next
  case False
  then show ?thesis using assms by (simp add: ParseModelName_def mn_string_def str_cut_append split: option.split)
qed

lemma parse_org_level:
  assumes "ParseModelName name f = Some n"
  shows "ParseModelName (mn_string (OrgLevel n)) None = Some (OrgLevel n)"
  using parse_level [of "mn_org n" "mn_local n"] parsed_shape [OF assms] parsed_org [OF assms]
  by (cases n) (simp add: OrgLevel_def)

lemma Personal_OrgLevel [simp]: "Personal (OrgLevel n) = Personal n"
  by (simp add: Personal_def OrgLevel_def)

lemma lookup_llm:
  assumes "same_stores env renv" "names_apart env renv" "ro_llm renv orgID loc = Inr m"
    and ok: "lookupLocalModel env orgID loc = Inr found"
  shows "found = Some (ModelKindLLM, rm_id m)"
proof -
  have "\<not> (\<exists>get vm. se_virtual env = Some get \<and> get orgID loc = Inr (Some vm))"
    using assms(2,3) by (auto simp: names_apart_def)
  then show ?thesis using assms(1,3) ok
    by (auto simp: lookupLocalModel_def same_stores_def Let_def split: option.splits sum.splits store_error.splits)
qed

lemma lookup_missing:
  assumes "same_stores env renv" "names_apart env renv" "ro_llm renv orgID loc = Inl NotFound" "slash \<in> set loc"
    and ok: "lookupLocalModel env orgID loc = Inr found"
  shows "found = None"
  using assms
  by (auto simp: lookupLocalModel_def same_stores_def names_apart_def Let_def split: option.splits sum.splits store_error.splits)

lemma where_match:
  assumes same: "same_stores env renv" and own: "ro_orgBySlug renv (cx_tenantID cx) (og_slug (ra_org a)) = Inr (ra_org a)"
    and r: "resolve_where renv cx (og_id (ra_org a)) (mn_string (OrgLevel n)) (OrgLevel n) = Inr (oid, pn)"
    and c: "check_where env cx a n = Inr (Some (org, tid, loc))" and shape: "mn_org n = [] \<Longrightarrow> mn_team n = []"
  shows "og_id org = oid \<and> loc = pn \<and> (pn \<noteq> mn_local n \<longrightarrow> slash \<in> set pn) \<and> tid \<in> {ra_teamID a, []}"
proof (cases "mn_org n = []")
  case True
  then show ?thesis using r c shape
    by (simp add: resolve_where_def check_where_def Qualified_def OrgLevel_def mn_string_def)
next
  case False
  then have "slash \<in> set (mn_string (OrgLevel n))" by (simp add: mn_string_def OrgLevel_def)
  moreover have "se_orgBySlug env = ro_orgBySlug renv" using same by (simp add: same_stores_def)
  ultimately show ?thesis using r c own False
    by (auto simp: resolve_where_def check_where_def Qualified_def OrgLevel_def
        split: if_splits sum.splits store_error.splits)
qed

lemma lookup_match:
  assumes "same_stores env renv" "names_apart env renv"
    and r: "resolve_lookup renv (OrgLevel n) oid pn = Inr (pn', m)" and c: "check_lookup env oid pn n = Inr found"
    and slash: "pn \<noteq> mn_local n \<Longrightarrow> slash \<in> set pn"
  shows "found = Some (ModelKindLLM, rm_id m) \<and> ro_llm renv oid pn' = Inr m"
proof (cases "ro_llm renv oid pn")
  case (Inr m')
  then have "pn' = pn" "m' = m" using r by (simp_all add: resolve_lookup_def)
  moreover obtain x where x: "lookupLocalModel env oid pn = Inr x" using c by (auto simp: check_lookup_def result_simps)
  ultimately show ?thesis using c lookup_llm [OF assms(1,2) Inr x] Inr by (simp add: check_lookup_def)
next
  case (Inl e)
  then have second: "pn \<noteq> mn_local n" "ro_llm renv oid pn = Inl NotFound" "ro_llm renv oid (mn_local n) = Inr m" "pn' = mn_local n"
    using r by (auto simp: resolve_lookup_def OrgLevel_def split: store_error.splits if_splits sum.splits)
  obtain x where x: "lookupLocalModel env oid pn = Inr x" using c by (auto simp: check_lookup_def result_simps)
  then have "x = None" using lookup_missing [OF assms(1,2) second(2)] slash second(1) by blast
  then have "lookupLocalModel env oid (mn_local n) = Inr found" using c x second(1) by (simp add: check_lookup_def)
  then show ?thesis using lookup_llm [OF assms(1,2) second(3)] second by blast
qed

lemma CanUseModel_no_team: "CanUseModel perms [] modelID kind \<Longrightarrow> CanUseModel perms tid modelID kind"
  by (simp add: CanUseModel_def split: if_splits)

lemma CanUse_resolved:
  assumes same: "same_stores env renv" and apart: "names_apart env renv"
    and own: "ro_orgBySlug renv (cx_tenantID cx) (og_slug (ra_org a)) = Inr (ra_org a)"
    and can: "CanUse env cx a name = Inr True" and parse: "ParseModelName name (Some (own_team a)) = Some n"
    and res: "ResolveRealModel renv cx (og_id (ra_org a)) (mn_string (OrgLevel n)) = Inr (c, rmodel, modelID)"
  shows "\<exists>orgID loc m. ro_llm renv orgID loc = Inr m \<and> rm_id m = modelID \<and> rm_realModel m = rmodel \<and> request_may_use cx a orgID modelID"
proof -
  have np: "\<not> Personal n" using res by (auto simp: ResolveRealModel_def parse_org_level [OF parse])
  obtain oid pn pn' m where w: "resolve_where renv cx (og_id (ra_org a)) (mn_string (OrgLevel n)) (OrgLevel n) = Inr (oid, pn)"
      and l: "resolve_lookup renv (OrgLevel n) oid pn = Inr (pn', m)" and m: "rm_id m = modelID" "rm_realModel m = rmodel"
    using res by (auto simp: ResolveRealModel_def parse_org_level [OF parse] result_simps split: if_splits sum.splits)
  obtain x where x: "check_where env cx a n = Inr x" using can np by (auto simp: CanUse_def parse result_simps)
  then obtain org tid loc where cw: "check_where env cx a n = Inr (Some (org, tid, loc))"
    using can np by (cases x) (auto simp: CanUse_def parse)
  have eq: "og_id org = oid" "loc = pn" "pn \<noteq> mn_local n \<Longrightarrow> slash \<in> set pn" "tid \<in> {ra_teamID a, []}"
    using where_match [OF same own w cw] parsed_shape [OF parse] by auto
  obtain found where f: "check_lookup env oid pn n = Inr found"
    using can np cw eq by (auto simp: CanUse_def parse result_simps)
  have found: "found = Some (ModelKindLLM, rm_id m)" "ro_llm renv oid pn' = Inr m"
    using lookup_match [OF same apart l f] eq(3) by auto
  obtain perms where perms: "ResolvePermissions cx oid = Inr perms"
      and ok: "if oid \<noteq> og_id (ra_org a) then HasOrgWideModelAccess perms ModelKindLLM \<or> TeamsGranting perms modelID ModelKindLLM \<noteq> []
        else CanUseModel perms tid modelID ModelKindLLM"
    using can np cw f found(1) eq(1,2) m(1) by (auto simp: CanUse_def parse result_simps)
  have "request_may_use cx a oid modelID"
    unfolding request_may_use_def using ok eq(4) CanUseModel_no_team [of perms modelID ModelKindLLM]
    by (intro exI [of _ perms] conjI perms) (auto split: if_splits)
  then show ?thesis using found(2) m by blast
qed

section \<open>What a pipeline serves\<close>

text \<open>The collaborators of a model node as the proxy wires them for a request: the check and the router above.\<close>

definition access_hook :: "'e scope_env \<Rightarrow> 'e request_context \<Rightarrow> request_access \<Rightarrow> string \<Rightarrow> ('e router_error, bool) result" where
  "access_hook env cx a name = (case CanUse env cx a name of Inl e \<Rightarrow> Inl (RouterStore (StoreFailed e)) | Inr ok \<Rightarrow> Inr ok)"

lemma access_hook_True: "access_hook env cx a name = Inr True \<longleftrightarrow> CanUse env cx a name = Inr True"
  by (simp add: access_hook_def split: sum.splits)

section \<open>A virtual model whose name holds a slash\<close>

text \<open>
  The hypothesis on the names of virtual models is needed.  A node names \<open>meta/llama\<close>, no organization is called \<open>meta\<close>, a
  virtual model of that full name is granted to the team of the request, and the real model \<open>llama\<close> is not.
\<close>

definition slash_env :: "unit scope_env" where
  "slash_env = acme_env\<lparr>se_virtual := Some (\<lambda>_ n. if n = ''meta/llama'' then Inr (Some ''v1'') else Inl NotFound),
     se_llm := Some (\<lambda>_ n. if n = ''llama'' then Inr (Some ''m9'') else Inl NotFound)\<rparr>"

definition slash_router :: "(unit, unit) router_env" where
  "slash_router =
     \<lparr>ro_orgBySlug = se_orgBySlug acme_env,
      ro_llm = \<lambda>_ n. if n = ''llama''
        then Inr \<lparr>rm_id = ''m9'', rm_realModel = ''llama-3'', rm_kind = ModelKindCompletion, rm_providerID = ''p''\<rparr> else Inl NotFound,
      ro_memberships = \<lambda>_. Inr [], ro_client = \<lambda>_. Inr ()\<rparr>"

definition slash_perms :: permission_set where
  "slash_perms = NewPermissionSet []
     [\<lparr>ta_teamID = ''t1'', ta_slug = ''core'', ta_codes = [], ta_grants = [\<lparr>mg_modelID = ''v1'', mg_kind = ModelKindVirtual\<rparr>]\<rparr>]"

definition slash_cx :: "unit request_context" where
  "slash_cx = acme_cx\<lparr>cx_resolver := Some (\<lambda>_. Inr slash_perms)\<rparr>"

definition slash_access :: request_access where
  "slash_access = newRequestModelAccess acme ''t1'' ''core''"

text \<open>
  C37.  The check and the resolution disagree on a virtual model whose name holds a slash.  When the first segment of a name is
  no organization and a virtual model of the organization has the full name, the check answers by the grants on that virtual
  model alone; the resolution looks for real models only, drops the first segment and hands out the real model of the rest
  of the name, whatever the grants on it.
\<close>

theorem slash_name_skips_check:
  assumes same: "same_stores env renv" and parse: "ParseModelName name (Some (own_team a)) = Some n"
    and org: "mn_org n \<noteq> []" "mn_org n \<noteq> og_slug (ra_org a)" "\<not> Personal n" "ro_orgBySlug renv (cx_tenantID cx) (mn_org n) = Inl NotFound"
    and vm: "se_virtual env = Some get" "get (og_id (ra_org a)) (mn_string (OrgLevel n)) = Inr (Some vmID)"
    and real: "ro_llm renv (og_id (ra_org a)) (mn_string (OrgLevel n)) = Inl NotFound" "ro_llm renv (og_id (ra_org a)) (mn_local n) = Inr m"
      "rm_kind m = ModelKindCompletion" "ro_client renv m = Inr c"
    and perms: "ResolvePermissions cx (og_id (ra_org a)) = Inr perms"
  shows "CanUse env cx a name = Inr (CanUseModel perms (ra_teamID a) vmID ModelKindVirtual) \<and>
    ResolveRealModel renv cx (og_id (ra_org a)) (mn_string (OrgLevel n)) = Inr (c, rm_realModel m, rm_id m)"
proof
  have "se_orgBySlug env = ro_orgBySlug renv" using same by (simp add: same_stores_def)
  then have "check_where env cx a n = Inr (Some (ra_org a, ra_teamID a, mn_string (OrgLevel n)))" using org by (simp add: check_where_def)
  moreover have "check_lookup env (og_id (ra_org a)) (mn_string (OrgLevel n)) n = Inr (Some (ModelKindVirtual, vmID))"
    using vm by (simp add: check_lookup_def lookupLocalModel_def)
  ultimately show "CanUse env cx a name = Inr (CanUseModel perms (ra_teamID a) vmID ModelKindVirtual)"
    using parse org(3) perms by (simp add: CanUse_def)
  have "mn_string (OrgLevel n) \<noteq> mn_local n" using real(1,2) by auto
  moreover have "Qualified (OrgLevel n)" "mn_org (OrgLevel n) = mn_org n" "mn_local (OrgLevel n) = mn_local n"
    using org(1,3) by (simp_all add: Qualified_def OrgLevel_def)
  ultimately show "ResolveRealModel renv cx (og_id (ra_org a)) (mn_string (OrgLevel n)) = Inr (c, rm_realModel m, rm_id m)"
    using org(3,4) real by (simp add: ResolveRealModel_def parse_org_level [OF parse] resolve_where_def resolve_lookup_def)
qed

text \<open>The request above is let through to a model its team has no grant on.\<close>

theorem slash_name_skips_check_witness:
  "CanUse slash_env slash_cx slash_access ''meta/llama'' = Inr True \<and>
   ResolveRealModel slash_router slash_cx (og_id acme) ''meta/llama'' = Inr ((), ''llama-3'', ''m9'') \<and>
   \<not> CanUseModel slash_perms ''t1'' ''m9'' ModelKindLLM"
proof -
  let ?n = "\<lparr>mn_org = ''meta'', mn_team = [], mn_local = ''llama''\<rparr>"
  let ?m = "\<lparr>rm_id = ''m9'', rm_realModel = ''llama-3'', rm_kind = ModelKindCompletion, rm_providerID = ''p''\<rparr>"
  have same: "same_stores slash_env slash_router"
    by (auto simp: same_stores_def slash_env_def slash_router_def fun_eq_iff)
  have parse: "ParseModelName ''meta/llama'' (Some (own_team slash_access)) = Some ?n" by code_simp
  have org: "mn_org ?n \<noteq> []" "mn_org ?n \<noteq> og_slug (ra_org slash_access)" "\<not> Personal ?n"
      "ro_orgBySlug slash_router (cx_tenantID slash_cx) (mn_org ?n) = Inl NotFound" by code_simp+
  have vm: "se_virtual slash_env = Some (\<lambda>_ n. if n = ''meta/llama'' then Inr (Some ''v1'') else Inl NotFound)" by (simp add: slash_env_def)
  have name: "mn_string (OrgLevel ?n) = ''meta/llama''" by code_simp
  have vm': "(\<lambda>(_ :: string) n. if n = ''meta/llama'' then Inr (Some ''v1'') else Inl NotFound) (og_id (ra_org slash_access)) (mn_string (OrgLevel ?n))
      = (Inr (Some ''v1'') :: (unit store_error, string option) result)" by (simp add: name)
  have real: "ro_llm slash_router (og_id (ra_org slash_access)) (mn_string (OrgLevel ?n)) = Inl NotFound"
      "ro_llm slash_router (og_id (ra_org slash_access)) (mn_local ?n) = Inr ?m" "rm_kind ?m = ModelKindCompletion" "ro_client slash_router ?m = Inr ()"
    unfolding name by (simp_all add: slash_router_def)
  have perms: "ResolvePermissions slash_cx (og_id (ra_org slash_access)) = Inr slash_perms"
    by (simp add: slash_cx_def ResolvePermissions_def)
  have "CanUseModel slash_perms (ra_teamID slash_access) ''v1'' ModelKindVirtual" "\<not> CanUseModel slash_perms ''t1'' ''m9'' ModelKindLLM"
      "ra_org slash_access = acme" by code_simp+
  then show ?thesis using slash_name_skips_check [OF same parse org vm vm' real perms] name by simp
qed

section \<open>A router\<close>

text \<open>A router that knows the model \<open>gpt\<close>.\<close>

definition gpt_router :: "(string, unit) router_env" where
  "gpt_router =
     \<lparr>ro_orgBySlug = se_orgBySlug acme_env,
      ro_llm = \<lambda>_ n. if n = ''gpt''
        then Inr \<lparr>rm_id = ''m1'', rm_realModel = ''gpt-real'', rm_kind = ModelKindCompletion, rm_providerID = ''p''\<rparr> else Inl NotFound,
      ro_memberships = \<lambda>_. Inr [], ro_client = \<lambda>_. Inr ''client''\<rparr>"

end
