(* ===== verification/Tool_Loop.thy ===== *)
theory Tool_Loop
  imports Pipeline_Engine
begin

text \<open>
  The tool loop of a pipeline: \<open>src/internal/pipeline/tool_loop_client.go\<close>, \<open>tool_inspector.go\<close> and \<open>conversation.go\<close>.

  \<open>loop_env\<close> holds what the loop calls: the inner client, which may answer anything at each turn, the tools
  (\<open>llm.ExecuteToolCall\<close>), each a function of its call, and the context, whose error may appear before any turn or tool call.  The calls made to the
  inner client are returned with the result, so that what the model saw can be spoken of.  The library that decodes and
  encodes JSON is a parameter of the templates.
\<close>

section \<open>Messages, tools and the inner client\<close>

record tool_call =
  tc_id :: string
  tc_name :: string
  tc_args :: string

datatype chat_role = RoleUser | RoleAssistant | RoleSystem

datatype 'a chat_message =
    TextMessage chat_role string "'a list"
  | ToolCallsMessage "tool_call list"
  | ToolMessage string string

datatype tool_choice = ToolChoiceNone | ToolChoiceAuto | ToolChoiceRequired

record 'a chat_options =
  co_messages :: "'a chat_message list"
  co_tools :: "string list"
  co_choice :: tool_choice

record chat_response =
  cr_content :: string
  cr_toolCalls :: "tool_call list"

type_synonym 'e inspector = "string \<Rightarrow> string \<Rightarrow> ('e, bool \<times> string) result"

record ('a, 'e) loop_env =
  le_inner :: "nat \<Rightarrow> 'a chat_options \<Rightarrow> ('e, chat_response) result"
  le_ctxErr :: "nat \<Rightarrow> nat \<Rightarrow> 'e option"
  le_execute :: "tool_call \<Rightarrow> (string, string) result"
  le_inspectors :: "'e inspector list option"

record tool_loop_client =
  tl_tools :: "string list"
  tl_maxIterations :: int
  tl_maxConsecutive :: int

datatype 'e loop_error = InnerFailed 'e | ContextDone 'e | LoopRejected string | TooManyToolIterations

abbreviation DefaultToolLoopMaxIterations :: int where "DefaultToolLoopMaxIterations \<equiv> 8"
abbreviation DefaultMaxConsecutiveToolCalls :: int where "DefaultMaxConsecutiveToolCalls \<equiv> 2"

definition NewToolLoopClient :: "string list \<Rightarrow> int \<Rightarrow> int \<Rightarrow> tool_loop_client" where
  "NewToolLoopClient tools maxIterations maxConsecutive =
     \<lparr>tl_tools = tools,
      tl_maxIterations = (if maxIterations \<le> 0 then DefaultToolLoopMaxIterations else maxIterations),
      tl_maxConsecutive = (if maxConsecutive \<le> 0 then DefaultMaxConsecutiveToolCalls else maxConsecutive)\<rparr>"

section \<open>Inspectors\<close>

text \<open>\<open>Some reason\<close> when an inspector blocks; one that fails is skipped.\<close>

fun Inspect :: "'e inspector list \<Rightarrow> string \<Rightarrow> string \<Rightarrow> string option" where
  "Inspect [] name content = None"
| "Inspect (i # is) name content =
     (case i name content of
        Inl _ \<Rightarrow> Inspect is name content
      | Inr (blocked, reason) \<Rightarrow> if blocked then Some reason else Inspect is name content)"

definition inspectToolResult :: "'e inspector list option \<Rightarrow> string \<Rightarrow> string \<Rightarrow> string option" where
  "inspectToolResult inspectors name content =
     (case inspectors of None \<Rightarrow> None | Some is \<Rightarrow> if content = [] then None else Inspect is name content)"

section \<open>The loop\<close>

definition mergeTools :: "string list \<Rightarrow> string list \<Rightarrow> string list" where
  "mergeTools requested own = (if own = [] then requested else requested @ own)"

definition allKnown :: "string list \<Rightarrow> tool_call list \<Rightarrow> bool" where
  "allKnown tools calls = list_all (\<lambda>tc. tc_name tc \<in> set tools) calls"

definition tool_choice_of :: "tool_choice \<Rightarrow> string list \<Rightarrow> tool_choice" where
  "tool_choice_of choice tools = (if tools = [] \<or> choice \<noteq> ToolChoiceNone then choice else ToolChoiceAuto)"

definition injectPrefetched :: "'a chat_message list \<Rightarrow> string \<Rightarrow> 'a chat_message list" where
  "injectPrefetched messages block =
     (if block = [] then messages
      else if messages \<noteq> [] then
        (case last messages of
           TextMessage RoleUser content att \<Rightarrow>
             butlast messages @ [TextMessage RoleUser (content @ [CHR 0x0A, CHR 0x0A] @ block) att]
         | _ \<Rightarrow> messages @ [TextMessage RoleUser block []])
      else messages @ [TextMessage RoleUser block []])"

definition tool_failure :: "tool_call \<Rightarrow> string \<Rightarrow> string" where
  "tool_failure tc err = ''Tool '' @ [CHR 0x22] @ tc_name tc @ [CHR 0x22] @ '' failed: '' @ err"

definition executeToolCallResilient :: "('a, 'e) loop_env \<Rightarrow> tool_call \<Rightarrow> string" where
  "executeToolCallResilient env tc = (case le_execute env tc of Inl err \<Rightarrow> tool_failure tc err | Inr content \<Rightarrow> content)"

text \<open>The tool calls of turn \<open>i\<close>, from the \<open>k\<close>-th on: the messages to append.\<close>

fun run_tools :: "('a, 'e) loop_env \<Rightarrow> nat \<Rightarrow> nat \<Rightarrow> tool_call list \<Rightarrow> ('e loop_error, 'a chat_message list) result" where
  "run_tools env i k [] = Inr []"
| "run_tools env i k (tc # tcs) =
     (case le_ctxErr env i (Suc k) of
        Some e \<Rightarrow> Inl (ContextDone e)
      | None \<Rightarrow>
          (let content = executeToolCallResilient env tc
           in case inspectToolResult (le_inspectors env) (tc_name tc) content of
                Some reason \<Rightarrow> Inl (LoopRejected reason)
              | None \<Rightarrow> rmap ((#) (ToolMessage (tc_id tc) content)) (run_tools env i (Suc k) tcs)))"

text \<open>The options of the call of turn \<open>i\<close>.\<close>

definition turn_options :: "tool_loop_client \<Rightarrow> 'a chat_options \<Rightarrow> nat \<Rightarrow> 'a chat_message list \<Rightarrow> 'a chat_options" where
  "turn_options c opts i messages =
     (let tools = mergeTools (co_tools opts) (tl_tools c)
      in \<lparr>co_messages = messages, co_tools = tools,
          co_choice = (if tl_maxConsecutive c \<le> int i then ToolChoiceNone else tool_choice_of (co_choice opts) tools)\<rparr>)"

text \<open>Turn \<open>i\<close> and the following; the first argument is what is left of \<open>maxIterations\<close>.\<close>

fun tool_turns :: "nat \<Rightarrow> ('a, 'e) loop_env \<Rightarrow> tool_loop_client \<Rightarrow> 'a chat_options \<Rightarrow> nat \<Rightarrow> 'a chat_message list
    \<Rightarrow> 'a chat_options list \<times> ('e loop_error, chat_response) result" where
  "tool_turns 0 env c opts i messages = ([], Inl TooManyToolIterations)"
| "tool_turns (Suc left) env c opts i messages =
     (case le_ctxErr env i 0 of
        Some e \<Rightarrow> ([], Inl (ContextDone e))
      | None \<Rightarrow>
          (let call = turn_options c opts i messages
           in case le_inner env i call of
                Inl e \<Rightarrow> ([call], Inl (InnerFailed e))
              | Inr resp \<Rightarrow>
                  if tl_maxConsecutive c \<le> int i then ([call], Inr resp)
                  else if cr_toolCalls resp = [] \<or> \<not> allKnown (tl_tools c) (cr_toolCalls resp) then ([call], Inr resp)
                  else
                    (case run_tools env i 0 (cr_toolCalls resp) of
                       Inl e \<Rightarrow> ([call], Inl e)
                     | Inr results \<Rightarrow>
                         (case tool_turns left env c opts (Suc i) (messages @ ToolCallsMessage (cr_toolCalls resp) # results) of
                            (calls, r) \<Rightarrow> (call # calls, r)))))"

text \<open>The completion once the prefetched block is known.\<close>

definition ToolLoopChatCompletion :: "('a, 'e) loop_env \<Rightarrow> tool_loop_client \<Rightarrow> 'a chat_options \<Rightarrow> string
    \<Rightarrow> 'a chat_options list \<times> ('e loop_error, chat_response) result" where
  "ToolLoopChatCompletion env c opts prefetched =
     tool_turns (nat (tl_maxIterations c)) env c opts 0 (injectPrefetched (co_messages opts) prefetched)"

section \<open>What the model sees\<close>

text \<open>
  A conversation the loop built on top of a base: rounds of known tool calls, each with one result per call, in the order of
  the calls, that the tool gave and no inspector blocked.
\<close>

definition round_ok :: "('a, 'e) loop_env \<Rightarrow> tool_loop_client \<Rightarrow> 'a chat_message list \<Rightarrow> bool" where
  "round_ok env c msgs \<longleftrightarrow>
     (\<exists>calls. calls \<noteq> [] \<and> allKnown (tl_tools c) calls \<and>
        msgs = ToolCallsMessage calls # map (\<lambda>tc. ToolMessage (tc_id tc) (executeToolCallResilient env tc)) calls \<and>
        (\<forall>tc \<in> set calls. inspectToolResult (le_inspectors env) (tc_name tc) (executeToolCallResilient env tc) = None))"

definition rounds_on :: "('a, 'e) loop_env \<Rightarrow> tool_loop_client \<Rightarrow> nat \<Rightarrow> 'a chat_message list \<Rightarrow> 'a chat_message list \<Rightarrow> bool" where
  "rounds_on env c n base msgs \<longleftrightarrow> (\<exists>rounds. msgs = base @ concat rounds \<and> length rounds = n \<and> list_all (round_ok env c) rounds)"

lemma rounds_on_0: "rounds_on env c 0 base msgs \<longleftrightarrow> msgs = base"
  by (simp add: rounds_on_def)

lemma rounds_on_Suc: "rounds_on env c n base msgs \<Longrightarrow> round_ok env c r \<Longrightarrow> rounds_on env c (Suc n) base (msgs @ r)"
  unfolding rounds_on_def by (elim exE conjE, rule_tac x = "rounds @ [r]" in exI) simp

lemma run_tools_ok:
  "run_tools env i k calls = Inr results \<Longrightarrow>
     results = map (\<lambda>tc. ToolMessage (tc_id tc) (executeToolCallResilient env tc)) calls \<and>
     (\<forall>tc \<in> set calls. inspectToolResult (le_inspectors env) (tc_name tc) (executeToolCallResilient env tc) = None)"
  by (induction env i k calls arbitrary: results rule: run_tools.induct)
    (auto simp: Let_def result_simps split: option.splits)

lemma tool_turns_calls:
  assumes "tool_turns left env c opts i messages = (calls, r)" "rounds_on env c i base messages"
  shows "\<forall>j < length calls. \<exists>msgs. calls ! j = turn_options c opts (i + j) msgs \<and> rounds_on env c (i + j) base msgs"
  using assms
proof (induction left arbitrary: i messages calls r)
  case 0
  then show ?case by simp
next
  case (Suc left)
  let ?call = "turn_options c opts i messages"
  show ?case
  proof (cases "\<exists>resp results. le_ctxErr env i 0 = None \<and> le_inner env i ?call = Inr resp \<and> \<not> tl_maxConsecutive c \<le> int i \<and>
      cr_toolCalls resp \<noteq> [] \<and> allKnown (tl_tools c) (cr_toolCalls resp) \<and> run_tools env i 0 (cr_toolCalls resp) = Inr results")
    case False
    then have "calls = [] \<or> calls = [?call]"
      using Suc.prems(1) by (auto simp: Let_def split: option.splits sum.splits if_splits)
    then show ?thesis using Suc.prems(2) by auto
  next
    case True
    then obtain resp results where ok: "le_ctxErr env i 0 = None" "le_inner env i ?call = Inr resp" "\<not> tl_maxConsecutive c \<le> int i"
        "cr_toolCalls resp \<noteq> []" "allKnown (tl_tools c) (cr_toolCalls resp)" "run_tools env i 0 (cr_toolCalls resp) = Inr results"
      by blast
    let ?round = "ToolCallsMessage (cr_toolCalls resp) # results"
    obtain calls' where rest: "tool_turns left env c opts (Suc i) (messages @ ?round) = (calls', r)" "calls = ?call # calls'"
      using Suc.prems(1) ok by (auto simp: Let_def split: prod.splits)
    have "round_ok env c ?round" using ok run_tools_ok [OF ok(6)] unfolding round_ok_def by blast
    then have "rounds_on env c (Suc i) base (messages @ ?round)" using Suc.prems(2) by (rule rounds_on_Suc [rotated])
    then have IH: "\<forall>j < length calls'. \<exists>msgs. calls' ! j = turn_options c opts (Suc i + j) msgs \<and> rounds_on env c (Suc i + j) base msgs"
      using Suc.IH [OF rest(1)] by blast
    show ?thesis
    proof (intro allI impI)
      fix j assume j: "j < length calls"
      show "\<exists>msgs. calls ! j = turn_options c opts (i + j) msgs \<and> rounds_on env c (i + j) base msgs"
      proof (cases j)
        case 0
        then show ?thesis using rest(2) Suc.prems(2) by auto
      next
        case (Suc k)
        then show ?thesis using IH j rest(2) by (auto dest: spec [of _ k])
      qed
    qed
  qed
qed

text \<open>
  The model only ever sees well-formed and inspected tool results.  The call of turn \<open>j\<close> holds the conversation of the
  request followed by exactly \<open>j\<close> rounds; each round is the tool calls the model asked for, all known to the loop, and one
  result for each of them, in their order, that the tool or its failure gave and that no inspector blocked.  From the
  turn \<open>maxConsecutiveToolCalls\<close> on, the call asks for no tool.
\<close>

theorem tool_loop_conversation:
  assumes "ToolLoopChatCompletion env c opts prefetched = (calls, r)" and "j < length calls"
  shows "rounds_on env c j (injectPrefetched (co_messages opts) prefetched) (co_messages (calls ! j)) \<and>
    co_tools (calls ! j) = mergeTools (co_tools opts) (tl_tools c) \<and>
    (tl_maxConsecutive c \<le> int j \<longrightarrow> co_choice (calls ! j) = ToolChoiceNone)"
proof -
  obtain msgs where "calls ! j = turn_options c opts j msgs" "rounds_on env c j (injectPrefetched (co_messages opts) prefetched) msgs"
    using tool_turns_calls [OF assms(1) [unfolded ToolLoopChatCompletion_def], of "injectPrefetched (co_messages opts) prefetched"]
      assms(2) by (auto simp: rounds_on_0)
  then show ?thesis by (simp add: turn_options_def Let_def)
qed

section \<open>The loop answers\<close>

lemma tool_turns_length:
  "tool_turns left env c opts i messages = (calls, r) \<Longrightarrow> int i \<le> tl_maxConsecutive c \<Longrightarrow> int (i + length calls) \<le> tl_maxConsecutive c + 1"
proof (induction left arbitrary: i messages calls r)
  case (Suc left)
  show ?case
  proof (cases "length calls \<le> 1")
    case True
    then show ?thesis using Suc.prems(2) by simp
  next
    case False
    then obtain calls' msgs where "tool_turns left env c opts (Suc i) msgs = (calls', r)" "length calls = Suc (length calls')"
        "\<not> tl_maxConsecutive c \<le> int i"
      using Suc.prems(1) by (auto simp: Let_def split: option.splits sum.splits if_splits prod.splits)
    then show ?thesis using Suc.IH [of "Suc i" msgs calls' r] by simp
  qed
qed simp

definition quiet_env :: "('a, 'e) loop_env \<Rightarrow> bool" where
  "quiet_env env \<longleftrightarrow> (\<forall>i k. le_ctxErr env i k = None) \<and> (\<forall>i opts. \<exists>resp. le_inner env i opts = Inr resp) \<and>
     (\<forall>name content. inspectToolResult (le_inspectors env) name content = None)"

lemma run_tools_quiet: "quiet_env env \<Longrightarrow> \<exists>results. run_tools env i k calls = Inr results"
  by (induction env i k calls rule: run_tools.induct) (auto simp: quiet_env_def Let_def result_simps)

lemma tool_turns_quiet:
  assumes "quiet_env env"
  shows "tl_maxConsecutive c < int (i + left) \<Longrightarrow> int i \<le> tl_maxConsecutive c \<Longrightarrow>
    \<exists>calls resp. tool_turns left env c opts i messages = (calls, Inr resp)"
proof (induction left arbitrary: i messages)
  case (Suc left)
  obtain resp where resp: "le_inner env i (turn_options c opts i messages) = Inr resp" using assms unfolding quiet_env_def by blast
  obtain results where results: "run_tools env i 0 (cr_toolCalls resp) = Inr results" using run_tools_quiet [OF assms] by blast
  have ctx: "le_ctxErr env i 0 = None" using assms by (simp add: quiet_env_def)
  show ?case
  proof (cases "tl_maxConsecutive c \<le> int i \<or> cr_toolCalls resp = [] \<or> \<not> allKnown (tl_tools c) (cr_toolCalls resp)")
    case True
    then show ?thesis using ctx resp by (auto simp: Let_def)
  next
    case False
    then obtain calls resp' where "tool_turns left env c opts (Suc i) (messages @ ToolCallsMessage (cr_toolCalls resp) # results) = (calls, Inr resp')"
      using Suc.IH [of "Suc i" "messages @ ToolCallsMessage (cr_toolCalls resp) # results"] Suc.prems by auto
    then show ?thesis using False ctx resp results by (simp add: Let_def)
  qed
qed simp

text \<open>
  C30.  The loop always ends, and with an answer whenever the model gives one.  It calls the model at most
  \<open>maxConsecutiveToolCalls + 1\<close> times; and when the context stays alive, the model answers every call and no inspector
  blocks, a model that asks for tools forever still ends in an answer, provided \<open>maxIterations\<close> leaves room for it,
  as the defaults do.
\<close>

theorem tool_loop_answers:
  assumes "0 < tl_maxConsecutive c"
  shows "int (length (fst (ToolLoopChatCompletion env c opts prefetched))) \<le> tl_maxConsecutive c + 1 \<and>
    (quiet_env env \<longrightarrow> tl_maxConsecutive c < tl_maxIterations c \<longrightarrow>
      (\<exists>resp. snd (ToolLoopChatCompletion env c opts prefetched) = Inr resp))"
proof -
  let ?m = "injectPrefetched (co_messages opts) prefetched" and ?n = "nat (tl_maxIterations c)"
  obtain calls r where run: "tool_turns ?n env c opts 0 ?m = (calls, r)" by fastforce
  then have "int (length calls) \<le> tl_maxConsecutive c + 1" using tool_turns_length [OF run] assms by simp
  moreover have "\<exists>resp. r = Inr resp" if "quiet_env env" "tl_maxConsecutive c < tl_maxIterations c"
    using tool_turns_quiet [OF that(1), of c 0 ?n opts ?m] that(2) assms run by auto
  ultimately show ?thesis using run by (simp add: ToolLoopChatCompletion_def)
qed

text \<open>A model that asks for the tool \<open>search\<close> at every turn.\<close>

definition eager_env :: "(unit, unit) loop_env" where
  "eager_env =
     \<lparr>le_inner = \<lambda>_ _. Inr \<lparr>cr_content = [], cr_toolCalls = [\<lparr>tc_id = ''1'', tc_name = ''search'', tc_args = ''{}''\<rparr>]\<rparr>,
      le_ctxErr = \<lambda>_ _. None, le_execute = \<lambda>_. Inr ''found'', le_inspectors = None\<rparr>"

definition eager_client :: tool_loop_client where
  "eager_client = NewToolLoopClient [''search''] 0 0"

definition eager_options :: "unit chat_options" where
  "eager_options = \<lparr>co_messages = [TextMessage RoleUser ''hello'' []], co_tools = [], co_choice = ToolChoiceNone\<rparr>"

theorem tool_loop_answers_witness:
  "\<exists>resp. snd (ToolLoopChatCompletion eager_env eager_client eager_options []) = Inr resp"
proof -
  have "quiet_env eager_env" by (simp add: quiet_env_def eager_env_def inspectToolResult_def)
  moreover have "0 < tl_maxConsecutive eager_client" "tl_maxConsecutive eager_client < tl_maxIterations eager_client"
    by (simp_all add: eager_client_def NewToolLoopClient_def)
  ultimately show ?thesis using tool_loop_answers [of eager_client eager_env eager_options "[]"] by blast
qed

text \<open>
  A model that still asks for tools when told not to has its tool calls handed to the caller.  With the default bounds,
  a model that always calls the loop's own tool is called three times, and the answer of the third call is returned as it
  is, with the call to a tool the caller does not know; the bound on the iterations plays no part.
\<close>

theorem tool_calls_leak_to_caller:
  "snd (ToolLoopChatCompletion eager_env eager_client eager_options []) =
     Inr \<lparr>cr_content = [], cr_toolCalls = [\<lparr>tc_id = ''1'', tc_name = ''search'', tc_args = ''{}''\<rparr>]\<rparr> \<and>
   allKnown (tl_tools eager_client) [\<lparr>tc_id = ''1'', tc_name = ''search'', tc_args = ''{}''\<rparr>] \<and>
   ''search'' \<notin> set (co_tools eager_options)"
  by (intro conjI) code_simp+

section \<open>Streams\<close>

record tool_call_delta =
  td_index :: int
  td_id :: string
  td_name :: string
  td_args :: string

text \<open>A chunk is the tool call deltas of its delta, \<open>None\<close> when it has none, and its text.\<close>

record stream_chunk =
  sc_deltas :: "tool_call_delta list option"
  sc_text :: string

type_synonym assembly = "(int \<rightharpoonup> tool_call) \<times> int list"

definition add_delta :: "tool_call_delta \<Rightarrow> assembly \<Rightarrow> assembly" where
  "add_delta d = (\<lambda>(assembled, order).
     (let a = (case assembled (td_index d) of Some a \<Rightarrow> a | None \<Rightarrow> \<lparr>tc_id = [], tc_name = [], tc_args = []\<rparr>);
          order' = (if assembled (td_index d) = None then order @ [td_index d] else order);
          a' = \<lparr>tc_id = (if td_id d \<noteq> [] then td_id d else tc_id a),
                tc_name = (if td_name d \<noteq> [] then td_name d else tc_name a),
                tc_args = tc_args a @ td_args d\<rparr>
      in (assembled(td_index d \<mapsto> a'), order')))"

definition chunk_deltas :: "stream_chunk \<Rightarrow> tool_call_delta list" where
  "chunk_deltas ch = (case sc_deltas ch of None \<Rightarrow> [] | Some ds \<Rightarrow> ds)"

definition bufferStreamTurn :: "stream_chunk list \<Rightarrow> stream_chunk list \<times> tool_call list" where
  "bufferStreamTurn source =
     (let (assembled, order) = fold (\<lambda>ch. fold add_delta (chunk_deltas ch)) source (Map.empty, [])
      in (source, map (\<lambda>idx. the (assembled idx)) order))"

text \<open>What the assembly should be: the indexes in the order they first appear, the last identifier and name given, and all
  the pieces of the arguments.\<close>

definition last_given :: "string list \<Rightarrow> string" where
  "last_given ss = (case filter (\<lambda>s. s \<noteq> []) ss of [] \<Rightarrow> [] | ts \<Rightarrow> last ts)"

definition call_of_deltas :: "tool_call_delta list \<Rightarrow> tool_call" where
  "call_of_deltas ds =
     \<lparr>tc_id = last_given (map td_id ds), tc_name = last_given (map td_name ds), tc_args = concat (map td_args ds)\<rparr>"

definition in_order :: "int list \<Rightarrow> int list" where
  "in_order xs = rev (remdups (rev xs))"

lemma last_given_snoc: "last_given (ss @ [s]) = (if s \<noteq> [] then s else last_given ss)"
  by (cases "filter (\<lambda>s. s \<noteq> []) ss") (auto simp: last_given_def split: list.splits)

lemma in_order_snoc: "in_order (xs @ [x]) = (if x \<in> set xs then in_order xs else in_order xs @ [x])"
  by (simp add: in_order_def)

definition assembled_from :: "tool_call_delta list \<Rightarrow> assembly \<Rightarrow> bool" where
  "assembled_from ds = (\<lambda>(assembled, order).
     order = in_order (map td_index ds) \<and>
     (\<forall>idx. assembled idx = (if idx \<in> set (map td_index ds) then Some (call_of_deltas (filter (\<lambda>d. td_index d = idx) ds)) else None)))"

lemma call_of_deltas_snoc:
  "call_of_deltas (ds @ [d]) =
     \<lparr>tc_id = (if td_id d \<noteq> [] then td_id d else tc_id (call_of_deltas ds)),
      tc_name = (if td_name d \<noteq> [] then td_name d else tc_name (call_of_deltas ds)),
      tc_args = tc_args (call_of_deltas ds) @ td_args d\<rparr>"
  by (simp add: call_of_deltas_def last_given_snoc)

lemma filter_absent: "idx \<notin> td_index ` set ds \<Longrightarrow> filter (\<lambda>d. td_index d = idx) ds = []"
  by (auto simp: filter_empty_conv)

lemma call_of_deltas_Nil: "call_of_deltas [] = \<lparr>tc_id = [], tc_name = [], tc_args = []\<rparr>"
  by (simp add: call_of_deltas_def last_given_def)

lemma add_delta_assembled:
  assumes "assembled_from ds (assembled, order)"
  shows "assembled_from (ds @ [d]) (add_delta d (assembled, order))"
proof -
  let ?i = "td_index d"
  have a: "assembled idx = (if idx \<in> set (map td_index ds) then Some (call_of_deltas (filter (\<lambda>d. td_index d = idx) ds)) else None)" for idx
    using assms by (simp add: assembled_from_def)
  have ord: "order = in_order (map td_index ds)" using assms by (simp add: assembled_from_def)
  have base: "(case assembled ?i of Some a \<Rightarrow> a | None \<Rightarrow> \<lparr>tc_id = [], tc_name = [], tc_args = []\<rparr>) =
      call_of_deltas (filter (\<lambda>x. td_index x = ?i) ds)"
    by (simp add: a filter_absent call_of_deltas_Nil)
  have none: "assembled ?i = None \<longleftrightarrow> ?i \<notin> set (map td_index ds)" by (simp add: a)
  show ?thesis
    unfolding add_delta_def assembled_from_def Let_def prod.case base none
    by (auto simp: in_order_snoc ord a call_of_deltas_snoc)
qed

lemma assembled_from_fold:
  "assembled_from ds st \<Longrightarrow> assembled_from (ds @ ds') (fold add_delta ds' st)"
proof (induction ds' arbitrary: ds st)
  case (Cons d ds')
  obtain assembled order where "st = (assembled, order)" by fastforce
  then have "assembled_from (ds @ [d]) (add_delta d st)" using add_delta_assembled Cons.prems by blast
  from Cons.IH [OF this] show ?case by simp
qed simp

text \<open>
  The tool calls of a streamed turn are assembled from their pieces whatever the chunks are: one call per index, in the
  order the indexes first appear, with the last identifier and the last name given for it and all its pieces of
  arguments, in order; and every chunk is kept for the replay.
\<close>

theorem bufferStreamTurn_assembles:
  "bufferStreamTurn source =
     (source, map (\<lambda>idx. call_of_deltas (filter (\<lambda>d. td_index d = idx) (concat (map chunk_deltas source))))
        (in_order (map td_index (concat (map chunk_deltas source)))))"
proof -
  let ?ds = "concat (map chunk_deltas source)"
  have fold: "fold (\<lambda>ch. fold add_delta (chunk_deltas ch)) source st = fold add_delta ?ds st" for st
    by (induction source arbitrary: st) simp_all
  obtain assembled order where run: "fold add_delta ?ds (Map.empty, []) = (assembled, order)" by fastforce
  have "assembled_from [] (Map.empty, [])" by (simp add: assembled_from_def in_order_def)
  from assembled_from_fold [OF this, of ?ds] have "assembled_from ?ds (assembled, order)" by (simp add: run)
  then have "order = in_order (map td_index ?ds)"
      and "\<And>idx. idx \<in> set order \<Longrightarrow> the (assembled idx) = call_of_deltas (filter (\<lambda>d. td_index d = idx) ?ds)"
    by (auto simp: assembled_from_def in_order_def)
  then show ?thesis by (simp add: bufferStreamTurn_def fold run)
qed

section \<open>Streamed completions\<close>

datatype 'e emitted = EmitChunk stream_chunk | EmitError "'e loop_error"

text \<open>The chunks sent until the caller is gone; \<open>gone m\<close> tells whether it is when the \<open>m\<close>-th is due.\<close>

definition emit_all :: "(nat \<Rightarrow> bool) \<Rightarrow> 'e emitted list \<Rightarrow> 'e emitted list" where
  "emit_all gone es = map snd (takeWhile (\<lambda>(m, _). \<not> gone m) (enumerate 0 es))"

fun stream_turns :: "nat \<Rightarrow> ('a, 'e) loop_env \<Rightarrow> (nat \<Rightarrow> 'a chat_options \<Rightarrow> ('e, stream_chunk list) result) \<Rightarrow> (nat \<Rightarrow> bool)
    \<Rightarrow> tool_loop_client \<Rightarrow> 'a chat_options \<Rightarrow> nat \<Rightarrow> 'a chat_message list \<Rightarrow> 'a chat_options list \<times> 'e emitted list" where
  "stream_turns 0 env inner gone c opts i messages = ([], emit_all gone [EmitError TooManyToolIterations])"
| "stream_turns (Suc left) env inner gone c opts i messages =
     (case le_ctxErr env i 0 of
        Some e \<Rightarrow> ([], [])
      | None \<Rightarrow>
          (let call = turn_options c opts i messages
           in case inner i call of
                Inl e \<Rightarrow> ([call], emit_all gone [EmitError (InnerFailed e)])
              | Inr source \<Rightarrow>
                  (let (chunks, toolCalls) = bufferStreamTurn source
                   in if tl_maxConsecutive c \<le> int i \<or> toolCalls = [] \<or> \<not> allKnown (tl_tools c) toolCalls
                      then ([call], emit_all gone (map EmitChunk chunks))
                      else
                        (case run_tools env i 0 toolCalls of
                           Inl (ContextDone e) \<Rightarrow> ([call], [])
                         | Inl e \<Rightarrow> ([call], emit_all gone [EmitError e])
                         | Inr results \<Rightarrow>
                             (case stream_turns left env inner gone c opts (Suc i) (messages @ ToolCallsMessage toolCalls # results) of
                                (calls, es) \<Rightarrow> (call # calls, es))))))"

definition ToolLoopChatCompletionStream :: "('a, 'e) loop_env \<Rightarrow> (nat \<Rightarrow> 'a chat_options \<Rightarrow> ('e, stream_chunk list) result) \<Rightarrow> (nat \<Rightarrow> bool)
    \<Rightarrow> tool_loop_client \<Rightarrow> 'a chat_options \<Rightarrow> string \<Rightarrow> 'a chat_options list \<times> 'e emitted list" where
  "ToolLoopChatCompletionStream env inner gone c opts prefetched =
     stream_turns (nat (tl_maxIterations c)) env inner gone c opts 0 (injectPrefetched (co_messages opts) prefetched)"

text \<open>An inner client that streams what it answers: the same failures, and chunks holding the tool calls of the answer.\<close>

definition streams_same :: "('a, 'e) loop_env \<Rightarrow> (nat \<Rightarrow> 'a chat_options \<Rightarrow> ('e, stream_chunk list) result) \<Rightarrow> bool" where
  "streams_same env inner \<longleftrightarrow>
     (\<forall>i opts. case (le_inner env i opts, inner i opts) of
        (Inl e, Inl e') \<Rightarrow> e = e'
      | (Inr resp, Inr source) \<Rightarrow> snd (bufferStreamTurn source) = cr_toolCalls resp
      | _ \<Rightarrow> False)"

lemma emit_all_alive: "(\<And>m. \<not> gone m) \<Longrightarrow> emit_all gone es = es"
  by (simp add: emit_all_def takeWhile_eq_all_conv [THEN iffD2])

lemma buffer_fst [simp]: "fst (bufferStreamTurn source) = source"
  by (simp add: bufferStreamTurn_def split: prod.splits)

text \<open>How an outcome shows in a stream: the chunks of the last turn, or one error chunk.\<close>

definition shows_outcome :: "(nat \<Rightarrow> 'a chat_options \<Rightarrow> ('e, stream_chunk list) result) \<Rightarrow> nat \<Rightarrow> 'a chat_options list \<Rightarrow> ('e loop_error, chat_response) result
    \<Rightarrow> 'e emitted list \<Rightarrow> bool" where
  "shows_outcome inner i calls r es =
     (case r of
        Inl (ContextDone _) \<Rightarrow> es = []
      | Inl e \<Rightarrow> es = [EmitError e]
      | Inr resp \<Rightarrow> \<exists>source. inner (i + length calls - 1) (last calls) = Inr source \<and> es = map EmitChunk source \<and>
          snd (bufferStreamTurn source) = cr_toolCalls resp)"

lemma tool_turns_answered: "tool_turns left env c opts i messages = (calls, Inr resp) \<Longrightarrow> calls \<noteq> []"
  by (cases left) (auto simp: Let_def split: option.splits sum.splits if_splits prod.splits)

lemma stream_turns_agree:
  assumes same: "streams_same env inner" and alive: "\<And>m. \<not> gone m"
  shows "tool_turns left env c opts i messages = (calls, r) \<Longrightarrow>
    \<exists>es. stream_turns left env inner gone c opts i messages = (calls, es) \<and> shows_outcome inner i calls r es"
proof (induction left arbitrary: i messages calls r)
  case 0
  then show ?case by (auto simp: shows_outcome_def emit_all_alive [OF alive])
next
  case (Suc left)
  let ?call = "turn_options c opts i messages"
  show ?case
  proof (cases "le_ctxErr env i 0")
    case (Some e)
    then show ?thesis using Suc.prems by (auto simp: shows_outcome_def)
  next
    case ctx: None
    show ?thesis
    proof (cases "le_inner env i ?call")
      case (Inl e)
      then have "inner i ?call = Inl e"
        using spec [OF spec [OF same [unfolded streams_same_def], of i], of ?call] by (auto split: sum.splits)
      then show ?thesis using Suc.prems ctx Inl by (auto simp: Let_def shows_outcome_def emit_all_alive [OF alive])
    next
      case (Inr resp)
      obtain source where source: "inner i ?call = Inr source" "snd (bufferStreamTurn source) = cr_toolCalls resp"
        using spec [OF spec [OF same [unfolded streams_same_def], of i], of ?call] Inr by (auto split: sum.splits)
      then have buf: "bufferStreamTurn source = (source, cr_toolCalls resp)" by (metis buffer_fst prod.collapse)
      consider (stop) "tl_maxConsecutive c \<le> int i \<or> cr_toolCalls resp = [] \<or> \<not> allKnown (tl_tools c) (cr_toolCalls resp)"
        | (fail) e where "\<not> tl_maxConsecutive c \<le> int i" "cr_toolCalls resp \<noteq> []" "allKnown (tl_tools c) (cr_toolCalls resp)"
            "run_tools env i 0 (cr_toolCalls resp) = Inl e"
        | (more) results where "\<not> tl_maxConsecutive c \<le> int i" "cr_toolCalls resp \<noteq> []" "allKnown (tl_tools c) (cr_toolCalls resp)"
            "run_tools env i 0 (cr_toolCalls resp) = Inr results"
        by (cases "run_tools env i 0 (cr_toolCalls resp)") auto
      then show ?thesis
      proof cases
        case stop
        then show ?thesis using Suc.prems ctx Inr source buf
          by (auto simp: Let_def shows_outcome_def emit_all_alive [OF alive] split: if_splits)
      next
        case fail
        then show ?thesis using Suc.prems ctx Inr source buf
          by (cases e) (auto simp: Let_def shows_outcome_def emit_all_alive [OF alive])
      next
        case more
        obtain calls' where rest: "tool_turns left env c opts (Suc i) (messages @ ToolCallsMessage (cr_toolCalls resp) # results) = (calls', r)"
            "calls = ?call # calls'"
          using Suc.prems more ctx Inr by (auto simp: Let_def split: prod.splits)
        obtain es where es: "stream_turns left env inner gone c opts (Suc i) (messages @ ToolCallsMessage (cr_toolCalls resp) # results) = (calls', es)"
            "shows_outcome inner (Suc i) calls' r es"
          using Suc.IH [OF rest(1)] by blast
        have "shows_outcome inner i calls r es"
          using es(2) rest tool_turns_answered [of left env c opts "Suc i" _ calls']
          by (cases r) (auto simp: shows_outcome_def Suc_le_eq split: loop_error.splits)
        then show ?thesis using more ctx source buf es(1) rest(2) by (auto simp: Let_def)
      qed
    qed
  qed
qed

text \<open>
  C29.  A streamed completion is the plain one, streamed.  When the inner client streams what it would answer and the caller
  stays, both make the same calls to the model with the same conversations, and the caller reads the outcome of the plain
  completion: the chunks of the model's last turn and of no other, a single error chunk, or nothing when the context ended.
\<close>

theorem stream_agrees:
  assumes "streams_same env inner" and "\<And>m. \<not> gone m"
    and "ToolLoopChatCompletion env c opts prefetched = (calls, r)"
  shows "\<exists>es. ToolLoopChatCompletionStream env inner gone c opts prefetched = (calls, es) \<and> shows_outcome inner 0 calls r es"
  using stream_turns_agree [where gone = gone, OF assms(1,2)] assms(3)
  unfolding ToolLoopChatCompletion_def ToolLoopChatCompletionStream_def by blast

definition eager_chunks :: "stream_chunk list" where
  "eager_chunks = [\<lparr>sc_deltas = Some [\<lparr>td_index = 0, td_id = ''1'', td_name = ''search'', td_args = ''{''\<rparr>], sc_text = []\<rparr>,
     \<lparr>sc_deltas = Some [\<lparr>td_index = 0, td_id = [], td_name = [], td_args = ''}''\<rparr>], sc_text = []\<rparr>]"

lemma eager_buffer: "snd (bufferStreamTurn eager_chunks) = [\<lparr>tc_id = ''1'', tc_name = ''search'', tc_args = ''{}''\<rparr>]"
  by (simp add: bufferStreamTurn_def eager_chunks_def chunk_deltas_def add_delta_def)

theorem stream_agrees_witness:
  "snd (ToolLoopChatCompletionStream eager_env (\<lambda>_ _. Inr eager_chunks) (\<lambda>_. False) eager_client eager_options []) =
     map EmitChunk eager_chunks"
proof -
  have same: "streams_same eager_env (\<lambda>_ _. Inr eager_chunks)"
    by (simp add: streams_same_def eager_env_def eager_buffer)
  obtain calls r where run: "ToolLoopChatCompletion eager_env eager_client eager_options [] = (calls, r)" by fastforce
  moreover have "snd (ToolLoopChatCompletion eager_env eager_client eager_options []) =
      Inr \<lparr>cr_content = [], cr_toolCalls = [\<lparr>tc_id = ''1'', tc_name = ''search'', tc_args = ''{}''\<rparr>]\<rparr>"
    by code_simp
  ultimately show ?thesis using stream_agrees [OF same _ run] by (auto simp: shows_outcome_def)
qed

end
