(* ===== verification/Conversation.thy ===== *)
theory Conversation
  imports Tool_Loop
begin

text \<open>
  The context injected before the model is called: \<open>src/internal/pipeline/conversation.go\<close>.

  A node registers tools to resolve and values to inject; the first tool loop of the execution resolves them, fills the
  arguments of the tools from the request, has every result inspected and joins them into one block.  A decoded JSON value is
  a \<open>json\<close>; \<open>json_lib\<close> holds the decoder and the encoder of \<open>encoding/json\<close>, as functions of the text they are given.  The
  fields of a decoded object are a list, in one of the orders in which Go's \<open>range\<close> may visit them.
\<close>

section \<open>JSON values and placeholders\<close>

datatype json =
    JNull
  | JBool bool
  | JNumber string
  | JString string
  | JArray "json list"
  | JObject "(string \<times> json) list"

record json_lib =
  jl_decode :: "string \<Rightarrow> (string, json) result"
  jl_encode :: "json \<Rightarrow> string"

text \<open>The regular expression \<open>\{\{[^{}]*\}\}\<close>, matched from the left: a string is literal characters and placeholders.\<close>

datatype piece = Lit char | Hole string

definition brace :: "char \<Rightarrow> bool" where
  "brace ch \<longleftrightarrow> ch = CHR 0x7B \<or> ch = CHR 0x7D"

definition match_here :: "string \<Rightarrow> (string \<times> string) option" where
  "match_here s =
     (if take 2 s = [CHR 0x7B, CHR 0x7B]
      then let name = takeWhile (\<lambda>ch. \<not> brace ch) (drop 2 s); rest = dropWhile (\<lambda>ch. \<not> brace ch) (drop 2 s)
           in if take 2 rest = [CHR 0x7D, CHR 0x7D] then Some (name, drop 2 rest) else None
      else None)"

definition hole_text :: "string \<Rightarrow> string" where
  "hole_text name = [CHR 0x7B, CHR 0x7B] @ name @ [CHR 0x7D, CHR 0x7D]"

lemma match_here_text:
  assumes "match_here s = Some (name, rest)"
  shows "s = hole_text name @ rest"
proof -
  let ?name = "takeWhile (\<lambda>ch. \<not> brace ch) (drop 2 s)" and ?tail = "dropWhile (\<lambda>ch. \<not> brace ch) (drop 2 s)"
  have parts: "take 2 s = [CHR 0x7B, CHR 0x7B]" "take 2 ?tail = [CHR 0x7D, CHR 0x7D]" "name = ?name" "rest = drop 2 ?tail"
    using assms by (auto simp: match_here_def Let_def split: if_splits)
  have "s = take 2 s @ drop 2 s" by simp
  also have "drop 2 s = ?name @ ?tail" by simp
  also have "?tail = take 2 ?tail @ drop 2 ?tail" by simp
  finally show ?thesis unfolding parts hole_text_def by simp
qed

function pieces :: "string \<Rightarrow> piece list" where
  "pieces [] = []"
| "pieces (ch # s) =
     (case match_here (ch # s) of
        Some (name, rest) \<Rightarrow> Hole name # pieces rest
      | None \<Rightarrow> Lit ch # pieces s)"
  by pat_completeness auto

termination pieces
proof (relation "measure length")
  fix ch :: char and s :: string and p :: "string \<times> string" and name rest
  assume "match_here (ch # s) = Some p" and "(name, rest) = p"
  then have "ch # s = hole_text name @ rest" using match_here_text by blast
  then have "length (ch # s) = length (hole_text name @ rest)" by simp
  then show "(rest, ch # s) \<in> measure length" by (simp add: hole_text_def)
qed auto

fun piece_text :: "piece \<Rightarrow> string" where
  "piece_text (Lit ch) = [ch]"
| "piece_text (Hole name) = hole_text name"

lemma pieces_text: "concat (map piece_text (pieces s)) = s"
proof (induction s rule: pieces.induct)
  case (2 ch s)
  then show ?case using match_here_text [of "ch # s"] by (auto split: option.splits)
qed simp

text \<open>The names of the placeholders of a string, as \<open>strings.TrimSpace\<close> leaves them.\<close>

definition holes :: "string \<Rightarrow> string list" where
  "holes s = map trim_space (List.map_filter (\<lambda>p. case p of Hole name \<Rightarrow> Some name | Lit _ \<Rightarrow> None) (pieces s))"

section \<open>Filling a template\<close>

definition TemplatePlaceholders :: "string list" where
  "TemplatePlaceholders = [''last_user_message'', ''user_id'', ''org_id'', ''display_name'', ''session_id'']"

text \<open>The variables \<open>missing\<close> and \<open>unknown\<close> of the closure \<open>fill\<close>.\<close>

type_synonym fill_state = "bool \<times> string"

fun fill_pieces :: "(string \<Rightarrow> string) \<Rightarrow> piece list \<Rightarrow> fill_state \<Rightarrow> string \<times> fill_state" where
  "fill_pieces vals [] st = ([], st)"
| "fill_pieces vals (Lit ch # ps) st = (case fill_pieces vals ps st of (t, st') \<Rightarrow> (ch # t, st'))"
| "fill_pieces vals (Hole match # ps) (missing, unknown) =
     (let name = trim_space match in
      if name \<notin> set TemplatePlaceholders
      then case fill_pieces vals ps (True, if unknown = [] then name else unknown) of (t, st') \<Rightarrow> (hole_text match @ t, st')
      else if vals name = []
      then case fill_pieces vals ps (True, unknown) of (t, st') \<Rightarrow> (hole_text match @ t, st')
      else case fill_pieces vals ps (missing, unknown) of (t, st') \<Rightarrow> (vals name @ t, st'))"

definition fill :: "(string \<Rightarrow> string) \<Rightarrow> string \<Rightarrow> fill_state \<Rightarrow> string \<times> fill_state" where
  "fill vals s = fill_pieces vals (pieces s)"

fun fillJSONStrings :: "(string \<Rightarrow> string) \<Rightarrow> json \<Rightarrow> fill_state \<Rightarrow> json \<times> fill_state"
  and fillFields :: "(string \<Rightarrow> string) \<Rightarrow> (string \<times> json) list \<Rightarrow> fill_state \<Rightarrow> (string \<times> json) list \<times> fill_state"
  and fillItems :: "(string \<Rightarrow> string) \<Rightarrow> json list \<Rightarrow> fill_state \<Rightarrow> json list \<times> fill_state" where
  "fillJSONStrings vals (JString s) st = (case fill vals s st of (t, st') \<Rightarrow> (JString t, st'))"
| "fillJSONStrings vals (JObject members) st = (case fillFields vals members st of (fs, st') \<Rightarrow> (JObject fs, st'))"
| "fillJSONStrings vals (JArray items) st = (case fillItems vals items st of (js, st') \<Rightarrow> (JArray js, st'))"
| "fillJSONStrings vals v st = (v, st)"
| "fillFields vals [] st = ([], st)"
| "fillFields vals ((key, item) # members) st =
     (case fillJSONStrings vals item st of
        (j, st') \<Rightarrow> (case fillFields vals members st' of (fs, st'') \<Rightarrow> ((key, j) # fs, st'')))"
| "fillItems vals [] st = ([], st)"
| "fillItems vals (item # items) st =
     (case fillJSONStrings vals item st of
        (j, st') \<Rightarrow> (case fillItems vals items st' of (js, st'') \<Rightarrow> (j # js, st'')))"

datatype template_error = NotJSON string | UnknownPlaceholder string | NotAnObject

text \<open>The filled template, encoded, and whether a value was missing.  A decoded value always encodes.\<close>

definition FillTemplateArgs :: "json_lib \<Rightarrow> string \<Rightarrow> (string \<Rightarrow> string) \<Rightarrow> (template_error, string \<times> bool) result" where
  "FillTemplateArgs lib template vals =
     (if trim_space template = [] then Inr (''{}'', False)
      else case jl_decode lib template of
        Inl err \<Rightarrow> Inl (NotJSON err)
      | Inr decoded \<Rightarrow>
          (case fillJSONStrings vals decoded (False, []) of
             (filled, missing, unknown) \<Rightarrow>
               if unknown \<noteq> [] then Inl (UnknownPlaceholder unknown)
               else (case filled of
                       JObject _ \<Rightarrow> Inr (jl_encode lib filled, missing)
                     | _ \<Rightarrow> Inl NotAnObject)))"

section \<open>What filling does\<close>

fun fill_piece :: "(string \<Rightarrow> string) \<Rightarrow> piece \<Rightarrow> string" where
  "fill_piece vals (Lit ch) = [ch]"
| "fill_piece vals (Hole match) =
     (let name = trim_space match
      in if name \<in> set TemplatePlaceholders \<and> vals name \<noteq> [] then vals name else hole_text match)"

definition fill_string :: "(string \<Rightarrow> string) \<Rightarrow> string \<Rightarrow> string" where
  "fill_string vals s = concat (map (fill_piece vals) (pieces s))"

fun map_strings :: "(string \<Rightarrow> string) \<Rightarrow> json \<Rightarrow> json" where
  "map_strings f (JString s) = JString (f s)"
| "map_strings f (JObject members) = JObject (map (\<lambda>(key, j). (key, map_strings f j)) members)"
| "map_strings f (JArray items) = JArray (map (map_strings f) items)"
| "map_strings f j = j"

text \<open>The placeholders of a value, in the order they are visited.\<close>

fun json_holes :: "json \<Rightarrow> string list" where
  "json_holes (JString s) = holes s"
| "json_holes (JObject members) = concat (map (\<lambda>(key, j). json_holes j) members)"
| "json_holes (JArray items) = concat (map json_holes items)"
| "json_holes j = []"

definition unfilled :: "(string \<Rightarrow> string) \<Rightarrow> string \<Rightarrow> bool" where
  "unfilled vals name \<longleftrightarrow> name \<notin> set TemplatePlaceholders \<or> vals name = []"

definition misspelt :: "string \<Rightarrow> bool" where
  "misspelt name \<longleftrightarrow> name \<noteq> [] \<and> name \<notin> set TemplatePlaceholders"

definition first_or_empty :: "string list \<Rightarrow> string" where
  "first_or_empty names = (case names of [] \<Rightarrow> [] | name # _ \<Rightarrow> name)"

definition noted :: "(string \<Rightarrow> string) \<Rightarrow> string list \<Rightarrow> fill_state \<Rightarrow> fill_state" where
  "noted vals names st =
     (fst st \<or> (\<exists>name\<in>set names. unfilled vals name),
      if snd st \<noteq> [] then snd st else first_or_empty (filter misspelt names))"

lemma noted_Nil [simp]: "noted vals [] st = st"
  by (simp add: noted_def first_or_empty_def prod_eq_iff)

lemma noted_append: "noted vals (ns @ ms) st = noted vals ms (noted vals ns st)"
proof -
  have "filter misspelt ns = n # rest \<Longrightarrow> n \<noteq> []" for n rest
    by (auto simp: filter_eq_Cons_iff misspelt_def)
  then show ?thesis by (auto simp: noted_def first_or_empty_def split: list.splits)
qed

lemma fill_pieces_exact:
  "fill_pieces vals ps st =
     (concat (map (fill_piece vals) ps),
      noted vals (map trim_space (List.map_filter (\<lambda>p. case p of Hole name \<Rightarrow> Some name | Lit _ \<Rightarrow> None) ps)) st)"
proof (induction vals ps st rule: fill_pieces.induct)
  case (3 vals match ps missing unknown)
  let ?name = "trim_space match"
  let ?rest = "map trim_space (List.map_filter (\<lambda>p. case p of Hole name \<Rightarrow> Some name | Lit _ \<Rightarrow> None) ps)"
  have one: "noted vals (?name # ?rest) (missing, unknown) = noted vals ?rest (noted vals [?name] (missing, unknown))"
    using noted_append [of vals "[?name]" ?rest] by simp
  have head: "noted vals [?name] (missing, unknown) =
      (if ?name \<notin> set TemplatePlaceholders then (True, if unknown = [] then ?name else unknown)
       else if vals ?name = [] then (True, unknown) else (missing, unknown))"
    by (auto simp: noted_def unfilled_def misspelt_def first_or_empty_def)
  show ?case
  proof (cases "?name \<in> set TemplatePlaceholders")
    case False
    then show ?thesis using 3(1) [OF refl] by (simp add: Let_def map_filter_simps one head)
  next
    case known: True
    then show ?thesis using 3(2,3) [OF refl] by (cases "vals ?name = []") (simp_all add: Let_def map_filter_simps one head)
  qed
qed (simp_all add: map_filter_simps)

lemma fill_exact: "fill vals s st = (fill_string vals s, noted vals (holes s) st)"
  by (simp add: fill_def fill_pieces_exact fill_string_def holes_def)

lemma fillJSONStrings_exact:
  "fillJSONStrings vals j st = (map_strings (fill_string vals) j, noted vals (json_holes j) st)"
  "fillFields vals members st =
     (map (\<lambda>(key, j). (key, map_strings (fill_string vals) j)) members,
      noted vals (concat (map (\<lambda>(key, j). json_holes j) members)) st)"
  "fillItems vals items st = (map (map_strings (fill_string vals)) items, noted vals (concat (map json_holes items)) st)"
  by (induction vals j st and vals members st and vals items st rule: fillJSONStrings_fillFields_fillItems.induct)
    (simp_all add: fill_exact noted_append)

text \<open>A filled value and its template: the same structure and the same keys, and the same text wherever the template has no
  placeholder.\<close>

fun agrees :: "json \<Rightarrow> json \<Rightarrow> bool" where
  "agrees (JString s) (JString s') \<longleftrightarrow> (holes s = [] \<longrightarrow> s' = s)"
| "agrees (JObject ms) (JObject ms') \<longleftrightarrow> list_all2 (\<lambda>(key, j) (key', j'). key = key' \<and> agrees j j') ms ms'"
| "agrees (JArray js) (JArray js') \<longleftrightarrow> list_all2 agrees js js'"
| "agrees j j' \<longleftrightarrow> j = j'"

lemma fill_string_no_holes: "holes s = [] \<Longrightarrow> fill_string vals s = s"
proof -
  assume "holes s = []"
  then have "\<forall>p\<in>set (pieces s). \<exists>ch. p = Lit ch"
    by (auto simp: holes_def List.map_filter_def filter_empty_conv split: piece.splits) (metis piece.exhaust)
  then have "map (fill_piece vals) (pieces s) = map piece_text (pieces s)" by (auto intro!: map_cong)
  then show ?thesis unfolding fill_string_def by (simp only: pieces_text)
qed

lemma map_strings_agrees: "(\<And>s. holes s = [] \<Longrightarrow> f s = s) \<Longrightarrow> agrees j (map_strings f j)"
proof (induction f j rule: map_strings.induct)
  case (2 f members)
  then show ?case by (auto simp: list_all2_map2 intro!: list.rel_refl_strong)
next
  case (3 f items)
  then show ?case by (auto simp: list_all2_map2 intro!: list.rel_refl_strong)
qed simp_all

text \<open>
  C28.  Text put into the arguments of a tool stays in the strings it was meant for.  What is encoded for the tool is an object
  with the keys and the structure of the administrator's template, equal to it wherever the template has no
  placeholder; each placeholder is replaced by the value of its name, once, and a value is reported missing exactly when
  some placeholder has none.
\<close>

theorem FillTemplateArgs_confined:
  assumes "FillTemplateArgs lib template vals = Inr (out, missing)" and "trim_space template \<noteq> []"
  shows "\<exists>ms filled. jl_decode lib template = Inr (JObject ms) \<and> filled = map_strings (fill_string vals) (JObject ms) \<and>
    out = jl_encode lib filled \<and> agrees (JObject ms) filled \<and>
    missing = (\<exists>name\<in>set (json_holes (JObject ms)). unfilled vals name)"
proof -
  obtain decoded where decoded: "jl_decode lib template = Inr decoded"
    using assms by (auto simp: FillTemplateArgs_def split: sum.splits)
  have run: "(if first_or_empty (filter misspelt (json_holes decoded)) \<noteq> []
        then Inl (UnknownPlaceholder (first_or_empty (filter misspelt (json_holes decoded))))
        else (case map_strings (fill_string vals) decoded of
                JObject _ \<Rightarrow> Inr (jl_encode lib (map_strings (fill_string vals) decoded),
                  \<exists>name\<in>set (json_holes decoded). unfilled vals name)
              | _ \<Rightarrow> Inl NotAnObject)) = Inr (out, missing)"
    using assms by (simp add: FillTemplateArgs_def decoded fillJSONStrings_exact noted_def del: map_strings.simps json_holes.simps)
  have filled: "agrees decoded (map_strings (fill_string vals) decoded)" by (rule map_strings_agrees [OF fill_string_no_holes])
  show ?thesis
  proof (cases decoded)
    case (JObject ms)
    then show ?thesis using run filled decoded by (simp split: if_splits)
  qed (use run in \<open>simp_all split: if_splits\<close>)
qed

definition demo_lib :: json_lib where
  "demo_lib =
     \<lparr>jl_decode = \<lambda>text. if text = ''T'' then Inr (JObject [(''k'', JString ''fixed''), (''q'', JString ''{{ user_id }}!'')]) else Inl ''bad'',
      jl_encode = \<lambda>j. case j of JObject [_, (_, JString s)] \<Rightarrow> s | _ \<Rightarrow> ''null''\<rparr>"

definition demo_vals :: "string \<Rightarrow> string" where
  "demo_vals name = (if name = ''user_id'' then ''{{org_id}}'' else [])"

lemma demo_fill: "FillTemplateArgs demo_lib ''T'' demo_vals = Inr (''{{org_id}}!'', False)"
  by (simp add: FillTemplateArgs_def demo_lib_def demo_vals_def fill_def match_here_def brace_def Let_def
      trim_space_def is_space_def TemplatePlaceholders_def hole_text_def)

theorem FillTemplateArgs_confined_witness:
  "\<exists>ms filled. jl_decode demo_lib ''T'' = Inr (JObject ms) \<and> filled = map_strings (fill_string demo_vals) (JObject ms) \<and>
     ''{{org_id}}!'' = jl_encode demo_lib filled \<and> agrees (JObject ms) filled \<and>
     False = (\<exists>name\<in>set (json_holes (JObject ms)). unfilled demo_vals name)"
  by (rule FillTemplateArgs_confined [OF demo_fill]) (simp add: trim_space_def is_space_def)

text \<open>
  A misspelt placeholder is reported, whatever the request holds, unless its name is empty: the template \<open>{{ }}\<close> then counts
  as a value the request lacks.
\<close>

theorem misspelt_placeholder_reported:
  assumes "jl_decode lib template = Inr decoded" and "trim_space template \<noteq> []"
  shows "(\<exists>name. FillTemplateArgs lib template vals = Inl (UnknownPlaceholder name)) \<longleftrightarrow> (\<exists>name\<in>set (json_holes decoded). misspelt name)"
proof -
  have "(first_or_empty (filter misspelt ns) \<noteq> []) = (\<exists>name\<in>set ns. misspelt name)" for ns
    by (cases "filter misspelt ns") (auto simp: first_or_empty_def filter_eq_Cons_iff filter_empty_conv misspelt_def)
  then show ?thesis
    using assms by (cases decoded) (auto simp: FillTemplateArgs_def fillJSONStrings_exact noted_def first_or_empty_def)
qed

section \<open>The tools and values of a conversation\<close>

record conversation_tool =
  ct_tool :: "string option"
  ct_trigger :: int
  ct_arguments :: string
  ct_resultTemplate :: string
  ct_label :: string

abbreviation ToolTriggerAlways :: int where "ToolTriggerAlways \<equiv> 1"

definition Register :: "conversation_tool list \<Rightarrow> conversation_tool list \<Rightarrow> conversation_tool list" where
  "Register set_tools tools =
     fold (\<lambda>t acc. if ct_tool t = None then acc
                   else acc @ [if ct_trigger t = 0 then t\<lparr>ct_trigger := ToolTriggerAlways\<rparr> else t]) tools set_tools"

definition Always :: "conversation_tool list \<Rightarrow> conversation_tool list" where
  "Always tools = filter (\<lambda>t. ct_trigger t = ToolTriggerAlways) tools"

record conversation_value =
  cv_label :: string
  cv_content :: string

record conversation_tools =
  cs_tools :: "conversation_tool list"
  cs_values :: "conversation_value list"
  cs_injected :: bool

record caller =
  ca_orgID :: string
  ca_userID :: string
  ca_displayName :: string
  ca_sessionID :: string

definition SessionKey :: "caller \<Rightarrow> string" where
  "SessionKey ec =
     (if ca_sessionID ec \<noteq> [] then ca_sessionID ec
      else if ca_userID ec = [] \<and> ca_orgID ec = [] then []
      else ca_orgID ec @ ''/'' @ ca_userID ec)"

text \<open>The role and the text of a message; a message that carries tool calls or a tool's result is not the user's.\<close>

fun user_text :: "'a chat_message \<Rightarrow> string option" where
  "user_text (TextMessage RoleUser content _) = Some content"
| "user_text _ = None"

fun first_user_text :: "'a chat_message list \<Rightarrow> string" where
  "first_user_text [] = []"
| "first_user_text (m # ms) =
     (case user_text m of
        None \<Rightarrow> first_user_text ms
      | Some content \<Rightarrow> if trim_space content \<noteq> [] then trim_space content else first_user_text ms)"

definition lastUserMessageText :: "'a chat_message list \<Rightarrow> string" where
  "lastUserMessageText messages = first_user_text (rev messages)"

definition TemplateValues :: "caller \<Rightarrow> 'a chat_message list \<Rightarrow> string \<Rightarrow> string" where
  "TemplateValues ec messages name =
     (if name = ''last_user_message'' then lastUserMessageText messages
      else if name = ''user_id'' then ca_userID ec
      else if name = ''org_id'' then ca_orgID ec
      else if name = ''display_name'' then ca_displayName ec
      else if name = ''session_id'' then SessionKey ec
      else [])"

definition takeInjection :: "conversation_tools \<Rightarrow> bool \<times> conversation_tools" where
  "takeInjection c = (if cs_injected c then (False, c) else (True, c\<lparr>cs_injected := True\<rparr>))"

definition conversationBlock :: "string \<Rightarrow> string \<Rightarrow> string" where
  "conversationBlock label content = (if trim_space label = [] then content else label @ [CHR 0x0A] @ content)"

text \<open>\<open>strings.ReplaceAll\<close> for a non-empty text to replace.\<close>

function ReplaceAll :: "string \<Rightarrow> string \<Rightarrow> string \<Rightarrow> string" where
  "ReplaceAll [] from to = []"
| "ReplaceAll (ch # s) from to =
     (if from \<noteq> [] \<and> take (length from) (ch # s) = from
      then to @ ReplaceAll (drop (length from) (ch # s)) from to
      else ch # ReplaceAll s from to)"
  by pat_completeness auto

termination ReplaceAll
  by (relation "measure (\<lambda>(s, _, _). length s)") (auto simp: length_greater_0_conv)

section \<open>The prefetch\<close>

text \<open>The tools of the plugins, a panic being one of their errors; the inspectors; and the text of a template's error.\<close>

record 'e conv_env =
  ce_lib :: json_lib
  ce_call :: "string \<Rightarrow> json \<Rightarrow> (string, string) result"
  ce_inspectors :: "'e inspector list option"
  ce_errorText :: "template_error \<Rightarrow> string"

datatype prefetch_error = PrefetchRejected string | ArgumentsNotObject string

text \<open>Decoding into a map: an object, or \<open>null\<close>, which leaves the map nil.\<close>

definition decode_params :: "json_lib \<Rightarrow> string \<Rightarrow> json option" where
  "decode_params lib arguments =
     (case jl_decode lib arguments of
        Inr (JObject ms) \<Rightarrow> Some (JObject ms)
      | Inr JNull \<Rightarrow> Some (JObject [])
      | _ \<Rightarrow> None)"

definition callConversationTool :: "'e conv_env \<Rightarrow> string \<Rightarrow> json \<Rightarrow> string" where
  "callConversationTool env name params =
     (case ce_call env name params of Inl err \<Rightarrow> ''the tool failed: '' @ err | Inr content \<Rightarrow> content)"

definition runConversationTool :: "'e conv_env \<Rightarrow> conversation_tool \<Rightarrow> (string \<Rightarrow> string) \<Rightarrow> (prefetch_error, string) result" where
  "runConversationTool env tool vals =
     (let name = the (ct_tool tool)
      in case FillTemplateArgs (ce_lib env) (ct_arguments tool) vals of
           Inl err \<Rightarrow> Inr (conversationBlock (ct_label tool) (''the tool was not called: '' @ ce_errorText env err))
         | Inr (arguments, missing) \<Rightarrow>
             if missing
             then Inr (conversationBlock (ct_label tool)
               ''the tool was not called: the request carries no value for one of its arguments'')
             else case decode_params (ce_lib env) arguments of
               None \<Rightarrow> Inl (ArgumentsNotObject name)
             | Some params \<Rightarrow>
                 (let content = callConversationTool env name params
                  in case inspectToolResult (ce_inspectors env) name content of
                       Some reason \<Rightarrow> Inl (PrefetchRejected reason)
                     | None \<Rightarrow>
                         if content = [] then Inr []
                         else Inr (conversationBlock (ct_label tool)
                           (if ct_resultTemplate tool \<noteq> [] then ReplaceAll (ct_resultTemplate tool) ''{{result}}'' content
                            else content))))"

fun value_blocks :: "'e conv_env \<Rightarrow> conversation_value list \<Rightarrow> (prefetch_error, string list) result" where
  "value_blocks env [] = Inr []"
| "value_blocks env (v # vs) =
     (if cv_content v = [] then value_blocks env vs
      else let block = conversationBlock (cv_label v) (cv_content v)
           in case inspectToolResult (ce_inspectors env) (cv_label v) block of
                Some reason \<Rightarrow> Inl (PrefetchRejected reason)
              | None \<Rightarrow> rmap ((#) block) (value_blocks env vs))"

fun tool_blocks :: "'e conv_env \<Rightarrow> (string \<Rightarrow> string) \<Rightarrow> conversation_tool list \<Rightarrow> (prefetch_error, string list) result" where
  "tool_blocks env vals [] = Inr []"
| "tool_blocks env vals (t # ts) =
     (case runConversationTool env t vals of
        Inl err \<Rightarrow> Inl err
      | Inr block \<Rightarrow> if block \<noteq> [] then rmap ((#) block) (tool_blocks env vals ts) else tool_blocks env vals ts)"

fun join_blocks :: "string list \<Rightarrow> string" where
  "join_blocks [] = []"
| "join_blocks [b] = b"
| "join_blocks (b # bs) = b @ [CHR 0x0A, CHR 0x0A] @ join_blocks bs"

definition prefetchConversationTools :: "'e conv_env \<Rightarrow> caller \<Rightarrow> conversation_tools option \<Rightarrow> 'a chat_message list
    \<Rightarrow> conversation_tools option \<times> (prefetch_error, string) result" where
  "prefetchConversationTools env ec conversation messages =
     (case conversation of
        None \<Rightarrow> (None, Inr [])
      | Some c \<Rightarrow>
          (case takeInjection c of
             (False, c') \<Rightarrow> (Some c', Inr [])
           | (True, c') \<Rightarrow>
               (Some c',
                rbind (value_blocks env (cs_values c)) (\<lambda>vbs.
                  rmap (\<lambda>tbs. join_blocks (vbs @ tbs)) (tool_blocks env (TemplateValues ec messages) (Always (cs_tools c)))))))"

text \<open>The blocks that may be injected: a value whose whole block passed the inspectors, the result of a tool that passed
  them, called with arguments filled from the request, or a notice that the tool was not called.\<close>

definition value_passed :: "'e conv_env \<Rightarrow> conversation_value \<Rightarrow> string \<Rightarrow> bool" where
  "value_passed env v block \<longleftrightarrow>
     block = conversationBlock (cv_label v) (cv_content v) \<and> inspectToolResult (ce_inspectors env) (cv_label v) block = None"

definition result_passed :: "'e conv_env \<Rightarrow> (string \<Rightarrow> string) \<Rightarrow> conversation_tool \<Rightarrow> string \<Rightarrow> bool" where
  "result_passed env vals t block \<longleftrightarrow>
     (\<exists>arguments params content.
        FillTemplateArgs (ce_lib env) (ct_arguments t) vals = Inr (arguments, False) \<and>
        decode_params (ce_lib env) arguments = Some params \<and>
        content = callConversationTool env (the (ct_tool t)) params \<and>
        inspectToolResult (ce_inspectors env) (the (ct_tool t)) content = None \<and>
        block = conversationBlock (ct_label t)
          (if ct_resultTemplate t \<noteq> [] then ReplaceAll (ct_resultTemplate t) ''{{result}}'' content else content))"

definition notice :: "'e conv_env \<Rightarrow> (string \<Rightarrow> string) \<Rightarrow> conversation_tool \<Rightarrow> string \<Rightarrow> bool" where
  "notice env vals t block \<longleftrightarrow>
     (\<exists>reason. block = conversationBlock (ct_label t) (''the tool was not called: '' @ reason) \<and>
       (case FillTemplateArgs (ce_lib env) (ct_arguments t) vals of
          Inl err \<Rightarrow> reason = ce_errorText env err
        | Inr (_, missing) \<Rightarrow> missing \<and> reason = ''the request carries no value for one of its arguments''))"

lemma runConversationTool_block:
  assumes "runConversationTool env t vals = Inr block" and "block \<noteq> []"
  shows "result_passed env vals t block \<or> notice env vals t block"
proof (cases "FillTemplateArgs (ce_lib env) (ct_arguments t) vals")
  case (Inl err)
  then show ?thesis using assms by (auto simp: runConversationTool_def notice_def)
next
  case (Inr filled)
  obtain arguments missing where f: "filled = (arguments, missing)" by fastforce
  show ?thesis
  proof (cases missing)
    case True
    then show ?thesis using assms Inr f by (auto simp: runConversationTool_def notice_def)
  next
    case False
    then show ?thesis using assms Inr f
      by (auto simp: runConversationTool_def result_passed_def Let_def split: option.splits if_splits)
  qed
qed

lemma value_blocks_passed:
  "value_blocks env vs = Inr vbs \<Longrightarrow> list_all2 (value_passed env) (filter (\<lambda>v. cv_content v \<noteq> []) vs) vbs"
  by (induction vs arbitrary: vbs) (auto simp: Let_def value_passed_def rmap_eq_Inr split: option.splits if_splits)

lemma tool_blocks_passed:
  "tool_blocks env vals ts = Inr tbs \<Longrightarrow> block \<in> set tbs \<Longrightarrow> \<exists>t\<in>set ts. result_passed env vals t block \<or> notice env vals t block"
proof (induction ts arbitrary: tbs)
  case (Cons t ts)
  then show ?case using runConversationTool_block [of env t vals]
    by (auto simp: rmap_eq_Inr split: sum.splits if_splits)
qed simp

text \<open>The completion of a loop: the prefetch, then the turns on the conversation with its block.\<close>

definition ChatCompletion :: "('a, 'e) loop_env \<Rightarrow> 'e conv_env \<Rightarrow> tool_loop_client \<Rightarrow> caller \<Rightarrow> conversation_tools option \<Rightarrow> 'a chat_options
    \<Rightarrow> conversation_tools option \<times> 'a chat_options list \<times> (prefetch_error + 'e loop_error, chat_response) result" where
  "ChatCompletion env cenv c ec conversation opts =
     (case prefetchConversationTools cenv ec conversation (co_messages opts) of
        (conversation', Inl e) \<Rightarrow> (conversation', [], Inl (Inl e))
      | (conversation', Inr block) \<Rightarrow>
          (case ToolLoopChatCompletion env c opts block of
             (calls, Inl e) \<Rightarrow> (conversation', calls, Inl (Inr e))
           | (calls, Inr resp) \<Rightarrow> (conversation', calls, Inr resp)))"

definition passed_block :: "'e conv_env \<Rightarrow> caller \<Rightarrow> conversation_tools \<Rightarrow> 'a chat_message list \<Rightarrow> string \<Rightarrow> bool" where
  "passed_block env ec conv messages block \<longleftrightarrow>
     (\<exists>v\<in>set (cs_values conv). value_passed env v block) \<or>
     (\<exists>t\<in>set (Always (cs_tools conv)).
        result_passed env (TemplateValues ec messages) t block \<or> notice env (TemplateValues ec messages) t block)"

lemma list_all2_passed: "list_all2 P xs ys \<Longrightarrow> y \<in> set ys \<Longrightarrow> \<exists>x\<in>set xs. P x y"
  by (induction rule: list_all2_induct) auto

lemma prefetch_passed:
  assumes "prefetchConversationTools env ec conversation messages = (conversation', Inr text)"
  shows "text = [] \<or>
    (\<exists>conv blocks. conversation = Some conv \<and> \<not> cs_injected conv \<and> text = join_blocks blocks \<and>
       list_all (passed_block env ec conv messages) blocks)"
proof (cases "\<exists>conv. conversation = Some conv \<and> \<not> cs_injected conv")
  case True
  then obtain conv where conv: "conversation = Some conv" "\<not> cs_injected conv" by blast
  obtain vbs tbs where blocks: "value_blocks env (cs_values conv) = Inr vbs"
      "tool_blocks env (TemplateValues ec messages) (Always (cs_tools conv)) = Inr tbs" "text = join_blocks (vbs @ tbs)"
    using assms conv by (auto simp: prefetchConversationTools_def takeInjection_def rbind_eq_Inr rmap_eq_Inr)
  have "list_all (passed_block env ec conv messages) vbs"
    using list_all2_passed [OF value_blocks_passed [OF blocks(1)]] by (fastforce simp: list_all_iff passed_block_def)
  moreover have "list_all (passed_block env ec conv messages) tbs"
    using tool_blocks_passed [OF blocks(2)] by (auto simp: list_all_iff passed_block_def)
  ultimately show ?thesis using conv blocks(3) by (intro disjI2 exI [of _ conv] exI [of _ "vbs @ tbs"]) simp
next
  case False
  then show ?thesis using assms by (auto simp: prefetchConversationTools_def takeInjection_def split: option.splits)
qed

text \<open>
  C4.  The model sees nothing a tool or a plugin gave that the inspectors did not let through.  Turn \<open>j\<close> of a completion is
  called with the caller's messages, the injected block, and \<open>j\<close> rounds of tool calls with inspected results; the block is
  empty or joins blocks that are each a value inspected with its label, the inspected result of a registered tool called with
  arguments filled from this request, or the notice that a tool was not called.
\<close>

theorem model_sees_inspected:
  assumes "ChatCompletion env cenv c ec conversation opts = (conversation', calls, r)" and "j < length calls"
  shows "\<exists>text. rounds_on env c j (injectPrefetched (co_messages opts) text) (co_messages (calls ! j)) \<and>
    (text = [] \<or>
      (\<exists>conv blocks. conversation = Some conv \<and> \<not> cs_injected conv \<and> text = join_blocks blocks \<and>
         list_all (passed_block cenv ec conv (co_messages opts)) blocks))"
proof -
  obtain conversation'' p where pre: "prefetchConversationTools cenv ec conversation (co_messages opts) = (conversation'', p)"
    by fastforce
  obtain block where block: "p = Inr block" using assms pre by (cases p) (auto simp: ChatCompletion_def)
  obtain r' where "ToolLoopChatCompletion env c opts block = (calls, r')"
    using assms(1) pre block by (auto simp: ChatCompletion_def split: prod.splits sum.splits)
  from tool_loop_conversation [OF this assms(2)] show ?thesis
    using prefetch_passed [OF pre [unfolded block]] by blast
qed

text \<open>However many loops an execution stacks, and in whatever order they run, only the first injects anything.\<close>

theorem prefetch_once:
  "prefetchConversationTools env ec conversation messages = (conversation', r) \<Longrightarrow>
   prefetchConversationTools env' ec' conversation' messages' = (conversation', Inr [])"
  by (auto simp: prefetchConversationTools_def takeInjection_def split: option.splits if_splits)

definition guarded_env :: "(unit, unit) loop_env" where
  "guarded_env =
     \<lparr>le_inner = \<lambda>_ _. Inr \<lparr>cr_content = ''hello'', cr_toolCalls = []\<rparr>, le_ctxErr = \<lambda>_ _. None, le_execute = \<lambda>_. Inr ''found'',
      le_inspectors = Some [\<lambda>_ content. Inr (content = ''attack'', ''injection'')]\<rparr>"

definition guarded_conv :: "unit conv_env" where
  "guarded_conv =
     \<lparr>ce_lib = demo_lib, ce_call = \<lambda>_ _. Inr ''facts'', ce_inspectors = Some [\<lambda>_ content. Inr (content = ''attack'', ''injection'')],
      ce_errorText = \<lambda>_. ''bad template''\<rparr>"

definition one_value :: conversation_tools where
  "one_value = \<lparr>cs_tools = [], cs_values = [\<lparr>cv_label = [], cv_content = ''doc''\<rparr>], cs_injected = False\<rparr>"

definition anyone :: caller where
  "anyone = \<lparr>ca_orgID = ''o'', ca_userID = ''u'', ca_displayName = [], ca_sessionID = []\<rparr>"

lemma guarded_calls:
  "length (fst (snd (ChatCompletion guarded_env guarded_conv eager_client anyone (Some one_value) eager_options))) = 1"
  by (simp add: ChatCompletion_def prefetchConversationTools_def takeInjection_def one_value_def guarded_conv_def conversationBlock_def
      trim_space_def inspectToolResult_def Always_def ToolLoopChatCompletion_def eager_client_def NewToolLoopClient_def guarded_env_def
      eval_nat_numeral Let_def)

theorem model_sees_inspected_witness:
  "\<exists>text. rounds_on guarded_env eager_client 0 (injectPrefetched (co_messages eager_options) text)
      (co_messages (fst (snd (ChatCompletion guarded_env guarded_conv eager_client anyone (Some one_value) eager_options)) ! 0)) \<and>
    (text = [] \<or>
      (\<exists>conv blocks. Some one_value = Some conv \<and> \<not> cs_injected conv \<and> text = join_blocks blocks \<and>
         list_all (passed_block guarded_conv anyone conv (co_messages eager_options)) blocks))"
proof -
  obtain conversation' calls r where run:
      "ChatCompletion guarded_env guarded_conv eager_client anyone (Some one_value) eager_options = (conversation', calls, r)"
    by (metis surj_pair)
  then have "0 < length calls" using guarded_calls by simp
  from model_sees_inspected [OF run this] show ?thesis using run by simp
qed

end
