(* ===== verification/Plugin_Node.thy ===== *)
theory Plugin_Node
  imports Conversation Model_Executor Pipeline_Engine_Safety "HOL-Library.List_Lexorder" "HOL-Library.Char_ord"
begin

text \<open>
  The plugin nodes of a pipeline: \<open>src/internal/pipeline/plugin_executor.go\<close>, the inputs they are sent
  (\<open>value_context.go\<close>, \<open>executor.go\<close>), what the SDK restores of them on the plugin's side (\<open>src/pkg/pluginsdk/request.go\<close>),
  and the manager that restarts plugins (\<open>src/internal/plugin/manager.go\<close>).

  A plugin is the answers of its process, \<open>plugin_proc\<close>: any function of what it is sent.  \<open>plugin_env\<close> holds the JSON codec
  of the inputs and what the context of the request gives besides \<open>exec_context\<close>: the session, the quota, the models.
\<close>

section \<open>What a plugin is sent\<close>

record request_ctx =
  rq_secretScope :: string
  rq_orgID :: string
  rq_userID :: string
  rq_tokenID :: string
  rq_displayName :: string
  rq_configJSON :: string
  rq_nodeID :: string
  rq_teamID :: string
  rq_teamSlug :: string
  rq_sessionID :: string

record pre_request_input =
  pi_ctx :: request_ctx
  pi_model :: string
  pi_messagesJSON :: string
  pi_inputsJSON :: string
  pi_requestPorts :: "string list"
  pi_messagesPorts :: "string list"
  pi_quota :: "string option"

record pre_request_output =
  po_allowed :: bool
  po_reason :: string
  po_nodeState :: string
  po_outputsJSON :: string
  po_messagesJSON :: string
  po_noResponseRewrite :: bool

record resolve_input =
  ri_ctx :: request_ctx
  ri_requestedModel :: string
  ri_messagesJSON :: string
  ri_bodyJSON :: string
  ri_quota :: "string option"

record resolve_output =
  ro_content :: string
  ro_proxyName :: string

record tool_descriptor =
  tp_name :: string
  tp_description :: string
  tp_schema :: string

record tool_conversation =
  tv_tool :: string
  tv_arguments :: string
  tv_resultTemplate :: string
  tv_label :: string

record tools_output =
  to_tools :: "tool_descriptor list"
  to_conversation :: "tool_conversation list"
  to_values :: "conversation_value list"
  to_maxConsecutive :: int

record call_output =
  ko_isError :: bool
  ko_text :: string

datatype capability = PRE_REQUEST | POST_RESPONSE | RESOLVE_MODEL | LIST_MODELS | TOOL_PROVIDER | TOOL_RESULT_INSPECTOR

record 'e plugin_proc =
  pp_capabilities :: "capability list"
  pp_preRequest :: "pre_request_input \<Rightarrow> ('e, pre_request_output) result"
  pp_resolveModel :: "resolve_input \<Rightarrow> ('e, resolve_output) result"
  pp_listTools :: "request_ctx \<Rightarrow> ('e, tools_output) result"
  pp_callTool :: "request_ctx \<Rightarrow> string \<Rightarrow> string \<Rightarrow> ('e, call_output) result"
  pp_inspect :: "request_ctx \<Rightarrow> string \<Rightarrow> string \<Rightarrow> ('e, bool \<times> string) result"
  pp_postResponse :: "backward_input \<Rightarrow> int \<Rightarrow> int \<Rightarrow> ('e, backward_result) result"

record plugin_data =
  pd_name :: string
  pd_config :: "string option"

text \<open>
  \<open>pn_marshal\<close> and \<open>pn_unmarshal\<close> are \<open>json.Marshal\<close> and \<open>json.Unmarshal\<close> on maps of port values, the latter giving \<open>Inr None\<close>
  for a null; \<open>pn_messages\<close> is the \<open>messages\<close> field of a body, \<open>None\<close> when the body does not decode or has none; \<open>pn_range\<close> is
  the order in which \<open>range\<close> visits a map.
\<close>

record plugin_env =
  pn_data :: "string \<Rightarrow> plugin_data option"
  pn_marshal :: "inputs \<Rightarrow> string option"
  pn_unmarshal :: "string \<Rightarrow> (string, inputs option) result"
  pn_messages :: "string \<Rightarrow> string option"
  pn_range :: "inputs \<Rightarrow> string list"
  pn_session :: string
  pn_quota :: "string option"

datatype node_data_error = NoPluginData | BadPluginData | NoPluginName

datatype 'e plugin_error =
    InvalidPluginData node_data_error | PluginNotLoaded string
  | PreRequestFailed 'e | ResolveFailed 'e | ListToolsFailed 'e | PostResponseFailed 'e

definition parsePluginNodeData :: "plugin_env \<Rightarrow> pipeline_node \<Rightarrow> (node_data_error, plugin_data) result" where
  "parsePluginNodeData env node =
     (case node_data node of
        None \<Rightarrow> Inl NoPluginData
      | Some d \<Rightarrow>
          (case pn_data env d of
             None \<Rightarrow> Inl BadPluginData
           | Some data \<Rightarrow> if pd_name data = [] then Inl NoPluginName else Inr data))"

definition hasCapability :: "'e plugin_proc \<Rightarrow> capability \<Rightarrow> bool" where
  "hasCapability p cap \<longleftrightarrow> cap \<in> set (pp_capabilities p)"

definition string_input :: "inputs \<Rightarrow> string \<Rightarrow> string" where
  "string_input inputs port = (case inputs port of Some (VString s) \<Rightarrow> s | _ \<Rightarrow> [])"

definition modelFromInputs :: "inputs \<Rightarrow> string" where
  "modelFromInputs inputs = string_input inputs ''model_name''"

definition BodyMessages :: "plugin_env \<Rightarrow> string \<Rightarrow> string" where
  "BodyMessages env body =
     (if body = [] then ''[]'' else case pn_messages env body of None \<Rightarrow> ''[]'' | Some m \<Rightarrow> m)"

definition sentMessagesJSON :: "string \<Rightarrow> string \<Rightarrow> string" where
  "sentMessagesJSON messagesJSON bodyMessages =
     (if bodyMessages \<noteq> [] \<and> messagesJSON = bodyMessages then [] else messagesJSON)"

definition InputsJSON :: "plugin_env \<Rightarrow> inputs \<Rightarrow> string" where
  "InputsJSON env inputs =
     (if pn_range env inputs = [] then ''{}'' else case pn_marshal env inputs of None \<Rightarrow> ''{}'' | Some s \<Rightarrow> s)"

fun split_ports :: "inputs \<Rightarrow> string \<Rightarrow> string \<Rightarrow> string list \<Rightarrow> inputs \<times> string list \<times> string list \<Rightarrow> inputs \<times> string list \<times> string list" where
  "split_ports inputs body messages [] acc = acc"
| "split_ports inputs body messages (port # ports) (rest, reqPorts, msgPorts) =
     split_ports inputs body messages ports
       (case inputs port of
          None \<Rightarrow> (rest, reqPorts, msgPorts)
        | Some v \<Rightarrow>
            (case v of
               VString s \<Rightarrow>
                 if s \<noteq> [] \<and> s = body then (rest, reqPorts @ [port], msgPorts)
                 else if s \<noteq> [] \<and> s = messages then (rest, reqPorts, msgPorts @ [port])
                 else (rest(port \<mapsto> v), reqPorts, msgPorts)
             | _ \<Rightarrow> (rest(port \<mapsto> v), reqPorts, msgPorts)))"

definition splitInputs :: "plugin_env \<Rightarrow> inputs \<Rightarrow> string \<Rightarrow> string \<Rightarrow> string \<times> string list \<times> string list" where
  "splitInputs env inputs body messages =
     (case split_ports inputs body messages (pn_range env inputs) (Map.empty, [], []) of
        (rest, reqPorts, msgPorts) \<Rightarrow> (InputsJSON env rest, sort reqPorts, sort msgPorts))"

text \<open>The messages entering a node: those on its port, the ones of the context otherwise.\<close>

definition node_messages :: "exec_context \<Rightarrow> inputs \<Rightarrow> string" where
  "node_messages ec inputs =
     (let m = string_input inputs ''messages_json'' in if m = [] then ec_messagesJSON ec else m)"

definition pre_request_call :: "plugin_env \<Rightarrow> request_ctx \<Rightarrow> inputs \<Rightarrow> exec_context \<Rightarrow> pre_request_input" where
  "pre_request_call env ctx inputs ec =
     (let messages = node_messages ec inputs;
          (body, bodyMessages) = nodeBody (BodyMessages env) ec inputs;
          (inputsJSON, reqPorts, msgPorts) = splitInputs env inputs body messages
      in \<lparr>pi_ctx = ctx, pi_model = body, pi_messagesJSON = sentMessagesJSON messages bodyMessages, pi_inputsJSON = inputsJSON,
          pi_requestPorts = reqPorts, pi_messagesPorts = msgPorts, pi_quota = pn_quota env\<rparr>)"

section \<open>What the SDK restores\<close>

definition PreRequestMessages :: "plugin_env \<Rightarrow> pre_request_input \<Rightarrow> string" where
  "PreRequestMessages env i = (if pi_messagesJSON i \<noteq> [] then pi_messagesJSON i else BodyMessages env (pi_model i))"

definition ResolveModelMessages :: "plugin_env \<Rightarrow> resolve_input \<Rightarrow> string" where
  "ResolveModelMessages env i = (if ri_messagesJSON i \<noteq> [] then ri_messagesJSON i else BodyMessages env (ri_bodyJSON i))"

definition set_ports :: "string list \<Rightarrow> string \<Rightarrow> inputs \<Rightarrow> inputs" where
  "set_ports ports s inputs = fold (\<lambda>port m. m(port \<mapsto> VString s)) ports inputs"

definition PreRequestInputs :: "plugin_env \<Rightarrow> pre_request_input \<Rightarrow> (string, inputs) result" where
  "PreRequestInputs env i =
     rbind (if pi_inputsJSON i = [] then Inr Map.empty
            else rmap (\<lambda>m. case m of None \<Rightarrow> Map.empty | Some m \<Rightarrow> m) (pn_unmarshal env (pi_inputsJSON i)))
       (\<lambda>inputs.
          (let inputs' = set_ports (pi_requestPorts i) (pi_model i) inputs
           in Inr (if pi_messagesPorts i \<noteq> [] then set_ports (pi_messagesPorts i) (PreRequestMessages env i) inputs' else inputs')))"

section \<open>A plugin sees the inputs of its node\<close>

definition carries :: "inputs \<Rightarrow> string \<Rightarrow> string \<Rightarrow> bool" where
  "carries inputs s port \<longleftrightarrow> s \<noteq> [] \<and> inputs port = Some (VString s)"

lemma split_ports_exact:
  "split_ports inputs body messages ports (rest, reqPorts, msgPorts) =
     ((\<lambda>p. if p \<in> set ports \<and> p \<in> dom inputs \<and> \<not> carries inputs body p \<and> \<not> carries inputs messages p then inputs p else rest p),
      reqPorts @ filter (carries inputs body) ports,
      msgPorts @ filter (\<lambda>p. carries inputs messages p \<and> \<not> carries inputs body p) ports)"
proof (induction ports arbitrary: rest reqPorts msgPorts)
  case Nil
  then show ?case by simp
next
  case (Cons p ports)
  show ?case
  proof (cases "inputs p")
    case None
    then show ?thesis by (simp add: Cons.IH carries_def fun_eq_iff) (auto simp: dom_def)
  next
    case (Some v)
    then show ?thesis
      by (cases v) (simp_all add: Cons.IH carries_def fun_eq_iff, auto simp: dom_def)
  qed
qed

lemma set_ports_apply: "set_ports ports s m p = (if p \<in> set ports then Some (VString s) else m p)"
  by (induction ports arbitrary: m) (auto simp: set_ports_def)

lemma set_ports_if: "(if ports \<noteq> [] then set_ports ports s m else m) = set_ports ports s m"
  by (simp add: set_ports_def)

text \<open>What the code relies on: \<open>range\<close> visits the keys of a map, and a map of JSON values survives its encoding.\<close>

definition json_maps :: "plugin_env \<Rightarrow> inputs \<Rightarrow> bool" where
  "json_maps env inputs \<longleftrightarrow>
     pn_unmarshal env ''{}'' = Inr (Some Map.empty) \<and>
     (\<forall>m. m \<subseteq>\<^sub>m inputs \<longrightarrow> set (pn_range env m) = dom m \<and>
        (\<exists>s. pn_marshal env m = Some s \<and> s \<noteq> [] \<and> pn_unmarshal env s = Inr (Some m)))"

lemma InputsJSON_restored:
  assumes "json_maps env inputs" "m \<subseteq>\<^sub>m inputs"
  shows "InputsJSON env m \<noteq> []" and "pn_unmarshal env (InputsJSON env m) = Inr (Some m)"
proof -
  obtain s where s: "set (pn_range env m) = dom m" "pn_marshal env m = Some s" "s \<noteq> []" "pn_unmarshal env s = Inr (Some m)"
    using assms unfolding json_maps_def by blast
  have "pn_range env m = [] \<Longrightarrow> m = Map.empty" using s(1) by (metis dom_eq_empty_conv list.set(1))
  then show "InputsJSON env m \<noteq> []" and "pn_unmarshal env (InputsJSON env m) = Inr (Some m)"
    using s assms(1) by (auto simp: InputsJSON_def json_maps_def)
qed

text \<open>The messages the context holds of its body are those of the body, or unknown.\<close>

definition body_messages_known :: "plugin_env \<Rightarrow> exec_context \<Rightarrow> bool" where
  "body_messages_known env ec \<longleftrightarrow> ec_bodyMessagesJSON ec = [] \<or> ec_bodyMessagesJSON ec = BodyMessages env (ec_bodyJSON ec)"

lemma sent_messages_restored:
  assumes "body_messages_known env ec" and "nodeBody (BodyMessages env) ec inputs = (body, bodyMessages)" and "messages \<noteq> []"
  shows "(if sentMessagesJSON messages bodyMessages \<noteq> [] then sentMessagesJSON messages bodyMessages else BodyMessages env body) = messages"
  using assms by (auto simp: sentMessagesJSON_def nodeBody_def body_messages_known_def Let_def split: if_splits option.splits go_value.splits)

text \<open>
  C25.  Nothing of a node's inputs is lost on the way to its plugin.  The host leaves out of the call the messages and the ports
  that only repeat the body or the messages; what the SDK restores on the plugin's side is every input of the node with its
  value, and the messages entering the node, whichever ports and bodies upstream nodes rewrote.
\<close>

theorem plugin_sees_inputs:
  assumes "json_maps env inputs" and "body_messages_known env ec"
  shows "PreRequestInputs env (pre_request_call env ctx inputs ec) = Inr inputs \<and>
    (node_messages ec inputs \<noteq> [] \<longrightarrow> PreRequestMessages env (pre_request_call env ctx inputs ec) = node_messages ec inputs)"
proof -
  let ?messages = "node_messages ec inputs"
  obtain body bodyMessages where nb: "nodeBody (BodyMessages env) ec inputs = (body, bodyMessages)" by fastforce
  let ?rest = "\<lambda>p. if p \<in> dom inputs \<and> \<not> carries inputs body p \<and> \<not> carries inputs ?messages p then inputs p else None"
  have range: "set (pn_range env inputs) = dom inputs" using assms(1) by (auto simp: json_maps_def)
  have sub: "?rest \<subseteq>\<^sub>m inputs" by (simp add: map_le_def dom_def)
  have split: "splitInputs env inputs body ?messages =
      (InputsJSON env ?rest, sort (filter (carries inputs body) (pn_range env inputs)),
       sort (filter (\<lambda>p. carries inputs ?messages p \<and> \<not> carries inputs body p) (pn_range env inputs)))"
    by (simp add: splitInputs_def split_ports_exact range cong: if_cong)
  note call = pre_request_call_def nb split Let_def
  have messages: "PreRequestMessages env (pre_request_call env ctx inputs ec) = ?messages" if "?messages \<noteq> []"
    using sent_messages_restored [OF assms(2) nb that] by (simp add: PreRequestMessages_def call split: if_splits)
  have "set_ports (pi_messagesPorts (pre_request_call env ctx inputs ec)) (PreRequestMessages env (pre_request_call env ctx inputs ec))
      (set_ports (pi_requestPorts (pre_request_call env ctx inputs ec)) body ?rest) = inputs"
  proof
    fix p
    show "set_ports (pi_messagesPorts (pre_request_call env ctx inputs ec)) (PreRequestMessages env (pre_request_call env ctx inputs ec))
        (set_ports (pi_requestPorts (pre_request_call env ctx inputs ec)) body ?rest) p = inputs p"
      using messages range by (auto simp: set_ports_apply call carries_def dom_def)
  qed
  then have "PreRequestInputs env (pre_request_call env ctx inputs ec) = Inr inputs"
    using InputsJSON_restored [OF assms(1) sub] by (simp only: PreRequestInputs_def Let_def set_ports_if) (simp add: call)
  then show ?thesis using messages by blast
qed

definition one_port :: inputs where
  "one_port = [''request'' \<mapsto> VString ''body'']"

definition demo_plugin_env :: plugin_env where
  "demo_plugin_env =
     \<lparr>pn_data = \<lambda>d. Some \<lparr>pd_name = d, pd_config = None\<rparr>,
      pn_marshal = \<lambda>m. Some (if m ''request'' = None then ''{}'' else ''R''),
      pn_unmarshal = \<lambda>s. if s = ''{}'' then Inr (Some Map.empty) else Inr (Some one_port),
      pn_messages = \<lambda>_. Some ''[hello]'', pn_range = \<lambda>m. if m ''request'' = None then [] else [''request''],
      pn_session = [], pn_quota = None\<rparr>"

definition plugin_ec :: exec_context where
  "plugin_ec =
     \<lparr>ec_orgID = ''org'', ec_orgSlug = ''acme'', ec_userID = ''u'', ec_tokenID = [], ec_displayName = [], ec_teamID = [], ec_teamSlug = [],
      ec_requestedModel = [], ec_targetModelName = [], ec_delegated = {}, ec_bodyJSON = ''body'', ec_messagesJSON = ''[hello]'',
      ec_bodyMessagesJSON = ''[hello]'', ec_secretScope = ''org'', ec_visitedVMs = {}, ec_forcePassthrough = False, ec_pending = []\<rparr>"

definition demo_ctx :: request_ctx where
  "demo_ctx =
     \<lparr>rq_secretScope = ''org'', rq_orgID = ''org'', rq_userID = ''u'', rq_tokenID = [], rq_displayName = [], rq_configJSON = ''{}'',
      rq_nodeID = ''n'', rq_teamID = [], rq_teamSlug = [], rq_sessionID = []\<rparr>"

lemma one_port_submaps: "m \<subseteq>\<^sub>m one_port \<longleftrightarrow> m = Map.empty \<or> m = one_port"
proof
  assume sub: "m \<subseteq>\<^sub>m one_port"
  then have "dom m \<subseteq> {''request''}" using map_le_implies_dom_le [of m one_port] by (simp add: one_port_def)
  then have off: "p \<noteq> ''request'' \<Longrightarrow> m p = None" for p by blast
  show "m = Map.empty \<or> m = one_port"
  proof (cases "m ''request''")
    case None
    then have "m p = None" for p using off by (cases "p = ''request''") simp_all
    then show ?thesis by blast
  next
    case (Some v)
    then have "m ''request'' = one_port ''request''" using sub unfolding map_le_def by (metis domI)
    moreover have "m p = one_port p" if "p \<noteq> ''request''" for p using off [OF that] that by (simp add: one_port_def)
    ultimately have "m p = one_port p" for p by (cases "p = ''request''") simp_all
    then have "m = one_port" by (rule ext)
    then show ?thesis ..
  qed
qed (auto simp: map_le_def)

theorem plugin_sees_inputs_witness:
  "PreRequestInputs demo_plugin_env (pre_request_call demo_plugin_env demo_ctx one_port plugin_ec) = Inr one_port \<and>
   PreRequestMessages demo_plugin_env (pre_request_call demo_plugin_env demo_ctx one_port plugin_ec) = ''[hello]''"
proof -
  have "json_maps demo_plugin_env one_port"
    by (auto simp: json_maps_def one_port_submaps demo_plugin_env_def) (auto simp: one_port_def split: if_splits)
  moreover have "body_messages_known demo_plugin_env plugin_ec"
    by (simp add: body_messages_known_def plugin_ec_def BodyMessages_def demo_plugin_env_def)
  moreover have "node_messages plugin_ec one_port = ''[hello]''"
    by (simp add: node_messages_def one_port_def string_input_def plugin_ec_def)
  ultimately show ?thesis using plugin_sees_inputs [of demo_plugin_env one_port plugin_ec demo_ctx] by simp
qed

section \<open>The executor\<close>

definition request_ctx_of :: "plugin_env \<Rightarrow> exec_context \<Rightarrow> pipeline_node \<Rightarrow> plugin_data \<Rightarrow> request_ctx" where
  "request_ctx_of env ec node data =
     \<lparr>rq_secretScope = ec_secretScope ec, rq_orgID = ec_orgID ec, rq_userID = ec_userID ec, rq_tokenID = ec_tokenID ec,
      rq_displayName = ec_displayName ec, rq_configJSON = (case pd_config data of None \<Rightarrow> ''{}'' | Some c \<Rightarrow> c),
      rq_nodeID = node_id node, rq_teamID = ec_teamID ec, rq_teamSlug = ec_teamSlug ec, rq_sessionID = pn_session env\<rparr>"

text \<open>
  What the forward pass shares by pointer: the inspectors and the conversation tools of the execution, \<open>None\<close> for a nil set.
  \<open>client_env\<close> builds clients: the short circuit of a resolved answer and the tool loop around a client, which reads the shared
  sets when it is called and not when it is built; \<open>cl_context\<close> is the request context as the engine stores it.
\<close>

record 'e plugin_shared =
  ps_inspectors :: "'e inspector list option"
  ps_conversation :: "conversation_tools option"

record ('c, 't) client_env =
  cl_dummy :: "string \<Rightarrow> 'c"
  cl_tool :: "request_ctx \<Rightarrow> tool_descriptor \<Rightarrow> 't"
  cl_loop :: "tool_loop_client \<Rightarrow> 'c \<Rightarrow> 'c"
  cl_context :: "request_ctx \<Rightarrow> string"

definition ParseOutputsJSON :: "plugin_env \<Rightarrow> string \<Rightarrow> inputs option" where
  "ParseOutputsJSON env s =
     (if s = [] \<or> s = ''{}'' then None else case pn_unmarshal env s of Inl _ \<Rightarrow> None | Inr m \<Rightarrow> m)"

definition forwardPreRequest :: "plugin_env \<Rightarrow> 'e plugin_proc \<Rightarrow> request_ctx \<Rightarrow> inputs \<Rightarrow> exec_context
    \<Rightarrow> ('e plugin_error, ('c, 't) forward_result) result" where
  "forwardPreRequest env p ctx inputs ec =
     (case pp_preRequest p (pre_request_call env ctx inputs ec) of
        Inl e \<Rightarrow> Inl (PreRequestFailed e)
      | Inr out \<Rightarrow>
          if \<not> po_allowed out then Inr ((plain_result Map.empty)\<lparr>fr_rejected := True, fr_reason := po_reason out\<rparr>)
          else
            (let outs = (case ParseOutputsJSON env (po_outputsJSON out) of None \<Rightarrow> Map.empty | Some m \<Rightarrow> m);
                 outs' = (if po_messagesJSON out \<noteq> [] then outs(''messages_json'' \<mapsto> VString (po_messagesJSON out)) else outs)
             in Inr ((plain_result outs')\<lparr>fr_state := po_nodeState out, fr_noResponseRewrite := po_noResponseRewrite out\<rparr>)))"

definition resolve_call :: "plugin_env \<Rightarrow> request_ctx \<Rightarrow> inputs \<Rightarrow> exec_context \<Rightarrow> resolve_input" where
  "resolve_call env ctx inputs ec =
     (let (body, bodyMessages) = nodeBody (BodyMessages env) ec inputs
      in \<lparr>ri_ctx = ctx, ri_requestedModel = modelFromInputs inputs,
          ri_messagesJSON = sentMessagesJSON (node_messages ec inputs) bodyMessages, ri_bodyJSON = body, ri_quota = pn_quota env\<rparr>)"

definition forwardResolveModel :: "plugin_env \<Rightarrow> ('c, 't) client_env \<Rightarrow> 'e plugin_proc \<Rightarrow> request_ctx \<Rightarrow> inputs \<Rightarrow> exec_context
    \<Rightarrow> ('e plugin_error, ('c, 't) forward_result) result" where
  "forwardResolveModel env cl p ctx inputs ec =
     (case pp_resolveModel p (resolve_call env ctx inputs ec) of
        Inl e \<Rightarrow> Inl (ResolveFailed e)
      | Inr out \<Rightarrow>
          if ro_content out \<noteq> []
          then Inr ((plain_result [''response'' \<mapsto> VString (ro_content out)])
                 \<lparr>fr_client := Some (cl_dummy cl (ro_content out)), fr_model := ''dummy''\<rparr>)
          else Inr (plain_result (if ro_proxyName out \<noteq> [] then [''model_name'' \<mapsto> VString (ro_proxyName out)] else Map.empty)))"

definition registerConversationTools :: "tool_conversation list \<Rightarrow> string list \<Rightarrow> conversation_tools \<Rightarrow> conversation_tools" where
  "registerConversationTools declared names c =
     fold (\<lambda>tv c. if tv_tool tv \<notin> set names then c
        else c\<lparr>cs_tools := Register (cs_tools c)
               [\<lparr>ct_tool = Some (tv_tool tv), ct_trigger = ToolTriggerAlways, ct_arguments = tv_arguments tv,
                 ct_resultTemplate = tv_resultTemplate tv, ct_label = tv_label tv\<rparr>]\<rparr>) declared c"

definition registerConversationValues :: "conversation_value list \<Rightarrow> conversation_tools \<Rightarrow> conversation_tools" where
  "registerConversationValues vs c = c\<lparr>cs_values := cs_values c @ vs\<rparr>"

definition forwardToolProvider :: "('c, 't) client_env \<Rightarrow> 'e plugin_proc \<Rightarrow> request_ctx \<Rightarrow> inputs \<Rightarrow> 'e plugin_shared
    \<Rightarrow> 'e plugin_shared \<times> ('e plugin_error, ('c, 't) forward_result) result" where
  "forwardToolProvider cl p ctx inputs sh =
     (case pp_listTools p ctx of
        Inl e \<Rightarrow> (sh, Inl (ListToolsFailed e))
      | Inr out \<Rightarrow>
          (let names = map tp_name (to_tools out);
               sh' = sh\<lparr>ps_conversation :=
                 map_option (\<lambda>c. registerConversationValues (to_values out) (registerConversationTools (to_conversation out) names c))
                   (ps_conversation sh)\<rparr>;
               loop = NewToolLoopClient names 0 (to_maxConsecutive out)
           in (sh', Inr ((plain_result inputs)\<lparr>fr_tools := map (cl_tool cl ctx) (to_tools out),
                 fr_decorator := Some (cl_loop cl loop)\<rparr>))))"

definition register_inspector :: "'e plugin_proc \<Rightarrow> request_ctx \<Rightarrow> 'e plugin_shared \<Rightarrow> 'e plugin_shared" where
  "register_inspector p ctx sh =
     (if hasCapability p TOOL_RESULT_INSPECTOR
      then sh\<lparr>ps_inspectors := map_option (\<lambda>is. is @ [pp_inspect p ctx]) (ps_inspectors sh)\<rparr> else sh)"

text \<open>The provider, \<open>GetOrRestart\<close>, is asked when the node runs.\<close>

definition PluginForward :: "plugin_env \<Rightarrow> ('c, 't) client_env \<Rightarrow> (string \<Rightarrow> 'e plugin_proc option) \<Rightarrow> pipeline_node \<Rightarrow> inputs
    \<Rightarrow> exec_context \<Rightarrow> 'e plugin_shared \<Rightarrow> 'e plugin_shared \<times> ('e plugin_error, ('c, 't) forward_result) result" where
  "PluginForward env cl provider node inputs ec sh =
     (case parsePluginNodeData env node of
        Inl e \<Rightarrow> (sh, Inl (InvalidPluginData e))
      | Inr data \<Rightarrow>
          (case provider (pd_name data) of
             None \<Rightarrow> (sh, Inl (PluginNotLoaded (pd_name data)))
           | Some p \<Rightarrow>
               (let ctx = request_ctx_of env ec node data;
                    sh' = register_inspector p ctx sh;
                    (sh'', r) =
                      (if hasCapability p PRE_REQUEST then (sh', forwardPreRequest env p ctx inputs ec)
                       else if hasCapability p RESOLVE_MODEL then (sh', forwardResolveModel env cl p ctx inputs ec)
                       else if hasCapability p TOOL_PROVIDER then forwardToolProvider cl p ctx inputs sh'
                       else (sh', Inr (plain_result inputs)))
                in (sh'', rmap (\<lambda>fr. fr\<lparr>fr_pluginContext := cl_context cl ctx\<rparr>) r))))"

text \<open>\<open>late\<close> says whether the context of the pass has passed its deadline when the plugin fails.\<close>

definition PluginBackward :: "plugin_env \<Rightarrow> (string \<Rightarrow> 'e plugin_proc option) \<Rightarrow> bool \<Rightarrow> backward_input \<Rightarrow> ('e plugin_error, backward_result) result" where
  "PluginBackward env provider late i =
     (case parsePluginNodeData env (bi_node i) of
        Inl _ \<Rightarrow> noopBackward i
      | Inr data \<Rightarrow>
          (case provider (pd_name data) of
             None \<Rightarrow> noopBackward i
           | Some p \<Rightarrow>
               if \<not> hasCapability p POST_RESPONSE then noopBackward i
               else
                 (let (prompt, completion) = (case bi_tokens i of None \<Rightarrow> (0, 0) | Some t \<Rightarrow> t)
                  in case pp_postResponse p i prompt completion of
                       Inl e \<Rightarrow> if late then Inl (PostResponseFailed e) else noopBackward i
                     | Inr out \<Rightarrow> Inr out)))"

definition ModifiesResponse :: "plugin_env \<Rightarrow> (string \<Rightarrow> 'e plugin_proc option) \<Rightarrow> pipeline_node \<Rightarrow> bool" where
  "ModifiesResponse env provider node =
     (case parsePluginNodeData env node of
        Inl _ \<Rightarrow> False
      | Inr data \<Rightarrow> (case provider (pd_name data) of None \<Rightarrow> False | Some p \<Rightarrow> hasCapability p POST_RESPONSE))"

definition plugin_executor :: "plugin_env \<Rightarrow> ('c, 't) client_env \<Rightarrow> (string \<Rightarrow> 'e plugin_proc option) \<Rightarrow> 'e plugin_shared \<Rightarrow> bool
    \<Rightarrow> ('c, 't, 'e plugin_error) executor" where
  "plugin_executor env cl provider sh late =
     \<lparr>ex_forward = \<lambda>node inputs ec. snd (PluginForward env cl provider node inputs ec sh),
      ex_backward = PluginBackward env provider late, ex_modifies = Some (ModifiesResponse env provider)\<rparr>"

text \<open>While the provider gives the same plugins to both passes, a plugin node honours the contract that streaming relies on.\<close>

interpretation plugin_quiet: quiet_executor "plugin_executor env cl provider sh late"
  by unfold_locales
    (auto simp: plugin_executor_def ModifiesResponse_def PluginBackward_def noopBackward_def split: sum.splits option.splits)

section \<open>The inspectors of an execution\<close>

text \<open>The plugin nodes of an execution, each with its inputs, in the order they run.\<close>

definition run_plugins :: "plugin_env \<Rightarrow> ('c, 't) client_env \<Rightarrow> (string \<Rightarrow> 'e plugin_proc option) \<Rightarrow> exec_context
    \<Rightarrow> (pipeline_node \<times> inputs) list \<Rightarrow> 'e plugin_shared \<Rightarrow> 'e plugin_shared" where
  "run_plugins env cl provider ec calls sh = fold (\<lambda>(node, inputs) sh. fst (PluginForward env cl provider node inputs ec sh)) calls sh"

lemma register_conversation_inspectors: "ps_inspectors (fst (forwardToolProvider cl p ctx inputs sh)) = ps_inspectors sh"
  by (simp add: forwardToolProvider_def Let_def split: sum.splits)

lemma PluginForward_inspectors:
  "ps_inspectors (fst (PluginForward env cl provider node inputs ec sh)) =
     (case parsePluginNodeData env node of
        Inl _ \<Rightarrow> ps_inspectors sh
      | Inr data \<Rightarrow>
          (case provider (pd_name data) of
             None \<Rightarrow> ps_inspectors sh
           | Some p \<Rightarrow> ps_inspectors (register_inspector p (request_ctx_of env ec node data) sh)))"
proof (cases "parsePluginNodeData env node")
  case (Inr data)
  show ?thesis
  proof (cases "provider (pd_name data)")
    case (Some p)
    then show ?thesis
      using Inr register_conversation_inspectors [of cl p "request_ctx_of env ec node data" inputs]
      by (simp add: PluginForward_def Let_def split: prod.splits) (metis fst_conv)
  qed (simp add: PluginForward_def Inr)
qed (simp add: PluginForward_def)

lemma PluginForward_keeps:
  assumes "ps_inspectors sh = Some is" "i \<in> set is"
  shows "\<exists>is'. ps_inspectors (fst (PluginForward env cl provider node inputs ec sh)) = Some is' \<and> i \<in> set is'"
  using assms by (auto simp: PluginForward_inspectors register_inspector_def split: sum.splits option.splits)

lemma run_plugins_keeps:
  "ps_inspectors sh = Some is \<Longrightarrow> i \<in> set is \<Longrightarrow> \<exists>is'. ps_inspectors (run_plugins env cl provider ec calls sh) = Some is' \<and> i \<in> set is'"
proof (induction calls arbitrary: sh "is")
  case (Cons call calls)
  obtain node inputs where "call = (node, inputs)" by fastforce
  then show ?case using PluginForward_keeps [OF Cons.prems, of env cl provider node inputs ec] Cons.IH
    by (auto simp: run_plugins_def)
qed (simp add: run_plugins_def)

lemma run_plugins_registers:
  assumes "ps_inspectors sh \<noteq> None" and "(node, inputs) \<in> set calls"
    and "parsePluginNodeData env node = Inr data"
    and "provider (pd_name data) = Some p" and "hasCapability p TOOL_RESULT_INSPECTOR"
  shows "\<exists>is'. ps_inspectors (run_plugins env cl provider ec calls sh) = Some is' \<and> pp_inspect p (request_ctx_of env ec node data) \<in> set is'"
  using assms(1,2)
proof (induction calls arbitrary: sh)
  case (Cons call calls)
  obtain node' inputs' where call: "call = (node', inputs')" by fastforce
  let ?sh = "fst (PluginForward env cl provider node' inputs' ec sh)"
  have run: "run_plugins env cl provider ec (call # calls) sh = run_plugins env cl provider ec calls ?sh"
    by (simp add: run_plugins_def call)
  show ?case
  proof (cases "(node, inputs) = call")
    case True
    then have "\<exists>is. ps_inspectors ?sh = Some is \<and> pp_inspect p (request_ctx_of env ec node data) \<in> set is"
      using Cons.prems(1) assms(3-5) call by (auto simp: PluginForward_inspectors register_inspector_def)
    then show ?thesis using run run_plugins_keeps [of ?sh] by metis
  next
    case False
    moreover have "ps_inspectors ?sh \<noteq> None"
      using Cons.prems(1) by (auto simp: PluginForward_inspectors register_inspector_def split: sum.splits option.splits)
    ultimately show ?thesis using run Cons.IH [of ?sh] Cons.prems(2) by auto
  qed
qed simp

lemma Inspect_blocks: "i \<in> set is \<Longrightarrow> i name content = Inr (True, reason) \<Longrightarrow> \<exists>reason'. Inspect is name content = Some reason'"
  by (induction "is") (auto split: sum.splits prod.splits)

text \<open>
  A plugin that inspects tool results guards every tool result of its execution.  Whatever the order of the nodes, even when
  the node that provides the tools runs before the one that inspects, and whatever the other nodes do, a result the plugin
  of an executed node blocks is blocked by the set the tool loop reads.
\<close>

theorem inspector_guards_execution:
  assumes "ps_inspectors sh \<noteq> None" and "(node, inputs) \<in> set calls"
    and "parsePluginNodeData env node = Inr data"
    and "provider (pd_name data) = Some p" and "hasCapability p TOOL_RESULT_INSPECTOR"
    and "pp_inspect p (request_ctx_of env ec node data) name content = Inr (True, reason)" and "content \<noteq> []"
  shows "\<exists>reason'. inspectToolResult (ps_inspectors (run_plugins env cl provider ec calls sh)) name content = Some reason'"
  using run_plugins_registers [where provider = provider and cl = cl and ec = ec, OF assms(1-5)] Inspect_blocks [where i = "pp_inspect p (request_ctx_of env ec node data)", OF _ assms(6)] assms(7)
  by (auto simp: inspectToolResult_def)

definition silent_plugin :: "unit plugin_proc" where
  "silent_plugin =
     \<lparr>pp_capabilities = [], pp_preRequest = \<lambda>_. Inl (), pp_resolveModel = \<lambda>_. Inl (), pp_listTools = \<lambda>_. Inl (),
      pp_callTool = \<lambda>_ _ _. Inl (), pp_inspect = \<lambda>_ _ _. Inl (), pp_postResponse = \<lambda>_ _ _. Inl ()\<rparr>"

definition guard_plugin :: "unit plugin_proc" where
  "guard_plugin = silent_plugin\<lparr>pp_capabilities := [TOOL_RESULT_INSPECTOR], pp_inspect := \<lambda>_ _ content. Inr (content = ''attack'', ''injection'')\<rparr>"

definition plugin_node :: "string \<Rightarrow> pipeline_node" where
  "plugin_node name = \<lparr>node_id = name, node_type = NodeTypePlugin, node_data = Some name\<rparr>"

definition unit_clients :: "(unit, unit) client_env" where
  "unit_clients = \<lparr>cl_dummy = \<lambda>_. (), cl_tool = \<lambda>_ _. (), cl_loop = \<lambda>_ c. c, cl_context = \<lambda>_. []\<rparr>"

theorem inspector_guards_execution_witness:
  "\<exists>reason'. inspectToolResult (ps_inspectors (run_plugins demo_plugin_env unit_clients (\<lambda>_. Some guard_plugin) plugin_ec
     [(plugin_node ''tools'', Map.empty), (plugin_node ''guard'', Map.empty)] \<lparr>ps_inspectors = Some [], ps_conversation = None\<rparr>))
     ''search'' ''attack'' = Some reason'"
  by (rule inspector_guards_execution [where node = "plugin_node ''guard''" and inputs = Map.empty and p = guard_plugin
        and data = "\<lparr>pd_name = ''guard'', pd_config = None\<rparr>" and reason = "''injection''"])
    (simp_all add: parsePluginNodeData_def plugin_node_def demo_plugin_env_def hasCapability_def guard_plugin_def silent_plugin_def)

text \<open>The messages a resolver restores are the ones entering its node too.\<close>

theorem resolver_sees_messages:
  assumes "body_messages_known env ec" and "node_messages ec inputs \<noteq> []"
  shows "ResolveModelMessages env (resolve_call env ctx inputs ec) = node_messages ec inputs"
proof -
  obtain body bodyMessages where nb: "nodeBody (BodyMessages env) ec inputs = (body, bodyMessages)" by fastforce
  then show ?thesis using sent_messages_restored [OF assms(1) nb assms(2)]
    by (simp add: ResolveModelMessages_def resolve_call_def split: if_splits)
qed

end
