(* ===== verification/Pipeline_Registry.thy ===== *)
theory Pipeline_Registry
  imports Request_Access Model_Fallback Plugin_Node
begin

text \<open>
  The executors the proxy wires into its pipeline engine (\<open>NewPipelineHookAdapter\<close> of
  \<open>src/internal/adapter/proxy/plugin_hook_adapter.go\<close>): the built-in nodes, the trace node (\<open>trace_executor.go\<close>), the fallback
  node and the plugin node beside the model node, and the real models the client of an execution may call.

  The clients of a pipeline are those of the router, the fixed answer of a plugin, a tool loop around a client and the
  chain of a fallback node.  The event a trace node emits is left out.
\<close>

section \<open>The real models a client may call\<close>

datatype 'b pipe_client =
    RealClient 'b string string
  | DummyClient string
  | LoopClient tool_loop_client "'b pipe_client"
  | FallbackClient exec_context "string list" "('b pipe_client \<times> string \<times> string) list"

abbreviation candidate_of :: "'c \<times> string \<times> string \<Rightarrow> 'c resolved_candidate" where
  "candidate_of \<equiv> (\<lambda>(c, m, i). \<lparr>rc_client = c, rc_realModel = m, rc_modelID = i\<rparr>)"

definition candidate_resolver :: "('c, 'e) model_env \<Rightarrow> exec_context \<Rightarrow> ('c, ('e, 'e) resolve_error) resolver" where
  "candidate_resolver env ec = fallback_resolve (me_access env) (\<lambda>org name. rmap candidate_of (me_resolver env org name)) ec"

definition fallback_of :: "string list \<Rightarrow> ('c \<times> string \<times> string) list \<Rightarrow> 'c fallback_client" where
  "fallback_of names resolved = \<lparr>fb_candidates = names, fb_resolved = map candidate_of resolved, fb_used = None\<rparr>"

text \<open>
  A fallback client calls what \<open>candidate\<close> gives it, whichever candidates it resolves on the way.
\<close>

fun models_of :: "('b pipe_client, 'e) model_env \<Rightarrow> 'b pipe_client \<Rightarrow> (string \<times> string) set" where
  "models_of env (RealClient b m i) = {(m, i)}"
| "models_of env (DummyClient answer) = {}"
| "models_of env (LoopClient loop c) = models_of env c"
| "models_of env (FallbackClient ec names resolved) =
     {(rc_realModel rc, rc_modelID rc) |rc k. k < length names \<and> snd (candidate (candidate_resolver env ec) (fallback_of names resolved) k) = Inr rc}"

section \<open>Whose models an execution may call\<close>

text \<open>Where the client of a run comes from, with the decorators of the nodes that ran before it.\<close>

definition node_gave :: "('c, 't, 'e) registry \<Rightarrow> exec_context \<Rightarrow> ('c, 't) forward_result \<Rightarrow> bool" where
  "node_gave reg ec r \<longleftrightarrow> (\<exists>node ex ins m. reg (node_type node) = Some ex \<and> ex_forward ex node ins (ec\<lparr>ec_messagesJSON := m\<rparr>) = Inr r)"

lemma run_nodes_decorated:
  "run_nodes reg g ec st order = Inr fe \<Longrightarrow> \<forall>d \<in> set (fs_decorators st). \<exists>r. node_gave reg ec r \<and> fr_decorator r = Some d \<Longrightarrow>
   \<exists>r c ds. node_gave reg ec r \<and> fr_client r = Some c \<and> fe_client fe = fold (\<lambda>f c. f c) ds c \<and>
     (\<forall>d \<in> set ds. \<exists>r. node_gave reg ec r \<and> fr_decorator r = Some d)"
proof (induction reg g ec st order rule: run_nodes.induct)
  case (2 reg g ec st nid rest)
  show ?case
  proof (cases "nodeByID g nid")
    case None
    with 2 show ?thesis by simp
  next
    case (Some node)
    let ?r = "\<lambda>ex. ex_forward ex node (ResolveInputs (fs_vc st) g (node_id node)) (ec\<lparr>ec_messagesJSON := fs_messages st\<rparr>)"
    obtain ex res where ex: "reg (node_type node) = Some ex" and res: "?r ex = Inr res" and ok: "\<not> fr_rejected res"
      using "2.prems"(1) Some by (auto split: option.splits sum.splits if_splits)
    have gave: "node_gave reg ec res" using ex res unfolding node_gave_def by blast
    have ds: "\<forall>d \<in> set (fs_decorators (after_node node res st)). \<exists>r. node_gave reg ec r \<and> fr_decorator r = Some d"
      using "2.prems"(2) gave by (auto simp: after_node_def split: option.splits)
    show ?thesis
    proof (cases "fr_client res")
      case None
      then have "run_nodes reg g ec (after_node node res st) rest = Inr fe"
        using "2.prems"(1) Some ex res ok by (simp add: Let_def)
      then show ?thesis using "2.IH"(2) [OF Some ex res ok refl None _ ds] by blast
    next
      case c: (Some c)
      then have "fe_client fe = fold (\<lambda>f c. f c) (fs_decorators (after_node node res st)) c"
        using "2.prems"(1) Some ex res ok by (auto simp: Let_def split: if_splits)
      with c gave ds show ?thesis by blast
    qed
  qed
qed simp

lemma RunForward_decorated:
  assumes "RunForward reg g ec = Inr fe"
  obtains r c ds where "node_gave reg ec r" "fr_client r = Some c" "fe_client fe = fold (\<lambda>f c. f c) ds c"
    "\<forall>d \<in> set ds. \<exists>r. node_gave reg ec r \<and> fr_decorator r = Some d"
proof -
  obtain order where "run_nodes reg g ec (forward_start g ec) order = Inr fe"
    using assms by (auto simp: RunForward_def split: sum.splits option.splits)
  from run_nodes_decorated [OF this] that show ?thesis by (auto simp: forward_start_def)
qed

text \<open>
  The contract of the executors beside the model node: the clients they hand out call only models reached by a name that was
  checked, and the decorators they add call no other model than the client they wrap.
\<close>

locale accounted_clients =
  fixes models :: "'c \<Rightarrow> (string \<times> string) set" and env :: "('c, 'e) model_env" and reg :: "('c, 't, 'e model_error) registry"
  assumes resolved: "me_resolver env org name = Inr (c, m, i) \<Longrightarrow> models c \<subseteq> {(m, i)}"
    and decorated: "t \<noteq> NodeTypeModel \<Longrightarrow> reg t = Some ex \<Longrightarrow> ex_forward ex node ins ec = Inr r \<Longrightarrow> fr_decorator r = Some d \<Longrightarrow>
      models (d c) \<subseteq> models c"
    and handed: "t \<noteq> NodeTypeModel \<Longrightarrow> reg t = Some ex \<Longrightarrow> ex_forward ex node ins ec = Inr r \<Longrightarrow> fr_client r = Some c \<Longrightarrow>
      (m, i) \<in> models c \<Longrightarrow> reaches env ec m i"
begin

definition calls_reach :: "exec_context \<Rightarrow> 'c \<Rightarrow> bool" where
  "calls_reach ec c \<longleftrightarrow> (\<forall>(m, i) \<in> models c. reaches env ec m i)"

lemma calls_reach_below: "descends env ec ec' \<Longrightarrow> calls_reach ec' c \<Longrightarrow> calls_reach ec c"
  unfolding calls_reach_def using reaches_below by fast

lemma decorators_keep: "(\<And>d c. d \<in> set ds \<Longrightarrow> models (d c) \<subseteq> models c) \<Longrightarrow> models (fold (\<lambda>f c. f c) ds c) \<subseteq> models c"
proof (induction ds arbitrary: c)
  case (Cons d ds)
  then have "models (fold (\<lambda>f c. f c) ds (d c)) \<subseteq> models (d c)" by simp
  also have "\<dots> \<subseteq> models c" using Cons.prems by simp
  finally show ?case by simp
qed simp

text \<open>A run of the engine with a model node that hands out accounted clients and adds no decorator.\<close>

definition accounted_node :: "(pipeline_node \<Rightarrow> inputs \<Rightarrow> exec_context \<Rightarrow> ('e model_error, ('c, 't) forward_result) result) \<Rightarrow> bool" where
  "accounted_node fwd \<longleftrightarrow> (\<forall>node ins ec r. fwd node ins ec = Inr r \<longrightarrow>
     fr_decorator r = None \<and> (\<forall>c. fr_client r = Some c \<longrightarrow> calls_reach ec c))"

lemma run_accounted:
  assumes "RunForward (reg(NodeTypeModel \<mapsto> model_executor fwd)) g ec = Inr fe" "accounted_node fwd"
  shows "calls_reach ec (fe_client fe)"
proof -
  let ?reg = "reg(NodeTypeModel \<mapsto> model_executor fwd)"
  obtain r c ds where r: "node_gave ?reg ec r" "fr_client r = Some c" "fe_client fe = fold (\<lambda>f c. f c) ds c"
      "\<forall>d \<in> set ds. \<exists>r. node_gave ?reg ec r \<and> fr_decorator r = Some d"
    using RunForward_decorated [OF assms(1)] .
  have d: "models (d x) \<subseteq> models x" if d: "node_gave ?reg ec r'" "fr_decorator r' = Some d" for r' d x
  proof -
    obtain node ex ins ms where n: "?reg (node_type node) = Some ex" "ex_forward ex node ins (ec\<lparr>ec_messagesJSON := ms\<rparr>) = Inr r'"
      using d(1) unfolding node_gave_def by blast
    show ?thesis
    proof (cases "node_type node = NodeTypeModel")
      case True
      then show ?thesis using n d(2) assms(2) by (auto simp: model_executor_def accounted_node_def)
    next
      case False
      then show ?thesis using n(1) by (intro decorated [OF False _ n(2) d(2)]) simp
    qed
  qed
  have "models (fe_client fe) \<subseteq> models c" unfolding r(3) using r(4) d by (intro decorators_keep) blast
  moreover obtain node ex ins ms where n: "?reg (node_type node) = Some ex" "ex_forward ex node ins (ec\<lparr>ec_messagesJSON := ms\<rparr>) = Inr r"
    using r(1) unfolding node_gave_def by blast
  then have "calls_reach (ec\<lparr>ec_messagesJSON := ms\<rparr>) c"
    using assms(2) r(2) handed by (fastforce simp: calls_reach_def model_executor_def accounted_node_def split: if_splits)
  then have "calls_reach ec c" by (rule calls_reach_below [OF descends_messages])
  ultimately show ?thesis unfolding calls_reach_def by blast
qed

lemma nested_accounted:
  assumes "nested_run (RunForward (reg(NodeTypeModel \<mapsto> model_executor fwd))) name g ec' = Inr res" "accounted_node fwd" "descends env ec ec'"
  shows "fr_decorator res = None \<and> (\<forall>c. fr_client res = Some c \<longrightarrow> calls_reach ec c)"
  using assms(1) run_accounted [OF _ assms(2)] calls_reach_below [OF assms(3)]
  by (auto simp: nested_run_def nestedForwardResult_def plain_result_def split: sum.splits)

lemma by_name_accounted:
  assumes res: "resolveByName run env p ec = Inr res"
    and nested: "\<And>name g ec'. descends env ec ec' \<Longrightarrow> nested_run run name g ec' = Inr res \<Longrightarrow>
      fr_decorator res = None \<and> (\<forall>c. fr_client res = Some c \<longrightarrow> calls_reach ec c)"
  shows "fr_decorator res = None \<and> (\<forall>c. fr_client res = Some c \<longrightarrow> calls_reach ec c)"
proof -
  obtain n where ok: "checkModelAccess (me_access env) ec p = Inr ()" "ec_parseModelName ec p = Some n"
    using res by (auto simp: resolveByName_def split: sum.splits option.splits)
  consider pvm where "find_personal env ec n = Some pvm" | vm where "find_personal env ec n = None" "find_virtual env ec n = Some vm"
    | "find_personal env ec n = None" "find_virtual env ec n = None" by blast
  then show ?thesis
  proof cases
    case 1
    then show ?thesis
      using res ok
      by (auto simp: resolveByName_def simp del: append.simps dest!: nested [OF descends_pvm] split: option.splits if_splits)
  next
    case 2
    then obtain lookup where "me_virtual env = Some lookup" "lookup (ec_orgID ec) (mn_local n) = Some vm"
      by (auto simp: find_virtual_def split: option.splits if_splits)
    then show ?thesis
      using res ok 2 nested [OF descends_vm] by (simp add: resolveByName_def split: option.splits if_splits)
  next
    case 3
    then obtain c m i where r: "me_resolver env (ec_orgID ec) (mn_string (OrgLevel n)) = Inr (c, m, i)"
        "fr_client res = Some c" "fr_decorator res = None"
      using res ok by (auto simp: resolveByName_def resolve_real_def plain_result_def split: sum.splits)
    then have "reaches env ec m i" using ok descends_refl unfolding reaches_def by blast
    then show ?thesis using r resolved [OF r(1)] by (auto simp: calls_reach_def)
  qed
qed

lemma model_accounted: "accounted_node (ModelForward fuel env reg)"
proof (induction fuel)
  case (Suc fuel)
  let ?reg = "reg(NodeTypeModel \<mapsto> model_executor (ModelForward fuel env reg))"
  have "fr_decorator res = None \<and> (\<forall>c. fr_client res = Some c \<longrightarrow> calls_reach ec0 c)"
    if f: "ModelForward (Suc fuel) env reg node ins ec0 = Inr res" for node ins ec0 res
  proof -
    let ?ec = "with_body env ec0 ins"
    have by_name: "fr_decorator res = None \<and> (\<forall>c. fr_client res = Some c \<longrightarrow> calls_reach ?ec c)"
      if b: "resolveByName (RunForward ?reg) env p ?ec = Inr res" for p
      using by_name_accounted [OF b] nested_accounted [OF _ Suc.IH] by blast
    have mw: "descends env ?ec (delegating (me_codec env) ?ec (Some g)\<lparr>ec_secretScope := c, ec_pending := ps\<rparr>)"
      if m: "ec_pending ?ec = mw # ps" "mw_graph mw = Some g" for mw ps g c
      using m by (auto simp: descends_def delegating_def delegating_graphs_def)
    have "fr_decorator res = None \<and> (\<forall>c. fr_client res = Some c \<longrightarrow> calls_reach ?ec c)"
      using f by_name nested_accounted [OF _ Suc.IH mw]
      by (simp add: model_node_def Let_def split: if_splits list.splits option.splits)
    then show ?thesis using calls_reach_below [OF descends_body] by blast
  qed
  then show ?case unfolding accounted_node_def by blast
qed (simp add: accounted_node_def)

lemma engine_accounted: "RunForward (reg(NodeTypeModel \<mapsto> model_executor (ModelForward fuel env reg))) g ec = Inr fe \<Longrightarrow> calls_reach ec (fe_client fe)"
  by (rule run_accounted [OF _ model_accounted])

end

section \<open>The registry of the proxy\<close>

text \<open>Executors with their errors put into the error type of the registry.\<close>

definition relabel :: "('e \<Rightarrow> 'f) \<Rightarrow> ('c, 't, 'e) executor \<Rightarrow> ('c, 't, 'f) executor" where
  "relabel f ex =
     \<lparr>ex_forward = (\<lambda>node ins ec. map_sum f id (ex_forward ex node ins ec)), ex_backward = (\<lambda>i. map_sum f id (ex_backward ex i)),
      ex_modifies = ex_modifies ex\<rparr>"

lemma relabel_forward: "ex_forward (relabel f ex) node ins ec = Inr r \<longleftrightarrow> ex_forward ex node ins ec = Inr r"
  by (cases "ex_forward ex node ins ec") (simp_all add: relabel_def)

definition TraceForward :: "(unit \<Rightarrow> string \<Rightarrow> unit option) \<Rightarrow> pipeline_node \<Rightarrow> inputs \<Rightarrow> exec_context
    \<Rightarrow> (node_error, ('c, 't) forward_result) result" where
  "TraceForward dec node inputs ec = rbind (decodeNodeData dec () node) (\<lambda>_. Inr (plain_result Map.empty))"

record ('b, 't, 'p, 'e) registry_env =
  ry_nodes :: node_env
  ry_trace :: "unit \<Rightarrow> string \<Rightarrow> unit option"
  ry_models :: "string list \<Rightarrow> string \<Rightarrow> string list option"
  ry_plugin :: plugin_env
  ry_provider :: "string \<Rightarrow> 'p plugin_proc option"
  ry_shared :: "'p plugin_shared"
  ry_late :: bool
  ry_tool :: "request_ctx \<Rightarrow> tool_descriptor \<Rightarrow> 't"
  ry_context :: "request_ctx \<Rightarrow> string"
  ry_nodeError :: "node_error \<Rightarrow> 'e"
  ry_fallbackError :: "('e, 'e) resolve_error fallback_node_error \<Rightarrow> 'e"
  ry_pluginError :: "'p plugin_error \<Rightarrow> 'e"

definition pipe_clients :: "('b, 't, 'p, 'e) registry_env \<Rightarrow> ('b pipe_client, 't) client_env" where
  "pipe_clients ry = \<lparr>cl_dummy = DummyClient, cl_tool = ry_tool ry, cl_loop = LoopClient, cl_context = ry_context ry\<rparr>"

definition fallback_executor :: "('b, 't, 'p, 'e) registry_env \<Rightarrow> ('b pipe_client, 'e) model_env
    \<Rightarrow> ('b pipe_client, 't, ('e, 'e) resolve_error fallback_node_error) executor" where
  "fallback_executor ry env =
     \<lparr>ex_forward = \<lambda>node ins ec. ModelFallbackForward (ry_models ry) (candidate_resolver env)
        (\<lambda>fb. FallbackClient ec (fb_candidates fb) (map (\<lambda>rc. (rc_client rc, rc_realModel rc, rc_modelID rc)) (fb_resolved fb)))
        UsedModel node ins ec,
      ex_backward = noopBackward, ex_modifies = Some (\<lambda>_. False)\<rparr>"

definition proxy_registry :: "('b, 't, 'p, 'e) registry_env \<Rightarrow> ('b pipe_client, 'e) model_env \<Rightarrow> ('b pipe_client, 't, 'e model_error) registry" where
  "proxy_registry ry env t =
     (if t = NodeTypeModelFallback then Some (relabel (ExecutorError \<circ> ry_fallbackError ry) (fallback_executor ry env))
      else if t = NodeTypePlugin
      then Some (relabel (ExecutorError \<circ> ry_pluginError ry)
        (plugin_executor (ry_plugin ry) (pipe_clients ry) (ry_provider ry) (ry_shared ry) (ry_late ry)))
      else if t = NodeTypeTrace then Some (relabel (ExecutorError \<circ> ry_nodeError ry) (builtin (TraceForward (ry_trace ry))))
      else map_option (relabel (ExecutorError \<circ> ry_nodeError ry)) (builtin_registry (ry_nodes ry) t))"

text \<open>The model node resolves through the router and asks the access of the request.\<close>

definition proxy_models :: "'e scope_env \<Rightarrow> ('b, 'e) router_env \<Rightarrow> 'e request_context \<Rightarrow> request_access
    \<Rightarrow> (string \<Rightarrow> string \<Rightarrow> personal_vm option) option \<Rightarrow> (string \<Rightarrow> string \<Rightarrow> virtual_model option) option \<Rightarrow> model_codec
    \<Rightarrow> (string \<Rightarrow> string) \<Rightarrow> ('b pipe_client, 'e router_error) model_env" where
  "proxy_models env renv cx a personal virtual codec bodyMessages =
     \<lparr>me_access = Some (access_hook env cx a), me_personal = personal, me_virtual = virtual,
      me_resolver = (\<lambda>org name. rmap (\<lambda>(b, m, i). (RealClient b m i, m, i)) (ResolveRealModel renv cx org name)),
      me_codec = codec, me_bodyMessages = bodyMessages\<rparr>"

lemma builtin_no_decorator: "builtin_registry env t = Some ex \<Longrightarrow> ex_forward ex node ins ec = Inr r \<Longrightarrow> fr_decorator r = None"
  by (cases t)
     (auto simp: builtin_def GeneratorForward_def SinkForward_def NoteForward_def plain_result_def result_simps
       ValueForward_def ModelRefForward_def CompareForward_def compareText_def SelectForward_def MathForward_def
       SampleForward_def ContextForward_def BlockForward_def Let_def
       split: if_splits option.splits go_value.splits)

lemma TraceForward_plain: "TraceForward dec node ins ec = Inr r \<Longrightarrow> fr_client r = None \<and> fr_decorator r = None"
  by (auto simp: TraceForward_def result_simps plain_result_def)

lemma PluginForward_client:
  assumes "PluginForward penv cl provider node ins ec sh = (sh', Inr r)"
  shows "fr_client r = None \<or> (\<exists>answer. fr_client r = Some (cl_dummy cl answer))"
    and "fr_decorator r = None \<or> (\<exists>loop. fr_decorator r = Some (cl_loop cl loop))"
  using assms
  by (auto simp: PluginForward_def forwardPreRequest_def forwardResolveModel_def forwardToolProvider_def plain_result_def Let_def
      result_simps split: sum.splits option.splits if_splits prod.splits)

lemma parse_alike: "ec_parseModelName ec name = None \<Longrightarrow> ParseModelName name None = None"
  by (auto simp: ec_parseModelName_def asked_segment_parse split: option.splits prod.splits if_splits)

lemma fallback_reaches:
  assumes "me_resolver env = (\<lambda>org name. rmap f (ResolveRealModel renv cx org name))"
    and "candidate_resolver env ec name = Inr rc"
  shows "reaches env ec (rc_realModel rc) (rc_modelID rc)"
proof -
  obtain c where ok: "checkModelAccess (me_access env) ec name = Inr ()"
      and r: "me_resolver env (ec_orgID ec) (withoutTeam ec name) = Inr (c, rc_realModel rc, rc_modelID rc)"
    using assms(2) by (auto simp: candidate_resolver_def fallback_resolve_def result_simps split: sum.splits)
  have "ParseModelName (withoutTeam ec name) None \<noteq> None"
    using r assms(1) by (auto simp: ResolveRealModel_def result_simps split: option.splits)
  then obtain n where "ec_parseModelName ec name = Some n" "withoutTeam ec name = mn_string (OrgLevel n)"
    using parse_alike [of ec name] by (auto simp: withoutTeam_def split: option.splits)
  then show ?thesis using ok r descends_refl unfolding reaches_def by metis
qed

lemma candidate_eta: "\<lparr>rc_client = rc_client x, rc_realModel = rc_realModel x, rc_modelID = rc_modelID x\<rparr> = x"
  by simp

lemma fallback_handed:
  assumes res: "me_resolver env = (\<lambda>org name. rmap f (ResolveRealModel renv cx org name))"
    and "ex_forward (fallback_executor ry env) node ins ec = Inr r" "fr_client r = Some c" "(m, i) \<in> models_of env c"
  shows "reaches env ec m i"
proof -
  obtain fb where fb: "c = FallbackClient ec (fb_candidates fb) (map (\<lambda>rc. (rc_client rc, rc_realModel rc, rc_modelID rc)) (fb_resolved fb))"
      "fallback_wf (candidate_resolver env ec) fb"
    using assms(2,3) ModelFallbackForward_wf by (fastforce simp: fallback_executor_def)
  let ?fb = "fallback_of (fb_candidates fb) (map (\<lambda>rc. (rc_client rc, rc_realModel rc, rc_modelID rc)) (fb_resolved fb))"
  have same: "fb_candidates ?fb = fb_candidates fb" "fb_resolved ?fb = fb_resolved fb" by (simp_all add: fallback_of_def o_def candidate_eta)
  then have wf: "fallback_wf (candidate_resolver env ec) ?fb" using fb(2) by (simp add: fallback_wf_def)
  obtain rc k where k: "k < length (fb_candidates fb)" "snd (candidate (candidate_resolver env ec) ?fb k) = Inr rc"
      "m = rc_realModel rc" "i = rc_modelID rc"
    using assms(4) unfolding fb(1) models_of.simps by blast
  obtain fb' where c: "candidate (candidate_resolver env ec) ?fb k = (fb', Inr rc)" using k(2) by (cases "candidate (candidate_resolver env ec) ?fb k") simp
  have "candidate_resolver env ec (fb_candidates fb ! k) = Inr rc"
    using candidate_spec [OF wf _ c] k(1) by (simp add: same split: option.splits)
  then show ?thesis using fallback_reaches [OF res] k(3,4) by blast
qed

lemma fallback_no_decorator: "ex_forward (fallback_executor ry env) node ins ec = Inr r \<Longrightarrow> fr_decorator r = None"
  by (auto simp: fallback_executor_def ModelFallbackForward_def plain_result_def Let_def split: sum.splits if_splits)

interpretation proxy: accounted_clients "models_of (proxy_models env renv cx a personal virtual codec bodyMessages)"
    "proxy_models env renv cx a personal virtual codec bodyMessages" "proxy_registry ry (proxy_models env renv cx a personal virtual codec bodyMessages)"
proof
  let ?env = "proxy_models env renv cx a personal virtual codec bodyMessages"
  let ?cl = "pipe_clients ry"
  show "me_resolver ?env org name = Inr (c, m, i) \<Longrightarrow> models_of ?env c \<subseteq> {(m, i)}" for org name c m i
    by (auto simp: proxy_models_def result_simps)
  fix t ex node ins ec r assume ex: "proxy_registry ry ?env t = Some ex" "ex_forward ex node ins ec = Inr r"
  have cases: "ex_forward (fallback_executor ry ?env) node ins ec = Inr r \<or>
      (\<exists>sh'. PluginForward (ry_plugin ry) ?cl (ry_provider ry) node ins ec (ry_shared ry) = (sh', Inr r)) \<or>
      fr_client r = None \<and> fr_decorator r = None"
    using ex by (auto simp: proxy_registry_def relabel_forward plugin_executor_def builtin_def [of "TraceForward _"]
        dest: TraceForward_plain builtin_no_client builtin_no_decorator split: if_splits) (metis prod.collapse)+
  show "models_of ?env (d c) \<subseteq> models_of ?env c" if d: "fr_decorator r = Some d" for d c
    using cases d fallback_no_decorator PluginForward_client(2) by (fastforce simp: pipe_clients_def)
  show "reaches ?env ec m i" if c: "fr_client r = Some c" "(m, i) \<in> models_of ?env c" for c m i
    using cases
  proof (elim disjE exE conjE)
    assume "ex_forward (fallback_executor ry ?env) node ins ec = Inr r"
    then show ?thesis using c by (intro fallback_handed [where f = "\<lambda>(b, m, i). (RealClient b m i, m, i)" and renv = renv and cx = cx])
        (auto simp: proxy_models_def)
  next
    fix sh' assume "PluginForward (ry_plugin ry) ?cl (ry_provider ry) node ins ec (ry_shared ry) = (sh', Inr r)"
    from PluginForward_client(1) [OF this] c show ?thesis by (auto simp: pipe_clients_def)
  qed (use c in simp)
qed

section \<open>What a pipeline serves\<close>

text \<open>The engine of the proxy: its registry with the model node, which runs pipelines through the same registry.\<close>

definition proxy_engine :: "nat \<Rightarrow> ('b, 't, 'p, 'e) registry_env \<Rightarrow> ('b pipe_client, 'e) model_env \<Rightarrow> ('b pipe_client, 't, 'e model_error) registry" where
  "proxy_engine fuel ry env =
     (proxy_registry ry env)(NodeTypeModel \<mapsto> model_executor (ModelForward fuel env (proxy_registry ry env)))"

text \<open>The execution is that of a request: its organization and its team.\<close>

definition request_ec :: "request_access \<Rightarrow> exec_context \<Rightarrow> bool" where
  "request_ec a ec \<longleftrightarrow> ec_orgID ec = og_id (ra_org a) \<and> ec_orgSlug ec = og_slug (ra_org a) \<and> ec_teamSlug ec = ra_teamSlug a"

lemma request_ec_parse: "request_ec a ec \<Longrightarrow> ec_parseModelName ec name = ParseModelName name (Some (own_team a))"
  by (simp add: request_ec_def ec_parseModelName_def own_team_def [abs_def])


section \<open>A fallback chain\<close>

text \<open>A pipeline that ends in a fallback node naming \<open>gpt\<close>, on a request of the team \<open>core\<close>.\<close>

definition chain_env :: "(string, string, unit, unit router_error) registry_env" where
  "chain_env =
     \<lparr>ry_nodes = sample_env, ry_trace = \<lambda>_ _. Some (), ry_models = \<lambda>_ raw. Some [raw, ''lost''], ry_plugin = demo_plugin_env,
      ry_provider = Map.empty, ry_shared = \<lparr>ps_inspectors = None, ps_conversation = None\<rparr>, ry_late = False, ry_tool = \<lambda>_ _. ''tool'',
      ry_context = \<lambda>_. [], ry_nodeError = \<lambda>_. NotAvailable [], ry_fallbackError = \<lambda>_. NotAvailable [], ry_pluginError = \<lambda>_. NotAvailable []\<rparr>"

definition chain_models :: "(string pipe_client, unit router_error) model_env" where
  "chain_models = proxy_models acme_env gpt_router acme_cx (newRequestModelAccess acme ''t1'' ''core'') None None delegation_codec (\<lambda>b. b)"

definition chain_graph :: pipeline_graph where
  "chain_graph =
     \<lparr>g_nodes = [\<lparr>node_id = ''in'', node_type = NodeTypeGenerator, node_data = None\<rparr>,
                 \<lparr>node_id = ''llm'', node_type = NodeTypeModelFallback, node_data = Some ''gpt''\<rparr>,
                 \<lparr>node_id = ''out'', node_type = NodeTypeSink, node_data = None\<rparr>],
      g_edges = [sample_edge ''e1'' ''in'' ''request'' ''llm'' ''request'',
                 sample_edge ''e2'' ''llm'' ''response'' ''out'' ''response'']\<rparr>"

definition chain_context :: exec_context where
  "chain_context = delegation_context\<lparr>ec_orgID := ''o1'', ec_orgSlug := ''acme'', ec_teamSlug := ''core''\<rparr>"

lemma chain_run:
  "map_option fe_client (case RunForward (proxy_engine 1 chain_env chain_models) chain_graph chain_context of Inl _ \<Rightarrow> None | Inr fe \<Rightarrow> Some fe) =
     Some (FallbackClient chain_context [''gpt'', ''lost''] [(RealClient ''client'' ''gpt-real'' ''m1'', ''gpt-real'', ''m1'')])"
  by code_simp

lemma chain_calls:
  "(''gpt-real'', ''m1'') \<in> models_of chain_models (FallbackClient chain_context [''gpt'', ''lost''] [(RealClient ''client'' ''gpt-real'' ''m1'', ''gpt-real'', ''m1'')])"
proof -
  let ?fb = "fallback_of [''gpt'', ''lost''] [(RealClient ''client'' ''gpt-real'' ''m1'', ''gpt-real'', ''m1'')]"
  have "snd (candidate (candidate_resolver chain_models chain_context) ?fb 0) =
      Inr \<lparr>rc_client = RealClient ''client'' ''gpt-real'' ''m1'', rc_realModel = ''gpt-real'', rc_modelID = ''m1''\<rparr>"
    by (simp add: candidate.simps fallback_of_def)
  then show ?thesis unfolding models_of.simps
    by (intro CollectI exI [of _ "\<lparr>rc_client = RealClient ''client'' ''gpt-real'' ''m1'', rc_realModel = ''gpt-real'', rc_modelID = ''m1''\<rparr>"] exI [of _ 0])
      simp
qed


end
