(* ===== verification/Pipeline_Hook.thy ===== *)
theory Pipeline_Hook
  imports Pipeline_Registry
begin

text \<open>
  The hook that runs pipelines in the proxy: \<open>src/internal/adapter/proxy/plugin_hook_adapter.go\<close> and the kinds of requests of
  \<open>model_kind.go\<close>.

  \<open>hook_env\<close> gathers the stores, the engine and \<open>applyModifiedMessages\<close>; a store that may be nil is an option.  The
  engine is the forward pass with the registry of the process, given the access of the request (\<open>None\<close> when the context
  carries none).  What only plugins read (the quota, the lists of models, tools and sessions) is left out of the context, and so
  are log lines.  A forward pass that succeeds has a client, so the answer for a missing one is not reached here.
\<close>

section \<open>Requests and collaborators\<close>

datatype request_type = RequestTypeChat | RequestTypeMessage | RequestTypeEmbedding | RequestTypeDecision

fun requestKind :: "request_type \<Rightarrow> model_kind" where
  "requestKind RequestTypeDecision = ModelKindDecision"
| "requestKind RequestTypeEmbedding = ModelKindEmbeddings"
| "requestKind _ = ModelKindCompletion"

record model_ref =
  mf_kind :: string
  mf_id :: string

record hook_middleware =
  hm_id :: string
  hm_name :: string
  hm_orgID :: string
  hm_graph :: "pipeline_graph option"
  hm_appliesToAll :: bool
  hm_targets :: "model_ref list"

record hook_team =
  ht_id :: string
  ht_middlewareIDs :: "string list"

record ('c, 't) hook_request =
  hq_model :: string
  hq_type :: request_type
  hq_body :: string
  hq_meta :: "string \<rightharpoonup> meta_value"
  hq_exec :: "('c, 't) forward_execution option"

type_synonym 'e run_error = "'e router_error model_error forward_error"

record ('c, 't, 'e) hook_env =
  he_orgBySlug :: "string \<Rightarrow> string \<Rightarrow> ('e store_error, organization) result"
  he_orgByID :: "string \<Rightarrow> ('e store_error, organization) result"
  he_virtual :: "string \<Rightarrow> string \<Rightarrow> ('e store_error, virtual_model option) result"
  he_llm :: "string \<Rightarrow> string \<Rightarrow> ('e store_error, real_model option) result"
  he_personal :: "(string \<Rightarrow> string \<Rightarrow> ('e store_error, personal_vm) result) option"
  he_middlewares :: "(string \<Rightarrow> ('e, hook_middleware list) result) option"
  he_teams :: "(string \<Rightarrow> ('e, hook_team list) result) option"
  he_run :: "request_access option \<Rightarrow> pipeline_graph \<Rightarrow> exec_context \<Rightarrow> ('e run_error, ('c, 't) forward_execution) result"
  he_codec :: model_codec
  he_bodyMessages :: "string \<Rightarrow> string"
  he_displayName :: "string \<Rightarrow> string"
  he_applyMessages :: "('c, 't) hook_request \<Rightarrow> exec_context \<Rightarrow> ('c, 't) forward_execution \<Rightarrow> (string, ('c, 't) hook_request) result"

section \<open>Answers\<close>

definition dq_quoted :: "string \<Rightarrow> string" where
  "dq_quoted s = CHR 0x22 # s @ [CHR 0x22]"

definition hook_error :: "int \<Rightarrow> string \<Rightarrow> string \<Rightarrow> string \<Rightarrow> hook_answer" where
  "hook_error status type message code =
     \<lparr>ha_status = status, ha_type = type, ha_message = message, ha_code = code, ha_candidates = []\<rparr>"

definition kindRefusal :: "string \<Rightarrow> string \<Rightarrow> hook_answer" where
  "kindRefusal message code = hook_error 400 ''invalid_request_error'' message code"

definition permissions_unresolved :: hook_answer where
  "permissions_unresolved = hook_error 500 ''server_error'' ''Could not resolve permissions.'' ''permission_error''"

text \<open>What \<open>errors.As\<close> finds in the chain of an error of the forward pass: a refused model, a model that holds no
  conversation, a rejection.\<close>

fun model_access_error :: "'e router_error model_error \<Rightarrow> string option" where
  "model_access_error (ModelRefused (ModelAccessError n)) = Some n"
| "model_access_error (NestedFailed _ (NodeFailed _ e)) = model_access_error e"
| "model_access_error _ = None"

fun conversation_kind_error :: "'e router_error model_error \<Rightarrow> (string \<times> model_kind) option" where
  "conversation_kind_error (ModelUnresolved _ (ConversationKind n k)) = Some (n, k)"
| "conversation_kind_error (NestedFailed _ (NodeFailed _ e)) = conversation_kind_error e"
| "conversation_kind_error _ = None"

fun nested_rejection :: "'e router_error model_error \<Rightarrow> string option" where
  "nested_rejection (NestedFailed _ (Rejection r)) = Some r"
| "nested_rejection (NestedFailed _ (NodeFailed _ e)) = nested_rejection e"
| "nested_rejection _ = None"

fun run_access_error :: "'e run_error \<Rightarrow> string option" where
  "run_access_error (NodeFailed _ e) = model_access_error e"
| "run_access_error _ = None"

fun run_kind_error :: "'e run_error \<Rightarrow> (string \<times> model_kind) option" where
  "run_kind_error (NodeFailed _ e) = conversation_kind_error e"
| "run_kind_error _ = None"

fun run_rejection :: "'e run_error \<Rightarrow> string option" where
  "run_rejection (Rejection r) = Some r"
| "run_rejection (NodeFailed _ e) = nested_rejection e"
| "run_rejection _ = None"

text \<open>Of the messages only the reason of a rejection is kept; the others quote the names and the text of Go errors.\<close>

definition run_answer :: "'e run_error \<Rightarrow> hook_answer" where
  "run_answer e =
     (case run_access_error e of
        Some reached \<Rightarrow> hook_error 403 ''permission_error'' reached ''model_forbidden''
      | None \<Rightarrow>
          (case run_kind_error e of
             Some (reached, _) \<Rightarrow> kindRefusal reached ''model_kind_mismatch''
           | None \<Rightarrow>
               (case run_rejection e of
                  Some reason \<Rightarrow> hook_error 403 [] reason []
                | None \<Rightarrow> hook_error 500 ''server_error'' [] ''pipeline_error'')))"

abbreviation MetaModelID :: string where "MetaModelID \<equiv> ''modelID''"

definition finishForwardExecution :: "('c, 't, 'e) hook_env \<Rightarrow> ('c, 't) hook_request \<Rightarrow> exec_context
    \<Rightarrow> ('e run_error, ('c, 't) forward_execution) result \<Rightarrow> ('c, 't) hook_request \<times> hook_answer option" where
  "finishForwardExecution env req ec run =
     (case run of
        Inl e \<Rightarrow> (req, Some (run_answer e))
      | Inr fe \<Rightarrow>
          (let req1 = (if fe_modelID fe \<noteq> [] then req\<lparr>hq_meta := (hq_meta req)(MetaModelID \<mapsto> MetaString (fe_modelID fe))\<rparr> else req)
           in case he_applyMessages env req1 ec fe of
                Inl message \<Rightarrow> (req1, Some (hook_error 500 ''server_error'' message ''pipeline_error''))
              | Inr req2 \<Rightarrow> (req2\<lparr>hq_exec := Some fe\<rparr>, None)))"

section \<open>Virtual models\<close>

datatype hook_target = OrgVirtual organization virtual_model | PersonalVirtual personal_vm

definition lookupVirtualModel :: "('c, 't, 'e) hook_env \<Rightarrow> 'e request_context \<Rightarrow> string \<Rightarrow> hook_target option" where
  "lookupVirtualModel env cx modelName =
     (case ParseModelName modelName None of
        None \<Rightarrow> None
      | Some name \<Rightarrow>
          if \<not> Qualified name then None
          else if Personal name then
            (case (he_personal env, cx_user cx) of
               (Some get, Some u) \<Rightarrow> (case get u (mn_local name) of Inr pvm \<Rightarrow> Some (PersonalVirtual pvm) | Inl _ \<Rightarrow> None)
             | _ \<Rightarrow> None)
          else
            (case he_orgBySlug env (cx_tenantID cx) (mn_org name) of
               Inl _ \<Rightarrow> None
             | Inr org \<Rightarrow>
                 (case he_virtual env (og_id org) (mn_local name) of
                    Inr (Some vm) \<Rightarrow> Some (OrgVirtual org vm)
                  | _ \<Rightarrow> None)))"

text \<open>The organization of the token, for personal virtual models.\<close>

definition token_org :: "'e request_context \<Rightarrow> ('c, 't) hook_request \<Rightarrow> string" where
  "token_org cx req = (if OrgIDFromMeta (hq_meta req) = [] then cx_orgID cx else OrgIDFromMeta (hq_meta req))"

definition assertVirtualModelAccess :: "'e request_context \<Rightarrow> ('c, 't) hook_request \<Rightarrow> hook_target \<Rightarrow> hook_answer option" where
  "assertVirtualModelAccess cx req target =
     (let permOrgID = (case target of PersonalVirtual _ \<Rightarrow> token_org cx req | OrgVirtual org _ \<Rightarrow> og_id org)
      in if permOrgID = [] then Some (virtualModelForbidden (hq_model req))
         else
           (case ResolvePermissions cx permOrgID of
              Inl _ \<Rightarrow> Some permissions_unresolved
            | Inr perms \<Rightarrow>
                if (case target of
                      PersonalVirtual _ \<Rightarrow> Has perms PermPersonalVMCreate
                    | OrgVirtual _ vm \<Rightarrow> CanUseModel perms (TeamIDFromMeta (hq_meta req)) (vm_id vm) ModelKindVirtual)
                then None else Some (virtualModelForbidden (hq_model req))))"

definition base_ec :: "('c, 't, 'e) hook_env \<Rightarrow> 'e request_context \<Rightarrow> ('c, 't) hook_request \<Rightarrow> exec_context" where
  "base_ec env cx req =
     \<lparr>ec_orgID = [], ec_orgSlug = [], ec_userID = (case cx_user cx of Some u \<Rightarrow> u | None \<Rightarrow> []),
      ec_tokenID = meta_string (hq_meta req) MetaAuthTokenID, ec_displayName = (case cx_user cx of Some u \<Rightarrow> he_displayName env u | None \<Rightarrow> []), ec_teamID = TeamIDFromMeta (hq_meta req),
      ec_teamSlug = TeamSlugFromMeta (hq_meta req), ec_requestedModel = [], ec_targetModelName = [], ec_delegated = {},
      ec_bodyJSON = hq_body req, ec_messagesJSON = he_bodyMessages env (hq_body req),
      ec_bodyMessagesJSON = he_bodyMessages env (hq_body req), ec_secretScope = [], ec_visitedVMs = {},
      ec_forcePassthrough = False, ec_pending = []\<rparr>"

definition request_access_of :: "('c, 't) hook_request \<Rightarrow> organization \<Rightarrow> request_access" where
  "request_access_of req org = newRequestModelAccess org (TeamIDFromMeta (hq_meta req)) (TeamSlugFromMeta (hq_meta req))"

definition buildEC :: "('c, 't, 'e) hook_env \<Rightarrow> 'e request_context \<Rightarrow> ('c, 't) hook_request \<Rightarrow> hook_target
    \<Rightarrow> ('e store_error, request_access option \<times> exec_context) result" where
  "buildEC env cx req target =
     (case target of
        OrgVirtual org vm \<Rightarrow>
          Inr (Some (request_access_of req org),
            delegating (he_codec env)
              ((base_ec env cx req)\<lparr>ec_orgID := og_id org, ec_orgSlug := og_slug org, ec_secretScope := vm_orgID vm,
                 ec_visitedVMs := {vm_id vm}\<rparr>)
              (vm_graph vm))
      | PersonalVirtual pvm \<Rightarrow>
          (let orgID = token_org cx req;
               ec = (base_ec env cx req)\<lparr>ec_orgID := orgID, ec_secretScope := ''~:'' @ pvm_userID pvm, ec_visitedVMs := {pvm_id pvm}\<rparr>
           in if orgID = [] then Inr (None, ec)
              else rmap (\<lambda>org. (Some (request_access_of req org), ec\<lparr>ec_orgSlug := og_slug org\<rparr>)) (he_orgByID env orgID)))"

section \<open>Middlewares\<close>

definition modelRefMatches :: "model_ref list \<Rightarrow> model_ref \<Rightarrow> bool" where
  "modelRefMatches targets ref = list_ex (\<lambda>t. mf_kind t = mf_kind ref \<and> mf_id t = mf_id ref) targets"

definition applicableMiddlewares :: "hook_middleware list \<Rightarrow> model_ref \<Rightarrow> hook_middleware list" where
  "applicableMiddlewares mws ref =
     filter (\<lambda>mw. hm_graph mw \<noteq> None \<and> (hm_appliesToAll mw \<or> modelRefMatches (hm_targets mw) ref)) mws"

definition orderedMiddlewares :: "('c, 't, 'e) hook_env \<Rightarrow> string \<Rightarrow> string \<Rightarrow> hook_middleware list \<Rightarrow> ('e, hook_middleware list) result" where
  "orderedMiddlewares env orgID teamID applicable =
     (case he_teams env of
        None \<Rightarrow> Inr applicable
      | Some listOrgTeams \<Rightarrow>
          if applicable = [] then Inr applicable
          else
            rmap (\<lambda>teams.
              (let attached = concat (map ht_middlewareIDs teams);
                   ofTeam = concat (map ht_middlewareIDs (filter (\<lambda>t. teamID \<noteq> [] \<and> ht_id t = teamID) teams))
               in filter (\<lambda>mw. hm_id mw \<notin> set attached) applicable @
                  filter (\<lambda>mw. hm_id mw \<in> set attached \<and> hm_id mw \<in> set ofTeam) applicable))
              (listOrgTeams orgID))"

text \<open>The model a request names, a virtual one first.\<close>

definition target_ref :: "('c, 't, 'e) hook_env \<Rightarrow> string \<Rightarrow> string \<Rightarrow> (model_ref \<times> virtual_model option \<times> model_kind) option" where
  "target_ref env orgID loc =
     (case he_virtual env orgID loc of
        Inr (Some vm) \<Rightarrow> Some (\<lparr>mf_kind = ModelKindVirtual, mf_id = vm_id vm\<rparr>, Some vm, ModelKindCompletion)
      | _ \<Rightarrow>
          (case he_llm env orgID loc of
             Inr (Some m) \<Rightarrow> Some (\<lparr>mf_kind = ModelKindLLM, mf_id = rm_id m\<rparr>, None, rm_kind m)
           | _ \<Rightarrow> None))"

definition assertTargetAccess :: "'e request_context \<Rightarrow> ('c, 't) hook_request \<Rightarrow> organization \<Rightarrow> model_ref \<Rightarrow> virtual_model option \<Rightarrow> hook_answer option" where
  "assertTargetAccess cx req org ref targetVM =
     (case targetVM of
        Some vm \<Rightarrow> assertVirtualModelAccess cx req (OrgVirtual org vm)
      | None \<Rightarrow>
          (case ResolvePermissions cx (og_id org) of
             Inl _ \<Rightarrow> Some permissions_unresolved
           | Inr perms \<Rightarrow>
               if CanUseModel perms (TeamIDFromMeta (hq_meta req)) (mf_id ref) ModelKindLLM then None
               else Some (virtualModelForbidden (hq_model req))))"

definition engine_middleware :: "hook_middleware \<Rightarrow> middleware" where
  "engine_middleware mw = \<lparr>mw_name = hm_name mw, mw_orgID = hm_orgID mw, mw_graph = hm_graph mw\<rparr>"

definition buildMiddlewareEC :: "('c, 't, 'e) hook_env \<Rightarrow> 'e request_context \<Rightarrow> ('c, 't) hook_request \<Rightarrow> organization \<Rightarrow> exec_context" where
  "buildMiddlewareEC env cx req org =
     (base_ec env cx req)\<lparr>ec_orgID := og_id org, ec_orgSlug := og_slug org, ec_secretScope := og_id org,
        ec_requestedModel := RequestedModelFromMeta (hq_meta req), ec_forcePassthrough := True\<rparr>"

definition run_middlewares :: "('c, 't, 'e) hook_env \<Rightarrow> 'e request_context \<Rightarrow> ('c, 't) hook_request \<Rightarrow> organization
    \<Rightarrow> hook_middleware \<Rightarrow> hook_middleware list \<Rightarrow> pipeline_graph \<Rightarrow> ('c, 't) hook_request \<times> hook_answer option" where
  "run_middlewares env cx req org mw rest g =
     (let ec = delegating (he_codec env)
                 ((buildMiddlewareEC env cx req org)\<lparr>ec_targetModelName := hq_model req, ec_pending := map engine_middleware rest\<rparr>)
                 (Some g)
      in finishForwardExecution env req ec (he_run env (Some (request_access_of req org)) g ec))"

text \<open>\<open>None\<close> when the middlewares do not take the request over.\<close>

definition applyMiddlewares :: "('c, 't, 'e) hook_env \<Rightarrow> 'e request_context \<Rightarrow> ('c, 't) hook_request
    \<Rightarrow> (('c, 't) hook_request \<times> hook_answer option) option" where
  "applyMiddlewares env cx req =
     (case he_middlewares env of
        None \<Rightarrow> None
      | Some listEnabled \<Rightarrow>
          if requestKind (hq_type req) \<noteq> ModelKindCompletion then None
          else
            (case ParseModelName (hq_model req) None of
               None \<Rightarrow> None
             | Some name \<Rightarrow>
                 if \<not> Qualified name \<or> Personal name then None
                 else
                   (case he_orgBySlug env (cx_tenantID cx) (mn_org name) of
                      Inl _ \<Rightarrow> None
                    | Inr org \<Rightarrow>
                        (case listEnabled (og_id org) of
                           Inl _ \<Rightarrow> None
                         | Inr mws \<Rightarrow>
                             if mws = [] then None
                             else
                               (case target_ref env (og_id org) (mn_local name) of
                                  None \<Rightarrow> None
                                | Some (ref, targetVM, kind) \<Rightarrow>
                                    if kind \<noteq> ModelKindCompletion then None
                                    else
                                      (case orderedMiddlewares env (og_id org) (TeamIDFromMeta (hq_meta req)) (applicableMiddlewares mws ref) of
                                         Inl _ \<Rightarrow>
                                           Some (req, Some (hook_error 500 ''server_error''
                                             ''Could not resolve the middlewares of the request.'' ''pipeline_error''))
                                       | Inr [] \<Rightarrow> None
                                       | Inr (mw # rest) \<Rightarrow>
                                           (case assertTargetAccess cx req org ref targetVM of
                                              Some a \<Rightarrow> Some (req, Some a)
                                            | None \<Rightarrow>
                                                (case hm_graph mw of
                                                   None \<Rightarrow> None
                                                 | Some g \<Rightarrow> Some (run_middlewares env cx req org mw rest g)))))))))"

section \<open>The hook\<close>

definition run_virtual :: "('c, 't, 'e) hook_env \<Rightarrow> 'e request_context \<Rightarrow> ('c, 't) hook_request \<Rightarrow> hook_target
    \<Rightarrow> ('c, 't) hook_request \<times> ('e store_error, hook_answer option) result" where
  "run_virtual env cx req target =
     (case assertVirtualModelAccess cx req target of
        Some a \<Rightarrow> (req, Inr (Some a))
      | None \<Rightarrow>
          if requestKind (hq_type req) \<noteq> ModelKindCompletion then
            (req, Inr (Some (kindRefusal (''Virtual model '' @ dq_quoted (hq_model req) @ '' serves completions only.'')
              ''virtual_model_kind_mismatch'')))
          else
            (case (case target of OrgVirtual _ vm \<Rightarrow> vm_graph vm | PersonalVirtual pvm \<Rightarrow> pvm_graph pvm) of
               None \<Rightarrow>
                 (req, Inr (Some (hook_error 422 ''invalid_request_error''
                   (''Virtual model '' @ dq_quoted (hq_model req) @ '' has no pipeline configured.'') ''pipeline_not_configured'')))
             | Some g \<Rightarrow>
                 (case buildEC env cx req target of
                    Inl e \<Rightarrow> (req, Inl e)
                  | Inr (access, ec) \<Rightarrow>
                      (case finishForwardExecution env req ec (he_run env access g ec) of (req', a) \<Rightarrow> (req', Inr a)))))"

definition PipelinePreRequest :: "('c, 't, 'e) hook_env \<Rightarrow> 'e request_context \<Rightarrow> ('c, 't) hook_request
    \<Rightarrow> ('c, 't) hook_request \<times> ('e store_error, hook_answer option) result" where
  "PipelinePreRequest env cx req0 =
     (let req = req0\<lparr>hq_meta := PopulateMetaFromContext cx (hq_meta req0)\<rparr>
      in case applyMiddlewares env cx req of
           Some (req', a) \<Rightarrow> (req', Inr a)
         | None \<Rightarrow>
             (case lookupVirtualModel env cx (hq_model req) of
                None \<Rightarrow> (req, Inr None)
              | Some target \<Rightarrow> run_virtual env cx req target))"

abbreviation MetaOriginalModel :: string where "MetaOriginalModel \<equiv> ''originalModel''"
abbreviation MetaResolvedModel :: string where "MetaResolvedModel \<equiv> ''resolvedModel''"

text \<open>The client handed to the proxy; \<open>None\<close> is \<open>ErrModelNotFound\<close>, which leaves the request to the router.  The client runs
  the backward pass around the one of the execution.\<close>

definition PipelineResolveModel :: "('c, 't) hook_request \<Rightarrow> ('c, 't) hook_request \<times> ('c \<times> string) option" where
  "PipelineResolveModel req =
     (case hq_exec req of
        None \<Rightarrow> (req, None)
      | Some fe \<Rightarrow>
          (let meta = set_nonempty MetaModelID (fe_modelID fe) (hq_meta req)
           in (req\<lparr>hq_meta := meta(MetaOriginalModel \<mapsto> MetaString (hq_model req), MetaResolvedModel \<mapsto> MetaString (fe_model fe))\<rparr>,
               Some (fe_client fe, fe_model fe))))"

text \<open>The usage is attributed to the model that answered, when the terminal node reports one.\<close>

definition PipelinePostResponse :: "('c, 't) hook_request \<Rightarrow> ('c, 't) hook_request" where
  "PipelinePostResponse req =
     (case hq_exec req of
        Some fe \<Rightarrow>
          (case fe_outcome fe of
             Some (Some (realModel, modelID)) \<Rightarrow>
               req\<lparr>hq_meta := set_nonempty MetaResolvedModel realModel (set_nonempty MetaModelID modelID (hq_meta req))\<rparr>
           | _ \<Rightarrow> req)
      | None \<Rightarrow> req)"

section \<open>Organization middlewares can not be avoided\<close>

text \<open>A middleware that wraps a model, and one attached to no team of the organization.\<close>

definition wraps :: "hook_middleware \<Rightarrow> model_ref \<Rightarrow> bool" where
  "wraps mw ref \<longleftrightarrow> hm_graph mw \<noteq> None \<and> (hm_appliesToAll mw \<or> modelRefMatches (hm_targets mw) ref)"

definition org_level :: "('c, 't, 'e) hook_env \<Rightarrow> string \<Rightarrow> hook_middleware \<Rightarrow> bool" where
  "org_level env orgID mw \<longleftrightarrow>
     (\<forall>listOrgTeams teams. he_teams env = Some listOrgTeams \<longrightarrow> listOrgTeams orgID = Inr teams \<longrightarrow>
        (\<forall>t \<in> set teams. hm_id mw \<notin> set (ht_middlewareIDs t)))"

definition of_team :: "('c, 't, 'e) hook_env \<Rightarrow> string \<Rightarrow> string \<Rightarrow> hook_middleware \<Rightarrow> bool" where
  "of_team env orgID teamID mw \<longleftrightarrow>
     (\<exists>listOrgTeams teams t. he_teams env = Some listOrgTeams \<and> listOrgTeams orgID = Inr teams \<and> t \<in> set teams \<and>
        teamID \<noteq> [] \<and> ht_id t = teamID \<and> hm_id mw \<in> set (ht_middlewareIDs t))"

lemma set_applicable: "mw \<in> set (applicableMiddlewares mws ref) \<longleftrightarrow> mw \<in> set mws \<and> wraps mw ref"
  by (auto simp: applicableMiddlewares_def wraps_def)

text \<open>The chain is the organization's middlewares, then those of the team of the request, each level in the order of
  the list it comes from.\<close>

lemma orderedMiddlewares_split:
  assumes "orderedMiddlewares env orgID teamID applicable = Inr chain"
  shows "\<exists>orgs ofs. chain = orgs @ ofs \<and> orgs = filter (org_level env orgID) applicable \<and>
    (\<forall>mw \<in> set ofs. mw \<in> set applicable \<and> of_team env orgID teamID mw)"
proof (cases "he_teams env")
  case None
  then have "filter (org_level env orgID) applicable = applicable" by (simp add: org_level_def)
  then show ?thesis using assms None by (simp add: orderedMiddlewares_def)
next
  case (Some listOrgTeams)
  show ?thesis
  proof (cases "applicable = []")
    case True
    then show ?thesis using assms Some by (simp add: orderedMiddlewares_def)
  next
    case False
    then obtain teams where teams: "listOrgTeams orgID = Inr teams"
      using assms Some by (auto simp: orderedMiddlewares_def result_simps)
    have "org_level env orgID = (\<lambda>mw. hm_id mw \<notin> set (concat (map ht_middlewareIDs teams)))"
      using Some teams by (auto simp: org_level_def fun_eq_iff)
    then show ?thesis
      using assms Some teams False by (simp add: orderedMiddlewares_def of_team_def Let_def) auto
  qed
qed

text \<open>
  The engine of the process with \<open>fuel\<close> for nested pipelines, and what it means that a chain of middlewares ran: the graph of
  the first one ran to its end with the others pending, the nodes it executed are among those of the execution, so that
  their backward passes follow the response, and the rest of the chain ran inside it.
\<close>

definition engine_run :: "('c, 't, 'e model_error) registry \<Rightarrow> ('c, 'e) model_env \<Rightarrow> nat \<Rightarrow> pipeline_graph \<Rightarrow> exec_context
    \<Rightarrow> ('e model_error forward_error, ('c, 't) forward_execution) result" where
  "engine_run reg menv fuel = RunForward (reg(NodeTypeModel \<mapsto> model_executor (ModelForward fuel menv reg)))"

fun ran_chain :: "('c, 't, 'e model_error) registry \<Rightarrow> ('c, 'e) model_env \<Rightarrow> middleware list \<Rightarrow> ('c, 't) forward_execution \<Rightarrow> bool" where
  "ran_chain reg menv [] fe = True"
| "ran_chain reg menv (mw # mws) fe =
     (\<exists>g fuel ec fe'. mw_graph mw = Some g \<and> ec_pending ec = mws \<and> engine_run reg menv fuel g ec = Inr fe' \<and>
        set (fe_executed fe') \<subseteq> set (fe_executed fe) \<and> ran_chain reg menv mws fe')"

text \<open>A middleware leaves the model to its model nodes: no other node of its graph ends the pipeline with a client of its own.\<close>

definition leaves_model :: "('c, 't, 'e) registry \<Rightarrow> hook_middleware \<Rightarrow> bool" where
  "leaves_model reg mw \<longleftrightarrow>
     (\<forall>g node ex ins ec r. hm_graph mw = Some g \<longrightarrow> node \<in> set (g_nodes g) \<longrightarrow> node_type node \<noteq> NodeTypeModel \<longrightarrow>
        reg (node_type node) = Some ex \<longrightarrow> ex_forward ex node ins ec = Inr r \<longrightarrow> fr_client r = None)"

lemma run_nodes_terminal:
  "run_nodes reg g ec st order = Inr fe \<Longrightarrow>
   \<exists>node ex ins m res. node \<in> set (g_nodes g) \<and> reg (node_type node) = Some ex \<and>
     ex_forward ex node ins (ec\<lparr>ec_messagesJSON := m\<rparr>) = Inr res \<and> fr_client res \<noteq> None \<and> set (fr_nested res) \<subseteq> set (fe_executed fe)"
proof (induction reg g ec st order rule: run_nodes.induct)
  case (2 reg g ec st nid rest)
  show ?case
  proof (cases "nodeByID g nid")
    case None
    with 2 show ?thesis by simp
  next
    case (Some node)
    let ?r = "\<lambda>ex. ex_forward ex node (ResolveInputs (fs_vc st) g (node_id node)) (ec\<lparr>ec_messagesJSON := fs_messages st\<rparr>)"
    obtain ex res where ex: "reg (node_type node) = Some ex" and res: "?r ex = Inr res" and ok: "\<not> fr_rejected res"
      using "2.prems" Some by (auto split: option.splits sum.splits if_splits)
    have mem: "node \<in> set (g_nodes g)" using Some by (auto simp: nodeByID_def find_Some_iff)
    show ?thesis
    proof (cases "fr_client res")
      case None
      then have "run_nodes reg g ec (after_node node res st) rest = Inr fe"
        using "2.prems" Some ex res ok by (simp add: Let_def)
      then show ?thesis using "2.IH"(2) [OF Some ex res ok refl None] by blast
    next
      case c: (Some c)
      then have "set (fr_nested res) \<subseteq> set (fe_executed fe)"
        using "2.prems" Some ex res ok by (auto simp: Let_def after_node_def split: if_splits)
      with c mem ex res show ?thesis by blast
    qed
  qed
qed simp

text \<open>The model node of a middleware hands over to the pending ones.\<close>

lemma chain_continues:
  assumes "engine_run reg menv fuel g ec = Inr fe" "ec_forcePassthrough ec" "ec_pending ec = mw # mws"
    and "\<And>node ex ins ec r. node \<in> set (g_nodes g) \<Longrightarrow> node_type node \<noteq> NodeTypeModel \<Longrightarrow> reg (node_type node) = Some ex \<Longrightarrow>
      ex_forward ex node ins ec = Inr r \<Longrightarrow> fr_client r = None"
  shows "\<exists>g' fuel' ec' fe'. mw_graph mw = Some g' \<and> ec_pending ec' = mws \<and> ec_forcePassthrough ec' \<and>
    engine_run reg menv fuel' g' ec' = Inr fe' \<and> set (fe_executed fe') \<subseteq> set (fe_executed fe)"
proof -
  let ?reg = "reg(NodeTypeModel \<mapsto> model_executor (ModelForward fuel menv reg))"
  obtain order st where "run_nodes ?reg g ec st order = Inr fe"
    using assms(1) by (auto simp: engine_run_def RunForward_def split: sum.splits option.splits)
  then obtain node ex ins m res where n: "node \<in> set (g_nodes g)" "?reg (node_type node) = Some ex"
      "ex_forward ex node ins (ec\<lparr>ec_messagesJSON := m\<rparr>) = Inr res" "fr_client res \<noteq> None" "set (fr_nested res) \<subseteq> set (fe_executed fe)"
    using run_nodes_terminal by blast
  have "node_type node = NodeTypeModel" using n assms(4) by (metis fun_upd_other)
  then have "ModelForward fuel menv reg node ins (ec\<lparr>ec_messagesJSON := m\<rparr>) = Inr res"
    using n(2,3) by (auto simp: model_executor_def)
  then obtain fuel' where f: "fuel = Suc fuel'"
      "model_node (engine_run reg menv fuel') menv node ins (ec\<lparr>ec_messagesJSON := m\<rparr>) = Inr res"
    by (cases fuel) (simp_all add: engine_run_def)
  let ?ec = "with_body menv (ec\<lparr>ec_messagesJSON := m\<rparr>) ins"
  have keep: "ec_forcePassthrough ?ec" "ec_pending ?ec = mw # mws" using assms(2,3) by (simp_all add: with_body_def split: prod.split)
  obtain g' where g': "mw_graph mw = Some g'"
      "nested_run (engine_run reg menv fuel') (mw_name mw) g'
         (delegating (me_codec menv) ?ec (Some g')\<lparr>ec_secretScope := mw_orgID mw, ec_pending := mws\<rparr>) = Inr res"
    using f(2) keep by (auto simp: model_node_def Let_def split: option.splits)
  let ?ec' = "delegating (me_codec menv) ?ec (Some g')\<lparr>ec_secretScope := mw_orgID mw, ec_pending := mws\<rparr>"
  obtain fe' where fe': "engine_run reg menv fuel' g' ?ec' = Inr fe'" "fr_nested res = fe_executed fe'"
    using g'(2) by (auto simp: nested_run_def nestedForwardResult_def split: sum.splits)
  have "ec_pending ?ec' = mws" "ec_forcePassthrough ?ec'" using keep by (simp_all add: delegating_def)
  then show ?thesis using g'(1) fe' n(5) by metis
qed

lemma pending_run:
  assumes "engine_run reg menv fuel g ec = Inr fe" "ec_forcePassthrough ec" "ec_pending ec = map engine_middleware rest"
    and "hm_graph mw = Some g" "\<forall>m \<in> set (mw # rest). leaves_model reg m"
  shows "ran_chain reg menv (map engine_middleware (mw # rest)) fe"
  using assms
proof (induction rest arbitrary: fuel g ec fe mw)
  case Nil
  then show ?case by (auto simp: engine_middleware_def)
next
  case (Cons mw2 rest)
  have "\<exists>g' fuel' ec' fe'. mw_graph (engine_middleware mw2) = Some g' \<and> ec_pending ec' = map engine_middleware rest \<and>
      ec_forcePassthrough ec' \<and> engine_run reg menv fuel' g' ec' = Inr fe' \<and> set (fe_executed fe') \<subseteq> set (fe_executed fe)"
    using Cons.prems by (intro chain_continues [OF Cons.prems(1,2)]) (auto simp: leaves_model_def)
  then obtain g' fuel' ec' fe' where n: "hm_graph mw2 = Some g'" "ec_pending ec' = map engine_middleware rest"
      "ec_forcePassthrough ec'" "engine_run reg menv fuel' g' ec' = Inr fe'" "set (fe_executed fe') \<subseteq> set (fe_executed fe)"
    by (auto simp: engine_middleware_def)
  have "ran_chain reg menv (map engine_middleware (mw2 # rest)) fe'"
    using Cons.prems(5) by (intro Cons.IH [OF n(4,3,2,1)]) simp
  then obtain fuel2 ec2 fe2 where "engine_run reg menv fuel2 g' ec2 = Inr fe2" "ec_pending ec2 = map engine_middleware rest"
      "set (fe_executed fe2) \<subseteq> set (fe_executed fe)" "ran_chain reg menv (map engine_middleware rest) fe2"
    using n(1,5) by (auto simp: engine_middleware_def)
  then have inner: "ran_chain reg menv (map engine_middleware (mw2 # rest)) fe" using n(1) by (auto simp: engine_middleware_def)
  have "mw_graph (engine_middleware mw) = Some g" using Cons.prems(4) by (simp add: engine_middleware_def)
  then show ?case using Cons.prems(1,3) inner by (auto simp del: ran_chain.simps(2) simp: ran_chain.simps(2) [of _ _ "engine_middleware mw"])
qed

lemma finish_Inr:
  assumes "finishForwardExecution env req ec run = (req', None)"
  obtains fe where "run = Inr fe" "hq_exec req' = Some fe"
  using assms by (auto simp: finishForwardExecution_def Let_def split: sum.splits if_splits)

lemma run_middlewares_run:
  assumes "run_middlewares env cx req org mw rest g = (req', None)"
  obtains fe ec where "hq_exec req' = Some fe" "he_run env (Some (request_access_of req org)) g ec = Inr fe" "ec_forcePassthrough ec"
    "ec_pending ec = map engine_middleware rest" "ec_targetModelName ec = hq_model req" "ec_orgID ec = og_id org"
  using assms
  by (auto simp: run_middlewares_def Let_def delegating_def buildMiddlewareEC_def elim!: finish_Inr)

lemma run_middlewares_ran:
  assumes "run_middlewares env cx req org mw rest g = (req', None)" "hm_graph mw = Some g"
    and "he_run env (Some (request_access_of req org)) = engine_run reg menv fuel" "\<forall>m \<in> set (mw # rest). leaves_model reg m"
  shows "\<exists>fe. hq_exec req' = Some fe \<and> ran_chain reg menv (map engine_middleware (mw # rest)) fe"
proof -
  obtain fe ec where fe: "hq_exec req' = Some fe" "engine_run reg menv fuel g ec = Inr fe" "ec_forcePassthrough ec"
      "ec_pending ec = map engine_middleware rest"
    using run_middlewares_run [OF assms(1)] assms(3) by metis
  then show ?thesis using pending_run [OF fe(2-4) assms(2,4)] by blast
qed

text \<open>What the hook reads of the request before the middlewares: a completion request for a model of an organization.\<close>

definition names_model :: "('c, 't, 'e) hook_env \<Rightarrow> 'e request_context \<Rightarrow> ('c, 't) hook_request \<Rightarrow> organization \<Rightarrow> model_ref \<Rightarrow> virtual_model option \<Rightarrow> bool" where
  "names_model env cx req org ref targetVM \<longleftrightarrow>
     requestKind (hq_type req) = ModelKindCompletion \<and>
     (\<exists>name. ParseModelName (hq_model req) None = Some name \<and> Qualified name \<and> \<not> Personal name \<and>
        he_orgBySlug env (cx_tenantID cx) (mn_org name) = Inr org \<and>
        target_ref env (og_id org) (mn_local name) = Some (ref, targetVM, ModelKindCompletion))"

definition populated :: "'e request_context \<Rightarrow> ('c, 't) hook_request \<Rightarrow> ('c, 't) hook_request" where
  "populated cx req = req\<lparr>hq_meta := PopulateMetaFromContext cx (hq_meta req)\<rparr>"

lemma populated_sel [simp]:
  "hq_model (populated cx req) = hq_model req" "hq_type (populated cx req) = hq_type req" "hq_exec (populated cx req) = hq_exec req"
  by (simp_all add: populated_def)

lemma populated_team [simp]: "TeamIDFromMeta (hq_meta (populated cx req)) = TeamIDFromMeta (hq_meta req)"
  by (simp add: populated_def TeamIDFromMeta_def meta_string_def PopulateMetaFromContext_def set_nonempty_def)

lemma PipelinePreRequest_eq:
  "PipelinePreRequest env cx req =
     (case applyMiddlewares env cx (populated cx req) of
        Some (req', a) \<Rightarrow> (req', Inr a)
      | None \<Rightarrow>
          (case lookupVirtualModel env cx (hq_model req) of
             None \<Rightarrow> (populated cx req, Inr None)
           | Some target \<Rightarrow> run_virtual env cx (populated cx req) target))"
  by (simp only: PipelinePreRequest_def Let_def populated_def [symmetric] populated_sel)

text \<open>
  C16.  No request goes around the middlewares of its organization.  When the store lists its enabled middlewares and they
  leave the model to their model nodes (no fallback node or answering plugin in their graphs), a completion request for a
  model of the organization that gets past the hook has run every enabled middleware that wraps the model and is attached
  to no team: the graph of each ran to its end, in their order of priority, each inside the one before, with its nodes among
  those whose backward passes follow the response; whatever ran inside them belongs to the team the request is attributed to.
\<close>

theorem organization_middlewares_run:
  assumes run: "PipelinePreRequest env cx req = (req', Inr None)"
    and list: "he_middlewares env = Some listEnabled" "listEnabled (og_id org) = Inr mws"
    and target: "names_model env cx req org ref targetVM"
    and mw: "mw \<in> set mws" "wraps mw ref" "org_level env (og_id org) mw"
    and engine: "he_run env (Some (request_access_of (populated cx req) org)) = engine_run reg menv fuel"
    and leaves: "\<forall>m \<in> set mws. leaves_model reg m"
  shows "\<exists>orgs ofs fe. hq_exec req' = Some fe \<and> ran_chain reg menv (map engine_middleware (orgs @ ofs)) fe \<and>
    orgs = filter (\<lambda>mw. wraps mw ref \<and> org_level env (og_id org) mw) mws \<and> mw \<in> set orgs \<and>
    (\<forall>mw \<in> set ofs. wraps mw ref \<and> of_team env (og_id org) (TeamIDFromMeta (hq_meta req)) mw)"
proof -
  let ?req = "populated cx req" and ?team = "TeamIDFromMeta (hq_meta req)"
  have step: "applyMiddlewares env cx ?req =
    (case orderedMiddlewares env (og_id org) ?team (applicableMiddlewares mws ref) of
       Inl _ \<Rightarrow> Some (?req, Some (hook_error 500 ''server_error'' ''Could not resolve the middlewares of the request.'' ''pipeline_error''))
     | Inr [] \<Rightarrow> None
     | Inr (mw # rest) \<Rightarrow>
         (case assertTargetAccess cx ?req org ref targetVM of
            Some a \<Rightarrow> Some (?req, Some a)
          | None \<Rightarrow> (case hm_graph mw of None \<Rightarrow> None | Some g \<Rightarrow> Some (run_middlewares env cx ?req org mw rest g))))"
    using list target mw(1) by (auto simp: applyMiddlewares_def names_model_def)
  have app: "mw \<in> set (applicableMiddlewares mws ref)" using mw by (simp add: set_applicable)
  have filt: "filter (org_level env (og_id org)) (applicableMiddlewares mws ref) =
      filter (\<lambda>mw. wraps mw ref \<and> org_level env (og_id org) mw) mws"
    by (auto simp: applicableMiddlewares_def wraps_def intro: filter_cong)
  show ?thesis
  proof (cases "orderedMiddlewares env (og_id org) ?team (applicableMiddlewares mws ref)")
    case (Inl e)
    then show ?thesis using run by (simp add: PipelinePreRequest_eq step)
  next
    case (Inr chain)
    obtain orgs ofs where split: "chain = orgs @ ofs" "orgs = filter (org_level env (og_id org)) (applicableMiddlewares mws ref)"
        "\<forall>x \<in> set ofs. x \<in> set (applicableMiddlewares mws ref) \<and> of_team env (og_id org) ?team x"
      using orderedMiddlewares_split [OF Inr] by blast
    have mem: "mw \<in> set orgs" using split(2) app mw(3) by simp
    then have "chain \<noteq> []" using split(1) by auto
    then obtain first rest where chain: "chain = first # rest" by (meson neq_Nil_conv)
    have "set chain \<subseteq> set (applicableMiddlewares mws ref)" using split by auto
    then have "first \<in> set (applicableMiddlewares mws ref)" using chain by simp
    then obtain g where g: "hm_graph first = Some g" by (auto simp: set_applicable wraps_def)
    have "run_middlewares env cx ?req org first rest g = (req', None)"
      using run Inr chain g
      by (auto simp: PipelinePreRequest_eq step split: option.splits prod.splits)
    moreover have "\<forall>m \<in> set (first # rest). leaves_model reg m"
      using leaves split(1,3) chain \<open>set chain \<subseteq> set (applicableMiddlewares mws ref)\<close> by (auto simp: set_applicable)
    ultimately obtain fe where "hq_exec req' = Some fe" "ran_chain reg menv (map engine_middleware (orgs @ ofs)) fe"
      using run_middlewares_ran [OF _ g engine] chain split(1) by metis
    then show ?thesis using split mem filt by (intro exI [of _ orgs] exI [of _ ofs] exI [of _ fe]) (auto simp: set_applicable)
  qed
qed

section \<open>Nothing runs without access\<close>

text \<open>
  What a request runs, and why it may.  A virtual model of an organization: its own graph, with the access of the request in
  that organization, delegating the static references of that graph; the team the request is attributed to, or the
  organization-wide access, lets it use the virtual model.
\<close>

definition ran_virtual :: "('c, 't, 'e) hook_env \<Rightarrow> 'e request_context \<Rightarrow> ('c, 't) hook_request \<Rightarrow> ('c, 't) forward_execution \<Rightarrow> bool" where
  "ran_virtual env cx req fe \<longleftrightarrow>
     (\<exists>org vm perms g ec. lookupVirtualModel env cx (hq_model req) = Some (OrgVirtual org vm) \<and>
        ResolvePermissions cx (og_id org) = Inr perms \<and> CanUseModel perms (TeamIDFromMeta (hq_meta req)) (vm_id vm) ModelKindVirtual \<and>
        vm_graph vm = Some g \<and> he_run env (Some (request_access_of req org)) g ec = Inr fe \<and> ec_orgID ec = og_id org \<and>
        ec_teamID ec = TeamIDFromMeta (hq_meta req) \<and> ec_delegated ec = refKey ec ` set (StaticModelRefs (he_codec env) (Some g)) \<and>
        ec_pending ec = [])"

text \<open>
  A model wrapped by middlewares: the graph of an enabled middleware of its organization that wraps it, with the access of
  the request there and the model as its target; the request may use that model.
\<close>

definition ran_wrapped :: "('c, 't, 'e) hook_env \<Rightarrow> 'e request_context \<Rightarrow> ('c, 't) hook_request \<Rightarrow> ('c, 't) forward_execution \<Rightarrow> bool" where
  "ran_wrapped env cx req fe \<longleftrightarrow>
     (\<exists>org ref targetVM perms listEnabled mws mw rest g ec. names_model env cx req org ref targetVM \<and>
        ResolvePermissions cx (og_id org) = Inr perms \<and> CanUseModel perms (TeamIDFromMeta (hq_meta req)) (mf_id ref) (mf_kind ref) \<and>
        he_middlewares env = Some listEnabled \<and> listEnabled (og_id org) = Inr mws \<and> set (mw # rest) \<subseteq> {m \<in> set mws. wraps m ref} \<and>
        hm_graph mw = Some g \<and> he_run env (Some (request_access_of req org)) g ec = Inr fe \<and> ec_orgID ec = og_id org \<and>
        ec_targetModelName ec = hq_model req \<and> ec_pending ec = map engine_middleware rest)"

text \<open>
  A personal virtual model of the caller: its own graph, with the access of the request in the organization of the token,
  delegating nothing; the caller may create personal virtual models there.
\<close>

definition ran_personal :: "('c, 't, 'e) hook_env \<Rightarrow> 'e request_context \<Rightarrow> ('c, 't) hook_request \<Rightarrow> ('c, 't) forward_execution \<Rightarrow> bool" where
  "ran_personal env cx req fe \<longleftrightarrow>
     (\<exists>pvm perms org g ec. lookupVirtualModel env cx (hq_model req) = Some (PersonalVirtual pvm) \<and>
        ResolvePermissions cx (token_org cx req) = Inr perms \<and> Has perms PermPersonalVMCreate \<and>
        he_orgByID env (token_org cx req) = Inr org \<and> pvm_graph pvm = Some g \<and>
        he_run env (Some (request_access_of req org)) g ec = Inr fe \<and> ec_orgID ec = token_org cx req \<and> ec_delegated ec = {} \<and>
        ec_pending ec = [])"

lemma assertVirtualModelAccess_ok:
  assumes "assertVirtualModelAccess cx req target = None"
  shows "case target of
      OrgVirtual org vm \<Rightarrow> \<exists>perms. ResolvePermissions cx (og_id org) = Inr perms \<and>
        CanUseModel perms (TeamIDFromMeta (hq_meta req)) (vm_id vm) ModelKindVirtual
    | PersonalVirtual pvm \<Rightarrow> \<exists>perms. ResolvePermissions cx (token_org cx req) = Inr perms \<and> Has perms PermPersonalVMCreate"
  using assms by (auto simp: assertVirtualModelAccess_def Let_def split: hook_target.splits if_splits sum.splits)

lemma target_ref_shape:
  "target_ref env orgID loc = Some (ref, targetVM, kind) \<Longrightarrow>
     (case targetVM of Some vm \<Rightarrow> mf_kind ref = ModelKindVirtual \<and> mf_id ref = vm_id vm | None \<Rightarrow> mf_kind ref = ModelKindLLM)"
  by (auto simp: target_ref_def split: option.splits sum.splits)

lemma ordered_subset: "orderedMiddlewares env orgID teamID applicable = Inr chain \<Longrightarrow> set chain \<subseteq> set applicable"
  using orderedMiddlewares_split [of env orgID teamID applicable chain] by auto

lemma applyMiddlewares_ok:
  assumes "applyMiddlewares env cx req = Some (req', None)"
  shows "\<exists>org ref targetVM listEnabled mws mw rest g. names_model env cx req org ref targetVM \<and> assertTargetAccess cx req org ref targetVM = None \<and>
    he_middlewares env = Some listEnabled \<and> listEnabled (og_id org) = Inr mws \<and> set (mw # rest) \<subseteq> {m \<in> set mws. wraps m ref} \<and>
    hm_graph mw = Some g \<and> run_middlewares env cx req org mw rest g = (req', None)"
proof -
  obtain listEnabled name org mws ref targetVM mw rest g where l: "he_middlewares env = Some listEnabled"
      "requestKind (hq_type req) = ModelKindCompletion" "ParseModelName (hq_model req) None = Some name" "Qualified name" "\<not> Personal name"
      "he_orgBySlug env (cx_tenantID cx) (mn_org name) = Inr org" "listEnabled (og_id org) = Inr mws"
      "target_ref env (og_id org) (mn_local name) = Some (ref, targetVM, ModelKindCompletion)"
      "orderedMiddlewares env (og_id org) (TeamIDFromMeta (hq_meta req)) (applicableMiddlewares mws ref) = Inr (mw # rest)"
      "assertTargetAccess cx req org ref targetVM = None" "hm_graph mw = Some g" "run_middlewares env cx req org mw rest g = (req', None)"
    using assms by (auto simp: applyMiddlewares_def split: option.splits if_splits sum.splits list.splits prod.splits)
  have "set (mw # rest) \<subseteq> {m \<in> set mws. wraps m ref}" using ordered_subset [OF l(9)] by (auto simp: set_applicable)
  moreover have "names_model env cx req org ref targetVM" using l unfolding names_model_def by blast
  ultimately show ?thesis using l by blast
qed

lemma assertTargetAccess_ok:
  assumes "assertTargetAccess cx req org ref targetVM = None" "names_model env cx req org ref targetVM"
  shows "\<exists>perms. ResolvePermissions cx (og_id org) = Inr perms \<and> CanUseModel perms (TeamIDFromMeta (hq_meta req)) (mf_id ref) (mf_kind ref)"
proof -
  have shape: "case targetVM of Some vm \<Rightarrow> mf_kind ref = ModelKindVirtual \<and> mf_id ref = vm_id vm | None \<Rightarrow> mf_kind ref = ModelKindLLM"
    using assms(2) target_ref_shape by (auto simp: names_model_def)
  show ?thesis
  proof (cases targetVM)
    case (Some vm)
    then show ?thesis
      using shape assms(1) assertVirtualModelAccess_ok [of cx req "OrgVirtual org vm"]
      by (simp add: assertTargetAccess_def)
  next
    case None
    then show ?thesis
      using shape assms(1)
      by (auto simp: assertTargetAccess_def split: sum.splits if_splits)
  qed
qed

lemma run_virtual_ran:
  assumes "run_virtual env cx req target = (req', Inr None)" "lookupVirtualModel env cx (hq_model req) = Some target" "hq_exec req' = Some fe"
  shows "ran_virtual env cx req fe \<or> ran_personal env cx req fe"
proof -
  have ok: "assertVirtualModelAccess cx req target = None" using assms(1) by (auto simp: run_virtual_def split: option.splits)
  obtain g access ec where g: "(case target of OrgVirtual _ vm \<Rightarrow> vm_graph vm | PersonalVirtual pvm \<Rightarrow> pvm_graph pvm) = Some g"
      and ec: "buildEC env cx req target = Inr (access, ec)" and fe: "he_run env access g ec = Inr fe"
    using assms(1,3) ok by (auto simp: run_virtual_def split: if_splits option.splits sum.splits prod.splits elim!: finish_Inr)
  show ?thesis
  proof (cases target)
    case (OrgVirtual org vm)
    let ?base = "(base_ec env cx req)\<lparr>ec_orgID := og_id org, ec_orgSlug := og_slug org, ec_secretScope := vm_orgID vm, ec_visitedVMs := {vm_id vm}\<rparr>"
    have d: "ec = delegating (he_codec env) ?base (Some g)" "access = Some (request_access_of req org)"
      using ec g OrgVirtual by (auto simp: buildEC_def)
    have "refKey ec = refKey ?base" by (intro ext refKey_cong) (simp_all add: d(1) delegating_def)
    then have "access = Some (request_access_of req org)" "ec_orgID ec = og_id org" "ec_teamID ec = TeamIDFromMeta (hq_meta req)"
        "ec_delegated ec = refKey ec ` set (StaticModelRefs (he_codec env) (Some g))" "ec_pending ec = []"
      using d by (simp_all add: delegating_def base_ec_def)
    then show ?thesis
      using assertVirtualModelAccess_ok [OF ok] assms(2) g fe OrgVirtual unfolding ran_virtual_def by auto
  next
    case (PersonalVirtual pvm)
    have "token_org cx req \<noteq> []" using ok PersonalVirtual by (auto simp: assertVirtualModelAccess_def Let_def)
    then obtain org where "he_orgByID env (token_org cx req) = Inr org" "access = Some (request_access_of req org)"
        "ec_orgID ec = token_org cx req" "ec_delegated ec = {}" "ec_pending ec = []"
      using ec PersonalVirtual by (auto simp: buildEC_def base_ec_def Let_def result_simps split: if_splits)
    then show ?thesis
      using assertVirtualModelAccess_ok [OF ok] assms(2) g fe PersonalVirtual unfolding ran_personal_def by auto
  qed
qed

text \<open>
  C15.  The hook runs no pipeline the caller has no access to.  When a request leaves the hook with an execution it did not
  come with, that execution is the one of the engine on the pipeline of what the request names, with the access of the
  request: of the virtual model it may use, of an enabled middleware around the model it may use, or of the personal virtual
  model of a caller that may create them.
\<close>

theorem pipeline_runs_only_allowed:
  assumes run: "PipelinePreRequest env cx req = (req', Inr None)" and "hq_exec req = None" and "hq_exec req' = Some fe"
  shows "ran_virtual env cx (populated cx req) fe \<or> ran_wrapped env cx (populated cx req) fe \<or> ran_personal env cx (populated cx req) fe"
proof (cases "applyMiddlewares env cx (populated cx req)")
  case (Some r)
  then have "applyMiddlewares env cx (populated cx req) = Some (req', None)" using run by (cases r) (simp add: PipelinePreRequest_eq)
  from applyMiddlewares_ok [OF this] obtain org ref targetVM listEnabled mws mw rest g where m: "names_model env cx (populated cx req) org ref targetVM"
      "assertTargetAccess cx (populated cx req) org ref targetVM = None" "he_middlewares env = Some listEnabled"
      "listEnabled (og_id org) = Inr mws" "set (mw # rest) \<subseteq> {m \<in> set mws. wraps m ref}" "hm_graph mw = Some g"
      "run_middlewares env cx (populated cx req) org mw rest g = (req', None)"
    by (elim exE conjE) (rule that)
  obtain ec where ec: "he_run env (Some (request_access_of (populated cx req) org)) g ec = Inr fe" "ec_pending ec = map engine_middleware rest"
      "ec_targetModelName ec = hq_model (populated cx req)" "ec_orgID ec = og_id org"
    using run_middlewares_run [OF m(7)] assms(3) by (metis option.inject)
  show ?thesis unfolding ran_wrapped_def using assertTargetAccess_ok [OF m(2,1)] m ec by blast
next
  case None
  then obtain target where target: "lookupVirtualModel env cx (hq_model req) = Some target"
      "run_virtual env cx (populated cx req) target = (req', Inr None)"
    using run assms(2,3) by (auto simp: PipelinePreRequest_eq split: option.splits)
  then show ?thesis using run_virtual_ran [OF target(2) _ assms(3)] by auto
qed

section \<open>A store that fails drops the middlewares\<close>

text \<open>
  C38.  The middlewares are dropped when their list can not be read: a request for a real model then leaves the hook with
  no answer and no execution, as if the organization had none, whatever middlewares it has, and the router serves it.
\<close>

theorem middleware_list_failure_skips:
  assumes "he_middlewares env = Some listEnabled" and "\<And>orgID. listEnabled orgID = Inl e"
    and "lookupVirtualModel env cx (hq_model req) = None"
  shows "PipelinePreRequest env cx req = (populated cx req, Inr None)"
  using assms
  by (auto simp: PipelinePreRequest_eq applyMiddlewares_def split: option.splits sum.splits)

section \<open>Concrete requests\<close>

text \<open>The organization above with two middlewares on every model, \<open>audit\<close> of the organization and \<open>style\<close> of the team \<open>core\<close>.\<close>

definition demo_mw :: "string \<Rightarrow> hook_middleware" where
  "demo_mw i = \<lparr>hm_id = i, hm_name = i, hm_orgID = ''o1'', hm_graph = Some smart_graph, hm_appliesToAll = True, hm_targets = []\<rparr>"

text \<open>The engine with the built-in nodes and the router that knows \<open>gpt\<close>.\<close>

definition demo_nodes :: "(string, string, unit router_error model_error) registry" where
  "demo_nodes = map_option (relabel (\<lambda>_. ExecutorError (NotAvailable []))) \<circ> builtin_registry sample_env"

definition demo_models :: "request_access \<Rightarrow> (string, unit router_error) model_env" where
  "demo_models a =
     \<lparr>me_access = Some (access_hook acme_env acme_cx a), me_personal = None, me_virtual = None,
      me_resolver = ResolveRealModel gpt_router acme_cx, me_codec = delegation_codec, me_bodyMessages = (\<lambda>b. b)\<rparr>"

definition demo_hook :: "(string, string, unit) hook_env" where
  "demo_hook =
     \<lparr>he_orgBySlug = se_orgBySlug acme_env, he_orgByID = se_orgByID acme_env, he_virtual = \<lambda>_ _. Inl NotFound,
      he_llm = \<lambda>_ n. if n = ''gpt''
        then Inr (Some \<lparr>rm_id = ''m1'', rm_realModel = ''gpt-real'', rm_kind = ModelKindCompletion, rm_providerID = ''p''\<rparr>) else Inl NotFound,
      he_personal = None, he_middlewares = Some (\<lambda>_. Inr [demo_mw ''style'', demo_mw ''audit'']),
      he_teams = Some (\<lambda>_. Inr [\<lparr>ht_id = ''t1'', ht_middlewareIDs = [''style'']\<rparr>]),
      he_run = (\<lambda>access. case access of None \<Rightarrow> (\<lambda>_ _. Inl NoTerminalModel) | Some a \<Rightarrow> engine_run demo_nodes (demo_models a) 3),
      he_codec = delegation_codec, he_bodyMessages = \<lambda>b. b, he_displayName = \<lambda>u. u,
      he_applyMessages = \<lambda>req _ _. Inr req\<rparr>"

lemma demo_leaves: "leaves_model demo_nodes mw"
  unfolding leaves_model_def demo_nodes_def by (auto simp: relabel_forward dest: builtin_no_client)

definition demo_request :: "(string, string) hook_request" where
  "demo_request = \<lparr>hq_model = ''acme/gpt'', hq_type = RequestTypeChat, hq_body = [], hq_meta = [MetaTeamID \<mapsto> MetaString ''t1''], hq_exec = None\<rparr>"

lemma demo_hook_run:
  "snd (PipelinePreRequest demo_hook acme_cx demo_request) = Inr None"
  "map_option fe_modelID (hq_exec (fst (PipelinePreRequest demo_hook acme_cx demo_request))) = Some ''m1''"
  by code_simp+

lemma demo_names: "names_model demo_hook acme_cx demo_request acme \<lparr>mf_kind = ModelKindLLM, mf_id = ''m1''\<rparr> None"
  unfolding names_model_def
  by (intro conjI exI [of _ "\<lparr>mn_org = ''acme'', mn_team = [], mn_local = ''gpt''\<rparr>"]) code_simp+

theorem organization_middlewares_run_witness:
  "\<exists>ofs fe. hq_exec (fst (PipelinePreRequest demo_hook acme_cx demo_request)) = Some fe \<and>
    ran_chain demo_nodes (demo_models (request_access_of (populated acme_cx demo_request) acme)) (map engine_middleware ([demo_mw ''audit''] @ ofs)) fe"
proof -
  let ?ref = "\<lparr>mf_kind = ModelKindLLM, mf_id = ''m1''\<rparr>"
  have run: "PipelinePreRequest demo_hook acme_cx demo_request = (fst (PipelinePreRequest demo_hook acme_cx demo_request), Inr None)"
    using demo_hook_run(1) by (metis prod.collapse)
  have list: "he_middlewares demo_hook = Some (\<lambda>_. Inr [demo_mw ''style'', demo_mw ''audit''])" by (simp add: demo_hook_def)
  have lvl: "org_level demo_hook (og_id acme) (demo_mw i) \<longleftrightarrow> i \<noteq> ''style''" for i
    by (simp add: org_level_def demo_hook_def demo_mw_def)
  have wrap: "wraps (demo_mw i) ?ref" for i by (simp add: wraps_def demo_mw_def)
  have org: "org_level demo_hook (og_id acme) (demo_mw ''audit'')" by (simp add: lvl)
  have engine: "he_run demo_hook (Some a) = engine_run demo_nodes (demo_models a) 3" for a by (simp add: demo_hook_def)
  have leaves: "\<forall>m \<in> set [demo_mw ''style'', demo_mw ''audit'']. leaves_model demo_nodes m" using demo_leaves by blast
  have "filter (\<lambda>mw. wraps mw ?ref \<and> org_level demo_hook (og_id acme) mw) [demo_mw ''style'', demo_mw ''audit''] = [demo_mw ''audit'']"
    by (simp add: lvl wrap)
  moreover have "demo_mw ''audit'' \<in> set [demo_mw ''style'', demo_mw ''audit'']" by simp
  ultimately show ?thesis
    using organization_middlewares_run [OF run list refl demo_names _ wrap org engine leaves] by (elim meta_impE exE conjE) (auto simp del: ran_chain.simps)
qed

theorem pipeline_runs_only_allowed_witness:
  "\<exists>fe. hq_exec (fst (PipelinePreRequest demo_hook acme_cx demo_request)) = Some fe \<and> ran_wrapped demo_hook acme_cx (populated acme_cx demo_request) fe"
proof -
  obtain fe where fe: "hq_exec (fst (PipelinePreRequest demo_hook acme_cx demo_request)) = Some fe"
    using demo_hook_run(2) by auto
  have "PipelinePreRequest demo_hook acme_cx demo_request = (fst (PipelinePreRequest demo_hook acme_cx demo_request), Inr None)"
    using demo_hook_run(1) by (metis prod.collapse)
  moreover have "hq_exec demo_request = None" by (simp add: demo_request_def)
  moreover have "lookupVirtualModel demo_hook acme_cx (hq_model (populated acme_cx demo_request)) = None" by code_simp
  ultimately have "ran_wrapped demo_hook acme_cx (populated acme_cx demo_request) fe"
    using pipeline_runs_only_allowed [of demo_hook acme_cx demo_request _ fe] fe by (auto simp: ran_virtual_def ran_personal_def)
  then show ?thesis using fe by blast
qed

theorem middleware_list_failure_skips_witness:
  "PipelinePreRequest (demo_hook\<lparr>he_middlewares := Some (\<lambda>_. Inl ())\<rparr>) acme_cx demo_request = (populated acme_cx demo_request, Inr None)"
proof (rule middleware_list_failure_skips)
  show "he_middlewares (demo_hook\<lparr>he_middlewares := Some (\<lambda>_. Inl ())\<rparr>) = Some (\<lambda>_. Inl ())" by simp
  show "lookupVirtualModel (demo_hook\<lparr>he_middlewares := Some (\<lambda>_. Inl ())\<rparr>) acme_cx (hq_model demo_request) = None" by code_simp
qed simp

end
