(* ===== verification/Model_Router.thy ===== *)
theory Model_Router
  imports Pipeline_Hook Provider_Keys Quota_Enforcer
begin

text \<open>
  The router that turns the name of a model into the client that calls its provider
  (\<open>src/internal/adapter/proxy/org_model_router.go\<close>, \<open>model_kind.go\<close>, the constructors of \<open>extra_fields_client.go\<close>,
  \<open>timeout_client.go\<close> and \<open>key_failover_client.go\<close>, \<open>SetCommonOptions\<close> of \<open>src/internal/adapter/genai/options.go\<close>).

  A client is described by how it is put together: the client of a provider and the wrappers around it, with their settings.
  A built client is such a description with a serial number, its identity: the limiters inside are shared exactly when
  the number is.  The table of built clients may lose any entry between two calls, as the bounded table with expiry of the
  code does; lookups and builds run under its lock.  \<open>route_env\<close> holds the stores, the decryption of keys and, of the library
  of providers, which clients it offers, whose options carry the common ones and which it fails to create.
\<close>

section \<open>Models, providers and clients\<close>

record routed_model = real_model +
  rt_proxyName :: string
  rt_apiType :: string
  rt_baseURL :: string
  rt_outputWindow :: int
  rt_extraBody :: "(string \<times> string) list"
  rt_tokenLimit :: "(bool \<times> int \<times> int) option"
  rt_updatedAt :: int

record routed_provider = plan_provider +
  rp_name :: string
  rp_type :: string
  rp_baseURL :: string
  rp_active :: bool
  rp_headers :: "((string \<times> string) list \<times> string) option"
  rp_rateLimit :: "(bool \<times> int \<times> int) option"
  rp_retry :: "(bool \<times> int \<times> int) option"
  rp_updatedAt :: int

record common_options =
  co_baseURL :: string
  co_apiKey :: string
  co_model :: string
  co_headers :: "(string \<times> string) list"
  co_sessionHeader :: string

datatype llm_client =
    ChatClient string common_options int
  | EmbeddingsClient string common_options
  | DecisionClient string common_options
  | ExtraFields llm_client "(string \<times> string) list"
  | TokenLimit llm_client int int
  | RateLimit llm_client "int \<times> int" "(int \<times> int) option"
  | Retry llm_client int int
  | Timeout llm_client int

record built_client =
  bc_serial :: nat
  bc_client :: llm_client

record 'e route_env =
  rv_orgByID :: "string \<Rightarrow> ('e store_error, organization) result"
  rv_orgBySlug :: "string \<Rightarrow> string \<Rightarrow> ('e store_error, organization) result"
  rv_llm :: "string \<Rightarrow> string \<Rightarrow> ('e store_error, routed_model) result"
  rv_enabled :: "string \<Rightarrow> ('e store_error, routed_model list) result"
  rv_provider :: "string \<Rightarrow> ('e store_error, routed_provider) result"
  rv_decrypt :: "string \<Rightarrow> ('e, string) result"
  rv_common :: "string \<Rightarrow> bool"
  rv_hasChat :: "string \<Rightarrow> bool"
  rv_hasEmbeddings :: "string \<Rightarrow> bool"
  rv_hasDecision :: "string \<Rightarrow> bool"
  rv_createError :: "llm_client \<Rightarrow> 'e option"
  rv_timeout :: int

datatype 'e route_error =
    NoOrganization
  | InvalidName string
  | ModelUnavailable string
  | WrongKind string model_kind model_kind
  | NoEmbeddingsClient string string
  | NoDecisionClient string string
  | ProviderInactive string
  | NoSuchKey string
  | ConfigurationError
  | CreateFailed string 'e
  | UnknownProvider string
  | RouteStore "'e store_error"
  | RoutePermissions 'e

section \<open>Putting a client together\<close>

definition ModelAPIType :: "routed_model \<Rightarrow> routed_provider \<Rightarrow> string" where
  "ModelAPIType m p = (if rt_apiType m \<noteq> [] then rt_apiType m else rp_type p)"

definition ModelBaseURL :: "routed_model \<Rightarrow> routed_provider \<Rightarrow> string" where
  "ModelBaseURL m p = (if rt_baseURL m \<noteq> [] then rt_baseURL m else rp_baseURL p)"

definition SetCommonOptions :: "bool \<Rightarrow> string \<Rightarrow> string \<Rightarrow> string \<Rightarrow> ((string \<times> string) list \<times> string) option \<Rightarrow> common_options" where
  "SetCommonOptions common baseURL apiKey modelName headers =
     (if common
      then \<lparr>co_baseURL = baseURL, co_apiKey = apiKey, co_model = modelName,
            co_headers = (case headers of Some (hs, _) \<Rightarrow> hs | None \<Rightarrow> []),
            co_sessionHeader = (case headers of Some (_, s) \<Rightarrow> s | None \<Rightarrow> [])\<rparr>
      else \<lparr>co_baseURL = [], co_apiKey = [], co_model = [], co_headers = [], co_sessionHeader = []\<rparr>)"

definition maxDefaultMaxTokens :: int where
  "maxDefaultMaxTokens = 16384"

definition defaultMaxTokensFor :: "routed_model \<Rightarrow> int" where
  "defaultMaxTokensFor m = (if rt_outputWindow m \<le> 0 then 0 else min (rt_outputWindow m) maxDefaultMaxTokens)"

definition maxTokensProviders :: "string list" where
  "maxTokensProviders = [''anthropic'']"

text \<open>The default of zero stands for the provider's own.\<close>

definition withDynamicChatCompletion :: "'e route_env \<Rightarrow> string \<Rightarrow> common_options \<Rightarrow> int \<Rightarrow> ('e route_error, llm_client) result" where
  "withDynamicChatCompletion env name options maxTokens =
     (if \<not> rv_hasChat env name then Inl (UnknownProvider name)
      else Inr (ChatClient name options (if name \<in> set maxTokensProviders \<and> maxTokens > 0 then maxTokens else 0)))"

definition withDynamicEmbeddings :: "'e route_env \<Rightarrow> string \<Rightarrow> common_options \<Rightarrow> ('e route_error, llm_client) result" where
  "withDynamicEmbeddings env name options =
     (if \<not> rv_hasEmbeddings env name then Inl (UnknownProvider name) else Inr (EmbeddingsClient name options))"

text \<open>\<open>provider.Create\<close>, which may refuse the options it is given.\<close>

definition provider_Create :: "'e route_env \<Rightarrow> string \<Rightarrow> ('e route_error, llm_client) result \<Rightarrow> ('e route_error, llm_client) result" where
  "provider_Create env name options =
     rbind options (\<lambda>c. case rv_createError env c of Some e \<Rightarrow> Inl (CreateFailed name e) | None \<Rightarrow> Inr c)"

definition newExtraFieldsClient :: "llm_client \<Rightarrow> (string \<times> string) list \<Rightarrow> llm_client" where
  "newExtraFieldsClient c fs = (if fs = [] then c else ExtraFields c fs)"

definition newTimeoutClient :: "llm_client \<Rightarrow> int \<Rightarrow> llm_client" where
  "newTimeoutClient c d = (if d \<le> 0 then c else Timeout c d)"

definition token_limited :: "(bool \<times> int \<times> int) option \<Rightarrow> llm_client \<Rightarrow> llm_client" where
  "token_limited cfg c = (case cfg of Some (True, maxTokens, interval) \<Rightarrow> TokenLimit c maxTokens interval | _ \<Rightarrow> c)"

definition rate_limited :: "bool \<Rightarrow> (bool \<times> int \<times> int) option \<Rightarrow> llm_client \<Rightarrow> llm_client" where
  "rate_limited embeddings cfg c =
     (case cfg of
        Some (True, interval, burst) \<Rightarrow> RateLimit c (interval, burst) (if embeddings then Some (interval, burst) else None)
      | _ \<Rightarrow> c)"

definition retried :: "(bool \<times> int \<times> int) option \<Rightarrow> llm_client \<Rightarrow> llm_client" where
  "retried cfg c = (case cfg of Some (True, delay, attempts) \<Rightarrow> Retry c delay attempts | _ \<Rightarrow> c)"

definition decisionClient :: "'e route_env \<Rightarrow> routed_model \<Rightarrow> routed_provider \<Rightarrow> string \<Rightarrow> string \<Rightarrow> string \<Rightarrow> ('e route_error, llm_client) result" where
  "decisionClient env m p name baseURL apiKey =
     (if \<not> rv_hasDecision env name then Inl (NoDecisionClient (rt_proxyName m) name)
      else
        rmap (\<lambda>c. newTimeoutClient (retried (rp_retry p) (rate_limited False (rp_rateLimit p) c)) (rv_timeout env))
          (provider_Create env (rp_name p)
             (Inr (DecisionClient name (SetCommonOptions (rv_common env name) baseURL apiKey (rm_realModel m) (rp_headers p))))))"

definition conversation_client :: "'e route_env \<Rightarrow> routed_model \<Rightarrow> routed_provider \<Rightarrow> string \<Rightarrow> string \<Rightarrow> string \<Rightarrow> ('e route_error, llm_client) result" where
  "conversation_client env m p name baseURL apiKey =
     (let options = SetCommonOptions (rv_common env name) baseURL apiKey (rm_realModel m) (rp_headers p)
      in if rm_kind m = ModelKindEmbeddings \<and> \<not> rv_hasEmbeddings env name
         then Inl (NoEmbeddingsClient (rt_proxyName m) name)
         else
           rmap (\<lambda>c. newTimeoutClient
               (retried (rp_retry p) (rate_limited True (rp_rateLimit p)
                 (token_limited (rt_tokenLimit m) (newExtraFieldsClient c (rt_extraBody m))))) (rv_timeout env))
             (provider_Create env (rp_name p)
                (if rm_kind m = ModelKindEmbeddings then withDynamicEmbeddings env name options
                 else withDynamicChatCompletion env name options (defaultMaxTokensFor m))))"

definition build_client :: "'e route_env \<Rightarrow> routed_model \<Rightarrow> routed_provider \<Rightarrow> provider_key \<Rightarrow> ('e route_error, llm_client) result" where
  "build_client env m p key =
     (case rv_decrypt env (pk_apiKey key) of
        Inl _ \<Rightarrow> Inl ConfigurationError
      | Inr apiKey \<Rightarrow>
          (if rm_kind m = ModelKindDecision
           then decisionClient env m p (ModelAPIType m p) (ModelBaseURL m p) apiKey
           else conversation_client env m p (ModelAPIType m p) (ModelBaseURL m p) apiKey))"

section \<open>Built clients are kept\<close>

text \<open>The fingerprint prints the two times of update, separated by a slash: it is the pair of them.\<close>

type_synonym fingerprint = "int \<times> int"

record router_state =
  rs_clients :: "((string \<times> string) \<times> built_client \<times> fingerprint) list"
  rs_next :: nat

definition new_router :: router_state where
  "new_router = \<lparr>rs_clients = [], rs_next = 0\<rparr>"

definition fingerprint_of :: "routed_model \<Rightarrow> routed_provider \<Rightarrow> fingerprint" where
  "fingerprint_of m p = (rt_updatedAt m, rp_updatedAt p)"

definition provider_view :: "routed_provider \<Rightarrow> plan_provider" where
  "provider_view p = plan_provider.truncate p"

definition clientForProvider :: "'e route_env \<Rightarrow> routed_model \<Rightarrow> routed_provider \<Rightarrow> string \<Rightarrow> router_state
    \<Rightarrow> ('e route_error, built_client) result \<times> router_state" where
  "clientForProvider env m p keyID st =
     (if \<not> rp_active p then (Inl (ProviderInactive (rp_name p)), st)
      else
        (case ProviderKeyByID (provider_view p) keyID of
           None \<Rightarrow> (Inl (NoSuchKey (rp_name p)), st)
         | Some key \<Rightarrow>
             (let build =
                 (case build_client env m p key of
                    Inl e \<Rightarrow> (Inl e, st)
                  | Inr c \<Rightarrow>
                      (let built = \<lparr>bc_serial = rs_next st, bc_client = c\<rparr>
                       in (Inr built, st\<lparr>rs_clients := AList.update (rm_id m, keyID) (built, fingerprint_of m p) (rs_clients st),
                                         rs_next := Suc (rs_next st)\<rparr>)))
              in case map_of (rs_clients st) (rm_id m, keyID) of
                   Some (c, fp) \<Rightarrow> if fp = fingerprint_of m p then (Inr c, st) else build
                 | None \<Rightarrow> build)))"

definition clientForModel :: "'e route_env \<Rightarrow> routed_model \<Rightarrow> router_state \<Rightarrow> ('e route_error, built_client) result \<times> router_state" where
  "clientForModel env m st =
     (case rv_provider env (rm_providerID m) of
        Inl e \<Rightarrow> (Inl (RouteStore e), st)
      | Inr p \<Rightarrow> clientForProvider env m p PrimaryProviderKey st)"

section \<open>Resolving a request\<close>

text \<open>The client of a request: one built client, or several with their keys, tried in order.\<close>

datatype request_client = OneKey built_client | KeyFailover "(string \<times> built_client) list"

definition newKeyFailoverClient :: "(string \<times> built_client) list \<Rightarrow> request_client" where
  "newKeyFailoverClient clients = (if length clients = 1 then OneKey (snd (hd clients)) else KeyFailover clients)"

fun fallback_clients :: "'e route_env \<Rightarrow> routed_model \<Rightarrow> routed_provider \<Rightarrow> string list \<Rightarrow> router_state
    \<Rightarrow> (string \<times> built_client) list \<times> router_state" where
  "fallback_clients env m p [] st = ([], st)"
| "fallback_clients env m p (k # ks) st =
     (case clientForProvider env m p k st of
        (Inl _, st') \<Rightarrow> fallback_clients env m p ks st'
      | (Inr c, st') \<Rightarrow> (case fallback_clients env m p ks st' of (cs, st'') \<Rightarrow> ((k, c) # cs, st'')))"

definition keyedClient :: "'e route_env \<Rightarrow> string \<Rightarrow> string list \<Rightarrow> routed_model \<Rightarrow> routed_provider \<Rightarrow> router_state
    \<Rightarrow> ('e route_error, request_client) result \<times> router_state" where
  "keyedClient env chosen fallbacks m p st =
     (case clientForProvider env m p chosen st of
        (Inl e, st') \<Rightarrow> (Inl e, st')
      | (Inr c, st') \<Rightarrow>
          (case fallback_clients env m p fallbacks st' of
             (cs, st'') \<Rightarrow>
               (Inr (if rm_kind m = ModelKindDecision then OneKey c else newKeyFailoverClient ((chosen, c) # cs)), st'')))"

text \<open>Of a request, what the router reads: the key chosen for it and those it may move to are metadata of their own types.\<close>

record routed_request = scope_request +
  rr_type :: request_type
  rr_key :: string
  rr_fallbacks :: "string list"
  rr_keyUsed :: string

definition checkRequestKind :: "routed_request \<Rightarrow> routed_model \<Rightarrow> 'e route_error option" where
  "checkRequestKind req m =
     (if rm_kind m = requestKind (rr_type req) then None
      else Some (WrongKind (sq_model req) (rm_kind m) (requestKind (rr_type req))))"

definition with_model_id :: "routed_model \<Rightarrow> routed_request \<Rightarrow> routed_request" where
  "with_model_id m req = req\<lparr>sq_meta := (sq_meta req)(MetaModelID \<mapsto> MetaString (rm_id m)), rr_keyUsed := rr_key req\<rparr>"

definition route_found :: "'e route_env \<Rightarrow> 'e request_context \<Rightarrow> organization \<Rightarrow> routed_model \<Rightarrow> routed_request \<Rightarrow> router_state
    \<Rightarrow> ('e route_error, request_client \<times> string) result \<times> routed_request \<times> router_state" where
  "route_found env cx org m req st =
     (case ResolvePermissions cx (og_id org) of
        Inl e \<Rightarrow> (Inl (RoutePermissions e), req, st)
      | Inr perms \<Rightarrow>
          if \<not> CanUseModel perms (TeamIDFromMeta (sq_meta req)) (rm_id m) ModelKindLLM then (Inl (ModelUnavailable (sq_model req)), req, st)
          else
            (case rv_provider env (rm_providerID m) of
               Inl e \<Rightarrow> (Inl (RouteStore e), req, st)
             | Inr p \<Rightarrow>
                 (case checkRequestKind req m of
                    Some e \<Rightarrow> (Inl e, req, st)
                  | None \<Rightarrow>
                      if rr_type req = RequestTypeEmbedding \<and> \<not> rv_hasEmbeddings env (ModelAPIType m p)
                      then (Inl (NoEmbeddingsClient (sq_model req) (ModelAPIType m p)), req, st)
                      else
                        (case keyedClient env (rr_key req) (rr_fallbacks req) m p st of
                           (Inl e, st') \<Rightarrow> (Inl e, with_model_id m req, st')
                         | (Inr c, st') \<Rightarrow> (Inr (c, rm_realModel m), with_model_id m req, st')))))"

definition ResolveModel :: "'e route_env \<Rightarrow> 'e request_context \<Rightarrow> routed_request \<Rightarrow> router_state
    \<Rightarrow> ('e route_error, request_client \<times> string) result \<times> routed_request \<times> router_state" where
  "ResolveModel env cx req0 st =
     (let req = req0\<lparr>sq_meta := PopulateMetaFromContext cx (sq_meta req0)\<rparr>; tokenOrgID = OrgIDFromMeta (sq_meta req)
      in if tokenOrgID = [] then (Inl NoOrganization, req, st)
         else
           (case parseQualifiedModelName (sq_model req) of
              None \<Rightarrow> (Inl (InvalidName (sq_model req)), req, st)
            | Some (orgSlug, proxyName) \<Rightarrow>
                (case rv_orgBySlug env (cx_tenantID cx) orgSlug of
                   Inl NotFound \<Rightarrow> (Inl (ModelUnavailable (sq_model req)), req, st)
                 | Inl e \<Rightarrow> (Inl (RouteStore e), req, st)
                 | Inr org \<Rightarrow>
                     if \<not> og_active org \<or> og_id org \<noteq> tokenOrgID then (Inl (ModelUnavailable (sq_model req)), req, st)
                     else
                       (case rv_llm env (og_id org) proxyName of
                          Inl NotFound \<Rightarrow> (Inl (ModelUnavailable (sq_model req)), req, st)
                        | Inl e \<Rightarrow> (Inl (RouteStore e), req, st)
                        | Inr m \<Rightarrow> route_found env cx org m req st))))"

definition ListModels :: "'e route_env \<Rightarrow> 'e request_context \<Rightarrow> ('e route_error, string list) result" where
  "ListModels env cx =
     (if cx_orgID cx = [] then Inr []
      else
        (case rv_orgByID env (cx_orgID cx) of
           Inl e \<Rightarrow> Inl (RouteStore e)
         | Inr org \<Rightarrow>
             if \<not> og_active org then Inr []
             else
               (case rv_enabled env (cx_orgID cx) of
                  Inl e \<Rightarrow> Inl (RouteStore e)
                | Inr models \<Rightarrow>
                    (case ResolvePermissions cx (cx_orgID cx) of
                       Inl e \<Rightarrow> Inl (RoutePermissions e)
                     | Inr perms \<Rightarrow>
                         Inr (concat (map (\<lambda>m. ListedModelNames perms (BoundTeamIDFromContext cx) (og_slug org) (rt_proxyName m) (rm_id m) ModelKindLLM)
                                models))))))"


section \<open>Built clients are those of the current settings\<close>

text \<open>The client the settings describe, whether or not the library manages to create it now.\<close>

definition assembled :: "'e route_env \<Rightarrow> routed_model \<Rightarrow> routed_provider \<Rightarrow> provider_key \<Rightarrow> ('e route_error, llm_client) result" where
  "assembled env m p key = build_client (env\<lparr>rv_createError := (\<lambda>_. None)\<rparr>) m p key"

definition same_settings :: "'e route_env \<Rightarrow> 'e route_env \<Rightarrow> bool" where
  "same_settings env env' \<longleftrightarrow>
     rv_decrypt env = rv_decrypt env' \<and> rv_common env = rv_common env' \<and> rv_hasChat env = rv_hasChat env' \<and>
     rv_hasEmbeddings env = rv_hasEmbeddings env' \<and> rv_hasDecision env = rv_hasDecision env' \<and> rv_timeout env = rv_timeout env'"

lemma assembled_same: "same_settings env env' \<Longrightarrow> assembled env m p key = assembled env' m p key"
  by (cases "rv_decrypt env' (pk_apiKey key)") (simp_all add: same_settings_def assembled_def build_client_def decisionClient_def conversation_client_def provider_Create_def
      withDynamicChatCompletion_def withDynamicEmbeddings_def Let_def)

lemma build_assembled:
  assumes "build_client env m p key = Inr c"
  shows "assembled env m p key = Inr c"
proof -
  have create: "provider_Create (env\<lparr>rv_createError := \<lambda>_. None\<rparr>) name x = Inr d" if "provider_Create env name x = Inr d" for name x d
    using that by (cases x) (auto simp: provider_Create_def split: option.splits)
  have "rmap f (provider_Create (env\<lparr>rv_createError := \<lambda>_. None\<rparr>) name x) = Inr d" if "rmap f (provider_Create env name x) = Inr d" for f name x d
    using that create by (cases "provider_Create env name x") auto
  then show ?thesis
    using assms
    by (auto simp: assembled_def build_client_def decisionClient_def conversation_client_def withDynamicChatCompletion_def
        withDynamicEmbeddings_def Let_def split: sum.splits if_splits)
qed

text \<open>
  The states of a router that served models and providers of \<open>V\<close>, under one set of settings, with stores and creations that
  may fail at any call; an entry may be lost at any time.
\<close>

inductive router_reachable :: "'e route_env \<Rightarrow> (routed_model \<times> routed_provider) set \<Rightarrow> router_state \<Rightarrow> bool" for base V where
  router_new: "router_reachable base V new_router"
| router_call: "router_reachable base V st \<Longrightarrow> (m, p) \<in> V \<Longrightarrow> same_settings env base \<Longrightarrow>
    router_reachable base V (snd (clientForProvider env m p keyID st))"
| router_forget: "router_reachable base V st \<Longrightarrow> router_reachable base V (st\<lparr>rs_clients := filter P (rs_clients st)\<rparr>)"

text \<open>An update of a model or of a provider changes its time of update; a model stays with the provider it names.\<close>

definition versioned :: "(routed_model \<times> routed_provider) set \<Rightarrow> bool" where
  "versioned V \<longleftrightarrow>
     (\<forall>m p. (m, p) \<in> V \<longrightarrow> pv_id p = rm_providerID m) \<and>
     (\<forall>m p m' p'. (m, p) \<in> V \<longrightarrow> (m', p') \<in> V \<longrightarrow> rm_id m = rm_id m' \<longrightarrow> rt_updatedAt m = rt_updatedAt m' \<longrightarrow> m = m') \<and>
     (\<forall>m p m' p'. (m, p) \<in> V \<longrightarrow> (m', p') \<in> V \<longrightarrow> pv_id p = pv_id p' \<longrightarrow> rp_updatedAt p = rp_updatedAt p' \<longrightarrow> p = p')"

lemma versionedD:
  assumes "versioned V" "(m, p) \<in> V" "(m', p') \<in> V" "rm_id m = rm_id m'" "fingerprint_of m p = fingerprint_of m' p'"
  shows "m = m' \<and> p = p'"
proof -
  have t: "rt_updatedAt m = rt_updatedAt m'" "rp_updatedAt p = rp_updatedAt p'" using assms(5) by (simp_all add: fingerprint_of_def)
  have m: "m = m'" using assms(1-4) t(1) unfolding versioned_def by blast
  have "pv_id p = pv_id p'" using assms(1-3) m unfolding versioned_def by metis
  then show ?thesis using assms(1-3) t(2) m unfolding versioned_def by blast
qed

text \<open>The client a call returns is the one its settings describe, for a key of an active provider.\<close>

definition current_client :: "'e route_env \<Rightarrow> routed_model \<Rightarrow> routed_provider \<Rightarrow> string \<Rightarrow> built_client \<Rightarrow> bool" where
  "current_client env m p keyID c \<longleftrightarrow>
     (\<exists>key. ProviderKeyByID (provider_view p) keyID = Some key \<and> assembled env m p key = Inr (bc_client c))"

definition entries_current :: "'e route_env \<Rightarrow> (routed_model \<times> routed_provider) set \<Rightarrow> router_state \<Rightarrow> bool" where
  "entries_current base V st \<longleftrightarrow>
     (\<forall>((i, keyID), c, fp) \<in> set (rs_clients st). \<exists>(m, p) \<in> V. rm_id m = i \<and> fingerprint_of m p = fp \<and> current_client base m p keyID c)"

lemma set_alist_update: "set (AList.update k v t) \<subseteq> insert (k, v) (set t)"
  by (induction t) auto

lemma clientForProvider_cases:
  assumes "clientForProvider env m p keyID st = (Inr c, st')"
  obtains (kept) "rp_active p" "map_of (rs_clients st) (rm_id m, keyID) = Some (c, fingerprint_of m p)" "st' = st"
  | (built) key where "rp_active p" "ProviderKeyByID (provider_view p) keyID = Some key" "build_client env m p key = Inr (bc_client c)"
      "bc_serial c = rs_next st"
      "st' = st\<lparr>rs_clients := AList.update (rm_id m, keyID) (c, fingerprint_of m p) (rs_clients st), rs_next := Suc (rs_next st)\<rparr>"
  using assms by (fastforce simp: clientForProvider_def Let_def split: if_splits option.splits sum.splits prod.splits)

lemma clientForProvider_failed:
  assumes "clientForProvider env m p keyID st = (Inl e, st')"
  shows "st' = st"
  using assms by (auto simp: clientForProvider_def Let_def split: if_splits option.splits sum.splits prod.splits)

lemma call_entries:
  assumes "entries_current base V st" "(m, p) \<in> V" "same_settings env base"
  shows "entries_current base V (snd (clientForProvider env m p keyID st))"
proof (cases "clientForProvider env m p keyID st")
  case (Pair res st')
  show ?thesis
  proof (cases res)
    case (Inl e)
    then show ?thesis using clientForProvider_failed [of env m p keyID st e st'] Pair assms(1) by simp
  next
    case (Inr c)
    from Pair [unfolded Inr] show ?thesis
    proof (cases rule: clientForProvider_cases)
      case kept
      then show ?thesis using Pair assms(1) by simp
    next
      case (built key)
      have "current_client base m p keyID c"
        using built(2) build_assembled [OF built(3)] assembled_same [OF assms(3)] by (simp add: current_client_def)
      then show ?thesis
        using assms(1,2) built(5) Pair set_alist_update [of "(rm_id m, keyID)" "(c, fingerprint_of m p)" "rs_clients st"]
        unfolding entries_current_def by fastforce
    qed
  qed
qed

lemma reachable_entries: "router_reachable base V st \<Longrightarrow> entries_current base V st"
proof (induction rule: router_reachable.induct)
  case router_new
  show ?case by (simp add: entries_current_def new_router_def)
next
  case (router_call st m p env keyID)
  then show ?case using call_entries by blast
next
  case (router_forget st P)
  then show ?case by (auto simp: entries_current_def)
qed

lemma returned_current:
  assumes "router_reachable base V st" "versioned V" "(m, p) \<in> V" "same_settings env base"
    and "clientForProvider env m p keyID st = (Inr c, st')"
  shows "rp_active p \<and> current_client env m p keyID c"
  using assms(5)
proof (cases rule: clientForProvider_cases)
  case kept
  then have "((rm_id m, keyID), c, fingerprint_of m p) \<in> set (rs_clients st)" by (auto dest: map_of_SomeD)
  then obtain m' p' where "(m', p') \<in> V" "rm_id m' = rm_id m" "fingerprint_of m' p' = fingerprint_of m p" "current_client base m' p' keyID c"
    using reachable_entries [OF assms(1)] unfolding entries_current_def by fastforce
  then show ?thesis
    using versionedD [OF assms(2,3)] kept(1) assembled_same [OF assms(4)] by (fastforce simp: current_client_def)
next
  case (built key)
  then show ?thesis using build_assembled by (auto simp: current_client_def)
qed


section \<open>What a routed request gets\<close>

fun clients_of :: "request_client \<Rightarrow> built_client list" where
  "clients_of (OneKey c) = [c]"
| "clients_of (KeyFailover cs) = map snd cs"

lemma clients_of_new: "set (clients_of (newKeyFailoverClient cs)) = snd ` set cs" if "cs \<noteq> []"
  using that by (cases cs) (auto simp: newKeyFailoverClient_def)

lemma fallbacks_current:
  assumes "router_reachable base V st" "versioned V" "(m, p) \<in> V" "same_settings env base"
    and "fallback_clients env m p ks st = (cs, st')"
  shows "router_reachable base V st' \<and> (\<forall>(k, c) \<in> set cs. k \<in> set ks \<and> current_client env m p k c)"
  using assms(1,5)
proof (induction ks arbitrary: st cs)
  case (Cons k ks)
  obtain res st1 where call: "clientForProvider env m p k st = (res, st1)" by fastforce
  have reach: "router_reachable base V st1"
    using router_call [OF Cons.prems(1) assms(3,4), of k] call by simp
  obtain cs1 where rest: "fallback_clients env m p ks st1 = (cs1, st')" and cs: "cs = (case res of Inl _ \<Rightarrow> cs1 | Inr c \<Rightarrow> (k, c) # cs1)"
    using Cons.prems(2) call by (auto split: sum.splits prod.splits)
  then show ?case
    using Cons.IH [OF reach rest] returned_current [OF Cons.prems(1) assms(2-4)] call by (fastforce split: sum.splits)
qed simp

lemma keyedClient_current:
  assumes "router_reachable base V st" "versioned V" "(m, p) \<in> V" "same_settings env base"
    and "keyedClient env chosen fallbacks m p st = (Inr rc, st')"
  shows "rp_active p \<and> (\<forall>c \<in> set (clients_of rc). \<exists>k \<in> set (chosen # fallbacks). current_client env m p k c)"
proof -
  obtain c st1 where call: "clientForProvider env m p chosen st = (Inr c, st1)"
    using assms(5) by (auto simp: keyedClient_def split: sum.splits prod.splits)
  obtain cs where fb: "fallback_clients env m p fallbacks st1 = (cs, st')"
      and rc: "rc = (if rm_kind m = ModelKindDecision then OneKey c else newKeyFailoverClient ((chosen, c) # cs))"
    using assms(5) call by (auto simp: keyedClient_def split: prod.splits)
  have reach: "router_reachable base V st1" using router_call [OF assms(1,3,4), of chosen] call by simp
  have "\<exists>k \<in> set (chosen # fallbacks). current_client env m p k d" if "d \<in> insert c (snd ` set cs)" for d
    using that returned_current [OF assms(1-4) call] fallbacks_current [OF reach assms(2-4) fb] by fastforce
  then show ?thesis
    using returned_current [OF assms(1-4) call] rc clients_of_new [of "(chosen, c) # cs"] by auto
qed

lemma populate_team [simp]: "TeamIDFromMeta (PopulateMetaFromContext cx meta) = TeamIDFromMeta meta"
  by (simp add: TeamIDFromMeta_def meta_string_def PopulateMetaFromContext_def set_nonempty_def)

lemma ResolveModel_Inr:
  assumes "ResolveModel env cx req st = (Inr (rc, real_name), req', st')"
  obtains slug loc org m p perms where
    "parseQualifiedModelName (sq_model req) = Some (slug, loc)" "rv_orgBySlug env (cx_tenantID cx) slug = Inr org" "og_active org"
    "og_id org = OrgIDFromMeta (PopulateMetaFromContext cx (sq_meta req))" "rv_llm env (og_id org) loc = Inr m"
    "ResolvePermissions cx (og_id org) = Inr perms" "CanUseModel perms (TeamIDFromMeta (sq_meta req)) (rm_id m) ModelKindLLM"
    "rv_provider env (rm_providerID m) = Inr p" "rm_kind m = requestKind (rr_type req)"
    "keyedClient env (rr_key req) (rr_fallbacks req) m p st = (Inr rc, st')" "real_name = rm_realModel m"
    "meta_string (sq_meta req') MetaModelID = rm_id m"
  using assms
  by (auto simp: ResolveModel_def route_found_def checkRequestKind_def with_model_id_def meta_string_def Let_def
      split: if_splits option.splits sum.splits store_error.splits prod.splits)

text \<open>
  C8.  A routed request is served by the model it names, with the settings of now.  When the router gives a request a client,
  the model belongs to the organization of the caller, which is active, the caller may use it with the team the request is
  charged to, it is of the kind the route asks for, it is the one the usage is recorded on, its provider is active, and every
  client that may be tried, kept from an earlier request or built now, is the one the present settings of the model and of
  the provider describe, for the chosen key or one of its fallbacks, whatever requests, failures and lost entries came before.
\<close>

theorem routed_client_current:
  assumes "ResolveModel env cx req st = (Inr (rc, real_name), req', st')"
    and "router_reachable base V st" and "versioned V" and "same_settings env base"
    and "\<forall>org loc m p. rv_llm env org loc = Inr m \<longrightarrow> rv_provider env (rm_providerID m) = Inr p \<longrightarrow> (m, p) \<in> V"
  shows "\<exists>slug loc org m p perms. parseQualifiedModelName (sq_model req) = Some (slug, loc) \<and>
    rv_orgBySlug env (cx_tenantID cx) slug = Inr org \<and> og_active org \<and>
    og_id org = OrgIDFromMeta (PopulateMetaFromContext cx (sq_meta req)) \<and> rv_llm env (og_id org) loc = Inr m \<and>
    ResolvePermissions cx (og_id org) = Inr perms \<and> CanUseModel perms (TeamIDFromMeta (sq_meta req)) (rm_id m) ModelKindLLM \<and>
    rm_kind m = requestKind (rr_type req) \<and> real_name = rm_realModel m \<and> meta_string (sq_meta req') MetaModelID = rm_id m \<and>
    rv_provider env (rm_providerID m) = Inr p \<and> rp_active p \<and>
    (\<forall>c \<in> set (clients_of rc). \<exists>keyID \<in> set (rr_key req # rr_fallbacks req). current_client env m p keyID c)"
  using assms(1)
proof (rule ResolveModel_Inr)
  fix slug loc and org :: organization and m :: routed_model and p :: routed_provider and perms
  assume r: "rv_llm env (og_id org) loc = Inr m" "rv_provider env (rm_providerID m) = Inr p"
    "keyedClient env (rr_key req) (rr_fallbacks req) m p st = (Inr rc, st')"
  have "(m, p) \<in> V" using assms(5) r(1,2) by blast
  note keyedClient_current [OF assms(2,3) this assms(4) r(3)]
  moreover assume "parseQualifiedModelName (sq_model req) = Some (slug, loc)" "rv_orgBySlug env (cx_tenantID cx) slug = Inr org" "og_active org"
    "og_id org = OrgIDFromMeta (PopulateMetaFromContext cx (sq_meta req))" "ResolvePermissions cx (og_id org) = Inr perms"
    "CanUseModel perms (TeamIDFromMeta (sq_meta req)) (rm_id m) ModelKindLLM" "rm_kind m = requestKind (rr_type req)" "real_name = rm_realModel m"
    "meta_string (sq_meta req') MetaModelID = rm_id m"
  ultimately show ?thesis using r by blast
qed

section \<open>Limiters are shared\<close>

text \<open>The calls that leave the entry of a model and a key alone: those of other models or keys, and those of the same version.\<close>

definition keeps_entry :: "routed_model \<Rightarrow> routed_provider \<Rightarrow> string \<Rightarrow> routed_model \<times> routed_provider \<times> string \<Rightarrow> bool" where
  "keeps_entry m p keyID = (\<lambda>(m', p', keyID'). (rm_id m', keyID') = (rm_id m, keyID) \<longrightarrow> fingerprint_of m' p' = fingerprint_of m p)"

definition call_all :: "'e route_env \<Rightarrow> (routed_model \<times> routed_provider \<times> string) list \<Rightarrow> router_state \<Rightarrow> router_state" where
  "call_all env calls st = fold (\<lambda>(m, p, keyID) st. snd (clientForProvider env m p keyID st)) calls st"

lemma entry_kept:
  assumes "map_of (rs_clients st) (rm_id m, keyID) = Some (c, fingerprint_of m p)" "keeps_entry m p keyID (m', p', keyID')"
  shows "map_of (rs_clients (snd (clientForProvider env m' p' keyID' st))) (rm_id m, keyID) = Some (c, fingerprint_of m p)"
  using assms
  by (auto simp: clientForProvider_def keeps_entry_def update_conv' Let_def split: option.splits sum.splits prod.splits)

text \<open>
  As long as no entry is lost and the model keeps its version, every request gets the same client, limiters included.
\<close>

theorem limiters_shared:
  assumes "clientForProvider env m p keyID st = (Inr c, st')" and "\<forall>call \<in> set calls. keeps_entry m p keyID call"
  shows "clientForProvider env m p keyID (call_all env calls st') = (Inr c, call_all env calls st')"
proof -
  have "map_of (rs_clients st') (rm_id m, keyID) = Some (c, fingerprint_of m p)"
    using assms(1) by (cases rule: clientForProvider_cases) (auto simp: update_conv')
  then have "map_of (rs_clients (call_all env calls st')) (rm_id m, keyID) = Some (c, fingerprint_of m p)"
    using assms(2)
  proof (induction calls arbitrary: st')
    case (Cons call calls)
    obtain m' p' keyID' where call: "call = (m', p', keyID')" by (cases call)
    have "map_of (rs_clients (snd (clientForProvider env m' p' keyID' st'))) (rm_id m, keyID) = Some (c, fingerprint_of m p)"
      using Cons.prems(2) call by (intro entry_kept [OF Cons.prems(1)]) simp
    from Cons.IH [OF this] Cons.prems(2) show ?case by (simp add: call_all_def call)
  qed (simp add: call_all_def)
  moreover have "rp_active p" "ProviderKeyByID (provider_view p) keyID \<noteq> None"
    using assms(1) by (auto simp: clientForProvider_def split: if_splits option.splits)
  ultimately show ?thesis by (auto simp: clientForProvider_def)
qed


section \<open>Every listed model is served\<close>

text \<open>The router and the hook that attributes requests read the same stores, in which every listed model is found again by
  its name.\<close>

definition listing_agrees :: "'e scope_env \<Rightarrow> 'e route_env \<Rightarrow> 'e request_context \<Rightarrow> organization \<Rightarrow> permission_set \<Rightarrow> routed_model list \<Rightarrow> bool" where
  "listing_agrees env renv cx org perms models \<longleftrightarrow>
     stores_agree env cx org perms \<and> og_active org \<and> rv_orgByID renv (og_id org) = Inr org \<and>
     rv_orgBySlug renv (cx_tenantID cx) (og_slug org) = Inr org \<and> rv_enabled renv (og_id org) = Inr models \<and>
     (\<forall>m \<in> set models. rv_llm renv (og_id org) (rt_proxyName m) = Inr m \<and> local_ok env org (rt_proxyName m) ModelKindLLM (rm_id m))"

lemma listed_model:
  assumes "listing_agrees env renv cx org perms models" "ListModels renv cx = Inr names" "name \<in> set names"
  obtains m where "m \<in> set models"
    "name \<in> set (ListedModelNames perms (BoundTeamIDFromContext cx) (og_slug org) (rt_proxyName m) (rm_id m) ModelKindLLM)"
  using assms by (auto simp: listing_agrees_def stores_agree_def ListModels_def)

lemma parse_served:
  assumes "IsValidSlug slug" "loc \<noteq> []"
  shows "parseQualifiedModelName (slug @ slash # loc) = Some (slug, loc)"
proof -
  have "ParseModelName (mn_string \<lparr>mn_org = slug, mn_team = [], mn_local = loc\<rparr>) None = Some \<lparr>mn_org = slug, mn_team = [], mn_local = loc\<rparr>"
    using assms slug_nonempty slug_not_slash by (intro parse_level) auto
  then show ?thesis
    using slug_nonempty [OF assms(1)] slug_not_personal [OF assms(1)]
    by (simp add: parseQualifiedModelName_def mn_string_def Qualified_def Personal_def)
qed

text \<open>A model can take a request: its provider can be read, the route asks for its kind and the client of the chosen key can be had.\<close>

definition ready :: "'e route_env \<Rightarrow> routed_model \<Rightarrow> routed_request \<Rightarrow> router_state \<Rightarrow> bool" where
  "ready renv m req st \<longleftrightarrow>
     (\<exists>p c. rv_provider renv (rm_providerID m) = Inr p \<and> rm_kind m = requestKind (rr_type req) \<and>
        (rr_type req = RequestTypeEmbedding \<longrightarrow> rv_hasEmbeddings renv (ModelAPIType m p)) \<and>
        fst (clientForProvider renv m p (rr_key req) st) = Inr c)"

lemma served_routed:
  assumes agree: "listing_agrees env renv cx org perms models" and m: "m \<in> set models"
    and model: "sq_model req = og_slug org @ slash # rt_proxyName m"
    and use: "CanUseModel perms (TeamIDFromMeta (sq_meta req)) (rm_id m) ModelKindLLM" and ready: "ready renv m req st"
  shows "\<exists>rc req' st'. ResolveModel renv cx req st = (Inr (rc, rm_realModel m), req', st') \<and> meta_string (sq_meta req') MetaModelID = rm_id m"
proof -
  obtain p c where p: "rv_provider renv (rm_providerID m) = Inr p" and kind: "rm_kind m = requestKind (rr_type req)"
    and emb: "rr_type req = RequestTypeEmbedding \<longrightarrow> rv_hasEmbeddings renv (ModelAPIType m p)"
    and c: "fst (clientForProvider renv m p (rr_key req) st) = Inr c"
    using ready by (auto simp: ready_def)
  have a: "og_id org \<noteq> []" "IsValidSlug (og_slug org)" "cx_orgID cx = og_id org" "ResolvePermissions cx (og_id org) = Inr perms"
    and l: "rv_llm renv (og_id org) (rt_proxyName m) = Inr m" "rt_proxyName m \<noteq> []"
    and o: "og_active org" "rv_orgBySlug renv (cx_tenantID cx) (og_slug org) = Inr org"
    using agree m by (auto simp: listing_agrees_def stores_agree_def local_ok_def)
  have org: "OrgIDFromMeta (PopulateMetaFromContext cx meta) = og_id org" for meta
    using a by (simp add: OrgIDFromMeta_def PopulateMetaFromContext_def set_nonempty_def meta_string_def)
  obtain st1 where c': "clientForProvider renv m p (rr_key req) st = (Inr c, st1)" using c by (metis prod.collapse)
  obtain rc st2 where k: "keyedClient renv (rr_key req) (rr_fallbacks req) m p st = (Inr rc, st2)"
    using c' by (cases "fallback_clients renv m p (rr_fallbacks req) st1") (auto simp: keyedClient_def)
  show ?thesis
    using a l o org use p kind emb k parse_served [OF a(2) l(2)]
    by (simp add: ResolveModel_def route_found_def model checkRequestKind_def Let_def with_model_id_def meta_string_def)
qed

text \<open>The listing shows a model under a name: one of the names it gives the model for this caller.\<close>

definition shown_as :: "'e request_context \<Rightarrow> organization \<Rightarrow> permission_set \<Rightarrow> string \<Rightarrow> routed_model \<Rightarrow> bool" where
  "shown_as cx org perms name m \<longleftrightarrow>
     name \<in> set (ListedModelNames perms (BoundTeamIDFromContext cx) (og_slug org) (rt_proxyName m) (rm_id m) ModelKindLLM)"

lemma shown_name: "shown_as cx org perms name m \<Longrightarrow> \<exists>team. name = mn_string \<lparr>mn_org = og_slug org, mn_team = team, mn_local = rt_proxyName m\<rparr>"
  by (auto simp: shown_as_def ListedModelNames_def team_model_name_def split: if_splits)

lemma shown_served:
  assumes "listing_agrees env renv cx org perms models" "fresh_request req" "m \<in> set models" "shown_as cx org perms (sq_model req) m"
  obtains req' where "TeamScopePreRequest env cx req = (req', Inr None)" "sq_model req' = og_slug org @ slash # rt_proxyName m"
    "CanUseModel perms (TeamIDFromMeta (sq_meta req')) (rm_id m) ModelKindLLM"
proof -
  have "stores_agree env cx org perms" "local_ok env org (rt_proxyName m) ModelKindLLM (rm_id m)"
    using assms(1,3) by (auto simp: listing_agrees_def)
  from listed_name_served [OF this assms(2) assms(4) [unfolded shown_as_def]] show ?thesis using that by (auto simp: served_def)
qed



section \<open>A sample\<close>

text \<open>The model \<open>gpt\<close> of the sample organization, on a provider with two keys, a rate limit and retries.\<close>

definition acme_model :: routed_model where
  "acme_model = \<lparr>rm_id = ''m1'', rm_realModel = ''gpt-4'', rm_kind = ModelKindCompletion, rm_providerID = ''p1'', rt_proxyName = ''gpt'',
     rt_apiType = [], rt_baseURL = [], rt_outputWindow = 64000, rt_extraBody = [], rt_tokenLimit = None, rt_updatedAt = 7\<rparr>"

definition acme_provider :: routed_provider where
  "acme_provider = \<lparr>pv_id = ''p1'', pv_apiKey = ''s1'', pv_extraKeys = [\<lparr>pk_id = ''k2'', pk_label = [], pk_apiKey = ''s2'', pk_overrides = []\<rparr>],
     pv_subscription = False, pv_plan = None, pv_currency = ''EUR'', rp_name = ''main'', rp_type = ''anthropic'', rp_baseURL = ''https'',
     rp_active = True, rp_headers = None, rp_rateLimit = Some (True, 5, 2), rp_retry = Some (True, 1, 3), rp_updatedAt = 9\<rparr>"

definition acme_routes :: "unit route_env" where
  "acme_routes = \<lparr>rv_orgByID = (\<lambda>i. if i = ''o1'' then Inr acme else Inl NotFound),
     rv_orgBySlug = (\<lambda>_ s. if s = ''acme'' then Inr acme else Inl NotFound),
     rv_llm = (\<lambda>_ n. if n = ''gpt'' then Inr acme_model else Inl NotFound), rv_enabled = (\<lambda>_. Inr [acme_model]),
     rv_provider = (\<lambda>_. Inr acme_provider), rv_decrypt = (\<lambda>s. Inr (rev s)), rv_common = (\<lambda>_. True), rv_hasChat = (\<lambda>_. True),
     rv_hasEmbeddings = (\<lambda>_. False), rv_hasDecision = (\<lambda>_. False), rv_createError = (\<lambda>_. None), rv_timeout = 60\<rparr>"

definition acme_call :: routed_request where
  "acme_call = \<lparr>sq_model = ''acme/gpt'', sq_userID = ''u'', sq_meta = [''teamID'' \<mapsto> MetaString ''t1''], rr_type = RequestTypeChat, rr_key = [],
     rr_fallbacks = [''k2''], rr_keyUsed = []\<rparr>"

definition acme_client :: "string \<Rightarrow> nat \<Rightarrow> built_client" where
  "acme_client apiKey n = \<lparr>bc_serial = n, bc_client =
     Timeout (Retry (RateLimit (ChatClient ''anthropic'' \<lparr>co_baseURL = ''https'', co_apiKey = apiKey, co_model = ''gpt-4'', co_headers = [],
       co_sessionHeader = []\<rparr> 16384) (5, 2) (Some (5, 2))) 1 3) 60\<rparr>"

text \<open>The state after a first request through the own key of the provider.\<close>

definition acme_state :: router_state where
  "acme_state = snd (clientForProvider acme_routes acme_model acme_provider [] new_router)"

lemma acme_reachable: "router_reachable acme_routes {(acme_model, acme_provider)} acme_state"
  unfolding acme_state_def by (intro router_call router_new) (simp_all add: same_settings_def)

lemma acme_versioned: "versioned {(acme_model, acme_provider)}"
  by (simp add: versioned_def acme_model_def acme_provider_def)

lemma acme_resolved:
  "fst (ResolveModel acme_routes acme_cx acme_call acme_state) =
    Inr (KeyFailover [([], acme_client ''1s'' 0), (''k2'', acme_client ''2s'' 1)], ''gpt-4'')"
  by code_simp

theorem routed_client_current_witness:
  "(current_client acme_routes acme_model acme_provider [] (acme_client ''1s'' 0) \<or>
      current_client acme_routes acme_model acme_provider ''k2'' (acme_client ''1s'' 0)) \<and>
   (current_client acme_routes acme_model acme_provider [] (acme_client ''2s'' 1) \<or>
      current_client acme_routes acme_model acme_provider ''k2'' (acme_client ''2s'' 1))"
proof -
  let ?r = "ResolveModel acme_routes acme_cx acme_call acme_state"
  have r: "?r = (Inr (KeyFailover [([], acme_client ''1s'' 0), (''k2'', acme_client ''2s'' 1)], ''gpt-4''), fst (snd ?r), snd (snd ?r))"
    using acme_resolved by (metis prod.collapse)
  have v: "\<forall>org loc m p. rv_llm acme_routes org loc = Inr m \<longrightarrow> rv_provider acme_routes (rm_providerID m) = Inr p \<longrightarrow>
      (m, p) \<in> {(acme_model, acme_provider)}"
    by (auto simp: acme_routes_def split: if_splits)
  have "same_settings acme_routes acme_routes" by (simp add: same_settings_def)
  from routed_client_current [OF r acme_reachable acme_versioned this v]
  obtain org loc m p where "rv_llm acme_routes org loc = Inr m" "rv_provider acme_routes (rm_providerID m) = Inr p"
      "\<forall>c \<in> set (clients_of (KeyFailover [([], acme_client ''1s'' 0), (''k2'', acme_client ''2s'' 1)])).
        \<exists>keyID \<in> set (rr_key acme_call # rr_fallbacks acme_call). current_client acme_routes m p keyID c"
    by (elim exE conjE) (rule that)
  then show ?thesis using v by (fastforce simp: acme_call_def)
qed

definition acme_routed :: "scope_request \<Rightarrow> routed_request" where
  "acme_routed r = \<lparr>sq_model = sq_model r, sq_userID = sq_userID r, sq_meta = sq_meta r, rr_type = RequestTypeChat, rr_key = [],
     rr_fallbacks = [''k2''], rr_keyUsed = []\<rparr>"


end
