(* ===== verification/Plugin_Manager.thy ===== *)
theory Plugin_Manager
  imports Plugin_Node
begin

text \<open>
  The manager of the plugin processes: \<open>src/internal/plugin/manager.go\<close>.

  An entry is a loaded plugin; its process may exit at any moment, which is an operation of its own.  Loading a binary is a
  parameter: its outcome is given with each operation that loads.  Times are nanoseconds of the monotonic clock.  Every
  operation runs under the lock of the manager; \<open>GetOrRestart\<close> takes it twice, so that its two sections are two
  operations, between which others may run.
\<close>

section \<open>State and operations\<close>

record 'e plugin_entry =
  en_name :: string
  en_proc :: "'e plugin_proc"
  en_exited :: bool
  en_httpPort :: nat
  en_path :: string
  en_lastRestart :: "int option"

record 'e manager =
  mg_cooldown :: int
  mg_plugins :: "'e plugin_entry list"

definition NewManager :: "int \<Rightarrow> 'e manager" where
  "NewManager restartCooldown = \<lparr>mg_cooldown = restartCooldown, mg_plugins = []\<rparr>"

text \<open>The entries that load, in the order of the directory.\<close>

definition Start :: "(string \<Rightarrow> 'e plugin_entry option) \<Rightarrow> string list \<Rightarrow> 'e manager \<Rightarrow> 'e manager" where
  "Start load paths m = m\<lparr>mg_plugins := mg_plugins m @ List.map_filter load paths\<rparr>"

fun find_from :: "nat \<Rightarrow> string \<Rightarrow> 'e plugin_entry list \<Rightarrow> (nat \<times> 'e plugin_entry) option" where
  "find_from i name [] = None"
| "find_from i name (e # es) = (if en_name e = name then Some (i, e) else find_from (Suc i) name es)"

definition findEntry :: "'e manager \<Rightarrow> string \<Rightarrow> (nat \<times> 'e plugin_entry) option" where
  "findEntry m name = find_from 0 name (mg_plugins m)"

definition Get :: "'e manager \<Rightarrow> string \<Rightarrow> 'e plugin_proc option" where
  "Get m name = map_option (en_proc \<circ> snd) (findEntry m name)"

definition HTTPPort :: "'e manager \<Rightarrow> string \<Rightarrow> nat" where
  "HTTPPort m name = (case findEntry m name of None \<Rightarrow> 0 | Some (_, e) \<Rightarrow> en_httpPort e)"

definition Shutdown :: "'e manager \<Rightarrow> 'e manager" where
  "Shutdown m = m\<lparr>mg_plugins := []\<rparr>"

text \<open>The section of \<open>GetOrRestart\<close> under the read lock: an answer, or the need for the other section.\<close>

datatype 'e read_answer = Answer "'e plugin_proc option" | NeedRestart

definition read_section :: "'e manager \<Rightarrow> string \<Rightarrow> 'e read_answer" where
  "read_section m name =
     (case findEntry m name of
        None \<Rightarrow> Answer None
      | Some (_, e) \<Rightarrow> if \<not> en_exited e then Answer (Some (en_proc e)) else NeedRestart)"

definition cooling :: "'e manager \<Rightarrow> 'e plugin_entry \<Rightarrow> int \<Rightarrow> bool" where
  "cooling m e now \<longleftrightarrow>
     mg_cooldown m > 0 \<and> (case en_lastRestart e of None \<Rightarrow> False | Some t \<Rightarrow> now - t < mg_cooldown m)"

text \<open>
  The section under the write lock, entered at \<open>now\<close>; when it loads the binary, the load ends at \<open>loaded\<close>.  The manager after
  it, the answer, and the index of the entry restarted, if any.
\<close>

definition write_section :: "(string \<Rightarrow> 'e plugin_entry option) \<Rightarrow> int \<Rightarrow> int \<Rightarrow> 'e manager \<Rightarrow> string
    \<Rightarrow> 'e manager \<times> 'e plugin_proc option \<times> nat option" where
  "write_section load now loaded m name =
     (case findEntry m name of
        None \<Rightarrow> (m, None, None)
      | Some (idx, e) \<Rightarrow>
          if \<not> en_exited e then (m, Some (en_proc e), None)
          else if cooling m e now then (m, None, None)
          else (case load (en_path e) of
                  None \<Rightarrow> (m, None, None)
                | Some e' \<Rightarrow>
                    (m\<lparr>mg_plugins := (mg_plugins m)[idx := e'\<lparr>en_lastRestart := Some loaded\<rparr>]\<rparr>, Some (en_proc e'), Some idx)))"

definition GetOrRestart :: "(string \<Rightarrow> 'e plugin_entry option) \<Rightarrow> int \<Rightarrow> int \<Rightarrow> 'e manager \<Rightarrow> string
    \<Rightarrow> 'e manager \<times> 'e plugin_proc option \<times> nat option" where
  "GetOrRestart load now loaded m name =
     (case read_section m name of
        Answer a \<Rightarrow> (m, a, None)
      | NeedRestart \<Rightarrow> write_section load now loaded m name)"

section \<open>Histories\<close>

text \<open>
  What happens to a running manager: a process exits, or a caller that found an exited process enters the write section, with
  the outcome of its load and the times of its check and of the end of the load.
\<close>

datatype 'e manager_event =
    Exited nat
  | Restarting string int int "string \<Rightarrow> 'e plugin_entry option"

definition mark_exited :: "nat \<Rightarrow> 'e manager \<Rightarrow> 'e manager" where
  "mark_exited i m =
     (if i < length (mg_plugins m) then m\<lparr>mg_plugins := (mg_plugins m)[i := (mg_plugins m ! i)\<lparr>en_exited := True\<rparr>]\<rparr> else m)"

text \<open>The manager after a history and the restarts made, the index with the times of the check and of the end, oldest first.\<close>

fun history :: "'e manager_event list \<Rightarrow> 'e manager \<Rightarrow> 'e manager \<times> (nat \<times> int \<times> int) list" where
  "history [] m = (m, [])"
| "history (Exited i # evs) m = history evs (mark_exited i m)"
| "history (Restarting name now loaded load # evs) m =
     (case write_section load now loaded m name of
        (m', _, None) \<Rightarrow> history evs m'
      | (m', _, Some idx) \<Rightarrow> (case history evs m' of (m'', rs) \<Rightarrow> (m'', (idx, now, loaded) # rs)))"

lemma find_from_Some: "find_from i name es = Some (k, e) \<Longrightarrow> i \<le> k \<and> k - i < length es \<and> es ! (k - i) = e \<and> en_name e = name"
proof (induction es arbitrary: i)
  case (Cons e' es)
  then show ?case
  proof (cases "en_name e' = name")
    case False
    then have "Suc i \<le> k \<and> k - Suc i < length es \<and> es ! (k - Suc i) = e \<and> en_name e = name" using Cons by simp
    then show ?thesis by (auto simp: nth_Cons' Suc_diff_le)
  qed auto
qed simp

lemma findEntry_Some: "findEntry m name = Some (k, e) \<Longrightarrow> k < length (mg_plugins m) \<and> mg_plugins m ! k = e \<and> en_name e = name"
  using find_from_Some [of 0 name "mg_plugins m" k e] by (simp add: findEntry_def)

text \<open>\<open>since m idx\<close>: the end of the last restart of a slot.\<close>

definition since :: "'e manager \<Rightarrow> nat \<Rightarrow> int option" where
  "since m idx = (if idx < length (mg_plugins m) then en_lastRestart (mg_plugins m ! idx) else None)"

lemma since_mark_exited [simp]: "since (mark_exited i m) idx = since m idx" "mg_cooldown (mark_exited i m) = mg_cooldown m"
  by (auto simp: since_def mark_exited_def nth_list_update)

lemma write_section_keeps:
  assumes "write_section load now loaded m name = (m', p, None)"
  shows "m' = m"
  using assms by (auto simp: write_section_def split: option.splits if_splits)

lemma write_section_restarts:
  assumes "write_section load now loaded m name = (m', p, Some idx)"
  shows "mg_cooldown m' = mg_cooldown m" and "since m' idx = Some loaded" and "j \<noteq> idx \<Longrightarrow> since m' j = since m j"
    and "since m idx = Some t \<Longrightarrow> 0 < mg_cooldown m \<Longrightarrow> t + mg_cooldown m \<le> now"
  using assms findEntry_Some [of m name]
  by (auto simp: write_section_def since_def cooling_def split: option.splits if_splits)

text \<open>Every restart comes at least \<open>c\<close> after the end of the one before it in its slot; \<open>before\<close> holds the ends of the last ones.\<close>

fun spaced :: "int \<Rightarrow> (nat \<Rightarrow> int option) \<Rightarrow> (nat \<times> int \<times> int) list \<Rightarrow> bool" where
  "spaced c before [] = True"
| "spaced c before ((idx, now, loaded) # rs) =
     ((case before idx of None \<Rightarrow> True | Some t \<Rightarrow> t + c \<le> now) \<and> spaced c (before(idx := Some loaded)) rs)"

lemma history_spaced:
  assumes "0 < mg_cooldown m"
  shows "spaced (mg_cooldown m) (since m) (snd (history evs m))"
  using assms
proof (induction evs m rule: history.induct)
  case (2 i evs m)
  moreover have "since (mark_exited i m) = since m" by (rule ext) simp
  ultimately show ?case by simp
next
  case (3 name now loaded load evs m)
  obtain m1 p r where w: "write_section load now loaded m name = (m1, p, r)" by (metis surj_pair)
  show ?case
  proof (cases r)
    case None
    then show ?thesis using 3 w write_section_keeps [of load now loaded m name m1 p] by simp
  next
    case (Some idx)
    note facts = write_section_restarts [OF w [unfolded Some]]
    have "since m1 = (since m)(idx := Some loaded)" using facts(2,3) by (auto simp: fun_eq_iff)
    then have "spaced (mg_cooldown m) ((since m)(idx := Some loaded)) (snd (history evs m1))"
      using 3(2) [OF w [symmetric] refl Some] 3(3) facts(1) by (simp add: fun_upd_def)
    moreover have "case since m idx of None \<Rightarrow> True | Some t \<Rightarrow> t + mg_cooldown m \<le> now"
      using facts(4) 3(3) by (auto split: option.splits)
    ultimately show ?thesis using w Some by (auto split: prod.splits)
  qed
qed simp

lemma spaced_pairs:
  assumes "spaced c before rs" "0 < c" "list_all (\<lambda>(_, now, loaded). now \<le> loaded) rs"
  shows "sorted_wrt (\<lambda>(idx, _, loaded) (idx', now', _). idx = idx' \<longrightarrow> loaded + c \<le> now') rs \<and>
    (\<forall>(idx, now, _) \<in> set rs. \<forall>t. before idx = Some t \<longrightarrow> t + c \<le> now)"
  using assms
proof (induction c before rs rule: spaced.induct)
  case (2 c before idx now loaded rs)
  have prems: "spaced c (before(idx := Some loaded)) rs" "now \<le> loaded" "list_all (\<lambda>(_, now, loaded). now \<le> loaded) rs"
    using 2(2,4) by simp_all
  have IH: "sorted_wrt (\<lambda>(idx, _, loaded) (idx', now', _). idx = idx' \<longrightarrow> loaded + c \<le> now') rs"
      "\<forall>(idx', now', _) \<in> set rs. \<forall>t. (before(idx := Some loaded)) idx' = Some t \<longrightarrow> t + c \<le> now'"
    using 2(1) [OF prems(1) 2(3) prems(3)] by blast+
  have later: "loaded + c \<le> now'" if "(idx, now', loaded') \<in> set rs" for now' loaded'
    using IH(2) that by fastforce
  have other: "t + c \<le> now'" if "(idx', now', loaded') \<in> set rs" "idx' \<noteq> idx" "before idx' = Some t" for idx' now' loaded' t
    using IH(2) that by fastforce
  have first: "before idx = Some t \<Longrightarrow> t + c \<le> now" for t using 2(2) by simp
  have "t + c \<le> now'" if "(idx', now', loaded') \<in> set rs" "before idx' = Some t" for idx' now' loaded' t
  proof (cases "idx' = idx")
    case True
    then show ?thesis using later that first [of t] prems(2) 2(3) by fastforce
  qed (use other that in blast)
  then show ?case using IH(1) later first by fastforce
qed simp

text \<open>
  C27.  The restarts of a plugin are never closer than the cooldown.  Whatever the processes do, and however the callers that
  found one exited interleave, a binary is only run again for a slot when the cooldown has passed since the end of every
  restart made before for that slot; so that of several callers waiting for the lock one restarts the process.
\<close>

theorem restarts_spaced:
  assumes "0 < cooldown" and "history evs (Start load paths (NewManager cooldown)) = (m, rs)"
    and "list_all (\<lambda>(_, now, loaded). now \<le> loaded) rs"
  shows "sorted_wrt (\<lambda>(idx, _, loaded) (idx', now', _). idx = idx' \<longrightarrow> loaded + cooldown \<le> now') rs"
  using spaced_pairs [of cooldown "since (Start load paths (NewManager cooldown))" rs]
    history_spaced [of "Start load paths (NewManager cooldown)" evs] assms
  by (simp add: Start_def NewManager_def)

definition crashy_entry :: "unit plugin_entry" where
  "crashy_entry = \<lparr>en_name = ''guard'', en_proc = guard_plugin, en_exited = False, en_httpPort = 0, en_path = ''/p/guard'', en_lastRestart = None\<rparr>"

definition crashy_load :: "string \<Rightarrow> unit plugin_entry option" where
  "crashy_load path = Some crashy_entry"

definition crashy_events :: "unit manager_event list" where
  "crashy_events = [Exited 0, Restarting ''guard'' 10 12 crashy_load, Restarting ''guard'' 10 12 crashy_load,
     Exited 0, Restarting ''guard'' 15 16 crashy_load, Restarting ''guard'' 112 113 crashy_load]"

lemma crashy_run: "snd (history crashy_events (Start crashy_load [''/p/guard''] (NewManager 100))) = [(0, 10, 12), (0, 112, 113)]"
  by (simp add: crashy_events_def Start_def NewManager_def crashy_load_def crashy_entry_def mark_exited_def write_section_def
      findEntry_def cooling_def map_filter_simps)

theorem restarts_spaced_witness:
  "sorted_wrt (\<lambda>(idx, _, loaded) (idx', now', _). idx = idx' \<longrightarrow> loaded + 100 \<le> now') [(0 :: nat, 10 :: int, 12), (0, 112, 113)]"
proof -
  obtain m rs where run: "history crashy_events (Start crashy_load [''/p/guard''] (NewManager 100)) = (m, rs)" by fastforce
  then have rs: "rs = [(0, 10, 12), (0, 112, 113)]" using crashy_run by simp
  show ?thesis using restarts_spaced [OF _ run] by (simp add: rs)
qed

text \<open>A caller that finds the process exited while the cooldown runs is told the plugin is not there.\<close>

theorem cooling_answers_none:
  assumes "findEntry m name = Some (idx, e)" "en_exited e" "cooling m e now"
  shows "GetOrRestart load now loaded m name = (m, None, None)"
  using assms by (simp add: GetOrRestart_def read_section_def write_section_def)

text \<open>A load that fails leaves no trace: the cooldown does not apply to it, and the next caller runs the binary again at once.\<close>

theorem failed_restart_not_cooled:
  assumes "findEntry m name = Some (idx, e)" "en_exited e" "\<not> cooling m e now" "load (en_path e) = None"
  shows "GetOrRestart load now loaded m name = (m, None, None) \<and>
    (\<forall>load'. load' (en_path e) = Some e' \<longrightarrow> snd (snd (GetOrRestart load' now loaded m name)) = Some idx)"
  using assms by (simp add: GetOrRestart_def read_section_def write_section_def)

end
