(* ===== verification/Wrapped_Client.thy ===== *)
theory Wrapped_Client
  imports Plugin_Manager
begin

text \<open>
  The client that runs the backward pass of a pipeline after a call: \<open>src/internal/adapter/proxy/pipeline_wrapped_client.go\<close> and
  \<open>pipeline_tool_calls.go\<close>.

  A stream is the list of the chunks of its source.  A chunk is its delta (text and tool call deltas), its usage, whether it
  completes the answer, and the rest, which is passed on untouched.  The passes made are returned with the answer.  The
  backward pass of the engine never fails, so that the branches for its error are left out.  Whether a node may rewrite
  the response is asked before the answer is read, with the executors of that moment, \<open>wc_asked\<close>; the pass runs later, with those
  of its own, \<open>wc_registry\<close>.
\<close>

section \<open>Tool calls on the wire\<close>

record wire_codec =
  wi_encode :: "tool_call list \<Rightarrow> string option"
  wi_decode :: "string \<Rightarrow> tool_call list option"

text \<open>The arguments of a call are the JSON text \<open>toolCallArguments\<close> makes of them.\<close>

definition encodeToolCalls :: "wire_codec \<Rightarrow> tool_call list \<Rightarrow> string" where
  "encodeToolCalls codec calls =
     (if calls = [] then [] else case wi_encode codec calls of None \<Rightarrow> [] | Some raw \<Rightarrow> raw)"

definition rewrittenArgumentsAt :: "tool_call list \<Rightarrow> nat \<Rightarrow> string \<Rightarrow> string option" where
  "rewrittenArgumentsAt wire i originalID =
     (if length wire \<le> i then None
      else let w = wire ! i
           in if tc_id w = [] \<or> originalID = [] \<or> tc_id w = originalID then Some (tc_args w) else None)"

definition rewritten_call :: "tool_call list \<Rightarrow> nat \<Rightarrow> tool_call \<Rightarrow> tool_call" where
  "rewritten_call wire i tc =
     (case rewrittenArgumentsAt wire i (tc_id tc) of None \<Rightarrow> tc | Some args \<Rightarrow> tc\<lparr>tc_args := args\<rparr>)"

definition decodeToolCalls :: "wire_codec \<Rightarrow> string \<Rightarrow> tool_call list \<Rightarrow> tool_call list option" where
  "decodeToolCalls codec rewrittenJSON original =
     (if rewrittenJSON = [] \<or> original = [] then None
      else map_option (\<lambda>wire. map (\<lambda>(i, tc). rewritten_call wire i tc) (enumerate 0 original)) (wi_decode codec rewrittenJSON))"

text \<open>\<open>streamedToolCalls\<close>: the calls by index and the indexes as they came.\<close>

definition collect :: "tool_call_delta list \<Rightarrow> assembly \<Rightarrow> assembly" where
  "collect ds s = fold add_delta ds s"

definition sortedIndexes :: "assembly \<Rightarrow> int list" where
  "sortedIndexes s = sort (snd s)"

definition streamed_calls :: "assembly \<Rightarrow> tool_call list" where
  "streamed_calls s = map (\<lambda>idx. the (fst s idx)) (sortedIndexes s)"

definition calls_json :: "wire_codec \<Rightarrow> assembly \<Rightarrow> string" where
  "calls_json codec s = encodeToolCalls codec (streamed_calls s)"

definition rewritten :: "wire_codec \<Rightarrow> string \<Rightarrow> assembly \<Rightarrow> tool_call_delta list option" where
  "rewritten codec rewrittenJSON s =
     (if rewrittenJSON = [] \<or> snd s = [] then None
      else map_option (\<lambda>wire.
        map (\<lambda>(i, idx).
               (let call = the (fst s idx); c = rewritten_call wire i call
                in \<lparr>td_index = idx, td_id = tc_id call, td_name = tc_name call, td_args = tc_args c\<rparr>))
          (enumerate 0 (sortedIndexes s))) (wi_decode codec rewrittenJSON))"

section \<open>The client\<close>

record 'x pipe_chunk =
  pk_delta :: "(string \<times> tool_call_delta list) option"
  pk_usage :: "(int \<times> int) option"
  pk_complete :: bool
  pk_rest :: 'x

record plain_response =
  pr_message :: "string option"
  pr_toolCalls :: "tool_call list"
  pr_usage :: "(int \<times> int) option"

record ('c, 't, 'e) wrapped_client =
  wc_asked :: "('c, 't, 'e) registry"
  wc_registry :: "('c, 't, 'e) registry"
  wc_exec :: "('c, 't) forward_execution"
  wc_expired :: "nat \<Rightarrow> bool"
  wc_codec :: wire_codec

record backward_call =
  bk_content :: string
  bk_toolCalls :: string
  bk_tokens :: "(int \<times> int) option"
  bk_hadError :: bool

definition run_backward :: "('c, 't, 'e) wrapped_client \<Rightarrow> backward_call \<Rightarrow> backward_outcome" where
  "run_backward c b =
     RunBackwardWithToolCalls (wc_registry c) (wc_expired c) (wc_exec c) (bk_content b) (bk_toolCalls b) (bk_tokens b) (bk_hadError b)"

definition WrappedChatCompletion :: "('c, 't, 'e) wrapped_client \<Rightarrow> ('x, plain_response) result
    \<Rightarrow> backward_call list \<times> ('x, plain_response) result" where
  "WrappedChatCompletion c inner =
     (case inner of
        Inl err \<Rightarrow> ([\<lparr>bk_content = [], bk_toolCalls = [], bk_tokens = None, bk_hadError = True\<rparr>], Inl err)
      | Inr resp \<Rightarrow>
          (let content = (case pr_message resp of None \<Rightarrow> [] | Some m \<Rightarrow> m);
               b = \<lparr>bk_content = content, bk_toolCalls = encodeToolCalls (wc_codec c) (pr_toolCalls resp),
                    bk_tokens = pr_usage resp, bk_hadError = False\<rparr>;
               outcome = run_backward c b;
               rewrittenCalls = decodeToolCalls (wc_codec c) (bo_toolCalls outcome) (pr_toolCalls resp)
           in ([b], Inr (if bo_content outcome \<noteq> content \<or> rewrittenCalls \<noteq> None
                 then resp\<lparr>pr_message := Some (bo_content outcome),
                        pr_toolCalls := (case rewrittenCalls of None \<Rightarrow> pr_toolCalls resp | Some calls \<Rightarrow> calls)\<rparr>
                 else resp))))"

text \<open>What is read of a stream: its text, its tool calls, the last usage and whether it was completed.\<close>

definition chunk_text :: "'x pipe_chunk \<Rightarrow> string" where
  "chunk_text ch = (case pk_delta ch of None \<Rightarrow> [] | Some (content, _) \<Rightarrow> content)"

definition chunk_calls :: "'x pipe_chunk \<Rightarrow> tool_call_delta list" where
  "chunk_calls ch = (case pk_delta ch of None \<Rightarrow> [] | Some (_, ds) \<Rightarrow> ds)"

definition stream_text :: "'x pipe_chunk list \<Rightarrow> string" where
  "stream_text chunks = concat (map chunk_text chunks)"

definition stream_assembly :: "'x pipe_chunk list \<Rightarrow> assembly" where
  "stream_assembly chunks = fold (\<lambda>ch. collect (chunk_calls ch)) chunks (Map.empty, [])"

definition last_tokens :: "'x pipe_chunk list \<Rightarrow> (int \<times> int) option" where
  "last_tokens chunks = fold (\<lambda>ch u. case pk_usage ch of None \<Rightarrow> u | Some v \<Rightarrow> Some v) chunks None"

definition stream_complete :: "'x pipe_chunk list \<Rightarrow> bool" where
  "stream_complete chunks = list_ex pk_complete chunks"

text \<open>The chunks with the modified text on the first one with text and the rewritten calls on the first one with calls.\<close>

fun rewrite_chunks :: "string \<Rightarrow> tool_call_delta list option \<Rightarrow> bool \<Rightarrow> bool \<Rightarrow> 'x pipe_chunk list \<Rightarrow> 'x pipe_chunk list" where
  "rewrite_chunks modified calls replaced emitted [] = []"
| "rewrite_chunks modified calls replaced emitted (ch # chunks) =
     (case pk_delta ch of
        None \<Rightarrow> ch # rewrite_chunks modified calls replaced emitted chunks
      | Some (content, ds) \<Rightarrow>
          (let has = (calls \<noteq> None \<and> ds \<noteq> [])
           in if content = [] \<and> \<not> has then ch # rewrite_chunks modified calls replaced emitted chunks
              else
                (let content' = (if content = [] then content else if replaced then [] else modified);
                     ds' = (if has then if emitted then [] else the calls else ds)
                 in ch\<lparr>pk_delta := Some (content', ds')\<rparr>
                    # rewrite_chunks modified calls (replaced \<or> content \<noteq> []) (emitted \<or> has) chunks)))"

text \<open>The chunks the caller takes: \<open>gone m\<close> says whether it is gone when the \<open>m\<close>-th is due.\<close>

definition deliver :: "(nat \<Rightarrow> bool) \<Rightarrow> 'x pipe_chunk list \<Rightarrow> 'x pipe_chunk list" where
  "deliver gone chunks = map snd (takeWhile (\<lambda>(m, _). \<not> gone m) (enumerate 0 chunks))"

text \<open>
  The buffered stream.  \<open>left\<close> says whether the caller is gone once the source is read; it is then sent one chunk with the usage,
  built from \<open>rest\<close>.
\<close>

definition streamBuffered :: "('c, 't, 'e) wrapped_client \<Rightarrow> 'x \<Rightarrow> (nat \<Rightarrow> bool) \<Rightarrow> bool \<Rightarrow> 'x pipe_chunk list
    \<Rightarrow> backward_call list \<times> 'x pipe_chunk list" where
  "streamBuffered c rest gone left chunks =
     (let content = stream_text chunks; calls = stream_assembly chunks;
          b = \<lparr>bk_content = content, bk_toolCalls = calls_json (wc_codec c) calls, bk_tokens = last_tokens chunks,
               bk_hadError = left \<and> \<not> stream_complete chunks\<rparr>
      in if left
         then ([b], [\<lparr>pk_delta = (if stream_complete chunks then None else Some ([], [])), pk_usage = last_tokens chunks,
                      pk_complete = stream_complete chunks, pk_rest = rest\<rparr>])
         else
           (let outcome = run_backward c b; rewrittenCalls = rewritten (wc_codec c) (bo_toolCalls outcome) calls
            in ([b], deliver gone
                  (if bo_content outcome = content \<and> rewrittenCalls = None then chunks
                   else rewrite_chunks (bo_content outcome) rewrittenCalls False False chunks))))"

text \<open>The stream passed through: the backward pass sees what was read when the caller left.\<close>

definition streamPassthrough :: "('c, 't, 'e) wrapped_client \<Rightarrow> (nat \<Rightarrow> bool) \<Rightarrow> bool \<Rightarrow> 'x pipe_chunk list
    \<Rightarrow> backward_call list \<times> 'x pipe_chunk list" where
  "streamPassthrough c gone left chunks =
     (let sent = deliver gone chunks; read = take (Suc (length sent)) chunks
      in ([\<lparr>bk_content = stream_text read, bk_toolCalls = [], bk_tokens = last_tokens read,
            bk_hadError = (length sent < length chunks \<or> left \<and> \<not> stream_complete chunks)\<rparr>], sent))"

definition WrappedChatCompletionStream :: "('c, 't, 'e) wrapped_client \<Rightarrow> 'x \<Rightarrow> (nat \<Rightarrow> bool) \<Rightarrow> bool \<Rightarrow> ('y, 'x pipe_chunk list) result
    \<Rightarrow> backward_call list \<times> ('y, 'x pipe_chunk list) result" where
  "WrappedChatCompletionStream c rest gone left source =
     (case source of
        Inl err \<Rightarrow> ([], Inl err)
      | Inr chunks \<Rightarrow>
          (case (if \<not> MayModifyResponse (wc_asked c) (Some (wc_exec c)) then streamPassthrough c gone left chunks
                 else streamBuffered c rest gone left chunks) of
             (passes, out) \<Rightarrow> (passes, Inr out)))"

section \<open>What a caller reads of a rewritten stream\<close>

lemma stream_text_simps [simp]: "stream_text [] = []" "stream_text (ch # chunks) = chunk_text ch @ stream_text chunks"
  by (simp_all add: stream_text_def)

lemma rewrite_chunks_text:
  "stream_text (rewrite_chunks modified calls replaced emitted chunks) = (if replaced \<or> stream_text chunks = [] then [] else modified)"
  by (induction chunks arbitrary: replaced emitted)
    (auto simp: chunk_text_def Let_def split: option.splits)

definition stream_deltas :: "'x pipe_chunk list \<Rightarrow> tool_call_delta list" where
  "stream_deltas chunks = concat (map chunk_calls chunks)"

lemma stream_deltas_simps [simp]: "stream_deltas [] = []" "stream_deltas (ch # chunks) = chunk_calls ch @ stream_deltas chunks"
  by (simp_all add: stream_deltas_def)

lemma stream_assembly_deltas: "stream_assembly chunks = fold add_delta (stream_deltas chunks) (Map.empty, [])"
proof -
  have "fold (\<lambda>ch. collect (chunk_calls ch)) chunks s = fold add_delta (stream_deltas chunks) s" for s
    by (induction chunks arbitrary: s) (simp_all add: collect_def)
  then show ?thesis by (simp add: stream_assembly_def)
qed

lemma rewrite_chunks_deltas:
  "stream_deltas (rewrite_chunks modified calls replaced emitted chunks) =
     (case calls of
        None \<Rightarrow> stream_deltas chunks
      | Some ds \<Rightarrow> if emitted \<or> stream_deltas chunks = [] then [] else ds)"
  by (induction chunks arbitrary: replaced emitted)
    (auto simp: chunk_calls_def Let_def split: option.splits)

text \<open>The usage, the completion and the rest of every chunk stay in their place.\<close>

lemma rewrite_chunks_rest:
  "map (\<lambda>ch. (pk_usage ch, pk_complete ch, pk_rest ch)) (rewrite_chunks modified calls replaced emitted chunks) =
   map (\<lambda>ch. (pk_usage ch, pk_complete ch, pk_rest ch)) chunks"
  by (induction chunks arbitrary: replaced emitted) (auto simp: Let_def split: option.splits)

lemma deliver_all: "(\<And>m. \<not> gone m) \<Longrightarrow> deliver gone chunks = chunks"
  by (simp add: deliver_def takeWhile_eq_all_conv [THEN iffD2])

section \<open>Assemblies\<close>

lemma assembly_of:
  "assembled_from ds (fold add_delta ds (Map.empty, []))"
  using assembled_from_fold [of "[]" "(Map.empty, [])" ds] by (simp add: assembled_from_def in_order_def)

lemma assembly_order: "snd (fold add_delta ds (Map.empty, [])) = in_order (map td_index ds)"
  using assembly_of [of ds] by (auto simp: assembled_from_def)

lemma assembly_call:
  "idx \<in> set (map td_index ds) \<Longrightarrow>
   fst (fold add_delta ds (Map.empty, [])) idx = Some (call_of_deltas (filter (\<lambda>d. td_index d = idx) ds))"
  using assembly_of [of ds] by (auto simp: assembled_from_def)

lemma in_order_distinct: "distinct xs \<Longrightarrow> in_order xs = xs"
  by (simp add: in_order_def distinct_remdups_id)

lemma distinct_in_order [simp]: "distinct (in_order xs)" "set (in_order xs) = set xs"
  by (simp_all add: in_order_def)

lemma sort_eq_Nil [simp]: "sort xs = [] \<longleftrightarrow> xs = []"
  by (metis length_0_conv length_sort)

definition call_of_delta :: "tool_call_delta \<Rightarrow> tool_call" where
  "call_of_delta d = \<lparr>tc_id = td_id d, tc_name = td_name d, tc_args = td_args d\<rparr>"

lemma call_of_single: "call_of_deltas [d] = call_of_delta d"
  by (simp add: call_of_deltas_def call_of_delta_def last_given_def)

lemma filter_index_single:
  "distinct (map td_index ds) \<Longrightarrow> d \<in> set ds \<Longrightarrow> filter (\<lambda>x. td_index x = td_index d) ds = [d]"
proof (induction ds)
  case (Cons e ds)
  show ?case
  proof (cases "d = e")
    case True
    then have "x \<in> set ds \<Longrightarrow> td_index x \<noteq> td_index d" for x using Cons.prems(1) by auto (metis image_eqI)
    then show ?thesis using True by (simp add: filter_empty_conv)
  next
    case False
    then have "d \<in> set ds" using Cons.prems by simp
    then have "td_index e \<noteq> td_index d" using Cons.prems(1) by auto
    then show ?thesis using Cons.IH Cons.prems(1) \<open>d \<in> set ds\<close> by simp
  qed
qed simp

lemma streamed_calls_whole:
  assumes "sorted (map td_index ds)" "distinct (map td_index ds)"
  shows "streamed_calls (fold add_delta ds (Map.empty, [])) = map call_of_delta ds"
proof -
  have "sort (in_order (map td_index ds)) = map td_index ds"
    using assms by (simp add: in_order_distinct sorted_sort_id)
  then have "streamed_calls (fold add_delta ds (Map.empty, [])) =
      map (\<lambda>d. the (fst (fold add_delta ds (Map.empty, [])) (td_index d))) ds"
    by (simp add: streamed_calls_def sortedIndexes_def assembly_order o_def)
  also have "\<dots> = map call_of_delta ds"
    using assms(2) by (intro map_cong refl) (simp add: assembly_call filter_index_single call_of_single)
  finally show ?thesis .
qed

lemma rewritten_call_keeps [simp]: "tc_id (rewritten_call wire i tc) = tc_id tc" "tc_name (rewritten_call wire i tc) = tc_name tc"
  by (auto simp: rewritten_call_def split: option.splits)

text \<open>Re-emitted and read again, the calls of a stream are those of the plain response.\<close>

lemma rewritten_read_back:
  assumes "s = fold add_delta ds0 (Map.empty, [])"
  shows "(case rewritten codec json s of None \<Rightarrow> streamed_calls s | Some ds \<Rightarrow> streamed_calls (fold add_delta ds (Map.empty, []))) =
    (case decodeToolCalls codec json (streamed_calls s) of None \<Rightarrow> streamed_calls s | Some calls \<Rightarrow> calls)"
proof -
  have order: "snd s = in_order (map td_index ds0)" using assms by (simp add: assembly_order)
  have empty: "streamed_calls s = [] \<longleftrightarrow> snd s = []" by (simp add: streamed_calls_def sortedIndexes_def)
  show ?thesis
  proof (cases "json = [] \<or> snd s = []")
    case True
    then show ?thesis using empty by (auto simp: rewritten_def decodeToolCalls_def)
  next
    case False
    show ?thesis
    proof (cases "wi_decode codec json")
      case None
      then show ?thesis using False empty by (simp add: rewritten_def decodeToolCalls_def)
    next
      case (Some wire)
      let ?delta = "\<lambda>(i, idx). \<lparr>td_index = idx, td_id = tc_id (the (fst s idx)), td_name = tc_name (the (fst s idx)),
        td_args = tc_args (rewritten_call wire i (the (fst s idx)))\<rparr>"
      let ?ds = "map ?delta (enumerate 0 (sortedIndexes s))"
      have rw: "rewritten codec json s = Some ?ds" using False Some by (simp add: rewritten_def Let_def case_prod_beta)
      have idx: "map td_index ?ds = sortedIndexes s" by (simp add: o_def case_prod_beta)
      have "streamed_calls (fold add_delta ?ds (Map.empty, [])) = map call_of_delta ?ds"
        by (rule streamed_calls_whole) (simp_all only: idx, simp_all add: sortedIndexes_def order)
      also have "\<dots> = map (\<lambda>(i, idx). rewritten_call wire i (the (fst s idx))) (enumerate 0 (sortedIndexes s))"
        by (auto simp: call_of_delta_def intro!: tool_call.equality)
      also have "\<dots> = map (\<lambda>(i, tc). rewritten_call wire i tc) (enumerate 0 (streamed_calls s))"
        by (simp add: streamed_calls_def enumerate_eq_zip zip_map2 case_prod_beta o_def)
      finally show ?thesis using rw False empty Some by (simp add: decodeToolCalls_def)
    qed
  qed
qed

section \<open>Streams and plain responses\<close>

text \<open>A plain response and a stream that carry the same answer.\<close>

definition same_answer :: "plain_response \<Rightarrow> 'x pipe_chunk list \<Rightarrow> bool" where
  "same_answer resp chunks \<longleftrightarrow>
     pr_message resp = Some (stream_text chunks) \<and> pr_toolCalls resp = streamed_calls (stream_assembly chunks) \<and>
     pr_usage resp = last_tokens chunks"

text \<open>The executors answer the same before and after the call, and honour the contract of \<open>ResponseModifier\<close>.\<close>

definition steady :: "('c, 't, 'e) wrapped_client \<Rightarrow> bool" where
  "steady c \<longleftrightarrow> wc_asked c = wc_registry c \<and> (\<forall>t ex. wc_registry c t = Some ex \<longrightarrow> quiet_executor ex) \<and>
     (\<forall>en \<in> set (fe_executed (wc_exec c)). keeps_promise (wc_registry c) en)"

definition plain_pass :: "('c, 't, 'e) wrapped_client \<Rightarrow> 'x pipe_chunk list \<Rightarrow> backward_call" where
  "plain_pass c chunks =
     \<lparr>bk_content = stream_text chunks, bk_toolCalls = calls_json (wc_codec c) (stream_assembly chunks), bk_tokens = last_tokens chunks,
      bk_hadError = False\<rparr>"

lemma plain_answer:
  assumes "same_answer resp chunks" "outcome = run_backward c (plain_pass c chunks)"
  shows "\<exists>resp'. WrappedChatCompletion c (Inr resp) = ([plain_pass c chunks], Inr resp') \<and>
    pr_message resp' = Some (bo_content outcome) \<and> pr_usage resp' = pr_usage resp \<and>
    pr_toolCalls resp' =
      (case decodeToolCalls (wc_codec c) (bo_toolCalls outcome) (streamed_calls (stream_assembly chunks)) of
         None \<Rightarrow> streamed_calls (stream_assembly chunks) | Some calls \<Rightarrow> calls)"
  using assms by (auto simp: WrappedChatCompletion_def same_answer_def plain_pass_def calls_json_def Let_def split: option.splits)

lemma buffered_answer:
  assumes alive: "\<And>m. \<not> gone m" and outcome: "outcome = run_backward c (plain_pass c chunks)"
  shows "\<exists>out. streamBuffered c rest gone False chunks = ([plain_pass c chunks], out) \<and>
    stream_text out = (if stream_text chunks = [] then [] else bo_content outcome) \<and>
    streamed_calls (stream_assembly out) =
      (case decodeToolCalls (wc_codec c) (bo_toolCalls outcome) (streamed_calls (stream_assembly chunks)) of
         None \<Rightarrow> streamed_calls (stream_assembly chunks) | Some calls \<Rightarrow> calls) \<and>
    map (\<lambda>ch. (pk_usage ch, pk_complete ch, pk_rest ch)) out = map (\<lambda>ch. (pk_usage ch, pk_complete ch, pk_rest ch)) chunks"
proof -
  let ?s = "stream_assembly chunks"
  let ?rw = "rewritten (wc_codec c) (bo_toolCalls outcome) ?s"
  let ?out = "if bo_content outcome = stream_text chunks \<and> ?rw = None then chunks
    else rewrite_chunks (bo_content outcome) ?rw False False chunks"
  have run: "streamBuffered c rest gone False chunks = ([plain_pass c chunks], ?out)"
    using outcome by (simp add: streamBuffered_def plain_pass_def deliver_all [OF alive] Let_def)
  have nonempty: "?rw \<noteq> None \<Longrightarrow> stream_deltas chunks \<noteq> []"
    by (auto simp: rewritten_def stream_assembly_deltas split: if_splits)
  have "streamed_calls (stream_assembly ?out) =
      (case ?rw of None \<Rightarrow> streamed_calls ?s | Some ds \<Rightarrow> streamed_calls (fold add_delta ds (Map.empty, [])))"
    using nonempty by (cases ?rw) (simp_all add: stream_assembly_deltas rewrite_chunks_deltas)
  moreover note rewritten_read_back [where s = ?s, OF stream_assembly_deltas, of "wc_codec c" "bo_toolCalls outcome"]
  moreover have "stream_text ?out = (if stream_text chunks = [] then [] else bo_content outcome)"
    by (simp add: rewrite_chunks_text)
  ultimately show ?thesis using run rewrite_chunks_rest by auto
qed

text \<open>
  C3.  Streaming changes nothing to what a caller reads.  While the plugins answer the same throughout the request and
  the nodes that say they do not rewrite the response keep their word, what a caller that stays reads from a stream is the
  plain response to the same answer, whether the stream was passed through or held back for the nodes that rewrite it: the text, unless the nodes put text into an answer that has none, and the tool
  calls, with the identifiers and names the model gave.  Every chunk keeps its place, its usage and its completion mark, and
  when the stream is held back the nodes see in it what they see in the plain response.
\<close>

theorem stream_reads_as_plain:
  fixes chunks :: "'x pipe_chunk list"
  assumes "steady c" "same_answer resp chunks" and alive: "\<And>m. \<not> gone m"
    and "stream_text chunks = [] \<longrightarrow> bo_content (run_backward c (plain_pass c chunks)) = []"
  shows "\<exists>passes passes' out resp'. WrappedChatCompletionStream c rest gone False (Inr chunks) = (passes, (Inr out :: ('y, 'x pipe_chunk list) result)) \<and>
    WrappedChatCompletion c (Inr resp) = (passes', (Inr resp' :: ('y, plain_response) result)) \<and>
    pr_message resp' = Some (stream_text out) \<and> pr_toolCalls resp' = streamed_calls (stream_assembly out) \<and>
    (MayModifyResponse (wc_asked c) (Some (wc_exec c)) \<longrightarrow> passes' = passes) \<and>
    map (\<lambda>ch. (pk_usage ch, pk_complete ch, pk_rest ch)) out = map (\<lambda>ch. (pk_usage ch, pk_complete ch, pk_rest ch)) chunks"
proof -
  let ?outcome = "run_backward c (plain_pass c chunks)"
  obtain resp' where plain: "WrappedChatCompletion c (Inr resp) = ([plain_pass c chunks], (Inr resp' :: ('y, plain_response) result))"
      "pr_message resp' = Some (bo_content ?outcome)"
      "pr_toolCalls resp' = (case decodeToolCalls (wc_codec c) (bo_toolCalls ?outcome) (streamed_calls (stream_assembly chunks)) of
         None \<Rightarrow> streamed_calls (stream_assembly chunks) | Some calls \<Rightarrow> calls)"
    using plain_answer [OF assms(2) refl, of c] by blast
  show ?thesis
  proof (cases "MayModifyResponse (wc_asked c) (Some (wc_exec c))")
    case True
    obtain out where "streamBuffered c rest gone False chunks = ([plain_pass c chunks], out)" "stream_text out = bo_content ?outcome"
        "streamed_calls (stream_assembly out) = pr_toolCalls resp'"
        "map (\<lambda>ch. (pk_usage ch, pk_complete ch, pk_rest ch)) out = map (\<lambda>ch. (pk_usage ch, pk_complete ch, pk_rest ch)) chunks"
      using buffered_answer [where gone = gone and c = c and chunks = chunks, OF alive refl, of rest] assms(4) plain(3) by auto
    then show ?thesis using plain True by (simp add: WrappedChatCompletionStream_def)
  next
    case False
    have "?outcome = \<lparr>bo_content = stream_text chunks, bo_toolCalls = []\<rparr>"
      using streaming_sound [of "wc_registry c" "wc_exec c"] False assms(1)
      by (simp add: run_backward_def plain_pass_def steady_def)
    then show ?thesis using plain False
      by (simp add: WrappedChatCompletionStream_def streamPassthrough_def deliver_all [OF alive] decodeToolCalls_def Let_def)
  qed
qed

section \<open>A plugin that restores the response\<close>

definition restoring_plugin :: "unit plugin_proc" where
  "restoring_plugin = silent_plugin\<lparr>pp_capabilities := [POST_RESPONSE], pp_postResponse := \<lambda>_ _ _. Inr \<lparr>br_content = ''Alice'', br_toolCalls = []\<rparr>\<rparr>"

definition plugin_registry :: "(string \<Rightarrow> unit plugin_proc option) \<Rightarrow> (unit, unit, unit plugin_error) registry" where
  "plugin_registry provider t =
     (if t = NodeTypePlugin
      then Some (plugin_executor demo_plugin_env unit_clients provider \<lparr>ps_inspectors = None, ps_conversation = None\<rparr> False) else None)"

definition restored_run :: "(unit, unit) forward_execution" where
  "restored_run =
     \<lparr>fe_client = (), fe_model = ''m'', fe_modelID = [],
      fe_executed = [\<lparr>en_pluginContext = [], en_node = plugin_node ''pseudo'', en_state = [], en_noResponseRewrite = False\<rparr>],
      fe_messages = [], fe_tools = [], fe_outcome = None\<rparr>"

definition no_wire :: wire_codec where
  "no_wire = \<lparr>wi_encode = \<lambda>_. None, wi_decode = \<lambda>_. None\<rparr>"

definition restoring_client :: "(string \<Rightarrow> unit plugin_proc option) \<Rightarrow> (string \<Rightarrow> unit plugin_proc option)
    \<Rightarrow> (unit, unit, unit plugin_error) wrapped_client" where
  "restoring_client asked provider =
     \<lparr>wc_asked = plugin_registry asked, wc_registry = plugin_registry provider, wc_exec = restored_run, wc_expired = \<lambda>_. False,
      wc_codec = no_wire\<rparr>"

definition text_chunk :: "string \<Rightarrow> unit pipe_chunk" where
  "text_chunk s = \<lparr>pk_delta = Some (s, []), pk_usage = None, pk_complete = False, pk_rest = ()\<rparr>"

definition text_response :: "string \<Rightarrow> plain_response" where
  "text_response s = \<lparr>pr_message = Some s, pr_toolCalls = [], pr_usage = None\<rparr>"

lemmas restoring_defs = restoring_client_def plugin_registry_def restored_run_def plugin_executor_def ModifiesResponse_def
  PluginBackward_def parsePluginNodeData_def plugin_node_def demo_plugin_env_def restoring_plugin_def silent_plugin_def hasCapability_def

lemma restoring_outcome:
  "provider ''pseudo'' = Some restoring_plugin \<Longrightarrow> bo_content (run_backward (restoring_client asked provider) b) = ''Alice'' \<and>
   bo_toolCalls (run_backward (restoring_client asked provider) b) = []"
  by (simp add: run_backward_def RunBackwardWithToolCalls_def backward_input_of_def restoring_defs)

lemma restoring_asked:
  "MayModifyResponse (wc_asked (restoring_client asked provider)) (Some (wc_exec (restoring_client asked provider))) \<longleftrightarrow>
   (case asked ''pseudo'' of None \<Rightarrow> False | Some p \<Rightarrow> hasCapability p POST_RESPONSE)"
  by (simp add: MayModifyResponse_def restoring_client_def plugin_registry_def restored_run_def plugin_executor_def ModifiesResponse_def
      parsePluginNodeData_def plugin_node_def demo_plugin_env_def)

lemma text_chunks_answer:
  "stream_assembly (map text_chunk ss) = (Map.empty, [])" "stream_text (map text_chunk ss) = concat ss"
  "last_tokens (map text_chunk ss) = None"
  by (induction ss)
    (simp_all add: stream_assembly_deltas last_tokens_def text_chunk_def chunk_calls_def chunk_text_def)

lemma restoring_steady: "steady (restoring_client provider provider)"
  by (auto simp: steady_def restoring_client_def plugin_registry_def plugin_quiet.quiet_executor_axioms restored_run_def keeps_promise_def
      split: if_splits)

theorem stream_reads_as_plain_witness:
  "\<exists>passes out. WrappedChatCompletionStream (restoring_client (\<lambda>_. Some restoring_plugin) (\<lambda>_. Some restoring_plugin)) () (\<lambda>_. False) False
       (Inr (map text_chunk [''PER'', ''SON_1''])) = (passes, (Inr out :: (unit, unit pipe_chunk list) result)) \<and> stream_text out = ''Alice''"
proof -
  let ?c = "restoring_client (\<lambda>_. Some restoring_plugin) (\<lambda>_. Some restoring_plugin)"
  have same: "same_answer (text_response ''PERSON_1'') (map text_chunk [''PER'', ''SON_1''])"
    by (simp only: same_answer_def text_chunks_answer) (simp add: text_response_def streamed_calls_def sortedIndexes_def)
  have nonempty: "stream_text (map text_chunk [''PER'', ''SON_1'']) = [] \<longrightarrow>
      bo_content (run_backward ?c (plain_pass ?c (map text_chunk [''PER'', ''SON_1'']))) = []"
    by (simp only: text_chunks_answer) simp
  obtain passes passes' out resp' where
      "WrappedChatCompletionStream ?c () (\<lambda>_. False) False (Inr (map text_chunk [''PER'', ''SON_1''])) = (passes, (Inr out :: (unit, unit pipe_chunk list) result))"
      "WrappedChatCompletion ?c (Inr (text_response ''PERSON_1'')) = (passes', (Inr resp' :: (unit, plain_response) result))" "pr_message resp' = Some (stream_text out)"
    using stream_reads_as_plain [OF restoring_steady same _ nonempty, of "\<lambda>_. False"] by blast
  moreover from this(2) have "pr_message resp' = Some ''Alice''"
    by (auto simp: WrappedChatCompletion_def Let_def text_response_def restoring_outcome split: if_splits)
  ultimately show ?thesis by auto
qed

text \<open>
  The manager of a plugin that crashed soon after a restart, and what it answers at a time: nothing until the cooldown has
  passed since the last restart, then the plugin.
\<close>

definition crashed :: "unit manager" where
  "crashed = \<lparr>mg_cooldown = 100, mg_plugins = [\<lparr>en_name = ''pseudo'', en_proc = restoring_plugin, en_exited = True, en_httpPort = 0,
     en_path = ''/p/pseudo'', en_lastRestart = Some 10\<rparr>]\<rparr>"

definition seen_at :: "int \<Rightarrow> string \<Rightarrow> unit plugin_proc option" where
  "seen_at now name = fst (snd (GetOrRestart
     (\<lambda>_. Some \<lparr>en_name = ''pseudo'', en_proc = restoring_plugin, en_exited = False, en_httpPort = 0, en_path = ''/p/pseudo'', en_lastRestart = None\<rparr>)
     now now crashed name))"

lemma seen_at_times: "seen_at 50 ''pseudo'' = None" "seen_at 200 ''pseudo'' = Some restoring_plugin"
  by (simp_all add: seen_at_def crashed_def GetOrRestart_def read_section_def write_section_def findEntry_def cooling_def)

text \<open>The plugins that answer no call at a time: those in their restart cooldown after an exit.\<close>

definition cooling_down :: "'e manager \<Rightarrow> int \<Rightarrow> string \<Rightarrow> bool" where
  "cooling_down mg now name \<longleftrightarrow> (\<exists>i e. findEntry mg name = Some (i, e) \<and> en_exited e \<and> cooling mg e now)"

lemma cooling_down_absent: "cooling_down mg now name \<Longrightarrow> fst (snd (GetOrRestart load now loaded mg name)) = None"
  by (auto simp: cooling_down_def GetOrRestart_def read_section_def write_section_def)

lemma cooling_not_modifying:
  assumes "asked NodeTypePlugin = Some (plugin_executor env cl (\<lambda>name. fst (snd (GetOrRestart load now loaded mg name))) sh late)"
    and "\<forall>en \<in> set (fe_executed fe). en_noResponseRewrite en \<or> node_type (en_node en) = NodeTypePlugin \<and>
      (\<exists>data. parsePluginNodeData env (en_node en) = Inr data \<and> cooling_down mg now (pd_name data))"
  shows "\<not> MayModifyResponse asked (Some fe)"
  using assms cooling_down_absent [of mg now _ load loaded]
  by (force simp: MayModifyResponse_def list_ex_iff plugin_executor_def ModifiesResponse_def)

text \<open>
  C39.  A plugin in its restart cooldown makes a stream go out unrestored.  When the stream is asked for while every node
  that could rewrite the response runs a plugin that exited and may not be restarted yet, the stream goes out as the model
  produced it, whatever the backward pass answers; when a plugin is back for that pass and rewrites the text, as when it
  restores placeholders, the caller reads another text than the plain response to the same answer holds.
\<close>

theorem cooling_plugin_streams_unrestored:
  fixes chunks :: "'x pipe_chunk list"
  assumes "wc_asked c NodeTypePlugin = Some (plugin_executor env cl (\<lambda>name. fst (snd (GetOrRestart load now loaded mg name))) sh late)"
    and "\<forall>en \<in> set (fe_executed (wc_exec c)). en_noResponseRewrite en \<or> node_type (en_node en) = NodeTypePlugin \<and>
      (\<exists>data. parsePluginNodeData env (en_node en) = Inr data \<and> cooling_down mg now (pd_name data))"
    and "same_answer resp chunks" and alive: "\<And>m. \<not> gone m"
    and "bo_content (run_backward c (plain_pass c chunks)) \<noteq> stream_text chunks"
  shows "\<exists>resp'. snd (WrappedChatCompletionStream c rest gone False (Inr chunks)) = (Inr chunks :: ('y, 'x pipe_chunk list) result) \<and>
    snd (WrappedChatCompletion c (Inr resp)) = (Inr resp' :: ('y, plain_response) result) \<and>
    pr_message resp' = Some (bo_content (run_backward c (plain_pass c chunks))) \<and> pr_message resp' \<noteq> Some (stream_text chunks)"
proof -
  have "\<not> MayModifyResponse (wc_asked c) (Some (wc_exec c))" using assms(1,2) by (intro cooling_not_modifying)
  then have "snd (WrappedChatCompletionStream c rest gone False (Inr chunks)) = (Inr chunks :: ('y, 'x pipe_chunk list) result)"
    by (simp add: WrappedChatCompletionStream_def streamPassthrough_def deliver_all [OF alive] Let_def)
  moreover obtain resp' where "WrappedChatCompletion c (Inr resp) = ([plain_pass c chunks], (Inr resp' :: ('y, plain_response) result))"
      "pr_message resp' = Some (bo_content (run_backward c (plain_pass c chunks)))"
    using plain_answer [OF assms(3) refl, of c] by blast
  ultimately show ?thesis using assms(5) by auto
qed

theorem cooling_plugin_streams_unrestored_witness:
  "snd (WrappedChatCompletionStream (restoring_client (seen_at 50) (seen_at 200)) () (\<lambda>_. False) False (Inr (map text_chunk [''PERSON_1'']))) =
     (Inr (map text_chunk [''PERSON_1'']) :: (unit, unit pipe_chunk list) result) \<and>
   (\<exists>resp'. snd (WrappedChatCompletion (restoring_client (seen_at 50) (seen_at 200)) (Inr (text_response ''PERSON_1''))) =
     (Inr resp' :: (unit, plain_response) result) \<and> pr_message resp' = Some ''Alice'')"
proof -
  let ?c = "restoring_client (seen_at 50) (seen_at 200)" and ?chunks = "map text_chunk [''PERSON_1'']"
  have asked: "wc_asked ?c NodeTypePlugin = Some (plugin_executor demo_plugin_env unit_clients (\<lambda>name. fst (snd (GetOrRestart
      (\<lambda>_. Some \<lparr>en_name = ''pseudo'', en_proc = restoring_plugin, en_exited = False, en_httpPort = 0, en_path = ''/p/pseudo'', en_lastRestart = None\<rparr>)
      50 50 crashed name))) \<lparr>ps_inspectors = None, ps_conversation = None\<rparr> False)"
    by (simp add: restoring_client_def plugin_registry_def seen_at_def [abs_def])
  have nodes: "\<forall>en \<in> set (fe_executed (wc_exec ?c)). en_noResponseRewrite en \<or> node_type (en_node en) = NodeTypePlugin \<and>
      (\<exists>data. parsePluginNodeData demo_plugin_env (en_node en) = Inr data \<and> cooling_down crashed 50 (pd_name data))"
    by (simp add: restoring_client_def restored_run_def parsePluginNodeData_def plugin_node_def demo_plugin_env_def
        cooling_down_def crashed_def findEntry_def cooling_def)
  have same: "same_answer (text_response ''PERSON_1'') ?chunks"
    by (simp only: same_answer_def text_chunks_answer) (simp add: text_response_def streamed_calls_def sortedIndexes_def)
  have alice: "bo_content (run_backward ?c (plain_pass ?c ?chunks)) = ''Alice''"
    using restoring_outcome [of "seen_at 200"] seen_at_times(2) by blast
  have differs: "bo_content (run_backward ?c (plain_pass ?c ?chunks)) \<noteq> stream_text ?chunks"
    unfolding alice text_chunks_answer by simp
  obtain resp' where
      "snd (WrappedChatCompletionStream ?c () (\<lambda>_. False) False (Inr ?chunks)) = (Inr ?chunks :: (unit, unit pipe_chunk list) result)"
      "snd (WrappedChatCompletion ?c (Inr (text_response ''PERSON_1''))) = (Inr resp' :: (unit, plain_response) result)"
      "pr_message resp' = Some (bo_content (run_backward ?c (plain_pass ?c ?chunks)))"
    using cooling_plugin_streams_unrestored [OF asked nodes same _ differs, of "\<lambda>_. False"] by blast
  then show ?thesis unfolding alice by blast
qed

text \<open>
  A rewrite of an answer without text is lost when it is streamed: no chunk has text to carry it.
\<close>

theorem textless_rewrite_lost:
  assumes "\<And>m. \<not> gone m" "stream_text chunks = []"
  shows "stream_text (snd (streamBuffered c rest gone False chunks)) = []"
  using buffered_answer [where gone = gone and c = c and chunks = chunks, OF assms(1) refl, of rest] assms(2) by auto

text \<open>A response that began is followed by exactly one backward pass; one that failed to begin, by one only when it is not streamed.\<close>

theorem backward_passes:
  "length (fst (WrappedChatCompletion c inner)) = 1 \<and>
   length (fst (WrappedChatCompletionStream c rest gone left source)) = (case source of Inl _ \<Rightarrow> 0 | Inr _ \<Rightarrow> 1)"
  by (auto simp: WrappedChatCompletion_def WrappedChatCompletionStream_def streamBuffered_def streamPassthrough_def Let_def
      split: sum.splits)

end
