(* ===== verification/Relay.thy ===== *)
theory Relay
  imports Wrapped_Client
begin

text \<open>
  The relay of Anthropic messages through a pipeline: \<open>src/internal/adapter/proxy/pipeline_relay.go\<close>.

  A raw event is what the restoration reads of it (\<open>relayedEvent\<close>) and the rest of its bytes, which no operation looks into;
  decoding an event and encoding it again with one field of its delta replaced are those of \<open>encoding/json\<close>, the latter
  failing on the events for which \<open>reencodes\<close> is false.  A chunk is raw or not, and may carry an error and a usage.
\<close>

section \<open>Events and held blocks\<close>

record 'x relayed_event =
  re_type :: string
  re_index :: int
  re_blockType :: string
  re_blockID :: string
  re_blockName :: string
  re_deltaType :: string
  re_text :: string
  re_partialJSON :: string
  re_data :: 'x

record 'x relay_chunk =
  rc_event :: "'x relayed_event option"
  rc_error :: bool
  rc_usage :: "(int \<times> int) option"
  rc_complete :: bool

abbreviation ev :: "'x relay_chunk \<Rightarrow> 'x relayed_event" where "ev ch \<equiv> the (rc_event ch)"

text \<open>A held event is its chunk and what was read of it, \<open>None\<close> for an event the relay does not know.\<close>

type_synonym 'x held_event = "'x relay_chunk \<times> 'x relayed_event option"

record 'x held_blocks =
  hb_events :: "'x held_event list"
  hb_texts :: "string list"
  hb_textPos :: "int \<rightharpoonup> nat"
  hb_toolUse :: "int \<Rightarrow> bool"
  hb_calls :: assembly

definition no_blocks :: "'x held_blocks" where
  "no_blocks = \<lparr>hb_events = [], hb_texts = [], hb_textPos = Map.empty, hb_toolUse = (\<lambda>_. False), hb_calls = (Map.empty, [])\<rparr>"

definition starts :: "string \<Rightarrow> 'x relayed_event \<Rightarrow> bool" where
  "starts kind e \<longleftrightarrow> re_type e = ''content_block_start'' \<and> re_blockType e = kind"

definition held_add :: "'x relay_chunk \<Rightarrow> 'x held_blocks \<Rightarrow> 'x held_blocks" where
  "held_add ch h =
     (let e = ev ch; h' = h\<lparr>hb_events := hb_events h @ [(ch, Some e)]\<rparr>
      in if starts ''text'' e
         then h'\<lparr>hb_textPos := (hb_textPos h)(re_index e \<mapsto> length (hb_texts h)), hb_texts := hb_texts h @ [[]]\<rparr>
         else if starts ''tool_use'' e
         then h'\<lparr>hb_toolUse := (hb_toolUse h)(re_index e := True),
                hb_calls := collect [\<lparr>td_index = re_index e, td_id = re_blockID e, td_name = re_blockName e, td_args = []\<rparr>] (hb_calls h)\<rparr>
         else if re_deltaType e = ''text_delta''
         then (case hb_textPos h (re_index e) of
                 None \<Rightarrow> h'
               | Some pos \<Rightarrow> h'\<lparr>hb_texts := (hb_texts h)[pos := hb_texts h ! pos @ re_text e]\<rparr>)
         else if re_deltaType e = ''input_json_delta'' \<and> hb_toolUse h (re_index e)
         then h'\<lparr>hb_calls := collect [\<lparr>td_index = re_index e, td_id = [], td_name = [], td_args = re_partialJSON e\<rparr>] (hb_calls h)\<rparr>
         else h')"

text \<open>An event the relay does not know, amid the content, keeps its place without being read.\<close>

definition held_keep :: "'x relay_chunk \<Rightarrow> 'x held_blocks \<Rightarrow> 'x held_blocks" where
  "held_keep ch h = h\<lparr>hb_events := hb_events h @ [(ch, None)]\<rparr>"

section \<open>Restoring the held blocks\<close>

abbreviation textBlockSeparator :: char where "textBlockSeparator \<equiv> CHR 0x1E"

fun join_texts :: "string list \<Rightarrow> string" where
  "join_texts [] = []"
| "join_texts [t] = t"
| "join_texts (t # ts) = t @ textBlockSeparator # join_texts ts"

text \<open>\<open>strings.Split\<close>: always one part more than separators.\<close>

fun split_texts :: "string \<Rightarrow> string list" where
  "split_texts [] = [[]]"
| "split_texts (ch # s) =
     (if ch = textBlockSeparator then [] # split_texts s
      else (case split_texts s of p # ps \<Rightarrow> (ch # p) # ps | [] \<Rightarrow> [[ch]]))"

definition restored_texts :: "backward_outcome \<Rightarrow> string list \<Rightarrow> string list" where
  "restored_texts outcome texts =
     (if bo_content outcome \<noteq> join_texts texts \<and> length (split_texts (bo_content outcome)) = length texts
      then split_texts (bo_content outcome) else texts)"

definition restored_args :: "wire_codec \<Rightarrow> backward_outcome \<Rightarrow> assembly \<Rightarrow> int \<rightharpoonup> string" where
  "restored_args codec outcome calls =
     (case rewritten codec (bo_toolCalls outcome) calls of
        None \<Rightarrow> Map.empty
      | Some ds \<Rightarrow> fold (\<lambda>d m. m(td_index d \<mapsto> td_args d)) ds Map.empty)"

datatype delta_field = TextField | PartialField

definition withDelta :: "('x relayed_event \<Rightarrow> bool) \<Rightarrow> 'x relay_chunk \<Rightarrow> 'x relayed_event \<Rightarrow> delta_field \<Rightarrow> string \<Rightarrow> 'x relay_chunk" where
  "withDelta reencodes ch e field v =
     (if \<not> reencodes e then ch
      else ch\<lparr>rc_event := Some (case field of TextField \<Rightarrow> e\<lparr>re_text := v\<rparr> | PartialField \<Rightarrow> e\<lparr>re_partialJSON := v\<rparr>), rc_error := False\<rparr>)"

text \<open>What the delta of a held event is replaced with, if it is.\<close>

definition replacement :: "'x held_blocks \<Rightarrow> string list \<Rightarrow> (int \<rightharpoonup> string) \<Rightarrow> 'x relayed_event \<Rightarrow> (delta_field \<times> string) option" where
  "replacement h texts args e =
     (if re_deltaType e = ''text_delta''
      then (case hb_textPos h (re_index e) of
              None \<Rightarrow> None
            | Some pos \<Rightarrow> if texts ! pos = hb_texts h ! pos then None else Some (TextField, texts ! pos))
      else if re_deltaType e = ''input_json_delta''
      then (case args (re_index e) of
              None \<Rightarrow> None
            | Some a \<Rightarrow>
                if \<not> hb_toolUse h (re_index e) \<or> a = tc_args (the (fst (hb_calls h) (re_index e))) then None else Some (PartialField, a))
      else None)"

fun place :: "('x relayed_event \<Rightarrow> bool) \<Rightarrow> ('x relayed_event \<Rightarrow> (delta_field \<times> string) option) \<Rightarrow> int set
    \<Rightarrow> 'x held_event list \<Rightarrow> 'x relay_chunk list" where
  "place reencodes repl placed [] = []"
| "place reencodes repl placed ((ch, None) # evs) = ch # place reencodes repl placed evs"
| "place reencodes repl placed ((ch, Some e) # evs) =
     (case repl e of
        None \<Rightarrow> ch # place reencodes repl placed evs
      | Some (field, v) \<Rightarrow>
          if re_index e \<in> placed then place reencodes repl placed evs
          else withDelta reencodes ch e field v # place reencodes repl (insert (re_index e) placed) evs)"

definition relay_pass :: "('c, 't, 'e) wrapped_client \<Rightarrow> 'x held_blocks \<Rightarrow> (int \<times> int) option \<Rightarrow> bool \<Rightarrow> backward_call" where
  "relay_pass c h tokens hadError =
     \<lparr>bk_content = join_texts (hb_texts h), bk_toolCalls = calls_json (wc_codec c) (hb_calls h), bk_tokens = tokens, bk_hadError = hadError\<rparr>"

definition restore :: "('c, 't, 'e) wrapped_client \<Rightarrow> ('x relayed_event \<Rightarrow> bool) \<Rightarrow> 'x held_blocks \<Rightarrow> (int \<times> int) option \<Rightarrow> bool
    \<Rightarrow> 'x relay_chunk list" where
  "restore c reencodes h tokens hadError =
     (let outcome = run_backward c (relay_pass c h tokens hadError)
      in place reencodes (replacement h (restored_texts outcome (hb_texts h)) (restored_args (wc_codec c) outcome (hb_calls h))) {}
           (hb_events h))"

section \<open>The relay\<close>

record 'x relay_state =
  rs_held :: "'x held_blocks"
  rs_tokens :: "(int \<times> int) option"
  rs_ran :: bool
  rs_out :: "'x relay_chunk list"
  rs_passes :: "backward_call list"
  rs_stopped :: bool

definition relay_start :: "'x relay_state" where
  "relay_start = \<lparr>rs_held = no_blocks, rs_tokens = None, rs_ran = False, rs_out = [], rs_passes = [], rs_stopped = False\<rparr>"

definition flush :: "('c, 't, 'e) wrapped_client \<Rightarrow> ('x relayed_event \<Rightarrow> bool) \<Rightarrow> bool \<Rightarrow> 'x relay_state
    \<Rightarrow> 'x relay_chunk list \<times> 'x relay_state" where
  "flush c reencodes hadError st =
     (restore c reencodes (rs_held st) (rs_tokens st) hadError,
      st\<lparr>rs_ran := True, rs_held := no_blocks, rs_passes := rs_passes st @ [relay_pass c (rs_held st) (rs_tokens st) hadError]\<rparr>)"

text \<open>\<open>gone m\<close> says whether the caller is gone when the \<open>m\<close>-th chunk is due.\<close>

definition send :: "('c, 't, 'e) wrapped_client \<Rightarrow> ('x relayed_event \<Rightarrow> bool) \<Rightarrow> (nat \<Rightarrow> bool) \<Rightarrow> 'x relay_chunk \<Rightarrow> 'x relay_state \<Rightarrow> 'x relay_state" where
  "send c reencodes gone ch st =
     (if rs_stopped st then st
      else if gone (length (rs_out st))
      then (if rs_ran st then st else snd (flush c reencodes True st))\<lparr>rs_stopped := True\<rparr>
      else st\<lparr>rs_out := rs_out st @ [ch]\<rparr>)"

definition sendAll :: "('c, 't, 'e) wrapped_client \<Rightarrow> ('x relayed_event \<Rightarrow> bool) \<Rightarrow> (nat \<Rightarrow> bool) \<Rightarrow> 'x relay_chunk list \<Rightarrow> 'x relay_state \<Rightarrow> 'x relay_state" where
  "sendAll c reencodes gone chs st = fold (send c reencodes gone) chs st"

definition is_ping :: "'x relay_chunk \<Rightarrow> bool" where
  "is_ping ch \<longleftrightarrow> rc_event ch \<noteq> None \<and> \<not> rc_error ch \<and> re_type (ev ch) = ''ping''"

definition is_content :: "'x relay_chunk \<Rightarrow> bool" where
  "is_content ch \<longleftrightarrow> rc_event ch \<noteq> None \<and> \<not> rc_error ch \<and> take 14 (re_type (ev ch)) = ''content_block_''"

definition closing :: "'x relay_chunk \<Rightarrow> bool" where
  "closing ch \<longleftrightarrow> rc_event ch = None \<or> rc_error ch \<or> re_type (ev ch) = ''message_delta'' \<or> re_type (ev ch) = ''message_stop''"

definition relay_step :: "('c, 't, 'e) wrapped_client \<Rightarrow> ('x relayed_event \<Rightarrow> bool) \<Rightarrow> (nat \<Rightarrow> bool) \<Rightarrow> 'x relay_chunk \<Rightarrow> 'x relay_state \<Rightarrow> 'x relay_state" where
  "relay_step c reencodes gone ch st0 =
     (if rs_stopped st0 then st0
      else
        (let st = st0\<lparr>rs_tokens := (case rc_usage ch of None \<Rightarrow> rs_tokens st0 | Some u \<Rightarrow> Some u)\<rparr>
         in if is_ping ch then send c reencodes gone ch st
            else if \<not> rs_ran st \<and> is_content ch then st\<lparr>rs_held := held_add ch (rs_held st)\<rparr>
            else if \<not> rs_ran st \<and> \<not> closing ch \<and> hb_events (rs_held st) \<noteq> [] then st\<lparr>rs_held := held_keep ch (rs_held st)\<rparr>
            else if \<not> rs_ran st \<and> closing ch
            then (let (chs, st') = flush c reencodes (rc_error ch) st; st'' = sendAll c reencodes gone chs st'
                  in send c reencodes gone ch st'')
            else send c reencodes gone ch st))"

definition relayRestoring :: "('c, 't, 'e) wrapped_client \<Rightarrow> ('x relayed_event \<Rightarrow> bool) \<Rightarrow> (nat \<Rightarrow> bool) \<Rightarrow> 'x relay_chunk list \<Rightarrow> 'x relay_state" where
  "relayRestoring c reencodes gone source =
     (let st = fold (relay_step c reencodes gone) source relay_start
      in if rs_stopped st \<or> rs_ran st then st
         else let (chs, st') = flush c reencodes True st in sendAll c reencodes gone chs st')"

section \<open>One backward pass per response\<close>

definition pass_inv :: "'x relay_state \<Rightarrow> bool" where
  "pass_inv st \<longleftrightarrow> length (rs_passes st) = (if rs_ran st then 1 else 0) \<and> (rs_stopped st \<longrightarrow> rs_ran st)"

lemma send_inv: "pass_inv st \<Longrightarrow> pass_inv (send c reencodes gone ch st)"
  by (auto simp: pass_inv_def send_def flush_def)

lemma sendAll_inv: "pass_inv st \<Longrightarrow> pass_inv (sendAll c reencodes gone chs st)"
  unfolding sendAll_def by (induction chs arbitrary: st) (simp_all add: send_inv)

lemma flush_inv: "pass_inv st \<Longrightarrow> \<not> rs_ran st \<Longrightarrow> pass_inv (snd (flush c reencodes hadError st))"
  by (auto simp: pass_inv_def flush_def)

lemma relay_step_inv: "pass_inv st \<Longrightarrow> pass_inv (relay_step c reencodes gone ch st)"
proof -
  assume inv: "pass_inv st"
  let ?st = "st\<lparr>rs_tokens := (case rc_usage ch of None \<Rightarrow> rs_tokens st | Some u \<Rightarrow> Some u)\<rparr>"
  have inv': "pass_inv ?st" "pass_inv (?st\<lparr>rs_held := h\<rparr>)" for h using inv by (auto simp: pass_inv_def)
  show ?thesis
    using inv inv' flush_inv [OF inv'(1), of c reencodes "rc_error ch"]
    by (auto simp: relay_step_def Let_def send_inv sendAll_inv split: prod.splits)
qed

lemma relay_fold_inv: "pass_inv st \<Longrightarrow> pass_inv (fold (relay_step c reencodes gone) source st)"
  by (induction source arbitrary: st) (simp_all add: relay_step_inv)

text \<open>
  Every relayed response is followed by exactly one backward pass: whether it ends as it should, with an error, cut short or
  empty, and at whatever chunk its caller leaves.
\<close>

theorem relay_one_pass: "length (rs_passes (relayRestoring c reencodes gone source)) = 1"
proof -
  let ?st = "fold (relay_step c reencodes gone) source relay_start"
  have inv: "pass_inv ?st" by (rule relay_fold_inv) (simp add: pass_inv_def relay_start_def)
  show ?thesis
  proof (cases "rs_stopped ?st \<or> rs_ran ?st")
    case True
    then show ?thesis using inv by (auto simp: relayRestoring_def Let_def pass_inv_def)
  next
    case False
    then have "pass_inv (snd (flush c reencodes True ?st))" "rs_ran (snd (flush c reencodes True ?st))"
      using flush_inv [OF inv] by (simp_all add: flush_def)
    moreover have "rs_ran st \<Longrightarrow> rs_ran (sendAll c reencodes gone chs st)" for chs st
      unfolding sendAll_def by (induction chs arbitrary: st) (simp_all add: send_def)
    ultimately have "pass_inv (sendAll c reencodes gone chs (snd (flush c reencodes True ?st)))"
        "rs_ran (sendAll c reencodes gone chs (snd (flush c reencodes True ?st)))" for chs
      by (simp_all add: sendAll_inv)
    moreover have "relayRestoring c reencodes gone source =
        sendAll c reencodes gone (fst (flush c reencodes True ?st)) (snd (flush c reencodes True ?st))"
      using False by (simp add: relayRestoring_def Let_def case_prod_beta)
    ultimately show ?thesis by (simp add: pass_inv_def)
  qed
qed

section \<open>What a caller that stays receives\<close>

definition hold :: "'x relay_chunk list \<Rightarrow> 'x held_blocks \<Rightarrow> 'x held_blocks" where
  "hold chs h = fold (\<lambda>ch h. if is_content ch then held_add ch h else held_keep ch h) chs h"

definition tokens_from :: "(int \<times> int) option \<Rightarrow> 'x relay_chunk list \<Rightarrow> (int \<times> int) option" where
  "tokens_from t chs = fold (\<lambda>ch u. case rc_usage ch of None \<Rightarrow> u | Some v \<Rightarrow> Some v) chs t"

text \<open>The part of a source up to its first closing chunk, and whether the pass is told of an error.\<close>

definition until_closing :: "'x relay_chunk list \<Rightarrow> 'x relay_chunk list" where
  "until_closing chs = takeWhile (\<lambda>ch. \<not> closing ch) chs @ take 1 (dropWhile (\<lambda>ch. \<not> closing ch) chs)"

definition cut_or_error :: "'x relay_chunk list \<Rightarrow> bool" where
  "cut_or_error chs = (case dropWhile (\<lambda>ch. \<not> closing ch) chs of [] \<Rightarrow> True | ch # _ \<Rightarrow> rc_error ch)"

definition relay_from :: "('c, 't, 'e) wrapped_client \<Rightarrow> ('x relayed_event \<Rightarrow> bool) \<Rightarrow> 'x relay_state \<Rightarrow> 'x relay_chunk list \<Rightarrow> 'x relay_state" where
  "relay_from c reencodes st source =
     (let st' = fold (relay_step c reencodes (\<lambda>_. False)) source st
      in if rs_stopped st' \<or> rs_ran st' then st'
         else let (chs, st'') = flush c reencodes True st' in sendAll c reencodes (\<lambda>_. False) chs st'')"

lemma send_stays: "\<not> rs_stopped st \<Longrightarrow> send c reencodes (\<lambda>_. False) ch st = st\<lparr>rs_out := rs_out st @ [ch]\<rparr>"
  by (simp add: send_def)

lemma sendAll_stays: "\<not> rs_stopped st \<Longrightarrow> sendAll c reencodes (\<lambda>_. False) chs st = st\<lparr>rs_out := rs_out st @ chs\<rparr>"
  unfolding sendAll_def by (induction chs arbitrary: st) (simp_all add: send_stays)

lemma relay_from_Cons:
  "relay_from c reencodes st (ch # source) = relay_from c reencodes (relay_step c reencodes (\<lambda>_. False) ch st) source"
  by (simp add: relay_from_def)

lemma relay_from_ran:
  "rs_ran st \<Longrightarrow> \<not> rs_stopped st \<Longrightarrow> rs_out (relay_from c reencodes st source) = rs_out st @ source"
proof (induction source arbitrary: st)
  case Nil
  then show ?case by (simp add: relay_from_def)
next
  case (Cons ch source)
  have "relay_step c reencodes (\<lambda>_. False) ch st =
      st\<lparr>rs_tokens := (case rc_usage ch of None \<Rightarrow> rs_tokens st | Some u \<Rightarrow> Some u), rs_out := rs_out st @ [ch]\<rparr>"
    using Cons.prems by (simp add: relay_step_def Let_def send_stays)
  then show ?case using Cons by (simp add: relay_from_Cons)
qed

lemma ping_not_closing: "is_ping ch \<Longrightarrow> \<not> closing ch \<and> \<not> is_content ch"
  by (auto simp: is_ping_def closing_def is_content_def)

lemma closing_step:
  assumes "\<not> rs_ran st" "\<not> rs_stopped st" "closing ch"
  shows "rs_out (relay_from c reencodes st (ch # source)) =
    rs_out st @ restore c reencodes (rs_held st) (tokens_from (rs_tokens st) [ch]) (rc_error ch) @ ch # source"
proof -
  have "\<not> is_ping ch" "\<not> is_content ch"
    using assms(3) ping_not_closing [of ch] by (auto simp: closing_def is_content_def)
  then have "relay_step c reencodes (\<lambda>_. False) ch st =
      (let st1 = snd (flush c reencodes (rc_error ch) (st\<lparr>rs_tokens := tokens_from (rs_tokens st) [ch]\<rparr>))
       in st1\<lparr>rs_out := rs_out st1 @ restore c reencodes (rs_held st) (tokens_from (rs_tokens st) [ch]) (rc_error ch) @ [ch]\<rparr>)"
    using assms by (simp add: relay_step_def Let_def flush_def sendAll_stays send_stays tokens_from_def)
  then show ?thesis using assms(2) by (simp add: relay_from_Cons relay_from_ran flush_def)
qed

lemma relay_from_holding:
  assumes "\<not> rs_ran st" "\<not> rs_stopped st" "hb_events (rs_held st) \<noteq> []"
  shows "filter (\<lambda>ch. \<not> is_ping ch) (rs_out (relay_from c reencodes st source)) =
    filter (\<lambda>ch. \<not> is_ping ch) (rs_out st @
      restore c reencodes (hold (takeWhile (\<lambda>ch. \<not> closing ch) (filter (\<lambda>ch. \<not> is_ping ch) source)) (rs_held st))
        (tokens_from (rs_tokens st) (until_closing source)) (cut_or_error source) @
      dropWhile (\<lambda>ch. \<not> closing ch) (filter (\<lambda>ch. \<not> is_ping ch) source))"
  using assms
proof (induction source arbitrary: st)
  case Nil
  then show ?case
    by (simp add: relay_from_def flush_def sendAll_stays hold_def until_closing_def cut_or_error_def tokens_from_def)
next
  case (Cons ch source)
  show ?case
  proof (cases "closing ch")
    case True
    then have "\<not> is_ping ch" using ping_not_closing by blast
    then show ?thesis using True closing_step [OF Cons.prems(1,2) True, of c reencodes source]
      by (simp add: hold_def until_closing_def cut_or_error_def tokens_from_def)
  next
    case going: False
    show ?thesis
    proof (cases "is_ping ch")
      case True
      then have "relay_step c reencodes (\<lambda>_. False) ch st = st\<lparr>rs_tokens := tokens_from (rs_tokens st) [ch], rs_out := rs_out st @ [ch]\<rparr>"
        using Cons.prems by (simp add: relay_step_def Let_def send_stays tokens_from_def)
      then show ?thesis using Cons.IH [of "relay_step c reencodes (\<lambda>_. False) ch st"] Cons.prems True going
        by (simp add: relay_from_Cons until_closing_def cut_or_error_def tokens_from_def)
    next
      case False
      then have "relay_step c reencodes (\<lambda>_. False) ch st =
          st\<lparr>rs_tokens := tokens_from (rs_tokens st) [ch], rs_held := hold [ch] (rs_held st)\<rparr>"
        using Cons.prems going by (simp add: relay_step_def Let_def hold_def tokens_from_def)
      moreover have "hb_events (hold [ch] (rs_held st)) \<noteq> []"
        by (auto simp: hold_def held_add_def held_keep_def Let_def split: option.splits)
      ultimately show ?thesis using Cons.IH [of "relay_step c reencodes (\<lambda>_. False) ch st"] Cons.prems False going
        by (simp add: relay_from_Cons until_closing_def cut_or_error_def tokens_from_def hold_def)
    qed
  qed
qed

lemma relay_from_open:
  assumes "\<not> rs_ran st" "\<not> rs_stopped st" "rs_held st = no_blocks"
  defines "ns \<equiv> \<lambda>source. filter (\<lambda>ch. \<not> is_ping ch) source"
    and "early \<equiv> \<lambda>ch. \<not> is_content ch \<and> \<not> closing ch"
  shows "ns (rs_out (relay_from c reencodes st source)) =
    ns (rs_out st @ takeWhile early (ns source) @
      restore c reencodes (hold (takeWhile (\<lambda>ch. \<not> closing ch) (dropWhile early (ns source))) no_blocks)
        (tokens_from (rs_tokens st) (until_closing source)) (cut_or_error source) @
      dropWhile (\<lambda>ch. \<not> closing ch) (dropWhile early (ns source)))"
  using assms(1-3)
proof (induction source arbitrary: st)
  case Nil
  then show ?case
    by (simp add: ns_def relay_from_def flush_def sendAll_stays hold_def until_closing_def cut_or_error_def tokens_from_def)
next
  case (Cons ch source)
  let ?step = "relay_step c reencodes (\<lambda>_. False) ch st"
  consider (closing) "closing ch" | (content) "\<not> closing ch" "is_content ch" | (early) "early ch" by (auto simp: early_def)
  then show ?case
  proof cases
    case closing
    then have "\<not> is_ping ch" using ping_not_closing by blast
    then show ?thesis using closing closing_step [OF Cons.prems(1,2) closing, of c reencodes source] Cons.prems(3)
      by (simp add: ns_def early_def hold_def until_closing_def cut_or_error_def tokens_from_def)
  next
    case content
    then have "\<not> is_ping ch" using ping_not_closing by blast
    moreover from this have step: "?step = st\<lparr>rs_tokens := tokens_from (rs_tokens st) [ch], rs_held := hold [ch] no_blocks\<rparr>"
      using Cons.prems content by (simp add: relay_step_def Let_def hold_def tokens_from_def)
    moreover have "hb_events (hold [ch] no_blocks) \<noteq> []"
      by (auto simp: hold_def held_add_def held_keep_def Let_def split: option.splits)
    ultimately show ?thesis using relay_from_holding [of ?step c reencodes source] Cons.prems content
      by (simp add: ns_def early_def relay_from_Cons until_closing_def cut_or_error_def tokens_from_def hold_def)
  next
    case early
    then have "?step = st\<lparr>rs_tokens := tokens_from (rs_tokens st) [ch], rs_out := rs_out st @ [ch]\<rparr>"
      using Cons.prems by (simp add: relay_step_def Let_def send_stays tokens_from_def early_def no_blocks_def)
    then show ?thesis using Cons.IH [of ?step] Cons.prems early
      by (simp add: ns_def early_def relay_from_Cons until_closing_def cut_or_error_def tokens_from_def)
  qed
qed

text \<open>Nothing held is a ping.\<close>

definition no_ping_held :: "'x held_event list \<Rightarrow> bool" where
  "no_ping_held evs \<longleftrightarrow> list_all (\<lambda>(ch, e). \<not> is_ping ch \<and> (case e of None \<Rightarrow> True | Some e \<Rightarrow> re_type e \<noteq> ''ping'')) evs"

lemma place_no_ping: "no_ping_held evs \<Longrightarrow> list_all (\<lambda>ch. \<not> is_ping ch) (place reencodes repl placed evs)"
  by (induction reencodes repl placed evs rule: place.induct)
    (auto simp: no_ping_held_def withDelta_def is_ping_def split: option.splits delta_field.splits)

lemma hold_no_ping:
  "no_ping_held (hb_events h) \<Longrightarrow> list_all (\<lambda>ch. \<not> is_ping ch) chs \<Longrightarrow> no_ping_held (hb_events (hold chs h))"
proof (induction chs arbitrary: h)
  case (Cons ch chs)
  have "hb_events (held_add ch h) = hb_events h @ [(ch, Some (ev ch))]"
    by (auto simp: held_add_def Let_def split: option.splits)
  moreover have "is_content ch \<Longrightarrow> re_type (ev ch) \<noteq> ''ping''" by (auto simp: is_content_def)
  ultimately have "no_ping_held (hb_events (hold [ch] h))"
    using Cons.prems by (auto simp: hold_def no_ping_held_def held_keep_def)
  then show ?case using Cons.IH [of "hold [ch] h"] Cons.prems(2) by (simp add: hold_def)
qed (simp add: hold_def)

lemma filter_no_ping: "list_all (\<lambda>ch. \<not> is_ping ch) chs \<Longrightarrow> filter (\<lambda>ch. \<not> is_ping ch) chs = chs"
  by (simp add: list_all_iff filter_id_conv)

lemma restore_no_ping:
  "list_all (\<lambda>ch. \<not> is_ping ch) chs \<Longrightarrow>
   filter (\<lambda>ch. \<not> is_ping ch) (restore c reencodes (hold chs no_blocks) tokens hadError) = restore c reencodes (hold chs no_blocks) tokens hadError"
  using place_no_ping [OF hold_no_ping [of no_blocks chs]]
  by (simp add: restore_def Let_def no_ping_held_def no_blocks_def filter_no_ping)

text \<open>
  What a relay should send, pings apart: the events before the content as they are, the content restored in one piece, and
  from the first closing event on everything as it is.
\<close>

definition relay_spec :: "('c, 't, 'e) wrapped_client \<Rightarrow> ('x relayed_event \<Rightarrow> bool) \<Rightarrow> 'x relay_chunk list \<Rightarrow> 'x relay_chunk list" where
  "relay_spec c reencodes source =
     (let ns = filter (\<lambda>ch. \<not> is_ping ch) source;
          rest = dropWhile (\<lambda>ch. \<not> is_content ch \<and> \<not> closing ch) ns
      in takeWhile (\<lambda>ch. \<not> is_content ch \<and> \<not> closing ch) ns @
         restore c reencodes (hold (takeWhile (\<lambda>ch. \<not> closing ch) rest) no_blocks) (tokens_from None (until_closing source))
           (cut_or_error source) @
         dropWhile (\<lambda>ch. \<not> closing ch) rest)"

text \<open>
  C26.  The relay, event by event, sends what it should.  Whatever events the upstream sends, in whatever order, a caller that
  stays receives, pings apart, the events before the content, the held content restored by one pass that saw all of it and
  the last usage given, and then the rest; an event the relay does not know keeps its place, and a response cut short is
  still restored.
\<close>

theorem relay_refines:
  "filter (\<lambda>ch. \<not> is_ping ch) (rs_out (relayRestoring c reencodes (\<lambda>_. False) source)) = relay_spec c reencodes source"
proof -
  let ?ns = "filter (\<lambda>ch. \<not> is_ping ch) source"
  let ?rest = "dropWhile (\<lambda>ch. \<not> is_content ch \<and> \<not> closing ch) ?ns"
  have sub: "list_all (\<lambda>ch. \<not> is_ping ch) (takeWhile P (dropWhile Q ?ns))" "list_all (\<lambda>ch. \<not> is_ping ch) (dropWhile P (dropWhile Q ?ns))"
      "list_all (\<lambda>ch. \<not> is_ping ch) (takeWhile Q ?ns)" for P Q
    by (auto simp: list_all_iff dest!: set_takeWhileD set_dropWhileD)
  have "relayRestoring c reencodes (\<lambda>_. False) source = relay_from c reencodes relay_start source"
    by (simp add: relayRestoring_def relay_from_def)
  then show ?thesis
    using relay_from_open [of relay_start c reencodes source] sub
    by (simp add: relay_start_def relay_spec_def Let_def filter_no_ping restore_no_ping)
qed

section \<open>The blocks a caller reads\<close>

fun delta_type :: "delta_field \<Rightarrow> string" where
  "delta_type TextField = ''text_delta''"
| "delta_type PartialField = ''input_json_delta''"

fun delta_value :: "delta_field \<Rightarrow> 'x relayed_event \<Rightarrow> string" where
  "delta_value TextField e = re_text e"
| "delta_value PartialField e = re_partialJSON e"

definition delta_of :: "delta_field \<Rightarrow> int \<Rightarrow> 'x relay_chunk \<Rightarrow> bool" where
  "delta_of f i ch \<longleftrightarrow> is_content ch \<and> re_deltaType (ev ch) = delta_type f \<and> re_index (ev ch) = i"

text \<open>What a client assembles for the block of an index: its text, or the input of its tool call.\<close>

definition read_block :: "delta_field \<Rightarrow> int \<Rightarrow> 'x relay_chunk list \<Rightarrow> string" where
  "read_block f i chs = concat (map (\<lambda>ch. delta_value f (ev ch)) (filter (delta_of f i) chs))"

lemma read_block_simps [simp]:
  "read_block f i [] = []"
  "read_block f i (ch # chs) = (if delta_of f i ch then delta_value f (ev ch) else []) @ read_block f i chs"
  by (simp_all add: read_block_def)

lemma read_block_snoc: "read_block f i (chs @ [ch]) = read_block f i chs @ (if delta_of f i ch then delta_value f (ev ch) else [])"
  by (simp add: read_block_def)

definition held_pair :: "'x relay_chunk \<Rightarrow> 'x held_event" where
  "held_pair ch = (ch, if is_content ch then Some (ev ch) else None)"

lemma held_pair_cases: "\<not> is_content ch \<Longrightarrow> held_pair ch = (ch, None)" "is_content ch \<Longrightarrow> held_pair ch = (ch, Some (ev ch))"
  by (simp_all add: held_pair_def)

lemma delta_of_cases:
  "\<not> is_content ch \<Longrightarrow> \<not> delta_of f i ch" "re_index (ev ch) \<noteq> i \<Longrightarrow> \<not> delta_of f i ch"
  "is_content ch \<Longrightarrow> re_index (ev ch) = i \<Longrightarrow> delta_of f i ch \<longleftrightarrow> re_deltaType (ev ch) = delta_type f"
  by (auto simp: delta_of_def)

lemma withDelta_ev:
  assumes "reencodes e"
  shows "rc_event (withDelta reencodes ch e f v) =
    Some (case f of TextField \<Rightarrow> e\<lparr>re_text := v\<rparr> | PartialField \<Rightarrow> e\<lparr>re_partialJSON := v\<rparr>)" "\<not> rc_error (withDelta reencodes ch e f v)"
  using assms by (simp_all add: withDelta_def)

lemma withDelta_delta_of:
  assumes "is_content ch" "reencodes (ev ch)"
  shows "delta_of g i (withDelta reencodes ch (ev ch) f v) = delta_of g i ch"
    and "delta_value f (ev (withDelta reencodes ch (ev ch) f v)) = v"
  using assms by (cases f; auto simp: delta_of_def is_content_def withDelta_ev)+

lemma place_reads:
  assumes repl: "\<And>e. re_index e = i \<Longrightarrow> repl e = (if re_deltaType e = delta_type f then map_option (Pair f) v else None)"
    and enc: "\<forall>ch \<in> set chs. reencodes (ev ch)"
  shows "read_block f i (place reencodes repl placed (map held_pair chs)) =
    (case v of
       None \<Rightarrow> read_block f i chs
     | Some s \<Rightarrow> if i \<in> placed \<or> filter (delta_of f i) chs = [] then [] else s)"
  using enc
proof (induction chs arbitrary: placed)
  case Nil
  then show ?case by (simp split: option.splits)
next
  case (Cons ch chs)
  then have IH: "\<And>placed. read_block f i (place reencodes repl placed (map held_pair chs)) =
      (case v of None \<Rightarrow> read_block f i chs | Some s \<Rightarrow> if i \<in> placed \<or> filter (delta_of f i) chs = [] then [] else s)"
    and enc: "reencodes (ev ch)" by simp_all
  consider (kept) "\<not> is_content ch" | (same) "is_content ch" "re_index (ev ch) = i" | (other) "is_content ch" "re_index (ev ch) \<noteq> i" by blast
  then show ?case
  proof cases
    case kept
    then show ?thesis using IH by (simp add: held_pair_cases delta_of_cases split: option.splits)
  next
    case same
    then show ?thesis using IH withDelta_delta_of [where reencodes = reencodes, OF same(1) enc] repl [OF same(2)]
      by (cases v; cases "re_deltaType (ev ch) = delta_type f") (auto simp: held_pair_cases delta_of_cases)
  next
    case other
    then have no: "\<not> delta_of f i ch" by (simp add: delta_of_def)
    show ?thesis
    proof (cases "repl (ev ch)")
      case None
      then show ?thesis using IH other no by (simp add: held_pair_cases split: option.splits)
    next
      case (Some p)
      obtain g u where "p = (g, u)" by fastforce
      then show ?thesis using IH other no Some withDelta_delta_of(1) [where reencodes = reencodes, OF other(1) enc, of f i g u]
        by (simp add: held_pair_cases split: option.splits)
    qed
  qed
qed

text \<open>Events of the blocks that are restored; every other event goes through unchanged and in its place.\<close>

definition restorable :: "'x held_blocks \<Rightarrow> 'x relay_chunk \<Rightarrow> bool" where
  "restorable h ch \<longleftrightarrow>
     is_content ch \<and>
     (re_deltaType (ev ch) = ''text_delta'' \<and> hb_textPos h (re_index (ev ch)) \<noteq> None \<or>
      re_deltaType (ev ch) = ''input_json_delta'' \<and> hb_toolUse h (re_index (ev ch)))"

lemma replacement_restorable: "is_content ch \<Longrightarrow> replacement h texts args (ev ch) \<noteq> None \<Longrightarrow> restorable h ch"
  by (auto simp: replacement_def restorable_def split: if_splits option.splits)

lemma withDelta_restorable:
  assumes "is_content ch"
  shows "restorable h (withDelta reencodes ch (ev ch) f v) = restorable h ch"
  using assms by (cases f) (auto simp: withDelta_def restorable_def is_content_def)

lemma place_untouched:
  "filter (\<lambda>ch. \<not> restorable h ch) (place reencodes (replacement h texts args) placed (map held_pair chs)) =
   filter (\<lambda>ch. \<not> restorable h ch) chs"
proof (induction chs arbitrary: placed)
  case (Cons ch chs)
  show ?case
  proof (cases "is_content ch \<and> replacement h texts args (ev ch) \<noteq> None")
    case True
    then obtain f v where "replacement h texts args (ev ch) = Some (f, v)" by auto
    then show ?thesis using Cons True replacement_restorable [of ch h texts args] withDelta_restorable [of ch h reencodes f v]
      by (auto simp: held_pair_cases)
  next
    case False
    then have "is_content ch \<Longrightarrow> replacement h texts args (ev ch) = None" by blast
    then show ?thesis using Cons by (cases "is_content ch") (simp_all add: held_pair_cases)
  qed
qed simp

text \<open>
  The order Anthropic streams have: the start of a block comes before the other events of its index and carries no delta.
\<close>

definition ordered :: "'x relay_chunk list \<Rightarrow> bool" where
  "ordered chs \<longleftrightarrow>
     sorted_wrt (\<lambda>a b. re_type (ev b) = ''content_block_start'' \<longrightarrow> re_index (ev a) \<noteq> re_index (ev b)) (filter is_content chs) \<and>
     (\<forall>ch \<in> set chs. re_type (ev ch) = ''content_block_start'' \<longrightarrow> re_deltaType (ev ch) = [])"

definition seen :: "'x relay_chunk list \<Rightarrow> int \<Rightarrow> bool" where
  "seen chs i \<longleftrightarrow> (\<exists>ch \<in> set chs. is_content ch \<and> re_index (ev ch) = i)"

definition blocks_inv :: "'x relay_chunk list \<Rightarrow> 'x held_blocks \<Rightarrow> bool" where
  "blocks_inv chs h \<longleftrightarrow>
     hb_events h = map held_pair chs \<and>
     (\<forall>i pos. hb_textPos h i = Some pos \<longrightarrow> pos < length (hb_texts h) \<and> hb_texts h ! pos = read_block TextField i chs \<and> \<not> hb_toolUse h i) \<and>
     (\<forall>i j pos. hb_textPos h i = Some pos \<longrightarrow> hb_textPos h j = Some pos \<longrightarrow> i = j) \<and>
     (\<forall>i. (hb_textPos h i \<noteq> None \<or> hb_toolUse h i) \<longrightarrow> seen chs i) \<and>
     (\<forall>i. (fst (hb_calls h) i \<noteq> None) = hb_toolUse h i) \<and>
     (\<forall>i call. fst (hb_calls h) i = Some call \<longrightarrow> tc_args call = read_block PartialField i chs)"

lemma blocks_invI:
  assumes "hb_events h = map held_pair chs"
    and "\<And>i pos. hb_textPos h i = Some pos \<Longrightarrow> pos < length (hb_texts h)"
    and "\<And>i pos. hb_textPos h i = Some pos \<Longrightarrow> hb_texts h ! pos = read_block TextField i chs"
    and "\<And>i pos. hb_textPos h i = Some pos \<Longrightarrow> \<not> hb_toolUse h i"
    and "\<And>i j pos. hb_textPos h i = Some pos \<Longrightarrow> hb_textPos h j = Some pos \<Longrightarrow> i = j"
    and "\<And>i. hb_textPos h i \<noteq> None \<or> hb_toolUse h i \<Longrightarrow> seen chs i"
    and "\<And>i. (fst (hb_calls h) i \<noteq> None) = hb_toolUse h i"
    and "\<And>i call. fst (hb_calls h) i = Some call \<Longrightarrow> tc_args call = read_block PartialField i chs"
  shows "blocks_inv chs h"
  unfolding blocks_inv_def using assms by blast

lemma ordered_snoc:
  assumes "ordered (chs @ [ch])"
  shows "ordered chs"
    and "is_content ch \<Longrightarrow> re_type (ev ch) = ''content_block_start'' \<Longrightarrow> ch' \<in> set chs \<Longrightarrow> is_content ch' \<Longrightarrow> re_index (ev ch') \<noteq> re_index (ev ch)"
    and "re_type (ev ch) = ''content_block_start'' \<Longrightarrow> re_deltaType (ev ch) = []"
  using assms by (auto simp: ordered_def sorted_wrt_append)

lemma read_block_absent: "(\<And>ch. ch \<in> set chs \<Longrightarrow> is_content ch \<Longrightarrow> re_index (ev ch) \<noteq> i) \<Longrightarrow> read_block f i chs = []"
  by (induction chs) (auto simp: delta_of_def)

lemma add_delta_fst: "fst (add_delta d s) = (fst s)(td_index d \<mapsto>
     (let a = (case fst s (td_index d) of Some a \<Rightarrow> a | None \<Rightarrow> \<lparr>tc_id = [], tc_name = [], tc_args = []\<rparr>)
      in \<lparr>tc_id = (if td_id d \<noteq> [] then td_id d else tc_id a), tc_name = (if td_name d \<noteq> [] then td_name d else tc_name a),
          tc_args = tc_args a @ td_args d\<rparr>))"
  by (cases s) (simp add: add_delta_def Let_def)

lemma hold_snoc: "hold (chs @ [ch]) h = (if is_content ch then held_add ch (hold chs h) else held_keep ch (hold chs h))"
  by (simp add: hold_def)

lemma blocks_inv_keep:
  assumes "blocks_inv chs h" "\<not> is_content ch"
  shows "blocks_inv (chs @ [ch]) (held_keep ch h)"
proof -
  have "seen chs i \<Longrightarrow> seen (chs @ [ch]) i" for i by (auto simp: seen_def)
  then show ?thesis using assms unfolding blocks_inv_def
    by (auto simp: held_keep_def held_pair_cases read_block_snoc delta_of_cases)
qed

lemma blocks_inv_new:
  assumes "blocks_inv chs h" "is_content ch" "ordered (chs @ [ch])" "re_type (ev ch) = ''content_block_start''"
  shows "hb_textPos h (re_index (ev ch)) = None" and "\<not> hb_toolUse h (re_index (ev ch))"
    and "read_block f (re_index (ev ch)) chs = []" and "re_deltaType (ev ch) = []"
  using ordered_snoc(2,3) [OF assms(3)] assms read_block_absent [of chs "re_index (ev ch)" f]
  unfolding blocks_inv_def seen_def by blast+

lemma blocks_inv_next:
  assumes "blocks_inv chs h" "is_content ch"
  shows "map held_pair (chs @ [ch]) = hb_events h @ [(ch, Some (ev ch))]"
    and "read_block f i (chs @ [ch]) =
      read_block f i chs @ (if i = re_index (ev ch) \<and> re_deltaType (ev ch) = delta_type f then delta_value f (ev ch) else [])"
    and "hb_textPos h i \<noteq> None \<or> hb_toolUse h i \<Longrightarrow> seen (chs @ [ch]) i" and "seen (chs @ [ch]) (re_index (ev ch))"
  using assms by (auto simp: blocks_inv_def held_pair_cases read_block_snoc delta_of_def seen_def)

lemma blocks_invD:
  assumes "blocks_inv chs h"
  shows "hb_textPos h i = Some pos \<Longrightarrow> pos < length (hb_texts h) \<and> hb_texts h ! pos = read_block TextField i chs \<and> \<not> hb_toolUse h i"
    and "hb_textPos h i = Some pos \<Longrightarrow> hb_textPos h j = Some pos \<Longrightarrow> i = j"
    and "(fst (hb_calls h) i \<noteq> None) = hb_toolUse h i"
    and "fst (hb_calls h) i = Some call \<Longrightarrow> tc_args call = read_block PartialField i chs"
  using assms unfolding blocks_inv_def by blast+

lemma blocks_inv_text:
  assumes inv: "blocks_inv chs h" "is_content ch" and "ordered (chs @ [ch])" and start: "starts ''text'' (ev ch)"
  shows "blocks_inv (chs @ [ch]) (held_add ch h)"
proof -
  let ?i = "re_index (ev ch)"
  have add: "held_add ch h = h\<lparr>hb_events := hb_events h @ [(ch, Some (ev ch))], hb_textPos := (hb_textPos h)(?i \<mapsto> length (hb_texts h)),
      hb_texts := hb_texts h @ [[]]\<rparr>" using start by (simp add: held_add_def Let_def)
  have n: "hb_textPos h ?i = None" "\<not> hb_toolUse h ?i" "read_block f ?i chs = []" "re_deltaType (ev ch) = []" for f
    using blocks_inv_new [OF assms(1-3)] start by (auto simp: starts_def)
  note facts = blocks_inv_next [OF inv] and T = blocks_invD(1) [OF inv(1)]
  have below: "hb_textPos h i = Some pos \<Longrightarrow> pos < length (hb_texts h)" for i pos using T by blast
  show ?thesis unfolding add
  proof (rule blocks_invI, goal_cases)
    case (2 i pos)
    then show ?case using below by (auto simp: less_Suc_eq split: if_splits)
  next
    case (3 i pos)
    then show ?case using T n by (auto simp: facts(2) nth_append split: if_splits)
  next
    case (4 i pos)
    then show ?case using T n by (auto split: if_splits)
  next
    case (5 i j pos)
    then show ?case using blocks_invD(2) [OF inv(1)] below [of i "length (hb_texts h)"] below [of j "length (hb_texts h)"]
      by (auto split: if_splits)
  next
    case (6 i)
    then show ?case using facts(3) [of i] facts(4) by (cases "i = ?i") simp_all
  qed (use facts n blocks_invD(3,4) [OF inv(1)] in simp_all)
qed

lemma blocks_inv_tool:
  assumes inv: "blocks_inv chs h" "is_content ch" and "ordered (chs @ [ch])" and start: "starts ''tool_use'' (ev ch)"
  shows "blocks_inv (chs @ [ch]) (held_add ch h)"
proof -
  let ?i = "re_index (ev ch)"
  have "\<not> starts ''text'' (ev ch)" using start by (simp add: starts_def)
  then have add: "held_add ch h = h\<lparr>hb_events := hb_events h @ [(ch, Some (ev ch))], hb_toolUse := (hb_toolUse h)(?i := True),
      hb_calls := add_delta \<lparr>td_index = ?i, td_id = re_blockID (ev ch), td_name = re_blockName (ev ch), td_args = []\<rparr> (hb_calls h)\<rparr>"
    using start by (simp add: held_add_def collect_def Let_def)
  have n: "hb_textPos h ?i = None" "\<not> hb_toolUse h ?i" "read_block f ?i chs = []" "re_deltaType (ev ch) = []" for f
    using blocks_inv_new [OF assms(1-3)] start by (auto simp: starts_def)
  have "fst (hb_calls h) ?i = None" using blocks_invD(3) [OF inv(1)] n(2) by blast
  then show ?thesis unfolding blocks_inv_def add
    using blocks_inv_next [OF inv] blocks_invD [OF inv(1)] n by (auto simp: add_delta_fst Let_def)
qed

lemma blocks_inv_text_delta:
  assumes inv: "blocks_inv chs h" "is_content ch"
    and e: "\<not> starts ''text'' (ev ch)" "\<not> starts ''tool_use'' (ev ch)" "re_deltaType (ev ch) = ''text_delta''"
  shows "blocks_inv (chs @ [ch]) (held_add ch h)"
proof (cases "hb_textPos h (re_index (ev ch))")
  case None
  then have add: "held_add ch h = h\<lparr>hb_events := hb_events h @ [(ch, Some (ev ch))]\<rparr>" using e by (simp add: held_add_def Let_def)
  show ?thesis unfolding blocks_inv_def add
    using blocks_inv_next [OF inv] blocks_invD [OF inv(1)] None e(3) by auto
next
  case (Some pos)
  then have add: "held_add ch h = h\<lparr>hb_events := hb_events h @ [(ch, Some (ev ch))],
      hb_texts := (hb_texts h)[pos := hb_texts h ! pos @ re_text (ev ch)]\<rparr>"
    using e by (simp add: held_add_def Let_def)
  have "i \<noteq> re_index (ev ch) \<Longrightarrow> hb_textPos h i = Some pos' \<Longrightarrow> pos' \<noteq> pos" for i pos'
    using blocks_invD(2) [OF inv(1)] Some by blast
  then show ?thesis unfolding blocks_inv_def add
    using blocks_inv_next [OF inv] blocks_invD [OF inv(1)] Some e(3) by (auto simp: nth_list_update)
qed

lemma blocks_inv_other:
  assumes inv: "blocks_inv chs h" "is_content ch"
    and e: "\<not> starts ''text'' (ev ch)" "\<not> starts ''tool_use'' (ev ch)" "re_deltaType (ev ch) \<noteq> ''text_delta''"
  shows "blocks_inv (chs @ [ch]) (held_add ch h)"
proof (cases "re_deltaType (ev ch) = ''input_json_delta'' \<and> hb_toolUse h (re_index (ev ch))")
  case True
  then have add: "held_add ch h = h\<lparr>hb_events := hb_events h @ [(ch, Some (ev ch))],
      hb_calls := add_delta \<lparr>td_index = re_index (ev ch), td_id = [], td_name = [], td_args = re_partialJSON (ev ch)\<rparr> (hb_calls h)\<rparr>"
    using e by (simp add: held_add_def collect_def Let_def)
  obtain call where "fst (hb_calls h) (re_index (ev ch)) = Some call" using blocks_invD(3) [OF inv(1)] True by blast
  then show ?thesis unfolding blocks_inv_def add
    using blocks_inv_next [OF inv] blocks_invD [OF inv(1)] True by (auto simp: add_delta_fst Let_def)
next
  case False
  then have add: "held_add ch h = h\<lparr>hb_events := hb_events h @ [(ch, Some (ev ch))]\<rparr>" using e by (auto simp: held_add_def Let_def)
  have "fst (hb_calls h) i \<noteq> None \<Longrightarrow> \<not> (i = re_index (ev ch) \<and> re_deltaType (ev ch) = ''input_json_delta'')" for i
    using blocks_invD(3) [OF inv(1)] False by blast
  then show ?thesis unfolding blocks_inv_def add
    using blocks_inv_next [OF inv] blocks_invD [OF inv(1)] e(3) by auto
qed

lemma blocks_inv_add:
  assumes "blocks_inv chs h" "is_content ch" "ordered (chs @ [ch])"
  shows "blocks_inv (chs @ [ch]) (held_add ch h)"
  using blocks_inv_text [OF assms] blocks_inv_tool [OF assms] blocks_inv_text_delta [OF assms(1,2)] blocks_inv_other [OF assms(1,2)]
  by blast

lemma hold_blocks: "ordered chs \<Longrightarrow> blocks_inv chs (hold chs no_blocks)"
proof (induction chs rule: rev_induct)
  case Nil
  then show ?case by (simp add: blocks_inv_def hold_def no_blocks_def)
next
  case (snoc ch chs)
  then have inv: "blocks_inv chs (hold chs no_blocks)" using ordered_snoc(1) by blast
  then show ?case using blocks_inv_keep [OF inv] blocks_inv_add [OF inv _ snoc.prems]
    by (cases "is_content ch") (simp_all add: hold_snoc)
qed

lemma held_restores:
  assumes inv: "blocks_inv chs h" and enc: "\<forall>ch \<in> set chs. reencodes (ev ch)"
    and outcome: "outcome = run_backward c (relay_pass c h tokens hadError)"
  defines "out \<equiv> restore c reencodes h tokens hadError"
  shows "hb_textPos h i = Some pos \<Longrightarrow> read_block TextField i chs \<noteq> [] \<Longrightarrow>
      read_block TextField i out = restored_texts outcome (hb_texts h) ! pos"
    and "hb_toolUse h i \<Longrightarrow> read_block PartialField i chs \<noteq> [] \<Longrightarrow>
      read_block PartialField i out =
        (case restored_args (wc_codec c) outcome (hb_calls h) i of None \<Rightarrow> read_block PartialField i chs | Some a \<Rightarrow> a)"
    and "filter (\<lambda>ch. \<not> restorable h ch) out = filter (\<lambda>ch. \<not> restorable h ch) chs"
proof -
  let ?texts = "restored_texts outcome (hb_texts h)" and ?args = "restored_args (wc_codec c) outcome (hb_calls h)"
  have out: "out = place reencodes (replacement h ?texts ?args) {} (map held_pair chs)"
    using inv outcome by (simp add: out_def restore_def Let_def blocks_inv_def)
  have some: "read_block f i chs \<noteq> [] \<Longrightarrow> filter (delta_of f i) chs \<noteq> []" for f by (auto simp: read_block_def filter_empty_conv)
  show "filter (\<lambda>ch. \<not> restorable h ch) out = filter (\<lambda>ch. \<not> restorable h ch) chs"
    unfolding out by (rule place_untouched)
  {
    assume pos: "hb_textPos h i = Some pos" and some_text: "read_block TextField i chs \<noteq> []"
    have facts: "hb_texts h ! pos = read_block TextField i chs" "\<not> hb_toolUse h i" using inv pos by (auto simp: blocks_inv_def)
    let ?v = "if ?texts ! pos = hb_texts h ! pos then None else Some (?texts ! pos)"
    have "replacement h ?texts ?args e = (if re_deltaType e = delta_type TextField then map_option (Pair TextField) ?v else None)"
      if "re_index e = i" for e
      using that pos facts(2) by (auto simp: replacement_def split: option.splits)
    from place_reads [where placed = "{}" and reencodes = reencodes and chs = chs, OF this enc] show "read_block TextField i out = ?texts ! pos"
      unfolding out using facts(1) some [OF some_text] by (auto split: if_splits)
  }
  {
    assume tool: "hb_toolUse h i" and input: "read_block PartialField i chs \<noteq> []"
    obtain call where call: "fst (hb_calls h) i = Some call" "tc_args call = read_block PartialField i chs"
      using inv tool unfolding blocks_inv_def by (metis option.exhaust)
    have no: "hb_textPos h i = None" using inv tool unfolding blocks_inv_def by (metis option.exhaust)
    let ?v = "case ?args i of None \<Rightarrow> None | Some a \<Rightarrow> if a = tc_args call then None else Some a"
    have "replacement h ?texts ?args e = (if re_deltaType e = delta_type PartialField then map_option (Pair PartialField) ?v else None)"
      if "re_index e = i" for e
      using that tool call(1) no by (auto simp: replacement_def split: option.splits)
    from place_reads [where placed = "{}" and reencodes = reencodes and chs = chs, OF this enc]
    show "read_block PartialField i out = (case ?args i of None \<Rightarrow> read_block PartialField i chs | Some a \<Rightarrow> a)"
      unfolding out using call(2) some [OF input] by (auto split: option.splits if_splits)
  }
qed

text \<open>The texts the pass is given split back into the blocks unless one holds the separator.\<close>

lemma split_texts_append:
  "textBlockSeparator \<notin> set t \<Longrightarrow> split_texts (t @ textBlockSeparator # s) = t # split_texts s"
  by (induction t) auto

lemma split_texts_single: "textBlockSeparator \<notin> set t \<Longrightarrow> split_texts t = [t]"
  by (induction t) auto

lemma split_join_texts: "ts \<noteq> [] \<Longrightarrow> \<forall>t \<in> set ts. textBlockSeparator \<notin> set t \<Longrightarrow> split_texts (join_texts ts) = ts"
  by (induction ts rule: join_texts.induct) (auto simp: split_texts_append split_texts_single)

text \<open>
  C5.  Every block of a relayed response is restored in its place and nothing else is touched.  In the order Anthropic streams
  have, the text a client reads for each text block is the part of the restored text at the position of the block, and the
  input it reads for each of its tool calls is the restored one; when a node changed the text so that it no longer splits
  into the same blocks, the texts are the model's; all other events, thinking blocks and the tools of the server among
  them, go through unchanged and in order.
\<close>

theorem relay_restores_blocks:
  assumes "ordered chs" and "\<forall>ch \<in> set chs. reencodes (ev ch)"
    and "h = hold chs no_blocks" and "outcome = run_backward c (relay_pass c h tokens hadError)"
  shows "(\<forall>i pos. hb_textPos h i = Some pos \<longrightarrow> hb_texts h ! pos = read_block TextField i chs) \<and>
    (\<forall>i pos. hb_textPos h i = Some pos \<longrightarrow> read_block TextField i chs \<noteq> [] \<longrightarrow>
       read_block TextField i (restore c reencodes h tokens hadError) = restored_texts outcome (hb_texts h) ! pos) \<and>
    (\<forall>i. hb_toolUse h i \<longrightarrow> read_block PartialField i chs \<noteq> [] \<longrightarrow>
       read_block PartialField i (restore c reencodes h tokens hadError) =
         (case restored_args (wc_codec c) outcome (hb_calls h) i of None \<Rightarrow> read_block PartialField i chs | Some a \<Rightarrow> a)) \<and>
    filter (\<lambda>ch. \<not> restorable h ch) (restore c reencodes h tokens hadError) = filter (\<lambda>ch. \<not> restorable h ch) chs"
proof -
  have inv: "blocks_inv chs h" using hold_blocks [OF assms(1)] assms(3) by simp
  then have "\<forall>i pos. hb_textPos h i = Some pos \<longrightarrow> hb_texts h ! pos = read_block TextField i chs"
    unfolding blocks_inv_def by blast
  then show ?thesis using held_restores [OF inv assms(2,4)] by blast
qed

definition block_event :: "string \<Rightarrow> string \<Rightarrow> string \<Rightarrow> string \<Rightarrow> unit relay_chunk" where
  "block_event type block delta content =
     \<lparr>rc_event = Some \<lparr>re_type = type, re_index = 0, re_blockType = block, re_blockID = [], re_blockName = [], re_deltaType = delta,
        re_text = content, re_partialJSON = [], re_data = ()\<rparr>, rc_error = False, rc_usage = None, rc_complete = False\<rparr>"

definition person_block :: "unit relay_chunk list" where
  "person_block = [block_event ''content_block_start'' ''text'' [] [], block_event ''content_block_delta'' [] ''text_delta'' ''PER'',
     block_event ''content_block_delta'' [] ''text_delta'' ''SON_1'', block_event ''content_block_stop'' [] [] []]"

theorem relay_restores_blocks_witness:
  "read_block TextField 0
     (restore (restoring_client (\<lambda>_. Some restoring_plugin) (\<lambda>_. Some restoring_plugin)) (\<lambda>_. True) (hold person_block no_blocks) None False) = ''Alice''"
proof -
  let ?c = "restoring_client (\<lambda>_. Some restoring_plugin) (\<lambda>_. Some restoring_plugin)" and ?h = "hold person_block no_blocks"
  have content: "filter is_content person_block = person_block"
    by (simp add: person_block_def block_event_def is_content_def)
  have ordered: "ordered person_block"
    unfolding ordered_def content by (simp add: person_block_def block_event_def)
  have h: "hb_textPos ?h 0 = Some 0" "hb_texts ?h = [''PERSON_1'']"
    by (simp_all add: hold_def person_block_def block_event_def is_content_def held_add_def starts_def no_blocks_def Let_def)
  have read: "read_block TextField 0 person_block \<noteq> []"
    by (simp add: person_block_def block_event_def delta_of_def is_content_def)
  have "restored_texts (run_backward ?c (relay_pass ?c ?h None False)) (hb_texts ?h) = [''Alice'']"
    by (simp add: restored_texts_def restoring_outcome h)
  then show ?thesis
    using relay_restores_blocks [OF ordered _ refl refl, of "\<lambda>_. True" ?c None False] h read by simp
qed

end
