(* ===== verification/Spec2Isabelle.thy ===== *)
theory Spec2Isabelle
  imports EventQL_Roundtrip
    Pipeline_Nodes_Safety
    Model_Fallback
    Model_Executor_Safety
    Quota_Enforcer_Safety
    Subscription_Enforcer_Safety
    Plan_Usage_Hourly
    Usage_Cache
    Usage_Tracker
    Role_Store
    Model_Router
    Relay
begin

text \<open>
  This library is a verification of the gateway part of Xolo: a multi-tenant proxy that routes the requests of the
  members and applications of an organization to language model providers, through pipelines of nodes, under budgets
  and under the subscription plans of the providers.

  A request crosses the parts in this order.  The hooks of \<^verbatim>\<open>internal/adapter/proxy\<close> check the budgets (quota
  enforcer) and the plan of the provider (subscription enforcer); the pipeline engine of \<^verbatim>\<open>internal/pipeline\<close> runs
  the graph of the requested virtual model, whose model nodes may run other graphs; the client it ends with calls the
  provider, with model fallbacks and key failover; the backward pass rewrites the response; the hooks release what they
  reserved.  The events written on the way are searched with the event query language of \<^verbatim>\<open>internal/core/eventql\<close>.

  \<^bold>\<open>Conventions.\<close>  A Go function is a HOL function of the same name where HOL allows it; a method on shared state
  takes the state and returns it; an error is \<open>Inl\<close>; a nil pointer is \<open>None\<close>; a Go map is a function or an association
  list with distinct keys; \<open>int64\<close> sums are wrapped with \<open>wrap64\<close> where the code can overflow, and \<open>float64\<close> values are
  those of theory \<open>Float64\<close>, rational results rounded to nearest even.  Times are nanoseconds since the epoch, and the
  clock is read once per call of a hook.  What the repository does not define (the stores of the database, the clients
  of the genai library, \<open>regexp\<close>, \<open>encoding/json\<close>, \<open>http.ParseTime\<close>, the random source) is a parameter: a field of a
  record of functions that may fail.

  \<^bold>\<open>Shared theories.\<close>
  \<^item> \<open>Xolo_Prelude\<close>: results and their sequencing, strings, wrap-around.
  \<^item> \<open>Float64\<close>: binary64 arithmetic with its rounding error, order and bounds.
  \<^item> \<open>Expiring_Table\<close>: the maps with a time to live that several components sweep (\<^verbatim>\<open>upstream_model_cache.go\<close>,
    \<^verbatim>\<open>active_user_cache.go\<close>, \<^verbatim>\<open>subscription_state.go\<close>), against the log of their writes; the locale
    \<open>expiring_map\<close> is their contract.

  \<^bold>\<open>Event query language\<close> (\<^verbatim>\<open>internal/core/eventql\<close>).
  \<^item> \<open>EventQL_Lexer\<close>, \<open>EventQL_Query\<close>: \<open>lex\<close>, the parser \<open>Compile\<close> and the matcher \<open>Match\<close>.
  \<^item> \<open>EventQL_Parser_Safety\<close>: the parser never reads past its tokens; a compiled query matches exactly the
    conjunction of its filters.  \<open>EventQL_Roundtrip\<close>: compiling a printed query gives it back.

  \<^bold>\<open>Pipelines\<close> (\<^verbatim>\<open>internal/pipeline\<close>, \<^verbatim>\<open>pipeline_graph.go\<close> of the model and of the services).
  \<^item> \<open>Pipeline_Graph\<close>: graphs and their validation.  \<open>Topo_Sort\<close>: Kahn's algorithm with model nodes taken last; it
    returns an order exactly when there is no cycle, guards before models.
  \<^item> \<open>Pipeline_Engine\<close>, \<open>Pipeline_Engine_Safety\<close>: forward and backward passes; the backward pass is the reverse
    composition of the executed nodes, and streaming is only chosen when it changes nothing.
  \<^item> \<open>Pipeline_Nodes\<close>, \<open>Pipeline_Nodes_Safety\<close>: the built-in nodes; no model is reached past a block node that fires,
    and sampling is monotone.
  \<^item> \<open>Model_Access\<close>: qualified names and the access hook with its delegation.  \<open>Model_Executor\<close>,
    \<open>Model_Executor_Safety\<close>: model nodes that run nested graphs; the recursion carries fuel, and the number of
    middlewares and virtual models not yet entered, plus one, is shown to be enough; every model reached was allowed.
    \<open>Model_Fallback\<close>: the client that tries models in order.

  \<^bold>\<open>Budgets\<close> (\<^verbatim>\<open>quota.go\<close>, \<^verbatim>\<open>team.go\<close>, \<^verbatim>\<open>quota_store.go\<close>, \<^verbatim>\<open>quota_enforcer.go\<close>).
  \<^item> \<open>Quota_Cascade\<close>: quotas, their table and the cascade checks of a save, as an invariant of the tables reached by
    checked saves.  \<open>Quota\<close>: the budgets of a request.  \<open>Quota_Enforcer\<close>, \<open>Quota_Enforcer_Safety\<close>: the hook, what it
    lets through and what it refuses.

  \<^bold>\<open>Subscription plans\<close> (\<^verbatim>\<open>billing.go\<close>, \<^verbatim>\<open>provider_key.go\<close>, \<^verbatim>\<open>fair_share.go\<close>, \<^verbatim>\<open>billing_evaluator.go\<close>,
  \<^verbatim>\<open>subscription_state.go\<close>, \<^verbatim>\<open>subscription_enforcer.go\<close>, \<^verbatim>\<open>key_failover_client.go\<close>).
  \<^item> \<open>Plan_Window\<close>: constraints, their windows and the weights of shared windows.  \<open>Fair_Share\<close>: the allocator, with
    float rounding.  Its bounds hold for budgets below \<open>2 ^ 50\<close> units and memberships below \<open>2 ^ 31\<close>, where integers
    are exact floats.  \<open>Fair_Share_Service\<close>: the allocator over the usage store and the count of active users.
  \<^item> \<open>Provider_Keys\<close>: the keys of a provider, their overrides and the pooled plan.
  \<^item> \<open>Subscription_State\<close>: counters and cooldowns, against the log of the marks.  \<open>Plan_Concurrency\<close>: the concurrency
    limit, with requests interleaved at every access to the counters.
  \<^item> \<open>Plan_Evaluator\<close>, \<open>Subscription_Enforcer\<close>, \<open>Subscription_Enforcer_Safety\<close>: the evaluators and the hook; what is
    let through is within the plan, on keys with room; slots do not leak; a 429 closes only what it must; the failover
    moves exactly on exhaustion.  Counters are assumed below \<open>2 ^ 62\<close>, far from their wrap-around.
  \<^bold>\<open>Usage\<close> (\<^verbatim>\<open>usage.go\<close> of the model, \<^verbatim>\<open>usage_store.go\<close>, \<^verbatim>\<open>quota_usage.go\<close>, \<^verbatim>\<open>plan_usage_hourly.go\<close> of the
  database, \<^verbatim>\<open>usage_store.go\<close> and \<^verbatim>\<open>memory.go\<close> of the cache).
  \<^item> \<open>Civil_Time\<close>: dates and the two layouts of the keys of the usage tables, which sort as the times they spell up to the
    year 9999.
  \<^item> \<open>Usage_Store\<close>: the records and the running totals kept beside them; the locale \<open>summed_table\<close> is what their readers
    rely on, and the budget counters are exact after any history.  \<open>Plan_Usage_Hourly\<close>: the reads of a plan's usage from
    hourly sums, equal to the query over the records.
  \<^item> \<open>Usage_Cache\<close>: the cached budget totals, with reads and records interleaved at every critical section.
  \<^item> \<open>Usage_Tracker\<close> (\<^verbatim>\<open>usage_tracker.go\<close>, \<^verbatim>\<open>exchange_rate.go\<close>): the cost of a response, its conversion and its record; composed
    with the counters and the budget hook, spending closes the budgets it is checked against, and costs are accurate up to
    the rounding of three divisions and one conversion.

  \<^bold>\<open>Permissions and attribution\<close> (\<^verbatim>\<open>rbac/permission.go\<close>, \<^verbatim>\<open>team_scope.go\<close>, \<^verbatim>\<open>model_access.go\<close>, \<^verbatim>\<open>model_names.go\<close>).
  \<^item> \<open>Permissions\<close>: the catalogue, the permission sets and what they decide, against a specification over roles and grants.
  \<^item> \<open>Team_Scope\<close>: the hook that attributes a request to one team; a request is only charged to a team of its caller, other
    teams stay hidden, and every name a principal is shown is let through.
  \<^item> \<open>Role_Store\<close> (\<^verbatim>\<open>role_store.go\<close>, the resolver of the memberships middleware): the tables of roles, memberships and teams; the
    permissions of a user or an application are exactly those of the roles and teams it holds now.
  \<^item> \<open>Request_Access\<close> (\<^verbatim>\<open>CanUse\<close>, \<^verbatim>\<open>ResolveRealModel\<close>): the check of a name and its resolution read the same model, unless
    a virtual model has a slash in its name, which makes them disagree.
  \<^item> \<open>Pipeline_Registry\<close> (\<^verbatim>\<open>NewPipelineHookAdapter\<close>, \<^verbatim>\<open>trace_executor.go\<close>): the executors of the proxy; the locale \<open>accounted_clients\<close>
    is what the engine relies on of executors that hand out clients, and every model a pipeline may call, the candidates of
    a fallback chain included, is one the request may use or one its administrators named.
  \<^item> \<open>Pipeline_Hook\<close> (\<^verbatim>\<open>plugin_hook_adapter.go\<close>): the hook that runs pipelines; it runs only the pipeline of what a request names,
    with the access of the request, and no request goes around the middlewares of its organization while their list can be
    read and they leave the model to their model nodes.
  \<^item> \<open>Model_Router\<close> (\<^verbatim>\<open>org_model_router.go\<close>, \<^verbatim>\<open>model_kind.go\<close>): the router from a name to a client and its table of built clients;
    a request only gets clients of the present settings of a model it may use, limiters are shared, and every model a caller is
    shown is served, through the hook of \<open>Team_Scope\<close> and the router.

  \<^bold>\<open>Tools inside a pipeline\<close> (\<^verbatim>\<open>tool_loop_client.go\<close>, \<^verbatim>\<open>tool_inspector.go\<close>, \<^verbatim>\<open>conversation.go\<close>).
  \<^item> \<open>Tool_Loop\<close>: the loop that resolves the tool calls of a model, plain and streamed; it always ends, and both forms agree.
  \<^item> \<open>Conversation\<close>: the tools and values resolved before the first call; filled arguments keep the structure of their
    template, and everything the model is given passed the inspectors.
  \<^item> \<open>Plugin_Node\<close> (\<^verbatim>\<open>plugin_executor.go\<close>, \<^verbatim>\<open>value_context.go\<close>, \<^verbatim>\<open>pluginsdk/request.go\<close>): the calls a plugin node makes; what the SDK
    restores of them is what the node was given, inspectors guard the whole execution, and the executor is an instance of the
    locale \<open>quiet_executor\<close>.  \<open>Plugin_Manager\<close> (\<^verbatim>\<open>manager.go\<close>): restarts, spaced by the cooldown.
  \<^item> \<open>Wrapped_Client\<close> (\<^verbatim>\<open>pipeline_wrapped_client.go\<close>, \<^verbatim>\<open>pipeline_tool_calls.go\<close>): the backward pass on plain and streamed responses, which
    read the same.  \<open>Relay\<close> (\<^verbatim>\<open>pipeline_relay.go\<close>): the same on relayed Anthropic events, against a specification of what is sent.

  \<^bold>\<open>Not modelled.\<close>  The web interface and its generated templates, the HTTP API, authentication, the SQL stores,
  migrations and caches in front of them, provisioning, the plugin host and its protocol, the MCP client, catalogs and
  estimators, webhooks, alerts, configuration and commands: they are input and output around the parts above, or data
  entry on tables.  Of the modelled parts, logs, metrics and the text of messages are left out, and so are Go's locks
  except where \<open>Plan_Concurrency\<close> interleaves their critical sections.
\<close>

end
